(* ===== verification/Prelude.thy ===== *)
theory Prelude
  imports Main "HOL-Library.Word" "HOL-Library.Multiset"
begin

text \<open>
  Shared vocabulary of the development: the C integer types as words, the result type
  of code that can fail, checked access to arrays, the element exchange that the sorting
  routines are made of, and the generic lemmas on lists that several components use.

  Conventions. A C array is a list; reading or writing outside it has no meaning in C, so
  a model that could do so returns the error \<open>Undef\<close>, and a theorem says when it does not.
  A function that reports failure by its return code returns a value of \<open>'a res\<close>:
  \<open>Inl e\<close> for the failure \<open>e\<close>, \<open>Inr x\<close> for the result \<open>x\<close>.
\<close>

unbundle bit_operations_syntax

section \<open>Integer types\<close>

type_synonym u8 = "8 word"
type_synonym u16 = "16 word"
type_synonym u32 = "32 word"
type_synonym u64 = "64 word"

text \<open>A C string or byte buffer.\<close>
type_synonym bytes = "u8 list"

text \<open>Additions of the C type \<open>size_t\<close> wrap around at \<open>2 ^ 64\<close>.\<close>

definition size_max :: nat where
  "size_max = 2 ^ 64"

definition size_add :: "nat \<Rightarrow> nat \<Rightarrow> nat" where
  "size_add a b = (a + b) mod size_max"

definition size_mul :: "nat \<Rightarrow> nat \<Rightarrow> nat" where
  "size_mul a b = (a * b) mod size_max"

lemma size_add_exact [simp]: "a + b < size_max \<Longrightarrow> size_add a b = a + b"
  by (simp add: size_add_def)

lemma size_mul_exact [simp]: "a * b < size_max \<Longrightarrow> size_mul a b = a * b"
  by (simp add: size_mul_def)

section \<open>Failure\<close>

text \<open>
  \<open>Undef\<close> stands for an access outside an array (undefined behaviour of the C code),
  \<open>NoMem\<close> for a failed allocation, \<open>Fail\<close> for an error the code reports with a message
  (its text is kept), \<open>NoFuel\<close> for a loop that did not end within the bound it was given.
\<close>

datatype err = Undef | NoMem | Fail string | NoFuel

type_synonym 'a res = "err + 'a"

definition bnd :: "'a res \<Rightarrow> ('a \<Rightarrow> 'b res) \<Rightarrow> 'b res" where
  "bnd r f = (case r of Inl e \<Rightarrow> Inl e | Inr x \<Rightarrow> f x)"

lemma bnd_Inr [simp]: "bnd (Inr x) f = f x"
  and bnd_Inl [simp]: "bnd (Inl e) f = Inl e"
  by (simp_all add: bnd_def)

lemma bnd_eq_Inr: "bnd r f = Inr y \<longleftrightarrow> (\<exists>x. r = Inr x \<and> f x = Inr y)"
  by (cases r) simp_all

lemma bnd_eq_Inl: "bnd r f = Inl e \<longleftrightarrow> r = Inl e \<or> (\<exists>x. r = Inr x \<and> f x = Inl e)"
  by (cases r) auto

lemma bnd_cong [fundef_cong]:
  "r = r' \<Longrightarrow> (\<And>x. r' = Inr x \<Longrightarrow> f x = g x) \<Longrightarrow> bnd r f = bnd r' g"
  by (cases r') simp_all

lemmas bnd_split = bnd_eq_Inr bnd_eq_Inl

section \<open>Checked array access\<close>

definition rd :: "'a list \<Rightarrow> nat \<Rightarrow> 'a res" where
  "rd xs i = (if i < length xs then Inr (xs ! i) else Inl Undef)"

definition wr :: "'a list \<Rightarrow> nat \<Rightarrow> 'a \<Rightarrow> 'a list res" where
  "wr xs i v = (if i < length xs then Inr (xs[i := v]) else Inl Undef)"

lemma rd_Inr [simp]: "i < length xs \<Longrightarrow> rd xs i = Inr (xs ! i)"
  by (simp add: rd_def)

lemma rd_eq_Inr: "rd xs i = Inr v \<longleftrightarrow> i < length xs \<and> v = xs ! i"
  by (auto simp: rd_def)

lemma wr_Inr [simp]: "i < length xs \<Longrightarrow> wr xs i v = Inr (xs[i := v])"
  by (simp add: wr_def)

lemma wr_eq_Inr: "wr xs i v = Inr ys \<longleftrightarrow> i < length xs \<and> ys = xs[i := v]"
  by (auto simp: wr_def)

text \<open>
  \<open>overwrite xs i ys\<close> is the array \<open>xs\<close> after \<open>memcpy (xs + i, ys, length ys)\<close>; the
  copy is defined when it ends inside the array.
\<close>

definition overwrite :: "'a list \<Rightarrow> nat \<Rightarrow> 'a list \<Rightarrow> 'a list" where
  "overwrite xs i ys = take i xs @ ys @ drop (i + length ys) xs"

definition memcpy :: "'a list \<Rightarrow> nat \<Rightarrow> 'a list \<Rightarrow> 'a list res" where
  "memcpy xs i ys = (if i + length ys \<le> length xs then Inr (overwrite xs i ys) else Inl Undef)"

lemma length_overwrite [simp]:
  "i + length ys \<le> length xs \<Longrightarrow> length (overwrite xs i ys) = length xs"
  by (simp add: overwrite_def)

lemma memcpy_Inr [simp]:
  "i + length ys \<le> length xs \<Longrightarrow> memcpy xs i ys = Inr (overwrite xs i ys)"
  by (simp add: memcpy_def)

lemma take_overwrite:
  "i + length ys \<le> length xs \<Longrightarrow> take (i + length ys) (overwrite xs i ys) = take i xs @ ys"
  by (simp add: overwrite_def)

lemma take_overwrite_before:
  "j \<le> i \<Longrightarrow> i + length ys \<le> length xs \<Longrightarrow> take j (overwrite xs i ys) = take j xs"
  by (simp add: overwrite_def min_def)

lemma drop_overwrite:
  "i + length ys \<le> j \<Longrightarrow> i + length ys \<le> length xs \<Longrightarrow> drop j (overwrite xs i ys) = drop j xs"
  by (simp add: overwrite_def)

section \<open>Exchanging two elements\<close>

definition exch :: "'a list \<Rightarrow> nat \<Rightarrow> nat \<Rightarrow> 'a list" where
  "exch xs i j = xs[i := xs ! j, j := xs ! i]"

lemma length_exch [simp]: "length (exch xs i j) = length xs"
  by (simp add: exch_def)

lemma nth_exch:
  "i < length xs \<Longrightarrow> j < length xs \<Longrightarrow>
   exch xs i j ! k = (if k = j then xs ! i else if k = i then xs ! j else xs ! k)"
  by (cases "k < length xs") (auto simp: exch_def nth_list_update)

lemma mset_exch [simp]: "i < length xs \<Longrightarrow> j < length xs \<Longrightarrow> mset (exch xs i j) = mset xs"
  by (simp add: exch_def mset_swap)

lemma exch_same [simp]: "i < length xs \<Longrightarrow> exch xs i i = xs"
  by (simp add: exch_def)

section \<open>Sorted lists\<close>

lemma sorted_nth_less:
  "sorted_wrt (<) (xs :: 'a::linorder list) \<Longrightarrow> i < j \<Longrightarrow> j < length xs \<Longrightarrow> xs ! i < xs ! j"
  by (rule sorted_wrt_nth_less)

lemma strict_sorted_imp: "sorted_wrt (<) (xs :: 'a::linorder list) \<Longrightarrow> sorted xs"
  by (rule strict_sorted_imp_sorted)

end
