(* ===== verification/Bytes.thy ===== *)
theory Bytes
  imports Prelude
begin

text \<open>
  The byte-level helpers of \<open>cutils.h\<close>: unaligned little-endian reads and writes
  (\<open>get_u16\<close>, \<open>put_u32\<close>, \<dots>; the engine is built for little-endian machines), byte
  swapping, the min/max helpers and \<open>from_hex\<close>. A pointer into a buffer is the buffer and
  an index; a read or write past its end is \<open>Undef\<close>.
\<close>

unbundle bit_operations_syntax

section \<open>Equality of words bit by bit\<close>

text \<open>Two words are equal when their bits at the (finitely many, explicit) positions agree.\<close>

lemma word16_bitsI: "(\<forall>n \<in> set [0..<16]. bit x n = bit y n) \<Longrightarrow> x = (y :: 16 word)"
  and word32_bitsI: "(\<forall>n \<in> set [0..<32]. bit a n = bit b n) \<Longrightarrow> a = (b :: 32 word)"
  and word64_bitsI: "(\<forall>n \<in> set [0..<64]. bit c n = bit d n) \<Longrightarrow> c = (d :: 64 word)"
  and word8_bitsI: "(\<forall>n \<in> set [0..<8]. bit e n = bit f n) \<Longrightarrow> e = (f :: 8 word)"
  by (auto intro: bit_word_eqI)

lemma upt_8: "[0..<8] = [0, 1, 2, 3, 4, 5, 6, 7]"
  and upt_16: "[0..<16] = [0, 1, 2, 3, 4, 5, 6, 7, 8, 9, 10, 11, 12, 13, 14, 15]"
  and upt_32: "[0..<32] =
      [0, 1, 2, 3, 4, 5, 6, 7, 8, 9, 10, 11, 12, 13, 14, 15, 16, 17, 18, 19, 20, 21, 22, 23,
      24, 25, 26, 27, 28, 29, 30, 31]"
  and upt_64: "[0..<64] =
      [0, 1, 2, 3, 4, 5, 6, 7, 8, 9, 10, 11, 12, 13, 14, 15, 16, 17, 18, 19, 20, 21, 22, 23,
      24, 25, 26, 27, 28, 29, 30, 31, 32, 33, 34, 35, 36, 37, 38, 39, 40, 41, 42, 43, 44, 45,
      46, 47, 48, 49, 50, 51, 52, 53, 54, 55, 56, 57, 58, 59, 60, 61, 62, 63]"
  by code_simp+

lemma bit_beyond: "LENGTH('a) \<le> n \<Longrightarrow> \<not> bit (w :: 'a::len word) n"
  by (auto dest: bit_imp_le_length)

lemmas bits_upt = upt_8 upt_16 upt_32 upt_64

section \<open>Little-endian encodings\<close>

definition le16 :: "u16 \<Rightarrow> bytes" where
  "le16 v = [ucast v, ucast (drop_bit 8 v)]"

definition le32 :: "u32 \<Rightarrow> bytes" where
  "le32 v = [ucast v, ucast (drop_bit 8 v), ucast (drop_bit 16 v), ucast (drop_bit 24 v)]"

definition of_le16 :: "u8 \<Rightarrow> u8 \<Rightarrow> u32" where
  "of_le16 a b = ucast a OR push_bit 8 (ucast b)"

definition of_le32 :: "u8 \<Rightarrow> u8 \<Rightarrow> u8 \<Rightarrow> u8 \<Rightarrow> u32" where
  "of_le32 a b c d =
     ucast a OR push_bit 8 (ucast b) OR push_bit 16 (ucast c) OR push_bit 24 (ucast d)"

definition get_u8 :: "bytes \<Rightarrow> nat \<Rightarrow> u32 res" where
  "get_u8 tab i = bnd (rd tab i) (\<lambda>a. Inr (ucast a))"

definition get_u16 :: "bytes \<Rightarrow> nat \<Rightarrow> u32 res" where
  "get_u16 tab i = bnd (rd tab i) (\<lambda>a. bnd (rd tab (i + 1)) (\<lambda>b. Inr (of_le16 a b)))"

definition get_u32 :: "bytes \<Rightarrow> nat \<Rightarrow> u32 res" where
  "get_u32 tab i =
     bnd (rd tab i) (\<lambda>a. bnd (rd tab (i + 1)) (\<lambda>b.
     bnd (rd tab (i + 2)) (\<lambda>c. bnd (rd tab (i + 3)) (\<lambda>d. Inr (of_le32 a b c d)))))"

definition put_u8 :: "bytes \<Rightarrow> nat \<Rightarrow> u8 \<Rightarrow> bytes res" where
  "put_u8 tab i v = wr tab i v"

definition put_u16 :: "bytes \<Rightarrow> nat \<Rightarrow> u16 \<Rightarrow> bytes res" where
  "put_u16 tab i v = memcpy tab i (le16 v)"

definition put_u32 :: "bytes \<Rightarrow> nat \<Rightarrow> u32 \<Rightarrow> bytes res" where
  "put_u32 tab i v = memcpy tab i (le32 v)"

lemma length_le [simp]: "length (le16 v) = 2" "length (le32 w) = 4"
  by (simp_all add: le16_def le32_def)

lemma of_le16_le16: "of_le16 (ucast v) (ucast (drop_bit 8 v)) = ucast (v :: u16)"
  unfolding of_le16_def
  by (rule word32_bitsI) (simp add: bits_upt bit_simps bit_beyond)

lemma of_le32_le32:
  "of_le32 (ucast v) (ucast (drop_bit 8 v)) (ucast (drop_bit 16 v)) (ucast (drop_bit 24 v)) = v"
  unfolding of_le32_def
  by (rule word32_bitsI) (simp add: bits_upt bit_simps)

lemma overwrite_nth:
  assumes "i + length ys \<le> length xs"
  shows "overwrite xs i ys ! j =
    (if j < i then xs ! j else if j < i + length ys then ys ! (j - i) else xs ! j)"
proof (cases "i < length xs")
  case True
  with assms show ?thesis by (auto simp: overwrite_def nth_append min_def)
next
  case False
  with assms have "length ys = 0" by linarith
  then have "ys = []" by simp
  then show ?thesis by (simp add: overwrite_def)
qed

lemma get_u16_bound: "i + 1 < length tab \<Longrightarrow> \<exists>v. get_u16 tab i = Inr v"
  by (simp add: get_u16_def)

lemma get_u32_Inr:
  "i + 3 < length tab \<Longrightarrow>
   get_u32 tab i = Inr (of_le32 (tab ! i) (tab ! (i + 1)) (tab ! (i + 2)) (tab ! (i + 3)))"
  by (simp add: get_u32_def)

lemma get_u16_Inr:
  "i + 1 < length tab \<Longrightarrow> get_u16 tab i = Inr (of_le16 (tab ! i) (tab ! (i + 1)))"
  by (simp add: get_u16_def)

lemma get_put_u32_same:
  assumes "put_u32 tab i v = Inr tab'"
  shows "get_u32 tab' i = Inr v"
proof -
  from assms have "i + 4 \<le> length tab" and tab': "tab' = overwrite tab i (le32 v)"
    by (auto simp: put_u32_def memcpy_def split: if_splits)
  then show ?thesis
    by (simp add: get_u32_Inr overwrite_nth) (simp add: le32_def of_le32_le32)
qed

lemma get_put_u16_same:
  assumes "put_u16 tab i v = Inr tab'"
  shows "get_u16 tab' i = Inr (ucast v)"
proof -
  from assms have "i + 2 \<le> length tab" and tab': "tab' = overwrite tab i (le16 v)"
    by (auto simp: put_u16_def memcpy_def split: if_splits)
  then show ?thesis
    by (simp add: get_u16_Inr overwrite_nth) (simp add: le16_def of_le16_le16)
qed

section \<open>Byte swapping\<close>

definition bswap16 :: "u16 \<Rightarrow> u16" where
  "bswap16 x = (drop_bit 8 x) OR (push_bit 8 x)"

definition bswap32 :: "u32 \<Rightarrow> u32" where
  "bswap32 v =
     drop_bit 24 (v AND 0xff000000) OR drop_bit 8 (v AND 0x00ff0000) OR
     push_bit 8 (v AND 0x0000ff00) OR push_bit 24 (v AND 0x000000ff)"

definition bswap64 :: "u64 \<Rightarrow> u64" where
  "bswap64 v =
     drop_bit (7 * 8) (v AND push_bit (7 * 8) 0xff) OR
     drop_bit (5 * 8) (v AND push_bit (6 * 8) 0xff) OR
     drop_bit (3 * 8) (v AND push_bit (5 * 8) 0xff) OR
     drop_bit (1 * 8) (v AND push_bit (4 * 8) 0xff) OR
     push_bit (1 * 8) (v AND push_bit (3 * 8) 0xff) OR
     push_bit (3 * 8) (v AND push_bit (2 * 8) 0xff) OR
     push_bit (5 * 8) (v AND push_bit (1 * 8) 0xff) OR
     push_bit (7 * 8) (v AND push_bit (0 * 8) 0xff)"

lemma bswap16_involution: "bswap16 (bswap16 x) = x"
  unfolding bswap16_def by (rule word16_bitsI) (simp add: bits_upt bit_simps)

lemma bswap32_involution: "bswap32 (bswap32 x) = x"
  unfolding bswap32_def by (rule word32_bitsI) (simp add: bits_upt bit_simps)

lemma bswap64_involution: "bswap64 (bswap64 x) = x"
  unfolding bswap64_def by (rule word64_bitsI) (simp add: bits_upt bit_simps)

lemma bswap32_reverses: "le32 (bswap32 v) = rev (le32 v)"
  unfolding bswap32_def le32_def 
  by (simp, intro conjI; rule word8_bitsI; simp add: bits_upt bit_simps)

section \<open>Minimum, maximum, hexadecimal digits\<close>

definition max_int :: "int \<Rightarrow> int \<Rightarrow> int" where
  "max_int a b = (if a > b then a else b)"

definition min_int :: "int \<Rightarrow> int \<Rightarrow> int" where
  "min_int a b = (if a < b then a else b)"

lemma max_min_int: "max_int a b = max a b" "min_int a b = min a b"
  by (auto simp: max_int_def min_int_def)

text \<open>Character constants of the C code.\<close>

abbreviation ch :: "char \<Rightarrow> 'a::len word" where
  "ch c \<equiv> of_char c"

text \<open>\<open>from_hex\<close> takes a promoted byte; the result is the digit or -1 (\<open>None\<close>).\<close>

definition from_hex :: "u8 \<Rightarrow> u32 option" where
  "from_hex c =
     (if c \<ge> ch CHR ''0'' \<and> c \<le> ch CHR ''9'' then Some (ucast (c - ch CHR ''0''))
      else if c \<ge> ch CHR ''A'' \<and> c \<le> ch CHR ''F'' then Some (ucast (c - ch CHR ''A'' + 10))
      else if c \<ge> ch CHR ''a'' \<and> c \<le> ch CHR ''f'' then Some (ucast (c - ch CHR ''a'' + 10))
      else None)"

end
