(* ===== verification/Allocator.thy ===== *)
theory Allocator
  imports Prelude
begin

text \<open>
  The default allocation functions of \<open>quickjs.c\<close> (\<open>js_def_malloc\<close>, \<open>js_def_free\<close>,
  \<open>js_def_realloc\<close>), which keep the accounting that enforces the memory limit every chip
  runs under (\<open>JS_SetMemoryLimit\<close>, called by \<open>js.cpp\<close> with 655359 bytes).

  A pointer is represented by all this code reads of the block behind it, its usable size
  (\<open>malloc_usable_size\<close>): \<open>None\<close> is \<open>NULL\<close>. The functions \<open>malloc\<close> and \<open>realloc\<close> of the C
  library are parameters that give the usable size of the block they return, or \<open>None\<close>.

  At the end stands the interface that the growing buffers of \<open>cutils.c\<close> and
  \<open>libunicode.c\<close> rely on (\<open>DynBufReallocFunc\<close>), as the locale \<open>realloc_contract\<close>, with
  \<open>lre_realloc\<close>, the function QuickJS passes, as its interpretation.
\<close>

section \<open>Memory accounting\<close>

definition MALLOC_OVERHEAD :: nat where
  "MALLOC_OVERHEAD = 8"

record JSMallocState =
  malloc_count :: nat
  malloc_size :: nat
  malloc_limit :: nat

text \<open>Subtraction of the C type \<open>size_t\<close>.\<close>

definition size_sub :: "nat \<Rightarrow> nat \<Rightarrow> nat" where
  "size_sub a b = (a + (size_max - b mod size_max)) mod size_max"

lemma size_sub_exact [simp]:
  assumes "b \<le> a" and "a < size_max"
  shows "size_sub a b = a - b"
proof -
  have b: "b mod size_max = b" using assms by simp
  have "size_sub a b = (a + (size_max - b)) mod size_max"
    by (simp only: size_sub_def b)
  also have "a + (size_max - b) = (a - b) + size_max"
    using assms by simp
  also have "\<dots> mod size_max = a - b"
    using assms(2) by (simp only: mod_add_self2) simp
  finally show ?thesis .
qed

type_synonym libc_malloc = "nat \<Rightarrow> nat option"
type_synonym libc_realloc = "nat \<Rightarrow> nat \<Rightarrow> nat option"

definition js_def_malloc ::
  "libc_malloc \<Rightarrow> JSMallocState \<Rightarrow> nat \<Rightarrow> (nat option \<times> JSMallocState) res" where
  "js_def_malloc lm s sz =
     (if sz = 0 then Inl Undef
      else if size_add (malloc_size s) sz > malloc_limit s then Inr (None, s)
      else (case lm sz of
              None \<Rightarrow> Inr (None, s)
            | Some us \<Rightarrow>
                Inr (Some us,
                     s\<lparr>malloc_count := size_add (malloc_count s) 1,
                       malloc_size := size_add (malloc_size s) (size_add us MALLOC_OVERHEAD)\<rparr>)))"

definition js_def_free :: "JSMallocState \<Rightarrow> nat option \<Rightarrow> JSMallocState" where
  "js_def_free s p =
     (case p of
        None \<Rightarrow> s
      | Some us \<Rightarrow>
          s\<lparr>malloc_count := size_sub (malloc_count s) 1,
            malloc_size := size_sub (malloc_size s) (size_add us MALLOC_OVERHEAD)\<rparr>)"

definition js_def_realloc ::
  "libc_malloc \<Rightarrow> libc_realloc \<Rightarrow> JSMallocState \<Rightarrow> nat option \<Rightarrow> nat
     \<Rightarrow> (nat option \<times> JSMallocState) res" where
  "js_def_realloc lm lr s p sz =
     (case p of
        None \<Rightarrow> (if sz = 0 then Inr (None, s) else js_def_malloc lm s sz)
      | Some old_size \<Rightarrow>
          if sz = 0
          then Inr (None,
                    s\<lparr>malloc_count := size_sub (malloc_count s) 1,
                      malloc_size := size_sub (malloc_size s) (size_add old_size MALLOC_OVERHEAD)\<rparr>)
          else if size_sub (size_add (malloc_size s) sz) old_size > malloc_limit s
          then Inr (None, s)
          else (case lr old_size sz of
                  None \<Rightarrow> Inr (None, s)
                | Some us \<Rightarrow>
                    Inr (Some us,
                         s\<lparr>malloc_size := size_add (malloc_size s) (size_sub us old_size)\<rparr>)))"

text \<open>
  Abstraction: the live blocks as a multiset of usable sizes; a block costs its usable
  size and a header.
\<close>

definition block_cost :: "nat \<Rightarrow> nat" where
  "block_cost us = us + MALLOC_OVERHEAD"

definition live_cost :: "nat multiset \<Rightarrow> nat" where
  "live_cost M = sum_mset (image_mset block_cost M)"

lemma live_cost_simps [simp]:
  "live_cost {#} = 0"
  "live_cost (add_mset us M) = us + MALLOC_OVERHEAD + live_cost M"
  by (simp_all add: live_cost_def block_cost_def)

datatype mem_op = Malloc nat | Free nat | Realloc nat nat

text \<open>
  One client request against the allocator: \<open>Free\<close> and \<open>Realloc\<close> name a live block by its
  usable size. The second component is the multiset of live blocks afterwards.
\<close>

fun mem_step ::
  "libc_malloc \<Rightarrow> libc_realloc \<Rightarrow> mem_op \<Rightarrow> JSMallocState \<times> nat multiset
     \<Rightarrow> (JSMallocState \<times> nat multiset) res" where
  "mem_step lm lr (Malloc n) (s, M) =
     bnd (js_def_malloc lm s n) (\<lambda>(p, s').
       Inr (s', case p of None \<Rightarrow> M | Some us \<Rightarrow> add_mset us M))"
| "mem_step lm lr (Free us) (s, M) =
     (if us \<in># M then Inr (js_def_free s (Some us), M - {#us#}) else Inl Undef)"
| "mem_step lm lr (Realloc us n) (s, M) =
     (if us \<in># M
      then bnd (js_def_realloc lm lr s (Some us) n) (\<lambda>(p, s').
             Inr (s', case p of
                        None \<Rightarrow> (if n = 0 then M - {#us#} else M)
                      | Some us' \<Rightarrow> add_mset us' (M - {#us#})))
      else Inl Undef)"

fun mem_run ::
  "libc_malloc \<Rightarrow> libc_realloc \<Rightarrow> mem_op list \<Rightarrow> JSMallocState \<times> nat multiset
     \<Rightarrow> (JSMallocState \<times> nat multiset) res" where
  "mem_run lm lr [] c = Inr c"
| "mem_run lm lr (x # xs) c = bnd (mem_step lm lr x c) (mem_run lm lr xs)"

text \<open>
  What the C library promises: a block is at least as large as requested, at most
  \<open>slack\<close> bytes larger, and never larger than \<open>PTRDIFF_MAX\<close>.
\<close>

definition PTRDIFF_MAX :: nat where
  "PTRDIFF_MAX = 2 ^ 63 - 1"

definition libc_ok :: "nat \<Rightarrow> libc_malloc \<Rightarrow> libc_realloc \<Rightarrow> bool" where
  "libc_ok slack lm lr \<longleftrightarrow>
     (\<forall>n us. lm n = Some us \<longrightarrow> n \<le> us \<and> us \<le> n + slack \<and> us \<le> PTRDIFF_MAX) \<and>
     (\<forall>k n us. lr k n = Some us \<longrightarrow> n \<le> us \<and> us \<le> n + slack \<and> us \<le> PTRDIFF_MAX)"

text \<open>The limit is far enough from the end of \<open>size_t\<close> that no account wraps around.\<close>

definition limit_ok :: "nat \<Rightarrow> JSMallocState \<Rightarrow> bool" where
  "limit_ok slack s \<longleftrightarrow> malloc_limit s + slack + MALLOC_OVERHEAD < 2 ^ 62"

text \<open>
  The invariant: exact accounts, and the accounted size at most one block's slack and
  header above the limit (the check is made before the header is added).
\<close>

definition mem_inv :: "nat \<Rightarrow> nat \<Rightarrow> nat \<Rightarrow> JSMallocState \<times> nat multiset \<Rightarrow> bool" where
  "mem_inv slack c0 b0 = (\<lambda>(s, M).
     malloc_count s = c0 + size M \<and>
     malloc_size s = b0 + live_cost M \<and>
     malloc_size s \<le> malloc_limit s + slack + MALLOC_OVERHEAD \<and>
     c0 \<le> b0 \<and> limit_ok slack s)"

lemma libc_okD:
  assumes "libc_ok slack lm lr"
  shows libc_ok_malloc: "lm n = Some us \<Longrightarrow> n \<le> us \<and> us \<le> n + slack \<and> us \<le> PTRDIFF_MAX"
    and libc_ok_realloc: "lr k n = Some us \<Longrightarrow> n \<le> us \<and> us \<le> n + slack \<and> us \<le> PTRDIFF_MAX"
  using assms by (auto simp: libc_ok_def)

lemmas mem_arith = PTRDIFF_MAX_def size_max_def MALLOC_OVERHEAD_def limit_ok_def

lemma size_le_block_cost: "size M \<le> live_cost M"
  by (induction M) (auto simp: MALLOC_OVERHEAD_def)

lemma mem_inv_count: "mem_inv slack c0 b0 (s, M) \<Longrightarrow> malloc_count s \<le> malloc_size s"
  using size_le_block_cost [of M] by (simp add: mem_inv_def)

lemma remove_block:
  assumes "us \<in># M"
  shows "live_cost M = us + MALLOC_OVERHEAD + live_cost (M - {#us#})"
    and "size M = Suc (size (M - {#us#}))"
  using live_cost_simps(2) [of us "M - {#us#}"] size_add_mset [of us "M - {#us#}"] assms
  by (simp_all del: size_add_mset)

lemma size_add_sub:
  assumes "c \<le> a + b" and "a + b - c < size_max" and "c < size_max"
  shows "size_add a (size_sub b c) = a + b - c"
proof -
  have "size_add a (size_sub b c) = (a + (b + (size_max - c))) mod size_max"
    using assms(3) by (simp add: size_add_def size_sub_def mod_simps)
  also have "a + (b + (size_max - c)) = (a + b - c) + size_max"
    using assms(1,3) by simp
  finally show ?thesis using assms(2) by simp
qed

section \<open>Every request keeps the invariant\<close>

lemma mem_inv_malloc:
  assumes inv: "mem_inv slack c0 b0 (s, M)" and lc: "libc_ok slack lm lr"
    and st: "mem_step lm lr (Malloc n) (s, M) = Inr c"
  shows "mem_inv slack c0 b0 c"
proof (cases "size_add (malloc_size s) n > malloc_limit s \<or> lm n = None \<or> n = 0")
  case True
  then show ?thesis
    using st inv by (auto simp: js_def_malloc_def split: if_splits)
next
  case False
  then obtain us where us: "lm n = Some us" and n0: "n \<noteq> 0"
    and lim: "size_add (malloc_size s) n \<le> malloc_limit s" by auto
  from st us n0 lim have c: "c = (s\<lparr>malloc_count := size_add (malloc_count s) 1,
      malloc_size := size_add (malloc_size s) (size_add us MALLOC_OVERHEAD)\<rparr>, add_mset us M)"
    by (simp add: js_def_malloc_def)
  note facts = mem_inv_count [OF inv] libc_ok_malloc [OF lc us]
    inv [unfolded mem_inv_def mem_arith prod.case]
  have "size_add (malloc_size s) n = malloc_size s + n"
    using facts by (intro size_add_exact) (simp add: mem_arith)
  moreover have "size_add us MALLOC_OVERHEAD = us + MALLOC_OVERHEAD"
    using facts by (intro size_add_exact) (simp add: mem_arith)
  moreover have "size_add (malloc_size s) (us + MALLOC_OVERHEAD) = malloc_size s + (us + MALLOC_OVERHEAD)"
    using facts by (intro size_add_exact) (simp add: mem_arith)
  moreover have "size_add (malloc_count s) 1 = malloc_count s + 1"
    using facts by (intro size_add_exact) (simp add: mem_arith)
  ultimately show ?thesis
    using lim facts unfolding c by (simp add: mem_inv_def mem_arith)
qed

lemma mem_inv_free:
  assumes inv: "mem_inv slack c0 b0 (s, M)" and us: "us \<in># M"
  shows "mem_inv slack c0 b0
    (s\<lparr>malloc_count := size_sub (malloc_count s) 1,
       malloc_size := size_sub (malloc_size s) (size_add us MALLOC_OVERHEAD)\<rparr>, M - {#us#})"
proof -
  note facts = mem_inv_count [OF inv] inv [unfolded mem_inv_def mem_arith prod.case]
    remove_block [OF us]
  have "size_add us MALLOC_OVERHEAD = us + MALLOC_OVERHEAD"
    using facts by (intro size_add_exact) (simp add: mem_arith)
  moreover have "size_sub (malloc_size s) (us + MALLOC_OVERHEAD) = malloc_size s - (us + MALLOC_OVERHEAD)"
    using facts by (intro size_sub_exact) (simp_all add: mem_arith)
  moreover have "size_sub (malloc_count s) 1 = malloc_count s - 1"
    using facts by (intro size_sub_exact) (simp_all add: mem_arith)
  ultimately show ?thesis
    using facts by (simp add: mem_inv_def mem_arith)
qed

lemma mem_inv_realloc:
  assumes inv: "mem_inv slack c0 b0 (s, M)" and lc: "libc_ok slack lm lr"
    and us: "us \<in># M" and n0: "n \<noteq> 0"
    and lim: "size_sub (size_add (malloc_size s) n) us \<le> malloc_limit s"
    and lr: "lr us n = Some us'"
  shows "mem_inv slack c0 b0
    (s\<lparr>malloc_size := size_add (malloc_size s) (size_sub us' us)\<rparr>, add_mset us' (M - {#us#}))"
proof -
  note facts = mem_inv_count [OF inv] libc_ok_realloc [OF lc lr]
    inv [unfolded mem_inv_def mem_arith prod.case] remove_block [OF us]
  have "size_add (malloc_size s) n = malloc_size s + n"
    using facts by (intro size_add_exact) (simp add: mem_arith)
  moreover have "size_sub (malloc_size s + n) us = malloc_size s + n - us"
    using facts by (intro size_sub_exact) (simp_all add: mem_arith)
  moreover have "size_add (malloc_size s) (size_sub us' us) = malloc_size s + us' - us"
    using facts by (intro size_add_sub) (simp_all add: mem_arith)
  ultimately show ?thesis
    using lim facts by (simp add: mem_inv_def mem_arith)
qed

lemma mem_inv_step:
  assumes inv: "mem_inv slack c0 b0 (s, M)" and lc: "libc_ok slack lm lr"
    and st: "mem_step lm lr x (s, M) = Inr c"
  shows "mem_inv slack c0 b0 c"
proof (cases x)
  case (Malloc n)
  with assms show ?thesis by (blast intro: mem_inv_malloc)
next
  case (Free us)
  with inv st show ?thesis
    by (auto simp: js_def_free_def intro: mem_inv_free [unfolded One_nat_def] split: if_splits)
next
  case (Realloc us n)
  with inv st lc show ?thesis
    by (auto simp: js_def_realloc_def not_less
        intro: mem_inv_free [unfolded One_nat_def] mem_inv_realloc
        split: if_splits option.splits)
qed

lemma mem_inv_run:
  "mem_inv slack c0 b0 c \<Longrightarrow> libc_ok slack lm lr \<Longrightarrow> mem_run lm lr xs c = Inr c' \<Longrightarrow>
   mem_inv slack c0 b0 c'"
proof (induction xs arbitrary: c)
  case (Cons x xs)
  obtain s M where c: "c = (s, M)" by (cases c)
  from Cons.prems obtain c1 where "mem_step lm lr x c = Inr c1" and "mem_run lm lr xs c1 = Inr c'"
    by (auto simp: bnd_eq_Inr)
  with Cons c show ?case by (blast intro: mem_inv_step)
qed simp

section \<open>The interface of the growing buffers\<close>

text \<open>
  A \<open>DynBufReallocFunc\<close>, for a block seen as the list of its elements: given the block
  and a size, a block of that size or \<open>NULL\<close>. The contents of the new part are left to the
  allocator.
\<close>

type_synonym 'a realloc_func = "'a list \<Rightarrow> nat \<Rightarrow> 'a list option"

locale realloc_contract =
  fixes ra :: "'a realloc_func"
  assumes ra_length: "ra b n = Some b' \<Longrightarrow> length b' = n"
    and ra_prefix: "ra b n = Some b' \<Longrightarrow> take (min (length b) n) b' = take (min (length b) n) b"
begin

lemma ra_grow:
  assumes "ra b n = Some b'" and "length b \<le> n" and "k \<le> length b"
  shows "take k b' = take k b"
proof -
  have "take (length b) b' = b"
    using ra_prefix [OF assms(1)] assms(2) by (simp add: min_absorb1)
  then show ?thesis using assms(3) by (metis min.absorb1 take_take)
qed

end

text \<open>
  \<open>lre_realloc\<close>: what the engine passes, \<open>js_def_realloc\<close> under the memory limit, seen on
  the contents of a block. \<open>esz\<close> is the size of an element in bytes, \<open>junk\<close> what the
  allocator leaves in new memory.
\<close>

definition lre_realloc ::
  "libc_malloc \<Rightarrow> libc_realloc \<Rightarrow> JSMallocState \<Rightarrow> nat \<Rightarrow> 'a \<Rightarrow> 'a realloc_func" where
  "lre_realloc lm lr s esz junk b n =
     (let p = (if b = [] then None else Some (length b * esz)) in
      case js_def_realloc lm lr s p (size_mul n esz) of
        Inr (Some us, s') \<Rightarrow> Some (take n b @ replicate (n - length b) junk)
      | _ \<Rightarrow> None)"

lemma lre_realloc_Some:
  "lre_realloc lm lr s esz junk b n = Some b' \<Longrightarrow> b' = take n b @ replicate (n - length b) junk"
  by (auto simp: lre_realloc_def Let_def split: sum.splits prod.splits option.splits)

interpretation lre: realloc_contract "lre_realloc lm lr s esz junk" for lm lr s esz junk
  by unfold_locales (auto dest!: lre_realloc_Some simp: min_def)

section \<open>Properties\<close>

text \<open>C15. Under a C library that keeps its documented bounds, any sequence of allocations, frees
and reallocations leaves the accounts exact: the count and the size of the live blocks, plus
what was accounted before; and the accounted size never exceeds the limit by more than one
block's rounding and header.\<close>

theorem mem_accounts_exact:
  assumes "mem_inv slack c0 b0 (s, M)" and "libc_ok slack lm lr"
    and "mem_run lm lr xs (s, M) = Inr (s', M')"
  shows "malloc_count s' = c0 + size M' \<and> malloc_size s' = b0 + live_cost M' \<and>
    malloc_size s' \<le> malloc_limit s' + slack + MALLOC_OVERHEAD"
  using mem_inv_run [OF assms] by (simp add: mem_inv_def)

text \<open>A C library with no rounding, and the accounts of a chip before its first allocation.\<close>

definition plain_malloc :: libc_malloc where
  "plain_malloc n = (if n \<le> 1000000 then Some n else None)"

definition plain_realloc :: libc_realloc where
  "plain_realloc k n = plain_malloc n"

definition chip_memory :: JSMallocState where
  "chip_memory = \<lparr>malloc_count = 0, malloc_size = 0, malloc_limit = 655359\<rparr>"

lemma plain_libc_ok: "libc_ok 0 plain_malloc plain_realloc"
  by (auto simp: libc_ok_def plain_malloc_def plain_realloc_def PTRDIFF_MAX_def split: if_splits)

lemma chip_memory_inv: "mem_inv 0 0 0 (chip_memory, {#})"
  by (simp add: mem_inv_def chip_memory_def limit_ok_def MALLOC_OVERHEAD_def live_cost_def)

lemma mem_accounts_exact_witness:
  "\<exists>s' M'. mem_run plain_malloc plain_realloc
      [Malloc 100, Realloc 100 300, Malloc 50, Free 300, Malloc 700000] (chip_memory, {#}) = Inr (s', M') \<and>
    M' = {#50#} \<and> malloc_count s' = 0 + size M' \<and> malloc_size s' = 0 + live_cost M' \<and>
    malloc_size s' \<le> malloc_limit s' + 0 + MALLOC_OVERHEAD"
proof -
  let ?xs = "[Malloc 100, Realloc 100 300, Malloc 50, Free 300, Malloc 700000]"
  obtain s' where r: "mem_run plain_malloc plain_realloc ?xs (chip_memory, {#}) = Inr (s', {#50#})"
    by (simp add: js_def_malloc_def js_def_realloc_def js_def_free_def plain_malloc_def
        plain_realloc_def chip_memory_def size_add_def size_sub_def size_max_def MALLOC_OVERHEAD_def)
  show ?thesis
    using mem_accounts_exact [OF chip_memory_inv plain_libc_ok r] r by blast
qed

end
