(* ===== verification/DynBuf.thy ===== *)
theory DynBuf
  imports Allocator Bytes
begin

text \<open>
  The dynamic buffer package of \<open>cutils.c\<close>, and \<open>dbuf_insert\<close> of \<open>libregexp.c\<close>.

  \<open>buf\<close> is the allocated block (a \<open>NULL\<close> pointer is the empty block), \<open>dsize\<close> the C field
  \<open>size\<close>: the number of bytes in use. Every operation returns the C return code (0 or -1)
  with the new buffer; a copy that would leave the block is \<open>Undef\<close>. \<open>realloc_func\<close> is the
  allocator the buffer was initialised with; the lemmas are proved in \<open>realloc_contract\<close>.
\<close>

section \<open>The package\<close>

record DynBuf =
  buf :: bytes
  dsize :: nat
  allocated_size :: nat
  error :: bool
  realloc_func :: "u8 realloc_func"

definition dbuf_init2 :: "u8 realloc_func \<Rightarrow> DynBuf" where
  "dbuf_init2 ra =
     \<lparr>buf = [], dsize = 0, allocated_size = 0, error = False, realloc_func = ra\<rparr>"

definition dbuf_realloc :: "DynBuf \<Rightarrow> nat \<Rightarrow> int \<times> DynBuf" where
  "dbuf_realloc s new_size =
     (if new_size > allocated_size s
      then if error s then (-1, s)
           else (let sz = size_mul (allocated_size s) 3 div 2;
                     new_size = (if sz > new_size then sz else new_size)
                 in case realloc_func s (buf s) new_size of
                      None \<Rightarrow> (-1, s\<lparr>error := True\<rparr>)
                    | Some new_buf \<Rightarrow> (0, s\<lparr>buf := new_buf, allocated_size := new_size\<rparr>))
      else (0, s))"

definition dbuf_write :: "DynBuf \<Rightarrow> nat \<Rightarrow> bytes \<Rightarrow> (int \<times> DynBuf) res" where
  "dbuf_write s offset data =
     (let e = size_add offset (length data); (r, s) = dbuf_realloc s e in
      if r \<noteq> 0 then Inr (-1, s)
      else bnd (memcpy (buf s) offset data) (\<lambda>b.
           Inr (0, s\<lparr>buf := b, dsize := (if e > dsize s then e else dsize s)\<rparr>)))"

definition dbuf_put :: "DynBuf \<Rightarrow> bytes \<Rightarrow> (int \<times> DynBuf) res" where
  "dbuf_put s data =
     (let n = size_add (dsize s) (length data);
          (r, s) = (if n > allocated_size s then dbuf_realloc s n else (0, s)) in
      if r \<noteq> 0 then Inr (-1, s)
      else bnd (memcpy (buf s) (dsize s) data) (\<lambda>b.
           Inr (0, s\<lparr>buf := b, dsize := size_add (dsize s) (length data)\<rparr>)))"

definition dbuf_put_self :: "DynBuf \<Rightarrow> nat \<Rightarrow> nat \<Rightarrow> (int \<times> DynBuf) res" where
  "dbuf_put_self s offset len =
     (let n = size_add (dsize s) len;
          (r, s) = (if n > allocated_size s then dbuf_realloc s n else (0, s)) in
      if r \<noteq> 0 then Inr (-1, s)
      else if offset + len > length (buf s) then Inl Undef
      else bnd (memcpy (buf s) (dsize s) (take len (drop offset (buf s)))) (\<lambda>b.
           Inr (0, s\<lparr>buf := b, dsize := size_add (dsize s) len\<rparr>)))"

definition dbuf_putc :: "DynBuf \<Rightarrow> u8 \<Rightarrow> (int \<times> DynBuf) res" where
  "dbuf_putc s c = dbuf_put s [c]"

definition dbuf_put_u16 :: "DynBuf \<Rightarrow> u16 \<Rightarrow> (int \<times> DynBuf) res" where
  "dbuf_put_u16 s v = dbuf_put s (le16 v)"

definition dbuf_put_u32 :: "DynBuf \<Rightarrow> u32 \<Rightarrow> (int \<times> DynBuf) res" where
  "dbuf_put_u32 s v = dbuf_put s (le32 v)"

text \<open>The C string ends before its first zero byte.\<close>

definition dbuf_putstr :: "DynBuf \<Rightarrow> bytes \<Rightarrow> (int \<times> DynBuf) res" where
  "dbuf_putstr s str = dbuf_put s (takeWhile (\<lambda>c. c \<noteq> 0) str)"

text \<open>
  \<open>dbuf_printf\<close> after formatting: \<open>out\<close> is the text \<open>vsnprintf\<close> produces, without its
  terminating zero, written through the local buffer of 128 bytes when it fits.
\<close>

definition dbuf_printf :: "DynBuf \<Rightarrow> bytes \<Rightarrow> (int \<times> DynBuf) res" where
  "dbuf_printf s out =
     (if length out < 128 then dbuf_put s out
      else (let (r, s) = dbuf_realloc s (size_add (size_add (dsize s) (length out)) 1) in
            if r \<noteq> 0 then Inr (-1, s)
            else bnd (memcpy (buf s) (dsize s)
                        (take (allocated_size s - dsize s - 1) out @ [0])) (\<lambda>b.
                 Inr (0, s\<lparr>buf := b, dsize := size_add (dsize s) (length out)\<rparr>))))"

definition dbuf_free :: "DynBuf \<Rightarrow> DynBuf" where
  "dbuf_free s =
     s\<lparr>buf := [], dsize := 0, allocated_size := 0, error := False,
       realloc_func := (\<lambda>_ _. None)\<rparr>"

definition dbuf_error :: "DynBuf \<Rightarrow> bool" where
  "dbuf_error s = error s"

definition dbuf_set_error :: "DynBuf \<Rightarrow> DynBuf" where
  "dbuf_set_error s = s\<lparr>error := True\<rparr>"

text \<open>\<open>dbuf_insert\<close> of \<open>libregexp.c\<close>: open a gap of \<open>len\<close> bytes at \<open>pos\<close>.\<close>

definition dbuf_insert :: "DynBuf \<Rightarrow> nat \<Rightarrow> nat \<Rightarrow> (int \<times> DynBuf) res" where
  "dbuf_insert s pos len =
     (let (r, s) = dbuf_realloc s (size_add (dsize s) len) in
      if r \<noteq> 0 then Inr (-1, s)
      else if pos > dsize s then Inl Undef
      else bnd (memcpy (buf s) (pos + len) (take (dsize s - pos) (drop pos (buf s)))) (\<lambda>b.
           Inr (0, s\<lparr>buf := b, dsize := size_add (dsize s) len\<rparr>)))"

section \<open>Invariant and abstract contents\<close>

definition contents :: "DynBuf \<Rightarrow> bytes" where
  "contents s = take (dsize s) (buf s)"

definition dbuf_ok :: "DynBuf \<Rightarrow> bool" where
  "dbuf_ok s \<longleftrightarrow> length (buf s) = allocated_size s \<and> dsize s \<le> allocated_size s \<and>
     allocated_size s < size_max"

lemma length_contents [simp]: "dbuf_ok s \<Longrightarrow> length (contents s) = dsize s"
  by (simp add: contents_def dbuf_ok_def)

lemma dbuf_init2_ok [simp]: "dbuf_ok (dbuf_init2 ra)" "contents (dbuf_init2 ra) = []"
  by (simp_all add: dbuf_ok_def contents_def dbuf_init2_def size_max_def)

text \<open>
  What an operation that is to turn the contents \<open>c\<close> into \<open>c'\<close> promises: it succeeds and
  does so, or it fails with the sticky error flag set and the contents as they were.
\<close>

definition dbuf_step :: "DynBuf \<Rightarrow> bytes \<Rightarrow> int \<times> DynBuf \<Rightarrow> bool" where
  "dbuf_step s c' = (\<lambda>(r, s').
     dbuf_ok s' \<and> realloc_func s' = realloc_func s \<and>
     (r = 0 \<and> contents s' = c' \<and> error s' = error s \<or>
      r = -1 \<and> contents s' = contents s \<and> error s'))"

section \<open>Correctness for every allocator that keeps the contract\<close>

locale dynbuf_alloc = realloc_contract ra for ra :: "u8 realloc_func"
begin

lemma dbuf_realloc_spec:
  assumes ok: "dbuf_ok s" and n: "n < size_max" and s: "realloc_func s = ra"
    and r: "dbuf_realloc s n = (r, s')"
  shows "dbuf_ok s' \<and> realloc_func s' = ra \<and> dsize s' = dsize s \<and>
    (\<forall>k \<le> length (buf s). take k (buf s') = take k (buf s)) \<and>
    (r = 0 \<and> error s' = error s \<and> n \<le> allocated_size s' \<or> r = -1 \<and> error s')"
proof (cases "n > allocated_size s \<and> \<not> error s")
  case False
  with r ok s show ?thesis by (auto simp: dbuf_realloc_def split: if_splits)
next
  case True
  define m where "m = (if size_mul (allocated_size s) 3 div 2 > n
                       then size_mul (allocated_size s) 3 div 2 else n)"
  have m: "n \<le> m" "m < size_max"
    using n by (auto simp: m_def size_mul_def size_max_def)
  show ?thesis
  proof (cases "ra (buf s) m")
    case None
    with True r ok s show ?thesis
      by (simp add: dbuf_realloc_def m_def [symmetric] Let_def dbuf_ok_def) auto
  next
    case (Some b)
    with True r s have s': "r = 0" "s' = s\<lparr>buf := b, allocated_size := m\<rparr>"
      by (simp_all add: dbuf_realloc_def m_def [symmetric] Let_def)
    have "length b = m" by (rule ra_length [OF Some])
    moreover have "\<forall>k \<le> length (buf s). take k b = take k (buf s)"
      using ok True m by (intro allI impI ra_grow [OF Some]) (simp_all add: dbuf_ok_def)
    ultimately show ?thesis
      using ok True m s unfolding s' by (simp add: dbuf_ok_def)
  qed
qed

text \<open>Common part of the operations that append: reserve, copy, advance the size.\<close>

lemma append_spec:
  assumes ok: "dbuf_ok s" and n: "dsize s + length d < size_max" and s: "realloc_func s = ra"
    and r: "(if dsize s + length d > allocated_size s
             then dbuf_realloc s (dsize s + length d) else (0, s)) = (r, s1)"
  shows "r = -1 \<and> dbuf_step s c (r, s1) \<or>
    r = 0 \<and> dsize s1 = dsize s \<and> dsize s + length d \<le> length (buf s1) \<and>
    (\<forall>k \<le> length (buf s). take k (buf s1) = take k (buf s)) \<and>
    dbuf_step s (contents s @ d)
      (0, s1\<lparr>buf := overwrite (buf s1) (dsize s) d, dsize := dsize s + length d\<rparr>)"
proof -
  have "dbuf_ok s1 \<and> realloc_func s1 = ra \<and> dsize s1 = dsize s \<and>
    (\<forall>k \<le> length (buf s). take k (buf s1) = take k (buf s)) \<and>
    (r = 0 \<and> error s1 = error s \<and> dsize s + length d \<le> allocated_size s1 \<or> r = -1 \<and> error s1)"
    using dbuf_realloc_spec [OF ok n s, of r s1] r ok s by (auto split: if_splits)
  moreover from ok have "dsize s \<le> length (buf s)" by (simp add: dbuf_ok_def)
  ultimately show ?thesis
    using ok s by (auto simp: dbuf_step_def dbuf_ok_def contents_def take_overwrite)
qed

lemma dbuf_put_spec:
  assumes ok: "dbuf_ok s" and n: "dsize s + length d < size_max" and s: "realloc_func s = ra"
  shows "\<exists>rs. dbuf_put s d = Inr rs \<and> dbuf_step s (contents s @ d) rs"
proof -
  obtain r s1 where r: "(if dsize s + length d > allocated_size s
             then dbuf_realloc s (dsize s + length d) else (0, s)) = (r, s1)"
    by fastforce
  show ?thesis
    using append_spec [OF ok n s r, of "contents s @ d"] n r
    by (auto simp: dbuf_put_def Let_def)
qed

lemma dbuf_put_self_spec:
  assumes ok: "dbuf_ok s" and n: "dsize s + len < size_max" and s: "realloc_func s = ra"
    and off: "off + len \<le> dsize s"
  shows "\<exists>rs. dbuf_put_self s off len = Inr rs \<and>
    dbuf_step s (contents s @ take len (drop off (contents s))) rs"
proof -
  define d where "d = take len (drop off (contents s))"
  have len: "length d = len" using ok off by (simp add: d_def)
  with n have n': "dsize s + length d < size_max" by simp
  obtain r s1 where r: "(if dsize s + length d > allocated_size s
             then dbuf_realloc s (dsize s + length d) else (0, s)) = (r, s1)"
    by fastforce
  show ?thesis
  proof (cases "r = 0")
    case False
    then show ?thesis
      using append_spec [OF ok n' s r, of "contents s @ d"] n r [unfolded len]
      by (auto simp: dbuf_put_self_def Let_def d_def)
  next
    case True
    note a = append_spec [OF ok n' s r, of "contents s @ d"]
    from a True have st: "dsize s1 = dsize s" "dsize s + length d \<le> length (buf s1)"
      "\<forall>k \<le> length (buf s). take k (buf s1) = take k (buf s)"
      "dbuf_step s (contents s @ d)
        (0, s1\<lparr>buf := overwrite (buf s1) (dsize s) d, dsize := dsize s + length d\<rparr>)"
      by auto
    have "dsize s \<le> length (buf s)" using ok by (simp add: dbuf_ok_def)
    then have "take (dsize s) (buf s1) = contents s"
      using st(3) by (simp add: contents_def)
    then have "take (off + len) (buf s1) = take (off + len) (contents s)"
      using off by (metis min_absorb1 take_take)
    then have "drop off (take (off + len) (buf s1)) = drop off (take (off + len) (contents s))"
      by (rule arg_cong)
    then have d: "take len (drop off (buf s1)) = d"
      by (simp add: d_def drop_take)
    have "dbuf_put_self s off len =
        Inr (0, s1\<lparr>buf := overwrite (buf s1) (dsize s) d, dsize := dsize s + length d\<rparr>)"
      using True st(1,2) r [unfolded len] n off len d by (simp add: dbuf_put_self_def)
    then show ?thesis using st(4) by (simp add: d_def)
  qed
qed

lemma dbuf_write_spec:
  assumes ok: "dbuf_ok s" and n: "off + length d < size_max" and s: "realloc_func s = ra"
    and off: "off \<le> dsize s"
  shows "\<exists>rs. dbuf_write s off d = Inr rs \<and>
    dbuf_step s (take off (contents s) @ d @ drop (off + length d) (contents s)) rs"
proof -
  obtain r s1 where r: "dbuf_realloc s (off + length d) = (r, s1)" by fastforce
  note a = dbuf_realloc_spec [OF ok n s r]
  have sz: "dsize s \<le> length (buf s)" using ok by (simp add: dbuf_ok_def)
  with a have c: "take (dsize s) (buf s1) = contents s" by (simp add: contents_def)
  let ?b = "overwrite (buf s1) off d"
  show ?thesis
  proof (cases "r = 0")
    case False
    with a r n c s ok show ?thesis
      by (auto simp: dbuf_write_def dbuf_step_def contents_def)
  next
    case True
    with a have len: "off + length d \<le> length (buf s1)" "dsize s \<le> length (buf s1)"
      by (auto simp: dbuf_ok_def)
    have "take (max (off + length d) (dsize s)) ?b =
      take off (contents s) @ d @ drop (off + length d) (contents s)"
    proof (cases "off + length d \<le> dsize s")
      case t: True
      have "take (dsize s) ?b = take off (buf s1) @ d @ drop (off + length d) (take (dsize s) (buf s1))"
        using t len off by (simp add: overwrite_def take_drop)
      then show ?thesis using t off c by (metis max.absorb2 min_absorb1 take_take)
    next
      case f: False
      have "take off (buf s1) = take off (contents s)"
        using off c by (metis min_absorb1 take_take)
      then show ?thesis using f len ok by (simp add: take_overwrite)
    qed
    then show ?thesis
      using True a r n len s by (auto simp: dbuf_write_def dbuf_step_def contents_def dbuf_ok_def max_def Let_def)
  qed
qed

lemma dbuf_insert_spec:
  assumes ok: "dbuf_ok s" and n: "dsize s + len < size_max" and s: "realloc_func s = ra"
    and pos: "pos \<le> dsize s"
  shows "\<exists>rs gap. dbuf_insert s pos len = Inr rs \<and> length gap = len \<and>
    dbuf_step s (take pos (contents s) @ gap @ drop pos (contents s)) rs"
proof -
  obtain r s1 where r: "dbuf_realloc s (dsize s + len) = (r, s1)" by fastforce
  note a = dbuf_realloc_spec [OF ok n s r]
  have sz: "dsize s \<le> length (buf s)" using ok by (simp add: dbuf_ok_def)
  with a have c: "take (dsize s) (buf s1) = contents s" by (simp add: contents_def)
  show ?thesis
  proof (cases "r = 0")
    case False
    with a r n c s show ?thesis
      by (intro exI [of _ "(r, s1)"] exI [of _ "replicate len 0"])
        (auto simp: dbuf_insert_def dbuf_step_def contents_def)
  next
    case True
    let ?tail = "take (dsize s - pos) (drop pos (buf s1))"
    have tail: "?tail = drop pos (contents s)"
      by (simp add: c [symmetric] drop_take)
    from a True have len: "dsize s + len \<le> length (buf s1)"
      by (auto simp: dbuf_ok_def)
    let ?b = "overwrite (buf s1) (pos + len) ?tail"
    let ?gap = "take len (drop pos (buf s1))"
    have lt: "length ?tail = dsize s - pos" using len pos by simp
    have "take (pos + len + length ?tail) ?b = take (pos + len) (buf s1) @ ?tail"
      using len lt pos by (intro take_overwrite) simp
    also have "take (pos + len) (buf s1) = take pos (buf s1) @ ?gap"
      by (simp add: take_add)
    also have "take pos (buf s1) = take pos (contents s)"
      using pos c by (metis min_absorb1 take_take)
    finally have "take (dsize s + len) ?b = take pos (contents s) @ ?gap @ drop pos (contents s)"
      using lt pos tail by (simp add: add.commute add.left_commute)
    moreover have "memcpy (buf s1) (pos + len) ?tail = Inr ?b" "length ?b = length (buf s1)"
      using lt len pos by simp_all
    ultimately show ?thesis
      using True a r n pos len s
      by (intro exI [of _ "(0, s1\<lparr>buf := ?b, dsize := dsize s + len\<rparr>)"] exI [of _ ?gap])
        (auto simp: dbuf_insert_def dbuf_step_def contents_def dbuf_ok_def)
  qed
qed

end

text \<open>The allocator the engine passes keeps the contract, so its buffers have these facts.\<close>

interpretation lre_dbuf: dynbuf_alloc "lre_realloc lm lr s 1 junk" for lm lr s junk
  by unfold_locales

section \<open>A sequence of appends\<close>

text \<open>
  The parser ignores the return codes while it emits and asks \<open>dbuf_error\<close> at the end:
  this is sound because the error flag is sticky and no failed append changes the
  contents. \<open>dbuf_puts\<close> is such a sequence.
\<close>

fun dbuf_puts :: "DynBuf \<Rightarrow> bytes list \<Rightarrow> DynBuf res" where
  "dbuf_puts s [] = Inr s"
| "dbuf_puts s (d # ds) = bnd (dbuf_put s d) (\<lambda>(_, s). dbuf_puts s ds)"

context dynbuf_alloc
begin

lemma dbuf_puts_spec:
  assumes "dbuf_ok s" and "realloc_func s = ra"
    and "dsize s + length (concat ds) < size_max"
  shows "\<exists>s'. dbuf_puts s ds = Inr s' \<and> dbuf_ok s' \<and> realloc_func s' = ra \<and>
    (\<not> error s' \<longrightarrow> contents s' = contents s @ concat ds) \<and> (error s \<longrightarrow> error s')"
  using assms
proof (induction ds arbitrary: s)
  case (Cons d ds)
  from Cons.prems obtain r s1 where p: "dbuf_put s d = Inr (r, s1)"
    and st: "dbuf_step s (contents s @ d) (r, s1)"
    using dbuf_put_spec [of s d] by auto
  have len: "length (contents s1) = dsize s1" "length (contents s) = dsize s"
    using st Cons.prems by (auto simp: dbuf_step_def)
  have "contents s1 = contents s @ d \<or> contents s1 = contents s"
    using st by (auto simp: dbuf_step_def)
  then have "length (contents s1) \<le> length (contents s) + length d" by auto
  with len have "dsize s1 \<le> dsize s + length d" by simp
  with Cons.prems st obtain s' where "dbuf_puts s1 ds = Inr s'" "dbuf_ok s'" "realloc_func s' = ra"
    "\<not> error s' \<longrightarrow> contents s' = contents s1 @ concat ds" "error s1 \<longrightarrow> error s'"
    using Cons.IH [of s1] by (auto simp: dbuf_step_def)
  with p st show ?case by (auto simp: dbuf_step_def)
qed simp

end

section \<open>Properties\<close>

text \<open>C16. The parser's emission discipline is sound: a sequence of appends whose results are not
looked at never writes outside the buffer, keeps the error flag once it is set, and when the
flag is clear at the end the buffer holds exactly the concatenation of all that was appended.\<close>

theorem dbuf_appends_concatenate:
  assumes "dbuf_ok s" and "realloc_func s = lre_realloc lm lr m 1 junk"
    and "dsize s + length (concat ds) < size_max"
  shows "\<exists>s'. dbuf_puts s ds = Inr s' \<and> dbuf_ok s' \<and>
    (\<not> error s' \<longrightarrow> contents s' = contents s @ concat ds) \<and> (error s \<longrightarrow> error s')"
  using lre_dbuf.dbuf_puts_spec [OF assms] by blast

definition empty_dbuf :: DynBuf where
  "empty_dbuf = dbuf_init2 (lre_realloc plain_malloc plain_realloc chip_memory 1 0)"

lemma empty_dbuf_ok: "dbuf_ok empty_dbuf" "dsize empty_dbuf = 0" "contents empty_dbuf = []"
  "realloc_func empty_dbuf = lre_realloc plain_malloc plain_realloc chip_memory 1 0"
  by (simp_all add: empty_dbuf_def) (simp_all add: dbuf_init2_def)

lemma dbuf_appends_concatenate_witness:
  "\<exists>s'. dbuf_puts empty_dbuf [[1, 2], [3]] = Inr s' \<and> dbuf_ok s' \<and>
    (\<not> error s' \<longrightarrow> contents s' = contents empty_dbuf @ concat [[1, 2], [3]]) \<and>
    (error empty_dbuf \<longrightarrow> error s')"
  by (rule dbuf_appends_concatenate [OF empty_dbuf_ok(1,4)])
    (simp add: empty_dbuf_ok size_max_def)

text \<open>\<open>dbuf_insert\<close>, with which the compiler inserts a jump before code it has already
emitted, opens a gap of \<open>len\<close> bytes at \<open>pos\<close> and keeps the bytes on both sides, or fails with
the contents unchanged and the error flag set.\<close>

theorem dbuf_insert_opens_gap:
  assumes "dbuf_ok s" and "dsize s + len < size_max"
    and "realloc_func s = lre_realloc lm lr m 1 junk" and "pos \<le> dsize s"
  shows "\<exists>r s' gap. dbuf_insert s pos len = Inr (r, s') \<and> length gap = len \<and> dbuf_ok s' \<and>
    (r = 0 \<and> contents s' = take pos (contents s) @ gap @ drop pos (contents s) \<or>
     r = -1 \<and> contents s' = contents s \<and> error s')"
proof -
  obtain rs gap where "dbuf_insert s pos len = Inr rs" "length gap = len"
    "dbuf_step s (take pos (contents s) @ gap @ drop pos (contents s)) rs"
    using lre_dbuf.dbuf_insert_spec [OF assms] by blast
  then show ?thesis by (cases rs) (auto simp: dbuf_step_def)
qed

definition four_dbuf :: DynBuf where
  "four_dbuf = empty_dbuf\<lparr>buf := [1, 2, 3, 4], dsize := 4, allocated_size := 4\<rparr>"

lemma dbuf_insert_opens_gap_witness:
  "\<exists>r s' gap. dbuf_insert four_dbuf 1 5 = Inr (r, s') \<and> length gap = 5 \<and> dbuf_ok s' \<and>
    (r = 0 \<and> contents s' = take 1 (contents four_dbuf) @ gap @ drop 1 (contents four_dbuf) \<or>
     r = -1 \<and> contents s' = contents four_dbuf \<and> error s')"
  by (rule dbuf_insert_opens_gap)
    (simp_all add: four_dbuf_def empty_dbuf_ok dbuf_ok_def size_max_def)

end
