(* ===== verification/CStrings.thy ===== *)
theory CStrings
  imports Bytes
begin

text \<open>
  The string helpers of \<open>cutils.c\<close>: \<open>pstrcpy\<close>, \<open>pstrcat\<close>, \<open>strstart\<close>, \<open>has_suffix\<close>. A C
  string is a byte buffer that contains a zero byte; its text is what stands before the
  first one (\<open>cstr\<close>). Pointers are indices; access outside a buffer is \<open>Undef\<close>.
\<close>

definition cstr :: "bytes \<Rightarrow> bytes" where
  "cstr s = takeWhile (\<lambda>c. c \<noteq> 0) s"

definition terminated :: "bytes \<Rightarrow> bool" where
  "terminated s \<longleftrightarrow> 0 \<in> set s"

text \<open>\<open>strlen\<close> reads up to the terminating zero.\<close>

definition strlen :: "bytes \<Rightarrow> nat res" where
  "strlen s = (if terminated s then Inr (length (cstr s)) else Inl Undef)"

section \<open>pstrcpy and pstrcat\<close>

text \<open>The copy loop: \<open>q\<close> is the write position, \<open>lim\<close> the position \<open>buf + buf_size - 1\<close>.\<close>

function pstrcpy_loop :: "bytes \<Rightarrow> nat \<Rightarrow> nat \<Rightarrow> bytes \<Rightarrow> nat \<Rightarrow> bytes res" where
  "pstrcpy_loop buf q lim str i =
     bnd (rd str i) (\<lambda>c.
       if c = 0 \<or> q \<ge> lim then wr buf q 0
       else bnd (wr buf q c) (\<lambda>buf. pstrcpy_loop buf (q + 1) lim str (i + 1)))"
  by pat_completeness auto
termination
  by (relation "measure (\<lambda>(buf, q, lim, str, i). lim - q)") auto

declare pstrcpy_loop.simps [simp del]

definition pstrcpy :: "bytes \<Rightarrow> nat \<Rightarrow> int \<Rightarrow> bytes \<Rightarrow> bytes res" where
  "pstrcpy buf q0 buf_size str =
     (if buf_size \<le> 0 then Inr buf
      else pstrcpy_loop buf q0 (q0 + nat (buf_size - 1)) str 0)"

definition pstrcat :: "bytes \<Rightarrow> int \<Rightarrow> bytes \<Rightarrow> bytes res" where
  "pstrcat buf buf_size s =
     bnd (strlen buf) (\<lambda>len.
       if int len < buf_size then pstrcpy buf len (buf_size - int len) s else Inr buf)"

lemma cstr_drop_Cons:
  assumes "i < length str" and "str ! i \<noteq> 0"
  shows "cstr (drop i str) = str ! i # cstr (drop (Suc i) str)"
  using assms by (simp add: cstr_def Cons_nth_drop_Suc [symmetric])

lemma terminated_drop:
  assumes "terminated (drop i str)"
  shows "i < length str" and "str ! i \<noteq> 0 \<Longrightarrow> terminated (drop (Suc i) str)"
proof -
  show "i < length str"
    using assms by (rule_tac ccontr) (simp add: terminated_def)
  then show "str ! i \<noteq> 0 \<Longrightarrow> terminated (drop (Suc i) str)"
    using assms by (auto simp: terminated_def Cons_nth_drop_Suc [symmetric])
qed

lemma pstrcpy_loop_spec:
  assumes "lim < length buf" and "q \<le> lim" and "terminated (drop i str)"
  shows "pstrcpy_loop buf q lim str i =
    Inr (overwrite buf q (take (lim - q) (cstr (drop i str)) @ [0]))"
  using assms
proof (induction buf q lim str i rule: pstrcpy_loop.induct)
  case (1 buf q lim str i)
  note t = terminated_drop [OF "1.prems"(3)]
  let ?c = "str ! i"
  show ?case
  proof (cases "?c = 0 \<or> q \<ge> lim")
    case True
    then have e: "take (lim - q) (cstr (drop i str)) = []"
      using "1.prems" t by (auto simp: cstr_def Cons_nth_drop_Suc [symmetric])
    have "pstrcpy_loop buf q lim str i = Inr (overwrite buf q [0])"
      using True t(1) "1.prems"
      by (simp add: pstrcpy_loop.simps [of buf] overwrite_def upd_conv_take_nth_drop)
    then show ?thesis unfolding e by simp
  next
    case False
    then have c: "cstr (drop i str) = ?c # cstr (drop (Suc i) str)"
      using t by (intro cstr_drop_Cons) auto
    have "pstrcpy_loop (buf[q := ?c]) (q + 1) lim str (i + 1) =
      Inr (overwrite (buf[q := ?c]) (q + 1) (take (lim - (q + 1)) (cstr (drop (i + 1) str)) @ [0]))"
      using False "1.prems" t by (intro "1.IH" [of ?c]) auto
    moreover have "overwrite (buf[q := ?c]) (q + 1) (take (lim - (q + 1)) (cstr (drop (i + 1) str)) @ [0]) =
      overwrite buf q (take (lim - q) (cstr (drop i str)) @ [0])"
    proof -
      have "lim - q = Suc (lim - Suc q)" using False by (simp add: Suc_diff_Suc)
      moreover have "take (Suc q) (buf[q := ?c]) = take q buf @ [?c]"
        using False "1.prems" by (simp add: take_Suc_conv_app_nth)
      ultimately show ?thesis by (simp add: overwrite_def c)
    qed
    ultimately show ?thesis
      using False t(1) "1.prems" by (simp add: pstrcpy_loop.simps [of buf])
  qed
qed

lemma no_zero_cstr: "0 \<notin> set (cstr s)"
  by (auto simp: cstr_def dest: set_takeWhileD)

lemma cstr_append_zero: "0 \<notin> set xs \<Longrightarrow> cstr (xs @ 0 # ys) = xs"
  by (induction xs) (auto simp: cstr_def)

lemma pstrcpy_overwrites:
  assumes "0 < n" and "q0 + n \<le> length buf" and "terminated str"
  shows "pstrcpy buf q0 (int n) str = Inr (overwrite buf q0 (take (n - 1) (cstr str) @ [0]))"
  using assms pstrcpy_loop_spec [of "q0 + (n - 1)" buf q0 0 str]
  by (simp add: pstrcpy_def nat_diff_distrib)

text \<open>The result is a C string that holds as much of \<open>str\<close> as fits; nothing else is written.\<close>

lemma pstrcpy_spec:
  assumes "0 < n" and "n \<le> length buf" and "terminated str"
  shows "\<exists>b. pstrcpy buf 0 (int n) str = Inr b \<and> terminated b \<and>
    cstr b = take (n - 1) (cstr str) \<and> length b = length buf \<and> drop n b = drop n buf"
proof -
  let ?t = "take (n - 1) (cstr str) @ [0]"
  have "0 \<notin> set (take (n - 1) (cstr str))"
    using no_zero_cstr by (metis in_set_takeD)
  moreover have "length ?t \<le> n" using assms by simp
  moreover from this have "length (overwrite buf 0 ?t) = length buf \<and>
      drop n (overwrite buf 0 ?t) = drop n buf"
    using assms(2) by (intro conjI length_overwrite drop_overwrite) auto
  ultimately show ?thesis
    using assms pstrcpy_overwrites [of n 0 buf str]
    by (auto simp: overwrite_def [of buf 0] terminated_def cstr_append_zero simp del: drop_append)
qed

lemma cstr_split:
  assumes "terminated b"
  shows "\<exists>r. b = cstr b @ 0 # r"
proof -
  from assms have "dropWhile (\<lambda>c. c \<noteq> 0) b \<noteq> []"
    by (auto simp: terminated_def dropWhile_eq_Nil_conv)
  then obtain c r where d: "dropWhile (\<lambda>c. c \<noteq> 0) b = c # r"
    by (cases "dropWhile (\<lambda>c. c \<noteq> 0) b") auto
  then have "c = 0" using hd_dropWhile [of "\<lambda>c. c \<noteq> 0" b] by auto
  then have "b = cstr b @ 0 # r"
    using d takeWhile_dropWhile_id [of "\<lambda>c. c \<noteq> 0" b] by (simp add: cstr_def)
  then show ?thesis by (rule exI)
qed

text \<open>\<open>pstrcat\<close> appends what fits and never writes past \<open>buf_size\<close>.\<close>

lemma pstrcat_spec:
  assumes b: "terminated buf" and n: "n \<le> length buf" and len: "length (cstr buf) < n"
    and s: "terminated s"
  shows "\<exists>b. pstrcat buf (int n) s = Inr b \<and> terminated b \<and>
    cstr b = take (n - 1) (cstr buf @ cstr s) \<and> length b = length buf \<and> drop n b = drop n buf"
proof -
  let ?l = "length (cstr buf)"
  let ?t = "take (n - ?l - 1) (cstr s) @ [0]"
  obtain r where buf: "buf = cstr buf @ 0 # r" using cstr_split [OF b] by blast
  have "pstrcat buf (int n) s = pstrcpy buf ?l (int (n - ?l)) s"
    using b len by (simp add: pstrcat_def strlen_def of_nat_diff)
  also have "\<dots> = Inr (overwrite buf ?l ?t)"
    using len n s by (intro pstrcpy_overwrites) auto
  finally have p: "pstrcat buf (int n) s = Inr (overwrite buf ?l ?t)" .
  have tk: "take ?l buf = cstr buf" by (subst buf) simp
  have "0 \<notin> set (cstr buf @ take (n - ?l - 1) (cstr s))"
    using no_zero_cstr in_set_takeD by fastforce
  then have "cstr (overwrite buf ?l ?t) = take (n - 1) (cstr buf @ cstr s)"
    using len tk cstr_append_zero [of "cstr buf @ take (n - ?l - 1) (cstr s)"]
    by (simp add: overwrite_def)
  moreover have "drop n (overwrite buf ?l ?t) = drop n buf"
    using len n by (intro drop_overwrite) auto
  moreover have "length (overwrite buf ?l ?t) = length buf"
    using len n by (intro length_overwrite) auto
  ultimately show ?thesis
    using p by (auto simp: overwrite_def terminated_def)
qed

section \<open>strstart and has_suffix\<close>

text \<open>\<open>strstart\<close> returns the position after the prefix (\<open>*ptr\<close>), or \<open>None\<close> for 0.\<close>

function strstart_loop :: "bytes \<Rightarrow> nat \<Rightarrow> bytes \<Rightarrow> nat \<Rightarrow> nat option res" where
  "strstart_loop str p val q =
     (if q \<ge> length val then Inl Undef
      else if val ! q = 0 then Inr (Some p)
      else bnd (rd str p) (\<lambda>c.
             if c \<noteq> val ! q then Inr None else strstart_loop str (p + 1) val (q + 1)))"
  by pat_completeness auto
termination
  by (relation "measure (\<lambda>(str, p, val, q). length val - q)") auto

declare strstart_loop.simps [simp del]

definition strstart :: "bytes \<Rightarrow> bytes \<Rightarrow> nat option res" where
  "strstart str val = strstart_loop str 0 val 0"

definition has_suffix :: "bytes \<Rightarrow> bytes \<Rightarrow> bool res" where
  "has_suffix str suffix =
     bnd (strlen str) (\<lambda>len. bnd (strlen suffix) (\<lambda>slen.
       Inr (len \<ge> slen \<and> take slen (drop (len - slen) str) = take slen suffix)))"

definition is_prefix :: "bytes \<Rightarrow> bytes \<Rightarrow> bool" where
  "is_prefix u v \<longleftrightarrow> take (length u) v = u"

lemma is_prefix_simps [simp]:
  "is_prefix [] v" "\<not> is_prefix (a # u) []"
  "is_prefix (a # u) (b # v) \<longleftrightarrow> a = b \<and> is_prefix u v"
  by (auto simp: is_prefix_def)

lemma strstart_loop_spec:
  assumes "terminated (drop p str)" and "terminated (drop q val)"
  shows "strstart_loop str p val q =
    Inr (if is_prefix (cstr (drop q val)) (cstr (drop p str))
         then Some (p + length (cstr (drop q val))) else None)"
  using assms
proof (induction str p val q rule: strstart_loop.induct)
  case (1 str p val q)
  note tp = terminated_drop [OF "1.prems"(1)] and tq = terminated_drop [OF "1.prems"(2)]
  show ?case
  proof (cases "val ! q = 0")
    case True
    then show ?thesis
      using tq by (simp add: strstart_loop.simps [of str] cstr_def Cons_nth_drop_Suc [symmetric])
  next
    case False
    then have v: "cstr (drop q val) = val ! q # cstr (drop (Suc q) val)"
      using tq by (intro cstr_drop_Cons) auto
    show ?thesis
    proof (cases "str ! p = val ! q")
      case True
      then have s: "cstr (drop p str) = str ! p # cstr (drop (Suc p) str)"
        using tp False by (intro cstr_drop_Cons) auto
      have "strstart_loop str (p + 1) val (q + 1) =
        Inr (if is_prefix (cstr (drop (q + 1) val)) (cstr (drop (p + 1) str))
             then Some (p + 1 + length (cstr (drop (q + 1) val))) else None)"
        using False True tp tq by (intro "1.IH" [of "str ! p"]) auto
      then show ?thesis
        using False True tp(1) tq(1) by (simp add: strstart_loop.simps [of str] v s)
    next
      case ne: False
      have "\<not> is_prefix (cstr (drop q val)) (cstr (drop p str))"
        using ne v tp(1) by (auto simp: cstr_def Cons_nth_drop_Suc [symmetric])
      then show ?thesis
        using False ne tp(1) tq(1) by (simp add: strstart_loop.simps [of str])
    qed
  qed
qed

lemma strstart_spec:
  "terminated str \<Longrightarrow> terminated val \<Longrightarrow>
   strstart str val = Inr (if is_prefix (cstr val) (cstr str) then Some (length (cstr val)) else None)"
  using strstart_loop_spec [of 0 str 0 val] by (simp add: strstart_def)

lemma has_suffix_spec:
  assumes "terminated str" and "terminated suffix"
  shows "has_suffix str suffix = Inr (\<exists>u. cstr str = u @ cstr suffix)"
proof -
  obtain r where r: "str = cstr str @ 0 # r" using cstr_split [OF assms(1)] by blast
  obtain r' where r': "suffix = cstr suffix @ 0 # r'" using cstr_split [OF assms(2)] by blast
  let ?l = "length (cstr str)" and ?m = "length (cstr suffix)"
  have s: "take ?m suffix = cstr suffix" by (subst (2) r') simp
  have t: "?m \<le> ?l \<Longrightarrow> take ?m (drop (?l - ?m) str) = drop (?l - ?m) (cstr str)"
    by (subst (2) r) simp
  have "(?m \<le> ?l \<and> drop (?l - ?m) (cstr str) = cstr suffix) \<longleftrightarrow> (\<exists>u. cstr str = u @ cstr suffix)"
    by (metis append_eq_conv_conj append_take_drop_id diff_add_inverse2 le_add2 length_append)
  then show ?thesis
    using assms s t by (auto simp: has_suffix_def strlen_def)
qed

section \<open>Properties\<close>

text \<open>C17. \<open>pstrcat\<close> on a buffer of at least \<open>n\<close> bytes never touches a byte at or after \<open>n\<close>,
leaves a terminated string, and its text is the concatenation cut off at \<open>n - 1\<close>
characters.\<close>

theorem pstrcat_bounded:
  assumes "terminated dst" and "n \<le> length dst" and "length (cstr dst) < n" and "terminated src"
  shows "\<exists>b. pstrcat dst (int n) src = Inr b \<and> terminated b \<and>
    cstr b = take (n - 1) (cstr dst @ cstr src) \<and> length b = length dst \<and> drop n b = drop n dst"
  by (rule pstrcat_spec [OF assms])

lemma pstrcat_bounded_witness:
  "\<exists>b. pstrcat [97, 98, 0, 9, 9, 9] (int 5) [99, 100, 101, 0] = Inr b \<and> terminated b \<and>
    cstr b = take (5 - 1) (cstr [97, 98, 0, 9, 9, 9] @ cstr [99, 100, 101, 0]) \<and>
    length b = length [97, 98, 0, 9, 9, 9 :: u8] \<and> drop 5 b = drop 5 [97, 98, 0, 9, 9, 9]"
  by (rule pstrcat_bounded) (simp_all add: terminated_def cstr_def)

text \<open>\<open>strstart\<close> answers whether one string starts with the other, with the position after
the prefix, and reads neither string past its terminating zero.\<close>

theorem strstart_decides_prefix:
  assumes "terminated str" and "terminated val"
  shows "strstart str val =
    Inr (if is_prefix (cstr val) (cstr str) then Some (length (cstr val)) else None)"
  by (rule strstart_spec [OF assms])

lemma strstart_decides_prefix_witness:
  "strstart [97, 98, 99, 0] [97, 98, 0] =
    Inr (if is_prefix (cstr [97, 98, 0]) (cstr [97, 98, 99, 0])
         then Some (length (cstr [97, 98, 0 :: u8])) else None)"
  by (rule strstart_decides_prefix) (simp_all add: terminated_def)

end
