(* ===== verification/Utf8.thy ===== *)
theory Utf8
  imports Bytes
begin

text \<open>
  UTF-8 encoding and decoding of \<open>cutils.c\<close>: \<open>unicode_to_utf8\<close> and \<open>unicode_from_utf8\<close>,
  in the original 31-bit form with sequences of up to six bytes.
\<close>

unbundle bit_operations_syntax

definition UTF8_CHAR_LEN_MAX :: nat where
  "UTF8_CHAR_LEN_MAX = 6"

section \<open>The two routines\<close>

text \<open>A continuation byte: six bits of \<open>c\<close> from bit \<open>k\<close> on.\<close>

definition utf8_tail :: "nat \<Rightarrow> u32 \<Rightarrow> u8" where
  "utf8_tail k c = ucast ((drop_bit k c AND 0x3f) OR 0x80)"

text \<open>
  The bytes written; their number is the return value. A code of 32 bits is refused (the
  C function returns 0).
\<close>

definition unicode_to_utf8 :: "u32 \<Rightarrow> bytes" where
  "unicode_to_utf8 c =
     (if c < 0x80 then [ucast c]
      else if c < 0x800 then [ucast (drop_bit 6 c OR 0xc0), utf8_tail 0 c]
      else if c < 0x10000 then [ucast (drop_bit 12 c OR 0xe0), utf8_tail 6 c, utf8_tail 0 c]
      else if c < 0x00200000 then
        [ucast (drop_bit 18 c OR 0xf0), utf8_tail 12 c, utf8_tail 6 c, utf8_tail 0 c]
      else if c < 0x04000000 then
        [ucast (drop_bit 24 c OR 0xf8), utf8_tail 18 c, utf8_tail 12 c, utf8_tail 6 c, utf8_tail 0 c]
      else if c < 0x80000000 then
        [ucast (drop_bit 30 c OR 0xfc), utf8_tail 24 c, utf8_tail 18 c, utf8_tail 12 c,
         utf8_tail 6 c, utf8_tail 0 c]
      else [])"

definition utf8_min_code :: "u32 list" where
  "utf8_min_code = [0x80, 0x800, 0x10000, 0x00200000, 0x04000000]"

definition utf8_first_code_mask :: "u32 list" where
  "utf8_first_code_mask = [0x1f, 0xf, 0x7, 0x3, 0x1]"

text \<open>The switch on the first byte: the number of continuation bytes.\<close>

definition utf8_seq_len :: "u32 \<Rightarrow> nat option" where
  "utf8_seq_len c =
     (if 0xc0 \<le> c \<and> c \<le> 0xdf then Some 1
      else if 0xe0 \<le> c \<and> c \<le> 0xef then Some 2
      else if 0xf0 \<le> c \<and> c \<le> 0xf7 then Some 3
      else if 0xf8 \<le> c \<and> c \<le> 0xfb then Some 4
      else if 0xfc \<le> c \<and> c \<le> 0xfd then Some 5
      else None)"

text \<open>The loop over the continuation bytes; \<open>None\<close> when one of them is not one.\<close>

fun utf8_cont :: "bytes \<Rightarrow> nat \<Rightarrow> nat \<Rightarrow> u32 \<Rightarrow> u32 option res" where
  "utf8_cont buf p 0 c = Inr (Some c)"
| "utf8_cont buf p (Suc l) c =
     bnd (rd buf p) (\<lambda>b.
       if b < 0x80 \<or> b \<ge> 0xc0 then Inr None
       else utf8_cont buf (p + 1) l (push_bit 6 c OR (ucast b AND 0x3f)))"

text \<open>
  The decoder at index \<open>p\<close>: \<open>Some (c, q)\<close> is the character and the index after it (the
  updated \<open>*pp\<close>), \<open>None\<close> the return value -1.
\<close>

definition unicode_from_utf8 :: "bytes \<Rightarrow> nat \<Rightarrow> int \<Rightarrow> (u32 \<times> nat) option res" where
  "unicode_from_utf8 buf p max_len =
     bnd (rd buf p) (\<lambda>b.
       let c = ucast b in
       if c < 0x80 then Inr (Some (c, p + 1))
       else case utf8_seq_len c of
              None \<Rightarrow> Inr None
            | Some l \<Rightarrow>
                if int l > max_len - 1 then Inr None
                else bnd (utf8_cont buf (p + 1) l (c AND utf8_first_code_mask ! (l - 1))) (\<lambda>r.
                  case r of
                    None \<Rightarrow> Inr None
                  | Some c \<Rightarrow>
                      if c < utf8_min_code ! (l - 1) then Inr None
                      else Inr (Some (c, p + 1 + l))))"

section \<open>Facts about single bytes\<close>

text \<open>A property of every byte can be checked on the 256 bytes.\<close>

lemma u8_exhaust:
  assumes "\<forall>n \<in> set [0..<256]. P (word_of_nat n)"
  shows "P (b :: u8)"
proof -
  have "unat b < 2 ^ LENGTH(8)" by (rule unsigned_less)
  then have "unat b \<in> set [0..<256]" by simp
  with assms have "P (word_of_nat (unat b))" by blast
  then show ?thesis by simp
qed

lemma bits_below:
  fixes c :: "'a::len word"
  assumes "c < 2 ^ k" and "k < LENGTH('a)" and "k \<le> n"
  shows "\<not> bit c n"
proof -
  have "c AND mask k = c"
    using assms by (simp add: mask_eq_iff_w2p word_size)
  then have "bit c n = (bit c n \<and> bit (mask k :: 'a word) n)"
    by (metis bit_and_iff)
  then show ?thesis using assms(3) by (simp add: bit_mask_iff)
qed

text \<open>What the decoder's tests say of a byte, in terms of its leading bits.\<close>

lemma cont_byte: "b < 0x80 \<or> b \<ge> 0xc0 \<longleftrightarrow> b AND 0xc0 \<noteq> (0x80 :: u8)"
  by (rule u8_exhaust [where P = "\<lambda>b. b < 0x80 \<or> b \<ge> 0xc0 \<longleftrightarrow> b AND 0xc0 \<noteq> (0x80 :: u8)"])
    code_simp

definition lead_len :: "u8 \<Rightarrow> nat option" where
  "lead_len b =
     (if b AND 0xe0 = 0xc0 then Some 1 else if b AND 0xf0 = 0xe0 then Some 2
      else if b AND 0xf8 = 0xf0 then Some 3 else if b AND 0xfc = 0xf8 then Some 4
      else if b AND 0xfe = 0xfc then Some 5 else None)"

lemma utf8_seq_len_lead: "utf8_seq_len (ucast (b :: u8)) = lead_len b"
  by (rule u8_exhaust [where P = "\<lambda>b. utf8_seq_len (ucast b) = lead_len b"]) code_simp

lemma ascii_byte: "(ucast (b :: u8) :: u32) < 0x80 \<longleftrightarrow> b AND 0x80 = 0"
  by (rule u8_exhaust [where P = "\<lambda>b. (ucast b :: u32) < 0x80 \<longleftrightarrow> b AND 0x80 = 0"]) code_simp

lemma utf8_tail_cont: "\<not> (utf8_tail k c < 0x80 \<or> utf8_tail k c \<ge> 0xc0)"
  unfolding cont_byte utf8_tail_def
  by (simp, rule word8_bitsI) (simp add: bits_upt bit_simps)

lemma utf8_tail_bits: "(ucast (utf8_tail k c) :: u32) AND 0x3f = drop_bit k c AND 0x3f"
  unfolding utf8_tail_def by (rule word32_bitsI) (simp add: bits_upt bit_simps)

section \<open>Round trip\<close>

text \<open>A continuation byte of the encoder is read back by the loop of the decoder.\<close>

lemma utf8_cont_step:
  "p < length buf \<Longrightarrow> buf ! p = utf8_tail k c \<Longrightarrow>
   utf8_cont buf p (Suc l) v = utf8_cont buf (p + 1) l (push_bit 6 v OR (drop_bit k c AND 0x3f))"
  using utf8_tail_cont [of k c] by (simp add: utf8_tail_bits del: not_less)

lemma nth_mid: "i < length xs \<Longrightarrow> (ys @ xs @ zs) ! (length ys + i) = xs ! i"
  by (simp add: nth_append)

text \<open>
  The lead byte of a sequence of \<open>l\<close> continuation bytes: its class, and the bits of the
  character it carries.
\<close>

lemma and_sub: "b AND m = v \<Longrightarrow> m AND m' = m' \<Longrightarrow> b AND m' = v AND (m' :: 'a::len word)"
  by (metis and.assoc)

lemma lead_lenI:
  "b AND 0xe0 = 0xc0 \<Longrightarrow> lead_len b = Some 1"
  "b AND 0xf0 = 0xe0 \<Longrightarrow> lead_len b = Some 2"
  "b AND 0xf8 = 0xf0 \<Longrightarrow> lead_len b = Some 3"
  "b AND 0xfc = 0xf8 \<Longrightarrow> lead_len b = Some 4"
  "b AND 0xfe = 0xfc \<Longrightarrow> lead_len b = Some 5"
  by (simp_all add: lead_len_def and_sub [where m' = "0xe0"] and_sub [where m' = "0xf0"]
      and_sub [where m' = "0xf8"] and_sub [where m' = "0xfc"])

lemma lead_not_ascii:
  assumes "lead_len b = Some l"
  shows "b AND 0x80 \<noteq> 0 \<and> 1 \<le> l \<and> l \<le> 5"
proof -
  from assms have "b AND 0xe0 = 0xc0 \<or> b AND 0xf0 = 0xe0 \<or> b AND 0xf8 = 0xf0 \<or>
      b AND 0xfc = 0xf8 \<or> b AND 0xfe = 0xfc" and l: "1 \<le> l \<and> l \<le> 5"
    by (auto simp: lead_len_def split: if_splits)
  then have "b AND 0x80 = 0x80"
    by (elim disjE) (simp_all add: and_sub [where m' = "0x80"])
  with l show ?thesis by simp
qed

lemma lead1:
  assumes "c < 2 ^ 11"
  shows "lead_len (ucast (drop_bit 6 c OR 0xc0)) = Some 1"
    and "(push_bit 6 (ucast (ucast (drop_bit 6 c OR 0xc0) :: u8) AND 0x1f) OR (drop_bit 0 c AND 0x3f)) = (c :: u32)"
proof -
  note b [simp] = bits_below [OF assms, simplified]
  have "(ucast (drop_bit 6 c OR 0xc0) :: u8) AND 0xe0 = 0xc0"
    by (rule word8_bitsI) (simp add: bits_upt bit_simps)
  then show "lead_len (ucast (drop_bit 6 c OR 0xc0)) = Some 1"
    by (rule lead_lenI)
  show "(push_bit 6 (ucast (ucast (drop_bit 6 c OR 0xc0) :: u8) AND 0x1f) OR (drop_bit 0 c AND 0x3f)) = c"
    by (rule word32_bitsI) (simp add: bits_upt bit_simps)
qed

lemma lead2:
  assumes "c < 2 ^ 16"
  shows "lead_len (ucast (drop_bit 12 c OR 0xe0)) = Some 2"
    and "(push_bit 6 (push_bit 6 (ucast (ucast (drop_bit 12 c OR 0xe0) :: u8) AND 0xf) OR (drop_bit 6 c AND 0x3f)) OR (drop_bit 0 c AND 0x3f)) = (c :: u32)"
proof -
  note b [simp] = bits_below [OF assms, simplified]
  have "(ucast (drop_bit 12 c OR 0xe0) :: u8) AND 0xf0 = 0xe0"
    by (rule word8_bitsI) (simp add: bits_upt bit_simps)
  then show "lead_len (ucast (drop_bit 12 c OR 0xe0)) = Some 2"
    by (rule lead_lenI)
  show "(push_bit 6 (push_bit 6 (ucast (ucast (drop_bit 12 c OR 0xe0) :: u8) AND 0xf) OR (drop_bit 6 c AND 0x3f)) OR (drop_bit 0 c AND 0x3f)) = c"
    by (rule word32_bitsI) (simp add: bits_upt bit_simps)
qed

lemma lead3:
  assumes "c < 2 ^ 21"
  shows "lead_len (ucast (drop_bit 18 c OR 0xf0)) = Some 3"
    and "(push_bit 6 (push_bit 6 (push_bit 6 (ucast (ucast (drop_bit 18 c OR 0xf0) :: u8) AND 0x7) OR (drop_bit 12 c AND 0x3f)) OR (drop_bit 6 c AND 0x3f)) OR (drop_bit 0 c AND 0x3f)) = (c :: u32)"
proof -
  note b [simp] = bits_below [OF assms, simplified]
  have "(ucast (drop_bit 18 c OR 0xf0) :: u8) AND 0xf8 = 0xf0"
    by (rule word8_bitsI) (simp add: bits_upt bit_simps)
  then show "lead_len (ucast (drop_bit 18 c OR 0xf0)) = Some 3"
    by (rule lead_lenI)
  show "(push_bit 6 (push_bit 6 (push_bit 6 (ucast (ucast (drop_bit 18 c OR 0xf0) :: u8) AND 0x7) OR (drop_bit 12 c AND 0x3f)) OR (drop_bit 6 c AND 0x3f)) OR (drop_bit 0 c AND 0x3f)) = c"
    by (rule word32_bitsI) (simp add: bits_upt bit_simps)
qed

lemma lead4:
  assumes "c < 2 ^ 26"
  shows "lead_len (ucast (drop_bit 24 c OR 0xf8)) = Some 4"
    and "(push_bit 6 (push_bit 6 (push_bit 6 (push_bit 6 (ucast (ucast (drop_bit 24 c OR 0xf8) :: u8) AND 0x3) OR (drop_bit 18 c AND 0x3f)) OR (drop_bit 12 c AND 0x3f)) OR (drop_bit 6 c AND 0x3f)) OR (drop_bit 0 c AND 0x3f)) = (c :: u32)"
proof -
  note b [simp] = bits_below [OF assms, simplified]
  have "(ucast (drop_bit 24 c OR 0xf8) :: u8) AND 0xfc = 0xf8"
    by (rule word8_bitsI) (simp add: bits_upt bit_simps)
  then show "lead_len (ucast (drop_bit 24 c OR 0xf8)) = Some 4"
    by (rule lead_lenI)
  show "(push_bit 6 (push_bit 6 (push_bit 6 (push_bit 6 (ucast (ucast (drop_bit 24 c OR 0xf8) :: u8) AND 0x3) OR (drop_bit 18 c AND 0x3f)) OR (drop_bit 12 c AND 0x3f)) OR (drop_bit 6 c AND 0x3f)) OR (drop_bit 0 c AND 0x3f)) = c"
    by (rule word32_bitsI) (simp add: bits_upt bit_simps)
qed

lemma lead5:
  assumes "c < 2 ^ 31"
  shows "lead_len (ucast (drop_bit 30 c OR 0xfc)) = Some 5"
    and "(push_bit 6 (push_bit 6 (push_bit 6 (push_bit 6 (push_bit 6 (ucast (ucast (drop_bit 30 c OR 0xfc) :: u8) AND 0x1) OR (drop_bit 24 c AND 0x3f)) OR (drop_bit 18 c AND 0x3f)) OR (drop_bit 12 c AND 0x3f)) OR (drop_bit 6 c AND 0x3f)) OR (drop_bit 0 c AND 0x3f)) = (c :: u32)"
proof -
  note b [simp] = bits_below [OF assms, simplified]
  have "(ucast (drop_bit 30 c OR 0xfc) :: u8) AND 0xfe = 0xfc"
    by (rule word8_bitsI) (simp add: bits_upt bit_simps)
  then show "lead_len (ucast (drop_bit 30 c OR 0xfc)) = Some 5"
    by (rule lead_lenI)
  show "(push_bit 6 (push_bit 6 (push_bit 6 (push_bit 6 (push_bit 6 (ucast (ucast (drop_bit 30 c OR 0xfc) :: u8) AND 0x1) OR (drop_bit 24 c AND 0x3f)) OR (drop_bit 18 c AND 0x3f)) OR (drop_bit 12 c AND 0x3f)) OR (drop_bit 6 c AND 0x3f)) OR (drop_bit 0 c AND 0x3f)) = c"
    by (rule word32_bitsI) (simp add: bits_upt bit_simps)
qed

text \<open>
  The decoder on the output of the encoder: a lead byte \<open>b0\<close> of the class of \<open>ks\<close>, then one
  continuation byte for each bit position in \<open>ks\<close>.
\<close>

definition utf8_join :: "u32 \<Rightarrow> u32 \<Rightarrow> nat list \<Rightarrow> u32" where
  "utf8_join c v ks = foldl (\<lambda>v k. push_bit 6 v OR (drop_bit k c AND 0x3f)) v ks"

lemma utf8_cont_tails:
  assumes "take (length ks) (drop p buf) = map (\<lambda>k. utf8_tail k c) ks"
  shows "utf8_cont buf p (length ks) v = Inr (Some (utf8_join c v ks))"
  using assms
proof (induction ks arbitrary: p v)
  case (Cons k ks)
  from Cons.prems have p: "p < length buf"
    by (cases "p < length buf") auto
  then have d: "drop p buf = buf ! p # drop (Suc p) buf" by (simp add: Cons_nth_drop_Suc)
  with Cons.prems have "buf ! p = utf8_tail k c"
    and "take (length ks) (drop (p + 1) buf) = map (\<lambda>k. utf8_tail k c) ks"
    by simp_all
  with Cons.IH [of "p + 1"] p show ?case
    by (simp only: length_Cons utf8_cont_step utf8_join_def foldl_Cons)
qed (simp add: utf8_join_def)

lemma from_utf8_tails:
  assumes b: "take (Suc (length ks)) (drop p buf) = b0 # map (\<lambda>k. utf8_tail k c) ks"
    and b0: "lead_len b0 = Some l" "length ks = l"
    and m: "utf8_first_code_mask ! (l - 1) = m" "utf8_join c (ucast b0 AND m) ks = c"
    and c: "utf8_min_code ! (l - 1) \<le> c" and len: "int (Suc l) \<le> max_len"
  shows "unicode_from_utf8 buf p max_len = Inr (Some (c, p + Suc l))"
proof -
  from b have p: "p < length buf" by (cases "p < length buf") auto
  then have "drop p buf = buf ! p # drop (Suc p) buf" by (simp add: Cons_nth_drop_Suc)
  with b have "buf ! p = b0" and "take (length ks) (drop (p + 1) buf) = map (\<lambda>k. utf8_tail k c) ks"
    by simp_all
  then have "buf ! p = b0" and "utf8_cont buf (p + 1) l v = Inr (Some (utf8_join c v ks))" for v
    using utf8_cont_tails b0(2) by blast+
  then show ?thesis
    using p b0(1) m c len lead_not_ascii [OF b0(1)]
    by (simp add: unicode_from_utf8_def Let_def ascii_byte utf8_seq_len_lead)
qed

lemma utf8_roundtrip:
  assumes c: "c < 0x80000000"
    and b: "take (length (unicode_to_utf8 c)) (drop p buf) = unicode_to_utf8 c"
    and m: "int (length (unicode_to_utf8 c)) \<le> max_len"
  shows "unicode_from_utf8 buf p max_len = Inr (Some (c, p + length (unicode_to_utf8 c)))"
proof -
  let ?e = "unicode_to_utf8 c"
  note tbl = utf8_first_code_mask_def utf8_min_code_def eval_nat_numeral
  consider (0) "c < 0x80" | (1) "0x80 \<le> c" "c < 0x800" | (2) "0x800 \<le> c" "c < 0x10000"
    | (3) "0x10000 \<le> c" "c < 0x200000" | (4) "0x200000 \<le> c" "c < 0x4000000" | (5) "0x4000000 \<le> c"
    by fastforce
  then show ?thesis
  proof cases
    case 0
    then have e: "?e = [ucast c]" by (simp add: unicode_to_utf8_def)
    with b have p: "p < length buf" by (cases "p < length buf") auto
    with b e have "buf ! p = ucast c" by (simp add: Cons_nth_drop_Suc [symmetric])
    moreover have "(ucast (ucast c :: u8) :: u32) = c"
      using bits_below [of c 7, simplified] 0 by (intro word32_bitsI) (simp add: bits_upt bit_simps)
    ultimately show ?thesis
      using 0 p e by (simp add: unicode_from_utf8_def)
  next
    case 1
    then have e: "?e = ucast (drop_bit 6 c OR 0xc0) # map (\<lambda>k. utf8_tail k c) [0]"
      using c by (auto simp: unicode_to_utf8_def dest: le_less_trans)
    have "c < 2 ^ 11" using c 1 by simp
    note l = lead1 [OF this]
    show ?thesis
      using from_utf8_tails [of "[0]" p buf "ucast (drop_bit 6 c OR 0xc0)" c 1 "0x1f" max_len]
        b m e l 1 by (simp only: utf8_join_def foldl.simps) (simp add: tbl)
  next
    case 2
    then have e: "?e = ucast (drop_bit 12 c OR 0xe0) # map (\<lambda>k. utf8_tail k c) [6, 0]"
      using c by (auto simp: unicode_to_utf8_def dest: le_less_trans)
    have "c < 2 ^ 16" using c 2 by simp
    note l = lead2 [OF this]
    show ?thesis
      using from_utf8_tails [of "[6, 0]" p buf "ucast (drop_bit 12 c OR 0xe0)" c 2 "0xf" max_len]
        b m e l 2 by (simp only: utf8_join_def foldl.simps) (simp add: tbl)
  next
    case 3
    then have e: "?e = ucast (drop_bit 18 c OR 0xf0) # map (\<lambda>k. utf8_tail k c) [12, 6, 0]"
      using c by (auto simp: unicode_to_utf8_def dest: le_less_trans)
    have "c < 2 ^ 21" using c 3 by simp
    note l = lead3 [OF this]
    show ?thesis
      using from_utf8_tails [of "[12, 6, 0]" p buf "ucast (drop_bit 18 c OR 0xf0)" c 3 "0x7" max_len]
        b m e l 3 by (simp only: utf8_join_def foldl.simps) (simp add: tbl)
  next
    case 4
    then have e: "?e = ucast (drop_bit 24 c OR 0xf8) # map (\<lambda>k. utf8_tail k c) [18, 12, 6, 0]"
      using c by (auto simp: unicode_to_utf8_def dest: le_less_trans)
    have "c < 2 ^ 26" using c 4 by simp
    note l = lead4 [OF this]
    show ?thesis
      using from_utf8_tails [of "[18, 12, 6, 0]" p buf "ucast (drop_bit 24 c OR 0xf8)" c 4 "0x3" max_len]
        b m e l 4 by (simp only: utf8_join_def foldl.simps) (simp add: tbl)
  next
    case 5
    then have e: "?e = ucast (drop_bit 30 c OR 0xfc) # map (\<lambda>k. utf8_tail k c) [24, 18, 12, 6, 0]"
      using c by (auto simp: unicode_to_utf8_def dest: le_less_trans)
    have "c < 2 ^ 31" using c 5 by simp
    note l = lead5 [OF this]
    show ?thesis
      using from_utf8_tails [of "[24, 18, 12, 6, 0]" p buf "ucast (drop_bit 30 c OR 0xfc)" c 5 "0x1" max_len]
        b m e l 5 by (simp only: utf8_join_def foldl.simps) (simp add: tbl)
  qed
qed

section \<open>Properties\<close>

text \<open>C18. Decoding an encoded character anywhere in a buffer gives the character back and the
position after its encoding, for every code below \<open>2 ^ 31\<close> (the range of the six byte form)
whenever the length limit admits the encoding.\<close>

theorem utf8_decodes_encoded:
  assumes "c < 0x80000000"
    and "take (length (unicode_to_utf8 c)) (drop p buf) = unicode_to_utf8 c"
    and "int (length (unicode_to_utf8 c)) \<le> max_len"
  shows "unicode_from_utf8 buf p max_len = Inr (Some (c, p + length (unicode_to_utf8 c)))"
  by (rule utf8_roundtrip [OF assms])

lemma utf8_decodes_encoded_witness:
  "unicode_from_utf8 [0x61, 0xe2, 0x82, 0xac, 0] 1 3 =
    Inr (Some (0x20ac, 1 + length (unicode_to_utf8 0x20ac)))"
  by (rule utf8_decodes_encoded) (simp_all add: unicode_to_utf8_def utf8_tail_def)

end
