(* ===== verification/CharRange.thy ===== *)
theory CharRange
  imports Allocator
begin

text \<open>
  The character ranges of \<open>libunicode.c\<close> and \<open>libunicode.h\<close>: a set of code points as the
  sorted list of the points where membership changes, with union, intersection and
  symmetric difference (\<open>cr_op\<close>), complement (\<open>cr_invert\<close>) and normalisation
  (\<open>cr_compress\<close>). \<open>points\<close> is the allocated block, \<open>cr_len\<close> the number of points in use.
  Sizes given to the allocator count points, not bytes.

  The abstraction \<open>in_points\<close> reads a list of points as a set. The lemmas show that each
  operation computes the set operation it is named after, that normalisation makes the
  points strictly increasing without changing the set, and that no access leaves the
  arrays, for every allocator that keeps \<open>realloc_contract\<close>.
\<close>

section \<open>The package\<close>

record CharRange =
  cr_len :: nat
  cr_size :: nat
  points :: "u32 list"
  cr_realloc_func :: "u32 realloc_func"

datatype CharRangeOpEnum = CR_OP_UNION | CR_OP_INTER | CR_OP_XOR

type_synonym cr_result = "(int \<times> CharRange) res"

definition cr_init :: "u32 realloc_func \<Rightarrow> CharRange" where
  "cr_init ra = \<lparr>cr_len = 0, cr_size = 0, points = [], cr_realloc_func = ra\<rparr>"

text \<open>\<open>cr_free\<close> gives the block back; the fields keep their (dangling) values in C.\<close>

definition cr_free :: "CharRange \<Rightarrow> CharRange" where
  "cr_free cr = cr\<lparr>points := []\<rparr>"

definition cr_realloc :: "CharRange \<Rightarrow> nat \<Rightarrow> int \<times> CharRange" where
  "cr_realloc cr n =
     (if n > cr_size cr
      then (let new_size = max n (cr_size cr * 3 div 2) in
            case cr_realloc_func cr (points cr) new_size of
              None \<Rightarrow> (-1, cr)
            | Some new_buf \<Rightarrow> (0, cr\<lparr>points := new_buf, cr_size := new_size\<rparr>))
      else (0, cr))"

definition cr_copy :: "CharRange \<Rightarrow> CharRange \<Rightarrow> cr_result" where
  "cr_copy cr cr1 =
     (let (r, cr) = cr_realloc cr (cr_len cr1) in
      if r \<noteq> 0 then Inr (-1, cr)
      else if cr_len cr1 > length (points cr1) then Inl Undef
      else bnd (memcpy (points cr) 0 (take (cr_len cr1) (points cr1))) (\<lambda>p.
           Inr (0, cr\<lparr>points := p, cr_len := cr_len cr1\<rparr>)))"

definition cr_add_point :: "CharRange \<Rightarrow> u32 \<Rightarrow> cr_result" where
  "cr_add_point cr v =
     (let (r, cr) = (if cr_len cr \<ge> cr_size cr then cr_realloc cr (cr_len cr + 1) else (0, cr)) in
      if r \<noteq> 0 then Inr (-1, cr)
      else bnd (wr (points cr) (cr_len cr) v) (\<lambda>p.
           Inr (0, cr\<lparr>points := p, cr_len := cr_len cr + 1\<rparr>)))"

definition cr_add_interval :: "CharRange \<Rightarrow> u32 \<Rightarrow> u32 \<Rightarrow> cr_result" where
  "cr_add_interval cr c1 c2 =
     (let (r, cr) = (if cr_len cr + 2 > cr_size cr then cr_realloc cr (cr_len cr + 2) else (0, cr)) in
      if r \<noteq> 0 then Inr (-1, cr)
      else bnd (wr (points cr) (cr_len cr) c1) (\<lambda>p. bnd (wr p (cr_len cr + 1) c2) (\<lambda>p.
           Inr (0, cr\<lparr>points := p, cr_len := cr_len cr + 2\<rparr>))))"

subsection \<open>Normalisation in place\<close>

text \<open>The inner loop: extend the interval while the next one starts where it ends.\<close>

function cr_run :: "u32 list \<Rightarrow> nat \<Rightarrow> nat \<Rightarrow> nat" where
  "cr_run pt len j =
     (if j + 3 < len \<and> pt ! (j + 1) = pt ! (j + 2) then cr_run pt len (j + 2) else j)"
  by pat_completeness auto
termination
  by (relation "measure (\<lambda>(pt, len, j). len - j)") auto

declare cr_run.simps [simp del]

lemma cr_run_ge: "j \<le> cr_run pt len j"
proof (induction pt len j rule: cr_run.induct)
  case (1 pt len j)
  then show ?case by (auto simp: cr_run.simps [of pt len j])
qed

function cr_compress_loop :: "u32 list \<Rightarrow> nat \<Rightarrow> nat \<Rightarrow> nat \<Rightarrow> (u32 list \<times> nat) res" where
  "cr_compress_loop pt len i k =
     (if i + 1 < len
      then (if len > length pt then Inl Undef
            else if pt ! i = pt ! (i + 1) then cr_compress_loop pt len (i + 2) k
            else (let j = cr_run pt len i in
                  bnd (wr pt k (pt ! i)) (\<lambda>pt1. bnd (wr pt1 (k + 1) (pt1 ! (j + 1))) (\<lambda>pt2.
                  cr_compress_loop pt2 len (j + 2) (k + 2)))))
      else Inr (pt, k))"
  by pat_completeness auto
termination
  apply (relation "measure (\<lambda>(pt, len, i, k). len - i)")
  subgoal by simp
  subgoal by simp
  subgoal for pt len i k using cr_run_ge [of i pt len] by auto
  done

declare cr_compress_loop.simps [simp del]

definition cr_compress :: "CharRange \<Rightarrow> CharRange res" where
  "cr_compress cr =
     bnd (cr_compress_loop (points cr) (cr_len cr) 0 0) (\<lambda>(pt, k).
       Inr (cr\<lparr>points := pt, cr_len := k\<rparr>))"

subsection \<open>Set operations\<close>

text \<open>\<open>is_in\<close> on the lowest bits of the two indices.\<close>

definition cr_is_in :: "CharRangeOpEnum \<Rightarrow> bool \<Rightarrow> bool \<Rightarrow> bool" where
  "cr_is_in op a b =
     (case op of CR_OP_UNION \<Rightarrow> a \<or> b | CR_OP_INTER \<Rightarrow> a \<and> b | CR_OP_XOR \<Rightarrow> a \<noteq> b)"

text \<open>The next point in increasing order, with the indices after it; \<open>None\<close> at the end.\<close>

definition cr_next ::
  "u32 list \<Rightarrow> nat \<Rightarrow> u32 list \<Rightarrow> nat \<Rightarrow> (u32 \<times> nat \<times> nat) option" where
  "cr_next a_pt a_idx b_pt b_idx =
     (if a_idx < length a_pt \<and> b_idx < length b_pt then
        (if a_pt ! a_idx < b_pt ! b_idx then Some (a_pt ! a_idx, a_idx + 1, b_idx)
         else if a_pt ! a_idx = b_pt ! b_idx then Some (a_pt ! a_idx, a_idx + 1, b_idx + 1)
         else Some (b_pt ! b_idx, a_idx, b_idx + 1))
      else if a_idx < length a_pt then Some (a_pt ! a_idx, a_idx + 1, b_idx)
      else if b_idx < length b_pt then Some (b_pt ! b_idx, a_idx, b_idx + 1)
      else None)"

lemma cr_next_measure:
  "cr_next a i b j = Some (v, i', j') \<Longrightarrow>
   (length a - i') + (length b - j') < (length a - i) + (length b - j)"
  by (auto simp: cr_next_def split: if_splits)

function cr_op_loop ::
  "CharRange \<Rightarrow> u32 list \<Rightarrow> nat \<Rightarrow> u32 list \<Rightarrow> nat \<Rightarrow> CharRangeOpEnum \<Rightarrow> cr_result" where
  "cr_op_loop cr a_pt a_idx b_pt b_idx op =
     (case cr_next a_pt a_idx b_pt b_idx of
        None \<Rightarrow> Inr (0, cr)
      | Some (v, a_idx, b_idx) \<Rightarrow>
          if cr_is_in op (odd a_idx) (odd b_idx) \<noteq> odd (cr_len cr)
          then bnd (cr_add_point cr v) (\<lambda>(r, cr).
                 if r \<noteq> 0 then Inr (-1, cr) else cr_op_loop cr a_pt a_idx b_pt b_idx op)
          else cr_op_loop cr a_pt a_idx b_pt b_idx op)"
  by pat_completeness auto
termination
  by (relation "measure (\<lambda>(cr, a, i, b, j, op). (length a - i) + (length b - j))")
    (auto dest!: cr_next_measure)

declare cr_op_loop.simps [simp del]

definition cr_op :: "CharRange \<Rightarrow> u32 list \<Rightarrow> u32 list \<Rightarrow> CharRangeOpEnum \<Rightarrow> cr_result" where
  "cr_op cr a_pt b_pt op =
     bnd (cr_op_loop cr a_pt 0 b_pt 0 op) (\<lambda>(r, cr).
       if r \<noteq> 0 then Inr (-1, cr)
       else bnd (cr_compress cr) (\<lambda>cr. Inr (0, cr)))"

text \<open>\<open>pts cr\<close>: the points in use.\<close>

definition pts :: "CharRange \<Rightarrow> u32 list" where
  "pts cr = take (cr_len cr) (points cr)"

definition cr_union1 :: "CharRange \<Rightarrow> u32 list \<Rightarrow> cr_result" where
  "cr_union1 cr b_pt =
     (let a = cr; cr = cr\<lparr>cr_len := 0, cr_size := 0, points := []\<rparr> in
      cr_op cr (pts a) b_pt CR_OP_UNION)"

definition cr_union_interval :: "CharRange \<Rightarrow> u32 \<Rightarrow> u32 \<Rightarrow> cr_result" where
  "cr_union_interval cr c1 c2 = cr_union1 cr [c1, c2 + 1]"

definition cr_invert :: "CharRange \<Rightarrow> cr_result" where
  "cr_invert cr =
     (let len = cr_len cr; (r, cr) = cr_realloc cr (len + 2) in
      if r \<noteq> 0 then Inr (-1, cr)
      else bnd (memcpy (points cr) 1 (take len (points cr))) (\<lambda>p.
           bnd (wr p 0 0) (\<lambda>p. bnd (wr p (len + 1) (- 1)) (\<lambda>p.
           bnd (cr_compress (cr\<lparr>points := p, cr_len := len + 2\<rparr>)) (\<lambda>cr. Inr (0, cr))))))"

section \<open>Points as sets\<close>

definition below :: "'a::linorder list \<Rightarrow> 'a \<Rightarrow> nat" where
  "below ps c = length (filter (\<lambda>p. p \<le> c) ps)"

definition in_points :: "'a::linorder list \<Rightarrow> 'a \<Rightarrow> bool" where
  "in_points ps c = odd (below ps c)"

lemma below_simps [simp]:
  "below [] c = 0"
  "below (p # ps) c = (if p \<le> c then Suc (below ps c) else below ps c)"
  "below (ps @ qs) c = below ps c + below qs c"
  by (simp_all add: below_def)

lemma below_all: "\<forall>p \<in> set ps. p \<le> c \<Longrightarrow> below ps c = length ps"
  by (induction ps) auto

lemma below_none: "\<forall>p \<in> set ps. c < p \<Longrightarrow> below ps c = 0"
  by (induction ps) auto

text \<open>The reading of a sorted list of points: the half-open intervals it is made of.\<close>

lemma in_points_Cons2:
  assumes "sorted (x # y # ps)"
  shows "in_points (x # y # ps) c \<longleftrightarrow> x \<le> c \<and> c < y \<or> in_points ps c"
proof (cases "c < y")
  case True
  then have "\<forall>p \<in> set ps. c < p" using assms by (auto intro: less_le_trans)
  then show ?thesis using True by (auto simp: in_points_def below_none)
next
  case False
  then show ?thesis using assms by (auto simp: in_points_def)
qed

lemma in_points_Nil [simp]: "\<not> in_points [] c"
  by (simp add: in_points_def)

section \<open>Allocation\<close>

definition cr_ok :: "CharRange \<Rightarrow> bool" where
  "cr_ok cr \<longleftrightarrow> length (points cr) = cr_size cr \<and> cr_len cr \<le> cr_size cr"

lemma length_pts [simp]: "cr_ok cr \<Longrightarrow> length (pts cr) = cr_len cr"
  by (simp add: cr_ok_def pts_def)

lemma cr_init_ok [simp]: "cr_ok (cr_init ra)" "pts (cr_init ra) = []"
  "cr_realloc_func (cr_init ra) = ra"
  by (simp_all add: cr_init_def cr_ok_def pts_def)

text \<open>
  What an operation that is to produce the points \<open>ps\<close> promises: it succeeds with them, or
  it returns -1 and leaves the range as it was (\<open>keep\<close>) or at least well formed.
\<close>

definition cr_step :: "CharRange \<Rightarrow> u32 list \<Rightarrow> int \<times> CharRange \<Rightarrow> bool" where
  "cr_step cr ps = (\<lambda>(r, cr').
     cr_ok cr' \<and> cr_realloc_func cr' = cr_realloc_func cr \<and>
     (r = 0 \<and> pts cr' = ps \<or> r = -1 \<and> pts cr' = pts cr))"

locale cr_alloc = realloc_contract ra for ra :: "u32 realloc_func"
begin

lemma cr_realloc_spec:
  assumes ok: "cr_ok cr" and ra: "cr_realloc_func cr = ra" and r: "cr_realloc cr n = (r, cr')"
  shows "cr_ok cr' \<and> cr_realloc_func cr' = ra \<and> cr_len cr' = cr_len cr \<and> pts cr' = pts cr \<and>
    (r = 0 \<and> n \<le> cr_size cr' \<or> r = -1)"
proof (cases "n > cr_size cr")
  case False
  with r ok ra show ?thesis by (auto simp: cr_realloc_def)
next
  case True
  let ?n = "max n (cr_size cr * 3 div 2)"
  show ?thesis
  proof (cases "ra (points cr) ?n")
    case None
    with True r ok ra show ?thesis by (auto simp: cr_realloc_def)
  next
    case (Some b)
    with True r ra have cr': "r = 0" "cr' = cr\<lparr>points := b, cr_size := ?n\<rparr>"
      by (simp_all add: cr_realloc_def)
    have "length b = ?n" by (rule ra_length [OF Some])
    moreover have "take (cr_len cr) b = take (cr_len cr) (points cr)"
      using ok True by (intro ra_grow [OF Some]) (auto simp: cr_ok_def)
    ultimately show ?thesis
      using ok ra True unfolding cr' by (simp add: cr_ok_def pts_def le_max_iff_disj)
  qed
qed

lemma cr_add_point_spec:
  assumes ok: "cr_ok cr" and ra: "cr_realloc_func cr = ra"
  shows "\<exists>rc. cr_add_point cr v = Inr rc \<and> cr_step cr (pts cr @ [v]) rc"
proof -
  obtain r cr1 where r: "(if cr_len cr \<ge> cr_size cr then cr_realloc cr (cr_len cr + 1) else (0, cr)) = (r, cr1)"
    by fastforce
  have "cr_ok cr1 \<and> cr_realloc_func cr1 = ra \<and> cr_len cr1 = cr_len cr \<and> pts cr1 = pts cr \<and>
      (r = 0 \<and> cr_len cr < cr_size cr1 \<or> r = -1)"
    using cr_realloc_spec [OF ok ra, of "cr_len cr + 1" r cr1] r ok ra by (auto split: if_splits)
  then show ?thesis
    using r ra by (auto simp: cr_add_point_def cr_step_def cr_ok_def pts_def take_Suc_conv_app_nth)
qed

lemma cr_add_interval_spec:
  assumes ok: "cr_ok cr" and ra: "cr_realloc_func cr = ra"
  shows "\<exists>rc. cr_add_interval cr c1 c2 = Inr rc \<and> cr_step cr (pts cr @ [c1, c2]) rc"
proof -
  obtain r cr1 where r: "(if cr_len cr + 2 > cr_size cr then cr_realloc cr (cr_len cr + 2) else (0, cr)) = (r, cr1)"
    by fastforce
  have "cr_ok cr1 \<and> cr_realloc_func cr1 = ra \<and> cr_len cr1 = cr_len cr \<and> pts cr1 = pts cr \<and>
      (r = 0 \<and> cr_len cr + 1 < cr_size cr1 \<or> r = -1)"
    using cr_realloc_spec [OF ok ra, of "cr_len cr + 2" r cr1] r ok ra by (auto split: if_splits)
  then show ?thesis
    using r ra by (auto simp: cr_add_interval_def cr_step_def cr_ok_def pts_def take_Suc_conv_app_nth)
qed

lemma cr_copy_spec:
  assumes ok: "cr_ok cr" "cr_ok cr1" and ra: "cr_realloc_func cr = ra"
  shows "\<exists>rc. cr_copy cr cr1 = Inr rc \<and> cr_step cr (pts cr1) rc"
proof -
  obtain r cr2 where r: "cr_realloc cr (cr_len cr1) = (r, cr2)" by fastforce
  show ?thesis
    using cr_realloc_spec [OF ok(1) ra r] r ok ra
    by (auto simp: cr_copy_def cr_step_def cr_ok_def pts_def overwrite_def)
qed

end

section \<open>The merge computes the set operation\<close>

lemma sorted_drop_Cons:
  assumes "sorted xs" and "i < length xs"
  shows "drop i xs = xs ! i # drop (Suc i) xs" and "\<forall>y \<in> set (drop i xs). xs ! i \<le> y"
    and "take (Suc i) xs = take i xs @ [xs ! i]" and "set (drop (Suc i) xs) \<subseteq> set (drop i xs)"
proof -
  show d: "drop i xs = xs ! i # drop (Suc i) xs" using assms by (simp add: Cons_nth_drop_Suc)
  have "sorted (drop i xs)" using assms by (simp add: sorted_wrt_drop)
  then show "\<forall>y \<in> set (drop i xs). xs ! i \<le> y" unfolding d by simp
  show "take (Suc i) xs = take i xs @ [xs ! i]" using assms by (simp add: take_Suc_conv_app_nth)
  show "set (drop (Suc i) xs) \<subseteq> set (drop i xs)" unfolding d by auto
qed

text \<open>
  One step of the merge: what is taken from either list is \<open>v\<close>, and \<open>v\<close> separates what is
  done from what is left.
\<close>

lemma cr_next_Some:
  assumes "sorted a" and "sorted b" and "i \<le> length a" and "j \<le> length b"
    and n: "cr_next a i b j = Some (v, i', j')"
  shows "\<exists>xs ys. take i' a = take i a @ xs \<and> take j' b = take j b @ ys \<and>
    set xs \<subseteq> {v} \<and> set ys \<subseteq> {v} \<and> i' = i + length xs \<and> j' = j + length ys \<and>
    i' \<le> length a \<and> j' \<le> length b \<and> v \<in> set (drop i a) \<union> set (drop j b) \<and>
    (\<forall>y \<in> set (drop i' a) \<union> set (drop j' b). v \<le> y) \<and>
    set (drop i' a) \<subseteq> set (drop i a) \<and> set (drop j' b) \<subseteq> set (drop j b)"
proof -
  note A = sorted_drop_Cons [OF assms(1), of i] and B = sorted_drop_Cons [OF assms(2), of j]
  consider (a) "i < length a" "v = a ! i" "i' = Suc i" "j' = j" "j < length b \<Longrightarrow> a ! i < b ! j"
    | (ab) "i < length a" "j < length b" "v = a ! i" "i' = Suc i" "j' = Suc j" "a ! i = b ! j"
    | (b) "j < length b" "v = b ! j" "i' = i" "j' = Suc j" "i < length a \<Longrightarrow> b ! j < a ! i"
    using n by (auto simp: cr_next_def split: if_splits)
  then show ?thesis
  proof cases
    case a
    have "\<forall>y \<in> set (drop j b). v \<le> y"
      using B a by (cases "j < length b") (auto dest: less_imp_le intro: order_trans)
    then show ?thesis
      using a A assms(3,4) by (intro exI [of _ "[v]"] exI [of _ "[]"]) auto
  next
    case ab
    then show ?thesis
      using ab A B by (intro exI [of _ "[v]"] exI [of _ "[v]"]) auto
  next
    case b
    have "\<forall>y \<in> set (drop i a). v \<le> y"
      using A b by (cases "i < length a") (auto dest: less_imp_le intro: order_trans)
    then show ?thesis
      using b B assms(3,4) by (intro exI [of _ "[]"] exI [of _ "[v]"]) auto
  qed
qed

text \<open>The invariant of the merge, on the points \<open>out\<close> emitted so far.\<close>

definition cr_inv ::
  "CharRangeOpEnum \<Rightarrow> u32 list \<Rightarrow> nat \<Rightarrow> u32 list \<Rightarrow> nat \<Rightarrow> u32 list \<Rightarrow> bool" where
  "cr_inv op a i b j out \<longleftrightarrow>
     i \<le> length a \<and> j \<le> length b \<and> sorted out \<and>
     (\<forall>x \<in> set out \<union> set (take i a) \<union> set (take j b).
        \<forall>y \<in> set (drop i a) \<union> set (drop j b). x \<le> y) \<and>
     odd (length out) = cr_is_in op (odd i) (odd j) \<and>
     (\<forall>c. in_points out c = cr_is_in op (in_points (take i a) c) (in_points (take j b) c))"

lemma cr_inv_start: "cr_inv op a 0 b 0 []"
  by (cases op) (simp_all add: cr_inv_def cr_is_in_def)

lemma in_points_snoc:
  assumes "set xs \<subseteq> {v}" and "\<forall>x \<in> set ps. x \<le> v"
  shows "in_points (ps @ xs) c =
    (if v \<le> c then odd (length (ps @ xs)) else in_points ps c)"
proof (cases "v \<le> c")
  case True
  then have "\<forall>x \<in> set (ps @ xs). x \<le> c" using assms by (auto intro: order_trans)
  then show ?thesis using True unfolding in_points_def by (simp only: below_all) simp
next
  case False
  then have "\<forall>x \<in> set xs. c < x" using assms by auto
  then show ?thesis using False by (simp add: in_points_def below_none)
qed

lemma cr_inv_step:
  assumes inv: "cr_inv op a i b j out" and sa: "sorted a" and sb: "sorted b"
    and n: "cr_next a i b j = Some (v, i', j')"
  shows "cr_inv op a i' b j'
    (if cr_is_in op (odd i') (odd j') \<noteq> odd (length out) then out @ [v] else out)"
proof -
  from inv have ij: "i \<le> length a" "j \<le> length b" and so: "sorted out"
    and le: "\<forall>x \<in> set out \<union> set (take i a) \<union> set (take j b).
        \<forall>y \<in> set (drop i a) \<union> set (drop j b). x \<le> y"
    and mem: "\<And>c. in_points out c = cr_is_in op (in_points (take i a) c) (in_points (take j b) c)"
    by (auto simp: cr_inv_def)
  obtain xs ys where ta: "take i' a = take i a @ xs" and tb: "take j' b = take j b @ ys"
    and v: "set xs \<subseteq> {v}" "set ys \<subseteq> {v}" and i': "i' = i + length xs" and j': "j' = j + length ys"
    and bd: "i' \<le> length a" "j' \<le> length b" and vin: "v \<in> set (drop i a) \<union> set (drop j b)"
    and ge: "\<forall>y \<in> set (drop i' a) \<union> set (drop j' b). v \<le> y"
    and sub: "set (drop i' a) \<subseteq> set (drop i a)" "set (drop j' b) \<subseteq> set (drop j b)"
    using cr_next_Some [OF sa sb ij n] by blast
  define zs where "zs = (if cr_is_in op (odd i') (odd j') \<noteq> odd (length out) then [v] else [])"
  have zs: "set zs \<subseteq> {v}" "odd (length (out @ zs)) = cr_is_in op (odd i') (odd j')"
    by (auto simp: zs_def)
  have lev: "\<forall>x \<in> set out \<union> set (take i a) \<union> set (take j b). x \<le> v" using le vin by blast
  have len: "length (take i' a) = i'" "length (take j' b) = j'" using bd by auto
  have "in_points (out @ zs) c = cr_is_in op (in_points (take i' a) c) (in_points (take j' b) c)" for c
    using lev v zs len mem [of c] unfolding ta tb
    by (subst (1 2 3) in_points_snoc [of _ v]) auto
  moreover have "sorted (out @ zs)"
    using so lev by (auto simp: zs_def sorted_append)
  moreover have "\<forall>x \<in> set (out @ zs) \<union> set (take i' a) \<union> set (take j' b).
        \<forall>y \<in> set (drop i' a) \<union> set (drop j' b). x \<le> y"
    using le lev ge sub v zs(1) unfolding ta tb by auto
  moreover have "(if cr_is_in op (odd i') (odd j') \<noteq> odd (length out) then out @ [v] else out) = out @ zs"
    by (simp add: zs_def)
  ultimately show ?thesis
    using bd zs(2) by (simp add: cr_inv_def)
qed

text \<open>
  Compression, as a function on the list of points: empty intervals are dropped, an
  interval is joined with the next while that starts where it ends.
\<close>

fun extend :: "'a \<Rightarrow> 'a list \<Rightarrow> 'a \<times> 'a list" where
  "extend y (p # q # ps) = (if y = p then extend q ps else (y, p # q # ps))"
| "extend y ps = (y, ps)"

lemma extend_length: "length (snd (extend y ps)) \<le> length ps"
  by (induction y ps rule: extend.induct) auto

function compress_pts :: "'a list \<Rightarrow> 'a list" where
  "compress_pts (x # y # ps) =
     (if x = y then compress_pts ps
      else x # fst (extend y ps) # compress_pts (snd (extend y ps)))"
| "compress_pts [x] = []"
| "compress_pts [] = []"
  by pat_completeness auto
termination
  by (relation "measure length") (auto simp: le_imp_less_Suc le_SucI extend_length)

lemma extend_spec:
  assumes "sorted (y # ps)" and "extend y ps = (z, qs)"
  shows "sorted (z # qs) \<and> y \<le> z \<and> set (z # qs) \<subseteq> set (y # ps) \<and>
    (length qs mod 2 = length ps mod 2) \<and>
    (2 \<le> length qs \<longrightarrow> z < hd qs) \<and> (in_points (y # ps) c \<longleftrightarrow> in_points (z # qs) c)"
  using assms
proof (induction y ps rule: extend.induct)
  case (1 y p q ps)
  show ?case
  proof (cases "y = p")
    case True
    with 1 have "sorted (z # qs) \<and> q \<le> z \<and> set (z # qs) \<subseteq> set (q # ps) \<and>
      (length qs mod 2 = length ps mod 2) \<and>
      (2 \<le> length qs \<longrightarrow> z < hd qs) \<and> (in_points (q # ps) c \<longleftrightarrow> in_points (z # qs) c)"
      by simp
    moreover have "in_points (y # p # q # ps) c \<longleftrightarrow> in_points (q # ps) c"
      using True by (simp add: in_points_def)
    ultimately show ?thesis using "1.prems"(1) by auto
  next
    case False
    with 1 show ?thesis by auto
  qed
qed auto

text \<open>For sorted points, an even number of them: same set, strictly increasing.\<close>

lemma compress_pts_spec:
  assumes "sorted ps" and "even (length ps)"
  shows "sorted_wrt (<) (compress_pts ps) \<and> even (length (compress_pts ps)) \<and>
    set (compress_pts ps) \<subseteq> set ps \<and> (\<forall>c. in_points (compress_pts ps) c = in_points ps c)"
  using assms
proof (induction ps rule: compress_pts.induct)
  case (1 x y ps)
  show ?case
  proof (cases "x = y")
    case True
    then show ?thesis using 1 by (auto simp: in_points_def)
  next
    case False
    obtain z qs where e: "extend y ps = (z, qs)" by fastforce
    have so: "sorted (y # ps)" "x < y" using "1.prems" False by auto
    note E = extend_spec [OF so(1) e]
    have ev: "even (length qs)" using E [of undefined] "1.prems"(2) by (auto simp: even_iff_mod_2_eq_zero)
    with 1 False e E have IH: "sorted_wrt (<) (compress_pts qs) \<and> even (length (compress_pts qs)) \<and>
      set (compress_pts qs) \<subseteq> set qs \<and> (\<forall>c. in_points (compress_pts qs) c = in_points qs c)"
      by auto
    have "\<forall>p \<in> set qs. z < p"
    proof (cases qs)
      case (Cons p r)
      with ev have "2 \<le> length qs" by (cases r) auto
      with E [of undefined] Cons show ?thesis by (auto intro: less_le_trans)
    qed simp
    moreover have "x < z" using E [of undefined] so by auto
    ultimately have str: "sorted_wrt (<) (x # z # compress_pts qs)"
      using IH by (auto dest: less_trans)
    have "in_points (x # z # compress_pts qs) c = in_points (x # y # ps) c" for c
    proof -
      have "in_points (z # compress_pts qs) c = in_points (z # qs) c"
        using IH by (auto simp: in_points_def)
      also have "\<dots> = in_points (y # ps) c" using E [of c] by simp
      finally show ?thesis by (auto simp: in_points_def)
    qed
    with str IH E [of undefined] False e show ?thesis by auto
  qed
qed auto

section \<open>Normalisation in place\<close>

lemma seg_Cons: "i < n \<Longrightarrow> n \<le> length pt \<Longrightarrow> drop i (take n pt) = pt ! i # drop (Suc i) (take n pt)"
  by (simp add: Cons_nth_drop_Suc [symmetric])

lemma extend_short: "length ps \<le> 1 \<Longrightarrow> extend y ps = (y, ps)"
  by (cases ps; cases "tl ps") auto

lemma cr_run_extend:
  assumes "i + 1 < len" and "len \<le> length pt"
  shows "cr_run pt len i + 1 < len \<and>
    extend (pt ! (i + 1)) (drop (i + 2) (take len pt)) =
      (pt ! (cr_run pt len i + 1), drop (cr_run pt len i + 2) (take len pt))"
  using assms
proof (induction pt len i rule: cr_run.induct)
  case (1 pt len i)
  show ?case
  proof (cases "i + 3 < len")
    case True
    then have "drop (i + 2) (take len pt) =
        pt ! (i + 2) # pt ! (i + 3) # drop (i + 4) (take len pt)"
      using "1.prems" by (simp add: seg_Cons eval_nat_numeral)
    then show ?thesis
      using 1 True by (simp add: cr_run.simps [of pt len i] eval_nat_numeral)
  next
    case False
    have "length (drop (i + 2) (take len pt)) \<le> 1" using False "1.prems" by simp
    then have "extend y (drop (i + 2) (take len pt)) = (y, drop (i + 2) (take len pt))" for y
      by (rule extend_short)
    then show ?thesis using False "1.prems" by (simp add: cr_run.simps [of pt len i])
  qed
qed

lemma cr_compress_loop_spec:
  assumes "len \<le> length pt" and "k \<le> i" and "k \<le> length pt"
  shows "\<exists>pt' k'. cr_compress_loop pt len i k = Inr (pt', k') \<and> length pt' = length pt \<and>
    k' \<le> length pt \<and> take k' pt' = take k pt @ compress_pts (drop i (take len pt))"
  using assms
proof (induction pt len i k rule: cr_compress_loop.induct)
  case (1 pt len i k)
  show ?case
  proof (cases "i + 1 < len")
    case False
    then have "length (drop i (take len pt)) \<le> 1" using "1.prems" by simp
    then have "compress_pts (drop i (take len pt)) = []"
      by (cases "drop i (take len pt)" rule: compress_pts.cases) auto
    then show ?thesis using False "1.prems" by (simp add: cr_compress_loop.simps [of pt])
  next
    case True
    have seg: "drop i (take len pt) = pt ! i # pt ! (i + 1) # drop (i + 2) (take len pt)"
      using True "1.prems" by (simp add: seg_Cons)
    show ?thesis
    proof (cases "pt ! i = pt ! (i + 1)")
      case eq: True
      then show ?thesis
        using True "1.prems" "1.IH"(1) by (simp add: cr_compress_loop.simps [of pt] seg)
    next
      case ne: False
      define j where "j = cr_run pt len i"
      have ij: "i \<le> j" by (simp add: j_def cr_run_ge)
      note e = cr_run_extend [OF True "1.prems"(1), folded j_def]
      define pt2 where "pt2 = pt[k := pt ! i, Suc k := pt ! (j + 1)]"
      have w: "wr pt k (pt ! i) = Inr (pt[k := pt ! i])"
        "wr (pt[k := pt ! i]) (k + 1) (pt[k := pt ! i] ! (j + 1)) = Inr pt2"
        using True "1.prems" ij by (simp_all add: pt2_def)
      have d: "drop (j + 2) (take len pt2) = drop (j + 2) (take len pt)"
        using "1.prems" ij by (simp add: pt2_def drop_take)
      have tk: "take (k + 2) pt2 = take k pt @ [pt ! i, pt ! (j + 1)]"
        using True "1.prems" by (simp add: pt2_def take_Suc_conv_app_nth take_update_cancel)
      obtain pt' k' where "cr_compress_loop pt2 len (j + 2) (k + 2) = Inr (pt', k')"
        "length pt' = length pt" "k' \<le> length pt"
        "take k' pt' = take (k + 2) pt2 @ compress_pts (drop (j + 2) (take len pt2))"
        using "1.IH"(2) [OF True _ ne j_def w] "1.prems" True ij by (auto simp: pt2_def)
      then show ?thesis
        using True ne "1.prems" w e tk d by (simp add: cr_compress_loop.simps [of pt] seg j_def Let_def)
    qed
  qed
qed

lemma cr_compress_spec:
  assumes "cr_ok cr"
  shows "\<exists>cr'. cr_compress cr = Inr cr' \<and> cr_ok cr' \<and> cr_realloc_func cr' = cr_realloc_func cr \<and>
    pts cr' = compress_pts (pts cr)"
  using assms cr_compress_loop_spec [of "cr_len cr" "points cr" 0 0]
  by (auto simp: cr_compress_def cr_ok_def pts_def)

section \<open>Correctness of the operations\<close>

text \<open>The set a range stands for, and its normal form.\<close>

definition cr_set :: "CharRange \<Rightarrow> u32 set" where
  "cr_set cr = {c. in_points (pts cr) c}"

definition cr_normal :: "CharRange \<Rightarrow> bool" where
  "cr_normal cr \<longleftrightarrow> sorted_wrt (<) (pts cr) \<and> even (length (pts cr))"

lemma cr_compress_set:
  assumes "cr_ok cr" and "sorted (pts cr)" and "even (length (pts cr))"
  shows "\<exists>cr'. cr_compress cr = Inr cr' \<and> cr_ok cr' \<and> cr_realloc_func cr' = cr_realloc_func cr \<and>
    cr_normal cr' \<and> cr_set cr' = cr_set cr"
  using cr_compress_spec [OF assms(1)] compress_pts_spec [OF assms(2,3)]
  by (auto simp: cr_normal_def cr_set_def)

text \<open>
  What a set operation promises: a normalised range for the set \<open>S\<close>, or -1 and a
  well-formed range.
\<close>

definition cr_makes :: "CharRange \<Rightarrow> u32 set \<Rightarrow> int \<times> CharRange \<Rightarrow> bool" where
  "cr_makes cr S = (\<lambda>(r, cr').
     cr_ok cr' \<and> cr_realloc_func cr' = cr_realloc_func cr \<and>
     (r = 0 \<and> cr_normal cr' \<and> cr_set cr' = S \<or> r = -1))"

context cr_alloc
begin

lemma cr_op_loop_spec:
  assumes "cr_ok cr" and "cr_realloc_func cr = ra" and "sorted a" and "sorted b"
    and "cr_inv op a i b j (pts cr)"
  shows "\<exists>r cr'. cr_op_loop cr a i b j op = Inr (r, cr') \<and> cr_ok cr' \<and> cr_realloc_func cr' = ra \<and>
    (r = 0 \<and> cr_inv op a (length a) b (length b) (pts cr') \<or> r = -1)"
  using assms
proof (induction cr a i b j op rule: cr_op_loop.induct)
  case (1 cr a i b j op)
  show ?case
  proof (cases "cr_next a i b j")
    case None
    with "1.prems"(5) have "i = length a" "j = length b"
      by (auto simp: cr_next_def cr_inv_def split: if_splits)
    with None "1.prems" show ?thesis by (simp add: cr_op_loop.simps [of cr])
  next
    case (Some p)
    obtain v i' j' where p: "p = (v, i', j')" by (cases p) auto
    note st = cr_inv_step [OF "1.prems"(5,3,4) Some [unfolded p]]
    have len: "length (pts cr) = cr_len cr" using "1.prems"(1) by simp
    show ?thesis
    proof (cases "cr_is_in op (odd i') (odd j') \<noteq> odd (cr_len cr)")
      case False
      then have "cr_inv op a i' b j' (pts cr)" using st len by simp
      then show ?thesis
        using "1.IH"(2) [OF Some p [symmetric] refl] "1.prems" Some p False by (simp add: cr_op_loop.simps [of cr])
    next
      case True
      obtain r cr1 where ap: "cr_add_point cr v = Inr (r, cr1)" and s: "cr_step cr (pts cr @ [v]) (r, cr1)"
        using cr_add_point_spec [OF "1.prems"(1,2), of v] by auto
      show ?thesis
      proof (cases "r = 0")
        case r0: True
        then have "cr_inv op a i' b j' (pts cr1)" using st len True s by (auto simp: cr_step_def)
        then show ?thesis
          using "1.IH"(1) [OF Some p [symmetric] refl True ap refl] r0 "1.prems" Some p True ap s
          by (simp add: cr_op_loop.simps [of cr] cr_step_def)
      next
        case False
        then show ?thesis
          using "1.prems" Some p True ap s by (simp add: cr_op_loop.simps [of cr] cr_step_def)
      qed
    qed
  qed
qed

lemma cr_op_spec:
  assumes ok: "cr_ok cr" and ra: "cr_realloc_func cr = ra" and e: "cr_len cr = 0"
    and a: "sorted a" "even (length a)" and b: "sorted b" "even (length b)"
  shows "\<exists>rc. cr_op cr a b op = Inr rc \<and>
    cr_makes cr {c. cr_is_in op (in_points a c) (in_points b c)} rc"
proof -
  have "cr_inv op a 0 b 0 (pts cr)" using e by (simp add: pts_def cr_inv_start)
  from cr_op_loop_spec [OF ok ra a(1) b(1) this] obtain r cr1
    where l: "cr_op_loop cr a 0 b 0 op = Inr (r, cr1)" "cr_ok cr1" "cr_realloc_func cr1 = ra"
      "r = 0 \<and> cr_inv op a (length a) b (length b) (pts cr1) \<or> r = -1" by blast
  show ?thesis
  proof (cases "r = 0")
    case False
    then show ?thesis using l ra by (auto simp: cr_op_def cr_makes_def)
  next
    case True
    with l have inv: "cr_inv op a (length a) b (length b) (pts cr1)" by auto
    then have "sorted (pts cr1)" "even (length (pts cr1))"
      "cr_set cr1 = {c. cr_is_in op (in_points a c) (in_points b c)}"
      using a b by (auto simp: cr_inv_def cr_set_def cr_is_in_def split: CharRangeOpEnum.splits)
    then show ?thesis
      using True l ra cr_compress_set [of cr1] by (auto simp: cr_op_def cr_makes_def)
  qed
qed

lemma cr_union1_spec:
  assumes ok: "cr_ok cr" and ra: "cr_realloc_func cr = ra" and n: "cr_normal cr"
    and b: "sorted b" "even (length b)"
  shows "\<exists>rc. cr_union1 cr b = Inr rc \<and> cr_makes cr (cr_set cr \<union> {c. in_points b c}) rc"
proof -
  let ?e = "cr\<lparr>cr_len := 0, cr_size := 0, points := []\<rparr>"
  have "cr_ok ?e" "cr_realloc_func ?e = ra" "cr_len ?e = 0"
    using ra by (simp_all add: cr_ok_def)
  from cr_op_spec [OF this _ _ b, of "pts cr" CR_OP_UNION] n show ?thesis
    by (auto simp: cr_union1_def cr_makes_def cr_normal_def cr_set_def cr_is_in_def strict_sorted_imp
        Un_def)
qed

lemma cr_union_interval_spec:
  assumes ok: "cr_ok cr" and ra: "cr_realloc_func cr = ra" and n: "cr_normal cr"
    and c: "c1 \<le> c2" "c2 < - 1"
  shows "\<exists>rc. cr_union_interval cr c1 c2 = Inr rc \<and> cr_makes cr (cr_set cr \<union> {c1..c2}) rc"
proof -
  have lt: "x < c2 + 1 \<longleftrightarrow> x \<le> c2" for x
  proof -
    from c(2) have "1 + c2 \<noteq> 0" by (metis add.commute eq_neg_iff_add_eq_0 less_irrefl)
    then show ?thesis
      by (simp add: word_less_nat_alt word_le_nat_alt unatSuc add.commute [of c2] less_Suc_eq_le)
  qed
  have "sorted [c1, c2 + 1]" using c lt [of c1] by simp
  moreover have "{c. in_points [c1, c2 + 1] c} = {c1..c2}"
    using in_points_Cons2 [OF calculation] lt by auto
  ultimately show ?thesis
    using cr_union1_spec [OF ok ra n, of "[c1, c2 + 1]"] by (simp add: cr_union_interval_def)
qed

text \<open>The complement is taken below \<open>UINT32_MAX\<close>, the point that stands for infinity.\<close>

lemma cr_invert_spec:
  assumes ok: "cr_ok cr" and ra: "cr_realloc_func cr = ra"
    and n: "sorted (pts cr)" "even (length (pts cr))"
  shows "\<exists>rc. cr_invert cr = Inr rc \<and> cr_makes cr ({c. c < - 1} - cr_set cr) rc"
proof -
  obtain r cr1 where r: "cr_realloc cr (cr_len cr + 2) = (r, cr1)" by fastforce
  note s = cr_realloc_spec [OF ok ra r]
  show ?thesis
  proof (cases "r = 0")
    case False
    with r s ra show ?thesis by (auto simp: cr_invert_def cr_makes_def)
  next
    case True
    let ?l = "cr_len cr"
    let ?p = "(overwrite (points cr1) 1 (take ?l (points cr1)))[0 := 0, ?l + 1 := - 1]"
    let ?c = "cr1\<lparr>points := ?p, cr_len := ?l + 2\<rparr>"
    from True s have len: "?l + 2 \<le> length (points cr1)" "length (take ?l (points cr1)) = ?l"
      by (auto simp: cr_ok_def)
    have "take ?l (points cr1) = pts cr" using s by (metis pts_def)
    then have "pts ?c = 0 # pts cr @ [- 1]"
      using len by (cases "points cr1")
        (auto simp: pts_def overwrite_def list_update_append nth_append take_Suc_conv_app_nth
          split: nat.splits)
    moreover have "sorted (0 # pts cr @ [- 1])" "even (length (0 # pts cr @ [- 1]))"
      using n by (auto simp: sorted_append)
    moreover have "in_points (0 # pts cr @ [- 1]) c \<longleftrightarrow> c < - 1 \<and> \<not> in_points (pts cr) c" for c
    proof (cases "- 1 \<le> c")
      case True
      then have "\<forall>p \<in> set (pts cr). p \<le> c" using word_n1_ge order_trans by blast
      then show ?thesis
        using True n below_all [of "pts cr" c] by (auto simp: in_points_def not_less)
    next
      case False
      then have "c < - 1" by (rule not_le [THEN iffD1])
      then show ?thesis by (simp add: in_points_def)
    qed
    moreover have "cr_ok ?c" using s len by (simp add: cr_ok_def)
    ultimately obtain cr2 where "cr_compress ?c = Inr cr2" "cr_ok cr2" "cr_realloc_func cr2 = ra"
      "cr_normal cr2" "cr_set cr2 = {c. c < - 1} - cr_set cr"
      using cr_compress_set [of ?c] s by (auto simp: cr_set_def)
    moreover have lo: "length (overwrite (points cr1) 1 (take ?l (points cr1))) = length (points cr1)"
      using len by (intro length_overwrite) linarith
    have "wr (overwrite (points cr1) 1 (take ?l (points cr1))) 0 0 =
        Inr ((overwrite (points cr1) 1 (take ?l (points cr1)))[0 := 0])"
      using lo len by (intro wr_Inr) linarith
    moreover have "wr ((overwrite (points cr1) 1 (take ?l (points cr1)))[0 := 0]) (?l + 1) (- 1) = Inr ?p"
      using lo len by (intro wr_Inr, unfold length_list_update) linarith
    ultimately show ?thesis
      using True r s ra len by (auto simp: cr_invert_def cr_makes_def Let_def)
  qed
qed

end

interpretation lre_cr: cr_alloc "lre_realloc lm lr s 4 junk" for lm lr s junk
  by unfold_locales

section \<open>Properties\<close>

text \<open>C19. On ranges whose points are sorted and even in number, \<open>cr_op\<close> (the merge of the two
point lists, then the normalisation in place) never accesses memory outside its arrays and
produces a strictly sorted range for exactly the union, the intersection or the symmetric
difference of the two sets, or reports that memory ran out.\<close>

theorem cr_op_computes_set:
  assumes "cr_ok cr" and "cr_realloc_func cr = lre_realloc lm lr m 4 junk" and "cr_len cr = 0"
    and "sorted a" and "even (length a)" and "sorted b" and "even (length b)"
  shows "\<exists>r cr'. cr_op cr a b op = Inr (r, cr') \<and> cr_ok cr' \<and>
    (r = 0 \<and> cr_normal cr' \<and>
       cr_set cr' = {c. case op of
           CR_OP_UNION \<Rightarrow> in_points a c \<or> in_points b c
         | CR_OP_INTER \<Rightarrow> in_points a c \<and> in_points b c
         | CR_OP_XOR \<Rightarrow> in_points a c \<noteq> in_points b c} \<or>
     r = -1)"
proof -
  obtain rc where "cr_op cr a b op = Inr rc"
    "cr_makes cr {c. cr_is_in op (in_points a c) (in_points b c)} rc"
    using lre_cr.cr_op_spec [OF assms] by blast
  then show ?thesis by (cases rc) (auto simp: cr_makes_def cr_is_in_def)
qed

definition empty_cr :: CharRange where
  "empty_cr = cr_init (lre_realloc plain_malloc plain_realloc chip_memory 4 0)"

lemma empty_cr_ok: "cr_ok empty_cr" "cr_len empty_cr = 0" "cr_set empty_cr = {}" "cr_normal empty_cr"
  "cr_realloc_func empty_cr = lre_realloc plain_malloc plain_realloc chip_memory 4 0"
  by (simp_all add: empty_cr_def cr_set_def cr_normal_def) (simp_all add: cr_init_def)

lemma cr_op_computes_set_witness:
  "\<exists>r cr'. cr_op empty_cr [1, 5, 5, 8] [3, 9] CR_OP_INTER = Inr (r, cr') \<and> cr_ok cr' \<and>
    (r = 0 \<and> cr_normal cr' \<and>
       cr_set cr' = {c. in_points [1, 5, 5, 8] c \<and> in_points [3, 9] c} \<or> r = -1)"
  using cr_op_computes_set [OF empty_cr_ok(1,5,2), of "[1, 5, 5, 8]" "[3, 9]" CR_OP_INTER] by simp

text \<open>Adding an interval of characters to a normalised set adds exactly the characters of the
interval, for every interval that ends before the last code (\<open>c2 + 1\<close> does not wrap).\<close>

theorem cr_union_interval_adds:
  assumes "cr_ok cr" and "cr_realloc_func cr = lre_realloc lm lr m 4 junk" and "cr_normal cr"
    and "c1 \<le> c2" and "c2 < - 1"
  shows "\<exists>r cr'. cr_union_interval cr c1 c2 = Inr (r, cr') \<and> cr_ok cr' \<and>
    (r = 0 \<and> cr_normal cr' \<and> cr_set cr' = cr_set cr \<union> {c1..c2} \<or> r = -1)"
proof -
  obtain rc where "cr_union_interval cr c1 c2 = Inr rc" "cr_makes cr (cr_set cr \<union> {c1..c2}) rc"
    using lre_cr.cr_union_interval_spec [OF assms] by blast
  then show ?thesis by (cases rc) (auto simp: cr_makes_def)
qed

lemma cr_union_interval_adds_witness:
  "\<exists>r cr'. cr_union_interval empty_cr 0x61 0x7a = Inr (r, cr') \<and> cr_ok cr' \<and>
    (r = 0 \<and> cr_normal cr' \<and> cr_set cr' = cr_set empty_cr \<union> {0x61..0x7a} \<or> r = -1)"
  by (rule cr_union_interval_adds [OF empty_cr_ok(1,5,4)]) simp_all

text \<open>C20. \<open>cr_invert\<close> turns a normalised set into its complement below the point that stands for
infinity, inside the one array it grows, or reports that memory ran out.\<close>

theorem cr_invert_complements:
  assumes "cr_ok cr" and "cr_realloc_func cr = lre_realloc lm lr m 4 junk" and "cr_normal cr"
  shows "\<exists>r cr'. cr_invert cr = Inr (r, cr') \<and> cr_ok cr' \<and>
    (r = 0 \<and> cr_normal cr' \<and> cr_set cr' = {c. c < - 1} - cr_set cr \<or> r = -1)"
proof -
  have "sorted (pts cr)" "even (length (pts cr))"
    using assms(3) by (simp_all add: cr_normal_def strict_sorted_imp)
  then obtain rc where "cr_invert cr = Inr rc" "cr_makes cr ({c. c < - 1} - cr_set cr) rc"
    using lre_cr.cr_invert_spec [OF assms(1,2)] by blast
  then show ?thesis by (cases rc) (auto simp: cr_makes_def)
qed

lemma cr_invert_complements_witness:
  "\<exists>r cr'. cr_invert (empty_cr\<lparr>points := [3, 9], cr_len := 2, cr_size := 2\<rparr>) = Inr (r, cr') \<and> cr_ok cr' \<and>
    (r = 0 \<and> cr_normal cr' \<and>
     cr_set cr' = {c. c < - 1} - cr_set (empty_cr\<lparr>points := [3, 9], cr_len := 2, cr_size := 2\<rparr>) \<or> r = -1)"
  by (rule cr_invert_complements)
    (simp_all add: empty_cr_ok(5) cr_ok_def cr_normal_def pts_def)

end
