(* ===== verification/UniTab.thy ===== *)
theory UniTab
  imports UniTables CharRange
begin

text \<open>
  The run-length tables of \<open>libunicode.c\<close> and their block index: \<open>get_le24\<close>,
  \<open>get_index_pos\<close>, \<open>lre_is_in_table\<close>, and the predicates read from one table. A table
  lists, from code 0 on, the lengths of alternating runs outside and inside the set, in one
  to three bytes each; the index gives the code and the offset of every block of 32 bytes, so
  that a lookup scans one block only. The locale \<open>indexed_table\<close> states when index and table
  agree; the lookup then equals the plain scan of the whole table and stays inside it.
\<close>

section \<open>Lookup\<close>

definition UNICODE_INDEX_BLOCK_LEN :: nat where
  "UNICODE_INDEX_BLOCK_LEN = 32"

definition get_le24 :: "bytes \<Rightarrow> nat \<Rightarrow> u32 res" where
  "get_le24 tab i =
     bnd (rd tab i) (\<lambda>b0. bnd (rd tab (i + 1)) (\<lambda>b1. bnd (rd tab (i + 2)) (\<lambda>b2.
       Inr (ucast b0 OR push_bit 8 (ucast b1) OR push_bit 16 (ucast b2)))))"

definition code21 :: "u32 \<Rightarrow> u32" where
  "code21 v = v AND 0x1fffff"

text \<open>The binary search; the invariant is \<open>tab[idx_min] <= c < tab[idx_max]\<close>.\<close>

function index_search :: "u32 \<Rightarrow> bytes \<Rightarrow> nat \<Rightarrow> nat \<Rightarrow> nat res" where
  "index_search c tab idx_min idx_max =
     (if idx_min + 1 < idx_max
      then (let idx = (idx_max + idx_min) div 2 in
            bnd (get_le24 tab (idx * 3)) (\<lambda>v.
              if c < code21 v then index_search c tab idx_min idx
              else index_search c tab idx idx_max))
      else Inr idx_min)"
  by pat_completeness auto
termination
  by (relation "measure (\<lambda>(c, tab, lo, hi). hi - lo)") auto

declare index_search.simps [simp del]

text \<open>\<open>None\<close> for -1; otherwise the code the block starts at and the offset of the block.\<close>

definition get_index_pos :: "u32 \<Rightarrow> bytes \<Rightarrow> nat \<Rightarrow> (u32 \<times> nat) option res" where
  "get_index_pos c tab len =
     bnd (get_le24 tab 0) (\<lambda>v.
       if c < code21 v then Inr (Some (0, 0))
       else bnd (get_le24 tab ((len - 1) * 3)) (\<lambda>code.
         if c \<ge> code then Inr None
         else bnd (index_search c tab 0 (len - 1)) (\<lambda>idx_min.
           bnd (get_le24 tab (idx_min * 3)) (\<lambda>v.
             Inr (Some (code21 v,
                        (idx_min + 1) * UNICODE_INDEX_BLOCK_LEN + unat (drop_bit 21 v)))))))"

text \<open>
  One turn of the scan reads one entry: the lengths it stands for and the position after it.
  An entry below 64 holds two run lengths, any other one.
\<close>

definition run_entry :: "bytes \<Rightarrow> nat \<Rightarrow> (u32 list \<times> nat) res" where
  "run_entry tab p =
     bnd (rd tab p) (\<lambda>b. let b = (ucast b :: u32) in
       if b < 64 then Inr ([drop_bit 3 b + 1, (b AND 7) + 1], p + 1)
       else if b \<ge> 0x80 then Inr ([b - 0x80 + 1], p + 1)
       else if b < 0x60 then
         bnd (rd tab (p + 1)) (\<lambda>b1.
           Inr ([(push_bit 8 (b - 0x40) OR ucast b1) + 1], p + 2))
       else
         bnd (rd tab (p + 1)) (\<lambda>b1. bnd (rd tab (p + 2)) (\<lambda>b2.
           Inr ([(push_bit 16 (b - 0x60) OR push_bit 8 (ucast b1) OR ucast b2) + 1], p + 3))))"

lemma run_entry_advances: "run_entry tab p = Inr (ls, p') \<Longrightarrow> p < p' \<and> p < length tab"
  by (auto simp: run_entry_def bnd_eq_Inr rd_eq_Inr Let_def split: if_splits)

text \<open>Walk the runs of one entry: the answer, or the code and the state after them.\<close>

fun run_walk :: "u32 \<Rightarrow> u32 list \<Rightarrow> u32 \<Rightarrow> bool \<Rightarrow> bool + (u32 \<times> bool)" where
  "run_walk c [] code b = Inr (code, b)"
| "run_walk c (l # ls) code b =
     (let code = code + l in if c < code then Inl b else run_walk c ls code (\<not> b))"

function table_scan :: "u32 \<Rightarrow> bytes \<Rightarrow> nat \<Rightarrow> u32 \<Rightarrow> bool \<Rightarrow> bool res" where
  "table_scan c tab p code b =
     bnd (run_entry tab p) (\<lambda>(ls, p').
       case run_walk c ls code b of
         Inl r \<Rightarrow> Inr r
       | Inr (code', b') \<Rightarrow> table_scan c tab p' code' b')"
  by pat_completeness auto
termination
  by (relation "measure (\<lambda>(c, tab, p, code, b). length tab - p)")
    (auto dest!: run_entry_advances)

declare table_scan.simps [simp del]

definition lre_is_in_table :: "u32 \<Rightarrow> bytes \<Rightarrow> bytes \<Rightarrow> nat \<Rightarrow> bool res" where
  "lre_is_in_table c tab index_tab index_len =
     bnd (get_index_pos c index_tab index_len) (\<lambda>r. case r of
       None \<Rightarrow> Inr False
     | Some (code, pos) \<Rightarrow> table_scan c tab pos code False)"

definition lre_is_case_ignorable :: "u32 \<Rightarrow> bool res" where
  "lre_is_case_ignorable c =
     lre_is_in_table c unicode_prop_Case_Ignorable_table unicode_prop_Case_Ignorable_index
       (length unicode_prop_Case_Ignorable_index div 3)"

definition lre_is_id_start :: "u32 \<Rightarrow> bool res" where
  "lre_is_id_start c =
     lre_is_in_table c unicode_prop_ID_Start_table unicode_prop_ID_Start_index
       (length unicode_prop_ID_Start_index div 3)"

definition lre_is_id_continue :: "u32 \<Rightarrow> bool res" where
  "lre_is_id_continue c =
     bnd (lre_is_id_start c) (\<lambda>r.
       if r then Inr True
       else lre_is_in_table c unicode_prop_ID_Continue1_table unicode_prop_ID_Continue1_index
              (length unicode_prop_ID_Continue1_index div 3))"

section \<open>The plain reading of a table\<close>

text \<open>
  \<open>run_points\<close>: the codes at which the runs of an entry end. \<open>tab_points\<close>: those of a whole
  table, in order (\<open>n\<close> bounds the number of entries). A character is in the set of the table
  when an odd number of runs end at or before it.
\<close>

fun run_points :: "u32 \<Rightarrow> u32 list \<Rightarrow> u32 list" where
  "run_points code [] = []"
| "run_points code (l # ls) = (code + l) # run_points (code + l) ls"

definition run_end :: "u32 \<Rightarrow> u32 list \<Rightarrow> u32" where
  "run_end code ls = foldl (+) code ls"

fun run_mono :: "u32 \<Rightarrow> u32 list \<Rightarrow> bool" where
  "run_mono code [] = True"
| "run_mono code (l # ls) \<longleftrightarrow> code < code + l \<and> run_mono (code + l) ls"

fun tab_points :: "bytes \<Rightarrow> nat \<Rightarrow> nat \<Rightarrow> u32 \<Rightarrow> u32 list" where
  "tab_points tab 0 p code = []"
| "tab_points tab (Suc n) p code =
     (case run_entry tab p of
        Inl _ \<Rightarrow> []
      | Inr (ls, p') \<Rightarrow> run_points code ls @ tab_points tab n p' (run_end code ls))"

definition table_points :: "bytes \<Rightarrow> u32 list" where
  "table_points tab = tab_points tab (length tab) 0 0"

text \<open>
  \<open>scan_check\<close> walks the table once: codes grow without wrapping, the walk is at every mark
  \<open>(position, code)\<close> of the index in turn with the state outside, and it ends at the end of
  the table with a code not below \<open>lim\<close>.
\<close>

fun scan_check :: "bytes \<Rightarrow> nat \<Rightarrow> nat \<Rightarrow> u32 \<Rightarrow> bool \<Rightarrow> (nat \<times> u32) list \<Rightarrow> u32 \<Rightarrow> bool" where
  "scan_check tab 0 p code b ms lim \<longleftrightarrow> p = length tab \<and> ms = [] \<and> lim \<le> code"
| "scan_check tab (Suc n) p code b ms lim \<longleftrightarrow>
     (if p = length tab then ms = [] \<and> lim \<le> code
      else case run_entry tab p of
        Inl _ \<Rightarrow> False
      | Inr (ls, p') \<Rightarrow>
          run_mono code ls \<and>
          (let code' = run_end code ls; b' = (b = even (length ls)) in
           scan_check tab n p' code' b'
             (if ms \<noteq> [] \<and> hd ms = (p', code') \<and> \<not> b' then tl ms else ms) lim))"

lemma run_end_simps [simp]:
  "run_end code [] = code"
  "run_end code (l # ls) = run_end (code + l) ls"
  by (simp_all add: run_end_def)

lemma run_mono_le: "run_mono code ls \<Longrightarrow> code \<le> run_end code ls"
proof (induction ls arbitrary: code)
  case (Cons l ls)
  then have "code < code + l" "code + l \<le> run_end (code + l) ls" by auto
  then show ?case by simp
qed simp

lemma run_points_bounds:
  "run_mono code ls \<Longrightarrow> x \<in> set (run_points code ls) \<Longrightarrow> code < x \<and> x \<le> run_end code ls"
proof (induction ls arbitrary: code)
  case (Cons l ls)
  then have m: "code < code + l" "run_mono (code + l) ls" by auto
  show ?case
  proof (cases "x = code + l")
    case True
    then show ?thesis using m run_mono_le [OF m(2)] by simp
  next
    case False
    then have "x \<in> set (run_points (code + l) ls)" using Cons.prems by simp
    then have "code + l < x \<and> x \<le> run_end (code + l) ls" by (rule Cons.IH [OF m(2)])
    then show ?thesis using m(1) by auto
  qed
qed simp

lemma run_walk_out:
  "run_mono code ls \<Longrightarrow> run_end code ls \<le> c \<Longrightarrow>
   run_walk c ls code b = Inr (run_end code ls, b = even (length ls)) \<and>
   below (run_points code ls) c = length ls"
proof (induction ls arbitrary: code b)
  case (Cons l ls)
  then have m: "run_mono (code + l) ls" "run_end (code + l) ls \<le> c" by auto
  then have "code + l \<le> c" using run_mono_le [OF m(1)] by (rule_tac order_trans)
  then show ?case using Cons.IH [OF m, of "\<not> b"] by (auto simp: Let_def not_less)
qed simp

lemma run_walk_in:
  "run_mono code ls \<Longrightarrow> c < run_end code ls \<Longrightarrow> code \<le> c \<Longrightarrow>
   run_walk c ls code b = Inl (b \<noteq> odd (below (run_points code ls) c))"
proof (induction ls arbitrary: code b)
  case (Cons l ls)
  then have m: "run_mono (code + l) ls" "c < run_end (code + l) ls" by auto
  show ?case
  proof (cases "c < code + l")
    case True
    then have "below (run_points (code + l) ls) c = 0"
      using run_points_bounds [OF m(1)] by (intro below_none) (meson less_trans)
    then show ?thesis using True by (simp add: Let_def)
  next
    case False
    then show ?thesis using Cons.IH [OF m, of "\<not> b"] by (auto simp: Let_def not_less)
  qed
qed (simp add: leD)

lemma tab_points_above:
  "scan_check tab n p code b ms lim \<Longrightarrow> \<forall>x \<in> set (tab_points tab n p code). code < x"
proof (induction tab n p code b ms lim rule: scan_check.induct)
  case (2 tab n p code b ms lim)
  show ?case
  proof (cases "p = length tab")
    case True
    then show ?thesis by (simp add: run_entry_def rd_def)
  next
    case False
    with "2.prems" obtain ls p' where e: "run_entry tab p = Inr (ls, p')" and m: "run_mono code ls"
      and s: "scan_check tab n p' (run_end code ls) (b = even (length ls))
        (if ms \<noteq> [] \<and> hd ms = (p', run_end code ls) \<and> b \<noteq> even (length ls) then tl ms else ms) lim"
      by (auto simp: Let_def split: sum.splits)
    have "\<forall>x \<in> set (tab_points tab n p' (run_end code ls)). run_end code ls < x"
      by (rule "2.IH" [OF False e refl refl refl s])
    then show ?thesis
      using e run_points_bounds [OF m] run_mono_le [OF m] by (auto intro: le_less_trans)
  qed
qed simp

text \<open>The scan from any point of a checked table answers by the points that follow.\<close>

lemma table_scan_points:
  "scan_check tab n p code b ms lim \<Longrightarrow> code \<le> c \<Longrightarrow> c < lim \<Longrightarrow>
   table_scan c tab p code b = Inr (b \<noteq> in_points (tab_points tab n p code) c)"
proof (induction tab n p code b ms lim rule: scan_check.induct)
  case (2 tab n p code b ms lim)
  show ?case
  proof (cases "p = length tab")
    case True
    then show ?thesis using "2.prems" by auto
  next
    case np: False
    with "2.prems" obtain ls p' where e: "run_entry tab p = Inr (ls, p')" and m: "run_mono code ls"
      and s: "scan_check tab n p' (run_end code ls) (b = even (length ls))
        (if ms \<noteq> [] \<and> hd ms = (p', run_end code ls) \<and> b \<noteq> even (length ls) then tl ms else ms) lim"
      by (auto simp: Let_def split: sum.splits)
    show ?thesis
    proof (cases "c < run_end code ls")
      case True
      then have "below (tab_points tab n p' (run_end code ls)) c = 0"
        using tab_points_above [OF s] by (intro below_none) (meson less_trans)
      then show ?thesis
        using e run_walk_in [OF m True "2.prems"(2), of b]
        by (simp add: table_scan.simps [of c tab p] in_points_def)
    next
      case False
      then have c: "run_end code ls \<le> c" by simp
      then show ?thesis
        using e run_walk_out [OF m c, of b] "2.IH" [OF np e refl refl refl s c "2.prems"(3)]
        by (auto simp: table_scan.simps [of c tab p] in_points_def)
    qed
  qed
qed auto

text \<open>The scan from a mark of the index answers as the scan from where the check began.\<close>

lemma table_scan_mark:
  "scan_check tab n p code b ms lim \<Longrightarrow> (q, d) \<in> set ms \<Longrightarrow> d \<le> c \<Longrightarrow>
   code \<le> d \<and> table_scan c tab p code b = table_scan c tab q d False"
proof (induction tab n p code b ms lim rule: scan_check.induct)
  case (2 tab n p code b ms lim)
  show ?case
  proof (cases "p = length tab")
    case True
    then show ?thesis using "2.prems" by auto
  next
    case False
    let ?b = "\<lambda>ls :: u32 list. b = even (length ls)"
    let ?t = "\<lambda>ls p'. ms \<noteq> [] \<and> hd ms = (p', run_end code ls) \<and> \<not> ?b ls"
    from False "2.prems" obtain ls p' where e: "run_entry tab p = Inr (ls, p')" and m: "run_mono code ls"
      and s: "scan_check tab n p' (run_end code ls) (?b ls) (if ?t ls p' then tl ms else ms) lim"
      by (auto simp: Let_def split: sum.splits)
    have st: "run_end code ls \<le> c \<Longrightarrow>
      table_scan c tab p code b = table_scan c tab p' (run_end code ls) (?b ls)"
      using e run_walk_out [OF m, of c b] by (simp add: table_scan.simps [of c tab p])
    show ?thesis
    proof (cases "?t ls p' \<and> (q, d) = hd ms")
      case True
      then show ?thesis using st run_mono_le [OF m] "2.prems"(3) by auto
    next
      case f: False
      then have "(q, d) \<in> set (if ?t ls p' then tl ms else ms)"
        using "2.prems"(2) by (cases ms) auto
      from "2.IH" [OF False e refl refl refl s this "2.prems"(3)]
      have "run_end code ls \<le> d"
        "table_scan c tab p' (run_end code ls) (?b ls) = table_scan c tab q d False" by auto
      then show ?thesis using st run_mono_le [OF m] "2.prems"(3) by (auto intro: order_trans)
    qed
  qed
qed simp

section \<open>The index agrees with the table\<close>

definition le24_at :: "bytes \<Rightarrow> nat \<Rightarrow> u32" where
  "le24_at tab i = ucast (tab ! i) OR push_bit 8 (ucast (tab ! (i + 1))) OR push_bit 16 (ucast (tab ! (i + 2)))"

lemma get_le24_at: "i + 2 < length tab \<Longrightarrow> get_le24 tab i = Inr (le24_at tab i)"
  by (simp add: get_le24_def le24_at_def)

text \<open>Position and code that an index entry announces.\<close>

definition index_mark :: "bytes \<Rightarrow> nat \<Rightarrow> nat \<times> u32" where
  "index_mark idx i =
     (let v = le24_at idx (i * 3) in
      ((i + 1) * UNICODE_INDEX_BLOCK_LEN + unat (drop_bit 21 v), code21 v))"

definition index_limit :: "bytes \<Rightarrow> nat \<Rightarrow> u32" where
  "index_limit idx n = le24_at idx ((n - 1) * 3)"

definition index_ok :: "bytes \<Rightarrow> bytes \<Rightarrow> nat \<Rightarrow> bool" where
  "index_ok tab idx n \<longleftrightarrow>
     2 \<le> n \<and> n * 3 \<le> length idx \<and> snd (index_mark idx 0) \<le> index_limit idx n \<and>
     scan_check tab (length tab) 0 0 False (map (index_mark idx) [0..<n - 1]) (index_limit idx n)"

locale indexed_table =
  fixes tab idx :: bytes and n :: nat
  assumes ok: "index_ok tab idx n"
begin

lemma get_idx: "i < n \<Longrightarrow> get_le24 idx (i * 3) = Inr (le24_at idx (i * 3))"
  using ok by (intro get_le24_at) (simp add: index_ok_def)

lemma index_search_spec:
  assumes "lo < hi" and "hi < n" and "snd (index_mark idx lo) \<le> c"
  shows "\<exists>r. index_search c idx lo hi = Inr r \<and> r < hi \<and> snd (index_mark idx r) \<le> c"
  using assms
proof (induction "hi - lo" arbitrary: lo hi rule: less_induct)
  case less
  show ?case
  proof (cases "lo + 1 < hi")
    case False
    then show ?thesis using less.prems by (auto simp: index_search.simps [of c idx lo])
  next
    case True
    let ?m = "(hi + lo) div 2"
    have m: "lo < ?m" "?m < hi" using True by auto
    have g: "get_le24 idx (?m * 3) = Inr (le24_at idx (?m * 3))"
      using m less.prems by (intro get_idx) simp
    show ?thesis
    proof (cases "c < code21 (le24_at idx (?m * 3))")
      case lt: True
      have "\<exists>r. index_search c idx lo ?m = Inr r \<and> r < ?m \<and> snd (index_mark idx r) \<le> c"
        using m less.prems by (intro less.hyps) auto
      then show ?thesis using True g lt m by (auto simp: index_search.simps [of c idx lo] Let_def)
    next
      case ge: False
      have "\<exists>r. index_search c idx ?m hi = Inr r \<and> r < hi \<and> snd (index_mark idx r) \<le> c"
        using m less.prems ge by (intro less.hyps) (auto simp: index_mark_def Let_def)
      then show ?thesis using True g ge m by (auto simp: index_search.simps [of c idx lo] Let_def)
    qed
  qed
qed

text \<open>A lookup through the index equals the plain reading of the whole table.\<close>

lemma lookup_spec:
  "lre_is_in_table c tab idx n = Inr (c < index_limit idx n \<and> in_points (table_points tab) c)"
proof -
  have n: "2 \<le> n" "snd (index_mark idx 0) \<le> index_limit idx n"
    and sc: "scan_check tab (length tab) 0 0 False (map (index_mark idx) [0..<n - 1]) (index_limit idx n)"
    using ok by (auto simp: index_ok_def)
  have g0: "get_le24 idx 0 = Inr (le24_at idx 0)"
    and gn: "get_le24 idx ((n - 1) * 3) = Inr (index_limit idx n)"
    using n get_idx [of 0] get_idx [of "n - 1"] by (auto simp: index_limit_def)
  have m0: "snd (index_mark idx 0) = code21 (le24_at idx 0)"
    by (simp add: index_mark_def Let_def)
  note pts = table_scan_points [OF sc, of c]
  consider (below) "c < code21 (le24_at idx 0)"
    | (beyond) "code21 (le24_at idx 0) \<le> c" "index_limit idx n \<le> c"
    | (inside) "code21 (le24_at idx 0) \<le> c" "c < index_limit idx n" by fastforce
  then show ?thesis
  proof cases
    case below
    then have "c < index_limit idx n" using n(2) m0 by simp
    then show ?thesis using below g0 pts
      by (simp add: lre_is_in_table_def get_index_pos_def table_points_def)
  next
    case beyond
    then show ?thesis using g0 gn by (simp add: lre_is_in_table_def get_index_pos_def leD)
  next
    case inside
    obtain r where r: "index_search c idx 0 (n - 1) = Inr r" "r < n - 1" "snd (index_mark idx r) \<le> c"
      using index_search_spec [of 0 "n - 1" c] n inside(1) m0 by auto
    then have "index_mark idx r \<in> set (map (index_mark idx) [0..<n - 1])" by auto
    then have "(fst (index_mark idx r), snd (index_mark idx r)) \<in> set (map (index_mark idx) [0..<n - 1])"
      by (simp only: prod.collapse)
    from table_scan_mark [OF sc this r(3)]
    have "table_scan c tab 0 0 False =
      table_scan c tab (fst (index_mark idx r)) (snd (index_mark idx r)) False" by blast
    then show ?thesis
      using inside g0 gn r get_idx [of r] pts
      by (auto simp: lre_is_in_table_def get_index_pos_def table_points_def index_mark_def Let_def not_less)
  qed
qed

end

section \<open>Checking a concrete table\<close>

text \<open>
  The same walk over the bytes read as integers, by recursion on the list, so that it
  evaluates fast on the tables of the source; it implies \<open>scan_check\<close>.
\<close>

definition hit_mark :: "bool \<Rightarrow> 'a \<Rightarrow> 'b \<Rightarrow> ('a \<times> 'b) list \<Rightarrow> ('a \<times> 'b) list" where
  "hit_mark b p code ms = (if ms \<noteq> [] \<and> hd ms = (p, code) \<and> \<not> b then tl ms else ms)"

fun scan_ints :: "int list \<Rightarrow> int \<Rightarrow> int \<Rightarrow> bool \<Rightarrow> (int \<times> int) list \<Rightarrow> int \<Rightarrow> bool" where
  "scan_ints [] p code b ms lim \<longleftrightarrow> ms = [] \<and> lim \<le> code \<and> code < 2147483648"
| "scan_ints (x # xs) p code b ms lim \<longleftrightarrow>
     (if x < 64 then
        (let p = p + 1; code = code + x div 8 + x mod 8 + 2 in
         scan_ints xs p code b (hit_mark b p code ms) lim)
      else if x \<ge> 128 then
        (let p = p + 1; code = code + x - 127 in
         scan_ints xs p code (\<not> b) (hit_mark (\<not> b) p code ms) lim)
      else if x < 96 then
        (case xs of y # ys \<Rightarrow>
          (let p = p + 2; code = code + (x - 64) * 256 + y + 1 in
           scan_ints ys p code (\<not> b) (hit_mark (\<not> b) p code ms) lim) | _ \<Rightarrow> False)
      else
        (case xs of y # z # zs \<Rightarrow>
          (let p = p + 3; code = code + (x - 96) * 65536 + y * 256 + z + 1 in
           scan_ints zs p code (\<not> b) (hit_mark (\<not> b) p code ms) lim) | _ \<Rightarrow> False))"

lemma scan_ints_bound:
  "scan_ints xs p code b ms lim \<Longrightarrow> \<forall>x \<in> set xs. 0 \<le> x \<and> x < 256 \<Longrightarrow> code < 2147483648"
proof (induction xs p code b ms lim rule: scan_ints.induct)
  case (2 x xs p code b ms lim)
  have x: "0 \<le> x" "x < 256" "0 \<le> x div 8" "0 \<le> x mod 8" using "2.prems"(2) by auto
  consider (a) "x < 64" | (b) "\<not> x < 64" "x \<ge> 128" | (c) "\<not> x < 64" "\<not> x \<ge> 128" "x < 96"
    | (d) "\<not> x < 64" "\<not> x \<ge> 128" "\<not> x < 96" by linarith
  then show ?case
  proof cases
    case a
    then show ?thesis using "2.IH"(1) [OF a refl refl] "2.prems" x by (auto simp: Let_def)
  next
    case b
    then show ?thesis using "2.IH"(2) [OF b refl refl] "2.prems" x by (auto simp: Let_def)
  next
    case c
    then obtain y ys where xs: "xs = y # ys" using "2.prems" by (auto split: list.splits)
    then show ?thesis using "2.IH"(3) [OF c xs refl refl] "2.prems" x c by (auto simp: Let_def)
  next
    case d
    then obtain y z zs where xs: "xs = y # z # zs" using "2.prems" by (auto split: list.splits)
    then show ?thesis using "2.IH"(4) [OF d xs refl refl refl] "2.prems" x d by (auto simp: Let_def)
  qed
qed simp

lemma uint_push8_or:
  assumes "uint (w :: u32) < 2 ^ 24"
  shows "uint (push_bit 8 w OR ucast (y :: u8)) = uint w * 256 + uint y"
proof -
  have y: "uint (ucast y :: u32) = uint y" by (simp add: uint_up_ucast is_up)
  have "uint (push_bit 8 w) = take_bit 32 (push_bit 8 (uint w))"
    by (simp add: unsigned_push_bit_eq)
  also have "\<dots> = push_bit 8 (uint w)"
    using assms by (simp add: push_bit_eq_mult take_bit_int_eq_self)
  finally have "uint (push_bit 8 w OR ucast y) = concat_bit 8 (uint y) (uint w)"
    using y by (simp add: concat_bit_def unsigned_or_eq take_bit_int_eq_self or.commute uint_lt2p [of y, simplified])
  also have "\<dots> = uint w * 256 + uint y"
    using uint_lt2p [of y] by (simp add: concat_bit_eq push_bit_eq_mult take_bit_int_eq_self)
  finally show ?thesis .
qed

lemma uint_add_exact: "uint (a :: u32) + uint b < 2 ^ 32 \<Longrightarrow> uint (a + b) = uint a + uint b"
  by (simp add: uint_plus_if')

lemma map_hit_mark:
  "map (map_prod int uint) (hit_mark b p (c :: u32) ms) =
   hit_mark b (int p) (uint c) (map (map_prod int uint) ms)"
  by (cases ms) (auto simp: hit_mark_def word_uint_eq_iff)

lemma scan_check_entry:
  assumes e: "run_entry tab p = Inr (ls, p')" and p: "p \<noteq> length tab"
    and m: "run_mono code ls" and c: "uint (run_end code ls) = code'"
    and b: "b' = (b = even (length ls))"
    and s: "scan_ints (map uint (drop p' tab)) (int p') code' b'
      (hit_mark b' (int p') code' (map (map_prod int uint) ms)) (uint lim)"
    and ih: "\<And>code b ms. scan_ints (map uint (drop p' tab)) (int p') (uint code) b
      (map (map_prod int uint) ms) (uint lim) \<Longrightarrow> scan_check tab n p' code b ms lim"
  shows "scan_check tab (Suc n) p code b ms lim"
proof -
  have "scan_check tab n p' (run_end code ls) b' (hit_mark b' p' (run_end code ls) ms) lim"
    using s by (intro ih) (simp add: map_hit_mark c)
  then show ?thesis
    using e p m b by (simp add: Let_def hit_mark_def)
qed

lemma ucast_less_iff: "(ucast (b :: u8) :: u32) < numeral k \<longleftrightarrow> uint b < uint (numeral k :: u32)"
  by (simp add: word_less_def uint_up_ucast is_up)

lemma drop_Suc_Cons: "p < length tab \<Longrightarrow> drop p tab = tab ! p # drop (p + 1) tab"
  by (simp add: Cons_nth_drop_Suc)

lemma run_mono_one:
  "uint code + uint l < 2147483648 \<Longrightarrow> 0 < uint l \<Longrightarrow>
   run_mono code [l] \<and> uint (run_end code [l]) = uint code + uint (l :: u32)"
  using uint_add_exact [of code l] by (simp add: word_less_def)

lemma scan_ints_check:
  "scan_ints (map uint (drop p tab)) (int p) (uint code) b (map (map_prod int uint) ms) (uint lim) \<Longrightarrow>
   length tab - p \<le> n \<Longrightarrow> p \<le> length tab \<Longrightarrow> scan_check tab n p code b ms lim"
proof (induction n arbitrary: p code b ms)
  case 0
  then show ?case by (simp add: word_le_def)
next
  case (Suc n)
  show ?case
  proof (cases "p = length tab")
    case True
    then show ?thesis using Suc.prems by (simp add: word_le_def)
  next
    case np: False
    then have p: "p < length tab" using Suc.prems by simp
    let ?x = "uint (tab ! p)" and ?B = "ucast (tab ! p) :: u32"
    have x: "0 \<le> ?x" "?x < 256" using uint_lt2p [of "tab ! p"] by auto
    have byt: "\<forall>y \<in> set (map uint (drop q tab)). 0 \<le> y \<and> y < 256" for q
      using uint_lt2p [where 'a = 8] by auto
    have B: "uint ?B = ?x" by (simp add: uint_up_ucast is_up)
    have ih: "scan_ints (map uint (drop p' tab)) (int p') (uint code) b
        (map (map_prod int uint) ms) (uint lim) \<Longrightarrow> scan_check tab n p' code b ms lim"
      if "p < p'" "p' \<le> length tab" for p' code b ms
      using that Suc.prems by (intro Suc.IH) auto
    note sc = Suc.prems(1) [unfolded drop_Suc_Cons [OF p] list.map scan_ints.simps]
    consider (a) "?x < 64" | (b) "\<not> ?x < 64" "?x \<ge> 128" | (c) "\<not> ?x < 64" "\<not> ?x \<ge> 128" "?x < 96"
      | (d) "\<not> ?x < 64" "\<not> ?x \<ge> 128" "\<not> ?x < 96" by linarith
    then show ?thesis
    proof cases
      case a
      let ?l = "drop_bit 3 ?B + 1" and ?m = "(?B AND 7) + 1"
      have "?B AND 7 = take_bit 3 ?B" by (simp add: take_bit_eq_mask mask_eq_exp_minus_1)
      then have "uint (drop_bit 3 ?B) = ?x div 8" "uint (?B AND 7) = ?x mod 8"
        using B by (simp_all add: drop_bit_eq_div take_bit_eq_mod uint_div uint_mod)
      then have l: "uint ?l = ?x div 8 + 1" "uint ?m = ?x mod 8 + 1"
        using x uint_add_exact [of "drop_bit 3 ?B" 1] uint_add_exact [of "?B AND 7" 1] by auto
      have s: "scan_ints (map uint (drop (p + 1) tab)) (int (p + 1)) (uint code + ?x div 8 + ?x mod 8 + 2) b
          (hit_mark b (int (p + 1)) (uint code + ?x div 8 + ?x mod 8 + 2) (map (map_prod int uint) ms)) (uint lim)"
        using sc a by (simp add: Let_def add.commute)
      have bd: "uint code + ?x div 8 + ?x mod 8 + 2 < 2147483648"
        using scan_ints_bound [OF s byt] .
      have nn: "0 \<le> ?x div 8" "0 \<le> ?x mod 8" using x by (simp_all add: pos_imp_zdiv_nonneg_iff)
      have m1: "run_mono code [?l] \<and> uint (run_end code [?l]) = uint code + uint ?l"
        using bd nn l by - (rule run_mono_one; linarith)
      then have c1: "uint (code + ?l) = uint code + ?x div 8 + 1" using l by simp
      have m2: "run_mono (code + ?l) [?m] \<and> uint (run_end (code + ?l) [?m]) = uint (code + ?l) + uint ?m"
        using bd nn l c1 by - (rule run_mono_one; linarith)
      have e: "run_entry tab p = Inr ([?l, ?m], p + 1)"
        using p a by (simp add: run_entry_def Let_def ucast_less_iff)
      have "run_mono code [?l, ?m]" "uint (run_end code [?l, ?m]) = uint code + ?x div 8 + ?x mod 8 + 2"
        using m1 m2 l c1 by simp_all
      then show ?thesis
        using p by (intro scan_check_entry [OF e np _ _ _ s ih]) simp_all
    next
      case b
      let ?l = "?B - 0x80 + 1"
      have "uint (?B - 0x80) = ?x - 128" using b(2) B by (simp add: uint_sub_if')
      then have l: "uint ?l = ?x - 127"
        using x uint_add_exact [of "?B - 0x80" 1] by simp
      have s: "scan_ints (map uint (drop (p + 1) tab)) (int (p + 1)) (uint code + ?x - 127) (\<not> b)
          (hit_mark (\<not> b) (int (p + 1)) (uint code + ?x - 127) (map (map_prod int uint) ms)) (uint lim)"
        using sc b by (simp add: Let_def add.commute)
      then have m: "run_mono code [?l]" "uint (code + ?l) = uint code + uint ?l"
        using run_mono_one [of code ?l] scan_ints_bound [OF s byt] l b(2) by auto
      show ?thesis
        using p b m l
        by (intro scan_check_entry [OF _ np _ _ _ s ih])
          (auto simp: run_entry_def Let_def ucast_less_iff not_less [symmetric])
    next
      case c
      then obtain y where q: "p + 1 < length tab" and y: "y = tab ! (p + 1)"
        using sc by (cases "p + 1 < length tab") (auto simp: Let_def)
      let ?w = "?B - 0x40" and ?l = "(push_bit 8 (?B - 0x40) OR ucast y) + 1"
      have w: "uint ?w = ?x - 64" using c(1) B by (simp add: uint_sub_if')
      then have "uint (push_bit 8 ?w OR ucast y) = (?x - 64) * 256 + uint y"
        using x uint_push8_or [of ?w y] by simp
      then have l: "uint ?l = (?x - 64) * 256 + uint y + 1"
        using x uint_lt2p [of y] uint_add_exact [of "push_bit 8 ?w OR ucast y" 1] by simp
      let ?c = "uint code + (?x - 64) * 256 + uint y + 1"
      have s: "scan_ints (map uint (drop (p + 2) tab)) (int (p + 2)) ?c (\<not> b)
          (hit_mark (\<not> b) (int (p + 2)) ?c (map (map_prod int uint) ms)) (uint lim)"
        using sc c q y by (simp add: Let_def add.commute drop_Suc_Cons)
      have "run_mono code [?l] \<and> uint (run_end code [?l]) = uint code + uint ?l"
        proof (rule run_mono_one)
        show "uint code + uint ?l < 2147483648" using scan_ints_bound [OF s byt] l by linarith
        show "0 < uint ?l" unfolding l
          by (intro add_nonneg_pos add_nonneg_nonneg mult_nonneg_nonneg) (use c(1) in auto)
      qed
      then have m: "run_mono code [?l]" "uint (code + ?l) = uint code + uint ?l" by simp_all
      show ?thesis
        using p q y c m l
        by (intro scan_check_entry [OF _ np _ _ _ s ih])
          (auto simp: run_entry_def Let_def ucast_less_iff not_less [symmetric])
    next
      case d
      have q: "p + 2 < length tab"
        using sc d by (cases "p + 1 < length tab"; cases "p + 2 < length tab") (auto simp: Let_def drop_Suc_Cons)
      define y z where y: "y = tab ! (p + 1)" and z: "z = tab ! (p + 2)"
      let ?w = "?B - 0x60" and ?l = "(push_bit 16 (?B - 0x60) OR push_bit 8 (ucast y) OR ucast z) + 1"
      have w: "uint ?w = ?x - 96" using d(3) B by (simp add: uint_sub_if')
      have v: "uint (push_bit 8 ?w OR ucast y) = (?x - 96) * 256 + uint y"
        using x w uint_push8_or [of ?w y] by simp
      have "push_bit 16 ?w OR push_bit 8 (ucast y) OR ucast z =
        push_bit 8 (push_bit 8 ?w OR ucast y) OR ucast z"
        by (simp add: push_bit_or or.assoc)
      then have "uint (push_bit 16 ?w OR push_bit 8 (ucast y) OR ucast z) =
        (?x - 96) * 65536 + uint y * 256 + uint z"
        using x v uint_lt2p [of y] uint_push8_or [of "push_bit 8 ?w OR ucast y" z] by simp
      then have l: "uint ?l = (?x - 96) * 65536 + uint y * 256 + uint z + 1"
        using x uint_lt2p [of y] uint_lt2p [of z]
          uint_add_exact [of "push_bit 16 ?w OR push_bit 8 (ucast y) OR ucast z" 1] by simp
      let ?c = "uint code + (?x - 96) * 65536 + uint y * 256 + uint z + 1"
      have s: "scan_ints (map uint (drop (p + 3) tab)) (int (p + 3)) ?c (\<not> b)
          (hit_mark (\<not> b) (int (p + 3)) ?c (map (map_prod int uint) ms)) (uint lim)"
        using sc d q y z by (simp add: Let_def add.commute drop_Suc_Cons eval_nat_numeral)
      have "run_mono code [?l] \<and> uint (run_end code [?l]) = uint code + uint ?l"
        proof (rule run_mono_one)
        show "uint code + uint ?l < 2147483648" using scan_ints_bound [OF s byt] l by linarith
        show "0 < uint ?l" unfolding l
          by (intro add_nonneg_pos add_nonneg_nonneg mult_nonneg_nonneg) (use d(3) in auto)
      qed
      then have m: "run_mono code [?l]" "uint (code + ?l) = uint code + uint ?l" by simp_all
      show ?thesis
        using p q y z d m l
        by (intro scan_check_entry [OF _ np _ _ _ s ih])
          (auto simp: run_entry_def Let_def ucast_less_iff not_less [symmetric])
    qed
  qed
qed

text \<open>\<open>index_ok\<close> from a computation on integers; \<open>ims\<close> are the marks of the index.\<close>

lemma index_okI:
  assumes "2 \<le> n" and "n * 3 \<le> length idx" and "snd (index_mark idx 0) \<le> index_limit idx n"
    and m: "map (\<lambda>i. map_prod int uint (index_mark idx i)) [0..<n - 1] = ims"
    and "scan_ints (map uint tab) 0 0 False ims (uint (index_limit idx n))"
  shows "index_ok tab idx n"
proof -
  have "map (map_prod int uint) (map (index_mark idx) [0..<n - 1]) = ims"
    using m by (simp add: comp_def)
  then have "scan_check tab (length tab) 0 0 False (map (index_mark idx) [0..<n - 1]) (index_limit idx n)"
    using assms(5) by (intro scan_ints_check) simp_all
  then show ?thesis using assms(1-3) by (simp add: index_ok_def)
qed

lemmas index_eval = index_mark_def index_limit_def le24_at_def code21_def UNICODE_INDEX_BLOCK_LEN_def


lemma cased1_marks:
  "map (\<lambda>i. map_prod int uint (index_mark unicode_prop_Cased1_index i)) [0..<5] =
    [(39, 697), (66, 7840), (98, 42654), (128, 119994), (160, 120713)]"
  "uint (index_limit unicode_prop_Cased1_index 6) = 127370"
  by (simp_all add: upt_rec_numeral upt_rec index_eval unicode_prop_Cased1_index_def)

interpretation cased1: indexed_table unicode_prop_Cased1_table unicode_prop_Cased1_index 6
proof (unfold_locales, rule index_okI)
  show "map (\<lambda>i. map_prod int uint (index_mark unicode_prop_Cased1_index i)) [0..<6 - 1] =
    [(39, 697), (66, 7840), (98, 42654), (128, 119994), (160, 120713)]"
    using cased1_marks(1) by simp
  show "snd (index_mark unicode_prop_Cased1_index 0) \<le> index_limit unicode_prop_Cased1_index 6"
    by (simp add: index_eval unicode_prop_Cased1_index_def)
  show "scan_ints (map uint unicode_prop_Cased1_table) 0 0 False
    [(39, 697), (66, 7840), (98, 42654), (128, 119994), (160, 120713)]
    (uint (index_limit unicode_prop_Cased1_index 6))"
    unfolding cased1_marks(2) by code_simp
qed (simp_all add: unicode_prop_Cased1_index_def)

lemma ignorable_marks:
  "map (\<lambda>i. map_prod int uint (index_mark unicode_prop_Case_Ignorable_index i)) [0..<21] =
    [(32, 1470), (64, 2046), (97, 2642), (129, 3077), (162, 3643), (194, 4193), (225, 6159),
     (259, 6979), (288, 7545), (320, 8433), (354, 42509), (385, 43310), (416, 43742), (449,
     65295), (482, 68327), (513, 70018), (547, 70852), (576, 72004), (609, 73032), (640,
     113828), (672, 123198)]"
  "uint (index_limit unicode_prop_Case_Ignorable_index 22) = 918000"
  by (simp_all add: upt_rec_numeral upt_rec index_eval unicode_prop_Case_Ignorable_index_def)

interpretation ignorable: indexed_table unicode_prop_Case_Ignorable_table unicode_prop_Case_Ignorable_index 22
proof (unfold_locales, rule index_okI)
  show "map (\<lambda>i. map_prod int uint (index_mark unicode_prop_Case_Ignorable_index i)) [0..<22 - 1] =
    [(32, 1470), (64, 2046), (97, 2642), (129, 3077), (162, 3643), (194, 4193), (225, 6159),
     (259, 6979), (288, 7545), (320, 8433), (354, 42509), (385, 43310), (416, 43742), (449,
     65295), (482, 68327), (513, 70018), (547, 70852), (576, 72004), (609, 73032), (640,
     113828), (672, 123198)]"
    using ignorable_marks(1) by simp
  show "snd (index_mark unicode_prop_Case_Ignorable_index 0) \<le> index_limit unicode_prop_Case_Ignorable_index 22"
    by (simp add: index_eval unicode_prop_Case_Ignorable_index_def)
  show "scan_ints (map uint unicode_prop_Case_Ignorable_table) 0 0 False
    [(32, 1470), (64, 2046), (97, 2642), (129, 3077), (162, 3643), (194, 4193), (225, 6159),
     (259, 6979), (288, 7545), (320, 8433), (354, 42509), (385, 43310), (416, 43742), (449,
     65295), (482, 68327), (513, 70018), (547, 70852), (576, 72004), (609, 73032), (640,
     113828), (672, 123198)]
    (uint (index_limit unicode_prop_Case_Ignorable_index 22))"
    unfolding ignorable_marks(2) by code_simp
qed (simp_all add: unicode_prop_Case_Ignorable_index_def)

section \<open>Properties\<close>

text \<open>C21. The block index is only an acceleration: for every table whose index announces codes
and offsets that the table really has, a lookup never reads outside table or index and
answers by the whole table read from its beginning (and by \<open>FALSE\<close> from the code on that ends
the index).\<close>

theorem index_lookup_exact:
  assumes "index_ok tab idx n"
  shows "lre_is_in_table c tab idx n = Inr (c < index_limit idx n \<and> in_points (table_points tab) c)"
  by (rule indexed_table.lookup_spec, unfold_locales, rule assms)

lemma index_lookup_exact_witness:
  "\<forall>c. lre_is_in_table c unicode_prop_Cased1_table unicode_prop_Cased1_index 6 =
    Inr (c < index_limit unicode_prop_Cased1_index 6 \<and> in_points (table_points unicode_prop_Cased1_table) c)"
  by (intro allI index_lookup_exact cased1.ok)

end
