(* ===== verification/UniCase.thy ===== *)
theory UniCase
  imports UniTab
begin

text \<open>
  Case conversion, \<open>lre_case_conv\<close> and \<open>lre_is_cased\<close> of \<open>libunicode.c\<close>, on the tables of the
  source. Both find the run of a character by the same binary search, stated once over the
  comparison it makes (\<open>bsearch\<close>, locale \<open>ordered_probe\<close>); the rows of the case table are
  shown to be in order, so the search finds the run whenever there is one.
\<close>

section \<open>Binary search\<close>

datatype side = Before | After | Inside

text \<open>
  \<open>probe idx\<close> reads the row \<open>idx\<close> and compares: the key lies before it, after it, or in it.
  The bounds are signed, \<open>idx_max\<close> may be -1.
\<close>

function bsearch :: "(nat \<Rightarrow> side res) \<Rightarrow> int \<Rightarrow> int \<Rightarrow> nat option res" where
  "bsearch probe idx_min idx_max =
     (if idx_min \<le> idx_max
      then (let idx = (idx_max + idx_min) div 2 in
            bnd (probe (nat idx)) (\<lambda>s. case s of
              Before \<Rightarrow> bsearch probe idx_min (idx - 1)
            | After \<Rightarrow> bsearch probe (idx + 1) idx_max
            | Inside \<Rightarrow> Inr (Some (nat idx))))
      else Inr None)"
  by pat_completeness auto
termination
  by (relation "measure (\<lambda>(probe, lo, hi). nat (hi + 1 - lo))") auto

declare bsearch.simps [simp del]

locale ordered_probe =
  fixes probe :: "nat \<Rightarrow> side res" and n :: nat
  assumes defined: "i < n \<Longrightarrow> \<exists>s. probe i = Inr s"
    and before: "i < j \<Longrightarrow> j < n \<Longrightarrow> probe i = Inr Before \<Longrightarrow> probe j = Inr Before"
    and inside: "i < j \<Longrightarrow> j < n \<Longrightarrow> probe i = Inr Inside \<Longrightarrow> probe j = Inr Before"
begin

lemma after: "i < j \<Longrightarrow> j < n \<Longrightarrow> probe j = Inr After \<Longrightarrow> probe i = Inr After"
  using defined [of i] before [of i j] inside [of i j]
  by (metis Inr_inject less_trans side.distinct(1,5) side.exhaust)

lemma bsearch_range:
  assumes "0 \<le> lo" and "hi < int n"
  shows "(\<exists>i. bsearch probe lo hi = Inr (Some i) \<and> lo \<le> int i \<and> int i \<le> hi \<and> probe i = Inr Inside) \<or>
    bsearch probe lo hi = Inr None \<and> (\<forall>i. lo \<le> int i \<and> int i \<le> hi \<longrightarrow> probe i \<noteq> Inr Inside)"
  using assms
proof (induction "nat (hi + 1 - lo)" arbitrary: lo hi rule: less_induct)
  case less
  show ?case
  proof (cases "lo \<le> hi")
    case False
    then show ?thesis by (auto simp: bsearch.simps [of probe lo])
  next
    case True
    let ?m = "(hi + lo) div 2"
    have m: "lo \<le> ?m" "?m \<le> hi" using True by auto
    then have mn: "nat ?m < n" using less.prems by linarith
    then obtain s where s: "probe (nat ?m) = Inr s" using defined by blast
    show ?thesis
    proof (cases s)
      case Inside
      then show ?thesis
        using True s m less.prems by (auto simp: bsearch.simps [of probe lo] Let_def)
    next
      case Before
      have no: "probe i \<noteq> Inr Inside" if "?m \<le> int i" "int i \<le> hi" for i
        using that before [of "nat ?m" i] s Before less.prems m
        by (cases "i = nat ?m") (auto simp: nat_less_iff)
      have "nat (?m - 1 + 1 - lo) < nat (hi + 1 - lo)" using m True by linarith
      moreover have "?m - 1 < int n" using m less.prems by linarith
      ultimately have "(\<exists>i. bsearch probe lo (?m - 1) = Inr (Some i) \<and> lo \<le> int i \<and> int i \<le> ?m - 1 \<and>
            probe i = Inr Inside) \<or>
          bsearch probe lo (?m - 1) = Inr None \<and>
            (\<forall>i. lo \<le> int i \<and> int i \<le> ?m - 1 \<longrightarrow> probe i \<noteq> Inr Inside)"
        using less.prems by (intro less.hyps) auto
      moreover have "bsearch probe lo hi = bsearch probe lo (?m - 1)"
        using True s Before by (simp add: bsearch.simps [of probe lo hi] Let_def)
      ultimately show ?thesis using no m by (smt (verit))
    next
      case After
      have no: "probe i \<noteq> Inr Inside" if "lo \<le> int i" "int i \<le> ?m" for i
        using that after [of i "nat ?m"] s After mn less.prems m
        by (cases "i = nat ?m") (auto simp: zless_nat_conj)
      have "nat (hi + 1 - (?m + 1)) < nat (hi + 1 - lo)" using m True by linarith
      moreover have "0 \<le> ?m + 1" using m less.prems by linarith
      ultimately have "(\<exists>i. bsearch probe (?m + 1) hi = Inr (Some i) \<and> ?m + 1 \<le> int i \<and> int i \<le> hi \<and>
            probe i = Inr Inside) \<or>
          bsearch probe (?m + 1) hi = Inr None \<and>
            (\<forall>i. ?m + 1 \<le> int i \<and> int i \<le> hi \<longrightarrow> probe i \<noteq> Inr Inside)"
        using less.prems by (intro less.hyps) auto
      moreover have "bsearch probe lo hi = bsearch probe (?m + 1) hi"
        using True s After by (simp add: bsearch.simps [of probe lo hi] Let_def)
      ultimately show ?thesis using no m by (smt (verit))
    qed
  qed
qed

text \<open>The search over all rows finds the row the key lies in, or shows that there is none.\<close>

lemma bsearch_spec:
  "(\<exists>i < n. bsearch probe 0 (int n - 1) = Inr (Some i) \<and> probe i = Inr Inside) \<or>
   bsearch probe 0 (int n - 1) = Inr None \<and> (\<forall>i < n. probe i \<noteq> Inr Inside)"
proof -
  have h: "int n - 1 < int n" by simp
  show ?thesis
    using bsearch_range [of 0 "int n - 1", OF order_refl h] by auto
qed

end

section \<open>The case tables\<close>

definition run_code :: "u32 \<Rightarrow> u32" where
  "run_code v = drop_bit (32 - 17) v"

definition run_len :: "u32 \<Rightarrow> u32" where
  "run_len v = drop_bit (32 - 17 - 7) v AND 0x7f"

definition run_type :: "u32 \<Rightarrow> u32" where
  "run_type v = drop_bit (32 - 17 - 7 - 4) v AND 0xf"

definition case_probe :: "u32 \<Rightarrow> nat \<Rightarrow> side res" where
  "case_probe c idx =
     bnd (rd case_conv_table1 idx) (\<lambda>v.
       Inr (if c < run_code v then Before
            else if c \<ge> run_code v + run_len v then After
            else Inside))"

text \<open>The run types, in the order of the enumeration.\<close>

definition RUN_TYPE_UF :: u32 where "RUN_TYPE_UF = 2"
definition RUN_TYPE_UL :: u32 where "RUN_TYPE_UL = 4"
definition RUN_TYPE_LSU :: u32 where "RUN_TYPE_LSU = 5"
definition RUN_TYPE_U2L_399_EXT2 :: u32 where "RUN_TYPE_U2L_399_EXT2 = 6"
definition RUN_TYPE_UF_D20 :: u32 where "RUN_TYPE_UF_D20 = 7"
definition RUN_TYPE_UF_D1_EXT :: u32 where "RUN_TYPE_UF_D1_EXT = 8"
definition RUN_TYPE_U_EXT :: u32 where "RUN_TYPE_U_EXT = 9"
definition RUN_TYPE_LF_EXT :: u32 where "RUN_TYPE_LF_EXT = 10"
definition RUN_TYPE_U_EXT2 :: u32 where "RUN_TYPE_U_EXT2 = 11"
definition RUN_TYPE_L_EXT2 :: u32 where "RUN_TYPE_L_EXT2 = 12"

lemmas run_types = RUN_TYPE_UF_def RUN_TYPE_UL_def RUN_TYPE_LSU_def RUN_TYPE_U2L_399_EXT2_def
  RUN_TYPE_UF_D20_def RUN_TYPE_UF_D1_EXT_def RUN_TYPE_U_EXT_def RUN_TYPE_LF_EXT_def
  RUN_TYPE_U_EXT2_def RUN_TYPE_L_EXT2_def

definition ext :: "u32 \<Rightarrow> u32 res" where
  "ext i = bnd (rd case_conv_ext (unat i)) (\<lambda>x. Inr (ucast x))"

text \<open>
  The conversion of a character \<open>c\<close> in the run \<open>v\<close> with the data word \<open>data\<close>: the \<open>switch\<close>
  over the run type. The result is the list \<open>res[0..n-1]\<close> of the \<open>n\<close> codes returned.
\<close>

definition case_conv_run :: "u32 \<Rightarrow> u32 \<Rightarrow> u32 \<Rightarrow> u32 \<Rightarrow> u32 list res" where
  "case_conv_run c conv_type v data =
     (let code = run_code v; type = run_type v;
          is_lower = (if conv_type \<noteq> 0 then 1 else 0 :: u32) in
      if type < RUN_TYPE_UL then
        (if conv_type = type AND 1 \<or> type \<ge> RUN_TYPE_UF \<and> conv_type = 2
         then bnd (rd case_conv_table1 (unat data)) (\<lambda>w. Inr [c - code + run_code w])
         else Inr [c])
      else if type = RUN_TYPE_UL then
        (let a = c - code in
         if a AND 1 \<noteq> 1 - is_lower then Inr [c] else Inr [(a XOR 1) + code])
      else if type = RUN_TYPE_LSU then
        (let a = c - code in
         if a = 1 then Inr [c + (2 * is_lower - 1)]
         else if a = (1 - is_lower) * 2 then Inr [c + (2 * is_lower - 1) * 2]
         else Inr [c])
      else if type = RUN_TYPE_U2L_399_EXT2 then
        (if is_lower = 0
         then bnd (ext (drop_bit 6 data)) (\<lambda>x. Inr [c - code + x, 0x399])
         else bnd (ext (data AND 0x3f)) (\<lambda>x. Inr [c - code + x]))
      else if type = RUN_TYPE_UF_D20 then
        (if conv_type = 1 then Inr [c]
         else Inr [data + (if conv_type = 2 then 0x20 else 0)])
      else if type = RUN_TYPE_UF_D1_EXT then
        (if conv_type = 1 then Inr [c]
         else bnd (ext data) (\<lambda>x. Inr [x + (if conv_type = 2 then 1 else 0)]))
      else if type = RUN_TYPE_U_EXT \<or> type = RUN_TYPE_LF_EXT then
        (if is_lower \<noteq> type - RUN_TYPE_U_EXT then Inr [c]
         else bnd (ext data) (\<lambda>x. Inr [x]))
      else if type = RUN_TYPE_U_EXT2 \<or> type = RUN_TYPE_L_EXT2 then
        (if conv_type \<noteq> type - RUN_TYPE_U_EXT2 then Inr [c]
         else bnd (ext (drop_bit 6 data)) (\<lambda>x. bnd (ext (data AND 0x3f)) (\<lambda>y.
                Inr [c - code + x, y])))
      else
        (if conv_type \<noteq> 0 then Inr [c]
         else bnd (ext (drop_bit 8 data)) (\<lambda>x. bnd (ext (drop_bit 4 data AND 0xf)) (\<lambda>y.
              bnd (ext (data AND 0xf)) (\<lambda>z. Inr [x, y, z])))))"

definition case_data :: "nat \<Rightarrow> u32 \<Rightarrow> u32 res" where
  "case_data idx v =
     bnd (rd case_conv_table2 idx) (\<lambda>b. Inr (push_bit 8 (v AND 0xf) OR ucast b))"

text \<open>\<open>conv_type\<close>: 0 to upper case, 1 to lower case, 2 case folding.\<close>

definition lre_case_conv :: "u32 \<Rightarrow> u32 \<Rightarrow> u32 list res" where
  "lre_case_conv c conv_type =
     (if c < 128 then
        (if conv_type \<noteq> 0
         then Inr [if c \<ge> 0x41 \<and> c \<le> 0x5a then c - 0x41 + 0x61 else c]
         else Inr [if c \<ge> 0x61 \<and> c \<le> 0x7a then c - 0x61 + 0x41 else c])
      else
        bnd (bsearch (case_probe c) 0 (int (length case_conv_table1) - 1)) (\<lambda>r. case r of
          None \<Rightarrow> Inr [c]
        | Some idx \<Rightarrow>
            bnd (rd case_conv_table1 idx) (\<lambda>v. bnd (case_data idx v) (\<lambda>data.
              case_conv_run c conv_type v data))))"

definition lre_is_cased :: "u32 \<Rightarrow> bool res" where
  "lre_is_cased c =
     bnd (bsearch (case_probe c) 0 (int (length case_conv_table1) - 1)) (\<lambda>r. case r of
       Some _ \<Rightarrow> Inr True
     | None \<Rightarrow> lre_is_in_table c unicode_prop_Cased1_table unicode_prop_Cased1_index
                 (length unicode_prop_Cased1_index div 3))"

section \<open>The rows are in order and their data in range\<close>

text \<open>The fields of a row read as integers.\<close>

definition int_code :: "int \<Rightarrow> int" where "int_code x = x div 32768"
definition int_len :: "int \<Rightarrow> int" where "int_len x = x div 256 mod 128"
definition int_type :: "int \<Rightarrow> int" where "int_type x = x div 16 mod 16"

lemma and_mask_mod:
  "(v :: u32) AND 0x7f = v mod 128" "v AND 0xf = v mod 16" "v AND 0x3f = v mod 64" "v AND 1 = v mod 2"
  using take_bit_eq_mask [of 7 v] take_bit_eq_mask [of 4 v] take_bit_eq_mask [of 6 v]
    take_bit_eq_mask [of 1 v]
  by (simp_all add: mask_eq_exp_minus_1 take_bit_eq_mod)

lemma uint_fields:
  "uint (run_code v) = int_code (uint v)"
  "uint (run_len v) = int_len (uint v)"
  "uint (run_type v) = int_type (uint v)"
  by (simp_all add: run_code_def run_len_def run_type_def int_code_def int_len_def int_type_def
      and_mask_mod drop_bit_eq_div uint_div uint_mod)

lemma int_code_bounds: "0 \<le> int_code (uint (v :: u32))" "int_code (uint v) < 131072"
  using uint_lt2p [of v] by (auto simp: int_code_def pos_imp_zdiv_nonneg_iff)

lemma int_len_bounds: "0 \<le> int_len x" "int_len x < 128"
  by (simp_all add: int_len_def)

lemma uint_run_end: "uint (run_code v + run_len v) = int_code (uint v) + int_len (uint v)"
  using int_code_bounds [of v] int_len_bounds [of "uint v"]
  by (subst uint_add_exact) (simp_all add: uint_fields)

definition rows_apart :: "int \<Rightarrow> int \<Rightarrow> bool" where
  "rows_apart x y \<longleftrightarrow> int_code x + int_len x \<le> int_code y"

lemma transp_rows_apart: "transp rows_apart"
proof (rule transpI)
  fix x y z
  assume "rows_apart x y" "rows_apart y z"
  then show "rows_apart x z"
    using int_len_bounds(1) [of y] unfolding rows_apart_def by linarith
qed

lemma case_rows_apart: "successively rows_apart (map uint case_conv_table1)"
  by code_simp

definition row_in_range :: "int \<Rightarrow> int \<Rightarrow> bool" where
  "row_in_range x y =
     (let t = int_type x; d = (x mod 16) * 256 + y in
      if t < 4 then d < 361
      else if t = 6 \<or> t = 11 \<or> t = 12 then d div 64 < 58 \<and> d mod 64 < 58
      else if t = 8 \<or> t = 9 \<or> t = 10 then d < 58
      else True)"

lemma case_rows_in_range: "list_all2 row_in_range (map uint case_conv_table1) (map uint case_conv_table2)"
  by code_simp

lemma table_lengths:
  "length case_conv_table1 = 361" "length case_conv_table2 = 361" "length case_conv_ext = 58"
  by (simp_all add: case_conv_table1_def case_conv_table2_def case_conv_ext_def)

lemma rows_apart_nth:
  assumes "i < j" and "j < 361"
  shows "rows_apart (uint (case_conv_table1 ! i)) (uint (case_conv_table1 ! j))"
proof -
  have "sorted_wrt rows_apart (map uint case_conv_table1)"
    using case_rows_apart transp_rows_apart by (simp add: successively_conv_sorted_wrt)
  from sorted_wrt_nth_less [OF this assms(1)] assms show ?thesis by (simp add: table_lengths)
qed

lemma case_probe_iff:
  assumes "i < 361"
  shows "case_probe c i = Inr Before \<longleftrightarrow> uint c < int_code (uint (case_conv_table1 ! i))"
    and "case_probe c i = Inr Inside \<longleftrightarrow> int_code (uint (case_conv_table1 ! i)) \<le> uint c \<and>
      uint c < int_code (uint (case_conv_table1 ! i)) + int_len (uint (case_conv_table1 ! i))"
  using assms int_len_bounds
  by (auto simp: case_probe_def table_lengths word_less_def word_le_def uint_fields uint_run_end)

interpretation case_rows: ordered_probe "case_probe c" 361 for c
proof
  fix i j :: nat
  show "i < 361 \<Longrightarrow> \<exists>s. case_probe c i = Inr s"
    by (simp add: case_probe_def table_lengths)
  assume "i < j" "j < 361"
  note ap = rows_apart_nth [OF this, unfolded rows_apart_def]
  have ij: "i < 361" "j < 361" using \<open>i < j\<close> \<open>j < 361\<close> by auto
  show "case_probe c i = Inr Before \<Longrightarrow> case_probe c j = Inr Before"
    using ap int_len_bounds(1) [of "uint (case_conv_table1 ! i)"]
    unfolding case_probe_iff(1) [OF ij(1)] case_probe_iff(1) [OF ij(2)] by linarith
  show "case_probe c i = Inr Inside \<Longrightarrow> case_probe c j = Inr Before"
    using ap unfolding case_probe_iff(2) [OF ij(1)] case_probe_iff(1) [OF ij(2)] by linarith
qed

section \<open>Conversion stays inside the tables\<close>

lemma unat_less_int: "unat w < k \<longleftrightarrow> uint w < int k"
  by (metis of_nat_less_iff uint_nat)

lemma ext_Inr: "uint i < 58 \<Longrightarrow> \<exists>x. ext i = Inr x"
  by (simp add: ext_def table_lengths rd_def unat_less_int)

lemma case_data_Inr:
  assumes "i < 361"
  shows "\<exists>d. case_data i (case_conv_table1 ! i) = Inr d \<and> uint d < 4096 \<and>
    uint d = (uint (case_conv_table1 ! i) mod 16) * 256 + uint (case_conv_table2 ! i)"
proof -
  let ?v = "case_conv_table1 ! i" and ?b = "case_conv_table2 ! i"
  have "uint (?v AND 0xf) = uint ?v mod 16" by (simp add: and_mask_mod uint_mod)
  then have "uint (push_bit 8 (?v AND 0xf) OR ucast ?b) = (uint ?v mod 16) * 256 + uint ?b"
    using uint_push8_or [of "?v AND 0xf" ?b] pos_mod_bound [of 16 "uint ?v"] by simp
  moreover have "(uint ?v mod 16) * 256 + uint ?b < 4096"
    using uint_lt2p [of ?b] pos_mod_bound [of 16 "uint ?v"] by simp
  ultimately show ?thesis using assms by (simp add: case_data_def table_lengths)
qed

lemma row_in_range_nth:
  "i < 361 \<Longrightarrow> row_in_range (uint (case_conv_table1 ! i)) (uint (case_conv_table2 ! i))"
  using list_all2_nthD [OF case_rows_in_range, of i] by (simp add: table_lengths)

text \<open>\<open>LRE_CC_RES_LEN_MAX\<close>: the size of the array the callers pass.\<close>

definition LRE_CC_RES_LEN_MAX :: nat where
  "LRE_CC_RES_LEN_MAX = 3"

definition cc_result :: "u32 list res \<Rightarrow> bool" where
  "cc_result r \<longleftrightarrow> (\<exists>cs. r = Inr cs \<and> cs \<noteq> [] \<and> length cs \<le> LRE_CC_RES_LEN_MAX)"

lemma cc_result_Inr [simp]: "cc_result (Inr cs) \<longleftrightarrow> cs \<noteq> [] \<and> length cs \<le> LRE_CC_RES_LEN_MAX"
  by (simp add: cc_result_def)

lemma run_type_iff: "run_type v = numeral k \<longleftrightarrow> int_type (uint v) = uint (numeral k :: u32)"
  by (simp add: word_uint_eq_iff uint_fields del: unsigned_numeral)

lemma case_conv_run_result:
  assumes "i < 361" and d: "case_data i (case_conv_table1 ! i) = Inr d"
  shows "cc_result (case_conv_run c conv_type (case_conv_table1 ! i) d)"
proof -
  let ?v = "case_conv_table1 ! i"
  let ?t = "int_type (uint ?v)"
  have u: "uint d = (uint ?v mod 16) * 256 + uint (case_conv_table2 ! i)" and lt: "uint d < 4096"
    using case_data_Inr [OF assms(1)] d by auto
  have r: "row_in_range (uint ?v) (uint (case_conv_table2 ! i))"
    by (rule row_in_range_nth [OF assms(1)])
  have dd: "uint (drop_bit 6 d) = uint d div 64" "uint (d AND 0x3f) = uint d mod 64"
    "uint (drop_bit 8 d) = uint d div 256" "uint (d AND 0xf) = uint d mod 16"
    "uint (drop_bit 4 d AND 0xf) = uint d div 16 mod 16"
    by (simp_all add: drop_bit_eq_div and_mask_mod uint_div uint_mod)
  have small: "uint d div 256 < 58" "uint d mod 16 < 58" "uint d div 16 mod 16 < 58"
    using lt pos_mod_bound [of 16 "uint d"] pos_mod_bound [of 16 "uint d div 16"] by auto
  have e13: "\<exists>x. ext (drop_bit 8 d) = Inr x" "\<exists>x. ext (d AND 0xf) = Inr x"
    "\<exists>x. ext (drop_bit 4 d AND 0xf) = Inr x"
    using small by (simp_all add: ext_Inr dd)
  have a: "?t < 4 \<Longrightarrow> unat d < 361"
    using r u by (simp add: row_in_range_def Let_def unat_less_int)
  have b: "?t = 6 \<or> ?t = 11 \<or> ?t = 12 \<Longrightarrow> (\<exists>x. ext (drop_bit 6 d) = Inr x) \<and> (\<exists>x. ext (d AND 0x3f) = Inr x)"
    using r u by (auto simp: row_in_range_def Let_def dd intro!: ext_Inr)
  have e: "?t = 8 \<or> ?t = 9 \<or> ?t = 10 \<Longrightarrow> \<exists>x. ext d = Inr x"
    using r u by (auto simp: row_in_range_def Let_def intro!: ext_Inr)
  have eq: "run_type ?v = w" if "?t = uint w" for w
    using that by (simp add: word_uint_eq_iff uint_fields)
  note defs = case_conv_run_def Let_def run_types LRE_CC_RES_LEN_MAX_def table_lengths
  consider "?t < 4" | "?t = 4" | "?t = 5" | "?t = 6" | "?t = 7" | "?t = 8" | "?t = 9" | "?t = 10"
    | "?t = 11" | "?t = 12" | "12 < ?t" by linarith
  then show ?thesis
  proof cases
    case 1
    then have "run_type ?v < 4" by (simp add: word_less_def uint_fields)
    then show ?thesis using a [OF 1] by (simp add: defs)
  next
    case 2
    with eq [of 4] show ?thesis by (simp add: defs)
  next
    case 3
    with eq [of 5] show ?thesis by (simp add: defs)
  next
    case 4
    with eq [of 6] b show ?thesis by (auto simp: defs)
  next
    case 5
    with eq [of 7] show ?thesis by (simp add: defs)
  next
    case 6
    with eq [of 8] e show ?thesis by (auto simp: defs)
  next
    case 7
    with eq [of 9] e show ?thesis by (auto simp: defs)
  next
    case 8
    with eq [of 10] e show ?thesis by (auto simp: defs)
  next
    case 9
    with eq [of 11] b show ?thesis by (auto simp: defs)
  next
    case 10
    with eq [of 12] b show ?thesis by (auto simp: defs)
  next
    case 11
    then have "\<not> run_type ?v < 4" by (simp add: word_less_def uint_fields)
    have g: "12 < run_type ?v" using 11 by (simp add: word_less_def uint_fields)
    have ne: "run_type ?v \<noteq> 4" "run_type ?v \<noteq> 5" "run_type ?v \<noteq> 6" "run_type ?v \<noteq> 7"
      "run_type ?v \<noteq> 8" "run_type ?v \<noteq> 9" "run_type ?v \<noteq> 10" "run_type ?v \<noteq> 11" "run_type ?v \<noteq> 12"
      using g by auto
    obtain x y z where "ext (drop_bit 8 d) = Inr x" "ext (drop_bit 4 d AND 0xf) = Inr y"
      "ext (d AND 0xf) = Inr z" using e13 by blast
    then show ?thesis
      using \<open>\<not> run_type ?v < 4\<close> by (simp add: case_conv_run_def Let_def run_types ne LRE_CC_RES_LEN_MAX_def)
  qed
qed

text \<open>The conversion ends with a result of one to three codes for every character.\<close>

lemma case_search:
  "bsearch (case_probe c) 0 360 = Inr None \<or>
   (\<exists>i < 361. bsearch (case_probe c) 0 360 = Inr (Some i) \<and> case_probe c i = Inr Inside)"
  using case_rows.bsearch_spec [of c] by auto

lemma lre_case_conv_result: "cc_result (lre_case_conv c conv_type)"
proof (cases "c < 128")
  case True
  then show ?thesis by (simp add: lre_case_conv_def LRE_CC_RES_LEN_MAX_def)
next
  case False
  show ?thesis
    using case_search [of c]
  proof (elim disjE exE conjE)
    assume "bsearch (case_probe c) 0 360 = Inr None"
    then show ?thesis using False by (simp add: lre_case_conv_def LRE_CC_RES_LEN_MAX_def table_lengths)
  next
    fix i assume i: "i < 361" "bsearch (case_probe c) 0 360 = Inr (Some i)"
    obtain d where "case_data i (case_conv_table1 ! i) = Inr d" using case_data_Inr [OF i(1)] by blast
    with case_conv_run_result [OF i(1) this] show ?thesis
      using False i by (simp add: lre_case_conv_def table_lengths)
  qed
qed

section \<open>Cased characters\<close>

lemma lre_is_cased_run: "i < 361 \<Longrightarrow> case_probe c i = Inr Inside \<Longrightarrow> lre_is_cased c = Inr True"
  using case_rows.bsearch_spec [of c] by (auto simp: lre_is_cased_def table_lengths)

lemma ascii_letter_cased:
  assumes "0x41 \<le> c \<and> c \<le> 0x5a \<or> 0x61 \<le> c \<and> c \<le> 0x7a"
  shows "lre_is_cased c = Inr True"
proof -
  have r: "run_code (case_conv_table1 ! 0) = 0x41" "run_len (case_conv_table1 ! 0) = 0x1a"
    "run_code (case_conv_table1 ! 1) = 0x61" "run_len (case_conv_table1 ! 1) = 0x1a"
    by (simp_all add: case_conv_table1_def run_code_def run_len_def)
  show ?thesis
  proof (cases "0x41 \<le> c \<and> c \<le> 0x5a")
    case True
    then have "case_probe c 0 = Inr Inside"
      by (auto simp: case_probe_def r table_lengths not_less not_le word_le_def word_less_def)
    then show ?thesis by (intro lre_is_cased_run) simp_all
  next
    case False
    then have "case_probe c 1 = Inr Inside"
      using assms by (auto simp: case_probe_def r [unfolded One_nat_def] table_lengths not_less not_le word_le_def word_less_def)
    then show ?thesis by (intro lre_is_cased_run) simp_all
  qed
qed

section \<open>Properties\<close>

text \<open>C22. Case conversion on the tables of the source is total: for every 32 bit value and every
kind of conversion, no table is read outside its bounds and the result has one to three codes,
which is what the array \<open>res[LRE_CC_RES_LEN_MAX]\<close> of the callers holds.\<close>

theorem case_conversion_total:
  "\<exists>cs. lre_case_conv c conv_type = Inr cs \<and> 1 \<le> length cs \<and> length cs \<le> LRE_CC_RES_LEN_MAX"
  using lre_case_conv_result [of c conv_type] by (auto simp: cc_result_def Suc_le_eq)

text \<open>C23. Conversion and classification agree: a character that upper casing, lower casing or
case folding changes is one that \<open>lre_is_cased\<close> reports as cased.\<close>

theorem case_conversion_changes_cased:
  assumes "lre_case_conv c conv_type = Inr cs" and "cs \<noteq> [c]"
  shows "lre_is_cased c = Inr True"
proof (cases "c < 128")
  case True
  then show ?thesis
    using assms by (intro ascii_letter_cased) (auto simp: lre_case_conv_def split: if_splits)
next
  case False
  then show ?thesis
    using case_search [of c] assms
    by (auto simp: lre_case_conv_def table_lengths intro: lre_is_cased_run)
qed

lemma case_conversion_changes_cased_witness:
  "lre_case_conv 0x61 0 = Inr [0x41] \<and> lre_is_cased 0x61 = Inr True"
proof -
  have "lre_case_conv 0x61 0 = Inr [0x41]" by (simp add: lre_case_conv_def)
  moreover from this have "lre_is_cased 0x61 = Inr True"
    by (rule case_conversion_changes_cased) simp
  ultimately show ?thesis by simp
qed

end
