(* ===== verification/UniNorm.thy ===== *)
theory UniNorm
  imports UniCase DynBuf
begin

text \<open>
  Unicode normalisation, \<open>unicode_normalize\<close> of \<open>libunicode.c\<close>: combining classes, canonical
  ordering (\<open>sort_cc\<close>), decomposition, composition. The generated tables it reads are the
  fields of the record \<open>norm_tables\<close>, an argument of every function: the theorems hold for
  all tables with the stated properties.
\<close>

record norm_tables =
  unicode_cc_table :: bytes
  unicode_cc_index :: bytes
  unicode_decomp_table1 :: "u32 list"
  unicode_decomp_table2 :: "u16 list"
  unicode_decomp_data :: bytes
  unicode_comp_table :: "u16 list"

section \<open>Combining classes\<close>

text \<open>One entry of the table: its type, its length less one, the position after it.\<close>

definition cc_entry :: "bytes \<Rightarrow> nat \<Rightarrow> (u32 \<times> u32 \<times> nat) res" where
  "cc_entry tab p =
     bnd (rd tab p) (\<lambda>b. let type = drop_bit 6 (ucast b) :: u32; n = ucast b AND 0x3f :: u32 in
       bnd (if n < 48 then Inr (n, p + 1)
            else if n < 56 then
              bnd (rd tab (p + 1)) (\<lambda>b1. Inr ((push_bit 8 (n - 48) OR ucast b1) + 48, p + 2))
            else
              bnd (rd tab (p + 1)) (\<lambda>b1. bnd (rd tab (p + 2)) (\<lambda>b2.
                Inr ((push_bit 8 (n - 56) OR push_bit 8 (ucast b1) OR ucast b2) + (48 + 2048), p + 3))))
         (\<lambda>(n, p). Inr (type, n, if type \<le> 1 then p + 1 else p)))"

lemma cc_entry_advances: "cc_entry tab p = Inr (t, n, p') \<Longrightarrow> p < p' \<and> p < length tab"
  by (auto simp: cc_entry_def bnd_eq_Inr rd_eq_Inr Let_def split: if_splits)

function cc_scan :: "u32 \<Rightarrow> bytes \<Rightarrow> nat \<Rightarrow> u32 \<Rightarrow> u32 res" where
  "cc_scan c tab p code =
     bnd (cc_entry tab p) (\<lambda>(type, n, p').
       let c1 = code + n + 1 in
       if c < c1 then
         (if type = 0 then bnd (rd tab (p' - 1)) (\<lambda>x. Inr (ucast x))
          else if type = 1 then bnd (rd tab (p' - 1)) (\<lambda>x. Inr (ucast x + c - code))
          else if type = 2 then Inr 0
          else Inr 230)
       else cc_scan c tab p' c1)"
  by pat_completeness auto
termination
  by (relation "measure (\<lambda>(c, tab, p, code). length tab - p)") (auto dest!: cc_entry_advances)

declare cc_scan.simps [simp del]

definition unicode_get_cc :: "norm_tables \<Rightarrow> u32 \<Rightarrow> int res" where
  "unicode_get_cc T c =
     bnd (get_index_pos c (unicode_cc_index T) (length (unicode_cc_index T) div 3)) (\<lambda>r. case r of
       None \<Rightarrow> Inr 0
     | Some (code, pos) \<Rightarrow>
         bnd (cc_scan c (unicode_cc_table T) pos code) (\<lambda>cc. Inr (sint cc)))"

section \<open>Canonical ordering\<close>

text \<open>
  The insertion step moves the characters of a higher class one place up, from the hole at
  \<open>m\<close> down to \<open>start\<close>, and returns the place of the hole.
\<close>

fun cc_sift ::
  "norm_tables \<Rightarrow> u32 list \<Rightarrow> nat \<Rightarrow> nat \<Rightarrow> int \<Rightarrow> (u32 list \<times> nat) res" where
  "cc_sift T xs start 0 cc1 = Inr (xs, 0)"
| "cc_sift T xs start (Suc k) cc1 =
     (if k \<ge> start then
        bnd (rd xs k) (\<lambda>x. bnd (unicode_get_cc T x) (\<lambda>cc.
          if cc \<le> cc1 then Inr (xs, Suc k)
          else bnd (wr xs (Suc k) x) (\<lambda>xs. cc_sift T xs start k cc1)))
      else Inr (xs, Suc k))"

text \<open>The run of non-starters that begins at \<open>start\<close>; the result is sorted up to \<open>j\<close>.\<close>

function cc_run ::
  "norm_tables \<Rightarrow> u32 list \<Rightarrow> nat \<Rightarrow> nat \<Rightarrow> nat \<Rightarrow> (u32 list \<times> nat) res" where
  "cc_run T xs len start j =
     (if j < len then
        bnd (rd xs j) (\<lambda>ch1. bnd (unicode_get_cc T ch1) (\<lambda>cc1.
          if cc1 = 0 then Inr (xs, j)
          else bnd (cc_sift T xs start j cc1) (\<lambda>(xs, k).
               bnd (wr xs k ch1) (\<lambda>xs. cc_run T xs len start (j + 1)))))
      else Inr (xs, j))"
  by pat_completeness auto
termination
  by (relation "measure (\<lambda>(T, xs, len, start, j). len - j)") auto

declare cc_run.simps [simp del]

lemma cc_run_ge: "cc_run T xs len start j = Inr (ys, j') \<Longrightarrow> j \<le> j'"
proof (induction T xs len start j rule: cc_run.induct)
  case (1 T xs len start j)
  then show ?case
    by (subst (asm) cc_run.simps) (fastforce simp: bnd_eq_Inr split: if_splits prod.splits)
qed

function sort_cc_from :: "norm_tables \<Rightarrow> u32 list \<Rightarrow> nat \<Rightarrow> nat \<Rightarrow> u32 list res" where
  "sort_cc_from T xs len i =
     (if i < len then
        bnd (rd xs i) (\<lambda>x. bnd (unicode_get_cc T x) (\<lambda>cc.
          if cc \<noteq> 0
          then bnd (cc_run T xs len i (i + 1)) (\<lambda>(xs, j). sort_cc_from T xs len (j + 1))
          else sort_cc_from T xs len (i + 1)))
      else Inr xs)"
  by pat_completeness auto
termination
  by (relation "measure (\<lambda>(T, xs, len, i). len - i)") (auto dest: cc_run_ge)

declare sort_cc_from.simps [simp del]

definition sort_cc :: "norm_tables \<Rightarrow> u32 list \<Rightarrow> nat \<Rightarrow> u32 list res" where
  "sort_cc T xs len = sort_cc_from T xs len 0"

subsection \<open>The canonical ordering algorithm\<close>

text \<open>
  The specification: every maximal run of characters of non-zero class is sorted by class,
  and characters of equal class keep their order.
\<close>

function canonical_order :: "(u32 \<Rightarrow> int) \<Rightarrow> u32 list \<Rightarrow> u32 list" where
  "canonical_order cc [] = []"
| "canonical_order cc (x # xs) =
     (if cc x = 0 then x # canonical_order cc xs
      else sort_key cc (x # takeWhile (\<lambda>y. cc y \<noteq> 0) xs) @
           canonical_order cc (dropWhile (\<lambda>y. cc y \<noteq> 0) xs))"
  by pat_completeness auto
termination
  by (relation "measure (\<lambda>(cc, xs). length xs)") (auto simp: less_Suc_eq_le length_dropWhile_le)

lemma sort_key_snoc:
  assumes s: "sort_key cc run = A @ B" and a: "A = [] \<or> cc (last A) \<le> cc y" and b: "\<forall>z \<in> set B. cc y < cc z"
  shows "sort_key cc (run @ [y]) = A @ y # B"
proof (rule properties_for_sort_key)
  have "mset run = mset (A @ B)" using s by (metis mset_sort)
  then show "mset (A @ y # B) = mset (run @ [y])" by simp
  have so: "sorted (map cc (A @ B))" using s by (metis sorted_sort_key)
  have "\<forall>z \<in> set A. cc z \<le> cc y"
  proof (cases A rule: rev_cases)
    case (snoc A' x)
    then have "\<forall>z \<in> set A'. cc z \<le> cc x" "cc x \<le> cc y"
      using so a by (auto simp: sorted_append)
    then show ?thesis using snoc by auto
  qed simp
  then show "sorted (map cc (A @ y # B))"
    using so b by (auto simp: sorted_append less_imp_le)
  fix k assume "k \<in> set (A @ y # B)"
  have st: "filter (\<lambda>x. cc k = cc x) run = filter (\<lambda>x. cc k = cc x) (A @ B)"
    using sort_key_stable [of cc "cc k" run] s by (simp add: eq_commute [of "cc k"])
  show "filter (\<lambda>x. cc k = cc x) (A @ y # B) = filter (\<lambda>x. cc k = cc x) (run @ [y])"
  proof (cases "cc k = cc y")
    case True
    then have "filter (\<lambda>x. cc k = cc x) B = []" using b by (auto simp: filter_empty_conv)
    with True st show ?thesis by simp
  next
    case False
    then show ?thesis using st by simp
  qed
qed

lemma cc_sift_spec:
  assumes "\<forall>x \<in> set seg. unicode_get_cc T x = Inr (cc x)"
  shows "\<exists>ys k A B. cc_sift T (p @ seg @ h # rest) (length p) (length p + length seg) c1 = Inr (ys, k) \<and>
    seg = A @ B \<and> (A = [] \<or> cc (last A) \<le> c1) \<and> (\<forall>z \<in> set B. c1 < cc z) \<and>
    wr ys k y = Inr (p @ A @ y # B @ rest)"
  using assms
proof (induction seg arbitrary: h rest rule: rev_induct)
  case Nil
  have "cc_sift T (p @ [] @ h # rest) (length p) (length p + length []) c1 = Inr (p @ h # rest, length p)"
    by (cases "length p") auto
  then show ?case by (auto simp: wr_def)
next
  case (snoc x seg)
  let ?xs = "p @ (seg @ [x]) @ h # rest"
  have x: "?xs ! (length p + length seg) = x" by (simp add: nth_append)
  show ?case
  proof (cases "cc x \<le> c1")
    case True
    then have "cc_sift T ?xs (length p) (length p + length (seg @ [x])) c1 =
      Inr (?xs, length p + length (seg @ [x]))"
      using x snoc.prems by simp
    moreover have "wr ?xs (length p + length (seg @ [x])) y = Inr (p @ (seg @ [x]) @ y # [] @ rest)"
      by (simp add: wr_def list_update_append)
    ultimately show ?thesis using True by (metis append.right_neutral empty_iff last_snoc list.set(1))
  next
    case False
    have "?xs[Suc (length p + length seg) := x] = p @ seg @ x # x # rest"
      by (simp add: list_update_append)
    then have "cc_sift T ?xs (length p) (length p + length (seg @ [x])) c1 =
      cc_sift T (p @ seg @ x # x # rest) (length p) (length p + length seg) c1"
      using False x snoc.prems by simp
    moreover have "\<forall>x \<in> set seg. unicode_get_cc T x = Inr (cc x)" using snoc.prems by simp
    from snoc.IH [OF this, of x "x # rest"] obtain ys k A B where
      "cc_sift T (p @ seg @ x # x # rest) (length p) (length p + length seg) c1 = Inr (ys, k)"
      "seg = A @ B" "A = [] \<or> cc (last A) \<le> c1" "\<forall>z \<in> set B. c1 < cc z"
      "wr ys k y = Inr (p @ A @ y # B @ x # rest)"
      by blast
    ultimately show ?thesis using False
      by (intro exI [of _ ys] exI [of _ k] exI [of _ A] exI [of _ "B @ [x]"]) auto
  qed
qed

lemma cc_run_spec:
  assumes "\<forall>x \<in> set run \<union> set rest. unicode_get_cc T x = Inr (cc x)"
  shows "cc_run T (p @ sort_key cc run @ rest) (length p + length run + length rest) (length p)
      (length p + length run) =
    Inr (p @ sort_key cc (run @ takeWhile (\<lambda>y. cc y \<noteq> 0) rest) @ dropWhile (\<lambda>y. cc y \<noteq> 0) rest,
         length p + length run + length (takeWhile (\<lambda>y. cc y \<noteq> 0) rest))"
  using assms
proof (induction rest arbitrary: run)
  case Nil
  then show ?case by (simp add: cc_run.simps)
next
  case (Cons y rest)
  let ?xs = "p @ sort_key cc run @ y # rest"
  have y: "?xs ! (length p + length run) = y" by (simp add: nth_append)
  show ?case
  proof (cases "cc y = 0")
    case True
    then show ?thesis using y Cons.prems by (simp add: cc_run.simps [of T ?xs])
  next
    case False
    have "\<forall>x \<in> set (sort_key cc run). unicode_get_cc T x = Inr (cc x)" using Cons.prems by simp
    from cc_sift_spec [OF this, of p y rest "cc y" y, unfolded length_sort]
    obtain ys k A B where s: "cc_sift T ?xs (length p) (length p + length run) (cc y) = Inr (ys, k)"
      "sort_key cc run = A @ B" "A = [] \<or> cc (last A) \<le> cc y" "\<forall>z \<in> set B. cc y < cc z"
      "wr ys k y = Inr (p @ A @ y # B @ rest)"
      by blast
    have e: "p @ A @ y # B @ rest = p @ sort_key cc (run @ [y]) @ rest"
      using sort_key_snoc [OF s(2-4)] by simp
    show ?thesis
      using False y s(1,5) Cons.prems Cons.IH [of "run @ [y]"]
      by (simp add: cc_run.simps [of T ?xs] e)
  qed
qed

lemma sort_cc_from_spec:
  assumes "\<forall>x \<in> set rest. unicode_get_cc T x = Inr (cc x)"
  shows "sort_cc_from T (p @ rest) (length p + length rest) (length p) = Inr (p @ canonical_order cc rest)"
  using assms
proof (induction cc rest arbitrary: p rule: canonical_order.induct)
  case (1 cc)
  then show ?case by (simp add: sort_cc_from.simps)
next
  case (2 cc x xs)
  show ?case
  proof (cases "cc x = 0")
    case True
    then show ?thesis
      using "2.IH"(1) [OF True, of "p @ [x]"] "2.prems" by (simp add: sort_cc_from.simps [of T "p @ x # xs"])
  next
    case False
    let ?run = "x # takeWhile (\<lambda>y. cc y \<noteq> 0) xs" and ?rest = "dropWhile (\<lambda>y. cc y \<noteq> 0) xs"
    let ?n = "length p + length (x # xs)"
    have len: "length ?run + length ?rest = length (x # xs)"
      by (metis append_Cons length_append takeWhile_dropWhile_id)
    have r: "cc_run T (p @ x # xs) ?n (length p) (length p + 1) =
        Inr (p @ sort_key cc ?run @ ?rest, length p + length ?run)"
      using cc_run_spec [of "[x]" xs T cc p] "2.prems" by simp
    have st: "sort_cc_from T (p @ x # xs) ?n (length p) =
      sort_cc_from T (p @ sort_key cc ?run @ ?rest) ?n (length p + length ?run + 1)"
      using False r "2.prems" by (simp add: sort_cc_from.simps [of T "p @ x # xs"])
    show ?thesis
    proof (cases ?rest)
      case Nil
      then have "length ?run = length (x # xs)" using len by (simp only: list.size(3) add_0_right)
      then have "\<not> length p + length ?run + 1 < ?n" by linarith
      then have "sort_cc_from T (p @ sort_key cc ?run @ ?rest) ?n (length p + length ?run + 1) =
        Inr (p @ sort_key cc ?run @ ?rest)"
        by (subst sort_cc_from.simps) (simp only: if_False)
      with st have e: "sort_cc_from T (p @ x # xs) ?n (length p) = Inr (p @ sort_key cc ?run @ ?rest)"
        by (simp only:)
      have "canonical_order cc (x # xs) = sort_key cc ?run @ ?rest"
        using False by (simp only: canonical_order.simps Nil if_False)
      then show ?thesis using e by (simp only:)
    next
      case (Cons z zs)
      then have z: "cc z = 0" using hd_dropWhile [of "\<lambda>y. cc y \<noteq> 0" xs] by simp
      then have cz: "canonical_order cc ?rest = z # canonical_order cc zs" by (simp add: Cons)
      let ?p = "p @ sort_key cc ?run"
      have "\<forall>x \<in> set ?rest. unicode_get_cc T x = Inr (cc x)"
        using "2.prems" by (auto dest: set_dropWhileD)
      from "2.IH"(2) [OF False this, of ?p]
      have "sort_cc_from T (?p @ z # zs) (length ?p + length (z # zs)) (length ?p) =
        Inr (?p @ z # canonical_order cc zs)" by (simp add: Cons z)
      moreover have "sort_cc_from T (?p @ z # zs) (length ?p + length (z # zs)) (length ?p) =
        sort_cc_from T (?p @ z # zs) (length ?p + length (z # zs)) (length ?p + 1)"
        using z "2.prems" Cons set_dropWhileD [of z "\<lambda>y. cc y \<noteq> 0" xs]
        by (subst sort_cc_from.simps) (simp add: nth_append)
      moreover have "Suc (length p + length xs) =
          Suc (Suc (length p + (length (takeWhile (\<lambda>y. cc y \<noteq> 0) xs) + length zs)))"
        using len Cons by simp
      ultimately show ?thesis
        using st False cz by (simp add: Cons add.assoc)
    qed
  qed
qed

lemma sort_cc_spec:
  "\<forall>x \<in> set xs. unicode_get_cc T x = Inr (cc x) \<Longrightarrow>
   sort_cc T xs (length xs) = Inr (canonical_order cc xs)"
  using sort_cc_from_spec [of xs T cc "[]"] by (simp add: sort_cc_def)

section \<open>Decomposition\<close>

definition UNICODE_DECOMP_LEN_MAX :: nat where
  "UNICODE_DECOMP_LEN_MAX = 18"

definition unicode_get_short_code :: "u32 \<Rightarrow> u32 res" where
  "unicode_get_short_code c =
     (if c < 0x80 then Inr c
      else if c < 0x80 + 0x50 then Inr (c - 0x80 + 0x300)
      else rd [0x2044, 0x2215] (unat (c - 0x80 - 0x50)))"

definition unicode_get_lower_simple :: "u32 \<Rightarrow> u32" where
  "unicode_get_lower_simple c =
     (if c < 0x100 \<or> 0x410 \<le> c \<and> c \<le> 0x42f then c + 0x20 else c + 1)"

definition unicode_get16 :: "bytes \<Rightarrow> nat \<Rightarrow> u32 res" where
  "unicode_get16 tab p =
     bnd (rd tab p) (\<lambda>b0. bnd (rd tab (p + 1)) (\<lambda>b1. Inr (ucast b0 OR push_bit 8 (ucast b1))))"

definition byte_at :: "bytes \<Rightarrow> nat \<Rightarrow> u32 res" where
  "byte_at tab p = bnd (rd tab p) (\<lambda>b. Inr (ucast b))"

text \<open>
  \<open>unicode_decomp_entry\<close> returns a count and fills \<open>res\<close>; the pair is the count and the
  prefix of \<open>res\<close> it has written. \<open>get_codes\<close> is the loop that reads \<open>l\<close> codes; with \<open>stop\<close>
  a zero ends it with count 0.
\<close>

fun get_codes :: "(nat \<Rightarrow> u32 res) \<Rightarrow> bool \<Rightarrow> nat \<Rightarrow> u32 list \<Rightarrow> nat \<Rightarrow> (nat \<times> u32 list) res" where
  "get_codes get stop i acc 0 = Inr (i, acc)"
| "get_codes get stop i acc (Suc k) =
     bnd (get i) (\<lambda>v.
       if stop \<and> v = 0 then Inr (0, acc @ [0]) else get_codes get stop (i + 1) (acc @ [v]) k)"

text \<open>An entry of the 18 bit tables: 16 bits at \<open>2 * k\<close>, the two others after them.\<close>

definition code18 :: "bytes \<Rightarrow> nat \<Rightarrow> u32 \<Rightarrow> u32 \<Rightarrow> u32 res" where
  "code18 data d p k =
     bnd (unicode_get16 data (d + unat (2 * k))) (\<lambda>lo. bnd (byte_at data (d + unat (p + k div 4))) (\<lambda>hi.
       Inr (lo OR push_bit 16 (drop_bit (unat (k mod 4 * 2)) hi AND 3))))"

text \<open>The types of the enumeration, by the number each has.\<close>

definition DECOMP_TYPE_C1 :: nat where "DECOMP_TYPE_C1 = 0"
definition DECOMP_TYPE_L1 :: nat where "DECOMP_TYPE_L1 = 1"
definition DECOMP_TYPE_L7 :: nat where "DECOMP_TYPE_L7 = 7"
definition DECOMP_TYPE_LL1 :: nat where "DECOMP_TYPE_LL1 = 8"
definition DECOMP_TYPE_LL2 :: nat where "DECOMP_TYPE_LL2 = 9"
definition DECOMP_TYPE_S1 :: nat where "DECOMP_TYPE_S1 = 10"
definition DECOMP_TYPE_S5 :: nat where "DECOMP_TYPE_S5 = 14"
definition DECOMP_TYPE_I1 :: nat where "DECOMP_TYPE_I1 = 15"
definition DECOMP_TYPE_I2_0 :: nat where "DECOMP_TYPE_I2_0 = 16"
definition DECOMP_TYPE_I4_2 :: nat where "DECOMP_TYPE_I4_2 = 21"
definition DECOMP_TYPE_B1 :: nat where "DECOMP_TYPE_B1 = 22"
definition DECOMP_TYPE_B8 :: nat where "DECOMP_TYPE_B8 = 29"
definition DECOMP_TYPE_B18 :: nat where "DECOMP_TYPE_B18 = 30"
definition DECOMP_TYPE_LS2 :: nat where "DECOMP_TYPE_LS2 = 31"
definition DECOMP_TYPE_PAT3 :: nat where "DECOMP_TYPE_PAT3 = 32"
definition DECOMP_TYPE_S2_UL :: nat where "DECOMP_TYPE_S2_UL = 33"
definition DECOMP_TYPE_LS2_UL :: nat where "DECOMP_TYPE_LS2_UL = 34"

lemmas decomp_types = DECOMP_TYPE_C1_def DECOMP_TYPE_L1_def DECOMP_TYPE_L7_def DECOMP_TYPE_LL1_def
  DECOMP_TYPE_LL2_def DECOMP_TYPE_S1_def DECOMP_TYPE_S5_def DECOMP_TYPE_I1_def DECOMP_TYPE_I2_0_def
  DECOMP_TYPE_I4_2_def DECOMP_TYPE_B1_def DECOMP_TYPE_B8_def DECOMP_TYPE_B18_def DECOMP_TYPE_LS2_def
  DECOMP_TYPE_PAT3_def DECOMP_TYPE_S2_UL_def DECOMP_TYPE_LS2_UL_def

text \<open>\<open>decomp_type_i\<close> and \<open>decomp_type_b\<close>: the code the two labels share.\<close>

definition decomp_type_i :: "bytes \<Rightarrow> nat \<Rightarrow> nat \<Rightarrow> nat \<Rightarrow> u32 \<Rightarrow> (nat \<times> u32 list) res" where
  "decomp_type_i data d l p off =
     get_codes (\<lambda>i. bnd (unicode_get16 data (d + 2 * i)) (\<lambda>c1.
       Inr (if i = p then c1 + off else c1))) False 0 [] l"

definition decomp_type_b :: "bytes \<Rightarrow> nat \<Rightarrow> nat \<Rightarrow> u32 \<Rightarrow> (nat \<times> u32 list) res" where
  "decomp_type_b data d l off =
     bnd (unicode_get16 data d) (\<lambda>c_min.
       get_codes (\<lambda>i. bnd (byte_at data (d + unat (2 + off * of_nat l) + i)) (\<lambda>c1.
         Inr (if c1 = 0xff then 0x20 else c1 + c_min))) False 0 [] l)"

definition unicode_decomp_entry ::
  "norm_tables \<Rightarrow> u32 \<Rightarrow> nat \<Rightarrow> u32 \<Rightarrow> u32 \<Rightarrow> nat \<Rightarrow> (nat \<times> u32 list) res" where
  "unicode_decomp_entry T c idx code len type =
     bnd (rd (unicode_decomp_table2 T) idx) (\<lambda>t2.
       if type = DECOMP_TYPE_C1 then Inr (1, [ucast t2])
       else let data = unicode_decomp_data T; d = unat t2; off = c - code in
         if DECOMP_TYPE_L1 \<le> type \<and> type \<le> DECOMP_TYPE_L7 then
           (let l = type - DECOMP_TYPE_L1 + 1; d = d + unat (off * of_nat l * 2) in
            get_codes (\<lambda>i. unicode_get16 data (d + 2 * i)) True 0 [] l)
         else if DECOMP_TYPE_LL1 \<le> type \<and> type \<le> DECOMP_TYPE_LL2 then
           (let l = type - DECOMP_TYPE_LL1 + 1; k = off * of_nat l; p = len * of_nat l * 2 in
            bnd (get_codes (\<lambda>i. code18 data d p (k + of_nat i)) True 0 [] l) (\<lambda>(n, res).
              Inr (n, if n = 0 then butlast res else res)))
         else if DECOMP_TYPE_S1 \<le> type \<and> type \<le> DECOMP_TYPE_S5 then
           (let l = type - DECOMP_TYPE_S1 + 1; d = d + unat (off * of_nat l) in
            get_codes (\<lambda>i. bnd (byte_at data (d + i)) unicode_get_short_code) True 0 [] l)
         else if type = DECOMP_TYPE_I1 then decomp_type_i data d 1 0 off
         else if DECOMP_TYPE_I2_0 \<le> type \<and> type \<le> DECOMP_TYPE_I4_2 then
           (let l = 2 + (type - DECOMP_TYPE_I2_0) div 2 in
            decomp_type_i data d l ((type - DECOMP_TYPE_I2_0) mod 2 + (if l > 2 then 1 else 0)) off)
         else if type = DECOMP_TYPE_B18 then decomp_type_b data d 18 off
         else if DECOMP_TYPE_B1 \<le> type \<and> type \<le> DECOMP_TYPE_B8 then
           decomp_type_b data d (type - DECOMP_TYPE_B1 + 1) off
         else if type = DECOMP_TYPE_LS2 then
           (let d = d + unat (off * 3) in
            bnd (unicode_get16 data d) (\<lambda>r0.
              if r0 = 0 then Inr (0, [0])
              else bnd (bnd (byte_at data (d + 2)) unicode_get_short_code) (\<lambda>r1. Inr (2, [r0, r1]))))
         else if type = DECOMP_TYPE_PAT3 then
           bnd (unicode_get16 data d) (\<lambda>r0. bnd (unicode_get16 data (d + 2)) (\<lambda>r2.
             bnd (unicode_get16 data (d + unat (4 + off * 2))) (\<lambda>r1. Inr (3, [r0, r1, r2]))))
         else if type = DECOMP_TYPE_S2_UL \<or> type = DECOMP_TYPE_LS2_UL then
           bnd (if type = DECOMP_TYPE_S2_UL
                then (let d = d + unat (off AND 0xfffffffe) in
                      bnd (bnd (byte_at data d) unicode_get_short_code) (\<lambda>c. Inr (c, d + 1)))
                else (let d = d + unat (drop_bit 1 off * 3) in
                      bnd (unicode_get16 data d) (\<lambda>c. Inr (c, d + 2)))) (\<lambda>(c, d).
             let c = (if off AND 1 \<noteq> 0 then unicode_get_lower_simple c else c) in
             bnd (bnd (byte_at data d) unicode_get_short_code) (\<lambda>r1. Inr (2, [c, r1])))
         else Inr (0, []))"

definition decomp_code :: "u32 \<Rightarrow> u32" where
  "decomp_code v = drop_bit (32 - 18) v"

definition decomp_len :: "u32 \<Rightarrow> u32" where
  "decomp_len v = drop_bit (32 - 18 - 7) v AND 0x7f"

definition decomp_type :: "u32 \<Rightarrow> nat" where
  "decomp_type v = unat (drop_bit (32 - 18 - 7 - 6) v AND 0x3f)"

definition decomp_probe :: "norm_tables \<Rightarrow> u32 \<Rightarrow> nat \<Rightarrow> side res" where
  "decomp_probe T c idx =
     bnd (rd (unicode_decomp_table1 T) idx) (\<lambda>v.
       Inr (if c < decomp_code v then Before
            else if c \<ge> decomp_code v + decomp_len v then After
            else Inside))"

definition unicode_decomp_char :: "norm_tables \<Rightarrow> u32 \<Rightarrow> bool \<Rightarrow> (nat \<times> u32 list) res" where
  "unicode_decomp_char T c is_compat1 =
     bnd (bsearch (decomp_probe T c) 0 (int (length (unicode_decomp_table1 T)) - 1)) (\<lambda>r. case r of
       None \<Rightarrow> Inr (0, [])
     | Some idx \<Rightarrow>
         bnd (rd (unicode_decomp_table1 T) idx) (\<lambda>v.
           if \<not> is_compat1 \<and> v AND 1 \<noteq> 0 then Inr (0, [])
           else unicode_decomp_entry T c idx (decomp_code v) (decomp_len v) (decomp_type v)))"

text \<open>
  The decomposition of each character is decomposed again; the recursion ends when the
  tables have no cycle. \<open>n\<close> bounds its depth.
\<close>

fun to_nfd_rec :: "norm_tables \<Rightarrow> nat \<Rightarrow> DynBuf \<Rightarrow> u32 list \<Rightarrow> bool \<Rightarrow> DynBuf res" where
  "to_nfd_rec T n dbuf [] is_compat = Inr dbuf"
| "to_nfd_rec T 0 dbuf (c # src) is_compat = Inl NoFuel"
| "to_nfd_rec T (Suc n) dbuf (c # src) is_compat =
     bnd (if 0xac00 \<le> c \<and> c < 0xd7a4 then
            (let c = c - 0xac00; v = c mod 28 in
             bnd (dbuf_put_u32 dbuf (0x1100 + c div 588)) (\<lambda>(_, dbuf).
             bnd (dbuf_put_u32 dbuf (0x1161 + c mod 588 div 28)) (\<lambda>(_, dbuf).
               if v \<noteq> 0 then bnd (dbuf_put_u32 dbuf (0x11a7 + v)) (\<lambda>(_, dbuf). Inr dbuf)
               else Inr dbuf)))
          else
            bnd (unicode_decomp_char T c is_compat) (\<lambda>(l, res).
              if l \<noteq> 0 then to_nfd_rec T n dbuf (take l res) is_compat
              else bnd (dbuf_put_u32 dbuf c) (\<lambda>(_, dbuf). Inr dbuf)))
       (\<lambda>dbuf. to_nfd_rec T (Suc n) dbuf src is_compat)"

section \<open>Composition\<close>

text \<open>The character an entry of the composition table stands for, with its decomposition.\<close>

definition comp_entry :: "norm_tables \<Rightarrow> nat \<Rightarrow> (u32 \<times> u32 list) res" where
  "comp_entry T idx =
     bnd (rd (unicode_comp_table T) idx) (\<lambda>idx1.
       let d_idx = unat (drop_bit 6 idx1); d_offset = ucast idx1 AND 0x3f in
       bnd (rd (unicode_decomp_table1 T) d_idx) (\<lambda>v.
         let ch = decomp_code v + d_offset in
         bnd (unicode_decomp_entry T ch d_idx (decomp_code v) (decomp_len v) (decomp_type v))
           (\<lambda>(_, pair). Inr (ch, pair))))"

definition comp_probe :: "norm_tables \<Rightarrow> u32 \<Rightarrow> u32 \<Rightarrow> nat \<Rightarrow> side res" where
  "comp_probe T c0 c1 idx =
     bnd (comp_entry T idx) (\<lambda>(_, pair).
       bnd (rd pair 0) (\<lambda>p0.
       bnd (if c0 - p0 = 0 then bnd (rd pair 1) (\<lambda>p1. Inr (sint (c1 - p1)))
            else Inr (sint (c0 - p0))) (\<lambda>d.
         Inr (if d < 0 then Before else if d > 0 then After else Inside))))"

definition unicode_compose_pair :: "norm_tables \<Rightarrow> u32 \<Rightarrow> u32 \<Rightarrow> u32 res" where
  "unicode_compose_pair T c0 c1 =
     bnd (bsearch (comp_probe T c0 c1) 0 (int (length (unicode_comp_table T)) - 1)) (\<lambda>r. case r of
       None \<Rightarrow> Inr 0
     | Some idx \<Rightarrow> bnd (comp_entry T idx) (\<lambda>(ch, _). Inr ch))"

definition compose_pair :: "norm_tables \<Rightarrow> u32 \<Rightarrow> u32 \<Rightarrow> u32 res" where
  "compose_pair T c0 c1 =
     (if 0x1100 \<le> c0 \<and> c0 < 0x1100 + 19 \<and> 0x1161 \<le> c1 \<and> c1 < 0x1161 + 21 then
        Inr (0xac00 + (c0 - 0x1100) * 588 + (c1 - 0x1161) * 28)
      else if 0xac00 \<le> c0 \<and> c0 < 0xac00 + 11172 \<and> (c0 - 0xac00) mod 28 = 0 \<and>
              0x11a7 \<le> c1 \<and> c1 < 0x11a7 + 28 then
        Inr (c0 + c1 - 0x11a7)
      else unicode_compose_pair T c0 c1)"

text \<open>
  The search for the starter of the character at \<open>i\<close>, from \<open>starter_pos = m - 1\<close> down:
  \<open>Some None\<close> when it is blocked (\<open>goto next\<close>), \<open>Some (Some p)\<close> for a starter at \<open>p\<close>, \<open>None\<close>
  when there is none.
\<close>

fun find_starter :: "norm_tables \<Rightarrow> u32 list \<Rightarrow> nat \<Rightarrow> int \<Rightarrow> nat option option res" where
  "find_starter T xs 0 last_cc = Inr None"
| "find_starter T xs (Suc p) last_cc =
     bnd (rd xs p) (\<lambda>x. bnd (unicode_get_cc T x) (\<lambda>cc.
       if cc = 0 then Inr (Some (Some p))
       else if cc \<ge> last_cc then Inr (Some None)
       else find_starter T xs p 256))"

function compose_loop :: "norm_tables \<Rightarrow> u32 list \<Rightarrow> nat \<Rightarrow> nat \<Rightarrow> nat \<Rightarrow> (u32 list \<times> nat) res" where
  "compose_loop T xs buf_len i out_len =
     (if i < buf_len then
        bnd (rd xs i) (\<lambda>x. bnd (unicode_get_cc T x) (\<lambda>last_cc.
        bnd (find_starter T xs out_len last_cc) (\<lambda>st.
        bnd (case st of
               Some (Some sp) \<Rightarrow> bnd (rd xs sp) (\<lambda>s. bnd (compose_pair T s x) (\<lambda>p. Inr (p, sp)))
             | _ \<Rightarrow> Inr (0, 0)) (\<lambda>(p, sp).
          if p \<noteq> 0 then bnd (wr xs sp p) (\<lambda>xs. compose_loop T xs buf_len (i + 1) out_len)
          else bnd (wr xs out_len x) (\<lambda>xs. compose_loop T xs buf_len (i + 1) (out_len + 1))))))
      else Inr (xs, out_len))"
  by pat_completeness auto
termination
  by (relation "measure (\<lambda>(T, xs, n, i, out). n - i)") auto

declare compose_loop.simps [simp del]

datatype UnicodeNormalizationEnum = UNICODE_NFC | UNICODE_NFD | UNICODE_NFKC | UNICODE_NFKD

text \<open>The buffer read as an array of 32 bit integers.\<close>

fun of_le32s :: "bytes \<Rightarrow> u32 list" where
  "of_le32s (a # b # c # d # bs) = of_le32 a b c d # of_le32s bs"
| "of_le32s _ = []"

text \<open>
  The result is the array \<open>*pdst[0..n-1]\<close> of the \<open>n\<close> codes returned, or \<open>None\<close> for -1.
\<close>

definition unicode_normalize ::
  "norm_tables \<Rightarrow> nat \<Rightarrow> u32 list \<Rightarrow> UnicodeNormalizationEnum \<Rightarrow> u8 realloc_func \<Rightarrow> u32 list option res" where
  "unicode_normalize T n src n_type ra =
     (let is_compat = (n_type = UNICODE_NFKC \<or> n_type = UNICODE_NFKD);
          (r, dbuf) = dbuf_realloc (dbuf_init2 ra) (4 * length src) in
      if r \<noteq> 0 then Inr None
      else if n_type = UNICODE_NFC \<and> (\<forall>c \<in> set src. c < 0x100) then
        bnd (memcpy (buf dbuf) 0 (concat (map le32 src))) (\<lambda>b.
          Inr (Some (of_le32s (take (4 * length src) b))))
      else
        bnd (to_nfd_rec T n dbuf src is_compat) (\<lambda>dbuf.
          if error dbuf then Inr None
          else (let buf_len = dsize dbuf div 4; xs = of_le32s (take (dsize dbuf) (buf dbuf)) in
            bnd (sort_cc T xs buf_len) (\<lambda>xs.
              if buf_len \<le> 1 \<or> n_type = UNICODE_NFD \<or> n_type = UNICODE_NFKD then Inr (Some xs)
              else bnd (compose_loop T xs buf_len 1 1) (\<lambda>(xs, out_len).
                Inr (Some (take out_len xs)))))))"

section \<open>Hangul syllables\<close>

text \<open>The parts of a syllable: leading consonant, vowel, and trailing consonant if any.\<close>

definition hangul_parts :: "u32 \<Rightarrow> u32 list" where
  "hangul_parts c =
     (let s = c - 0xac00 in
      [0x1100 + s div 588, 0x1161 + s mod 588 div 28] @ (if s mod 28 = 0 then [] else [0x11a7 + s mod 28]))"

fun compose_all :: "norm_tables \<Rightarrow> u32 \<Rightarrow> u32 list \<Rightarrow> u32 res" where
  "compose_all T c [] = Inr c"
| "compose_all T c (x # xs) = bnd (compose_pair T c x) (\<lambda>p. compose_all T p xs)"

lemma uint_mult_exact: "uint (a :: u32) * uint b < 2 ^ 32 \<Longrightarrow> uint (a * b) = uint a * uint b"
  by (simp add: uint_word_ariths)

lemma hangul_compose_parts:
  assumes "0xac00 \<le> c" and "c < 0xd7a4"
  shows "compose_all T (hd (hangul_parts c)) (tl (hangul_parts c)) = Inr c"
proof -
  define s where "s = c - 0xac00"
  define k where "k = uint s"
  have c: "0xac00 \<le> uint c" "uint c < 0xd7a4" using assms by (simp_all add: word_le_def word_less_def)
  then have k: "uint c = 0xac00 + k" "0 \<le> k" "k < 11172"
    by (simp_all add: k_def s_def uint_sub_if')
  define L V t where "L = s div 588" and "V = s mod 588 div 28" and "t = s mod 28"
  obtain l v w where lvw: "l = k div 588" "v = k mod 588 div 28" "w = k mod 28" by blast
  have u: "uint L = l" "uint V = v" "uint t = w"
    by (simp_all add: L_def V_def t_def k_def lvw uint_div uint_mod)
  have b: "0 \<le> l" "l < 19" "0 \<le> v" "v < 21" "0 \<le> w" "w < 28"
    using k(2,3) by (auto simp: lvw)
  have arith: "l * 588 + v * 28 + w = k"
  proof -
    have "k mod 588 mod 28 = k mod 28" by (rule mod_mod_cancel) simp
    then have "k mod 588 div 28 * 28 + k mod 28 = k mod 588"
      using div_mult_mod_eq [of "k mod 588" 28] by linarith
    then show ?thesis unfolding lvw using div_mult_mod_eq [of k 588] by linarith
  qed
  have wm: "(k - w) mod 28 = 0" by (simp add: lvw mod_diff_left_eq [symmetric] minus_mod_eq_mult_div)
  have wk: "w \<le> k" using arith b by linarith
  have L: "uint (0x1100 + L) = 0x1100 + l" using u b by (subst uint_add_exact) simp_all
  have V: "uint (0x1161 + V) = 0x1161 + v" using u b by (subst uint_add_exact) simp_all
  have t: "uint (0x11a7 + t) = 0x11a7 + w" using u b by (subst uint_add_exact) simp_all
  have in1: "0x1100 \<le> 0x1100 + L" "0x1100 + L < 0x1100 + 19" "0x1161 \<le> 0x1161 + V" "0x1161 + V < 0x1161 + 21"
    using L V b by (simp_all add: word_le_def word_less_def)
  have m: "uint (L * 588) = l * 588" "uint (V * 28) = v * 28"
    using u b by (simp_all add: uint_mult_exact)
  have "uint (0xac00 + L * 588) = 0xac00 + l * 588"
    using m b by (subst uint_add_exact) simp_all
  then have "uint (0xac00 + L * 588 + V * 28) = 0xac00 + l * 588 + v * 28"
    using m b by (subst uint_add_exact) simp_all
  then have lvc: "uint (0xac00 + L * 588 + V * 28) = 0xac00 + k - w"
    using arith by linarith
  have one: "compose_pair T (0x1100 + L) (0x1161 + V) = Inr (0xac00 + L * 588 + V * 28)"
    using in1 by (simp add: compose_pair_def add.assoc)
  show ?thesis
  proof (cases "t = 0")
    case True
    then have "w = 0" using u(3) by simp
    then have "0xac00 + L * 588 + V * 28 = c"
      using lvc k by (simp add: word_uint_eq_iff)
    with True one show ?thesis
      by (simp add: hangul_parts_def Let_def L_def V_def t_def s_def)
  next
    case False
    define d where "d = 0xac00 + L * 588 + V * 28"
    have d: "uint d = 0xac00 + k - w" using lvc by (simp add: d_def)
    have ds: "uint (d - 0xac00) = k - w"
      using d b k wk by (simp add: uint_sub_if')
    have z: "(d - 0xac00) mod 28 = 0"
      by (simp add: word_uint_eq_iff uint_mod ds wm)
    have r: "0xac00 \<le> d" "d < 0xac00 + 11172" "0x11a7 \<le> 0x11a7 + t" "0x11a7 + t < 0x11a7 + 28"
      using d t b k wk by (simp_all add: word_le_def word_less_def)
    have nl: "\<not> d < 0x1100 + 19" using d b k wk by (simp add: word_less_def)
    have "d + (0x11a7 + t) - 0x11a7 = c"
    proof -
      have "d + t = c"
        using d u(3) b k wk by (simp add: word_uint_eq_iff uint_add_exact)
      then show ?thesis by simp
    qed
    then have two: "compose_pair T d (0x11a7 + t) = Inr c"
      using nl z r by (simp add: compose_pair_def)
    from False one two show ?thesis
      by (simp add: hangul_parts_def Let_def L_def V_def t_def s_def d_def)
  qed
qed

lemma hangul_decompose:
  assumes "0xac00 \<le> c" and "c < 0xd7a4"
  shows "to_nfd_rec T (Suc n) dbuf [c] is_compat = dbuf_puts dbuf (map le32 (hangul_parts c))"
  using assms
  by (auto simp: hangul_parts_def Let_def dbuf_put_u32_def bnd_def split: sum.splits prod.splits)

section \<open>Properties\<close>

text \<open>C24. Canonical ordering: \<open>sort_cc\<close>, two nested insertion loops on the array, computes the
canonical ordering of Unicode. Every maximal run of characters of non-zero combining class is
sorted by class, equal classes keep their order, characters of class 0 stay where they are.\<close>

theorem sort_cc_canonical:
  assumes "\<forall>x \<in> set xs. unicode_get_cc T x = Inr (cc x)"
  shows "sort_cc T xs (length xs) = Inr (canonical_order cc xs)"
  by (rule sort_cc_spec [OF assms])

text \<open>A small table: U+0300 to U+0301 have class 230, U+0302 has class 220, others 0.\<close>

definition small_cc :: norm_tables where
  "small_cc = \<lparr>unicode_cc_table = [0xb2, 0xcf] @ replicate 30 0 @ [0xc1, 0x00, 220],
     unicode_cc_index = [0, 3, 0, 3, 3, 0],
     unicode_decomp_table1 = [], unicode_decomp_table2 = [], unicode_decomp_data = [],
     unicode_comp_table = []\<rparr>"

definition small_class :: "u32 \<Rightarrow> int" where
  "small_class c = (if c = 0x300 \<or> c = 0x301 then 230 else if c = 0x302 then 220 else 0)"

lemma sort_cc_canonical_witness:
  "sort_cc small_cc [0x61, 0x301, 0x302, 0x300] (length [0x61, 0x301, 0x302, 0x300 :: u32]) =
    Inr (canonical_order small_class [0x61, 0x301, 0x302, 0x300])"
  by (rule sort_cc_canonical) code_simp

text \<open>C25. Hangul round trip: the decomposition of every precomposed syllable appends its two or
three parts, and composing these parts again, in the order in which the composition loop sees
them, gives the syllable back.\<close>

theorem hangul_round_trip:
  assumes "0xac00 \<le> c" and "c < 0xd7a4"
  shows "to_nfd_rec T (Suc n) dbuf [c] is_compat = dbuf_puts dbuf (map le32 (hangul_parts c)) \<and>
    compose_all T (hd (hangul_parts c)) (tl (hangul_parts c)) = Inr c"
  using hangul_decompose [OF assms] hangul_compose_parts [OF assms] by blast

lemma hangul_round_trip_witness:
  "to_nfd_rec small_cc (Suc 0) empty_dbuf [0xd55c] False = dbuf_puts empty_dbuf (map le32 (hangul_parts 0xd55c)) \<and>
    compose_all small_cc (hd (hangul_parts 0xd55c)) (tl (hangul_parts 0xd55c)) = Inr 0xd55c"
  by (rule hangul_round_trip) simp_all

end
