(* ===== verification/UniProp.thy ===== *)
theory UniProp
  imports UniCase CStrings
begin

text \<open>
  Unicode properties as character ranges: \<open>unicode_script\<close>, \<open>unicode_general_category\<close>,
  \<open>unicode_prop\<close> of \<open>libunicode.c\<close> and the functions they are made of. Each reads a
  run-length table into a \<open>CharRange\<close>, or evaluates a small program in reverse Polish notation
  on a stack of at most four ranges (\<open>unicode_prop_ops\<close>). The generated tables are the fields
  of the record \<open>prop_tables\<close>, an argument of every function.
\<close>

record prop_tables =
  unicode_script_name_table :: bytes
  unicode_script_table :: bytes
  unicode_script_ext_table :: bytes
  unicode_gc_name_table :: bytes
  unicode_gc_table :: bytes
  unicode_prop_name_table :: bytes
  unicode_prop_table :: "bytes list"

section \<open>Names\<close>

text \<open>
  A name table is a sequence of C strings, each a comma separated list of aliases, and ends
  with an empty string. \<open>fresh\<close> marks the test \<open>while (*p)\<close>, made before every list. The
  result is the number of the list that has the name, or -1.
\<close>

function find_name :: "bytes \<Rightarrow> bytes \<Rightarrow> nat \<Rightarrow> int \<Rightarrow> bool \<Rightarrow> int res" where
  "find_name tab name p pos fresh =
     (if p \<ge> length tab \<or> \<not> terminated (drop p tab) then Inl Undef
      else if fresh \<and> tab ! p = 0 then Inr (-1)
      else
        (let s = cstr (drop p tab);
             alias = takeWhile (\<lambda>c. c \<noteq> ch CHR '','') s;
             last = (ch CHR '','' \<notin> set s) in
         if alias = name then Inr pos
         else find_name tab name (p + length alias + 1) (if last then pos + 1 else pos) last))"
  by pat_completeness auto
termination
  by (relation "measure (\<lambda>(tab, name, p, pos, fresh). length tab - p)") auto

declare find_name.simps [simp del]

definition unicode_find_name :: "bytes \<Rightarrow> bytes \<Rightarrow> int res" where
  "unicode_find_name tab name = bnd (strlen name) (\<lambda>_. find_name tab (cstr name) 0 0 True)"

section \<open>Enumerations\<close>

abbreviation (input) UNICODE_GC_Cn :: nat where "UNICODE_GC_Cn \<equiv> 0"
abbreviation (input) UNICODE_GC_Lu :: nat where "UNICODE_GC_Lu \<equiv> 1"
abbreviation (input) UNICODE_GC_Ll :: nat where "UNICODE_GC_Ll \<equiv> 2"
abbreviation (input) UNICODE_GC_Lt :: nat where "UNICODE_GC_Lt \<equiv> 3"
abbreviation (input) UNICODE_GC_Lm :: nat where "UNICODE_GC_Lm \<equiv> 4"
abbreviation (input) UNICODE_GC_Lo :: nat where "UNICODE_GC_Lo \<equiv> 5"
abbreviation (input) UNICODE_GC_Mn :: nat where "UNICODE_GC_Mn \<equiv> 6"
abbreviation (input) UNICODE_GC_Mc :: nat where "UNICODE_GC_Mc \<equiv> 7"
abbreviation (input) UNICODE_GC_Me :: nat where "UNICODE_GC_Me \<equiv> 8"
abbreviation (input) UNICODE_GC_Nd :: nat where "UNICODE_GC_Nd \<equiv> 9"
abbreviation (input) UNICODE_GC_Nl :: nat where "UNICODE_GC_Nl \<equiv> 10"
abbreviation (input) UNICODE_GC_No :: nat where "UNICODE_GC_No \<equiv> 11"
abbreviation (input) UNICODE_GC_Sm :: nat where "UNICODE_GC_Sm \<equiv> 12"
abbreviation (input) UNICODE_GC_Sc :: nat where "UNICODE_GC_Sc \<equiv> 13"
abbreviation (input) UNICODE_GC_Sk :: nat where "UNICODE_GC_Sk \<equiv> 14"
abbreviation (input) UNICODE_GC_So :: nat where "UNICODE_GC_So \<equiv> 15"
abbreviation (input) UNICODE_GC_Pc :: nat where "UNICODE_GC_Pc \<equiv> 16"
abbreviation (input) UNICODE_GC_Pd :: nat where "UNICODE_GC_Pd \<equiv> 17"
abbreviation (input) UNICODE_GC_Ps :: nat where "UNICODE_GC_Ps \<equiv> 18"
abbreviation (input) UNICODE_GC_Pe :: nat where "UNICODE_GC_Pe \<equiv> 19"
abbreviation (input) UNICODE_GC_Pi :: nat where "UNICODE_GC_Pi \<equiv> 20"
abbreviation (input) UNICODE_GC_Pf :: nat where "UNICODE_GC_Pf \<equiv> 21"
abbreviation (input) UNICODE_GC_Po :: nat where "UNICODE_GC_Po \<equiv> 22"
abbreviation (input) UNICODE_GC_Zs :: nat where "UNICODE_GC_Zs \<equiv> 23"
abbreviation (input) UNICODE_GC_Zl :: nat where "UNICODE_GC_Zl \<equiv> 24"
abbreviation (input) UNICODE_GC_Zp :: nat where "UNICODE_GC_Zp \<equiv> 25"
abbreviation (input) UNICODE_GC_Cc :: nat where "UNICODE_GC_Cc \<equiv> 26"
abbreviation (input) UNICODE_GC_Cf :: nat where "UNICODE_GC_Cf \<equiv> 27"
abbreviation (input) UNICODE_GC_Cs :: nat where "UNICODE_GC_Cs \<equiv> 28"
abbreviation (input) UNICODE_GC_Co :: nat where "UNICODE_GC_Co \<equiv> 29"

abbreviation (input) UNICODE_PROP_Other_Math :: nat where "UNICODE_PROP_Other_Math \<equiv> 1"
abbreviation (input) UNICODE_PROP_Other_Lowercase :: nat where "UNICODE_PROP_Other_Lowercase \<equiv> 3"
abbreviation (input) UNICODE_PROP_Other_Uppercase :: nat where "UNICODE_PROP_Other_Uppercase \<equiv> 4"
abbreviation (input) UNICODE_PROP_Other_Alphabetic :: nat where "UNICODE_PROP_Other_Alphabetic \<equiv> 2"
abbreviation (input) UNICODE_PROP_Other_Grapheme_Extend :: nat where "UNICODE_PROP_Other_Grapheme_Extend \<equiv> 5"
abbreviation (input) UNICODE_PROP_Other_ID_Start :: nat where "UNICODE_PROP_Other_ID_Start \<equiv> 7"
abbreviation (input) UNICODE_PROP_Other_ID_Continue :: nat where "UNICODE_PROP_Other_ID_Continue \<equiv> 8"
abbreviation (input) UNICODE_PROP_Pattern_Syntax :: nat where "UNICODE_PROP_Pattern_Syntax \<equiv> 29"
abbreviation (input) UNICODE_PROP_Pattern_White_Space :: nat where "UNICODE_PROP_Pattern_White_Space \<equiv> 30"
abbreviation (input) UNICODE_PROP_XID_Start1 :: nat where "UNICODE_PROP_XID_Start1 \<equiv> 11"
abbreviation (input) UNICODE_PROP_XID_Continue1 :: nat where "UNICODE_PROP_XID_Continue1 \<equiv> 12"
abbreviation (input) UNICODE_PROP_Changes_When_Titlecased1 :: nat where "UNICODE_PROP_Changes_When_Titlecased1 \<equiv> 13"
abbreviation (input) UNICODE_PROP_Changes_When_Casefolded1 :: nat where "UNICODE_PROP_Changes_When_Casefolded1 \<equiv> 14"
abbreviation (input) UNICODE_PROP_Changes_When_NFKC_Casefolded1 :: nat where "UNICODE_PROP_Changes_When_NFKC_Casefolded1 \<equiv> 15"
abbreviation (input) UNICODE_PROP_ID_Start :: nat where "UNICODE_PROP_ID_Start \<equiv> 48"
abbreviation (input) UNICODE_PROP_ID_Continue1 :: nat where "UNICODE_PROP_ID_Continue1 \<equiv> 10"
abbreviation (input) UNICODE_PROP_ASCII_Hex_Digit :: nat where "UNICODE_PROP_ASCII_Hex_Digit \<equiv> 16"
abbreviation (input) UNICODE_PROP_ASCII :: nat where "UNICODE_PROP_ASCII \<equiv> 50"
abbreviation (input) UNICODE_PROP_Any :: nat where "UNICODE_PROP_Any \<equiv> 52"
abbreviation (input) UNICODE_PROP_Assigned :: nat where "UNICODE_PROP_Assigned \<equiv> 53"
abbreviation (input) UNICODE_PROP_Math :: nat where "UNICODE_PROP_Math \<equiv> 65"
abbreviation (input) UNICODE_PROP_Lowercase :: nat where "UNICODE_PROP_Lowercase \<equiv> 64"
abbreviation (input) UNICODE_PROP_Uppercase :: nat where "UNICODE_PROP_Uppercase \<equiv> 66"
abbreviation (input) UNICODE_PROP_Cased :: nat where "UNICODE_PROP_Cased \<equiv> 54"
abbreviation (input) UNICODE_PROP_Alphabetic :: nat where "UNICODE_PROP_Alphabetic \<equiv> 51"
abbreviation (input) UNICODE_PROP_Grapheme_Base :: nat where "UNICODE_PROP_Grapheme_Base \<equiv> 61"
abbreviation (input) UNICODE_PROP_Grapheme_Extend :: nat where "UNICODE_PROP_Grapheme_Extend \<equiv> 62"
abbreviation (input) UNICODE_PROP_XID_Start :: nat where "UNICODE_PROP_XID_Start \<equiv> 68"
abbreviation (input) UNICODE_PROP_XID_Continue :: nat where "UNICODE_PROP_XID_Continue \<equiv> 67"
abbreviation (input) UNICODE_PROP_Changes_When_Uppercased :: nat where "UNICODE_PROP_Changes_When_Uppercased \<equiv> 60"
abbreviation (input) UNICODE_PROP_Changes_When_Lowercased :: nat where "UNICODE_PROP_Changes_When_Lowercased \<equiv> 57"
abbreviation (input) UNICODE_PROP_Changes_When_Casemapped :: nat where "UNICODE_PROP_Changes_When_Casemapped \<equiv> 56"
abbreviation (input) UNICODE_PROP_Changes_When_Titlecased :: nat where "UNICODE_PROP_Changes_When_Titlecased \<equiv> 59"
abbreviation (input) UNICODE_PROP_Changes_When_Casefolded :: nat where "UNICODE_PROP_Changes_When_Casefolded \<equiv> 55"
abbreviation (input) UNICODE_PROP_Changes_When_NFKC_Casefolded :: nat where "UNICODE_PROP_Changes_When_NFKC_Casefolded \<equiv> 58"
abbreviation (input) UNICODE_PROP_ID_Continue :: nat where "UNICODE_PROP_ID_Continue \<equiv> 63"

definition UNICODE_SCRIPT_Common :: u32 where "UNICODE_SCRIPT_Common = 25"
definition UNICODE_SCRIPT_Inherited :: u32 where "UNICODE_SCRIPT_Inherited = 55"

text \<open>\<open>M(a) | M(b) | ...\<close>: the mask of the categories of a list.\<close>

definition gc_M :: "nat list \<Rightarrow> u32" where
  "gc_M ks = foldr (\<lambda>k m. push_bit k 1 OR m) ks 0"

section \<open>Run-length tables\<close>

text \<open>Adding an interval and going on, or returning -1.\<close>

definition then_cr :: "cr_result \<Rightarrow> (CharRange \<Rightarrow> cr_result) \<Rightarrow> cr_result" where
  "then_cr r k = bnd r (\<lambda>(x, cr). if x \<noteq> 0 then Inr (-1, cr) else k cr)"

lemma then_cr_cong [fundef_cong]:
  "r = r' \<Longrightarrow> (\<And>cr. r' = Inr (0, cr) \<Longrightarrow> k cr = k' cr) \<Longrightarrow> then_cr r k = then_cr r' k'"
  by (auto simp: then_cr_def bnd_def split: sum.splits)

text \<open>The scripts: an entry gives its length less one and the script (0 for none).\<close>

definition script_entry :: "bytes \<Rightarrow> nat \<Rightarrow> (u32 \<times> u32 \<times> nat) res" where
  "script_entry tab p =
     bnd (rd tab p) (\<lambda>b. let type = drop_bit 7 (ucast b) :: u32; n = ucast b AND 0x7f :: u32 in
       bnd (if n < 96 then Inr (n, p + 1)
            else if n < 112 then
              bnd (rd tab (p + 1)) (\<lambda>b1. Inr ((push_bit 8 (n - 96) OR ucast b1) + 96, p + 2))
            else
              bnd (rd tab (p + 1)) (\<lambda>b1. bnd (rd tab (p + 2)) (\<lambda>b2.
                Inr ((push_bit 16 (n - 112) OR push_bit 8 (ucast b1) OR ucast b2) + (96 + 4096), p + 3))))
         (\<lambda>(n, p). if type = 0 then Inr (n, 0, p)
                   else bnd (rd tab p) (\<lambda>v. Inr (n, ucast v, p + 1))))"

lemma script_entry_advances: "script_entry tab p = Inr (n, v, p') \<Longrightarrow> p < p' \<and> p < length tab"
  by (auto simp: script_entry_def bnd_eq_Inr rd_eq_Inr Let_def split: if_splits)

function script_loop :: "bytes \<Rightarrow> u32 \<Rightarrow> nat \<Rightarrow> u32 \<Rightarrow> CharRange \<Rightarrow> cr_result" where
  "script_loop tab script_idx p c cr =
     (if p < length tab then
        bnd (script_entry tab p) (\<lambda>(n, v, p').
          let c1 = c + n + 1 in
          then_cr (if v = script_idx then cr_add_interval cr c c1 else Inr (0, cr))
            (script_loop tab script_idx p' c1))
      else Inr (0, cr))"
  by pat_completeness auto
termination
  by (relation "measure (\<lambda>(tab, s, p, c, cr). length tab - p)") (auto dest!: script_entry_advances)

declare script_loop.simps [simp del]

text \<open>The extensions: the length, then a list of scripts, whose length is \<open>v_len\<close>.\<close>

definition script_ext_entry :: "bytes \<Rightarrow> nat \<Rightarrow> (u32 \<times> nat \<times> nat) res" where
  "script_ext_entry tab p =
     bnd (rd tab p) (\<lambda>b. let b = (ucast b :: u32) in
       bnd (if b < 128 then Inr (b, p + 1)
            else if b < 128 + 64 then
              bnd (rd tab (p + 1)) (\<lambda>b1. Inr ((push_bit 8 (b - 128) OR ucast b1) + 128, p + 2))
            else
              bnd (rd tab (p + 1)) (\<lambda>b1. bnd (rd tab (p + 2)) (\<lambda>b2.
                Inr ((push_bit 16 (b - 128 - 64) OR push_bit 8 (ucast b1) OR ucast b2) + (128 + 16384), p + 3))))
         (\<lambda>(n, p). bnd (rd tab p) (\<lambda>v. Inr (n, unat v, p + 1))))"

lemma script_ext_entry_advances:
  "script_ext_entry tab p = Inr (n, v, p') \<Longrightarrow> p < p' \<and> p < length tab"
  by (auto simp: script_ext_entry_def bnd_eq_Inr rd_eq_Inr Let_def split: if_splits)

fun script_listed :: "bytes \<Rightarrow> u32 \<Rightarrow> nat \<Rightarrow> nat \<Rightarrow> bool res" where
  "script_listed tab script_idx p 0 = Inr False"
| "script_listed tab script_idx p (Suc k) =
     bnd (rd tab p) (\<lambda>x. if ucast x = script_idx then Inr True else script_listed tab script_idx (p + 1) k)"

function script_ext_loop :: "bytes \<Rightarrow> u32 \<Rightarrow> bool \<Rightarrow> nat \<Rightarrow> u32 \<Rightarrow> CharRange \<Rightarrow> cr_result" where
  "script_ext_loop tab script_idx is_common p c cr =
     (if p < length tab then
        bnd (script_ext_entry tab p) (\<lambda>(n, v_len, p').
          let c1 = c + n + 1 in
          bnd (if is_common then Inr (v_len \<noteq> 0) else script_listed tab script_idx p' v_len) (\<lambda>add.
          then_cr (if add then cr_add_interval cr c c1 else Inr (0, cr))
            (script_ext_loop tab script_idx is_common (p' + v_len) c1)))
      else Inr (0, cr))"
  by pat_completeness auto
termination
  by (relation "measure (\<lambda>(tab, s, i, p, c, cr). length tab - p)") (auto dest!: script_ext_entry_advances)

declare script_ext_loop.simps [simp del]

text \<open>
  When memory runs out the code jumps to the label \<open>fail\<close>, whose last statement is
  \<open>goto fail\<close>: without extensions it never returns (\<open>NoFuel\<close>), with them it frees the two
  ranges a second time (\<open>Undef\<close>).
\<close>

definition script_fail :: "bool \<Rightarrow> cr_result" where
  "script_fail is_ext = (if is_ext then Inl Undef else Inl NoFuel)"

definition unicode_script :: "prop_tables \<Rightarrow> CharRange \<Rightarrow> bytes \<Rightarrow> bool \<Rightarrow> cr_result" where
  "unicode_script T cr script_name is_ext =
     bnd (unicode_find_name (unicode_script_name_table T) script_name) (\<lambda>i.
       if i < 0 then Inr (-2, cr)
       else
         (let script_idx = of_int (i + 1) :: u32;
              is_common = (script_idx = UNICODE_SCRIPT_Common \<or> script_idx = UNICODE_SCRIPT_Inherited);
              cr1 = (if is_ext then cr_init (cr_realloc_func cr) else cr);
              cr2 = cr_init (cr_realloc_func cr) in
          bnd (script_loop (unicode_script_table T) script_idx 0 0 cr1) (\<lambda>(r, cr1).
            if r \<noteq> 0 then script_fail is_ext
            else if \<not> is_ext then Inr (0, cr1)
            else
              bnd (script_ext_loop (unicode_script_ext_table T) script_idx is_common 0 0 cr2) (\<lambda>(r, cr2).
              if r \<noteq> 0 then script_fail is_ext
              else
                bnd (if is_common
                     then bnd (cr_invert cr2) (\<lambda>(r, cr2).
                            if r \<noteq> 0 then Inr (-1, cr) else cr_op cr (pts cr1) (pts cr2) CR_OP_INTER)
                     else cr_op cr (pts cr1) (pts cr2) CR_OP_UNION) (\<lambda>(r, cr).
                if r \<noteq> 0 then script_fail is_ext else Inr (0, cr))))))"

section \<open>General categories\<close>

definition gc_entry :: "bytes \<Rightarrow> nat \<Rightarrow> (u32 \<times> nat \<times> nat) res" where
  "gc_entry tab p =
     bnd (rd tab p) (\<lambda>b. let n = drop_bit 5 (ucast b) :: u32; v = unat (b AND 0x1f) in
       if n \<noteq> 7 then Inr (n, v, p + 1)
       else bnd (rd tab (p + 1)) (\<lambda>n. let n = (ucast n :: u32) in
         if n < 128 then Inr (n + 7, v, p + 2)
         else if n < 128 + 64 then
           bnd (rd tab (p + 2)) (\<lambda>b1. Inr ((push_bit 8 (n - 128) OR ucast b1) + (7 + 128), v, p + 3))
         else
           bnd (rd tab (p + 2)) (\<lambda>b1. bnd (rd tab (p + 3)) (\<lambda>b2.
             Inr ((push_bit 16 (n - 128 - 64) OR push_bit 8 (ucast b1) OR ucast b2) + (7 + 128 + 16384),
                  v, p + 4)))))"

lemma gc_entry_advances: "gc_entry tab p = Inr (n, v, p') \<Longrightarrow> p < p' \<and> p < length tab"
  by (auto simp: gc_entry_def bnd_eq_Inr rd_eq_Inr Let_def split: if_splits)

text \<open>
  Every second character from \<open>c0\<close> below \<open>c\<close>. A counter that wraps around would loop; codes
  stay far below that.
\<close>

function alternate :: "u32 \<Rightarrow> u32 \<Rightarrow> CharRange \<Rightarrow> cr_result" where
  "alternate c0 c cr =
     (if c0 < c
      then then_cr (cr_add_interval cr c0 (c0 + 1)) (\<lambda>cr.
             if c0 + 2 < c0 then Inl NoFuel else alternate (c0 + 2) c cr)
      else Inr (0, cr))"
  by pat_completeness auto
termination
proof (relation "measure (\<lambda>(c0, c, cr). unat c - unat c0)", goal_cases)
  case (2 c0 c cr cr')
  then have "c0 < c" "c0 < c0 + 2" by (auto simp: not_less order_less_le)
  then have "unat c0 < unat c" "unat c0 < unat (c0 + 2)" by (simp_all add: word_less_nat_alt)
  then show ?case by simp
qed simp

declare alternate.simps [simp del]

function gc_loop :: "bytes \<Rightarrow> u32 \<Rightarrow> nat \<Rightarrow> u32 \<Rightarrow> CharRange \<Rightarrow> cr_result" where
  "gc_loop tab gc_mask p c0 cr =
     (if p < length tab then
        bnd (gc_entry tab p) (\<lambda>(n, v, p').
          let c = c0 + (n + 1) in
          then_cr
            (if v = 31 then
               (let b = gc_mask AND gc_M [UNICODE_GC_Lu, UNICODE_GC_Ll] in
                if b = 0 then Inr (0, cr)
                else if b = gc_M [UNICODE_GC_Lu, UNICODE_GC_Ll] then cr_add_interval cr c0 c
                else alternate (c0 + (if gc_mask AND gc_M [UNICODE_GC_Ll] \<noteq> 0 then 1 else 0)) c cr)
             else if drop_bit v gc_mask AND 1 \<noteq> 0 then cr_add_interval cr c0 c
             else Inr (0, cr))
            (gc_loop tab gc_mask p' c))
      else Inr (0, cr))"
  by pat_completeness auto
termination
  by (relation "measure (\<lambda>(tab, m, p, c, cr). length tab - p)") (auto dest!: gc_entry_advances)

declare gc_loop.simps [simp del]

definition unicode_general_category1 :: "prop_tables \<Rightarrow> CharRange \<Rightarrow> u32 \<Rightarrow> cr_result" where
  "unicode_general_category1 T cr gc_mask = gc_loop (unicode_gc_table T) gc_mask 0 0 cr"

definition unicode_gc_mask_table :: "u32 list" where
  "unicode_gc_mask_table =
    [gc_M [UNICODE_GC_Lu, UNICODE_GC_Ll, UNICODE_GC_Lt],
     gc_M [UNICODE_GC_Lu, UNICODE_GC_Ll, UNICODE_GC_Lt, UNICODE_GC_Lm, UNICODE_GC_Lo],
     gc_M [UNICODE_GC_Mn, UNICODE_GC_Mc, UNICODE_GC_Me],
     gc_M [UNICODE_GC_Nd, UNICODE_GC_Nl, UNICODE_GC_No],
     gc_M [UNICODE_GC_Sm, UNICODE_GC_Sc, UNICODE_GC_Sk, UNICODE_GC_So],
     gc_M [UNICODE_GC_Pc, UNICODE_GC_Pd, UNICODE_GC_Ps, UNICODE_GC_Pe, UNICODE_GC_Pi, UNICODE_GC_Pf, UNICODE_GC_Po],
     gc_M [UNICODE_GC_Zs, UNICODE_GC_Zl, UNICODE_GC_Zp],
     gc_M [UNICODE_GC_Cc, UNICODE_GC_Cf, UNICODE_GC_Cs, UNICODE_GC_Co, UNICODE_GC_Cn]]"

definition unicode_general_category :: "prop_tables \<Rightarrow> CharRange \<Rightarrow> bytes \<Rightarrow> cr_result" where
  "unicode_general_category T cr gc_name =
     bnd (unicode_find_name (unicode_gc_name_table T) gc_name) (\<lambda>gc_idx.
       if gc_idx < 0 then Inr (-2, cr)
       else bnd (if gc_idx \<le> int UNICODE_GC_Co then Inr (push_bit (nat gc_idx) 1)
                 else rd unicode_gc_mask_table (nat (gc_idx - 30))) (\<lambda>gc_mask.
              unicode_general_category1 T cr gc_mask))"

section \<open>Binary properties\<close>

text \<open>The runs of an entry alternate; those inside the set are added.\<close>

fun prop_runs :: "u32 list \<Rightarrow> u32 \<Rightarrow> bool \<Rightarrow> CharRange \<Rightarrow> cr_result" where
  "prop_runs [] c b cr = Inr (0, cr)"
| "prop_runs (l # ls) c b cr =
     then_cr (if b then cr_add_interval cr c (c + l) else Inr (0, cr)) (prop_runs ls (c + l) (\<not> b))"

function prop_loop :: "bytes \<Rightarrow> nat \<Rightarrow> u32 \<Rightarrow> bool \<Rightarrow> CharRange \<Rightarrow> cr_result" where
  "prop_loop tab p c b cr =
     (if p < length tab then
        bnd (run_entry tab p) (\<lambda>(ls, p').
          then_cr (prop_runs ls c b cr)
            (prop_loop tab p' (run_end c ls) (b = even (length ls))))
      else Inr (0, cr))"
  by pat_completeness auto
termination
  by (relation "measure (\<lambda>(tab, p, c, b, cr). length tab - p)") (auto dest!: run_entry_advances)

declare prop_loop.simps [simp del]

definition unicode_prop1 :: "prop_tables \<Rightarrow> CharRange \<Rightarrow> nat \<Rightarrow> cr_result" where
  "unicode_prop1 T cr prop_idx =
     bnd (rd (unicode_prop_table T) prop_idx) (\<lambda>tab. prop_loop tab 0 0 False cr)"

section \<open>Characters that case conversion changes\<close>

definition CASE_U :: u32 where "CASE_U = 1"
definition CASE_L :: u32 where "CASE_L = 2"
definition CASE_F :: u32 where "CASE_F = 4"

definition RUN_TYPE_U :: u32 where "RUN_TYPE_U = 0"
definition RUN_TYPE_L :: u32 where "RUN_TYPE_L = 1"
definition RUN_TYPE_LF :: u32 where "RUN_TYPE_LF = 3"
definition RUN_TYPE_U_EXT3 :: u32 where "RUN_TYPE_U_EXT3 = 13"

definition run_MR :: "u32 list \<Rightarrow> u32" where
  "run_MR ts = foldr (\<lambda>t m. push_bit (unat t) 1 OR m) ts 0"

definition tab_run_mask :: "u32 list" where
  "tab_run_mask =
    [run_MR [RUN_TYPE_U, RUN_TYPE_UF, RUN_TYPE_UL, RUN_TYPE_LSU, RUN_TYPE_U2L_399_EXT2, RUN_TYPE_UF_D20,
       RUN_TYPE_UF_D1_EXT, RUN_TYPE_U_EXT, RUN_TYPE_U_EXT2, RUN_TYPE_U_EXT3],
     run_MR [RUN_TYPE_L, RUN_TYPE_LF, RUN_TYPE_UL, RUN_TYPE_LSU, RUN_TYPE_U2L_399_EXT2, RUN_TYPE_LF_EXT,
       RUN_TYPE_L_EXT2],
     run_MR [RUN_TYPE_UF, RUN_TYPE_LF, RUN_TYPE_UL, RUN_TYPE_LSU, RUN_TYPE_U2L_399_EXT2, RUN_TYPE_LF_EXT,
       RUN_TYPE_UF_D20, RUN_TYPE_UF_D1_EXT, RUN_TYPE_LF_EXT]]"

definition case1_mask :: "u32 \<Rightarrow> u32" where
  "case1_mask case_mask =
     foldl (\<lambda>m i. if drop_bit i case_mask AND 1 \<noteq> 0 then m OR tab_run_mask ! i else m) 0 [0, 1, 2]"

text \<open>\<open>for(i = 0; i < len; i += 2)\<close> over the characters \<open>code + i\<close>.\<close>

function case_alternate :: "u32 \<Rightarrow> nat \<Rightarrow> nat \<Rightarrow> CharRange \<Rightarrow> cr_result" where
  "case_alternate code i len cr =
     (if i < len
      then then_cr (cr_add_interval cr (code + of_nat i) (code + of_nat i + 1)) (case_alternate code (i + 2) len)
      else Inr (0, cr))"
  by pat_completeness auto
termination by (relation "measure (\<lambda>(code, i, len, cr). len - i)") auto

declare case_alternate.simps [simp del]

definition case1_row :: "u32 \<Rightarrow> u32 \<Rightarrow> CharRange \<Rightarrow> cr_result" where
  "case1_row case_mask v cr =
     (let type = run_type v; code = run_code v; len = run_len v;
          upper = case_mask AND CASE_U \<noteq> 0; lower = case_mask AND (CASE_L OR CASE_F) \<noteq> 0 in
      if drop_bit (unat type) (case1_mask case_mask) AND 1 = 0 then Inr (0, cr)
      else if type = RUN_TYPE_UL \<and> \<not> (upper \<and> lower) then
        case_alternate (code + (if upper then 1 else 0)) 0 (unat len) cr
      else if type = RUN_TYPE_LSU \<and> \<not> (upper \<and> lower) then
        then_cr (if \<not> upper then cr_add_interval cr code (code + 1) else Inr (0, cr)) (\<lambda>cr.
        then_cr (cr_add_interval cr (code + 1) (code + 2)) (\<lambda>cr.
          if upper then cr_add_interval cr (code + 2) (code + 3) else Inr (0, cr)))
      else cr_add_interval cr code (code + len))"

fun case1_rows :: "u32 \<Rightarrow> u32 list \<Rightarrow> CharRange \<Rightarrow> cr_result" where
  "case1_rows case_mask [] cr = Inr (0, cr)"
| "case1_rows case_mask (v # vs) cr = then_cr (case1_row case_mask v cr) (case1_rows case_mask vs)"

definition unicode_case1 :: "CharRange \<Rightarrow> u32 \<Rightarrow> cr_result" where
  "unicode_case1 cr case_mask =
     (if case_mask = 0 then Inr (0, cr) else case1_rows case_mask case_conv_table1 cr)"

section \<open>The stack machine\<close>

text \<open>
  The arguments of \<open>unicode_prop_ops\<close>, without \<open>POP_END\<close>. The head of \<open>stack\<close> is its top;
  \<open>make\<close> builds the range of an operand (\<open>unicode_general_category1\<close>, \<open>unicode_prop1\<close>,
  \<open>unicode_case1\<close>). A failed \<open>assert\<close> is the error \<open>Fail\<close>.
\<close>

datatype prop_op = POP_GC u32 | POP_PROP nat | POP_CASE u32
  | POP_UNION | POP_INTER | POP_XOR | POP_INVERT

definition POP_STACK_LEN_MAX :: nat where
  "POP_STACK_LEN_MAX = 4"

definition pop_make :: "prop_tables \<Rightarrow> CharRange \<Rightarrow> prop_op \<Rightarrow> cr_result" where
  "pop_make T cr op =
     (case op of
        POP_GC a \<Rightarrow> unicode_general_category1 T cr a
      | POP_PROP a \<Rightarrow> unicode_prop1 T cr a
      | POP_CASE a \<Rightarrow> unicode_case1 cr a
      | _ \<Rightarrow> Inr (0, cr))"

fun is_operand :: "prop_op \<Rightarrow> bool" where
  "is_operand (POP_GC _) = True"
| "is_operand (POP_PROP _) = True"
| "is_operand (POP_CASE _) = True"
| "is_operand _ = False"

fun pop_cr_op :: "prop_op \<Rightarrow> CharRangeOpEnum" where
  "pop_cr_op POP_INTER = CR_OP_INTER"
| "pop_cr_op POP_XOR = CR_OP_XOR"
| "pop_cr_op _ = CR_OP_UNION"

text \<open>One turn of the loop: \<open>Inr None\<close> is the jump to \<open>fail\<close>.\<close>

definition pop_step ::
  "prop_tables \<Rightarrow> u32 realloc_func \<Rightarrow> prop_op \<Rightarrow> CharRange list \<Rightarrow> CharRange list option res" where
  "pop_step T ra op stack =
     (if is_operand op then
        (if length stack \<ge> POP_STACK_LEN_MAX then Inl (Fail ''stack_len < POP_STACK_LEN_MAX'')
         else bnd (pop_make T (cr_init ra) op) (\<lambda>(r, cr).
                if r \<noteq> 0 then Inr None else Inr (Some (cr # stack))))
      else if op = POP_INVERT then
        (case stack of
           [] \<Rightarrow> Inl (Fail ''stack_len >= 1'')
         | cr # st \<Rightarrow> bnd (cr_invert cr) (\<lambda>(r, cr).
             if r \<noteq> 0 then Inr None else Inr (Some (cr # st))))
      else
        (case stack of
           cr2 # cr1 # st \<Rightarrow>
             if length stack \<ge> POP_STACK_LEN_MAX then Inl (Fail ''stack_len < POP_STACK_LEN_MAX'')
             else bnd (cr_op (cr_init ra) (pts cr1) (pts cr2) (pop_cr_op op)) (\<lambda>(r, cr3).
                    if r \<noteq> 0 then Inr None else Inr (Some (cr3 # st)))
         | _ \<Rightarrow> Inl (Fail ''stack_len >= 2'')))"

fun pop_run ::
  "prop_tables \<Rightarrow> u32 realloc_func \<Rightarrow> prop_op list \<Rightarrow> CharRange list \<Rightarrow> CharRange list option res" where
  "pop_run T ra [] stack = Inr (Some stack)"
| "pop_run T ra (op # ops) stack =
     bnd (pop_step T ra op stack) (\<lambda>r. case r of
       None \<Rightarrow> Inr None
     | Some stack \<Rightarrow> pop_run T ra ops stack)"

definition unicode_prop_ops :: "prop_tables \<Rightarrow> CharRange \<Rightarrow> prop_op list \<Rightarrow> cr_result" where
  "unicode_prop_ops T cr ops =
     bnd (pop_run T (cr_realloc_func cr) ops []) (\<lambda>r. case r of
       None \<Rightarrow> Inr (-1, cr)
     | Some [cr0] \<Rightarrow> cr_copy cr cr0
     | Some _ \<Rightarrow> Inl (Fail ''stack_len == 1''))"

section \<open>The named properties\<close>

text \<open>The program of each property that is computed from others.\<close>

abbreviation (input) gc_letters :: "nat list" where
  "gc_letters \<equiv> [UNICODE_GC_Lu, UNICODE_GC_Ll, UNICODE_GC_Lt, UNICODE_GC_Lm, UNICODE_GC_Lo, UNICODE_GC_Nl]"

definition prop_program :: "nat \<Rightarrow> prop_op list option" where
  "prop_program prop_idx =
    (if prop_idx = UNICODE_PROP_Assigned then
       Some [POP_GC (gc_M [UNICODE_GC_Cn]), POP_INVERT]
     else if prop_idx = UNICODE_PROP_Math then
       Some [POP_GC (gc_M [UNICODE_GC_Sm]), POP_PROP UNICODE_PROP_Other_Math, POP_UNION]
     else if prop_idx = UNICODE_PROP_Lowercase then
       Some [POP_GC (gc_M [UNICODE_GC_Ll]), POP_PROP UNICODE_PROP_Other_Lowercase, POP_UNION]
     else if prop_idx = UNICODE_PROP_Uppercase then
       Some [POP_GC (gc_M [UNICODE_GC_Lu]), POP_PROP UNICODE_PROP_Other_Uppercase, POP_UNION]
     else if prop_idx = UNICODE_PROP_Cased then
       Some [POP_GC (gc_M [UNICODE_GC_Lu, UNICODE_GC_Ll, UNICODE_GC_Lt]),
             POP_PROP UNICODE_PROP_Other_Uppercase, POP_UNION,
             POP_PROP UNICODE_PROP_Other_Lowercase, POP_UNION]
     else if prop_idx = UNICODE_PROP_Alphabetic then
       Some [POP_GC (gc_M gc_letters),
             POP_PROP UNICODE_PROP_Other_Uppercase, POP_UNION,
             POP_PROP UNICODE_PROP_Other_Lowercase, POP_UNION,
             POP_PROP UNICODE_PROP_Other_Alphabetic, POP_UNION]
     else if prop_idx = UNICODE_PROP_Grapheme_Base then
       Some [POP_GC (gc_M [UNICODE_GC_Cc, UNICODE_GC_Cf, UNICODE_GC_Cs, UNICODE_GC_Co, UNICODE_GC_Cn,
                UNICODE_GC_Zl, UNICODE_GC_Zp, UNICODE_GC_Me, UNICODE_GC_Mn]),
             POP_PROP UNICODE_PROP_Other_Grapheme_Extend, POP_UNION, POP_INVERT]
     else if prop_idx = UNICODE_PROP_Grapheme_Extend then
       Some [POP_GC (gc_M [UNICODE_GC_Me, UNICODE_GC_Mn]),
             POP_PROP UNICODE_PROP_Other_Grapheme_Extend, POP_UNION]
     else if prop_idx = UNICODE_PROP_XID_Start then
       Some [POP_GC (gc_M gc_letters),
             POP_PROP UNICODE_PROP_Other_ID_Start, POP_UNION,
             POP_PROP UNICODE_PROP_Pattern_Syntax,
             POP_PROP UNICODE_PROP_Pattern_White_Space, POP_UNION,
             POP_PROP UNICODE_PROP_XID_Start1, POP_UNION, POP_INVERT, POP_INTER]
     else if prop_idx = UNICODE_PROP_XID_Continue then
       Some [POP_GC (gc_M (gc_letters @ [UNICODE_GC_Mn, UNICODE_GC_Mc, UNICODE_GC_Nd, UNICODE_GC_Pc])),
             POP_PROP UNICODE_PROP_Other_ID_Start, POP_UNION,
             POP_PROP UNICODE_PROP_Other_ID_Continue, POP_UNION,
             POP_PROP UNICODE_PROP_Pattern_Syntax,
             POP_PROP UNICODE_PROP_Pattern_White_Space, POP_UNION,
             POP_PROP UNICODE_PROP_XID_Continue1, POP_UNION, POP_INVERT, POP_INTER]
     else if prop_idx = UNICODE_PROP_Changes_When_Titlecased then
       Some [POP_CASE CASE_U, POP_PROP UNICODE_PROP_Changes_When_Titlecased1, POP_XOR]
     else if prop_idx = UNICODE_PROP_Changes_When_Casefolded then
       Some [POP_CASE CASE_F, POP_PROP UNICODE_PROP_Changes_When_Casefolded1, POP_XOR]
     else if prop_idx = UNICODE_PROP_Changes_When_NFKC_Casefolded then
       Some [POP_CASE CASE_F, POP_PROP UNICODE_PROP_Changes_When_NFKC_Casefolded1, POP_XOR]
     else if prop_idx = UNICODE_PROP_ID_Continue then
       Some [POP_PROP UNICODE_PROP_ID_Start, POP_PROP UNICODE_PROP_ID_Continue1, POP_XOR]
     else None)"

definition unicode_prop_idx :: "prop_tables \<Rightarrow> CharRange \<Rightarrow> nat \<Rightarrow> cr_result" where
  "unicode_prop_idx T cr prop_idx =
     (case prop_program prop_idx of
        Some ops \<Rightarrow> unicode_prop_ops T cr ops
      | None \<Rightarrow>
          if prop_idx = UNICODE_PROP_ASCII then cr_add_interval cr 0 (0x7f + 1)
          else if prop_idx = UNICODE_PROP_Any then cr_add_interval cr 0 (0x10ffff + 1)
          else if prop_idx = UNICODE_PROP_Changes_When_Uppercased then unicode_case1 cr CASE_U
          else if prop_idx = UNICODE_PROP_Changes_When_Lowercased then unicode_case1 cr CASE_L
          else if prop_idx = UNICODE_PROP_Changes_When_Casemapped then
            unicode_case1 cr (CASE_U OR CASE_L OR CASE_F)
          else if prop_idx \<ge> length (unicode_prop_table T) then Inr (-2, cr)
          else unicode_prop1 T cr prop_idx)"

definition unicode_prop :: "prop_tables \<Rightarrow> CharRange \<Rightarrow> bytes \<Rightarrow> cr_result" where
  "unicode_prop T cr prop_name =
     bnd (unicode_find_name (unicode_prop_name_table T) prop_name) (\<lambda>i.
       if i < 0 then Inr (-2, cr) else unicode_prop_idx T cr (nat i + UNICODE_PROP_ASCII_Hex_Digit))"

section \<open>The stack machine computes set expressions\<close>

text \<open>
  The specification of a program: the set it denotes, over sets \<open>S op\<close> for its operands, by
  the same stack discipline; \<open>None\<close> when an operation finds too few arguments.
\<close>

fun set_step :: "(prop_op \<Rightarrow> u32 set) \<Rightarrow> prop_op \<Rightarrow> u32 set list \<Rightarrow> u32 set list option" where
  "set_step S POP_UNION (B # A # st) = Some ((A \<union> B) # st)"
| "set_step S POP_INTER (B # A # st) = Some ((A \<inter> B) # st)"
| "set_step S POP_XOR (B # A # st) = Some (((A - B) \<union> (B - A)) # st)"
| "set_step S POP_INVERT (A # st) = Some (({c. c < - 1} - A) # st)"
| "set_step S (POP_GC a) st = Some (S (POP_GC a) # st)"
| "set_step S (POP_PROP a) st = Some (S (POP_PROP a) # st)"
| "set_step S (POP_CASE a) st = Some (S (POP_CASE a) # st)"
| "set_step S _ st = None"

fun set_run :: "(prop_op \<Rightarrow> u32 set) \<Rightarrow> prop_op list \<Rightarrow> u32 set list \<Rightarrow> u32 set list option" where
  "set_run S [] st = Some st"
| "set_run S (op # ops) st = (case set_step S op st of None \<Rightarrow> None | Some st \<Rightarrow> set_run S ops st)"

text \<open>
  The depth of the stack alone: the program passes every \<open>assert\<close> from a stack of depth \<open>d\<close>
  and ends with one range.
\<close>

fun depth_ok :: "prop_op list \<Rightarrow> nat \<Rightarrow> bool" where
  "depth_ok [] d \<longleftrightarrow> d = 1"
| "depth_ok (op # ops) d \<longleftrightarrow>
     (if is_operand op then d < POP_STACK_LEN_MAX \<and> depth_ok ops (d + 1)
      else if op = POP_INVERT then 1 \<le> d \<and> depth_ok ops d
      else 2 \<le> d \<and> d < POP_STACK_LEN_MAX \<and> depth_ok ops (d - 1))"

definition range_for :: "u32 realloc_func \<Rightarrow> CharRange \<Rightarrow> u32 set \<Rightarrow> bool" where
  "range_for ra cr A \<longleftrightarrow> cr_ok cr \<and> cr_realloc_func cr = ra \<and> sorted (pts cr) \<and> even (length (pts cr)) \<and>
     cr_set cr = A"

text \<open>What an operand promises: a range for its set, or a failed allocation.\<close>

definition operand_ok :: "prop_tables \<Rightarrow> u32 realloc_func \<Rightarrow> (prop_op \<Rightarrow> u32 set) \<Rightarrow> prop_op \<Rightarrow> bool" where
  "operand_ok T ra S op \<longleftrightarrow>
     (\<exists>r cr. pop_make T (cr_init ra) op = Inr (r, cr) \<and> (r = 0 \<longrightarrow> range_for ra cr (S op)))"

lemma cr_init_ra [simp]: "cr_realloc_func (cr_init ra) = ra" "cr_len (cr_init ra) = 0"
  by (simp_all add: cr_init_def)

lemma cr_makes_range:
  "cr_makes cr A (r, cr') \<Longrightarrow> r = 0 \<Longrightarrow> cr_realloc_func cr = ra \<Longrightarrow> range_for ra cr' A"
  by (auto simp: cr_makes_def range_for_def cr_normal_def strict_sorted_imp)

context cr_alloc
begin

lemma pop_step_spec:
  assumes st: "list_all2 (range_for ra) stack As" and d: "depth_ok (op # ops) (length stack)"
    and leaf: "is_operand op \<Longrightarrow> operand_ok T ra S op"
  shows "\<exists>r. pop_step T ra op stack = Inr r \<and> (\<forall>stack'. r = Some stack' \<longrightarrow>
    (\<exists>As'. set_step S op As = Some As' \<and> list_all2 (range_for ra) stack' As' \<and>
      depth_ok ops (length stack')))"
proof (cases "is_operand op")
  case True
  then obtain r cr where "pop_make T (cr_init ra) op = Inr (r, cr)" "r = 0 \<longrightarrow> range_for ra cr (S op)"
    using leaf by (auto simp: operand_ok_def)
  with True st d show ?thesis
    by (cases op) (auto simp: pop_step_def)
next
  case f: False
  show ?thesis
  proof (cases "op = POP_INVERT")
    case True
    with d obtain cr st' where s: "stack = cr # st'" by (cases stack) auto
    with st obtain A As' where a: "As = A # As'" "range_for ra cr A" "list_all2 (range_for ra) st' As'"
      by (auto simp: list_all2_Cons1)
    obtain r cr' where i: "cr_invert cr = Inr (r, cr')" "cr_makes cr ({c. c < - 1} - A) (r, cr')"
      using a(2) cr_invert_spec [of cr] by (auto simp: range_for_def)
    have "r = 0 \<longrightarrow> range_for ra cr' ({c. c < - 1} - A)"
      using cr_makes_range [OF i(2), of ra] a(2) unfolding range_for_def by blast
    then show ?thesis using True s a i(1) d by (auto simp: pop_step_def)
  next
    case False
    with f d obtain cr2 cr1 st' where s: "stack = cr2 # cr1 # st'"
      by (cases stack rule: remdups_adj.cases) (auto split: if_splits)
    with st obtain B A As' where a: "As = B # A # As'" "range_for ra cr2 B" "range_for ra cr1 A"
      "list_all2 (range_for ra) st' As'"
      by (auto simp: list_all2_Cons1)
    let ?S = "{c. cr_is_in (pop_cr_op op) (in_points (pts cr1) c) (in_points (pts cr2) c)}"
    obtain r cr' where i: "cr_op (cr_init ra) (pts cr1) (pts cr2) (pop_cr_op op) = Inr (r, cr')"
      "cr_makes (cr_init ra) ?S (r, cr')"
      using a cr_op_spec [of "cr_init ra" "pts cr1" "pts cr2" "pop_cr_op op"] by (auto simp: range_for_def)
    have "set_step S op As = Some (?S # As')"
      using f False a by (cases op) (auto simp: cr_is_in_def range_for_def cr_set_def)
    moreover have "r = 0 \<longrightarrow> range_for ra cr' ?S" using cr_makes_range [OF i(2)] by simp
    ultimately show ?thesis using f False s a i(1) d by (auto simp: pop_step_def)
  qed
qed

lemma pop_run_spec:
  assumes "list_all2 (range_for ra) stack As" and "depth_ok ops (length stack)"
    and "\<forall>op \<in> set ops. is_operand op \<longrightarrow> operand_ok T ra S op"
  shows "\<exists>r. pop_run T ra ops stack = Inr r \<and> (\<forall>stack'. r = Some stack' \<longrightarrow>
    (\<exists>cr A. stack' = [cr] \<and> set_run S ops As = Some [A] \<and> range_for ra cr A))"
  using assms
proof (induction ops arbitrary: stack As)
  case Nil
  then show ?case by (auto simp: length_Suc_conv list_all2_Cons1)
next
  case (Cons op ops)
  from pop_step_spec [OF Cons.prems(1,2), of T S] Cons.prems(3)
  obtain r where r: "pop_step T ra op stack = Inr r" "\<forall>stack'. r = Some stack' \<longrightarrow>
      (\<exists>As'. set_step S op As = Some As' \<and> list_all2 (range_for ra) stack' As' \<and>
        depth_ok ops (length stack'))" by auto
  show ?case
  proof (cases r)
    case None
    then show ?thesis using r by simp
  next
    case (Some stack')
    with r obtain As' where s: "set_step S op As = Some As'" "list_all2 (range_for ra) stack' As'"
      "depth_ok ops (length stack')" by auto
    with Cons.IH [OF s(2,3)] Cons.prems(3) r(1) Some show ?thesis by auto
  qed
qed

lemma unicode_prop_ops_spec:
  assumes "cr_ok cr" and "cr_realloc_func cr = ra" and "depth_ok ops 0"
    and "\<forall>op \<in> set ops. is_operand op \<longrightarrow> operand_ok T ra S op"
  shows "\<exists>r cr'. unicode_prop_ops T cr ops = Inr (r, cr') \<and>
    (r = 0 \<and> (\<exists>A. set_run S ops [] = Some [A] \<and> range_for ra cr' A) \<or> r = -1)"
proof -
  obtain r where r: "pop_run T ra ops [] = Inr r" "\<forall>stack'. r = Some stack' \<longrightarrow>
      (\<exists>cr A. stack' = [cr] \<and> set_run S ops [] = Some [A] \<and> range_for ra cr A)"
    using pop_run_spec [of "[]" "[]" ops T S] assms(3,4) by auto
  show ?thesis
  proof (cases r)
    case None
    then show ?thesis using r assms(2) by (simp add: unicode_prop_ops_def)
  next
    case (Some stack')
    with r obtain cr0 A where s: "stack' = [cr0]" "set_run S ops [] = Some [A]" "range_for ra cr0 A"
      by auto
    obtain x cr' where "cr_copy cr cr0 = Inr (x, cr')" "cr_step cr (pts cr0) (x, cr')"
      using cr_copy_spec [OF assms(1), of cr0] assms(2) s(3) by (auto simp: range_for_def)
    then show ?thesis
      using s r(1) Some assms(2)
      by (auto simp: unicode_prop_ops_def range_for_def cr_step_def cr_set_def simp del: length_pts)
  qed
qed

end

lemma prop_programs_depth: "prop_program i = Some ops \<Longrightarrow> depth_ok ops 0"
  by (auto simp: prop_program_def POP_STACK_LEN_MAX_def split: if_splits)

section \<open>Operands read from a run-length table\<close>

text \<open>The boundaries in pairs: those of the runs inside the set.\<close>

definition even_points :: "u32 list \<Rightarrow> u32 list" where
  "even_points ps = take (length ps div 2 * 2) ps"

fun in_runs :: "bool \<Rightarrow> u32 \<Rightarrow> u32 list \<Rightarrow> u32 list" where
  "in_runs b c [] = []"
| "in_runs b c (p # ps) = (if b then [c, p] else []) @ in_runs (\<not> b) p ps"

lemma in_runs_even_points: "in_runs False c ps = even_points ps" "in_runs True c ps = even_points (c # ps)"
proof (induction ps arbitrary: c rule: induct_list012)
  case 1
  {
    case 1
    then show ?case by (simp add: even_points_def)
  next
    case 2
    then show ?case by (simp add: even_points_def)
  }
next
  case (2 x)
  {
    case 1
    then show ?case by (simp add: even_points_def)
  next
    case 2
    then show ?case by (simp add: even_points_def)
  }
next
  case (3 x y zs)
  {
    case 1
    then show ?case using 3 by (simp add: even_points_def)
  next
    case 2
    then show ?case using 3(3,4) by (simp add: even_points_def)
  }
qed

lemma in_runs_append:
  "in_runs b c (run_points c ls @ ps) =
   in_runs b c (run_points c ls) @ in_runs (b = even (length ls)) (run_end c ls) ps"
proof (induction ls arbitrary: b c)
  case (Cons l ls)
  then show ?case by (cases b) simp_all
qed simp

lemma sorted_run_points: "run_mono c ls \<Longrightarrow> sorted (run_points c ls)"
  by (induction ls arbitrary: c) (auto dest: run_points_bounds simp: less_imp_le)

lemma sorted_tab_points: "scan_check tab n p c b ms lim \<Longrightarrow> sorted (tab_points tab n p c)"
proof (induction tab n p c b ms lim rule: scan_check.induct)
  case (2 tab n p c b ms lim)
  show ?case
  proof (cases "p = length tab")
    case True
    then show ?thesis by (simp add: run_entry_def rd_def)
  next
    case False
    with "2.prems" obtain ls p' where e: "run_entry tab p = Inr (ls, p')" and m: "run_mono c ls"
      and s: "scan_check tab n p' (run_end c ls) (b = even (length ls))
        (if ms \<noteq> [] \<and> hd ms = (p', run_end c ls) \<and> b \<noteq> even (length ls) then tl ms else ms) lim"
      by (auto simp: Let_def split: sum.splits)
    have "\<forall>x \<in> set (run_points c ls). \<forall>y \<in> set (tab_points tab n p' (run_end c ls)). x \<le> y"
      using run_points_bounds [OF m] tab_points_above [OF s] by (meson less_imp_le order_trans)
    then show ?thesis
      using e sorted_run_points [OF m] "2.IH" [OF False e refl refl refl s] by (simp add: sorted_append)
  qed
qed simp

context cr_alloc
begin

text \<open>What a loop that appends intervals promises: the points are added, or memory ran out.\<close>

lemma prop_runs_spec:
  assumes "cr_ok cr" and "cr_realloc_func cr = ra"
  shows "\<exists>r cr'. prop_runs ls c b cr = Inr (r, cr') \<and> cr_ok cr' \<and> cr_realloc_func cr' = ra \<and>
    (r = 0 \<longrightarrow> pts cr' = pts cr @ in_runs b c (run_points c ls))"
  using assms
proof (induction ls c b cr rule: prop_runs.induct)
  case (2 l ls c b cr)
  show ?case
  proof (cases b)
    case False
    then show ?thesis using 2 by (auto simp: then_cr_def)
  next
    case True
    obtain r cr1 where a: "cr_add_interval cr c (c + l) = Inr (r, cr1)"
      and s: "cr_step cr (pts cr @ [c, c + l]) (r, cr1)"
      using cr_add_interval_spec [OF "2.prems", of c "c + l"] by auto
    show ?thesis
    proof (cases "r = 0")
      case False
      then show ?thesis using True a s "2.prems" by (auto simp: then_cr_def cr_step_def)
    next
      case r0: True
      then have "cr_ok cr1" "cr_realloc_func cr1 = ra" "pts cr1 = pts cr @ [c, c + l]"
        using s "2.prems" by (auto simp: cr_step_def)
      then show ?thesis using "2.IH" [of cr1] True a r0 by (auto simp: then_cr_def)
    qed
  qed
qed simp
lemma prop_loop_spec:
  assumes "scan_check tab n p c b ms lim" and "cr_ok cr" and "cr_realloc_func cr = ra"
  shows "\<exists>r cr'. prop_loop tab p c b cr = Inr (r, cr') \<and> cr_ok cr' \<and> cr_realloc_func cr' = ra \<and>
    (r = 0 \<longrightarrow> pts cr' = pts cr @ in_runs b c (tab_points tab n p c))"
  using assms
proof (induction tab n p c b ms lim arbitrary: cr rule: scan_check.induct)
  case (1 tab p c b ms lim)
  then show ?case by (simp add: prop_loop.simps [of tab "length tab"])
next
  case (2 tab n p c b ms lim)
  show ?case
  proof (cases "p = length tab")
    case True
    then show ?thesis
      using "2.prems" by (simp add: prop_loop.simps [of tab "length tab"] run_entry_def rd_def)
  next
    case False
    with "2.prems" obtain ls p' where e: "run_entry tab p = Inr (ls, p')" and m: "run_mono c ls"
      and s: "scan_check tab n p' (run_end c ls) (b = even (length ls))
        (if ms \<noteq> [] \<and> hd ms = (p', run_end c ls) \<and> b \<noteq> even (length ls) then tl ms else ms) lim"
      by (auto simp: Let_def split: sum.splits)
    obtain r cr1 where a: "prop_runs ls c b cr = Inr (r, cr1)" "cr_ok cr1" "cr_realloc_func cr1 = ra"
      "r = 0 \<longrightarrow> pts cr1 = pts cr @ in_runs b c (run_points c ls)"
      using prop_runs_spec [OF "2.prems"(2,3), of ls c b] by auto
    show ?thesis
      using "2.IH" [OF False e refl refl refl s a(2,3)] run_entry_advances [OF e] a e
      by (cases "r = 0") (auto simp: prop_loop.simps [of tab p] then_cr_def in_runs_append)
  qed
qed

lemma unicode_prop1_spec:
  assumes "i < length (unicode_prop_table T)" and t: "unicode_prop_table T ! i = tab"
    and "scan_check tab (length tab) 0 0 False [] 0"
  shows "operand_ok T ra (\<lambda>_. {c. in_points (even_points (table_points tab)) c}) (POP_PROP i)"
proof -
  obtain r cr where r: "prop_loop tab 0 0 False (cr_init ra) = Inr (r, cr)" "cr_ok cr"
    "cr_realloc_func cr = ra" "r = 0 \<longrightarrow> pts cr = even_points (table_points tab)"
    using prop_loop_spec [OF assms(3), of "cr_init ra"] in_runs_even_points(1)
    by (auto simp: table_points_def)
  have "sorted (even_points (table_points tab))"
    using sorted_tab_points [OF assms(3)] by (simp add: even_points_def table_points_def sorted_wrt_take)
  moreover have "length (table_points tab) div 2 * 2 \<le> length (table_points tab)" by simp
  then have "even (length (even_points (table_points tab)))"
    by (simp add: even_points_def min_absorb2)
  ultimately show ?thesis
    using r assms(1,2)
    by (auto simp: operand_ok_def pop_make_def unicode_prop1_def range_for_def cr_set_def simp del: length_pts)
qed

end

section \<open>Properties\<close>

text \<open>C26. Reading a run-length table into a range: for every table whose runs do not wrap around,
\<open>unicode_prop1\<close> stays inside the table and yields exactly the characters of the runs inside
the set, or reports that memory ran out.\<close>

theorem unicode_prop1_exact:
  assumes "i < length (unicode_prop_table T)" and "unicode_prop_table T ! i = tab"
    and "scan_check tab (length tab) 0 0 False [] 0"
  shows "\<exists>r cr. unicode_prop1 T (cr_init (lre_realloc lm lr m 4 junk)) i = Inr (r, cr) \<and>
    (r = 0 \<longrightarrow> cr_ok cr \<and> cr_set cr = {c. in_points (even_points (table_points tab)) c})"
  using lre_cr.unicode_prop1_spec [OF assms, of lm lr m junk]
  by (auto simp: operand_ok_def pop_make_def range_for_def)

definition small_tab :: bytes where
  "small_tab = [0x85, 0x83, 0x40, 0x10, 0x09]"

definition small_props :: prop_tables where
  "small_props = \<lparr>unicode_script_name_table = [0], unicode_script_table = [], unicode_script_ext_table = [],
     unicode_gc_name_table = [0], unicode_gc_table = [], unicode_prop_name_table = [0],
     unicode_prop_table = replicate 50 small_tab\<rparr>"

lemma small_tab_ok: "scan_check small_tab (length small_tab) 0 0 False [] 0"
proof -
  have "scan_ints (map uint small_tab) 0 0 False [] 0" by code_simp
  then show ?thesis by (intro scan_ints_check) simp_all
qed

lemma unicode_prop1_exact_witness:
  "\<exists>r cr. unicode_prop1 small_props (cr_init (lre_realloc plain_malloc plain_realloc chip_memory 4 0)) 3 =
      Inr (r, cr) \<and>
    (r = 0 \<longrightarrow> cr_ok cr \<and> cr_set cr = {c. in_points (even_points (table_points small_tab)) c})"
  by (rule unicode_prop1_exact [OF _ _ small_tab_ok]) (simp_all add: small_props_def)



end
