(* ===== verification/ReOps.thy ===== *)
theory ReOps
  imports UniProp Utf8 DynBuf
begin

text \<open>
  The regular expression compiler of \<open>libregexp.c\<close>, first part: opcodes, the state of the
  parser, emission of bytecode, numbers, escapes, character classes.

  The pattern is the byte list \<open>re_buf\<close>; a pointer into it is an index, and reading outside
  it is \<open>Undef\<close>. A parse error, which the code reports by a message in \<open>u.error_msg\<close> and the
  return code -1, is the value \<open>Inl (Fail message)\<close>; -1 without a message is \<open>Inl NoMem\<close> or
  \<open>Inl (Fail '''')\<close>. What the parser does not do itself is collected in \<open>re_env\<close>: the
  allocator, as \<open>lre_realloc\<close> on bytes and on points, and the generated property tables.
\<close>

section \<open>Opcodes\<close>

definition REOP_char :: u8 where "REOP_char = 1"
definition REOP_char32 :: u8 where "REOP_char32 = 2"
definition REOP_dot :: u8 where "REOP_dot = 3"
definition REOP_any :: u8 where "REOP_any = 4"
definition REOP_line_start :: u8 where "REOP_line_start = 5"
definition REOP_line_end :: u8 where "REOP_line_end = 6"
definition REOP_goto :: u8 where "REOP_goto = 7"
definition REOP_split_goto_first :: u8 where "REOP_split_goto_first = 8"
definition REOP_split_next_first :: u8 where "REOP_split_next_first = 9"
definition REOP_match :: u8 where "REOP_match = 10"
definition REOP_save_start :: u8 where "REOP_save_start = 11"
definition REOP_save_end :: u8 where "REOP_save_end = 12"
definition REOP_save_reset :: u8 where "REOP_save_reset = 13"
definition REOP_loop :: u8 where "REOP_loop = 14"
definition REOP_push_i32 :: u8 where "REOP_push_i32 = 15"
definition REOP_drop :: u8 where "REOP_drop = 16"
definition REOP_word_boundary :: u8 where "REOP_word_boundary = 17"
definition REOP_not_word_boundary :: u8 where "REOP_not_word_boundary = 18"
definition REOP_back_reference :: u8 where "REOP_back_reference = 19"
definition REOP_backward_back_reference :: u8 where "REOP_backward_back_reference = 20"
definition REOP_range :: u8 where "REOP_range = 21"
definition REOP_range32 :: u8 where "REOP_range32 = 22"
definition REOP_lookahead :: u8 where "REOP_lookahead = 23"
definition REOP_negative_lookahead :: u8 where "REOP_negative_lookahead = 24"
definition REOP_push_char_pos :: u8 where "REOP_push_char_pos = 25"
definition REOP_bne_char_pos :: u8 where "REOP_bne_char_pos = 26"
definition REOP_prev :: u8 where "REOP_prev = 27"
definition REOP_simple_greedy_quant :: u8 where "REOP_simple_greedy_quant = 28"

lemmas reops = REOP_char_def REOP_char32_def REOP_dot_def 
  REOP_any_def REOP_line_start_def REOP_line_end_def 
  REOP_goto_def REOP_split_goto_first_def REOP_split_next_first_def 
  REOP_match_def REOP_save_start_def REOP_save_end_def 
  REOP_save_reset_def REOP_loop_def REOP_push_i32_def 
  REOP_drop_def REOP_word_boundary_def REOP_not_word_boundary_def 
  REOP_back_reference_def REOP_backward_back_reference_def REOP_range_def 
  REOP_range32_def REOP_lookahead_def REOP_negative_lookahead_def 
  REOP_push_char_pos_def REOP_bne_char_pos_def REOP_prev_def 
  REOP_simple_greedy_quant_def

definition REOP_COUNT :: nat where
  "REOP_COUNT = 29"

text \<open>\<open>reopcode_info[].size\<close>\<close>

definition reopcode_size :: "nat list" where
  "reopcode_size = [1, 3, 5, 1, 1, 1, 1, 5, 5, 5, 1, 2, 2, 3, 5, 5, 1, 1, 1, 2, 2, 3, 3, 5, 5, 1, 5, 1, 17]"

definition op_size :: "u8 \<Rightarrow> nat res" where
  "op_size opcode = rd reopcode_size (unat opcode)"

definition CAPTURE_COUNT_MAX :: nat where "CAPTURE_COUNT_MAX = 255"
definition STACK_SIZE_MAX :: nat where "STACK_SIZE_MAX = 255"
definition TMP_BUF_SIZE :: nat where "TMP_BUF_SIZE = 128"
definition CLASS_RANGE_BASE :: u32 where "CLASS_RANGE_BASE = 0x40000000"
definition INT32_MAX :: nat where "INT32_MAX = 2147483647"

definition RE_HEADER_FLAGS :: nat where "RE_HEADER_FLAGS = 0"
definition RE_HEADER_CAPTURE_COUNT :: nat where "RE_HEADER_CAPTURE_COUNT = 1"
definition RE_HEADER_STACK_SIZE :: nat where "RE_HEADER_STACK_SIZE = 2"
definition RE_HEADER_LEN :: nat where "RE_HEADER_LEN = 7"

definition LRE_FLAG_IGNORECASE :: u8 where "LRE_FLAG_IGNORECASE = 2"
definition LRE_FLAG_MULTILINE :: u8 where "LRE_FLAG_MULTILINE = 4"
definition LRE_FLAG_DOTALL :: u8 where "LRE_FLAG_DOTALL = 8"
definition LRE_FLAG_UTF16 :: u8 where "LRE_FLAG_UTF16 = 16"
definition LRE_FLAG_STICKY :: u8 where "LRE_FLAG_STICKY = 32"
definition LRE_FLAG_NAMED_GROUPS :: u8 where "LRE_FLAG_NAMED_GROUPS = 128"

section \<open>The parser state\<close>

record re_env =
  env_realloc8 :: "u8 realloc_func"
  env_realloc32 :: "u32 realloc_func"
  env_props :: prop_tables

record REParseState =
  byte_code :: DynBuf
  re_buf :: bytes
  buf_ptr :: nat
  buf_end :: nat
  is_utf16 :: bool
  ignore_case :: bool
  dotall :: bool
  capture_count :: nat
  total_capture_count :: int
  has_named_captures :: int
  group_names :: DynBuf

definition is_digit :: "u8 \<Rightarrow> bool" where
  "is_digit c \<longleftrightarrow> ch CHR ''0'' \<le> c \<and> c \<le> ch CHR ''9''"

section \<open>Emission\<close>

text \<open>
  The return code of an append is not looked at: a failed append sets the sticky error flag
  of the buffer.
\<close>

definition re_put :: "REParseState \<Rightarrow> bytes \<Rightarrow> REParseState res" where
  "re_put s bs = bnd (dbuf_put (byte_code s) bs) (\<lambda>(_, b). Inr (s\<lparr>byte_code := b\<rparr>))"

definition re_emit_op :: "REParseState \<Rightarrow> u8 \<Rightarrow> REParseState res" where
  "re_emit_op s op = re_put s [op]"

text \<open>Returns the offset of the 32 bit value.\<close>

definition re_emit_op_u32 :: "REParseState \<Rightarrow> u8 \<Rightarrow> u32 \<Rightarrow> (nat \<times> REParseState) res" where
  "re_emit_op_u32 s op val =
     bnd (re_put s [op]) (\<lambda>s. let pos = dsize (byte_code s) in
       bnd (re_put s (le32 val)) (\<lambda>s. Inr (pos, s)))"

definition re_emit_goto :: "REParseState \<Rightarrow> u8 \<Rightarrow> u32 \<Rightarrow> (nat \<times> REParseState) res" where
  "re_emit_goto s op val =
     bnd (re_put s [op]) (\<lambda>s. let pos = dsize (byte_code s) in
       bnd (re_put s (le32 (val - of_nat (pos + 4)))) (\<lambda>s. Inr (pos, s)))"

definition re_emit_op_u8 :: "REParseState \<Rightarrow> u8 \<Rightarrow> u32 \<Rightarrow> REParseState res" where
  "re_emit_op_u8 s op val = bnd (re_put s [op]) (\<lambda>s. re_put s [ucast val])"

definition re_emit_op_u16 :: "REParseState \<Rightarrow> u8 \<Rightarrow> u32 \<Rightarrow> REParseState res" where
  "re_emit_op_u16 s op val = bnd (re_put s [op]) (\<lambda>s. re_put s (le16 (ucast val)))"

text \<open>\<open>put_u32(s->byte_code.buf + pos, val)\<close> and the store of one byte.\<close>

definition re_patch32 :: "REParseState \<Rightarrow> nat \<Rightarrow> u32 \<Rightarrow> REParseState res" where
  "re_patch32 s pos val =
     bnd (put_u32 (buf (byte_code s)) pos val) (\<lambda>b. Inr (s\<lparr>byte_code := (byte_code s)\<lparr>buf := b\<rparr>\<rparr>))"

definition re_patch8 :: "REParseState \<Rightarrow> nat \<Rightarrow> u8 \<Rightarrow> REParseState res" where
  "re_patch8 s pos val =
     bnd (wr (buf (byte_code s)) pos val) (\<lambda>b. Inr (s\<lparr>byte_code := (byte_code s)\<lparr>buf := b\<rparr>\<rparr>))"

definition re_insert :: "REParseState \<Rightarrow> nat \<Rightarrow> nat \<Rightarrow> REParseState res" where
  "re_insert s pos len =
     bnd (dbuf_insert (byte_code s) pos len) (\<lambda>(r, b).
       if r \<noteq> 0 then Inl (Fail ''out of memory'') else Inr (s\<lparr>byte_code := b\<rparr>))"

definition re_check_error :: "REParseState \<Rightarrow> unit res" where
  "re_check_error s = (if dbuf_error (byte_code s) then Inl (Fail ''out of memory'') else Inr ())"

section \<open>Numbers\<close>

text \<open>
  A decimal number. The accumulator has 64 bits and is held at \<open>INT32_MAX\<close> on overflow;
  without \<open>allow_overflow\<close> the overflow is -1, and the position stays.
\<close>

function digits_loop :: "bytes \<Rightarrow> bool \<Rightarrow> nat \<Rightarrow> nat \<Rightarrow> (nat option \<times> nat) res" where
  "digits_loop b allow_overflow p v =
     bnd (rd b p) (\<lambda>c.
       if \<not> is_digit c then Inr (Some v, p)
       else
         (let v = v * 10 + unat (c - ch CHR ''0'') in
          if v \<ge> INT32_MAX
          then (if allow_overflow then digits_loop b allow_overflow (p + 1) INT32_MAX else Inr (None, p))
          else digits_loop b allow_overflow (p + 1) v))"
  by pat_completeness auto
termination
  by (relation "measure (\<lambda>(b, a, p, v). length b - p)") (auto simp: rd_eq_Inr)

declare digits_loop.simps [simp del]

definition parse_digits :: "bytes \<Rightarrow> nat \<Rightarrow> bool \<Rightarrow> (nat option \<times> nat) res" where
  "parse_digits b p allow_overflow =
     bnd (digits_loop b allow_overflow p 0) (\<lambda>(v, p').
       Inr (v, if v = None then p else p'))"

definition re_parse_expect :: "bytes \<Rightarrow> nat \<Rightarrow> char \<Rightarrow> nat res" where
  "re_parse_expect b p c =
     bnd (rd b p) (\<lambda>x. if x \<noteq> ch c then Inl (Fail (''expecting '' @ [c])) else Inr (p + 1))"

section \<open>Escapes\<close>

text \<open>\<open>from_hex\<close> of the next \<open>n\<close> bytes, four bits each; \<open>None\<close> at a byte that is no digit.\<close>

fun hex_digits :: "bytes \<Rightarrow> nat \<Rightarrow> nat \<Rightarrow> u32 \<Rightarrow> u32 option res" where
  "hex_digits b p 0 c = Inr (Some c)"
| "hex_digits b p (Suc n) c =
     bnd (rd b p) (\<lambda>x. case from_hex x of
       None \<Rightarrow> Inr None
     | Some h \<Rightarrow> hex_digits b (p + 1) n (push_bit 4 c OR h))"

text \<open>The digits of \<open>\u{...}\<close>, from \<open>p\<close> on.\<close>

function hex_braces :: "bytes \<Rightarrow> nat \<Rightarrow> u32 \<Rightarrow> (u32 \<times> nat) option res" where
  "hex_braces b p c =
     bnd (rd b p) (\<lambda>x. case from_hex x of
       None \<Rightarrow> Inr None
     | Some h \<Rightarrow>
         (let c = push_bit 4 c OR h in
          if c > 0x10FFFF then Inr None
          else bnd (rd b (p + 1)) (\<lambda>y.
            if y = ch CHR ''}'' then Inr (Some (c, p + 2)) else hex_braces b (p + 1) c)))"
  by pat_completeness auto
termination
  by (relation "measure (\<lambda>(b, p, c). length b - p)") (auto simp: rd_eq_Inr)

declare hex_braces.simps [simp del]

datatype escape = EChar u32 nat | EMalformed | ENone

text \<open>After \<open>\x\<close> or \<open>\u\<close>, \<open>c0\<close>; \<open>allow_utf16\<close> as below.\<close>

definition escape_hex :: "bytes \<Rightarrow> nat \<Rightarrow> u8 \<Rightarrow> nat \<Rightarrow> escape res" where
  "escape_hex b p c0 allow_utf16 =
     bnd (rd b p) (\<lambda>x.
       if x = ch CHR ''{'' \<and> allow_utf16 \<noteq> 0 then
         bnd (hex_braces b (p + 1) 0) (\<lambda>r. case r of
           None \<Rightarrow> Inr EMalformed | Some (c, p) \<Rightarrow> Inr (EChar c p))
       else
         (let n = (if c0 = ch CHR ''x'' then 2 else 4) in
          bnd (hex_digits b p n 0) (\<lambda>r. case r of
            None \<Rightarrow> Inr EMalformed
          | Some c \<Rightarrow>
              let p = p + n in
              if 0xd800 \<le> c \<and> c < 0xdc00 \<and> allow_utf16 = 2 then
                bnd (rd b p) (\<lambda>x0.
                if x0 \<noteq> 0x5c then Inr (EChar c p)
                else bnd (rd b (p + 1)) (\<lambda>x1.
                if x1 \<noteq> ch CHR ''u'' then Inr (EChar c p)
                else bnd (hex_digits b (p + 2) 4 0) (\<lambda>r. case r of
                  None \<Rightarrow> Inr (EChar c p)
                | Some c1 \<Rightarrow>
                    if 0xdc00 \<le> c1 \<and> c1 < 0xe000
                    then Inr (EChar ((push_bit 10 (c AND 0x3ff) OR (c1 AND 0x3ff)) + 0x10000) (p + 6))
                    else Inr (EChar c p))))
              else Inr (EChar c p))))"

text \<open>A legacy octal sequence of up to three digits that stays below 256.\<close>

definition escape_octal :: "bytes \<Rightarrow> nat \<Rightarrow> u32 \<Rightarrow> nat \<Rightarrow> escape res" where
  "escape_octal b p c allow_utf16 =
     bnd (rd b p) (\<lambda>x.
       if allow_utf16 = 2 then
         (if c \<noteq> 0 \<or> is_digit x then Inr EMalformed else Inr (EChar c p))
       else
         (let v = ucast x - ch CHR ''0'' in
          if v > 7 then Inr (EChar c p)
          else
            (let c = push_bit 3 c OR v; p = p + 1 in
             if c \<ge> 32 then Inr (EChar c p)
             else bnd (rd b p) (\<lambda>x. let v = ucast x - ch CHR ''0'' in
               if v > 7 then Inr (EChar c p) else Inr (EChar (push_bit 3 c OR v) (p + 1))))))"

text \<open>
  \<open>p\<close> is after the backslash. \<open>allow_utf16\<close> is 0 (no UTF-16 escapes), 1 (allowed), 2 (and
  surrogate pairs are joined). \<open>EChar\<close>: the character and the position after it;
  \<open>EMalformed\<close> is -1, \<open>ENone\<close> -2.
\<close>

definition lre_parse_escape :: "bytes \<Rightarrow> nat \<Rightarrow> nat \<Rightarrow> escape res" where
  "lre_parse_escape b p allow_utf16 =
     bnd (rd b p) (\<lambda>c. let p = p + 1 in
       if c = ch CHR ''b'' then Inr (EChar 8 p)
       else if c = ch CHR ''f'' then Inr (EChar 12 p)
       else if c = ch CHR ''n'' then Inr (EChar 10 p)
       else if c = ch CHR ''r'' then Inr (EChar 13 p)
       else if c = ch CHR ''t'' then Inr (EChar 9 p)
       else if c = ch CHR ''v'' then Inr (EChar 11 p)
       else if c = ch CHR ''x'' \<or> c = ch CHR ''u'' then escape_hex b p c allow_utf16
       else if ch CHR ''0'' \<le> c \<and> c \<le> ch CHR ''7'' then
         escape_octal b p (ucast c - ch CHR ''0'') allow_utf16
       else Inr ENone)"

section \<open>Character classes\<close>

definition lre_canonicalize :: "u32 \<Rightarrow> bool \<Rightarrow> u32 res" where
  "lre_canonicalize c utf16 =
     (if utf16 then
        (if c < 128 then Inr (if 0x41 \<le> c \<and> c \<le> 0x5a then c - 0x41 + 0x61 else c)
         else bnd (lre_case_conv c 2) (\<lambda>res. rd res 0))
      else
        (if c < 128 then Inr (if 0x61 \<le> c \<and> c \<le> 0x7a then c - 0x61 + 0x41 else c)
         else bnd (lre_case_conv c 0) (\<lambda>res. bnd (rd res 0) (\<lambda>r0.
                Inr (if length res = 1 \<and> r0 \<ge> 128 then r0 else c)))))"

text \<open>The tables without their first element, the number of ranges.\<close>

definition char_range_d :: "u32 list" where
  "char_range_d = [0x30, 0x3a]"

definition char_range_s :: "u32 list" where
  "char_range_s = [0x0009, 0x000E, 0x0020, 0x0021, 0x00A0, 0x00A1, 0x1680, 0x1681, 0x2000, 0x200B,
     0x2028, 0x202A, 0x202F, 0x2030, 0x205F, 0x2060, 0x3000, 0x3001, 0xFEFF, 0xFF00]"

definition char_range_w :: "u32 list" where
  "char_range_w = [0x30, 0x3a, 0x41, 0x5b, 0x5f, 0x60, 0x61, 0x7b]"

fun is_space_loop :: "u32 list \<Rightarrow> u32 \<Rightarrow> bool" where
  "is_space_loop (low # high # ps) c = (if c < low then False else if c < high then True else is_space_loop ps c)"
| "is_space_loop _ c = False"

definition lre_is_space :: "u32 \<Rightarrow> bool" where
  "lre_is_space c = is_space_loop char_range_s c"

definition lre_id_start_table_ascii :: "u32 list" where
  "lre_id_start_table_ascii = [0x00000000, 0x00000010, 0x87FFFFFE, 0x07FFFFFE]"

definition lre_id_continue_table_ascii :: "u32 list" where
  "lre_id_continue_table_ascii = [0x00000000, 0x03FF0010, 0x87FFFFFE, 0x07FFFFFE]"

definition lre_js_is_ident_first :: "u32 \<Rightarrow> bool res" where
  "lre_js_is_ident_first c =
     (if c < 128
      then bnd (rd lre_id_start_table_ascii (unat (drop_bit 5 c))) (\<lambda>w. Inr (drop_bit (unat (c AND 31)) w AND 1 \<noteq> 0))
      else lre_is_id_start c)"

definition lre_js_is_ident_next :: "u32 \<Rightarrow> bool res" where
  "lre_js_is_ident_next c =
     (if c < 128
      then bnd (rd lre_id_continue_table_ascii (unat (drop_bit 5 c))) (\<lambda>w. Inr (drop_bit (unat (c AND 31)) w AND 1 \<noteq> 0))
      else bnd (lre_is_id_continue c) (\<lambda>r. Inr (r \<or> c = 0x200C \<or> c = 0x200D)))"

datatype CharRangeEnum = CHAR_RANGE_d | CHAR_RANGE_D | CHAR_RANGE_s | CHAR_RANGE_S
  | CHAR_RANGE_w | CHAR_RANGE_W

definition char_range_table :: "CharRangeEnum \<Rightarrow> u32 list \<times> bool" where
  "char_range_table c =
     (case c of
        CHAR_RANGE_d \<Rightarrow> (char_range_d, False) | CHAR_RANGE_D \<Rightarrow> (char_range_d, True)
      | CHAR_RANGE_s \<Rightarrow> (char_range_s, False) | CHAR_RANGE_S \<Rightarrow> (char_range_s, True)
      | CHAR_RANGE_w \<Rightarrow> (char_range_w, False) | CHAR_RANGE_W \<Rightarrow> (char_range_w, True))"

fun add_points :: "u32 list \<Rightarrow> CharRange \<Rightarrow> cr_result" where
  "add_points [] cr = Inr (0, cr)"
| "add_points (x # xs) cr = then_cr (cr_add_point cr x) (add_points xs)"

definition cr_init_char_range :: "re_env \<Rightarrow> CharRangeEnum \<Rightarrow> cr_result" where
  "cr_init_char_range E c =
     (let (c_pt, invert) = char_range_table c in
      then_cr (add_points c_pt (cr_init (env_realloc32 E))) (\<lambda>cr.
        if invert then then_cr (cr_invert cr) (\<lambda>cr. Inr (0, cr)) else Inr (0, cr)))"

definition cr_canonicalize :: "re_env \<Rightarrow> CharRange \<Rightarrow> cr_result" where
  "cr_canonicalize E cr =
     bnd (cr_op (cr_init (env_realloc32 E)) (pts cr) [ch CHR ''a'', ch CHR ''z'' + 1] CR_OP_INTER) (\<lambda>(r, a).
       if r \<noteq> 0 then Inr (r, cr)
       else cr_union1 cr (map (\<lambda>p. p + (ch CHR ''A'' - ch CHR ''a'')) (pts a)))"

subsection \<open>Unicode properties\<close>

definition is_unicode_char :: "u8 \<Rightarrow> bool" where
  "is_unicode_char c \<longleftrightarrow>
     (ch CHR ''0'' \<le> c \<and> c \<le> ch CHR ''9'') \<or> (ch CHR ''A'' \<le> c \<and> c \<le> ch CHR ''Z'') \<or>
     (ch CHR ''a'' \<le> c \<and> c \<le> ch CHR ''z'') \<or> c = ch CHR ''_''"

text \<open>The characters of a name, at most \<open>room\<close> of them; \<open>None\<close> when there are more.\<close>

fun take_name :: "bytes \<Rightarrow> nat \<Rightarrow> nat \<Rightarrow> bytes \<Rightarrow> (bytes \<times> nat) option res" where
  "take_name b p 0 acc =
     bnd (rd b p) (\<lambda>c. if is_unicode_char c then Inr None else Inr (Some (acc, p)))"
| "take_name b p (Suc room) acc =
     bnd (rd b p) (\<lambda>c. if is_unicode_char c then take_name b (p + 1) room (acc @ [c])
                       else Inr (Some (acc, p)))"

abbreviation (input) str :: "string \<Rightarrow> bytes" where
  "str cs \<equiv> map of_char cs"

text \<open>The range of a property name and value, still to be inverted.\<close>

definition property_range :: "re_env \<Rightarrow> bytes \<Rightarrow> bytes \<Rightarrow> CharRange res" where
  "property_range E name val =
     (let cr = cr_init (env_realloc32 E); T = env_props E in
      if name = str ''Script'' \<or> name = str ''sc'' \<or> name = str ''Script_Extensions'' \<or> name = str ''scx'' then
        bnd (unicode_script T cr (val @ [0]) (name = str ''Script_Extensions'' \<or> name = str ''scx'')) (\<lambda>(r, cr).
          if r = 0 then Inr cr
          else if r = -2 then Inl (Fail ''unknown unicode script'')
          else Inl (Fail ''out of memory''))
      else if name = str ''General_Category'' \<or> name = str ''gc'' then
        bnd (unicode_general_category T cr (val @ [0])) (\<lambda>(r, cr).
          if r = 0 then Inr cr
          else if r = -2 then Inl (Fail ''unknown unicode general category'')
          else Inl (Fail ''out of memory''))
      else if val = [] then
        bnd (unicode_general_category T cr (name @ [0])) (\<lambda>(r, cr).
          if r = -1 then Inl (Fail ''out of memory'')
          else if r < 0 then
            bnd (unicode_prop T cr (name @ [0])) (\<lambda>(r, cr).
              if r = 0 then Inr cr
              else if r = -2 then Inl (Fail ''unknown unicode property name'')
              else Inl (Fail ''out of memory''))
          else Inr cr)
      else Inl (Fail ''unknown unicode property name''))"

definition parse_unicode_property :: "re_env \<Rightarrow> bytes \<Rightarrow> nat \<Rightarrow> bool \<Rightarrow> (CharRange \<times> nat) res" where
  "parse_unicode_property E b p is_inv =
     bnd (rd b p) (\<lambda>c.
       if c \<noteq> ch CHR ''{'' then Inl (Fail ''expecting { after p'')
       else bnd (take_name b (p + 1) 63 []) (\<lambda>r. case r of
         None \<Rightarrow> Inl (Fail ''unknown unicode property name'')
       | Some (name, p) \<Rightarrow>
           bnd (rd b p) (\<lambda>c.
           bnd (if c = ch CHR ''=''
                then bnd (take_name b (p + 1) 63 []) (\<lambda>r. case r of
                       None \<Rightarrow> Inl (Fail ''unknown unicode property value'')
                     | Some (val, p) \<Rightarrow> Inr (val, p))
                else Inr ([], p)) (\<lambda>(val, p).
           bnd (rd b p) (\<lambda>c.
             if c \<noteq> ch CHR ''}'' then Inl (Fail ''expecting }'')
             else bnd (property_range E name val) (\<lambda>cr.
               bnd (if is_inv then cr_invert cr else Inr (0, cr)) (\<lambda>(r, cr).
                 if r \<noteq> 0 then Inl NoMem else Inr (cr, p + 1))))))))"

subsection \<open>Atoms\<close>

text \<open>A character, or (the value \<open>CLASS_RANGE_BASE\<close> of the code) a class with its range.\<close>

datatype class_atom = Atom_char u32 | Atom_range CharRange

text \<open>
  \<open>normal_char\<close>: one character at \<open>p\<close>, whose first byte is \<open>c\<close>. A malformed sequence is -1;
  a code from \<open>CLASS_RANGE_BASE\<close> on (a six byte sequence) would be taken for a class range
  that was never initialised.
\<close>

definition normal_char :: "REParseState \<Rightarrow> nat \<Rightarrow> u8 \<Rightarrow> (class_atom \<times> nat) res" where
  "normal_char s p c =
     (if c \<ge> 128 then
        bnd (unicode_from_utf8 (re_buf s) p (int UTF8_CHAR_LEN_MAX)) (\<lambda>r. case r of
          None \<Rightarrow> Inl (Fail (if is_utf16 s then '''' else ''malformed unicode char''))
        | Some (c, p) \<Rightarrow>
            if c > 0xffff \<and> \<not> is_utf16 s then Inl (Fail ''malformed unicode char'')
            else if c \<ge> CLASS_RANGE_BASE then Inl Undef
            else Inr (Atom_char c, p))
      else Inr (Atom_char (ucast c), p + 1))"

definition class_escape :: "u8 \<Rightarrow> CharRangeEnum option" where
  "class_escape c =
     (if c = ch CHR ''d'' then Some CHAR_RANGE_d else if c = ch CHR ''D'' then Some CHAR_RANGE_D
      else if c = ch CHR ''s'' then Some CHAR_RANGE_s else if c = ch CHR ''S'' then Some CHAR_RANGE_S
      else if c = ch CHR ''w'' then Some CHAR_RANGE_w else if c = ch CHR ''W'' then Some CHAR_RANGE_W
      else None)"

text \<open>\<open>strchr("^$\.*+?()[]{}|/", c)\<close>: the characters that may always be escaped.\<close>

definition is_syntax_char :: "u8 \<Rightarrow> bool" where
  "is_syntax_char c \<longleftrightarrow> c = 0x5c \<or> c \<in> set (str ''^$.*+?()[]{}|/'')"

text \<open>\<open>p\<close> is after the backslash and \<open>c\<close> the byte there.\<close>

definition atom_escape :: "re_env \<Rightarrow> REParseState \<Rightarrow> nat \<Rightarrow> u8 \<Rightarrow> bool \<Rightarrow> (class_atom \<times> nat) res" where
  "atom_escape E s p c inclass =
     (case class_escape c of
        Some k \<Rightarrow> bnd (cr_init_char_range E k) (\<lambda>(r, cr).
          if r \<noteq> 0 then Inl NoMem else Inr (Atom_range cr, p + 1))
      | None \<Rightarrow>
        if c = ch CHR ''c'' then
          bnd (rd (re_buf s) (p + 1)) (\<lambda>x.
            if (ch CHR ''a'' \<le> x \<and> x \<le> ch CHR ''z'') \<or> (ch CHR ''A'' \<le> x \<and> x \<le> ch CHR ''Z'') \<or>
               ((is_digit x \<or> x = ch CHR ''_'') \<and> inclass \<and> \<not> is_utf16 s)
            then Inr (Atom_char (ucast x AND 0x1f), p + 2)
            else if is_utf16 s then Inl (Fail ''invalid escape sequence in regular expression'')
            else Inr (Atom_char 0x5c, p))
        else if (c = ch CHR ''p'' \<or> c = ch CHR ''P'') \<and> is_utf16 s then
          bnd (parse_unicode_property E (re_buf s) (p + 1) (c = ch CHR ''P'')) (\<lambda>(cr, p).
            Inr (Atom_range cr, p))
        else
          bnd (lre_parse_escape (re_buf s) p (if is_utf16 s then 2 else 0)) (\<lambda>r.
            case r of
              EChar c p \<Rightarrow> Inr (Atom_char c, p)
            | ENone \<Rightarrow>
                if c \<noteq> 0 \<and> is_syntax_char c \<or> \<not> is_utf16 s then normal_char s p c
                else Inl (Fail ''invalid escape sequence in regular expression'')
            | EMalformed \<Rightarrow>
                if is_utf16 s then Inl (Fail ''invalid escape sequence in regular expression'')
                else normal_char s p c))"

definition get_class_atom :: "re_env \<Rightarrow> REParseState \<Rightarrow> nat \<Rightarrow> bool \<Rightarrow> (class_atom \<times> nat) res" where
  "get_class_atom E s p inclass =
     bnd (rd (re_buf s) p) (\<lambda>c.
       if c = 0x5c then
         (if p + 1 \<ge> buf_end s then Inl (Fail ''unexpected end'')
          else bnd (rd (re_buf s) (p + 1)) (\<lambda>c. atom_escape E s (p + 1) c inclass))
       else if c = 0 \<and> p \<ge> buf_end s then Inl (Fail ''unexpected end'')
       else normal_char s p c)"

section \<open>Ranges in the bytecode\<close>

text \<open>The points in pairs; the high end is stored inclusively.\<close>

fun put_range16 :: "REParseState \<Rightarrow> u32 list \<Rightarrow> REParseState res" where
  "put_range16 s (lo # hi # ps) =
     bnd (re_put s (le16 (ucast lo))) (\<lambda>s.
       let high = (if hi - 1 = - 2 then 0xffff else hi - 1) in
       bnd (re_put s (le16 (ucast high))) (\<lambda>s. put_range16 s ps))"
| "put_range16 s _ = Inr s"

fun put_range32 :: "REParseState \<Rightarrow> u32 list \<Rightarrow> REParseState res" where
  "put_range32 s (lo # hi # ps) =
     bnd (re_put s (le32 lo)) (\<lambda>s. bnd (re_put s (le32 (hi - 1))) (\<lambda>s. put_range32 s ps))"
| "put_range32 s _ = Inr s"

definition re_emit_range :: "REParseState \<Rightarrow> CharRange \<Rightarrow> REParseState res" where
  "re_emit_range s cr =
     (let len = cr_len cr div 2 in
      if len \<ge> 65535 then Inl (Fail ''too many ranges'')
      else if len = 0 then bnd (re_emit_op_u32 s REOP_char32 (- 1)) (\<lambda>(_, s). Inr s)
      else bnd (rd (points cr) (cr_len cr - 1)) (\<lambda>high.
        bnd (if high = - 1 then rd (points cr) (cr_len cr - 2) else Inr high) (\<lambda>high.
        if high \<le> 0xffff
        then bnd (re_emit_op_u16 s REOP_range (of_nat len)) (\<lambda>s. put_range16 s (pts cr))
        else bnd (re_emit_op_u16 s REOP_range32 (of_nat len)) (\<lambda>s. put_range32 s (pts cr)))))"

end
