(* ===== verification/ReScan.thy ===== *)
theory ReScan
  imports ReOps
begin

text \<open>
  Functions of \<open>libregexp.c\<close> that read bytecode or look ahead in the pattern: the length of
  an instruction, \<open>re_check_advance\<close>, \<open>re_is_simple_quantifier\<close>, \<open>compute_stack_size\<close>, group
  names and the counting of captures.
\<close>

section \<open>Reading bytecode\<close>

text \<open>Opcode and length of the instruction at \<open>pos\<close>; ranges have a variable length.\<close>

definition bc_instr :: "bytes \<Rightarrow> nat \<Rightarrow> (u8 \<times> nat) res" where
  "bc_instr bc pos =
     bnd (rd bc pos) (\<lambda>opcode. bnd (op_size opcode) (\<lambda>len.
       if opcode = REOP_range then
         bnd (get_u16 bc (pos + 1)) (\<lambda>val. Inr (opcode, len + unat val * 4))
       else if opcode = REOP_range32 then
         bnd (get_u16 bc (pos + 1)) (\<lambda>val. Inr (opcode, len + unat val * 8))
       else Inr (opcode, len)))"

lemma op_size_pos: "op_size opcode = Inr len \<Longrightarrow> 0 < len"
  by (auto simp: op_size_def reopcode_size_def rd_eq_Inr nth_Cons' split: if_splits)

lemma bc_instr_pos: "bc_instr bc pos = Inr (opcode, len) \<Longrightarrow> 0 < len \<and> pos < length bc"
  by (auto simp: bc_instr_def bnd_eq_Inr rd_eq_Inr dest: op_size_pos split: if_splits)

text \<open>\<open>capture_bitmap[val] |= m\<close>\<close>

definition set_mark :: "u8 list \<Rightarrow> nat \<Rightarrow> u8 \<Rightarrow> u8 list res" where
  "set_mark bm i m = bnd (rd bm i) (\<lambda>x. wr bm i (x OR m))"

fun set_marks :: "u8 list \<Rightarrow> nat list \<Rightarrow> u8 list res" where
  "set_marks bm [] = Inr bm"
| "set_marks bm (i # is) = bnd (set_mark bm i 1) (\<lambda>bm. set_marks bm is)"

text \<open>
  The loop of \<open>re_check_advance\<close>: \<open>ret\<close> is -2 while nothing is known; the result is \<open>ret\<close>, the
  bitmap, and whether there is a back reference.
\<close>

function advance_loop :: "bytes \<Rightarrow> nat \<Rightarrow> int \<Rightarrow> u8 list \<Rightarrow> bool \<Rightarrow> (int \<times> u8 list \<times> bool) res" where
  "advance_loop bc pos ret bm has_br =
     (if pos < length bc then
        bnd (bc_instr bc pos) (\<lambda>(opcode, len).
          if opcode \<in> {REOP_range, REOP_range32, REOP_char, REOP_char32, REOP_dot, REOP_any} then
            advance_loop bc (pos + len) (if ret = -2 then 1 else ret) bm has_br
          else if opcode \<in> {REOP_line_start, REOP_line_end, REOP_push_i32, REOP_push_char_pos, REOP_drop,
                            REOP_word_boundary, REOP_not_word_boundary, REOP_prev} then
            advance_loop bc (pos + len) ret bm has_br
          else if opcode = REOP_save_start \<or> opcode = REOP_save_end then
            bnd (rd bc (pos + 1)) (\<lambda>val. bnd (set_mark bm (unat val) 1) (\<lambda>bm.
              advance_loop bc (pos + len) ret bm has_br))
          else if opcode = REOP_save_reset then
            bnd (rd bc (pos + 1)) (\<lambda>val. bnd (rd bc (pos + 2)) (\<lambda>last.
              bnd (set_marks bm [unat val..<unat last]) (\<lambda>bm.
                advance_loop bc (pos + len) ret bm has_br)))
          else if opcode = REOP_back_reference \<or> opcode = REOP_backward_back_reference then
            bnd (rd bc (pos + 1)) (\<lambda>val. bnd (set_mark bm (unat val) 2) (\<lambda>bm.
              advance_loop bc (pos + len) ret bm True))
          else advance_loop bc (pos + len) (if ret = -2 then 0 else ret) bm has_br)
      else Inr (ret, bm, has_br))"
  by pat_completeness auto
termination
  by (relation "measure (\<lambda>(bc, pos, ret, bm, b). length bc - pos)") (auto dest!: bc_instr_pos)

declare advance_loop.simps [simp del]

definition re_check_advance :: "bytes \<Rightarrow> int res" where
  "re_check_advance bc =
     bnd (advance_loop bc 0 (-2) (replicate CAPTURE_COUNT_MAX 0) False) (\<lambda>(ret, bm, has_br).
       if has_br \<and> 3 \<in> set bm then Inr (-1)
       else Inr (if ret = -2 then 0 else ret))"

text \<open>The number of characters of the atom, \<open>None\<close> (-1) if it is not simple.\<close>

function simple_loop :: "bytes \<Rightarrow> nat \<Rightarrow> nat \<Rightarrow> nat option res" where
  "simple_loop bc pos cnt =
     (if pos < length bc then
        bnd (bc_instr bc pos) (\<lambda>(opcode, len).
          if opcode \<in> {REOP_range, REOP_range32, REOP_char, REOP_char32, REOP_dot, REOP_any} then
            simple_loop bc (pos + len) (cnt + 1)
          else if opcode \<in> {REOP_line_start, REOP_line_end, REOP_word_boundary, REOP_not_word_boundary} then
            simple_loop bc (pos + len) cnt
          else Inr None)
      else Inr (Some cnt))"
  by pat_completeness auto
termination
  by (relation "measure (\<lambda>(bc, pos, cnt). length bc - pos)") (auto dest!: bc_instr_pos)

declare simple_loop.simps [simp del]

definition re_is_simple_quantifier :: "bytes \<Rightarrow> nat option res" where
  "re_is_simple_quantifier bc = simple_loop bc 0 0"

text \<open>The greatest depth of the stack; \<open>None\<close> (-1) beyond \<open>STACK_SIZE_MAX\<close>.\<close>

function stack_loop :: "bytes \<Rightarrow> nat \<Rightarrow> nat \<Rightarrow> nat \<Rightarrow> nat option res" where
  "stack_loop bc pos stack_size stack_size_max =
     (if pos < length bc then
        bnd (bc_instr bc pos) (\<lambda>(opcode, len).
        bnd (op_size opcode) (\<lambda>sz.
          if pos + sz > length bc then Inl (Fail ''(pos + len) <= bc_buf_len'')
          else if opcode = REOP_push_i32 \<or> opcode = REOP_push_char_pos then
            (let stack_size = stack_size + 1 in
             if stack_size > stack_size_max then
               (if stack_size > STACK_SIZE_MAX then Inr None
                else stack_loop bc (pos + len) stack_size stack_size)
             else stack_loop bc (pos + len) stack_size stack_size_max)
          else if opcode = REOP_drop \<or> opcode = REOP_bne_char_pos then
            (if stack_size = 0 then Inl (Fail ''stack_size > 0'')
             else stack_loop bc (pos + len) (stack_size - 1) stack_size_max)
          else stack_loop bc (pos + len) stack_size stack_size_max))
      else Inr (Some stack_size_max))"
  by pat_completeness auto
termination
  by (relation "measure (\<lambda>(bc, pos, s, m). length bc - pos)") (auto dest!: bc_instr_pos)

declare stack_loop.simps [simp del]

definition compute_stack_size :: "bytes \<Rightarrow> nat option res" where
  "compute_stack_size bc = stack_loop (drop RE_HEADER_LEN bc) 0 0 0"

section \<open>Group names\<close>

text \<open>One character of a name and the position after it; \<open>None\<close> for a malformed one.\<close>

definition name_char :: "bytes \<Rightarrow> nat \<Rightarrow> u8 \<Rightarrow> bool \<Rightarrow> (u32 \<times> nat) option res" where
  "name_char b p c utf16 =
     (if c = 0x5c then
        bnd (rd b (p + 1)) (\<lambda>x.
          if x \<noteq> ch CHR ''u'' then Inr None
          else bnd (lre_parse_escape b (p + 1) (if utf16 then 2 else 0)) (\<lambda>r. case r of
            EChar c p \<Rightarrow> Inr (Some (c, p)) | _ \<Rightarrow> Inr None))
      else if c \<ge> 128 then unicode_from_utf8 b p (int UTF8_CHAR_LEN_MAX)
      else Inr (Some (ucast c, p + 1)))"

text \<open>
  \<open>name\<close> is what stands in \<open>buf\<close> so far. Every turn moves the position, the test for it only
  makes the recursion end. The result is the name and the position after \<open>>\<close>, or \<open>None\<close> (-1).
\<close>

function group_name_loop :: "bytes \<Rightarrow> nat \<Rightarrow> bool \<Rightarrow> bytes \<Rightarrow> (bytes \<times> nat) option res" where
  "group_name_loop b p utf16 name =
     bnd (rd b p) (\<lambda>c.
       if c = ch CHR ''>'' then Inr (if name = [] then None else Some (name, p + 1))
       else bnd (name_char b p c utf16) (\<lambda>r. case r of
         None \<Rightarrow> Inr None
       | Some (c, p') \<Rightarrow>
           if c > 0x10FFFF then Inr None
           else bnd (if name = [] then lre_js_is_ident_first c else lre_js_is_ident_next c) (\<lambda>ok.
             if \<not> ok then Inr None
             else if length name + UTF8_CHAR_LEN_MAX + 1 > TMP_BUF_SIZE then Inr None
             else if p' \<le> p then Inl NoFuel
             else group_name_loop b p' utf16 (name @ unicode_to_utf8 c))))"
  by pat_completeness auto
termination
  by (relation "measure (\<lambda>(b, p, u, name). length b - p)") (auto simp: rd_eq_Inr)

declare group_name_loop.simps [simp del]

definition re_parse_group_name :: "bytes \<Rightarrow> nat \<Rightarrow> bool \<Rightarrow> (bytes \<times> nat) option res" where
  "re_parse_group_name b p utf16 = group_name_loop b p utf16 []"

section \<open>Counting captures\<close>

text \<open>The inner loop over a character class, from \<open>p\<close> to the closing bracket or the end.\<close>

function skip_class :: "bytes \<Rightarrow> nat \<Rightarrow> nat \<Rightarrow> nat res" where
  "skip_class b lim p =
     (if p < lim then
        bnd (rd b p) (\<lambda>c.
          if c = ch CHR '']'' then Inr p
          else skip_class b lim (if c = 0x5c then p + 2 else p + 1))
      else Inr p)"
  by pat_completeness auto
termination by (relation "measure (\<lambda>(b, lim, p). lim - p)") auto

declare skip_class.simps [simp del]

lemma skip_class_ge: "skip_class b lim p = Inr q \<Longrightarrow> p \<le> q"
proof (induction b lim p rule: skip_class.induct)
  case (1 b lim p)
  then show ?case
    by (subst (asm) skip_class.simps) (fastforce simp: bnd_eq_Inr split: if_splits)
qed

text \<open>
  One turn of the loop of \<open>re_parse_captures\<close> at a group: \<open>Some i\<close> when the name was found,
  otherwise the position before \<open>p++\<close>, the next index and whether the group is named.
\<close>

definition captures_group ::
  "bytes \<Rightarrow> bool \<Rightarrow> bytes option \<Rightarrow> nat \<Rightarrow> nat \<Rightarrow> (nat option \<times> nat \<times> nat \<times> bool) res" where
  "captures_group b utf16 capture_name p idx =
     bnd (rd b (p + 1)) (\<lambda>c1.
       if c1 \<noteq> ch CHR ''?'' then Inr (None, p, idx + 1, False)
       else bnd (rd b (p + 2)) (\<lambda>c2.
         if c2 \<noteq> ch CHR ''<'' then Inr (None, p, idx, False)
         else bnd (rd b (p + 3)) (\<lambda>c3.
           if c3 = ch CHR ''='' \<or> c3 = ch CHR ''!'' then Inr (None, p, idx, False)
           else case capture_name of
             None \<Rightarrow> Inr (None, p, idx + 1, True)
           | Some nm \<Rightarrow>
               bnd (re_parse_group_name b (p + 3) utf16) (\<lambda>r. case r of
                 None \<Rightarrow> Inr (None, p + 3, idx + 1, True)
               | Some (name, p') \<Rightarrow>
                   if name = nm then Inr (Some idx, p', idx, True)
                   else if p' \<le> p then Inl NoFuel
                   else Inr (None, p', idx + 1, True)))))"

lemma captures_group_ge: "captures_group b u nm p idx = Inr (None, p', i, h) \<Longrightarrow> p \<le> p'"
proof (cases nm)
  case None
  then show "captures_group b u nm p idx = Inr (None, p', i, h) \<Longrightarrow> p \<le> p'"
    by (auto simp: captures_group_def bnd_eq_Inr split: if_splits)
next
  case (Some name)
  assume *: "captures_group b u nm p idx = Inr (None, p', i, h)"
  show "p \<le> p'"
  proof (cases "re_parse_group_name b (p + 3) u")
    case (Inr r)
    then show ?thesis
      using * Some by (cases r) (auto simp: captures_group_def bnd_eq_Inr split: if_splits)
  qed (use * Some in \<open>auto simp: captures_group_def bnd_eq_Inr split: if_splits\<close>)
qed

text \<open>The result is the return value (-1 as such) and \<open>*phas_named_captures\<close>.\<close>

function captures_loop ::
  "bytes \<Rightarrow> nat \<Rightarrow> bool \<Rightarrow> bytes option \<Rightarrow> nat \<Rightarrow> nat \<Rightarrow> int \<Rightarrow> (int \<times> int) res" where
  "captures_loop b lim utf16 capture_name p idx has =
     (let done = (\<lambda>idx has. Inr (if capture_name = None then int idx else -1, has)) in
      if p < lim then
        bnd (rd b p) (\<lambda>c.
          if c = ch CHR ''('' then
            bnd (captures_group b utf16 capture_name p idx) (\<lambda>(found, p', idx', named).
              let has = (if named then 1 else has) in
              case found of
                Some i \<Rightarrow> Inr (int i, has)
              | None \<Rightarrow>
                  if idx' \<noteq> idx \<and> idx' \<ge> CAPTURE_COUNT_MAX then done idx' has
                  else captures_loop b lim utf16 capture_name (p' + 1) idx' has)
          else if c = 0x5c then captures_loop b lim utf16 capture_name (p + 2) idx has
          else if c = ch CHR ''['' then
            bnd (skip_class b lim (p + 1)) (\<lambda>p'. captures_loop b lim utf16 capture_name (p' + 1) idx has)
          else captures_loop b lim utf16 capture_name (p + 1) idx has)
      else done idx has)"
  by pat_completeness auto
termination
  by (relation "measure (\<lambda>(b, lim, u, n, p, i, h). lim - p)")
    (auto dest!: captures_group_ge skip_class_ge)

declare captures_loop.simps [simp del]

definition re_parse_captures :: "REParseState \<Rightarrow> bytes option \<Rightarrow> (int \<times> int) res" where
  "re_parse_captures s capture_name =
     captures_loop (re_buf s) (buf_end s) (is_utf16 s) capture_name 0 1 0"

definition re_count_captures :: "REParseState \<Rightarrow> (int \<times> REParseState) res" where
  "re_count_captures s =
     (if total_capture_count s < 0
      then bnd (re_parse_captures s None) (\<lambda>(n, has).
             Inr (n, s\<lparr>total_capture_count := n, has_named_captures := has\<rparr>))
      else Inr (total_capture_count s, s))"

definition re_has_named_captures :: "REParseState \<Rightarrow> (bool \<times> REParseState) res" where
  "re_has_named_captures s =
     bnd (if has_named_captures s < 0 then bnd (re_count_captures s) (\<lambda>(_, s). Inr s) else Inr s)
       (\<lambda>s. Inr (has_named_captures s \<noteq> 0, s))"

text \<open>The names of the groups parsed so far, each ended by a zero; \<open>None\<close> for -1.\<close>

function group_name_search :: "bytes \<Rightarrow> nat \<Rightarrow> bytes \<Rightarrow> nat \<Rightarrow> nat \<Rightarrow> nat option res" where
  "group_name_search b lim name p capture_index =
     (if p < lim then
        (if \<not> terminated (drop p b) then Inl Undef
         else (let len = length (cstr (drop p b)) in
               if cstr (drop p b) = name then Inr (Some capture_index)
               else group_name_search b lim name (p + len + 1) (capture_index + 1)))
      else Inr None)"
  by pat_completeness auto
termination by (relation "measure (\<lambda>(b, lim, n, p, i). lim - p)") auto

declare group_name_search.simps [simp del]

definition find_group_name :: "REParseState \<Rightarrow> bytes \<Rightarrow> nat option res" where
  "find_group_name s name =
     group_name_search (buf (group_names s)) (dsize (group_names s)) name 0 1"

end
