(* ===== verification/ReTerm.thy ===== *)
theory ReTerm
  imports ReScan
begin

text \<open>
  \<open>re_parse_char_class\<close> and the parts of \<open>re_parse_term\<close> of \<open>libregexp.c\<close>: atoms, groups,
  look-around, back references and quantifiers. A group contains a disjunction, so the parser
  of disjunctions is the argument \<open>disj\<close>; theory \<open>ReParse\<close> ties the knot.
\<close>

section \<open>Character classes\<close>

definition cr_check :: "cr_result \<Rightarrow> CharRange res" where
  "cr_check m = bnd m (\<lambda>(r, cr). if r \<noteq> 0 then Inl (Fail ''out of memory'') else Inr cr)"

text \<open>The label \<open>class_atom\<close>: add one atom to the set.\<close>

definition class_add :: "CharRange \<Rightarrow> class_atom \<Rightarrow> CharRange res" where
  "class_add cr c1 = (case c1 of
     Atom_range cr1 \<Rightarrow> cr_check (cr_union1 cr (pts cr1))
   | Atom_char c \<Rightarrow> cr_check (cr_union_interval cr c c))"

text \<open>One atom or interval of a class, at \<open>p\<close>: the set with it and the position after it.\<close>

definition class_item :: "re_env \<Rightarrow> REParseState \<Rightarrow> CharRange \<Rightarrow> nat \<Rightarrow> (CharRange \<times> nat) res" where
  "class_item E s cr p =
     bnd (get_class_atom E s p True) (\<lambda>(c1, p).
     bnd (rd (re_buf s) p) (\<lambda>x0.
     bnd (if x0 = ch CHR ''-'' then rd (re_buf s) (p + 1) else Inr (ch CHR '']'')) (\<lambda>x1.
       if x1 \<noteq> ch CHR '']'' then
         (case c1 of
            Atom_range _ \<Rightarrow>
              if is_utf16 s then Inl (Fail ''invalid class range'')
              else bnd (class_add cr c1) (\<lambda>cr. Inr (cr, p))
          | Atom_char a \<Rightarrow>
              bnd (get_class_atom E s (p + 1) True) (\<lambda>(c2, p0). case c2 of
                Atom_range _ \<Rightarrow>
                  if is_utf16 s then Inl (Fail ''invalid class range'')
                  else bnd (class_add cr c1) (\<lambda>cr. Inr (cr, p))
              | Atom_char b \<Rightarrow>
                  if b < a then Inl (Fail ''invalid class range'')
                  else bnd (cr_check (cr_union_interval cr a b)) (\<lambda>cr. Inr (cr, p0))))
       else bnd (class_add cr c1) (\<lambda>cr. Inr (cr, p)))))"

text \<open>The loop up to the closing bracket; every turn moves the position.\<close>

function class_loop :: "re_env \<Rightarrow> REParseState \<Rightarrow> CharRange \<Rightarrow> nat \<Rightarrow> (CharRange \<times> nat) res" where
  "class_loop E s cr p =
     bnd (rd (re_buf s) p) (\<lambda>c.
       if c = ch CHR '']'' then Inr (cr, p)
       else bnd (class_item E s cr p) (\<lambda>(cr, p').
         if p' \<le> p then Inl NoFuel else class_loop E s cr p'))"
  by pat_completeness auto
termination
  by (relation "measure (\<lambda>(E, s, cr, p). length (re_buf s) - p)") (auto simp: rd_eq_Inr)

declare class_loop.simps [simp del]

text \<open>\<open>p\<close> is at the opening bracket; the result is the position after the closing one.\<close>

definition re_parse_char_class :: "re_env \<Rightarrow> REParseState \<Rightarrow> nat \<Rightarrow> (nat \<times> REParseState) res" where
  "re_parse_char_class E s p =
     bnd (rd (re_buf s) (p + 1)) (\<lambda>c.
     let invert = (c = ch CHR ''^''); p = (if invert then p + 2 else p + 1) in
     bnd (class_loop E s (cr_init (env_realloc32 E)) p) (\<lambda>(cr, p).
     bnd (if ignore_case s then cr_check (cr_canonicalize E cr) else Inr cr) (\<lambda>cr.
     bnd (if invert then cr_check (cr_invert cr) else Inr cr) (\<lambda>cr.
     bnd (re_emit_range s cr) (\<lambda>s. Inr (p + 1, s))))))"

section \<open>Atoms\<close>

text \<open>
  What a term gives before its quantifier: \<open>last_atom_start\<close> with \<open>last_capture_count\<close> (or
  \<open>None\<close> for -1, no quantifier allowed), the position, the state.
\<close>

type_synonym atom_res = "((nat \<times> nat) option \<times> nat \<times> REParseState) res"
type_synonym disj = "REParseState \<Rightarrow> bool \<Rightarrow> REParseState res"

abbreviation (input) here :: "REParseState \<Rightarrow> (nat \<times> nat) option" where
  "here s \<equiv> Some (dsize (byte_code s), capture_count s)"

text \<open>Going backwards, a \<open>REOP_prev\<close> stands before and after what reads one character.\<close>

definition re_emit_prev :: "REParseState \<Rightarrow> bool \<Rightarrow> REParseState res" where
  "re_emit_prev s is_backward_dir = (if is_backward_dir then re_emit_op s REOP_prev else Inr s)"

text \<open>The label \<open>normal_char\<close>.\<close>

definition normal_atom :: "REParseState \<Rightarrow> bool \<Rightarrow> class_atom \<Rightarrow> nat \<Rightarrow> atom_res" where
  "normal_atom s is_backward_dir atom p =
     (let la = here s in
      bnd (re_emit_prev s is_backward_dir) (\<lambda>s.
      bnd (case atom of
             Atom_range cr \<Rightarrow> re_emit_range s cr
           | Atom_char c \<Rightarrow>
               bnd (if ignore_case s then lre_canonicalize c (is_utf16 s) else Inr c) (\<lambda>c.
                 if c \<le> 0xffff then re_emit_op_u16 s REOP_char c
                 else bnd (re_emit_op_u32 s REOP_char32 c) (\<lambda>(_, s). Inr s))) (\<lambda>s.
      bnd (re_emit_prev s is_backward_dir) (\<lambda>s. Inr (la, p, s)))))"

definition parse_class_atom :: "re_env \<Rightarrow> REParseState \<Rightarrow> bool \<Rightarrow> atom_res" where
  "parse_class_atom E s is_backward_dir =
     bnd (get_class_atom E s (buf_ptr s) False) (\<lambda>(atom, p). normal_atom s is_backward_dir atom p)"

definition term_dot :: "REParseState \<Rightarrow> bool \<Rightarrow> atom_res" where
  "term_dot s is_backward_dir =
     (let la = here s; p = buf_ptr s + 1 in
      bnd (re_emit_prev s is_backward_dir) (\<lambda>s.
      bnd (re_emit_op s (if dotall s then REOP_any else REOP_dot)) (\<lambda>s.
      bnd (re_emit_prev s is_backward_dir) (\<lambda>s. Inr (la, p, s)))))"

definition term_class :: "re_env \<Rightarrow> REParseState \<Rightarrow> bool \<Rightarrow> atom_res" where
  "term_class E s is_backward_dir =
     (let la = here s in
      bnd (re_emit_prev s is_backward_dir) (\<lambda>s.
      bnd (re_parse_char_class E s (buf_ptr s)) (\<lambda>(p, s).
      bnd (re_emit_prev s is_backward_dir) (\<lambda>s. Inr (la, p, s)))))"

text \<open>An opening brace where an atom is expected: an error if it looks like a count.\<close>

definition term_brace :: "re_env \<Rightarrow> REParseState \<Rightarrow> bool \<Rightarrow> atom_res" where
  "term_brace E s is_backward_dir =
     (if is_utf16 s then Inl (Fail ''syntax error'')
      else (let b = re_buf s in
        bnd (rd b (buf_ptr s + 1)) (\<lambda>c.
          if \<not> is_digit c then parse_class_atom E s is_backward_dir
          else bnd (parse_digits b (buf_ptr s + 1) True) (\<lambda>(_, p1).
          bnd (rd b p1) (\<lambda>c.
          bnd (if c = ch CHR '','' then
                 bnd (rd b (p1 + 1)) (\<lambda>d.
                   if is_digit d then bnd (parse_digits b (p1 + 1) True) (\<lambda>(_, p1). Inr p1)
                   else Inr (p1 + 1))
               else Inr p1) (\<lambda>p1.
          bnd (rd b p1) (\<lambda>c.
            if c \<noteq> ch CHR ''}'' then parse_class_atom E s is_backward_dir
            else Inl (Fail ''nothing to repeat''))))))))"

section \<open>Groups\<close>

text \<open>The label \<open>parse_capture\<close>; \<open>p\<close> is after the parenthesis and the name.\<close>

definition term_capture :: "disj \<Rightarrow> REParseState \<Rightarrow> nat \<Rightarrow> bool \<Rightarrow> atom_res" where
  "term_capture dj s p is_backward_dir =
     (if capture_count s \<ge> CAPTURE_COUNT_MAX then Inl (Fail ''too many captures'')
      else (let la = here s; capture_index = of_nat (capture_count s);
                s = s\<lparr>capture_count := capture_count s + 1\<rparr> in
        bnd (re_emit_op_u8 s (if is_backward_dir then REOP_save_end else REOP_save_start) capture_index) (\<lambda>s.
        bnd (dj (s\<lparr>buf_ptr := p\<rparr>) is_backward_dir) (\<lambda>s.
        bnd (re_emit_op_u8 s (if is_backward_dir then REOP_save_start else REOP_save_end) capture_index) (\<lambda>s.
        bnd (re_parse_expect (re_buf s) (buf_ptr s) CHR '')'') (\<lambda>p. Inr (la, p, s)))))))"

text \<open>The label \<open>lookahead\<close>; after the look-around has matched, the \<open>match\<close> is jumped over.\<close>

definition term_lookaround :: "disj \<Rightarrow> REParseState \<Rightarrow> nat \<Rightarrow> bool \<Rightarrow> bool \<Rightarrow> atom_res" where
  "term_lookaround dj s p is_neg is_backward_lookahead =
     (let la = (if \<not> is_utf16 s \<and> \<not> is_backward_lookahead then here s else None) in
      bnd (re_emit_op_u32 s (if is_neg then REOP_negative_lookahead else REOP_lookahead) 0) (\<lambda>(pos, s).
      bnd (dj (s\<lparr>buf_ptr := p\<rparr>) is_backward_lookahead) (\<lambda>s.
      bnd (re_parse_expect (re_buf s) (buf_ptr s) CHR '')'') (\<lambda>p.
      bnd (re_emit_op s REOP_match) (\<lambda>s.
        if dbuf_error (byte_code s) then Inl NoMem
        else bnd (re_patch32 s pos (of_nat (dsize (byte_code s)) - of_nat (pos + 4))) (\<lambda>s. Inr (la, p, s)))))))"

text \<open>The code does not look at the result of the appends to \<open>group_names\<close>.\<close>

definition put_group_name :: "REParseState \<Rightarrow> bytes \<Rightarrow> REParseState res" where
  "put_group_name s name =
     bnd (dbuf_put (group_names s) (name @ [0])) (\<lambda>(_, g). Inr (s\<lparr>group_names := g\<rparr>))"

definition term_named_group :: "disj \<Rightarrow> REParseState \<Rightarrow> nat \<Rightarrow> bool \<Rightarrow> atom_res" where
  "term_named_group dj s p is_backward_dir =
     bnd (re_parse_group_name (re_buf s) p (is_utf16 s)) (\<lambda>r. case r of
       None \<Rightarrow> Inl (Fail ''invalid group name'')
     | Some (name, p) \<Rightarrow>
         bnd (find_group_name s name) (\<lambda>i.
           if i \<noteq> None then Inl (Fail ''duplicate group name'')
           else bnd (put_group_name s name) (\<lambda>s.
             term_capture dj (s\<lparr>has_named_captures := 1\<rparr>) p is_backward_dir)))"

definition term_group :: "disj \<Rightarrow> REParseState \<Rightarrow> bool \<Rightarrow> atom_res" where
  "term_group dj s is_backward_dir =
     (let b = re_buf s; p = buf_ptr s in
      bnd (rd b (p + 1)) (\<lambda>c1.
        if c1 \<noteq> ch CHR ''?'' then
          bnd (put_group_name s []) (\<lambda>s. term_capture dj s (p + 1) is_backward_dir)
        else bnd (rd b (p + 2)) (\<lambda>c2.
          if c2 = ch CHR '':'' then
            bnd (dj (s\<lparr>buf_ptr := p + 3\<rparr>) is_backward_dir) (\<lambda>s'.
            bnd (re_parse_expect (re_buf s') (buf_ptr s') CHR '')'') (\<lambda>p. Inr (here s, p, s')))
          else if c2 = ch CHR ''='' \<or> c2 = ch CHR ''!'' then
            term_lookaround dj s (p + 3) (c2 = ch CHR ''!'') False
          else if c2 = ch CHR ''<'' then
            bnd (rd b (p + 3)) (\<lambda>c3.
              if c3 = ch CHR ''='' \<or> c3 = ch CHR ''!''
              then term_lookaround dj s (p + 4) (c3 = ch CHR ''!'') True
              else term_named_group dj s (p + 3) is_backward_dir)
          else Inl (Fail ''invalid group''))))"

section \<open>Escapes\<close>

text \<open>The label \<open>emit_back_reference\<close>.\<close>

definition back_reference :: "REParseState \<Rightarrow> bool \<Rightarrow> u32 \<Rightarrow> nat \<Rightarrow> atom_res" where
  "back_reference s is_backward_dir c p =
     bnd (re_emit_op_u8 s (if is_backward_dir then REOP_backward_back_reference else REOP_back_reference) c) (\<lambda>s'.
       Inr (here s, p, s'))"

text \<open>
  In Unicode mode or with named groups in the pattern a bad name is an error, otherwise
  \<open>\k\<close> is a character.
\<close>

definition bad_group_name :: "re_env \<Rightarrow> REParseState \<Rightarrow> bool \<Rightarrow> string \<Rightarrow> atom_res" where
  "bad_group_name E s is_backward_dir msg =
     (if is_utf16 s then Inl (Fail msg)
      else bnd (re_has_named_captures s) (\<lambda>(has, s).
        if has then Inl (Fail msg) else parse_class_atom E s is_backward_dir))"

definition term_named_reference :: "re_env \<Rightarrow> REParseState \<Rightarrow> bool \<Rightarrow> atom_res" where
  "term_named_reference E s is_backward_dir =
     bnd (rd (re_buf s) (buf_ptr s + 2)) (\<lambda>x.
       if x \<noteq> ch CHR ''<'' then bad_group_name E s is_backward_dir ''expecting group name''
       else bnd (re_parse_group_name (re_buf s) (buf_ptr s + 3) (is_utf16 s)) (\<lambda>r. case r of
         None \<Rightarrow> bad_group_name E s is_backward_dir ''invalid group name''
       | Some (name, p1) \<Rightarrow>
           bnd (find_group_name s name) (\<lambda>i. case i of
             Some c \<Rightarrow> back_reference s is_backward_dir (of_nat c) p1
           | None \<Rightarrow>
               bnd (re_parse_captures s (Some name)) (\<lambda>(c, _).
                 if c < 0 then bad_group_name E s is_backward_dir ''group name not defined''
                 else back_reference s is_backward_dir (of_int c) p1))))"

text \<open>Up to \<open>n\<close> octal digits.\<close>

fun octal_digits :: "bytes \<Rightarrow> nat \<Rightarrow> nat \<Rightarrow> u32 \<Rightarrow> (u32 \<times> nat) res" where
  "octal_digits b p 0 c = Inr (c, p)"
| "octal_digits b p (Suc n) c =
     bnd (rd b p) (\<lambda>x.
       if ch CHR ''0'' \<le> x \<and> x \<le> ch CHR ''7''
       then octal_digits b (p + 1) n (push_bit 3 c + ucast x - ch CHR ''0'')
       else Inr (c, p))"

definition term_zero :: "REParseState \<Rightarrow> bool \<Rightarrow> atom_res" where
  "term_zero s is_backward_dir =
     (let p = buf_ptr s + 2 in
      if is_utf16 s then
        bnd (rd (re_buf s) p) (\<lambda>x.
          if is_digit x then Inl (Fail ''invalid decimal escape in regular expression'')
          else normal_atom s is_backward_dir (Atom_char 0) p)
      else bnd (octal_digits (re_buf s) p 2 0) (\<lambda>(c, p).
        normal_atom s is_backward_dir (Atom_char c) p))"

text \<open>Annex B: a number that is no group is an octal escape, or the digit 8 or 9 itself.\<close>

definition legacy_octal :: "REParseState \<Rightarrow> bool \<Rightarrow> nat \<Rightarrow> atom_res" where
  "legacy_octal s is_backward_dir p =
     bnd (rd (re_buf s) p) (\<lambda>x.
     bnd (if x \<le> ch CHR ''7'' then
            (if x \<le> ch CHR ''3'' then octal_digits (re_buf s) (p + 1) 2 (ucast x - ch CHR ''0'')
             else octal_digits (re_buf s) p 2 0)
          else Inr (ucast x, p + 1)) (\<lambda>(c, p).
       normal_atom s is_backward_dir (Atom_char c) p))"

definition term_number :: "REParseState \<Rightarrow> bool \<Rightarrow> atom_res" where
  "term_number s is_backward_dir =
     (let q = buf_ptr s + 1 in
      bnd (parse_digits (re_buf s) q False) (\<lambda>(c, p).
      bnd (case c of
             None \<Rightarrow> Inr (None, s)
           | Some c \<Rightarrow>
               if c < capture_count s then Inr (Some c, s)
               else bnd (re_count_captures s) (\<lambda>(n, s).
                 Inr (if int c \<ge> n then None else Some c, s))) (\<lambda>(c, s).
        case c of
          Some c \<Rightarrow> back_reference s is_backward_dir (of_nat c) p
        | None \<Rightarrow>
            if is_utf16 s then Inl (Fail ''back reference out of range in regular expression'')
            else legacy_octal s is_backward_dir q)))"

definition term_escape :: "re_env \<Rightarrow> REParseState \<Rightarrow> bool \<Rightarrow> atom_res" where
  "term_escape E s is_backward_dir =
     bnd (rd (re_buf s) (buf_ptr s + 1)) (\<lambda>c.
       if c = ch CHR ''b'' \<or> c = ch CHR ''B'' then
         bnd (re_emit_op s (if c = ch CHR ''b'' then REOP_word_boundary else REOP_not_word_boundary))
           (\<lambda>s. Inr (None, buf_ptr s + 2, s))
       else if c = ch CHR ''k'' then term_named_reference E s is_backward_dir
       else if c = ch CHR ''0'' then term_zero s is_backward_dir
       else if ch CHR ''1'' \<le> c \<and> c \<le> ch CHR ''9'' then term_number s is_backward_dir
       else parse_class_atom E s is_backward_dir)"

text \<open>The switch of \<open>re_parse_term\<close>.\<close>

definition term_atom :: "re_env \<Rightarrow> disj \<Rightarrow> REParseState \<Rightarrow> bool \<Rightarrow> atom_res" where
  "term_atom E dj s is_backward_dir =
     bnd (rd (re_buf s) (buf_ptr s)) (\<lambda>c.
       if c = ch CHR ''^'' then
         bnd (re_emit_op s REOP_line_start) (\<lambda>s. Inr (None, buf_ptr s + 1, s))
       else if c = ch CHR ''$'' then
         bnd (re_emit_op s REOP_line_end) (\<lambda>s. Inr (None, buf_ptr s + 1, s))
       else if c = ch CHR ''.'' then term_dot s is_backward_dir
       else if c = ch CHR ''{'' then term_brace E s is_backward_dir
       else if c = ch CHR ''*'' \<or> c = ch CHR ''+'' \<or> c = ch CHR ''?'' then Inl (Fail ''nothing to repeat'')
       else if c = ch CHR ''('' then term_group dj s is_backward_dir
       else if c = 0x5c then term_escape E s is_backward_dir
       else if c = ch CHR ''['' then term_class E s is_backward_dir
       else if (c = ch CHR '']'' \<or> c = ch CHR ''}'') \<and> is_utf16 s then Inl (Fail ''syntax error'')
       else parse_class_atom E s is_backward_dir)"

end
