(* ===== verification/ReParse.thy ===== *)
theory ReParse
  imports ReTerm
begin

text \<open>
  The quantifiers of \<open>re_parse_term\<close>, \<open>re_parse_alternative\<close>, \<open>re_parse_disjunction\<close> and
  \<open>lre_compile\<close> of \<open>libregexp.c\<close>.

  \<open>lre_check_stack_overflow\<close>, by which the host limits the recursion, is a bound on the
  nesting depth of disjunctions.
\<close>

section \<open>Quantifiers\<close>

definition code_from :: "REParseState \<Rightarrow> nat \<Rightarrow> bytes" where
  "code_from s start = drop start (contents (byte_code s))"

text \<open>
  The range of a count in braces at \<open>p\<close> and the position after it, or \<open>None\<close> where the brace
  begins a new atom.
\<close>

definition quant_count :: "REParseState \<Rightarrow> nat \<Rightarrow> (nat \<times> nat \<times> nat) option res" where
  "quant_count s p =
     (let b = re_buf s in
      bnd (rd b (p + 1)) (\<lambda>d.
        if \<not> is_digit d then
          (if is_utf16 s then Inl (Fail ''invalid repetition count'') else Inr None)
        else bnd (parse_digits b (p + 1) True) (\<lambda>(n, p1).
          let quant_min = the n in
          bnd (rd b p1) (\<lambda>c.
          bnd (if c = ch CHR '','' then
                 bnd (rd b (p1 + 1)) (\<lambda>d.
                   if is_digit d then
                     bnd (parse_digits b (p1 + 1) True) (\<lambda>(m, p2).
                       if the m < quant_min then Inl (Fail ''invalid repetition count'')
                       else Inr (the m, p2))
                   else Inr (INT32_MAX, p1 + 1))
               else Inr (quant_min, p1)) (\<lambda>(quant_max, p1).
          bnd (rd b p1) (\<lambda>c.
            if c \<noteq> ch CHR ''}'' \<and> \<not> is_utf16 s then Inr None
            else bnd (re_parse_expect b p1 CHR ''}'') (\<lambda>p1. Inr (Some (quant_min, quant_max, p1)))))))))"

definition quant_range :: "REParseState \<Rightarrow> nat \<Rightarrow> (nat \<times> nat \<times> nat) option res" where
  "quant_range s p =
     bnd (rd (re_buf s) p) (\<lambda>c.
       if c = ch CHR ''*'' then Inr (Some (0, INT32_MAX, p + 1))
       else if c = ch CHR ''+'' then Inr (Some (1, INT32_MAX, p + 1))
       else if c = ch CHR ''?'' then Inr (Some (0, 1, p + 1))
       else if c = ch CHR ''{'' then quant_count s p
       else Inr None)"

text \<open>The loop instruction for atoms that only match characters, \<open>len\<close> of them.\<close>

definition emit_simple_quant :: "REParseState \<Rightarrow> nat \<Rightarrow> nat \<Rightarrow> nat \<Rightarrow> nat \<Rightarrow> REParseState res" where
  "emit_simple_quant s start quant_min quant_max len =
     bnd (re_emit_op s REOP_match) (\<lambda>s.
     bnd (re_insert s start 17) (\<lambda>s.
     bnd (re_patch8 s start REOP_simple_greedy_quant) (\<lambda>s.
     bnd (re_patch32 s (start + 1) (of_nat (dsize (byte_code s)) - of_nat (start + 17))) (\<lambda>s.
     bnd (re_patch32 s (start + 5) (of_nat quant_min)) (\<lambda>s.
     bnd (re_patch32 s (start + 9) (of_nat quant_max)) (\<lambda>s.
       re_patch32 s (start + 13) (of_nat len)))))))"

definition split_op :: "bool \<Rightarrow> u8" where
  "split_op greedy = (if greedy then REOP_split_next_first else REOP_split_goto_first)"

definition split_op_inv :: "bool \<Rightarrow> u8" where
  "split_op_inv greedy = (if greedy then REOP_split_goto_first else REOP_split_next_first)"

definition drop_pos :: "(nat \<times> REParseState) res \<Rightarrow> REParseState res" where
  "drop_pos m = bnd m (\<lambda>(_, s). Inr s)"

text \<open>
  \<open>quant_min = 0\<close>: the captures inside the atom are reset first. \<open>start\<close> is where the atom
  of \<open>len\<close> bytes begins, \<open>chk\<close> is \<open>add_zero_advance_check\<close>.
\<close>

definition reset_captures :: "REParseState \<Rightarrow> nat \<Rightarrow> nat \<Rightarrow> (nat \<times> REParseState) res" where
  "reset_captures s start last_capture_count =
     (if last_capture_count \<noteq> capture_count s then
        bnd (re_insert s start 3) (\<lambda>s.
        bnd (re_patch8 s start REOP_save_reset) (\<lambda>s.
        bnd (re_patch8 s (start + 1) (of_nat last_capture_count)) (\<lambda>s.
        bnd (re_patch8 s (start + 2) (of_nat (capture_count s) - 1)) (\<lambda>s. Inr (start + 3, s)))))
      else Inr (start, s))"

definition quant_zero_body ::
  "REParseState \<Rightarrow> nat \<Rightarrow> nat \<Rightarrow> nat \<Rightarrow> bool \<Rightarrow> bool \<Rightarrow> REParseState res" where
  "quant_zero_body s start len quant_max greedy chk =
     (if quant_max = 0 then Inr (s\<lparr>byte_code := (byte_code s)\<lparr>dsize := start\<rparr>\<rparr>)
      else if quant_max = 1 then
        bnd (re_insert s start 5) (\<lambda>s.
        bnd (re_patch8 s start (split_op greedy)) (\<lambda>s.
          re_patch32 s (start + 1) (of_nat len)))
      else if quant_max = INT32_MAX then
        bnd (re_insert s start (5 + of_bool chk)) (\<lambda>s.
        bnd (re_patch8 s start (split_op greedy)) (\<lambda>s.
        bnd (re_patch32 s (start + 1) (of_nat (len + 5 + of_bool chk))) (\<lambda>s.
          if chk then
            bnd (re_patch8 s (start + 5) REOP_push_char_pos) (\<lambda>s.
              drop_pos (re_emit_goto s REOP_bne_char_pos (of_nat start)))
          else drop_pos (re_emit_goto s REOP_goto (of_nat start)))))
      else
        bnd (re_insert s start 10) (\<lambda>s.
        bnd (re_patch8 s start REOP_push_i32) (\<lambda>s.
        bnd (re_patch32 s (start + 1) (of_nat quant_max)) (\<lambda>s.
        bnd (re_patch8 s (start + 5) (split_op greedy)) (\<lambda>s.
        bnd (re_patch32 s (start + 6) (of_nat (len + 5))) (\<lambda>s.
        bnd (re_emit_goto s REOP_loop (of_nat (start + 5))) (\<lambda>(_, s).
          re_emit_op s REOP_drop)))))))"

definition quant_zero ::
  "REParseState \<Rightarrow> nat \<Rightarrow> nat \<Rightarrow> nat \<Rightarrow> nat \<Rightarrow> bool \<Rightarrow> bool \<Rightarrow> REParseState res" where
  "quant_zero s start last_capture_count len quant_max greedy chk =
     bnd (reset_captures s start last_capture_count) (\<lambda>(start, s).
       quant_zero_body s start len quant_max greedy chk)"

definition re_put_self :: "REParseState \<Rightarrow> nat \<Rightarrow> nat \<Rightarrow> REParseState res" where
  "re_put_self s offset len =
     bnd (dbuf_put_self (byte_code s) offset len) (\<lambda>(_, b). Inr (s\<lparr>byte_code := b\<rparr>))"

text \<open>After \<open>quant_min\<close> rounds of the atom, a copy of it for the rounds that are optional.\<close>

definition quant_tail ::
  "REParseState \<Rightarrow> nat \<Rightarrow> nat \<Rightarrow> nat \<Rightarrow> nat \<Rightarrow> bool \<Rightarrow> bool \<Rightarrow> REParseState res" where
  "quant_tail s start len quant_min quant_max greedy chk =
     (if quant_max = INT32_MAX then
        (let pos = dsize (byte_code s) in
         bnd (re_emit_op_u32 s (split_op greedy) (of_nat (len + 5 + of_bool chk))) (\<lambda>(_, s).
         bnd (if chk then re_emit_op s REOP_push_char_pos else Inr s) (\<lambda>s.
         bnd (re_put_self s start len) (\<lambda>s.
           drop_pos (re_emit_goto s (if chk then REOP_bne_char_pos else REOP_goto) (of_nat pos))))))
      else if quant_max > quant_min then
        bnd (re_emit_op_u32 s REOP_push_i32 (of_nat (quant_max - quant_min))) (\<lambda>(_, s).
        let pos = dsize (byte_code s) in
        bnd (re_emit_op_u32 s (split_op greedy) (of_nat (len + 5))) (\<lambda>(_, s).
        bnd (re_put_self s start len) (\<lambda>s.
        bnd (re_emit_goto s REOP_loop (of_nat pos)) (\<lambda>(_, s).
          re_emit_op s REOP_drop))))
      else Inr s)"

definition quant_some ::
  "REParseState \<Rightarrow> nat \<Rightarrow> nat \<Rightarrow> nat \<Rightarrow> nat \<Rightarrow> bool \<Rightarrow> bool \<Rightarrow> REParseState res" where
  "quant_some s start len quant_min quant_max greedy chk =
     (if quant_min = 1 \<and> quant_max = INT32_MAX \<and> \<not> chk then
        drop_pos (re_emit_goto s (split_op_inv greedy) (of_nat start))
      else if quant_min = 1 then quant_tail s start len quant_min quant_max greedy chk
      else
        bnd (re_insert s start 5) (\<lambda>s.
        bnd (re_patch8 s start REOP_push_i32) (\<lambda>s.
        bnd (re_patch32 s (start + 1) (of_nat quant_min)) (\<lambda>s.
        bnd (re_emit_goto s REOP_loop (of_nat (start + 5))) (\<lambda>(_, s).
        bnd (re_emit_op s REOP_drop) (\<lambda>s.
          quant_tail s (start + 5) len quant_min quant_max greedy chk))))))"

text \<open>The number of characters if the simple loop can be used, \<open>None\<close> otherwise.\<close>

definition simple_quant_len :: "REParseState \<Rightarrow> nat \<Rightarrow> nat \<Rightarrow> bool \<Rightarrow> nat option res" where
  "simple_quant_len s start quant_max greedy =
     (if greedy \<and> quant_max > 0 then
        bnd (re_check_error s) (\<lambda>_.
        bnd (re_is_simple_quantifier (code_from s start)) (\<lambda>n.
          Inr (if n = Some 0 then None else n)))
      else Inr None)"

definition zero_advance_check :: "REParseState \<Rightarrow> nat \<Rightarrow> bool \<Rightarrow> bool res" where
  "zero_advance_check s start greedy =
     (if greedy then
        bnd (re_check_error s) (\<lambda>_.
        bnd (re_check_advance (code_from s start)) (\<lambda>r. Inr (r = 0)))
      else Inr False)"

definition quantify ::
  "REParseState \<Rightarrow> nat \<Rightarrow> nat \<Rightarrow> nat \<Rightarrow> nat \<Rightarrow> bool \<Rightarrow> REParseState res" where
  "quantify s start last_capture_count quant_min quant_max greedy =
     bnd (simple_quant_len s start quant_max greedy) (\<lambda>n. case n of
       Some len \<Rightarrow> emit_simple_quant s start quant_min quant_max len
     | None \<Rightarrow>
         bnd (zero_advance_check s start greedy) (\<lambda>chk.
           let len = dsize (byte_code s) - start in
           if quant_min = 0 then quant_zero s start last_capture_count len quant_max greedy chk
           else quant_some s start len quant_min quant_max greedy chk))"

definition term_quantifier ::
  "(nat \<times> nat) option \<Rightarrow> nat \<Rightarrow> REParseState \<Rightarrow> REParseState res" where
  "term_quantifier la p s = (case la of
     None \<Rightarrow> Inr (s\<lparr>buf_ptr := p\<rparr>)
   | Some (start, last_capture_count) \<Rightarrow>
       bnd (quant_range s p) (\<lambda>q. case q of
         None \<Rightarrow> Inr (s\<lparr>buf_ptr := p\<rparr>)
       | Some (quant_min, quant_max, p) \<Rightarrow>
           bnd (rd (re_buf s) p) (\<lambda>c.
             let greedy = (c \<noteq> ch CHR ''?''); p = (if greedy then p else p + 1) in
             bnd (quantify s start last_capture_count quant_min quant_max greedy) (\<lambda>s.
               Inr (s\<lparr>buf_ptr := p\<rparr>)))))"

section \<open>Terms, alternatives, disjunctions\<close>

definition re_parse_term :: "re_env \<Rightarrow> disj \<Rightarrow> REParseState \<Rightarrow> bool \<Rightarrow> REParseState res" where
  "re_parse_term E dj s is_backward_dir =
     bnd (term_atom E dj s is_backward_dir) (\<lambda>(la, p, s). term_quantifier la p s)"

text \<open>
  Going backwards, the code of the last term moves to the front; the spare room after the
  contents holds it meanwhile.
\<close>

definition move_term :: "REParseState \<Rightarrow> nat \<Rightarrow> nat \<Rightarrow> REParseState res" where
  "move_term s start term_start =
     (let bc_end = dsize (byte_code s); term_size = bc_end - term_start;
          (r, d) = dbuf_realloc (byte_code s) (size_add bc_end term_size) in
      if r \<noteq> 0 then Inl NoMem
      else bnd (memcpy (buf d) (start + term_size) (take (bc_end - start) (drop start (buf d)))) (\<lambda>b.
           bnd (memcpy b start (take term_size (drop bc_end b))) (\<lambda>b.
             Inr (s\<lparr>byte_code := d\<lparr>buf := b\<rparr>\<rparr>))))"

function alternative_loop ::
  "re_env \<Rightarrow> disj \<Rightarrow> bool \<Rightarrow> nat \<Rightarrow> REParseState \<Rightarrow> REParseState res" where
  "alternative_loop E dj is_backward_dir start s =
     (if buf_ptr s \<ge> buf_end s then Inr s
      else bnd (rd (re_buf s) (buf_ptr s)) (\<lambda>c.
        if c = ch CHR ''|'' \<or> c = ch CHR '')'' then Inr s
        else bnd (re_parse_term E dj s is_backward_dir) (\<lambda>s'.
             bnd (if is_backward_dir then move_term s' start (dsize (byte_code s)) else Inr s') (\<lambda>s'.
               if buf_ptr s' \<le> buf_ptr s \<or> buf_end s' \<noteq> buf_end s then Inl NoFuel
               else alternative_loop E dj is_backward_dir start s'))))"
  by pat_completeness auto
termination
  by (relation "measure (\<lambda>(E, dj, d, st, s). buf_end s - buf_ptr s)") auto

declare alternative_loop.simps [simp del]

definition re_parse_alternative :: "re_env \<Rightarrow> disj \<Rightarrow> REParseState \<Rightarrow> bool \<Rightarrow> REParseState res" where
  "re_parse_alternative E dj s is_backward_dir =
     alternative_loop E dj is_backward_dir (dsize (byte_code s)) s"

text \<open>
  One further alternative: a split before the code so far, a jump over the new code. The
  code does not look whether the jump could be written before it patches it.
\<close>

definition disjunction_step :: "re_env \<Rightarrow> disj \<Rightarrow> REParseState \<Rightarrow> bool \<Rightarrow> nat \<Rightarrow> REParseState res" where
  "disjunction_step E dj s is_backward_dir start =
     (let s = s\<lparr>buf_ptr := buf_ptr s + 1\<rparr>; len = dsize (byte_code s) - start in
      bnd (re_insert s start 5) (\<lambda>s.
      bnd (re_patch8 s start REOP_split_next_first) (\<lambda>s.
      bnd (re_patch32 s (start + 1) (of_nat (len + 5))) (\<lambda>s.
      bnd (re_emit_op_u32 s REOP_goto 0) (\<lambda>(pos, s).
      bnd (re_parse_alternative E dj s is_backward_dir) (\<lambda>s.
        re_patch32 s pos (of_nat (dsize (byte_code s)) - of_nat (pos + 4))))))))"

function disjunction_loop ::
  "re_env \<Rightarrow> disj \<Rightarrow> bool \<Rightarrow> nat \<Rightarrow> REParseState \<Rightarrow> REParseState res" where
  "disjunction_loop E dj is_backward_dir start s =
     bnd (rd (re_buf s) (buf_ptr s)) (\<lambda>c.
       if c \<noteq> ch CHR ''|'' then Inr s
       else bnd (disjunction_step E dj s is_backward_dir start) (\<lambda>s'.
         if buf_ptr s' \<le> buf_ptr s \<or> re_buf s' \<noteq> re_buf s then Inl NoFuel
         else disjunction_loop E dj is_backward_dir start s'))"
  by pat_completeness auto
termination
  by (relation "measure (\<lambda>(E, dj, d, st, s). length (re_buf s) - buf_ptr s)") (auto simp: rd_eq_Inr)

declare disjunction_loop.simps [simp del]

text \<open>The first argument is the nesting depth the host's stack check still allows.\<close>

primrec re_parse_disjunction :: "nat \<Rightarrow> re_env \<Rightarrow> REParseState \<Rightarrow> bool \<Rightarrow> REParseState res" where
  "re_parse_disjunction 0 E s is_backward_dir = Inl (Fail ''stack overflow'')"
| "re_parse_disjunction (Suc depth) E s is_backward_dir =
     (let start = dsize (byte_code s); dj = re_parse_disjunction depth E in
      bnd (re_parse_alternative E dj s is_backward_dir) (\<lambda>s.
        disjunction_loop E dj is_backward_dir start s))"

section \<open>Compilation\<close>

definition has_flag :: "u8 \<Rightarrow> u8 \<Rightarrow> bool" where
  "has_flag flags m \<longleftrightarrow> flags AND m \<noteq> 0"

text \<open>\<open>pattern\<close> is the string with its terminating zero, \<open>buf_len\<close> its length without it.\<close>

definition re_start :: "re_env \<Rightarrow> bytes \<Rightarrow> nat \<Rightarrow> u8 \<Rightarrow> REParseState" where
  "re_start E pattern buf_len re_flags =
     \<lparr>byte_code = dbuf_init2 (env_realloc8 E), re_buf = pattern, buf_ptr = 0, buf_end = buf_len,
      is_utf16 = has_flag re_flags LRE_FLAG_UTF16,
      ignore_case = has_flag re_flags LRE_FLAG_IGNORECASE,
      dotall = has_flag re_flags LRE_FLAG_DOTALL,
      capture_count = 1, total_capture_count = -1, has_named_captures = -1,
      group_names = dbuf_init2 (env_realloc8 E)\<rparr>"

definition emit_header :: "REParseState \<Rightarrow> u8 \<Rightarrow> REParseState res" where
  "emit_header s re_flags =
     bnd (re_put s [re_flags]) (\<lambda>s. bnd (re_put s [0]) (\<lambda>s.
     bnd (re_put s [0]) (\<lambda>s. re_put s (le32 0))))"

text \<open>Unless sticky, the search over all start positions: \<open>(split; any; goto)\<close>.\<close>

definition emit_search :: "REParseState \<Rightarrow> u8 \<Rightarrow> REParseState res" where
  "emit_search s re_flags =
     (if has_flag re_flags LRE_FLAG_STICKY then Inr s
      else bnd (re_emit_op_u32 s REOP_split_goto_first (1 + 5)) (\<lambda>(_, s).
           bnd (re_emit_op s REOP_any) (\<lambda>s.
             drop_pos (re_emit_op_u32 s REOP_goto (- (5 + 1 + 5))))))"

definition finish_code :: "REParseState \<Rightarrow> REParseState res" where
  "finish_code s =
     bnd (compute_stack_size (contents (byte_code s))) (\<lambda>r. case r of
       None \<Rightarrow> Inl (Fail ''too many imbricated quantifiers'')
     | Some stack_size \<Rightarrow>
         bnd (re_patch8 s RE_HEADER_CAPTURE_COUNT (of_nat (capture_count s))) (\<lambda>s.
         bnd (re_patch8 s RE_HEADER_STACK_SIZE (of_nat stack_size)) (\<lambda>s.
           re_patch32 s 3 (of_nat (dsize (byte_code s) - RE_HEADER_LEN)))))"

definition add_group_names :: "REParseState \<Rightarrow> REParseState res" where
  "add_group_names s =
     (if dsize (group_names s) > capture_count s - 1 then
        bnd (re_put s (contents (group_names s))) (\<lambda>s.
        bnd (rd (buf (byte_code s)) RE_HEADER_FLAGS) (\<lambda>f.
          re_patch8 s RE_HEADER_FLAGS (f OR LRE_FLAG_NAMED_GROUPS)))
      else Inr s)"

definition lre_compile :: "nat \<Rightarrow> re_env \<Rightarrow> bytes \<Rightarrow> nat \<Rightarrow> u8 \<Rightarrow> bytes res" where
  "lre_compile depth E pattern buf_len re_flags =
     bnd (emit_header (re_start E pattern buf_len re_flags) re_flags) (\<lambda>s.
     bnd (emit_search s re_flags) (\<lambda>s.
     bnd (re_emit_op_u8 s REOP_save_start 0) (\<lambda>s.
     bnd (re_parse_disjunction depth E s False) (\<lambda>s.
     bnd (re_emit_op_u8 s REOP_save_end 0) (\<lambda>s.
     bnd (re_emit_op s REOP_match) (\<lambda>s.
     bnd (rd (re_buf s) (buf_ptr s)) (\<lambda>c.
       if c \<noteq> 0 then Inl (Fail ''extraneous characters at the end'')
       else bnd (re_check_error s) (\<lambda>_.
            bnd (finish_code s) (\<lambda>s.
            bnd (add_group_names s) (\<lambda>s. Inr (contents (byte_code s))))))))))))"

end
