(* ===== verification/ReStops.thy ===== *)
theory ReStops
  imports ReParse
begin

text \<open>
  The compiler of \<open>libregexp.c\<close> returns: its loops end on every pattern. The loops are guarded
  in the model by a test that the position has moved (\<open>NoFuel\<close> otherwise); here the test is
  shown never to fail, for patterns without the Unicode flag. (With it, \<open>\p{Script=..}\<close> may
  hang in \<open>unicode_script\<close> when memory runs out.)
\<close>

section \<open>The judgement\<close>

text \<open>\<open>m\<close> does not run out of its bound, and if it has a result then \<open>P\<close> holds for it.\<close>

definition runs :: "'a res \<Rightarrow> ('a \<Rightarrow> bool) \<Rightarrow> bool" where
  "runs m P \<longleftrightarrow> (case m of Inl e \<Rightarrow> e \<noteq> NoFuel | Inr x \<Rightarrow> P x)"

named_theorems runs "which functions return, and what their results satisfy"

lemma runs_Inr [simp]: "runs (Inr x) P \<longleftrightarrow> P x"
  and runs_Inl [simp]: "runs (Inl e) P \<longleftrightarrow> e \<noteq> NoFuel"
  by (simp_all add: runs_def)

lemma runs_bnd: "runs m Q \<Longrightarrow> (\<And>x. Q x \<Longrightarrow> m = Inr x \<Longrightarrow> runs (f x) P) \<Longrightarrow> runs (bnd m f) P"
  by (cases m) simp_all

lemma runs_weaken: "runs m Q \<Longrightarrow> (\<And>x. Q x \<Longrightarrow> P x) \<Longrightarrow> runs m P"
  by (cases m) simp_all

lemma runs_conj: "runs m P \<Longrightarrow> runs m Q \<Longrightarrow> runs m (\<lambda>x. P x \<and> Q x)"
  by (cases m) simp_all

lemma runs_trivial: "runs m P \<Longrightarrow> runs m (\<lambda>_. True)"
  by (rule runs_weaken) simp_all

lemma runs_rd [runs]: "runs (rd xs i) (\<lambda>x. i < length xs)"
  by (simp add: rd_def)

lemma runs_wr [runs]: "runs (wr xs i v) (\<lambda>_. True)"
  by (simp add: wr_def)

lemma runs_memcpy [runs]: "runs (memcpy xs i ys) (\<lambda>_. True)"
  by (simp add: memcpy_def)

lemma runs_put_u32 [runs]: "runs (put_u32 b i v) (\<lambda>_. True)"
  unfolding put_u32_def by (rule runs)

lemma runs_get_u16 [runs]: "runs (get_u16 b i) (\<lambda>_. True)"
  unfolding get_u16_def by (intro runs_bnd [OF runs_rd]) simp_all

section \<open>Emission\<close>

text \<open>An emission keeps everything of the state that the reading of the pattern depends on.\<close>

definition keeps :: "REParseState \<Rightarrow> REParseState \<Rightarrow> bool" where
  "keeps s s' \<longleftrightarrow> re_buf s' = re_buf s \<and> buf_end s' = buf_end s \<and> is_utf16 s' = is_utf16 s \<and>
     buf_ptr s' = buf_ptr s"

lemma keeps_refl [simp]: "keeps s s"
  by (simp add: keeps_def)

lemma keeps_trans: "keeps s s' \<Longrightarrow> keeps s' s'' \<Longrightarrow> keeps s s''"
  by (simp add: keeps_def)

lemma keeps_update [simp]:
  "keeps s (t\<lparr>byte_code := b\<rparr>) = keeps s t"
  "keeps s (t\<lparr>group_names := g\<rparr>) = keeps s t"
  "keeps s (t\<lparr>capture_count := n\<rparr>) = keeps s t"
  "keeps s (t\<lparr>has_named_captures := h\<rparr>) = keeps s t"
  "keeps s (t\<lparr>total_capture_count := k\<rparr>) = keeps s t"
  "keeps (s\<lparr>byte_code := b\<rparr>) t = keeps s t"
  "keeps (s\<lparr>group_names := g\<rparr>) t = keeps s t"
  "keeps (s\<lparr>capture_count := n\<rparr>) t = keeps s t"
  "keeps (s\<lparr>has_named_captures := h\<rparr>) t = keeps s t"
  "keeps (s\<lparr>total_capture_count := k\<rparr>) t = keeps s t"
  by (simp_all add: keeps_def)

lemma runs_dbuf_put [runs]: "runs (dbuf_put b bs) (\<lambda>_. True)"
  by (auto simp: dbuf_put_def Let_def split: prod.splits intro!: runs_bnd [OF runs_memcpy])

lemma runs_dbuf_put_self [runs]: "runs (dbuf_put_self b i n) (\<lambda>_. True)"
  by (auto simp: dbuf_put_self_def Let_def split: prod.splits intro!: runs_bnd [OF runs_memcpy])

lemma runs_dbuf_insert [runs]: "runs (dbuf_insert b i n) (\<lambda>_. True)"
  by (auto simp: dbuf_insert_def Let_def split: prod.splits intro!: runs_bnd [OF runs_memcpy])

lemma runs_re_put [runs]: "runs (re_put s bs) (keeps s)"
  unfolding re_put_def by (rule runs_bnd [OF runs_dbuf_put]) auto

lemma runs_re_put_self [runs]: "runs (re_put_self s i n) (keeps s)"
  unfolding re_put_self_def by (rule runs_bnd [OF runs_dbuf_put_self]) auto

lemma runs_put_group_name [runs]: "runs (put_group_name s n) (keeps s)"
  unfolding put_group_name_def by (rule runs_bnd [OF runs_dbuf_put]) auto

lemma runs_re_emit_op [runs]: "runs (re_emit_op s op) (keeps s)"
  unfolding re_emit_op_def by (rule runs)

text \<open>Two emissions in a row.\<close>

lemma runs_then:
  assumes "runs m (keeps s)"
    and "\<And>s'. keeps s s' \<Longrightarrow> m = Inr s' \<Longrightarrow> runs (f s') (\<lambda>x. keeps s' (g x))"
  shows "runs (bnd m f) (\<lambda>x. keeps s (g x))"
  using assms(1)
proof (rule runs_bnd)
  fix s' assume "keeps s s'" and "m = Inr s'"
  then have "runs (f s') (\<lambda>x. keeps s' (g x))" by (rule assms(2))
  then show "runs (f s') (\<lambda>x. keeps s (g x))"
    by (rule runs_weaken) (rule keeps_trans [OF \<open>keeps s s'\<close>])
qed

lemma runs_then0:
  "runs m (keeps s) \<Longrightarrow> (\<And>s'. keeps s s' \<Longrightarrow> m = Inr s' \<Longrightarrow> runs (f s') (keeps s')) \<Longrightarrow>
   runs (bnd m f) (keeps s)"
  using runs_then [where g = "\<lambda>x. x"] by auto

lemma runs_re_emit_op_u8 [runs]: "runs (re_emit_op_u8 s op v) (keeps s)"
  and runs_re_emit_op_u16 [runs]: "runs (re_emit_op_u16 s op v) (keeps s)"
  unfolding re_emit_op_u8_def re_emit_op_u16_def by (intro runs_then0 runs)+

lemma runs_re_emit_op_u32 [runs]: "runs (re_emit_op_u32 s op v) (\<lambda>x. keeps s (snd x))"
  unfolding re_emit_op_u32_def Let_def by (intro runs_then runs) simp

lemma runs_re_emit_goto [runs]: "runs (re_emit_goto s op v) (\<lambda>x. keeps s (snd x))"
  unfolding re_emit_goto_def Let_def by (intro runs_then runs) simp

lemma runs_pair_then:
  assumes "runs m (\<lambda>x. keeps s (snd x))"
    and "\<And>p s'. keeps s s' \<Longrightarrow> m = Inr (p, s') \<Longrightarrow> runs (f (p, s')) (keeps s')"
  shows "runs (bnd m f) (keeps s)"
  using assms(1)
proof (rule runs_bnd)
  fix x assume *: "keeps s (snd x)" and "m = Inr x"
  then have "runs (f x) (keeps (snd x))" by (cases x) (simp add: assms(2))
  then show "runs (f x) (keeps s)"
    by (rule runs_weaken) (rule keeps_trans [OF *])
qed

lemma runs_drop_pos [runs]: "runs m (\<lambda>x. keeps s (snd x)) \<Longrightarrow> runs (drop_pos m) (keeps s)"
  unfolding drop_pos_def by (rule runs_pair_then) simp_all

lemma runs_re_patch32 [runs]: "runs (re_patch32 s p v) (keeps s)"
  unfolding re_patch32_def by (rule runs_bnd [OF runs_put_u32]) simp

lemma runs_re_patch8 [runs]: "runs (re_patch8 s p v) (keeps s)"
  unfolding re_patch8_def by (rule runs_bnd [OF runs_wr]) simp

lemma runs_re_insert [runs]: "runs (re_insert s p n) (keeps s)"
  unfolding re_insert_def by (rule runs_bnd [OF runs_dbuf_insert]) auto

lemma runs_re_check_error [runs]: "runs (re_check_error s) (\<lambda>_. True)"
  by (simp add: re_check_error_def)

lemma runs_put_range16 [runs]: "runs (put_range16 s ps) (keeps s)"
proof (induction s ps rule: put_range16.induct)
  case (1 s lo hi ps)
  then show ?case by (auto simp: Let_def intro!: runs_then0 [OF runs_re_put])
qed simp_all

lemma runs_put_range32 [runs]: "runs (put_range32 s ps) (keeps s)"
proof (induction s ps rule: put_range32.induct)
  case (1 s lo hi ps)
  then show ?case by (auto intro!: runs_then0 [OF runs_re_put])
qed simp_all

lemma runs_re_emit_range [runs]: "runs (re_emit_range s cr) (keeps s)"
proof -
  have *: "runs (if b then bnd (re_emit_op_u16 s op n) (\<lambda>s. put_range16 s ps)
      else bnd (re_emit_op_u16 s op' n) (\<lambda>s. put_range32 s ps)) (keeps s)" for b op op' n ps
    by (cases b) (auto intro!: runs_then0 runs)
  have read: "runs (if b then rd xs i else Inr x) (\<lambda>_. True)" for b i x and xs :: "u32 list"
    by (simp add: rd_def)
  have empty: "runs (bnd (re_emit_op_u32 s REOP_char32 (- 1)) (\<lambda>(_, s). Inr s)) (keeps s)"
    by (rule runs_pair_then [OF runs_re_emit_op_u32]) simp
  show ?thesis
    unfolding re_emit_range_def Let_def
    using empty by (simp del: rd_Inr) (intro impI runs_bnd [OF runs_rd] runs_bnd [OF read] *)
qed

section \<open>Tables and ranges\<close>

lemma runs_bnd_rd [simp]: "runs (bnd (rd xs i) f) P \<longleftrightarrow> (i < length xs \<longrightarrow> runs (f (xs ! i)) P)"
  by (simp add: rd_def)

lemma runs_bnd_any: "runs m (\<lambda>_. True) \<Longrightarrow> (\<And>x. m = Inr x \<Longrightarrow> runs (f x) P) \<Longrightarrow> runs (bnd m f) P"
  by (rule runs_bnd)

lemma runs_get_le24: "runs (get_le24 tab i) (\<lambda>_. True)"
  by (simp add: get_le24_def)

lemma runs_index_search: "runs (index_search c tab lo hi) (\<lambda>_. True)"
proof (induction c tab lo hi rule: index_search.induct)
  case (1 c tab lo hi)
  then show ?case
    by (subst index_search.simps) (auto simp: Let_def intro!: runs_bnd_any [OF runs_get_le24])
qed

lemma runs_get_index_pos: "runs (get_index_pos c tab n) (\<lambda>_. True)"
  unfolding get_index_pos_def
  by (auto intro!: runs_bnd_any [OF runs_get_le24] runs_bnd_any [OF runs_index_search])

lemma runs_run_entry: "runs (run_entry tab p) (\<lambda>_. True)"
  by (simp add: run_entry_def Let_def)

lemma runs_table_scan: "runs (table_scan c tab p code b) (\<lambda>_. True)"
proof (induction c tab p code b rule: table_scan.induct)
  case (1 c tab p code b)
  then show ?case
    by (subst table_scan.simps)
      (auto intro!: runs_bnd_any [OF runs_run_entry] split: sum.splits)
qed

lemma runs_lre_is_in_table: "runs (lre_is_in_table c tab ix n) (\<lambda>_. True)"
  unfolding lre_is_in_table_def
  by (rule runs_bnd_any [OF runs_get_index_pos]) (auto simp: runs_table_scan split: option.splits)

lemma runs_lre_is_id_start: "runs (lre_is_id_start c) (\<lambda>_. True)"
  unfolding lre_is_id_start_def by (rule runs_lre_is_in_table)

lemma runs_lre_is_id_continue: "runs (lre_is_id_continue c) (\<lambda>_. True)"
  unfolding lre_is_id_continue_def
  by (rule runs_bnd_any [OF runs_lre_is_id_start]) (simp add: runs_lre_is_in_table)

lemma runs_lre_js_is_ident_first [runs]: "runs (lre_js_is_ident_first c) (\<lambda>_. True)"
  by (simp add: lre_js_is_ident_first_def runs_lre_is_id_start)

lemma runs_lre_js_is_ident_next [runs]: "runs (lre_js_is_ident_next c) (\<lambda>_. True)"
  unfolding lre_js_is_ident_next_def
  by (auto intro!: runs_bnd_any [OF runs_lre_is_id_continue])

lemma runs_lre_canonicalize [runs]: "runs (lre_canonicalize c u) (\<lambda>_. True)"
proof -
  have "runs (bnd (lre_case_conv c t) f) P"
    if "\<And>cs. cs \<noteq> [] \<Longrightarrow> runs (f cs) P" for t P and f :: "u32 list \<Rightarrow> u32 res"
    using lre_case_conv_result [of c t] that by (auto simp: cc_result_def)
  then show ?thesis
    unfolding lre_canonicalize_def by (auto simp: rd_def)
qed

lemma runs_cr_add_point: "runs (cr_add_point cr v) (\<lambda>_. True)"
  unfolding cr_add_point_def Let_def
  by (auto split: prod.splits intro!: runs_bnd_any [OF runs_wr])

lemma runs_cr_op_loop: "runs (cr_op_loop cr a i b j op) (\<lambda>_. True)"
proof (induction cr a i b j op rule: cr_op_loop.induct)
  case (1 cr a i b j op)
  then show ?case
    by (subst cr_op_loop.simps)
      (auto intro!: runs_bnd_any [OF runs_cr_add_point] split: option.splits prod.splits)
qed

lemma runs_cr_compress_loop: "runs (cr_compress_loop pt len i k) (\<lambda>_. True)"
proof (induction pt len i k rule: cr_compress_loop.induct)
  case (1 pt len i k)
  then show ?case
    by (subst cr_compress_loop.simps) (auto simp: Let_def intro!: runs_bnd_any [OF runs_wr])
qed

lemma runs_cr_compress: "runs (cr_compress cr) (\<lambda>_. True)"
  unfolding cr_compress_def by (rule runs_bnd_any [OF runs_cr_compress_loop]) auto

lemma runs_cr_op: "runs (cr_op cr a b op) (\<lambda>_. True)"
  unfolding cr_op_def
  by (rule runs_bnd_any [OF runs_cr_op_loop]) (auto intro!: runs_bnd_any [OF runs_cr_compress])

lemma runs_cr_union1: "runs (cr_union1 cr b) (\<lambda>_. True)"
  by (simp add: cr_union1_def Let_def runs_cr_op)

lemma runs_cr_union_interval: "runs (cr_union_interval cr a b) (\<lambda>_. True)"
  by (simp add: cr_union_interval_def runs_cr_union1)

lemma runs_cr_invert: "runs (cr_invert cr) (\<lambda>_. True)"
  unfolding cr_invert_def Let_def
  by (auto split: prod.splits
      intro!: runs_bnd_any [OF runs_wr] runs_bnd_any [OF runs_memcpy] runs_bnd_any [OF runs_cr_compress])

lemma runs_cr_canonicalize: "runs (cr_canonicalize E cr) (\<lambda>_. True)"
  unfolding cr_canonicalize_def
  by (rule runs_bnd_any [OF runs_cr_op]) (auto simp: runs_cr_union1)

lemma runs_then_cr: "runs m (\<lambda>_. True) \<Longrightarrow> (\<And>cr. runs (f cr) (\<lambda>_. True)) \<Longrightarrow> runs (then_cr m f) (\<lambda>_. True)"
  unfolding then_cr_def by (rule runs_bnd_any) auto

lemma runs_add_points: "runs (add_points ps cr) (\<lambda>_. True)"
  by (induction ps arbitrary: cr) (auto intro!: runs_then_cr runs_cr_add_point)

lemma runs_cr_init_char_range: "runs (cr_init_char_range E k) (\<lambda>_. True)"
  unfolding cr_init_char_range_def Let_def
  by (auto split: prod.splits intro!: runs_then_cr runs_add_points runs_cr_invert)

lemma runs_cr_check [runs]: "runs m (\<lambda>_. True) \<Longrightarrow> runs (cr_check m) (\<lambda>_. True)"
  unfolding cr_check_def by (rule runs_bnd_any) auto

section \<open>Reading the pattern moves the position\<close>

lemma runs_digits_loop: "runs (digits_loop b a p v) (\<lambda>(_, p'). p \<le> p')"
proof (induction b a p v rule: digits_loop.induct)
  case (1 b a p v)
  have "runs (digits_loop b a (p + 1) w) (\<lambda>(_, p'). p \<le> p')"
    if "runs (digits_loop b a (p + 1) w) (\<lambda>(_, p'). p + 1 \<le> p')" for w
    using that by (rule runs_weaken) auto
  with 1 show ?case
    by (subst digits_loop.simps) (auto simp: Let_def)
qed

lemma runs_parse_digits: "runs (parse_digits b p a) (\<lambda>(_, p'). p \<le> p')"
  unfolding parse_digits_def by (rule runs_bnd [OF runs_digits_loop]) auto

lemma runs_hex_digits: "runs (hex_digits b p n c) (\<lambda>_. True)"
  by (induction b p n c rule: hex_digits.induct) (auto split: option.splits)

lemma runs_hex_braces: "runs (hex_braces b p c) (\<lambda>r. \<forall>c p'. r = Some (c, p') \<longrightarrow> p < p')"
proof (induction b p c rule: hex_braces.induct)
  case (1 b p c)
  have "runs (hex_braces b (p + 1) w) (\<lambda>r. \<forall>c p'. r = Some (c, p') \<longrightarrow> p < p')"
    if "runs (hex_braces b (p + 1) w) (\<lambda>r. \<forall>c p'. r = Some (c, p') \<longrightarrow> p + 1 < p')" for w
    using that by (rule runs_weaken) auto
  with 1 show ?case
    by (subst hex_braces.simps) (auto simp: Let_def split: option.splits)
qed

lemma runs_hex_digits_bnd:
  "f None = Inr EMalformed \<Longrightarrow> (\<And>c. runs (f (Some c)) P) \<Longrightarrow> P EMalformed \<Longrightarrow> runs (bnd (hex_digits b p n 0) f) P"
  by (rule runs_bnd_any [OF runs_hex_digits]) (metis not_None_eq runs_Inr)

definition esc_after :: "nat \<Rightarrow> escape \<Rightarrow> bool" where
  "esc_after p r \<longleftrightarrow> (case r of EChar c p' \<Rightarrow> p < p' | _ \<Rightarrow> True)"

lemma esc_after_simps [simp]:
  "esc_after p (EChar c p') \<longleftrightarrow> p < p'" "esc_after p EMalformed" "esc_after p ENone"
  by (simp_all add: esc_after_def)

lemma runs_escape_hex: "runs (escape_hex b p c0 u) (esc_after p)"
proof -
  have braces: "runs (bnd (hex_braces b q 0) (\<lambda>r. case r of
      None \<Rightarrow> Inr EMalformed | Some (c, p) \<Rightarrow> Inr (EChar c p))) (esc_after p)" if "p \<le> q" for q
    using that by (intro runs_bnd [OF runs_hex_braces]) (auto split: option.splits)
  have pair: "runs (bnd (hex_digits b q 4 0) (\<lambda>r. case r of
      None \<Rightarrow> Inr (EChar c p') | Some c1 \<Rightarrow> f c1)) (esc_after p)"
    if "p < p'" and "\<And>c1. runs (f c1) (esc_after p)" for q c p' f
    using that by (intro runs_bnd_any [OF runs_hex_digits]) (auto split: option.splits)
  show ?thesis
    unfolding escape_hex_def Let_def
    by (auto intro!: braces pair runs_bnd_any [OF runs_hex_digits] split: option.splits)
qed

lemma runs_escape_octal: "runs (escape_octal b p c u) (esc_after (p - 1))" if "0 < p"
  using that unfolding escape_octal_def Let_def by auto

lemma runs_lre_parse_escape: "runs (lre_parse_escape b p u) (esc_after p)"
  unfolding lre_parse_escape_def Let_def
  using runs_escape_octal [of "p + 1" b _ u]
  by (auto intro!: runs_weaken [OF runs_escape_hex] simp: esc_after_def split: escape.splits)

lemma runs_utf8_cont: "runs (utf8_cont b p n c) (\<lambda>_. True)"
  by (induction b p n c rule: utf8_cont.induct) auto

lemma runs_unicode_from_utf8: "runs (unicode_from_utf8 b p m) (\<lambda>r. \<forall>c p'. r = Some (c, p') \<longrightarrow> p < p')"
  unfolding unicode_from_utf8_def Let_def
  by (auto intro!: runs_bnd_any [OF runs_utf8_cont] split: option.splits)

lemma runs_normal_char: "runs (normal_char s p c) (\<lambda>(_, p'). p < p')"
proof -
  have "runs (bnd (unicode_from_utf8 b p m) (\<lambda>r. case r of None \<Rightarrow> Inl (Fail msg)
      | Some (c, p) \<Rightarrow> f c p)) (\<lambda>(_, p'). p < p')"
    if "\<And>c p'. p < p' \<Longrightarrow> runs (f c p') (\<lambda>(_, p'). p < p')" for b m msg f
    using that by (intro runs_bnd [OF runs_unicode_from_utf8]) (auto split: option.splits)
  from this [of "\<lambda>c p'. if c > 0xffff \<and> \<not> is_utf16 s then Inl (Fail ''malformed unicode char'')
            else if c \<ge> CLASS_RANGE_BASE then Inl Undef
            else Inr (Atom_char c, p')"]
  show ?thesis by (auto simp: normal_char_def)
qed

lemma runs_atom_escape:
  assumes "\<not> is_utf16 s"
  shows "runs (atom_escape E s p c inclass) (\<lambda>(_, p'). p \<le> p')"
proof -
  have normal: "runs (normal_char s p c) (\<lambda>(_, p'). p \<le> p')" for c
    using runs_normal_char by (rule runs_weaken) auto
  have esc: "runs (bnd (lre_parse_escape (re_buf s) p 0) (\<lambda>r. case r of
              EChar c p \<Rightarrow> Inr (Atom_char c, p) | ENone \<Rightarrow> normal_char s p c
            | EMalformed \<Rightarrow> normal_char s p c)) (\<lambda>(_, p'). p \<le> p')"
    by (rule runs_bnd [OF runs_lre_parse_escape]) (auto simp: normal split: escape.splits)
  show ?thesis
    unfolding atom_escape_def using assms esc
    by (auto split: option.splits intro!: runs_bnd_any [OF runs_cr_init_char_range] normal)
qed

lemma runs_get_class_atom:
  assumes "\<not> is_utf16 s"
  shows "runs (get_class_atom E s p inclass) (\<lambda>(_, p'). p < p')"
proof -
  have "runs (atom_escape E s (p + 1) c inclass) (\<lambda>(_, p'). p < p')" for c
    using runs_atom_escape [OF assms] by (rule runs_weaken) auto
  then show ?thesis
    unfolding get_class_atom_def by (auto simp: runs_normal_char)
qed

subsection \<open>Classes\<close>

lemma runs_class_add: "runs (class_add cr a) (\<lambda>_. True)"
  unfolding class_add_def
  by (auto split: class_atom.splits intro!: runs_cr_check runs_cr_union1 runs_cr_union_interval)

lemma runs_class_item:
  assumes u: "\<not> is_utf16 s"
  shows "runs (class_item E s cr p) (\<lambda>(_, p'). p < p')"
proof -
  have add: "runs (bnd (class_add cr a) (\<lambda>cr. Inr (cr, q))) (\<lambda>(_, p'). p < p')" if "p < q" for a q
    using that by (intro runs_bnd_any [OF runs_class_add]) simp
  have union: "runs (bnd (cr_check (cr_union_interval cr a b)) (\<lambda>cr. Inr (cr, q))) (\<lambda>(_, p'). p < p')"
    if "p < q" for a b q
    using that by (intro runs_bnd_any [OF runs_cr_check [OF runs_cr_union_interval]]) simp
  have sep: "runs (if b then rd xs i else Inr y) (\<lambda>_. True)" for b i y and xs :: bytes
    by (simp add: rd_def)
  have second: "runs (bnd (get_class_atom E s q True) f) (\<lambda>(_, p'). p < p')"
    if "\<And>a q'. q < q' \<Longrightarrow> runs (f (a, q')) (\<lambda>(_, p'). p < p')"
    for q and f :: "class_atom \<times> nat \<Rightarrow> (CharRange \<times> nat) res"
    using that by (intro runs_bnd [OF runs_get_class_atom [OF u]]) auto
  have tail: "runs (bnd (rd (re_buf s) q) (\<lambda>x0.
     bnd (if x0 = ch CHR ''-'' then rd (re_buf s) (q + 1) else Inr (ch CHR '']'')) (\<lambda>x1.
       if x1 \<noteq> ch CHR '']'' then
         (case c1 of
            Atom_range _ \<Rightarrow>
              if is_utf16 s then Inl (Fail ''invalid class range'')
              else bnd (class_add cr c1) (\<lambda>cr. Inr (cr, q))
          | Atom_char a \<Rightarrow>
              bnd (get_class_atom E s (q + 1) True) (\<lambda>(c2, p0). case c2 of
                Atom_range _ \<Rightarrow>
                  if is_utf16 s then Inl (Fail ''invalid class range'')
                  else bnd (class_add cr c1) (\<lambda>cr. Inr (cr, q))
              | Atom_char b \<Rightarrow>
                  if b < a then Inl (Fail ''invalid class range'')
                  else bnd (cr_check (cr_union_interval cr a b)) (\<lambda>cr. Inr (cr, p0))))
       else bnd (class_add cr c1) (\<lambda>cr. Inr (cr, q))))) (\<lambda>(_, p'). p < p')"
    if "p < q" for q c1
    using that u
    by (auto intro!: runs_bnd_any [OF sep] add second union split: class_atom.splits)
  show ?thesis
    unfolding class_item_def
    by (rule runs_bnd [OF runs_get_class_atom [OF u]], unfold split_paired_all prod.case) (rule tail)
qed

lemma runs_class_loop:
  "\<not> is_utf16 s \<Longrightarrow> runs (class_loop E s cr p) (\<lambda>(_, p'). p \<le> p')"
proof (induction E s cr p rule: class_loop.induct)
  case (1 E s cr p)
  have "runs (bnd (class_item E s cr p) (\<lambda>(cr, p').
         if p' \<le> p then Inl NoFuel else class_loop E s cr p')) (\<lambda>(_, p'). p \<le> p')"
    if p: "p < length (re_buf s)" "re_buf s ! p \<noteq> ch CHR '']''"
  proof (rule runs_bnd [OF runs_class_item [OF "1.prems"]], clarify)
    fix cr' p' assume *: "p < p'" "class_item E s cr p = Inr (cr', p')"
    then have "runs (class_loop E s cr' p') (\<lambda>(_, p''). p' \<le> p'')"
      using "1.IH" [of "re_buf s ! p" "(cr', p')" cr' p'] p "1.prems" by auto
    then have "runs (class_loop E s cr' p') (\<lambda>(_, p''). p \<le> p'')"
      by (rule runs_weaken) (use * in auto)
    with * show "runs (if p' \<le> p then Inl NoFuel else class_loop E s cr' p') (\<lambda>(_, p'). p \<le> p')"
      by simp
  qed
  then show ?case by (subst class_loop.simps) auto
qed

lemma runs_re_parse_char_class:
  assumes u: "\<not> is_utf16 s"
  shows "runs (re_parse_char_class E s p) (\<lambda>(p', s'). p < p' \<and> keeps s s')"
proof -
  have maybe: "runs (if b then cr_check m else Inr cr) (\<lambda>_. True)" if "runs m (\<lambda>_. True)" for b cr m
    using that by (simp add: runs_cr_check)
  have body: "runs (bnd (class_loop E s (cr_init (env_realloc32 E)) q) (\<lambda>(cr, p).
     bnd (if ignore_case s then cr_check (cr_canonicalize E cr) else Inr cr) (\<lambda>cr.
     bnd (if i then cr_check (cr_invert cr) else Inr cr) (\<lambda>cr.
     bnd (re_emit_range s cr) (\<lambda>s. Inr (p + 1, s)))))) (\<lambda>(p', s'). p < p' \<and> keeps s s')"
    if "p < q" for q i
    using that
    by (intro runs_bnd [OF runs_class_loop [OF u]])
      (auto intro!: runs_bnd_any [OF maybe [OF runs_cr_canonicalize]]
        runs_bnd_any [OF maybe [OF runs_cr_invert]] runs_bnd [OF runs_re_emit_range])
  show ?thesis
    unfolding re_parse_char_class_def Let_def runs_bnd_rd by (intro impI body) auto
qed

section \<open>Scans of bytecode and names\<close>

lemma runs_if: "(b \<Longrightarrow> runs x P) \<Longrightarrow> (\<not> b \<Longrightarrow> runs y P) \<Longrightarrow> runs (if b then x else y) P"
  by simp

lemmas runs_bnd_rd_any = runs_bnd_any [OF runs_trivial [OF runs_rd]]

lemma runs_op_size: "runs (op_size opcode) (\<lambda>_. True)"
  by (simp add: op_size_def rd_def)

lemma runs_bc_instr: "runs (bc_instr bc p) (\<lambda>_. True)"
  unfolding bc_instr_def
  by (auto intro!: runs_bnd_any [OF runs_op_size] runs_bnd_any [OF runs_get_u16])

lemma runs_set_mark: "runs (set_mark bm i m) (\<lambda>_. True)"
  by (simp add: set_mark_def wr_def)

lemma runs_set_marks: "runs (set_marks bm is) (\<lambda>_. True)"
  by (induction bm "is" rule: set_marks.induct) (auto intro!: runs_bnd_any [OF runs_set_mark])

lemma runs_advance_loop: "runs (advance_loop bc p r bm h) (\<lambda>_. True)"
proof (induction bc p r bm h rule: advance_loop.induct)
  case (1 bc p r bm h)
  show ?case
  proof (cases "bc_instr bc p")
    case (Inl e)
    with runs_bc_instr [of bc p] show ?thesis by (simp add: advance_loop.simps [of bc p])
  next
    case (Inr x)
    then obtain opcode len where x: "bc_instr bc p = Inr (opcode, len)" by (cases x) auto
    note IH = "1.IH" [OF _ x refl]
    show ?thesis
      unfolding advance_loop.simps [of bc p] x bnd_Inr prod.case
      by (intro runs_if runs_bnd_rd_any runs_bnd_any [OF runs_set_mark] runs_bnd_any [OF runs_set_marks])
        ((rule IH, assumption+) | simp)+
  qed
qed

lemma runs_re_check_advance: "runs (re_check_advance bc) (\<lambda>_. True)"
  unfolding re_check_advance_def by (rule runs_bnd_any [OF runs_advance_loop]) auto

lemma runs_simple_loop: "runs (simple_loop bc p n) (\<lambda>_. True)"
proof (induction bc p n rule: simple_loop.induct)
  case (1 bc p n)
  then show ?case
    by (subst simple_loop.simps) (auto intro!: runs_bnd_any [OF runs_bc_instr])
qed

lemma runs_stack_loop: "runs (stack_loop bc p n m) (\<lambda>_. True)"
proof (induction bc p n m rule: stack_loop.induct)
  case (1 bc p n m)
  then show ?case
    by (subst stack_loop.simps)
      (auto simp: Let_def intro!: runs_bnd_any [OF runs_bc_instr] runs_bnd_any [OF runs_op_size])
qed

lemma runs_name_char: "runs (name_char b p c u) (\<lambda>r. \<forall>c p'. r = Some (c, p') \<longrightarrow> p < p')"
proof -
  have esc: "runs (bnd (lre_parse_escape b q v) (\<lambda>r. case r of
            EChar c p \<Rightarrow> Inr (Some (c, p)) | _ \<Rightarrow> Inr None)) (\<lambda>r. \<forall>c p'. r = Some (c, p') \<longrightarrow> p < p')"
    if "p \<le> q" for q v
    using that by (intro runs_bnd [OF runs_lre_parse_escape]) (auto split: escape.splits)
  show ?thesis
    unfolding name_char_def by (auto intro!: esc runs_unicode_from_utf8)
qed

lemma runs_group_name_loop: "runs (group_name_loop b p u name) (\<lambda>r. \<forall>n p'. r = Some (n, p') \<longrightarrow> p < p')"
proof (induction b p u name rule: group_name_loop.induct)
  case (1 b p u name)
  have chk: "runs (if name = [] then lre_js_is_ident_first c else lre_js_is_ident_next c) (\<lambda>_. True)" for c
    by (simp add: runs)
  have weak: "runs m (\<lambda>r. \<forall>n q. r = Some (n, q) \<longrightarrow> p < q)"
    if "p < p'" and "runs m (\<lambda>r. \<forall>n q. r = Some (n, q) \<longrightarrow> p' < q)" for m p'
    using that(2) by (rule runs_weaken) (use that(1) in auto)
  have "runs (bnd (name_char b p c u) (\<lambda>r. case r of
         None \<Rightarrow> Inr None
       | Some (c, p') \<Rightarrow>
           if c > 0x10FFFF then Inr None
           else bnd (if name = [] then lre_js_is_ident_first c else lre_js_is_ident_next c) (\<lambda>ok.
             if \<not> ok then Inr None
             else if length name + UTF8_CHAR_LEN_MAX + 1 > TMP_BUF_SIZE then Inr None
             else if p' \<le> p then Inl NoFuel
             else group_name_loop b p' u (name @ unicode_to_utf8 c))))
      (\<lambda>r. \<forall>n p'. r = Some (n, p') \<longrightarrow> p < p')"
    if c: "rd b p = Inr c" "c \<noteq> ch CHR ''>''" for c
  proof (rule runs_bnd [OF runs_name_char], goal_cases)
    case (1 r)
    show ?case
    proof (cases r)
      case (Some x)
      obtain w p' where x: "x = (w, p')" by (cases x)
      with 1 Some have "p < p'" by auto
      with Some x show ?thesis
        by (simp only: option.case prod.case)
          (intro runs_if runs_bnd_any [OF chk] weak [OF \<open>p < p'\<close>] "1.IH" [OF c 1(2) Some x [symmetric]],
            simp_all)
    qed simp
  qed
  then show ?case by (subst group_name_loop.simps) (auto simp: rd_eq_Inr)
qed

lemma runs_re_parse_group_name: "runs (re_parse_group_name b p u) (\<lambda>r. \<forall>n p'. r = Some (n, p') \<longrightarrow> p < p')"
  unfolding re_parse_group_name_def by (rule runs_group_name_loop)

lemma runs_skip_class: "runs (skip_class b lim p) (\<lambda>_. True)"
proof (induction b lim p rule: skip_class.induct)
  case (1 b lim p)
  then show ?case by (subst skip_class.simps) (auto simp: rd_def)
qed

lemma runs_captures_group: "runs (captures_group b u nm p i) (\<lambda>_. True)"
proof -
  have "runs (bnd (re_parse_group_name b (p + 3) u) (\<lambda>r. case r of
                 None \<Rightarrow> Inr (None, p + 3, Suc i, True)
               | Some (name, p') \<Rightarrow>
                   if name = n then Inr (Some i, p', i, True)
                   else if p' \<le> p then Inl NoFuel
                   else Inr (None, p', i + 1, True))) (\<lambda>_. True)" for n
    by (rule runs_bnd [OF runs_re_parse_group_name]) (auto split: option.splits)
  then show ?thesis
    unfolding captures_group_def by (auto split: option.splits)
qed

lemma runs_captures_loop: "runs (captures_loop b lim u nm p i h) (\<lambda>_. True)"
proof (induction b lim u nm p i h rule: captures_loop.induct)
  case (1 b lim u nm p i h)
  then show ?case
    by (subst captures_loop.simps)
      (auto simp: Let_def rd_def
        intro!: runs_bnd_any [OF runs_captures_group] runs_bnd_any [OF runs_skip_class] split: option.splits)
qed

lemma runs_re_parse_captures: "runs (re_parse_captures s nm) (\<lambda>_. True)"
  unfolding re_parse_captures_def by (rule runs_captures_loop)

lemma runs_re_count_captures: "runs (re_count_captures s) (\<lambda>(_, s'). keeps s s')"
  unfolding re_count_captures_def by (auto intro!: runs_bnd_any [OF runs_re_parse_captures])

lemma runs_re_has_named_captures: "runs (re_has_named_captures s) (\<lambda>(_, s'). keeps s s')"
  unfolding re_has_named_captures_def
  by (rule runs_bnd [where Q = "keeps s"])
    (auto intro!: runs_bnd [OF runs_re_count_captures])

lemma runs_group_name_search: "runs (group_name_search b lim name p i) (\<lambda>_. True)"
proof (induction b lim name p i rule: group_name_search.induct)
  case (1 b lim name p i)
  then show ?case by (subst group_name_search.simps) (auto simp: Let_def)
qed

lemma runs_find_group_name: "runs (find_group_name s name) (\<lambda>_. True)"
  unfolding find_group_name_def by (rule runs_group_name_search)

section \<open>Terms\<close>

text \<open>The pattern and its mode stay; the position may move.\<close>

definition same_src :: "REParseState \<Rightarrow> REParseState \<Rightarrow> bool" where
  "same_src s s' \<longleftrightarrow> re_buf s' = re_buf s \<and> buf_end s' = buf_end s \<and> is_utf16 s' = is_utf16 s"

lemma same_src_refl [simp]: "same_src s s"
  by (simp add: same_src_def)

lemma same_src_trans [trans]: "same_src s s' \<Longrightarrow> same_src s' s'' \<Longrightarrow> same_src s s''"
  by (simp add: same_src_def)

lemma same_src_update [simp]: "same_src s (t\<lparr>buf_ptr := p\<rparr>) = same_src s t"
  "same_src (s\<lparr>buf_ptr := p\<rparr>) t = same_src s t"
  by (simp_all add: same_src_def)

lemma keeps_iff: "keeps s s' \<longleftrightarrow> same_src s s' \<and> buf_ptr s' = buf_ptr s"
  by (auto simp: keeps_def same_src_def)

definition forward :: "REParseState \<Rightarrow> REParseState \<Rightarrow> bool" where
  "forward s s' \<longleftrightarrow> same_src s s' \<and> buf_ptr s \<le> buf_ptr s'"

text \<open>The result of an atom that began at \<open>p0\<close>.\<close>

definition atom_after :: "REParseState \<Rightarrow> nat \<Rightarrow> (nat \<times> nat) option \<times> nat \<times> REParseState \<Rightarrow> bool" where
  "atom_after s p0 = (\<lambda>(la, p, s'). same_src s s' \<and> p0 < p)"

lemma atom_after_weaken: "runs m (atom_after s p) \<Longrightarrow> p0 \<le> p \<Longrightarrow> runs m (atom_after s p0)"
  by (erule runs_weaken) (auto simp: atom_after_def)

lemma atom_after_keeps: "runs m (atom_after s' p) \<Longrightarrow> same_src s s' \<Longrightarrow> runs m (atom_after s p)"
  by (erule runs_weaken) (auto simp: atom_after_def intro: same_src_trans)

lemma runs_re_emit_prev [runs]: "runs (re_emit_prev s d) (keeps s)"
  by (simp add: re_emit_prev_def runs_re_emit_op)

text \<open>A sequence of emissions before an atom's result.\<close>

lemma runs_emit_atom:
  assumes "runs m (keeps s)"
    and "\<And>s'. keeps s s' \<Longrightarrow> runs (f s') (atom_after s' p)"
  shows "runs (bnd m f) (atom_after s p)"
  using assms(1)
proof (rule runs_bnd)
  fix s' assume "keeps s s'"
  then show "runs (f s') (atom_after s p)"
    by (intro atom_after_keeps [OF assms(2)]) (auto simp: keeps_iff)
qed

lemma runs_normal_atom:
  assumes "p0 < p"
  shows "runs (normal_atom s d atom p) (atom_after s p0)"
proof -
  have emit: "runs (case atom of
             Atom_range cr \<Rightarrow> re_emit_range s cr
           | Atom_char c \<Rightarrow>
               bnd (if ignore_case s then lre_canonicalize c (is_utf16 s) else Inr c) (\<lambda>c.
                 if c \<le> 0xffff then re_emit_op_u16 s REOP_char c
                 else bnd (re_emit_op_u32 s REOP_char32 c) (\<lambda>(_, s). Inr s))) (keeps s)" for s
  proof (cases atom)
    case (Atom_char c)
    have canon: "runs (if ignore_case s then lre_canonicalize c (is_utf16 s) else Inr c) (\<lambda>_. True)"
      by (simp add: runs)
    have wide: "runs (bnd (re_emit_op_u32 s REOP_char32 c) (\<lambda>(_, s). Inr s)) (keeps s)" for c
      by (rule runs_pair_then [OF runs_re_emit_op_u32]) simp
    show ?thesis
      unfolding Atom_char class_atom.case
      by (rule runs_bnd_any [OF canon]) (simp add: runs wide)
  qed (simp add: runs)
  show ?thesis
    unfolding normal_atom_def Let_def using assms
    by (intro runs_emit_atom runs_re_emit_prev emit) (simp add: atom_after_def)
qed

lemma runs_parse_class_atom:
  assumes "\<not> is_utf16 s"
  shows "runs (parse_class_atom E s d) (atom_after s (buf_ptr s))"
  unfolding parse_class_atom_def
  by (rule runs_bnd [OF runs_get_class_atom [OF assms]]) (auto intro: runs_normal_atom)

lemma runs_term_dot: "runs (term_dot s d) (atom_after s (buf_ptr s))"
  unfolding term_dot_def Let_def
  by (intro runs_emit_atom runs_re_emit_prev runs_re_emit_op) (simp add: atom_after_def)

lemma runs_term_class:
  assumes "\<not> is_utf16 s"
  shows "runs (term_class E s d) (atom_after s (buf_ptr s))"
  unfolding term_class_def Let_def
proof (rule runs_bnd [OF runs_re_emit_prev])
  fix s1 assume s1: "keeps s s1"
  with assms have u: "\<not> is_utf16 s1" and p: "buf_ptr s1 = buf_ptr s" by (auto simp: keeps_def)
  show "runs (bnd (re_parse_char_class E s1 (buf_ptr s1)) (\<lambda>(p, s').
      bnd (re_emit_prev s' d) (\<lambda>s'. Inr (here s, p, s')))) (atom_after s (buf_ptr s))"
  proof (rule runs_bnd [OF runs_re_parse_char_class [OF u]], clarify)
    fix p s2 assume "buf_ptr s1 < p" and s2: "keeps s1 s2"
    with p have "buf_ptr s < p" by simp
    moreover have "same_src s s2" using s1 s2 by (auto simp: keeps_iff intro: same_src_trans)
    ultimately show "runs (bnd (re_emit_prev s2 d) (\<lambda>s'. Inr (here s, p, s'))) (atom_after s (buf_ptr s))"
      by (intro runs_bnd [OF runs_re_emit_prev])
        (auto simp: atom_after_def keeps_iff intro: same_src_trans)
  qed
qed

lemma runs_term_brace:
  assumes u: "\<not> is_utf16 s"
  shows "runs (term_brace E s d) (atom_after s (buf_ptr s))"
proof -
  have any: "runs (parse_digits b p a) (\<lambda>_. True)" for b p a
    using runs_parse_digits by (rule runs_trivial)
  have sep: "runs (bnd (rd b q) (\<lambda>d. if is_digit d then bnd (parse_digits b q' True) (\<lambda>(_, p1). Inr p1)
                   else Inr q')) (\<lambda>_. True)" for b q q'
    by (auto intro!: runs_bnd_any [OF any])
  show ?thesis
    unfolding term_brace_def Let_def using u
    by (auto simp del: runs_bnd_rd
        intro!: runs_bnd_rd_any runs_bnd_any [OF any] runs_bnd_any [OF sep] runs_parse_class_atom)
qed

definition disj_ok :: "disj \<Rightarrow> bool" where
  "disj_ok dj \<longleftrightarrow> (\<forall>s d. \<not> is_utf16 s \<longrightarrow> runs (dj s d) (forward s))"

lemma disj_okD: "disj_ok dj \<Longrightarrow> \<not> is_utf16 s \<Longrightarrow> runs (dj s d) (forward s)"
  by (simp add: disj_ok_def)

lemma runs_re_parse_expect: "runs (re_parse_expect b p c) (\<lambda>p'. p' = p + 1)"
  by (simp add: re_parse_expect_def)

text \<open>A group: what is emitted before, the disjunction, what follows it.\<close>

lemma runs_group_body:
  assumes dj: "disj_ok dj" and u: "\<not> is_utf16 s" and p: "p0 < p"
    and rest: "\<And>s'. same_src s s' \<Longrightarrow> p \<le> buf_ptr s' \<Longrightarrow> runs (f s') (atom_after s p0)"
  shows "runs (bnd (dj (s\<lparr>buf_ptr := p\<rparr>) d) f) (atom_after s p0)"
proof (rule runs_bnd [OF disj_okD [OF dj]])
  show "\<not> is_utf16 (s\<lparr>buf_ptr := p\<rparr>)" using u by simp
next
  fix s' assume "forward (s\<lparr>buf_ptr := p\<rparr>) s'"
  then show "runs (f s') (atom_after s p0)" by (intro rest) (simp_all add: forward_def)
qed

lemma runs_expect_atom:
  assumes "same_src s s'" and "p0 \<le> p" and "\<And>p'. p' = p + 1 \<Longrightarrow> runs (f p') (atom_after s' p0)"
  shows "runs (bnd (re_parse_expect b p c) f) (atom_after s p0)"
  using assms by (intro runs_bnd [OF runs_re_parse_expect]) (auto intro: atom_after_keeps)

lemma runs_term_capture:
  assumes dj: "disj_ok dj" and u: "\<not> is_utf16 s" and p: "p0 < p"
  shows "runs (term_capture dj s p d) (atom_after s p0)"
proof (cases "capture_count s \<ge> CAPTURE_COUNT_MAX")
  case False
  have open_group: "runs (re_emit_op_u8 (s\<lparr>capture_count := k\<rparr>) op i) (keeps s)" for k op i
    by (rule runs_weaken [OF runs_re_emit_op_u8]) simp
  show ?thesis
    unfolding term_capture_def Let_def if_not_P [OF False]
  proof (rule runs_bnd [OF open_group])
    fix s1 assume s1: "keeps s s1"
    with u have u1: "\<not> is_utf16 s1" by (simp add: keeps_def)
    from s1 have src: "same_src s s1" by (simp add: keeps_iff)
    show "runs (bnd (dj (s1\<lparr>buf_ptr := p\<rparr>) d) (\<lambda>s'.
        bnd (re_emit_op_u8 s' (if d then REOP_save_start else REOP_save_end) (word_of_nat (capture_count s))) (\<lambda>s'.
        bnd (re_parse_expect (re_buf s') (buf_ptr s') CHR '')'') (\<lambda>p. Inr (here s, p, s')))))
      (atom_after s p0)"
    proof (rule atom_after_keeps [OF runs_group_body [OF dj u1 p] src], goal_cases)
      case (1 s2)
      show ?case
      proof (rule runs_bnd [OF runs_re_emit_op_u8])
        fix s3 assume s3: "keeps s2 s3"
        with 1 have "same_src s1 s3" by (auto simp: keeps_iff intro: same_src_trans)
        moreover have "p0 \<le> buf_ptr s3" using 1 s3 p by (simp add: keeps_def)
        ultimately show "runs (bnd (re_parse_expect (re_buf s3) (buf_ptr s3) CHR '')'') (\<lambda>p. Inr (here s, p, s3)))
          (atom_after s1 p0)"
          by (intro runs_expect_atom) (auto simp: atom_after_def)
      qed
    qed
  qed
qed (simp add: term_capture_def)

lemma runs_term_lookaround:
  assumes dj: "disj_ok dj" and u: "\<not> is_utf16 s" and p: "p0 < p"
  shows "runs (term_lookaround dj s p n b) (atom_after s p0)"
  unfolding term_lookaround_def Let_def
proof (rule runs_bnd [OF runs_re_emit_op_u32], unfold split_paired_all snd_conv prod.case)
  fix pos s1 assume s1: "keeps s s1"
  with u have u1: "\<not> is_utf16 s1" by (simp add: keeps_def)
  from s1 have src: "same_src s s1" by (simp add: keeps_iff)
  let ?rest = "\<lambda>la s' p'. bnd (re_emit_op s' REOP_match) (\<lambda>s'.
        if dbuf_error (byte_code s') then Inl NoMem
        else bnd (re_patch32 s' pos (of_nat (dsize (byte_code s')) - of_nat (pos + 4)))
          (\<lambda>s'. Inr (la, p', s')))"
  have rest: "runs (?rest la s' p') (atom_after s' q)" if "q < p'" for la s' p' q
    using that by (intro runs_emit_atom runs_re_emit_op) (auto intro!: runs_emit_atom runs_re_patch32, simp add: atom_after_def)
  have "runs (bnd (dj (s1\<lparr>buf_ptr := p\<rparr>) b) (\<lambda>s'.
      bnd (re_parse_expect (re_buf s') (buf_ptr s') CHR '')'') (?rest la s'))) (atom_after s p0)" for la
  proof (rule atom_after_keeps [OF runs_group_body [OF dj u1 p] src], goal_cases)
    case (1 s2)
    show ?case
    proof (rule runs_expect_atom)
      fix p' assume "p' = buf_ptr s2 + 1"
      with 1 p show "runs (?rest la s2 p') (atom_after s2 p0)" by (intro rest) simp
    qed (use 1 p in auto)
  qed
  from this [of "if \<not> is_utf16 s \<and> \<not> b then here s else None"]
  show "runs (bnd (dj (s1\<lparr>buf_ptr := p\<rparr>) b) (\<lambda>s'.
      bnd (re_parse_expect (re_buf s') (buf_ptr s') CHR '')'')
        (?rest (if \<not> is_utf16 s \<and> \<not> b then here s else None) s'))) (atom_after s p0)" .
qed

lemma runs_term_named_group:
  assumes dj: "disj_ok dj" and u: "\<not> is_utf16 s" and p: "p0 < p"
  shows "runs (term_named_group dj s p d) (atom_after s p0)"
  unfolding term_named_group_def
proof (rule runs_bnd [OF runs_re_parse_group_name], goal_cases)
  case (1 r)
  show ?case
  proof (cases r)
    case (Some x)
    obtain name p' where x: "x = (name, p')" by (cases x)
    with 1 Some p have p': "p0 < p'" by auto
    have "runs (bnd (put_group_name s name) (\<lambda>s'.
        term_capture dj (s'\<lparr>has_named_captures := 1\<rparr>) p' d)) (atom_after s p0)"
    proof (rule runs_emit_atom [OF runs_put_group_name])
      fix s' assume "keeps s s'"
      with u show "runs (term_capture dj (s'\<lparr>has_named_captures := 1\<rparr>) p' d) (atom_after s' p0)"
        using runs_term_capture [OF dj _ p', of "s'\<lparr>has_named_captures := 1\<rparr>" d]
        by (auto simp: keeps_def same_src_def atom_after_def elim!: runs_weaken)
    qed
    then show ?thesis
      by (auto simp: Some x intro!: runs_bnd_any [OF runs_find_group_name])
  qed simp
qed

lemma runs_term_group:
  assumes dj: "disj_ok dj" and u: "\<not> is_utf16 s"
  shows "runs (term_group dj s d) (atom_after s (buf_ptr s))"
proof -
  have plain: "runs (bnd (put_group_name s []) (\<lambda>s. term_capture dj s q d)) (atom_after s (buf_ptr s))"
    if "buf_ptr s < q" for q
    using that u
    by (intro runs_emit_atom [OF runs_put_group_name] runs_term_capture [OF dj]) (auto simp: keeps_def)
  have nocapture: "runs (bnd (dj (s\<lparr>buf_ptr := q\<rparr>) d) (\<lambda>s'.
      bnd (re_parse_expect (re_buf s') (buf_ptr s') CHR '')'') (\<lambda>p. Inr (here s, p, s')))) (atom_after s (buf_ptr s))"
    if "buf_ptr s < q" for q
    using that by (intro runs_group_body [OF dj u that] runs_expect_atom) (auto simp: atom_after_def)
  show ?thesis
    unfolding term_group_def Let_def
    by (auto simp del: runs_bnd_rd
        intro!: runs_bnd_rd_any plain nocapture runs_term_lookaround [OF dj u] runs_term_named_group [OF dj u])
qed

subsection \<open>Escapes\<close>

lemma runs_back_reference:
  "p0 < p \<Longrightarrow> runs (back_reference s d c p) (atom_after s p0)"
  unfolding back_reference_def by (intro runs_emit_atom runs_re_emit_op_u8) (simp add: atom_after_def)

lemma runs_pair_atom:
  assumes "runs m (\<lambda>(_, s'). keeps s s')"
    and "\<And>x s'. keeps s s' \<Longrightarrow> runs (f (x, s')) (atom_after s' p)"
  shows "runs (bnd m f) (atom_after s p)"
  using assms(1)
proof (rule runs_bnd, clarify)
  fix x s' assume "keeps s s'"
  then show "runs (f (x, s')) (atom_after s p)"
    by (intro atom_after_keeps [OF assms(2)]) (auto simp: keeps_iff)
qed

lemma runs_bad_group_name:
  assumes "\<not> is_utf16 s"
  shows "runs (bad_group_name E s d msg) (atom_after s (buf_ptr s))"
proof -
  have "runs (parse_class_atom E s' d) (atom_after s' (buf_ptr s))" if "keeps s s'" for s'
    using runs_parse_class_atom [of s' E d] that assms by (simp add: keeps_def)
  then show ?thesis
    unfolding bad_group_name_def using assms
    by (auto intro!: runs_pair_atom [OF runs_re_has_named_captures])
qed

lemma runs_term_named_reference:
  assumes u: "\<not> is_utf16 s"
  shows "runs (term_named_reference E s d) (atom_after s (buf_ptr s))"
proof -
  have found: "runs (bnd (find_group_name s name) (\<lambda>i. case i of
             Some c \<Rightarrow> back_reference s d (of_nat c) p1
           | None \<Rightarrow>
               bnd (re_parse_captures s (Some name)) (\<lambda>(c, _).
                 if c < 0 then bad_group_name E s d msg
                 else back_reference s d (of_int c) p1))) (atom_after s (buf_ptr s))"
    if "buf_ptr s < p1" for name p1 msg
    using that
    by (intro runs_bnd_any [OF runs_find_group_name])
      (auto split: option.splits
        intro!: runs_back_reference runs_bnd_any [OF runs_re_parse_captures] runs_bad_group_name [OF u])
  have name: "runs (bnd (re_parse_group_name b q m) (\<lambda>r. case r of
         None \<Rightarrow> bad_group_name E s d msg
       | Some (name, p1) \<Rightarrow> f name p1)) (atom_after s (buf_ptr s))"
    if "buf_ptr s < q" and "\<And>name p1. buf_ptr s < p1 \<Longrightarrow> runs (f name p1) (atom_after s (buf_ptr s))"
    for b q m msg f
    using that
    by (intro runs_bnd [OF runs_re_parse_group_name])
      (auto split: option.splits intro!: runs_bad_group_name [OF u])
  show ?thesis
    unfolding term_named_reference_def
    by (intro runs_bnd_rd_any runs_if runs_bad_group_name [OF u] name found) simp_all
qed

lemma runs_octal_digits: "runs (octal_digits b p n c) (\<lambda>(_, p'). p \<le> p')"
proof (induction b p n c rule: octal_digits.induct)
  case (2 b p n c)
  then show ?case
    by (auto elim!: runs_weaken)
qed simp

lemma runs_term_zero: "runs (term_zero s d) (atom_after s (buf_ptr s))"
  unfolding term_zero_def Let_def
  by (auto intro!: runs_normal_atom runs_bnd [OF runs_octal_digits])

lemma runs_legacy_octal:
  assumes "p0 < p"
  shows "runs (legacy_octal s d p) (atom_after s p0)"
proof -
  have num: "runs (if a then (if b then octal_digits bs q n c else octal_digits bs p n' c') else Inr (w, r))
      (\<lambda>(_, p'). p \<le> p')" if "p \<le> q" "p \<le> r" for a b bs q n c n' c' w r
    using that runs_octal_digits [of bs q n c] runs_octal_digits [of bs p n' c']
    by (auto elim!: runs_weaken)
  show ?thesis
    unfolding legacy_octal_def using assms
    by (intro runs_bnd_rd_any runs_bnd [OF num]) (auto intro!: runs_normal_atom)
qed

lemma runs_term_number:
  assumes "\<not> is_utf16 s"
  shows "runs (term_number s d) (atom_after s (buf_ptr s))"
proof -
  have number: "runs (case c of
             None \<Rightarrow> Inr (None, s)
           | Some c \<Rightarrow>
               if c < capture_count s then Inr (Some c, s)
               else bnd (re_count_captures s) (\<lambda>(n, s).
                 Inr (if int c \<ge> n then None else Some c, s))) (\<lambda>(_, s'). keeps s s')" for c
    by (auto split: option.splits intro!: runs_bnd [OF runs_re_count_captures])
  have ref: "runs (case c of
          Some c \<Rightarrow> back_reference s' d (of_nat c) p
        | None \<Rightarrow>
            if is_utf16 s' then Inl (Fail msg)
            else legacy_octal s' d (buf_ptr s + 1)) (atom_after s' (buf_ptr s))"
    if "buf_ptr s < p" for c s' p msg
    using that by (auto split: option.splits intro!: runs_back_reference runs_legacy_octal)
  show ?thesis
    unfolding term_number_def Let_def
    by (rule runs_bnd [OF runs_parse_digits], clarify)
      (intro runs_pair_atom [OF number], unfold prod.case, intro ref, simp)
qed

lemma runs_term_escape:
  assumes u: "\<not> is_utf16 s"
  shows "runs (term_escape E s d) (atom_after s (buf_ptr s))"
proof -
  have boundary: "runs (bnd (re_emit_op s op) (\<lambda>s. Inr (None, buf_ptr s + 2, s))) (atom_after s (buf_ptr s))" for op
    by (rule runs_bnd [OF runs_re_emit_op]) (auto simp: atom_after_def keeps_iff)
  show ?thesis
    unfolding term_escape_def
    by (intro runs_bnd_rd_any runs_if boundary runs_term_named_reference [OF u] runs_term_zero
        runs_term_number [OF u] runs_parse_class_atom [OF u])
qed

lemma runs_term_atom:
  assumes dj: "disj_ok dj" and u: "\<not> is_utf16 s"
  shows "runs (term_atom E dj s d) (atom_after s (buf_ptr s))"
proof -
  have line: "runs (bnd (re_emit_op s op) (\<lambda>s. Inr (None, buf_ptr s + 1, s))) (atom_after s (buf_ptr s))" for op
    by (rule runs_bnd [OF runs_re_emit_op]) (auto simp: atom_after_def keeps_iff)
  show ?thesis
    unfolding term_atom_def
    by (intro runs_bnd_rd_any runs_if line runs_term_dot runs_term_brace [OF u] runs_term_group [OF dj u]
        runs_term_escape [OF u] runs_term_class [OF u] runs_parse_class_atom [OF u]) simp_all
qed

section \<open>Quantifiers\<close>

lemma runs_quant_count: "runs (quant_count s p) (\<lambda>r. \<forall>a b p'. r = Some (a, b, p') \<longrightarrow> p < p')"
proof -
  have range: "runs (bnd (if c then bnd (rd b p2) (\<lambda>d.
                   if is_digit d then
                     bnd (parse_digits b p2 True) (\<lambda>(m, p2).
                       if the m < q then Inl (Fail msg) else Inr (the m, p2))
                   else Inr (INT32_MAX, p2))
               else Inr (q, p1)) f) P"
    if "p < p1" "p < p2" "\<And>m p'. p < p' \<Longrightarrow> runs (f (m, p')) P" for c b p1 p2 q f msg P
    by (rule runs_bnd [where Q = "\<lambda>(_, p'). p < p'"])
      (use that in \<open>auto intro!: runs_bnd [OF runs_parse_digits]\<close>)
  have fin: "runs (bnd (rd b p1) (\<lambda>c.
            if c \<noteq> ch CHR ''}'' \<and> u then Inr None
            else bnd (re_parse_expect b p1 CHR ''}'') (\<lambda>p1. Inr (Some (m, n, p1)))))
      (\<lambda>r. \<forall>a b p'. r = Some (a, b, p') \<longrightarrow> p < p')" if "p < p1" for b p1 u m n
    using that by (auto intro!: runs_bnd [OF runs_re_parse_expect])
  show ?thesis
    unfolding quant_count_def Let_def
    apply (intro runs_bnd_rd_any runs_if)
       apply simp_all [2]
    apply (rule runs_bnd [OF runs_parse_digits], unfold split_paired_all prod.case)
    apply (intro runs_bnd_rd_any range)
      apply simp_all [2]
    apply (unfold prod.case, intro fin, assumption)
    done
qed

lemma runs_quant_range: "runs (quant_range s p) (\<lambda>r. \<forall>a b p'. r = Some (a, b, p') \<longrightarrow> p < p')"
  unfolding quant_range_def by (auto simp: runs_quant_count)

lemma runs_emit_simple_quant: "runs (emit_simple_quant s st a b n) (keeps s)"
  unfolding emit_simple_quant_def
  by (intro runs_then0 runs_re_emit_op runs_re_insert runs_re_patch8 runs_re_patch32)

lemma runs_reset_captures: "runs (reset_captures s st n) (\<lambda>x. keeps s (snd x))"
  unfolding reset_captures_def
  by (auto intro!: runs_then [OF runs_re_insert] runs_then [OF runs_re_patch8])

lemma runs_quant_zero_body: "runs (quant_zero_body s st n m g c) (keeps s)"
  unfolding quant_zero_body_def
  by (auto intro!: runs_then0 runs_pair_then runs_drop_pos runs)

lemma runs_quant_zero: "runs (quant_zero s st l n m g c) (keeps s)"
  unfolding quant_zero_def
  by (rule runs_pair_then [OF runs_reset_captures]) (simp add: runs_quant_zero_body)

lemma runs_quant_tail: "runs (quant_tail s st n a b g c) (keeps s)"
  unfolding quant_tail_def Let_def
  by (auto intro!: runs_then0 runs_pair_then runs_drop_pos runs)

lemma runs_quant_some: "runs (quant_some s st n a b g c) (keeps s)"
  unfolding quant_some_def
  by (auto simp: runs_quant_tail intro!: runs_then0 runs_pair_then runs_drop_pos runs)

lemma runs_simple_quant_len: "runs (simple_quant_len s st m g) (\<lambda>_. True)"
  unfolding simple_quant_len_def re_is_simple_quantifier_def
  by (auto intro!: runs_bnd_any [OF runs_re_check_error] runs_bnd_any [OF runs_simple_loop])

lemma runs_zero_advance_check: "runs (zero_advance_check s st g) (\<lambda>_. True)"
  unfolding zero_advance_check_def
  by (auto intro!: runs_bnd_any [OF runs_re_check_error] runs_bnd_any [OF runs_re_check_advance])

lemma runs_quantify: "runs (quantify s st l a b g) (keeps s)"
  unfolding quantify_def Let_def
  by (rule runs_bnd_any [OF runs_simple_quant_len])
    (auto split: option.splits intro!: runs_bnd_any [OF runs_zero_advance_check]
      runs_emit_simple_quant runs_quant_zero runs_quant_some)

lemma runs_term_quantifier: "runs (term_quantifier la p s) (\<lambda>s'. same_src s s' \<and> p \<le> buf_ptr s')"
proof -
  have quant: "runs (bnd (quantify s st l a b g) (\<lambda>s'. Inr (s'\<lparr>buf_ptr := q\<rparr>)))
      (\<lambda>s'. same_src s s' \<and> p \<le> buf_ptr s')" if "p \<le> q" for st l a b g q
    using that by (intro runs_bnd [OF runs_quantify]) (simp add: keeps_iff)
  have "runs (bnd (quant_range s p) (\<lambda>q. case q of
         None \<Rightarrow> Inr (s\<lparr>buf_ptr := p\<rparr>)
       | Some (quant_min, quant_max, p) \<Rightarrow>
           bnd (rd (re_buf s) p) (\<lambda>c.
             let greedy = (c \<noteq> ch CHR ''?''); p = (if greedy then p else p + 1) in
             bnd (quantify s st l quant_min quant_max greedy) (\<lambda>s.
               Inr (s\<lparr>buf_ptr := p\<rparr>))))) (\<lambda>s'. same_src s s' \<and> p \<le> buf_ptr s')" for st l
    unfolding Let_def
    by (rule runs_bnd [OF runs_quant_range]) (auto split: option.splits intro!: quant)
  then show ?thesis
    by (cases la) (simp_all only: term_quantifier_def option.case split_paired_all prod.case runs_Inr, simp)
qed

section \<open>Alternatives and disjunctions\<close>

lemma runs_re_parse_term:
  assumes "disj_ok dj" and "\<not> is_utf16 s"
  shows "runs (re_parse_term E dj s d) (\<lambda>s'. same_src s s' \<and> buf_ptr s < buf_ptr s')"
  unfolding re_parse_term_def
proof (rule runs_bnd [OF runs_term_atom [OF assms]], unfold split_paired_all prod.case)
  fix la p s' assume "atom_after s (buf_ptr s) (la, p, s')"
  then have src: "same_src s s'" and p: "buf_ptr s < p" by (auto simp: atom_after_def)
  show "runs (term_quantifier la p s') (\<lambda>s'. same_src s s' \<and> buf_ptr s < buf_ptr s')"
    by (rule runs_weaken [OF runs_term_quantifier]) (use src p in \<open>auto intro: same_src_trans\<close>)
qed

lemma runs_move_term: "runs (move_term s a b) (keeps s)"
  unfolding move_term_def Let_def
  by (auto split: prod.splits intro!: runs_bnd [OF runs_memcpy])

lemma runs_alternative_loop:
  "disj_ok dj \<Longrightarrow> \<not> is_utf16 s \<Longrightarrow> runs (alternative_loop E dj d st s) (forward s)"
proof (induction E dj d st s rule: alternative_loop.induct)
  case (1 E dj d st s)
  have move: "runs (bnd (if d then move_term s' st (dsize (byte_code s)) else Inr s') (\<lambda>s'.
      if buf_ptr s' \<le> buf_ptr s \<or> buf_end s' \<noteq> buf_end s then Inl NoFuel
      else alternative_loop E dj d st s')) (forward s)"
    if c: "\<not> buf_ptr s \<ge> buf_end s" "rd (re_buf s) (buf_ptr s) = Inr c" "\<not> (c = ch CHR ''|'' \<or> c = ch CHR '')'')"
      and s': "re_parse_term E dj s d = Inr s'" "same_src s s'" "buf_ptr s < buf_ptr s'" for c s'
  proof (rule runs_bnd [where Q = "keeps s'"])
    show "runs (if d then move_term s' st (dsize (byte_code s)) else Inr s') (keeps s')"
      by (simp add: runs_move_term)
  next
    fix s'' assume "keeps s' s''" and *: "(if d then move_term s' st (dsize (byte_code s)) else Inr s') = Inr s''"
    with s' have s'': "same_src s s''" "buf_ptr s < buf_ptr s''"
      by (auto simp: keeps_iff intro: same_src_trans)
    then have guard: "\<not> (buf_ptr s'' \<le> buf_ptr s \<or> buf_end s'' \<noteq> buf_end s)" by (auto simp: same_src_def)
    from s'' have "runs (alternative_loop E dj d st s'') (forward s'')"
      using "1.IH" [OF c s'(1) * guard] "1.prems" by (simp add: same_src_def)
    then have "runs (alternative_loop E dj d st s'') (forward s)"
      by (rule runs_weaken) (use s'' in \<open>auto simp: forward_def intro: same_src_trans\<close>)
    with guard show "runs (if buf_ptr s'' \<le> buf_ptr s \<or> buf_end s'' \<noteq> buf_end s then Inl NoFuel
      else alternative_loop E dj d st s'') (forward s)" by simp
  qed
  show ?case
    unfolding alternative_loop.simps [of E dj d st s]
    by (intro runs_if runs_bnd_rd_any runs_bnd [OF runs_re_parse_term [OF "1.prems"]])
      ((erule conjE, rule move, assumption+) | simp add: forward_def)+
qed

lemma runs_re_parse_alternative:
  "disj_ok dj \<Longrightarrow> \<not> is_utf16 s \<Longrightarrow> runs (re_parse_alternative E dj s d) (forward s)"
  unfolding re_parse_alternative_def by (rule runs_alternative_loop)

lemma runs_disjunction_step:
  assumes dj: "disj_ok dj" and u: "\<not> is_utf16 s"
  shows "runs (disjunction_step E dj s d st) (\<lambda>s'. same_src s s' \<and> buf_ptr s < buf_ptr s')"
proof -
  let ?s = "s\<lparr>buf_ptr := buf_ptr s + 1\<rparr>"
  have tail: "runs (bnd (re_parse_alternative E dj t d) (\<lambda>s'. re_patch32 s' pos (f s')))
      (forward t)" if "keeps ?s t" for t pos f
  proof (rule runs_bnd [OF runs_re_parse_alternative [OF dj]])
    show "\<not> is_utf16 t" using that u by (simp add: keeps_def)
    fix s' assume "forward t s'"
    then show "runs (re_patch32 s' pos (f s')) (forward t)"
      by (intro runs_weaken [OF runs_re_patch32]) (auto simp: forward_def keeps_iff intro: same_src_trans)
  qed
  have fwd: "runs (bnd m f) (forward ?s)"
    if "runs m (keeps t)" "keeps ?s t" "\<And>t'. keeps ?s t' \<Longrightarrow> runs (f t') (forward ?s)" for m t and f :: "REParseState \<Rightarrow> REParseState res"
    using that by (intro runs_bnd [OF that(1)]) (auto intro: keeps_trans)
  have "runs (disjunction_step E dj s d st) (forward ?s)"
    unfolding disjunction_step_def Let_def
    apply (rule fwd [OF runs_re_insert], simp)
    apply (rule fwd [OF runs_re_patch8], assumption)
    apply (rule fwd [OF runs_re_patch32], assumption)
    subgoal for t1 t2 t3
      apply (rule runs_bnd [OF runs_re_emit_op_u32], unfold split_paired_all prod.case snd_conv)
      subgoal for pos t4
        by (rule runs_weaken [OF tail], rule keeps_trans [of ?s t3 t4])
          (auto simp: forward_def keeps_iff intro: same_src_trans)
      done
    done
  then show ?thesis
    by (rule runs_weaken) (auto simp: forward_def)
qed

lemma runs_disjunction_loop:
  "disj_ok dj \<Longrightarrow> \<not> is_utf16 s \<Longrightarrow> runs (disjunction_loop E dj d st s) (forward s)"
proof (induction E dj d st s rule: disjunction_loop.induct)
  case (1 E dj d st s)
  have "runs (bnd (disjunction_step E dj s d st) (\<lambda>s'.
         if buf_ptr s' \<le> buf_ptr s \<or> re_buf s' \<noteq> re_buf s then Inl NoFuel
         else disjunction_loop E dj d st s')) (forward s)"
    if c: "rd (re_buf s) (buf_ptr s) = Inr c" "\<not> c \<noteq> ch CHR ''|''" for c
  proof (rule runs_bnd [OF runs_disjunction_step [OF "1.prems"]])
    fix s' assume s': "same_src s s' \<and> buf_ptr s < buf_ptr s'" and *: "disjunction_step E dj s d st = Inr s'"
    then have guard: "\<not> (buf_ptr s' \<le> buf_ptr s \<or> re_buf s' \<noteq> re_buf s)" by (auto simp: same_src_def)
    have "runs (disjunction_loop E dj d st s') (forward s')"
      using "1.IH" [OF c * guard] "1.prems" s' by (simp add: same_src_def)
    then have "runs (disjunction_loop E dj d st s') (forward s)"
      by (rule runs_weaken) (use s' in \<open>auto simp: forward_def intro: same_src_trans\<close>)
    with guard show "runs (if buf_ptr s' \<le> buf_ptr s \<or> re_buf s' \<noteq> re_buf s then Inl NoFuel
         else disjunction_loop E dj d st s') (forward s)" by simp
  qed
  then show ?case
    by (subst disjunction_loop.simps)
      (auto simp: forward_def simp del: runs_bnd_rd intro!: runs_bnd_rd_any)
qed

lemma disj_ok_disjunction: "disj_ok (re_parse_disjunction depth E)"
proof (induction depth)
  case (Suc depth)
  show ?case
    unfolding disj_ok_def re_parse_disjunction.simps Let_def
  proof (intro allI impI, rule runs_bnd [OF runs_re_parse_alternative [OF Suc]])
    fix s s' assume "\<not> is_utf16 s" and s': "forward s s'"
    then have "\<not> is_utf16 s'" by (simp add: forward_def same_src_def)
    then have "runs (disjunction_loop E (re_parse_disjunction depth E) d st s') (forward s')" for d st
      by (rule runs_disjunction_loop [OF Suc])
    then show "runs (disjunction_loop E (re_parse_disjunction depth E) d (dsize (byte_code s)) s') (forward s)" for d
      by (rule runs_weaken) (use s' in \<open>auto simp: forward_def intro: same_src_trans\<close>)
  qed
qed (simp add: disj_ok_def)

section \<open>The compiler returns\<close>

lemma runs_emit_header: "runs (emit_header s f) (keeps s)"
  unfolding emit_header_def by (intro runs_then0 runs_re_put)

lemma runs_emit_search: "runs (emit_search s f) (keeps s)"
  unfolding emit_search_def
  by (auto intro!: runs_pair_then runs_then0 runs_drop_pos runs)

lemma runs_finish_code: "runs (finish_code s) (keeps s)"
  unfolding finish_code_def compute_stack_size_def
  by (rule runs_bnd_any [OF runs_stack_loop])
    (auto split: option.splits intro!: runs_then0 runs_re_patch8 runs_re_patch32)

lemma runs_add_group_names: "runs (add_group_names s) (keeps s)"
  unfolding add_group_names_def
  by (auto intro!: runs_then0 runs_re_put runs_re_patch8)

lemma runs_keep_going:
  assumes "runs m (keeps s)" and "\<not> is_utf16 s"
    and "\<And>s'. \<not> is_utf16 s' \<Longrightarrow> runs (f s') P"
  shows "runs (bnd m f) P"
  using assms by (intro runs_bnd [OF assms(1)]) (simp add: keeps_def)


text \<open>An allocator that always succeeds, and one that never does, for the examples.\<close>

definition pad_realloc :: "'a::zero realloc_func" where
  "pad_realloc b n = Some (take n b @ replicate (n - length b) 0)"

definition no_realloc :: "'a realloc_func" where
  "no_realloc b n = None"

definition plain_env :: re_env where
  "plain_env = \<lparr>env_realloc8 = pad_realloc, env_realloc32 = pad_realloc, env_props = small_props\<rparr>"

definition poor_env :: re_env where
  "poor_env = \<lparr>env_realloc8 = no_realloc, env_realloc32 = no_realloc, env_props = small_props\<rparr>"


end
