(* ===== verification/ReExec.thy ===== *)
theory ReExec
  imports ReOps
begin

text \<open>
  The backtracking matcher of \<open>libregexp.c\<close>: \<open>lre_exec_backtrack\<close> and \<open>lre_exec\<close>.

  The subject is the list \<open>cbuf\<close> of its units (bytes widened to 16 bits for \<open>cbuf_type\<close> 0,
  16 bit units otherwise) and \<open>cptr\<close> counts units, so the code's steps by two bytes are
  steps by one. \<open>pc\<close> is an index into the bytecode. A capture is the index it points to or
  \<open>None\<close> for NULL. An access outside the bytecode, the subject, the captures or the value
  stack is \<open>Undef\<close>.
\<close>

section \<open>Reading characters\<close>

definition is_line_terminator :: "u32 \<Rightarrow> bool" where
  "is_line_terminator c \<longleftrightarrow> c = 10 \<or> c = 13 \<or> c = 0x2028 \<or> c = 0x2029"

definition is_word_char :: "u32 \<Rightarrow> bool" where
  "is_word_char c \<longleftrightarrow> (0x30 \<le> c \<and> c \<le> 0x39) \<or> (0x61 \<le> c \<and> c \<le> 0x7a) \<or> (0x41 \<le> c \<and> c \<le> 0x5a) \<or> c = 0x5f"

definition is_hi :: "u32 \<Rightarrow> bool" where "is_hi c \<longleftrightarrow> 0xd800 \<le> c \<and> c < 0xdc00"
definition is_lo :: "u32 \<Rightarrow> bool" where "is_lo c \<longleftrightarrow> 0xdc00 \<le> c \<and> c < 0xe000"

definition join_pair :: "u32 \<Rightarrow> u32 \<Rightarrow> u32" where
  "join_pair hi lo = (push_bit 10 (hi AND 0x3ff) OR (lo AND 0x3ff)) + 0x10000"

definition unit_at :: "u16 list \<Rightarrow> nat \<Rightarrow> u32 res" where
  "unit_at cbuf i = bnd (rd cbuf i) (\<lambda>u. Inr (ucast u))"

text \<open>The character at \<open>cptr\<close> and the position after it; a pair is joined if it lies before \<open>lim\<close>.\<close>

definition GET_CHAR :: "u16 list \<Rightarrow> nat \<Rightarrow> nat \<Rightarrow> nat \<Rightarrow> (u32 \<times> nat) res" where
  "GET_CHAR cbuf cbuf_type cptr lim =
     bnd (unit_at cbuf cptr) (\<lambda>c.
       if cbuf_type = 2 \<and> is_hi c \<and> cptr + 1 < lim then
         bnd (unit_at cbuf (cptr + 1)) (\<lambda>c1.
           Inr (if is_lo c1 then (join_pair c c1, cptr + 2) else (c, cptr + 1)))
       else Inr (c, cptr + 1))"

definition PEEK_CHAR :: "u16 list \<Rightarrow> nat \<Rightarrow> nat \<Rightarrow> nat \<Rightarrow> u32 res" where
  "PEEK_CHAR cbuf cbuf_type cptr lim =
     bnd (unit_at cbuf cptr) (\<lambda>c.
       if cbuf_type = 2 \<and> is_hi c \<and> cptr + 1 < lim then
         bnd (unit_at cbuf (cptr + 1)) (\<lambda>c1. Inr (if is_lo c1 then join_pair c c1 else c))
       else Inr c)"

text \<open>Backwards from \<open>cptr\<close>; a pair is joined if it lies from \<open>start\<close> on.\<close>

definition PEEK_PREV_CHAR :: "u16 list \<Rightarrow> nat \<Rightarrow> nat \<Rightarrow> nat \<Rightarrow> u32 res" where
  "PEEK_PREV_CHAR cbuf cbuf_type cptr start =
     (if cptr = 0 then Inl Undef
      else bnd (unit_at cbuf (cptr - 1)) (\<lambda>c.
        if cbuf_type = 2 \<and> is_lo c \<and> cptr \<ge> start + 2 then
          bnd (unit_at cbuf (cptr - 2)) (\<lambda>c1. Inr (if is_hi c1 then join_pair c1 c else c))
        else Inr c))"

definition GET_PREV_CHAR :: "u16 list \<Rightarrow> nat \<Rightarrow> nat \<Rightarrow> nat \<Rightarrow> (u32 \<times> nat) res" where
  "GET_PREV_CHAR cbuf cbuf_type cptr start =
     (if cptr = 0 then Inl Undef
      else bnd (unit_at cbuf (cptr - 1)) (\<lambda>c.
        if cbuf_type = 2 \<and> is_lo c \<and> cptr - 1 > start then
          bnd (unit_at cbuf (cptr - 2)) (\<lambda>c1.
            Inr (if is_hi c1 then (join_pair c1 c, cptr - 2) else (c, cptr - 1)))
        else Inr (c, cptr - 1)))"

definition PREV_CHAR :: "u16 list \<Rightarrow> nat \<Rightarrow> nat \<Rightarrow> nat \<Rightarrow> nat res" where
  "PREV_CHAR cbuf cbuf_type cptr start =
     (if cptr = 0 then Inl Undef
      else if cbuf_type = 2 then
        bnd (unit_at cbuf (cptr - 1)) (\<lambda>c.
          if is_lo c \<and> cptr - 1 > start then
            bnd (unit_at cbuf (cptr - 2)) (\<lambda>c. Inr (if is_hi c then cptr - 2 else cptr - 1))
          else Inr (cptr - 1))
      else Inr (cptr - 1))"

section \<open>The machine\<close>

datatype REExecStateEnum = RE_EXEC_STATE_SPLIT | RE_EXEC_STATE_LOOKAHEAD
  | RE_EXEC_STATE_NEGATIVE_LOOKAHEAD | RE_EXEC_STATE_GREEDY_QUANT

text \<open>A saved state; \<open>rs_capture\<close> and \<open>rs_stack\<close> are the two parts of \<open>buf\<close>.\<close>

record REExecState =
  rs_type :: REExecStateEnum
  rs_stack_len :: u8
  rs_count :: nat
  rs_cptr :: nat
  rs_pc :: nat
  rs_capture :: "nat option list"
  rs_stack :: "u64 list"

text \<open>
  The fields of the context that do not change; \<open>x_alloc n\<close> says whether \<open>lre_realloc\<close>
  gives \<open>n\<close> bytes.
\<close>

record REExecContext =
  cbuf :: "u16 list"
  cbuf_type :: nat
  x_capture_count :: nat
  x_stack_size_max :: nat
  multi_line :: bool
  x_ignore_case :: bool
  x_is_utf16 :: bool
  state_size :: nat
  x_alloc :: "nat \<Rightarrow> bool"

text \<open>
  What changes: the array of captures, the value stack (an array of \<open>stack_size_max\<close>
  elements) and its length, \<open>pc\<close>, \<open>cptr\<close>, and the stack of saved states, the top one first,
  with the room allocated for it.
\<close>

record vm =
  capture :: "nat option list"
  stack :: "u64 list"
  stack_len :: nat
  pc :: nat
  cptr :: nat
  state_stack :: "REExecState list"
  state_stack_size :: nat

text \<open>\<open>None\<close> when the stack cannot grow (-1).\<close>

definition push_state ::
  "REExecContext \<Rightarrow> vm \<Rightarrow> nat \<Rightarrow> nat \<Rightarrow> REExecStateEnum \<Rightarrow> nat \<Rightarrow> vm option res" where
  "push_state X v pc0 cptr0 ty cnt =
     (let new_size = max (state_stack_size v * 3 div 2) 8;
          grow = length (state_stack v) + 1 > state_stack_size v in
      if grow \<and> \<not> x_alloc X (new_size * state_size X) then Inr None
      else if 2 * x_capture_count X > length (capture v) \<or> stack_len v > length (stack v) then Inl Undef
      else
        (let rs = \<lparr>rs_type = ty, rs_stack_len = of_nat (stack_len v), rs_count = cnt,
               rs_cptr = cptr0, rs_pc = pc0, rs_capture = take (2 * x_capture_count X) (capture v),
               rs_stack = take (stack_len v) (stack v)\<rparr> in
         Inr (Some (v\<lparr>state_stack := rs # state_stack v,
           state_stack_size := (if grow then new_size else state_stack_size v)\<rparr>))))"

text \<open>\<open>pc + (int)val\<close>\<close>

definition jump :: "nat \<Rightarrow> u32 \<Rightarrow> nat res" where
  "jump p val = (let t = int p + sint val in if t < 0 then Inl Undef else Inr (nat t))"

text \<open>
  What one instruction does: go on, the label \<open>no_match\<close>, the end of a match, or a return
  with an error.
\<close>

datatype outcome = Next vm | No_match vm | Matched vm | Failed vm

text \<open>\<open>case REOP_match\<close>: the loop over the saved states; \<open>Inl ret\<close> when none is left.\<close>

definition restore_stack :: "REExecState \<Rightarrow> vm \<Rightarrow> vm res" where
  "restore_stack rs v =
     (let n = unat (rs_stack_len rs) in
      if n > length (rs_stack rs) then Inl Undef
      else bnd (memcpy (stack v) 0 (take n (rs_stack rs))) (\<lambda>st. Inr (v\<lparr>stack := st, stack_len := n\<rparr>)))"

definition restore_capture :: "REExecState \<Rightarrow> vm \<Rightarrow> vm res" where
  "restore_capture rs v = bnd (memcpy (capture v) 0 (rs_capture rs)) (\<lambda>c. Inr (v\<lparr>capture := c\<rparr>))"

text \<open>The label \<open>pop_state1\<close>; \<open>rest\<close> is the stack without the state.\<close>

definition pop_state1 :: "REExecState \<Rightarrow> REExecState list \<Rightarrow> vm \<Rightarrow> vm res" where
  "pop_state1 rs rest v =
     bnd (restore_stack rs v) (\<lambda>v. Inr (v\<lparr>pc := rs_pc rs, cptr := rs_cptr rs, state_stack := rest\<rparr>))"

definition pop_state :: "REExecState \<Rightarrow> REExecState list \<Rightarrow> vm \<Rightarrow> vm res" where
  "pop_state rs rest v = bnd (restore_capture rs v) (\<lambda>v. pop_state1 rs rest v)"

fun go_backward :: "REExecContext \<Rightarrow> nat \<Rightarrow> nat \<Rightarrow> nat res" where
  "go_backward X 0 p = Inr p"
| "go_backward X (Suc n) p = bnd (PREV_CHAR (cbuf X) (cbuf_type X) p 0) (\<lambda>p. go_backward X n p)"

text \<open>One match less of a simple loop; its state goes when the count reaches zero.\<close>

definition resume_greedy ::
  "REExecContext \<Rightarrow> bytes \<Rightarrow> REExecState \<Rightarrow> REExecState list \<Rightarrow> vm \<Rightarrow> vm res" where
  "resume_greedy X bc rs rest v =
     bnd (restore_capture rs v) (\<lambda>v.
     bnd (restore_stack rs v) (\<lambda>v.
     bnd (get_u32 bc (rs_pc rs + 12)) (\<lambda>char_count.
     bnd (go_backward X (unat char_count) (rs_cptr rs)) (\<lambda>p.
     bnd (get_u32 bc (rs_pc rs)) (\<lambda>next_pos.
     bnd (jump (rs_pc rs + 16) next_pos) (\<lambda>pc0.
       let rs = rs\<lparr>rs_cptr := p, rs_count := rs_count rs - 1\<rparr> in
       Inr (v\<lparr>pc := pc0, cptr := p, state_stack := (if rs_count rs = 0 then rest else rs # rest)\<rparr>)))))))"

fun unwind :: "REExecContext \<Rightarrow> bytes \<Rightarrow> REExecState list \<Rightarrow> bool \<Rightarrow> vm \<Rightarrow> (bool + vm) res" where
  "unwind X bc [] ret v = Inr (Inl ret)"
| "unwind X bc (rs # rest) ret v =
     (case rs_type rs of
        RE_EXEC_STATE_SPLIT \<Rightarrow>
          if \<not> ret then bnd (pop_state rs rest v) (\<lambda>v. Inr (Inr v)) else unwind X bc rest ret v
      | RE_EXEC_STATE_GREEDY_QUANT \<Rightarrow>
          if \<not> ret then bnd (resume_greedy X bc rs rest v) (\<lambda>v. Inr (Inr v)) else unwind X bc rest ret v
      | RE_EXEC_STATE_LOOKAHEAD \<Rightarrow>
          if ret then bnd (pop_state1 rs rest v) (\<lambda>v. Inr (Inr v)) else unwind X bc rest False v
      | RE_EXEC_STATE_NEGATIVE_LOOKAHEAD \<Rightarrow>
          if \<not> ret then bnd (pop_state rs rest v) (\<lambda>v. Inr (Inr v)) else unwind X bc rest False v)"

section \<open>Instructions\<close>

text \<open>Go on at \<open>p\<close>, or at the label \<open>no_match\<close>.\<close>

definition next_at :: "vm \<Rightarrow> nat \<Rightarrow> outcome" where
  "next_at v p = Next (v\<lparr>pc := p\<rparr>)"

definition canon :: "REExecContext \<Rightarrow> u32 \<Rightarrow> u32 res" where
  "canon X c = (if x_ignore_case X then lre_canonicalize c (x_is_utf16 X) else Inr c)"

text \<open>\<open>GET_CHAR(c, cptr, cbuf_end)\<close>, or \<open>None\<close> at the end of the subject.\<close>

definition next_char :: "REExecContext \<Rightarrow> vm \<Rightarrow> (u32 \<times> vm) option res" where
  "next_char X v =
     (if cptr v \<ge> length (cbuf X) then Inr None
      else bnd (GET_CHAR (cbuf X) (cbuf_type X) (cptr v) (length (cbuf X))) (\<lambda>(c, p).
        Inr (Some (c, v\<lparr>cptr := p\<rparr>))))"

text \<open>The label \<open>test_char\<close>; \<open>p\<close> is after the operand.\<close>

definition test_char :: "REExecContext \<Rightarrow> vm \<Rightarrow> u32 \<Rightarrow> nat \<Rightarrow> outcome res" where
  "test_char X v val p =
     bnd (next_char X v) (\<lambda>r. case r of
       None \<Rightarrow> Inr (No_match v)
     | Some (c, v) \<Rightarrow> bnd (canon X c) (\<lambda>c.
         Inr (if val \<noteq> c then No_match v else next_at v p)))"

definition push_next :: "REExecContext \<Rightarrow> vm \<Rightarrow> nat \<Rightarrow> nat \<Rightarrow> REExecStateEnum \<Rightarrow> outcome res" where
  "push_next X v pc1 p ty =
     bnd (push_state X v pc1 (cptr v) ty 0) (\<lambda>r. Inr (case r of None \<Rightarrow> Failed v | Some v \<Rightarrow> next_at v p))"

definition op_split :: "REExecContext \<Rightarrow> bytes \<Rightarrow> u8 \<Rightarrow> vm \<Rightarrow> outcome res" where
  "op_split X bc opcode v =
     bnd (get_u32 bc (pc v)) (\<lambda>val. let p = pc v + 4 in
     bnd (jump p val) (\<lambda>t.
       if opcode = REOP_split_next_first then push_next X v t p RE_EXEC_STATE_SPLIT
       else push_next X v p t RE_EXEC_STATE_SPLIT))"

definition op_lookahead :: "REExecContext \<Rightarrow> bytes \<Rightarrow> u8 \<Rightarrow> vm \<Rightarrow> outcome res" where
  "op_lookahead X bc opcode v =
     bnd (get_u32 bc (pc v)) (\<lambda>val. let p = pc v + 4 in
     bnd (jump p val) (\<lambda>t.
       push_next X v t p (if opcode = REOP_lookahead then RE_EXEC_STATE_LOOKAHEAD
                          else RE_EXEC_STATE_NEGATIVE_LOOKAHEAD)))"

definition op_line :: "REExecContext \<Rightarrow> u8 \<Rightarrow> vm \<Rightarrow> outcome res" where
  "op_line X opcode v =
     (if cptr v = (if opcode = REOP_line_start then 0 else length (cbuf X)) then Inr (Next v)
      else if \<not> multi_line X then Inr (No_match v)
      else bnd (if opcode = REOP_line_start
                then PEEK_PREV_CHAR (cbuf X) (cbuf_type X) (cptr v) 0
                else PEEK_CHAR (cbuf X) (cbuf_type X) (cptr v) (length (cbuf X))) (\<lambda>c.
             Inr (if is_line_terminator c then Next v else No_match v)))"

definition op_any :: "REExecContext \<Rightarrow> u8 \<Rightarrow> vm \<Rightarrow> outcome res" where
  "op_any X opcode v =
     (if cptr v = length (cbuf X) then Inr (No_match v)
      else bnd (GET_CHAR (cbuf X) (cbuf_type X) (cptr v) (length (cbuf X))) (\<lambda>(c, p).
        Inr (if opcode = REOP_dot \<and> is_line_terminator c then No_match (v\<lparr>cptr := p\<rparr>)
             else Next (v\<lparr>cptr := p\<rparr>))))"

definition op_save :: "REExecContext \<Rightarrow> bytes \<Rightarrow> u8 \<Rightarrow> vm \<Rightarrow> outcome res" where
  "op_save X bc opcode v =
     bnd (rd bc (pc v)) (\<lambda>val.
       if unat val \<ge> x_capture_count X then Inl (Fail ''val < s->capture_count'')
       else bnd (wr (capture v) (2 * unat val + (if opcode = REOP_save_start then 0 else 1)) (Some (cptr v))) (\<lambda>cs.
         Inr (next_at (v\<lparr>capture := cs\<rparr>) (pc v + 1))))"

fun clear_captures :: "nat option list \<Rightarrow> nat list \<Rightarrow> nat option list res" where
  "clear_captures cs [] = Inr cs"
| "clear_captures cs (i # is) =
     bnd (wr cs (2 * i) None) (\<lambda>cs. bnd (wr cs (2 * i + 1) None) (\<lambda>cs. clear_captures cs is))"

definition op_save_reset :: "REExecContext \<Rightarrow> bytes \<Rightarrow> vm \<Rightarrow> outcome res" where
  "op_save_reset X bc v =
     bnd (rd bc (pc v)) (\<lambda>val. bnd (rd bc (pc v + 1)) (\<lambda>val2.
       if unat val2 \<ge> x_capture_count X then Inl (Fail ''val2 < s->capture_count'')
       else bnd (clear_captures (capture v) [unat val..<unat val2 + 1]) (\<lambda>cs.
         Inr (next_at (v\<lparr>capture := cs\<rparr>) (pc v + 2)))))"

text \<open>\<open>stack[stack_len++] = val\<close>\<close>

definition push_value :: "vm \<Rightarrow> u64 \<Rightarrow> vm res" where
  "push_value v x = bnd (wr (stack v) (stack_len v) x) (\<lambda>st. Inr (v\<lparr>stack := st, stack_len := stack_len v + 1\<rparr>))"

definition op_push_i32 :: "bytes \<Rightarrow> vm \<Rightarrow> outcome res" where
  "op_push_i32 bc v =
     bnd (get_u32 bc (pc v)) (\<lambda>val. bnd (push_value v (ucast val)) (\<lambda>v. Inr (next_at v (pc v + 4))))"

definition op_drop :: "vm \<Rightarrow> outcome res" where
  "op_drop v = (if stack_len v = 0 then Inl Undef else Inr (Next (v\<lparr>stack_len := stack_len v - 1\<rparr>)))"

definition op_loop :: "bytes \<Rightarrow> vm \<Rightarrow> outcome res" where
  "op_loop bc v =
     bnd (get_u32 bc (pc v)) (\<lambda>val. let p = pc v + 4 in
       if stack_len v = 0 then Inl Undef
       else bnd (rd (stack v) (stack_len v - 1)) (\<lambda>x.
            bnd (wr (stack v) (stack_len v - 1) (x - 1)) (\<lambda>st.
              let v = v\<lparr>stack := st\<rparr> in
              if x - 1 \<noteq> 0 then bnd (jump p val) (\<lambda>t. Inr (next_at v t)) else Inr (next_at v p))))"

definition op_push_char_pos :: "vm \<Rightarrow> outcome res" where
  "op_push_char_pos v = bnd (push_value v (of_nat (cptr v))) (\<lambda>v. Inr (Next v))"

definition op_bne_char_pos :: "bytes \<Rightarrow> vm \<Rightarrow> outcome res" where
  "op_bne_char_pos bc v =
     bnd (get_u32 bc (pc v)) (\<lambda>val. let p = pc v + 4 in
       if stack_len v = 0 then Inl Undef
       else bnd (rd (stack v) (stack_len v - 1)) (\<lambda>x.
         let v' = v\<lparr>stack_len := stack_len v - 1\<rparr> in
         if x \<noteq> of_nat (cptr v) then bnd (jump p val) (\<lambda>t. Inr (next_at v' t)) else Inr (next_at v' p)))"

definition op_word_boundary :: "REExecContext \<Rightarrow> u8 \<Rightarrow> vm \<Rightarrow> outcome res" where
  "op_word_boundary X opcode v =
     bnd (if cptr v = 0 then Inr False
          else bnd (PEEK_PREV_CHAR (cbuf X) (cbuf_type X) (cptr v) 0) (\<lambda>c. Inr (is_word_char c))) (\<lambda>v1.
     bnd (if cptr v \<ge> length (cbuf X) then Inr False
          else bnd (PEEK_CHAR (cbuf X) (cbuf_type X) (cptr v) (length (cbuf X))) (\<lambda>c. Inr (is_word_char c))) (\<lambda>v2.
       Inr (if (v1 \<noteq> v2) \<noteq> (opcode = REOP_word_boundary) then No_match v else Next v)))"

definition op_prev :: "REExecContext \<Rightarrow> vm \<Rightarrow> outcome res" where
  "op_prev X v =
     (if cptr v = 0 then Inr (No_match v)
      else bnd (PREV_CHAR (cbuf X) (cbuf_type X) (cptr v) 0) (\<lambda>p. Inr (Next (v\<lparr>cptr := p\<rparr>))))"

subsection \<open>Back references\<close>

text \<open>Compare the captured text with the subject; \<open>None\<close> when they differ.\<close>

function backref_loop :: "REExecContext \<Rightarrow> nat \<Rightarrow> nat \<Rightarrow> nat \<Rightarrow> nat option res" where
  "backref_loop X cptr1 cptr1_end p =
     (if cptr1 < cptr1_end then
        (if p \<ge> length (cbuf X) then Inr None
         else bnd (GET_CHAR (cbuf X) (cbuf_type X) cptr1 cptr1_end) (\<lambda>(c1, cptr1').
              bnd (GET_CHAR (cbuf X) (cbuf_type X) p (length (cbuf X))) (\<lambda>(c2, p).
              bnd (canon X c1) (\<lambda>c1. bnd (canon X c2) (\<lambda>c2.
                if c1 \<noteq> c2 then Inr None else backref_loop X cptr1' cptr1_end p)))))
      else Inr (Some p))"
  by pat_completeness auto
termination
  by (relation "measure (\<lambda>(X, a, b, p). b - a)")
    (auto simp: GET_CHAR_def bnd_eq_Inr split: if_splits)

declare backref_loop.simps [simp del]

function backref_back_loop :: "REExecContext \<Rightarrow> nat \<Rightarrow> nat \<Rightarrow> nat \<Rightarrow> nat option res" where
  "backref_back_loop X cptr1 cptr1_start p =
     (if cptr1 > cptr1_start then
        (if p = 0 then Inr None
         else bnd (GET_PREV_CHAR (cbuf X) (cbuf_type X) cptr1 cptr1_start) (\<lambda>(c1, cptr1').
              bnd (GET_PREV_CHAR (cbuf X) (cbuf_type X) p 0) (\<lambda>(c2, p).
              bnd (canon X c1) (\<lambda>c1. bnd (canon X c2) (\<lambda>c2.
                if c1 \<noteq> c2 then Inr None else backref_back_loop X cptr1' cptr1_start p)))))
      else Inr (Some p))"
  by pat_completeness auto
termination
  by (relation "measure (\<lambda>(X, a, b, p). a)")
    (auto simp: GET_PREV_CHAR_def bnd_eq_Inr split: if_splits)

declare backref_back_loop.simps [simp del]

definition op_back_reference :: "REExecContext \<Rightarrow> bytes \<Rightarrow> u8 \<Rightarrow> vm \<Rightarrow> outcome res" where
  "op_back_reference X bc opcode v =
     bnd (rd bc (pc v)) (\<lambda>val. let v = v\<lparr>pc := pc v + 1\<rparr> in
       if unat val \<ge> x_capture_count X then Inr (No_match v)
       else bnd (rd (capture v) (2 * unat val)) (\<lambda>a. bnd (rd (capture v) (2 * unat val + 1)) (\<lambda>b.
         case (a, b) of
           (Some cptr1_start, Some cptr1_end) \<Rightarrow>
             bnd (if opcode = REOP_back_reference
                  then backref_loop X cptr1_start cptr1_end (cptr v)
                  else backref_back_loop X cptr1_end cptr1_start (cptr v)) (\<lambda>r.
               Inr (case r of None \<Rightarrow> No_match v | Some p \<Rightarrow> Next (v\<lparr>cptr := p\<rparr>)))
         | _ \<Rightarrow> Inr (Next v))))"

subsection \<open>Ranges\<close>

text \<open>
  The binary search; indices are 32 bit unsigned. The first argument bounds the number of
  turns (an index range of 32 bits is halved at most 32 times).
\<close>

fun range_search :: "nat \<Rightarrow> (bytes \<Rightarrow> nat \<Rightarrow> u32 res) \<Rightarrow> nat \<Rightarrow> bytes \<Rightarrow> nat \<Rightarrow> u32 \<Rightarrow> u32 \<Rightarrow> u32 \<Rightarrow> bool res" where
  "range_search 0 get w bc p c idx_min idx_max = Inl NoFuel"
| "range_search (Suc n) get w bc p c idx_min idx_max =
     (if idx_min \<le> idx_max then
        (let idx = (idx_min + idx_max) div 2 in
         bnd (get bc (p + unat idx * (2 * w))) (\<lambda>low.
         bnd (get bc (p + unat idx * (2 * w) + w)) (\<lambda>high.
           if c < low then range_search n get w bc p c idx_min (idx - 1)
           else if c > high then range_search n get w bc p c (idx + 1) idx_max
           else Inr True)))
      else Inr False)"

text \<open>Is \<open>c\<close> in the \<open>n\<close> ranges at \<open>p\<close>? With 16 bit entries 0xffff at the end is infinity.\<close>

definition range_test :: "bool \<Rightarrow> bytes \<Rightarrow> nat \<Rightarrow> u32 \<Rightarrow> u32 \<Rightarrow> bool res" where
  "range_test is32 bc p n c =
     (let get = (if is32 then get_u32 else get_u16); w = (if is32 then 4 else 2) in
      bnd (get bc p) (\<lambda>low.
        if c < low then Inr False
        else (let idx_max = n - 1 in
          bnd (get bc (p + unat idx_max * (2 * w) + w)) (\<lambda>high.
            if \<not> is32 \<and> c \<ge> 0xffff \<and> high = 0xffff then Inr True
            else if c > high then Inr False
            else range_search 34 get w bc p c 0 idx_max))))"

definition op_range :: "REExecContext \<Rightarrow> bytes \<Rightarrow> u8 \<Rightarrow> vm \<Rightarrow> outcome res" where
  "op_range X bc opcode v =
     bnd (get_u16 bc (pc v)) (\<lambda>n. let p = pc v + 2; is32 = (opcode = REOP_range32) in
     bnd (next_char X v) (\<lambda>r. case r of
       None \<Rightarrow> Inr (No_match v)
     | Some (c, v) \<Rightarrow>
         bnd (canon X c) (\<lambda>c. bnd (range_test is32 bc p n c) (\<lambda>hit.
           Inr (if hit then next_at v (p + (if is32 then 8 else 4) * unat n) else No_match v)))))"

section \<open>The interpreter\<close>

text \<open>The switch; \<open>pc v\<close> is after the opcode. \<open>REOP_match\<close> and the loops are below.\<close>

definition exec_op :: "REExecContext \<Rightarrow> bytes \<Rightarrow> u8 \<Rightarrow> vm \<Rightarrow> outcome res" where
  "exec_op X bc opcode v =
     (if opcode = REOP_match then Inr (Matched v)
      else if opcode = REOP_char32 then bnd (get_u32 bc (pc v)) (\<lambda>val. test_char X v val (pc v + 4))
      else if opcode = REOP_char then bnd (get_u16 bc (pc v)) (\<lambda>val. test_char X v val (pc v + 2))
      else if opcode = REOP_split_goto_first \<or> opcode = REOP_split_next_first then op_split X bc opcode v
      else if opcode = REOP_lookahead \<or> opcode = REOP_negative_lookahead then op_lookahead X bc opcode v
      else if opcode = REOP_goto then
        bnd (get_u32 bc (pc v)) (\<lambda>val. bnd (jump (pc v + 4) val) (\<lambda>t. Inr (next_at v t)))
      else if opcode = REOP_line_start \<or> opcode = REOP_line_end then op_line X opcode v
      else if opcode = REOP_dot \<or> opcode = REOP_any then op_any X opcode v
      else if opcode = REOP_save_start \<or> opcode = REOP_save_end then op_save X bc opcode v
      else if opcode = REOP_save_reset then op_save_reset X bc v
      else if opcode = REOP_push_i32 then op_push_i32 bc v
      else if opcode = REOP_drop then op_drop v
      else if opcode = REOP_loop then op_loop bc v
      else if opcode = REOP_push_char_pos then op_push_char_pos v
      else if opcode = REOP_bne_char_pos then op_bne_char_pos bc v
      else if opcode = REOP_word_boundary \<or> opcode = REOP_not_word_boundary then op_word_boundary X opcode v
      else if opcode = REOP_back_reference \<or> opcode = REOP_backward_back_reference then
        op_back_reference X bc opcode v
      else if opcode = REOP_range \<or> opcode = REOP_range32 then op_range X bc opcode v
      else if opcode = REOP_prev then op_prev X v
      else Inl (Fail ''abort''))"

text \<open>
  What \<open>lre_exec_backtrack\<close> returns: the codes 1, 0, -1, or with \<open>no_recurse\<close> the pointer
  where the match ended.
\<close>

datatype exec_ret = Code int | Ptr nat

text \<open>
  The loop of \<open>REOP_simple_greedy_quant\<close>: \<open>run\<close> is the nested call on the code of the atom.
  The result is the number of matches, or \<open>None\<close> when the nested call failed.
\<close>

primrec greedy_loop ::
  "nat \<Rightarrow> (vm \<Rightarrow> (exec_ret \<times> vm) res) \<Rightarrow> nat \<Rightarrow> u32 \<Rightarrow> nat \<Rightarrow> vm \<Rightarrow> (nat option \<times> vm) res" where
  "greedy_loop 0 run pc1 quant_max q v = Inl NoFuel"
| "greedy_loop (Suc n) run pc1 quant_max q v =
     bnd (run (v\<lparr>pc := pc1\<rparr>)) (\<lambda>(r, v').
       let v'' = v'\<lparr>pc := pc v, stack_len := stack_len v\<rparr> in
       case r of
         Code k \<Rightarrow> Inr (if k = -1 then None else Some q, v''\<lparr>cptr := cptr v\<rparr>)
       | Ptr p \<Rightarrow>
           if q + 1 \<ge> unat quant_max \<and> quant_max \<noteq> of_nat INT32_MAX then Inr (Some (q + 1), v''\<lparr>cptr := p\<rparr>)
           else greedy_loop n run pc1 quant_max (q + 1) (v''\<lparr>cptr := p\<rparr>))"

definition op_simple_greedy_quant ::
  "nat \<Rightarrow> (vm \<Rightarrow> (exec_ret \<times> vm) res) \<Rightarrow> REExecContext \<Rightarrow> bytes \<Rightarrow> vm \<Rightarrow> outcome res" where
  "op_simple_greedy_quant n run X bc v =
     bnd (get_u32 bc (pc v)) (\<lambda>next_pos.
     bnd (get_u32 bc (pc v + 4)) (\<lambda>quant_min.
     bnd (get_u32 bc (pc v + 8)) (\<lambda>quant_max.
     let pc1 = pc v + 16 in
     bnd (jump pc1 next_pos) (\<lambda>t.
     bnd (greedy_loop n run pc1 quant_max 0 (v\<lparr>pc := t\<rparr>)) (\<lambda>(q, v).
       case q of
         None \<Rightarrow> Inr (Failed v)
       | Some q \<Rightarrow>
           if q < unat quant_min then Inr (No_match v)
           else if q > unat quant_min then
             bnd (push_state X v (pc1 - 16) (cptr v) RE_EXEC_STATE_GREEDY_QUANT (q - unat quant_min)) (\<lambda>r.
               Inr (case r of None \<Rightarrow> Failed v | Some v \<Rightarrow> Next v))
           else Inr (Next v))))))"

text \<open>
  The loop of the interpreter; the first argument bounds the number of instructions and the
  depth of the nested calls. \<open>no_recurse\<close> stops at the first match or mismatch.
\<close>

primrec lre_exec_backtrack ::
  "nat \<Rightarrow> REExecContext \<Rightarrow> bytes \<Rightarrow> bool \<Rightarrow> vm \<Rightarrow> (exec_ret \<times> vm) res" where
  "lre_exec_backtrack 0 X bc no_recurse v = Inl NoFuel"
| "lre_exec_backtrack (Suc n) X bc no_recurse v =
     (let unwound = (\<lambda>ret v. bnd (unwind X bc (state_stack v) ret v) (\<lambda>r. case r of
            Inl ret \<Rightarrow> Inr (Code (if ret then 1 else 0), v\<lparr>state_stack := []\<rparr>)
          | Inr v \<Rightarrow> lre_exec_backtrack n X bc no_recurse v)) in
      bnd (rd bc (pc v)) (\<lambda>opcode. let v = v\<lparr>pc := pc v + 1\<rparr> in
      bnd (if opcode = REOP_simple_greedy_quant
           then op_simple_greedy_quant n (lre_exec_backtrack n X bc True) X bc v
           else exec_op X bc opcode v) (\<lambda>out. case out of
        Next v \<Rightarrow> lre_exec_backtrack n X bc no_recurse v
      | Matched v \<Rightarrow> if no_recurse then Inr (Ptr (cptr v), v) else unwound True v
      | No_match v \<Rightarrow> if no_recurse then Inr (Code 0, v) else unwound False v
      | Failed v \<Rightarrow> Inr (Code (-1), v))))"

text \<open>
  \<open>lre_exec\<close>: the captures and the code 1 (match), 0 (no match) or -1 (error). The sizes are
  those of a 64 bit machine; the value stack comes from \<open>alloca\<close>, here filled with zeros.
\<close>

definition exec_context :: "bytes \<Rightarrow> u16 list \<Rightarrow> nat \<Rightarrow> (nat \<Rightarrow> bool) \<Rightarrow> REExecContext res" where
  "exec_context bc subject ty alloc =
     bnd (rd bc RE_HEADER_FLAGS) (\<lambda>re_flags.
     bnd (rd bc RE_HEADER_CAPTURE_COUNT) (\<lambda>cc.
     bnd (rd bc RE_HEADER_STACK_SIZE) (\<lambda>ss.
       let utf16 = (re_flags AND LRE_FLAG_UTF16 \<noteq> 0) in
       Inr \<lparr>cbuf = subject, cbuf_type = (if ty = 1 \<and> utf16 then 2 else ty), x_capture_count = unat cc,
            x_stack_size_max = unat ss, multi_line = (re_flags AND LRE_FLAG_MULTILINE \<noteq> 0),
            x_ignore_case = (re_flags AND LRE_FLAG_IGNORECASE \<noteq> 0), x_is_utf16 = utf16,
            state_size = 32 + unat cc * 8 * 2 + unat ss * 8, x_alloc = alloc\<rparr>)))"

definition exec_start :: "REExecContext \<Rightarrow> nat \<Rightarrow> vm" where
  "exec_start X cindex =
     \<lparr>capture = replicate (2 * x_capture_count X) None, stack = replicate (x_stack_size_max X) 0,
      stack_len = 0, pc = RE_HEADER_LEN, cptr = cindex, state_stack = [], state_stack_size = 0\<rparr>"

definition lre_exec ::
  "nat \<Rightarrow> bytes \<Rightarrow> u16 list \<Rightarrow> nat \<Rightarrow> nat \<Rightarrow> (nat \<Rightarrow> bool) \<Rightarrow> (int \<times> nat option list) res" where
  "lre_exec fuel bc subject cindex ty alloc =
     bnd (exec_context bc subject ty alloc) (\<lambda>X.
     bnd (lre_exec_backtrack fuel X bc False (exec_start X cindex)) (\<lambda>(r, v).
       case r of Code k \<Rightarrow> Inr (k, capture v) | Ptr _ \<Rightarrow> Inl Undef))"

definition lre_get_capture_count :: "bytes \<Rightarrow> nat res" where
  "lre_get_capture_count bc = bnd (rd bc RE_HEADER_CAPTURE_COUNT) (\<lambda>x. Inr (unat x))"

definition lre_get_flags :: "bytes \<Rightarrow> u8 res" where
  "lre_get_flags bc = rd bc RE_HEADER_FLAGS"

text \<open>The index of the names after the bytecode, \<open>None\<close> for NULL.\<close>

definition lre_get_groupnames :: "bytes \<Rightarrow> nat option res" where
  "lre_get_groupnames bc =
     bnd (lre_get_flags bc) (\<lambda>f.
       if f AND LRE_FLAG_NAMED_GROUPS = 0 then Inr None
       else bnd (get_u32 bc 3) (\<lambda>n. Inr (Some (7 + unat n))))"

section \<open>Single turns\<close>

lemma exec_next:
  "rd bc (pc v) = Inr opcode \<Longrightarrow> opcode \<noteq> REOP_simple_greedy_quant \<Longrightarrow>
   exec_op X bc opcode (v\<lparr>pc := pc v + 1\<rparr>) = Inr (Next v') \<Longrightarrow>
   lre_exec_backtrack (Suc n) X bc nr v = lre_exec_backtrack n X bc nr v'"
  by (simp add: Let_def)

lemma exec_resumed:
  "rd bc (pc v) = Inr opcode \<Longrightarrow> opcode \<noteq> REOP_simple_greedy_quant \<Longrightarrow>
   exec_op X bc opcode (v\<lparr>pc := pc v + 1\<rparr>) = Inr (No_match v') \<Longrightarrow>
   unwind X bc (state_stack v') False v' = Inr (Inr v'') \<Longrightarrow>
   lre_exec_backtrack (Suc n) X bc False v = lre_exec_backtrack n X bc False v''"
  by (simp add: Let_def)

lemma uint_unit: "uint (ucast (x :: u16) :: u32) = uint x"
proof -
  have "uint x < 2 ^ 16" using uint_lt2p [of x] by simp
  then show ?thesis by (simp add: unsigned_ucast_eq take_bit_int_eq_self)
qed

lemma unit_eq_iff: "(ucast (x :: u16) :: u32) = ucast y \<longleftrightarrow> x = y"
  by (simp add: word_uint_eq_iff uint_unit)

end
