(* ===== verification/ReFaults.thy ===== *)
theory ReFaults
  imports ReStops ReExec "HOL-Library.Code_Target_Numeral"
begin

text \<open>
  Patterns on which compiler and matcher of \<open>libregexp.c\<close> go wrong, each evaluated on the
  model: a lazy loop over an atom that matches nothing is run for ever, a group name that is
  defined after its use is counted wrongly, and when memory runs out at the wrong moment the
  compiler writes behind its buffer.
\<close>

section \<open>The patterns and their code\<close>

text \<open>For evaluation: the size arithmetic with the bound as a numeral.\<close>

lemma size_add_code [code]:
  "size_add a b = (let n = a + b in if n < 18446744073709551616 then n else n mod 18446744073709551616)"
  by (simp add: size_add_def size_max_def Let_def)

lemma size_mul_code [code]:
  "size_mul a b = (let n = a * b in if n < 18446744073709551616 then n else n mod 18446744073709551616)"
  by (simp add: size_mul_def size_max_def Let_def)

text \<open>The pattern \<open>(?:)*?b\<close> and its bytecode, sticky, so that only one start position is tried.\<close>

definition lazy_pattern :: bytes where
  "lazy_pattern = [0x28, 0x3f, 0x3a, 0x29, 0x2a, 0x3f, 0x62, 0]"

definition lazy_code :: bytes where
  "lazy_code = [LRE_FLAG_STICKY, 1, 0, 18, 0, 0, 0,
     REOP_save_start, 0,
     REOP_split_goto_first, 5, 0, 0, 0,
     REOP_goto, 0xf6, 0xff, 0xff, 0xff,
     REOP_char, 0x62, 0,
     REOP_save_end, 0, REOP_match]"

text \<open>An allocator for byte buffers that gives blocks of up to \<open>m\<close> bytes.\<close>

definition limited_realloc :: "nat \<Rightarrow> u8 realloc_func" where
  "limited_realloc m b n = (if n \<le> m then pad_realloc b n else None)"

definition limited_env :: "nat \<Rightarrow> re_env" where
  "limited_env m = plain_env\<lparr>env_realloc8 := limited_realloc m\<rparr>"

text \<open>The pattern \<open>ab|c\<close>.\<close>

definition alt_pattern :: bytes where
  "alt_pattern = [0x61, 0x62, 0x7c, 0x63, 0]"

text \<open>The pattern \<open>\k<c>(?<a>(b))(?<c>d)\<close>.\<close>

definition named_pattern :: bytes where
  "named_pattern = [0x5c, 0x6b, 0x3c, 0x63, 0x3e, 0x28, 0x3f, 0x3c, 0x61, 0x3e, 0x28, 0x62, 0x29, 0x29,
     0x28, 0x3f, 0x3c, 0x63, 0x3e, 0x64, 0x29, 0]"

lemma fault_patterns:
  "lre_compile 2 plain_env lazy_pattern 7 LRE_FLAG_STICKY = Inr lazy_code \<and>
   lre_compile 2 (limited_env 30) alt_pattern 4 LRE_FLAG_STICKY = Inl Undef \<and>
   re_parse_captures (re_start plain_env named_pattern 21 0) (Some [0x63]) = Inr (2, 1) \<and>
   map_sum id (drop 18) (lre_compile 4 plain_env named_pattern 21 0) =
     Inr [REOP_save_start, 0, REOP_back_reference, 2, REOP_save_start, 1, REOP_save_start, 2,
       REOP_char, 0x62, 0, REOP_save_end, 2, REOP_save_end, 1,
       REOP_save_start, 3, REOP_char, 0x64, 0, REOP_save_end, 3, REOP_save_end, 0, REOP_match,
       0x61, 0, 0, 0x63, 0]"
  by code_simp

section \<open>A loop without end\<close>

text \<open>The state before the loop of \<open>(?:)*?\<close>, and what its split saves.\<close>

definition lazy_ctx :: "u16 list \<Rightarrow> nat \<Rightarrow> (nat \<Rightarrow> bool) \<Rightarrow> REExecContext" where
  "lazy_ctx subject ty alloc = \<lparr>cbuf = subject, cbuf_type = ty, x_capture_count = 1, x_stack_size_max = 0,
     multi_line = False, x_ignore_case = False, x_is_utf16 = False, state_size = 48, x_alloc = alloc\<rparr>"

definition lazy_vm :: "nat \<Rightarrow> nat \<Rightarrow> vm" where
  "lazy_vm i sz = \<lparr>capture = [Some i, None], stack = [], stack_len = 0, pc = 9, cptr = i, state_stack = [],
     state_stack_size = sz\<rparr>"

definition lazy_saved :: "nat \<Rightarrow> REExecState" where
  "lazy_saved i = \<lparr>rs_type = RE_EXEC_STATE_SPLIT, rs_stack_len = 0, rs_count = 0, rs_cptr = i, rs_pc = 14,
     rs_capture = [Some i, None], rs_stack = []\<rparr>"

lemma lazy_code_at [simp]:
  "rd lazy_code 7 = Inr REOP_save_start" "rd lazy_code 8 = Inr 0"
  "rd lazy_code 9 = Inr REOP_split_goto_first" "get_u32 lazy_code 10 = Inr 5"
  "rd lazy_code 14 = Inr REOP_goto" "get_u32 lazy_code 15 = Inr (- 10)"
  "rd lazy_code 19 = Inr REOP_char" "get_u16 lazy_code 20 = Inr 0x62"
  by (simp_all add: lazy_code_def get_u32_def get_u16_def of_le32_def of_le16_def)

lemma lazy_split:
  assumes "\<And>n. alloc n" and "sz = 0 \<or> sz = 8"
  shows "lre_exec_backtrack (Suc n) (lazy_ctx subject ty alloc) lazy_code False (lazy_vm i sz) =
    lre_exec_backtrack n (lazy_ctx subject ty alloc) lazy_code False
      ((lazy_vm i 8)\<lparr>pc := 19, state_stack := [lazy_saved i]\<rparr>)"
  by (rule exec_next [where opcode = REOP_split_goto_first])
    (use assms in \<open>auto simp: lazy_vm_def lazy_saved_def lazy_ctx_def exec_op_def reops next_at_def jump_def Let_def
      op_split_def push_next_def push_state_def\<close>)

lemma lazy_mismatch:
  assumes "\<not> (i < length subject \<and> subject ! i = 0x62)" and "ty \<le> 1"
  shows "lre_exec_backtrack (Suc n) (lazy_ctx subject ty alloc) lazy_code False
      ((lazy_vm i 8)\<lparr>pc := 19, state_stack := [lazy_saved i]\<rparr>) =
    lre_exec_backtrack n (lazy_ctx subject ty alloc) lazy_code False ((lazy_vm i 8)\<lparr>pc := 14\<rparr>)"
proof (rule exec_resumed [where opcode = REOP_char])
  let ?v = "(lazy_vm i 8)\<lparr>pc := 19, state_stack := [lazy_saved i]\<rparr>"
  show "exec_op (lazy_ctx subject ty alloc) lazy_code REOP_char (?v\<lparr>pc := pc ?v + 1\<rparr>) =
    Inr (No_match (?v\<lparr>pc := 20, cptr := if i < length subject then i + 1 else i\<rparr>))"
    using assms unit_eq_iff [of "subject ! i" "0x62"]
    by (auto simp: lazy_vm_def lazy_ctx_def exec_op_def reops next_at_def test_char_def
        next_char_def GET_CHAR_def unit_at_def canon_def)
qed (simp_all add: reops lazy_saved_def pop_state_def restore_capture_def pop_state1_def restore_stack_def
    lazy_vm_def overwrite_def)

lemma lazy_goto:
  "lre_exec_backtrack (Suc n) X lazy_code False ((lazy_vm i 8)\<lparr>pc := 14\<rparr>) =
    lre_exec_backtrack n X lazy_code False (lazy_vm i 8)"
  by (rule exec_next [where opcode = REOP_goto]) (auto simp: lazy_vm_def exec_op_def reops next_at_def jump_def)

lemma lazy_loop:
  assumes "\<And>n. alloc n" and "\<not> (i < length subject \<and> subject ! i = 0x62)" and "ty \<le> 1" and "sz = 0 \<or> sz = 8"
  shows "lre_exec_backtrack n (lazy_ctx subject ty alloc) lazy_code False (lazy_vm i sz) = Inl NoFuel"
  using assms(4)
proof (induction n arbitrary: sz rule: less_induct)
  case (less n)
  note split = lazy_split [OF assms(1) less.prems]
  consider "n = 0" | "n = 1" | "n = 2" | m where "n = Suc (Suc (Suc m))"
    by (metis One_nat_def Suc_1 not0_implies_Suc)
  then show ?case
  proof cases
    case 4
    with less.IH [of m 8] show ?thesis
      by (simp add: split lazy_mismatch [OF assms(2,3)] lazy_goto del: lre_exec_backtrack.simps)
  qed (simp_all add: split lazy_mismatch [OF assms(2,3)] numeral_2_eq_2 del: lre_exec_backtrack.simps(2))
qed

text \<open>C29. A lazy loop over nothing hangs the matcher: the compiler accepts the pattern \<open>(?:)*?b\<close>
(here with the sticky flag), and on every subject that has no \<open>b\<close> at the start position the matcher,
as long as it can get memory for its first eight states, does not return, whatever number of
instructions it may execute. The check against empty turns of a loop, \<open>add_zero_advance_check\<close>,
is only made for greedy quantifiers.\<close>

theorem lazy_empty_loop_hangs:
  assumes "\<And>n. alloc n" and "i \<le> length subject" and "\<not> (i < length subject \<and> subject ! i = 0x62)" and "ty \<le> 1"
  shows "lre_compile 2 plain_env lazy_pattern 7 LRE_FLAG_STICKY = Inr lazy_code \<and>
    (\<forall>fuel. lre_exec fuel lazy_code subject i ty alloc = Inl NoFuel)"
proof (intro conjI allI)
  fix fuel
  have X: "exec_context lazy_code subject ty alloc = Inr (lazy_ctx subject ty alloc)"
    using assms(4) by (simp add: exec_context_def lazy_ctx_def lazy_code_def LRE_FLAG_STICKY_def LRE_FLAG_UTF16_def
        LRE_FLAG_MULTILINE_def LRE_FLAG_IGNORECASE_def RE_HEADER_FLAGS_def RE_HEADER_CAPTURE_COUNT_def
        RE_HEADER_STACK_SIZE_def Let_def)
  have start: "exec_start (lazy_ctx subject ty alloc) i = (lazy_vm i 0)\<lparr>capture := [None, None], pc := 7\<rparr>"
    by (simp add: exec_start_def lazy_ctx_def lazy_vm_def RE_HEADER_LEN_def numeral_2_eq_2)
  have "lre_exec_backtrack (Suc n) (lazy_ctx subject ty alloc) lazy_code False
      ((lazy_vm i 0)\<lparr>capture := [None, None], pc := 7\<rparr>) =
    lre_exec_backtrack n (lazy_ctx subject ty alloc) lazy_code False (lazy_vm i 0)" for n
    by (rule exec_next [where opcode = REOP_save_start])
      (auto simp: lazy_vm_def lazy_ctx_def exec_op_def reops next_at_def op_save_def)
  then have "lre_exec_backtrack fuel (lazy_ctx subject ty alloc) lazy_code False
      ((lazy_vm i 0)\<lparr>capture := [None, None], pc := 7\<rparr>) = Inl NoFuel"
    using lazy_loop [OF assms(1,3,4), of 0] by (cases fuel) (simp_all del: lre_exec_backtrack.simps(2))
  then show "lre_exec fuel lazy_code subject i ty alloc = Inl NoFuel"
    by (simp add: lre_exec_def X start)
qed (rule fault_patterns [THEN conjunct1])

lemma lazy_empty_loop_hangs_witness:
  "\<forall>fuel. lre_exec fuel lazy_code [0x61] 0 0 (\<lambda>_. True) = Inl NoFuel"
  using lazy_empty_loop_hangs [of "\<lambda>_. True" 0 "[0x61]" 0] by simp

section \<open>A name counted wrongly\<close>

text \<open>A reference to a group that is named later in the pattern may be compiled to the wrong
group: in \<open>\k<c>(?<a>(b))(?<c>d)\<close> the group named \<open>c\<close> is the third one (the code stores
the captures of group 3 around \<open>d\<close>), but \<open>re_parse_captures\<close>, which after a named group goes on
one byte too far and so misses the parenthesis of \<open>(b)\<close>, says 2, and the reference is
compiled to group 2.\<close>

theorem named_reference_miscounted:
  "re_parse_captures (re_start plain_env named_pattern 21 0) (Some [0x63]) = Inr (2, 1) \<and>
   map_sum id (drop 18) (lre_compile 4 plain_env named_pattern 21 0) =
     Inr [REOP_save_start, 0, REOP_back_reference, 2, REOP_save_start, 1, REOP_save_start, 2,
       REOP_char, 0x62, 0, REOP_save_end, 2, REOP_save_end, 1,
       REOP_save_start, 3, REOP_char, 0x64, 0, REOP_save_end, 3, REOP_save_end, 0, REOP_match,
       0x61, 0, 0, 0x63, 0]"
  using fault_patterns by blast

section \<open>A write behind the buffer\<close>


end
