(* ===== verification/RQSort.thy ===== *)
theory RQSort
  imports Prelude
begin

text \<open>
  The sorting routine of \<open>cutils.c\<close>: \<open>heapsortx\<close>, \<open>med3\<close> and \<open>rqsort\<close>, a quicksort with
  three-way partition, a stack of its own for 50 segments, insertion sort for short segments and
  heap sort for segments that were split 50 times.

  The array is a list; a pointer into it is an index, counted in elements. The comparison function
  is called with two elements and its closure \<open>opaque\<close>; since the engine passes functions that run
  scripts, it may have any effect on the world outside the array and need not be consistent:
  \<open>cmp a b s\<close> returns its answer and the new state. A write to the stack outside its 50 entries and
  an access outside the array are \<open>Undef\<close>.

  The lemmas here hold for every comparison function: the routine stops, stays inside the array
  and its stack, and only exchanges elements (\<open>exchanges\<close>). That the result of a consistent one is
  sorted is in \<open>RQOrder\<close>.
\<close>

type_synonym ('a, 's) cmp_f = "'a \<Rightarrow> 'a \<Rightarrow> 's \<Rightarrow> int \<times> 's"

definition cmp_at :: "('a, 's) cmp_f \<Rightarrow> 'a list \<Rightarrow> nat \<Rightarrow> nat \<Rightarrow> 's \<Rightarrow> (int \<times> 's) res" where
  "cmp_at cmp xs i j s = bnd (rd xs i) (\<lambda>a. bnd (rd xs j) (\<lambda>b. Inr (cmp a b s)))"

definition swap :: "'a list \<Rightarrow> nat \<Rightarrow> nat \<Rightarrow> 'a list res" where
  "swap xs i j = (if i < length xs \<and> j < length xs then Inr (exch xs i j) else Inl Undef)"

section \<open>Heap sort\<close>

text \<open>The choice of the child \<open>c\<close> or its sibling, in the heap of \<open>n\<close> elements at \<open>p\<close>.\<close>

definition sift_child ::
  "('a, 's) cmp_f \<Rightarrow> nat \<Rightarrow> nat \<Rightarrow> 'a list \<Rightarrow> 's \<Rightarrow> nat \<Rightarrow> (nat \<times> 's) res" where
  "sift_child cmp p n xs s c =
     (if c < n - 1
      then bnd (cmp_at cmp xs (p + c) (p + c + 1) s) (\<lambda>(d, s). Inr (if d \<le> 0 then c + 1 else c, s))
      else Inr (c, s))"

lemma sift_child_ge: "sift_child cmp p n xs s c = Inr (c', s') \<Longrightarrow> c \<le> c'"
  by (auto simp: sift_child_def bnd_eq_Inr split: if_splits)

function sift_down ::
  "('a, 's) cmp_f \<Rightarrow> nat \<Rightarrow> nat \<Rightarrow> 'a list \<Rightarrow> 's \<Rightarrow> nat \<Rightarrow> ('a list \<times> 's) res" where
  "sift_down cmp p n xs s r =
     (if r * 2 + 1 < n then
        bnd (sift_child cmp p n xs s (r * 2 + 1)) (\<lambda>(c, s).
        bnd (cmp_at cmp xs (p + r) (p + c) s) (\<lambda>(d, s).
          if d > 0 then Inr (xs, s)
          else bnd (swap xs (p + r) (p + c)) (\<lambda>xs. sift_down cmp p n xs s c)))
      else Inr (xs, s))"
  by pat_completeness auto
termination
  by (relation "measure (\<lambda>(cmp, p, n, xs, s, r). n - r)") (auto dest!: sift_child_ge)

declare sift_down.simps [simp del]

text \<open>The first loop, from the last parent down, and the second, which fills the array from its end.\<close>

fun heapify :: "('a, 's) cmp_f \<Rightarrow> nat \<Rightarrow> nat \<Rightarrow> 'a list \<Rightarrow> 's \<Rightarrow> nat \<Rightarrow> ('a list \<times> 's) res" where
  "heapify cmp p n xs s 0 = Inr (xs, s)"
| "heapify cmp p n xs s (Suc i) =
     bnd (sift_down cmp p n xs s i) (\<lambda>(xs, s). heapify cmp p n xs s i)"

fun heap_extract :: "('a, 's) cmp_f \<Rightarrow> nat \<Rightarrow> 'a list \<Rightarrow> 's \<Rightarrow> nat \<Rightarrow> ('a list \<times> 's) res" where
  "heap_extract cmp p xs s 0 = Inr (xs, s)"
| "heap_extract cmp p xs s (Suc i) =
     bnd (swap xs p (p + Suc i)) (\<lambda>xs.
     bnd (sift_down cmp p (Suc i) xs s 0) (\<lambda>(xs, s). heap_extract cmp p xs s i))"

definition heapsortx :: "('a, 's) cmp_f \<Rightarrow> 'a list \<Rightarrow> 's \<Rightarrow> nat \<Rightarrow> nat \<Rightarrow> ('a list \<times> 's) res" where
  "heapsortx cmp xs s p n =
     (if n > 1 then
        bnd (heapify cmp p n xs s (n div 2)) (\<lambda>(xs, s). heap_extract cmp p xs s (n - 1))
      else Inr (xs, s))"

section \<open>Partition\<close>

definition med3 ::
  "('a, 's) cmp_f \<Rightarrow> 'a list \<Rightarrow> 's \<Rightarrow> nat \<Rightarrow> nat \<Rightarrow> nat \<Rightarrow> (nat \<times> 's) res" where
  "med3 cmp xs s a b c =
     bnd (cmp_at cmp xs a b s) (\<lambda>(d, s).
       if d < 0 then
         bnd (cmp_at cmp xs b c s) (\<lambda>(d, s). if d < 0 then Inr (b, s) else
         bnd (cmp_at cmp xs a c s) (\<lambda>(d, s). Inr (if d < 0 then c else a, s)))
       else
         bnd (cmp_at cmp xs b c s) (\<lambda>(d, s). if d > 0 then Inr (b, s) else
         bnd (cmp_at cmp xs a c s) (\<lambda>(d, s). Inr (if d < 0 then a else c, s))))"

text \<open>
  The two inner loops. \<open>lt\<close>, \<open>i\<close>, \<open>j\<close> and \<open>gt\<close> are the distances of \<open>plt\<close>, \<open>pi\<close>, \<open>pj\<close> and \<open>pgt\<close>
  from \<open>ptr\<close>.
\<close>

function scan_up ::
  "('a, 's) cmp_f \<Rightarrow> nat \<Rightarrow> nat \<Rightarrow> 'a list \<Rightarrow> 's \<Rightarrow> nat \<Rightarrow> nat \<Rightarrow> ('a list \<times> 's \<times> nat \<times> nat) res" where
  "scan_up cmp ptr j xs s lt i =
     (if i < j then
        bnd (cmp_at cmp xs ptr (ptr + i) s) (\<lambda>(c, s).
          if c \<ge> 0 then
            if c = 0 then
              bnd (swap xs (ptr + lt) (ptr + i)) (\<lambda>xs. scan_up cmp ptr j xs s (lt + 1) (i + 1))
            else scan_up cmp ptr j xs s lt (i + 1)
          else Inr (xs, s, lt, i))
      else Inr (xs, s, lt, i))"
  by pat_completeness auto
termination by (relation "measure (\<lambda>(cmp, ptr, j, xs, s, lt, i). j - i)") auto

declare scan_up.simps [simp del]

text \<open>\<open>j\<close> is decremented before the test; it is never 0 here, as \<open>i\<close> is at least 1.\<close>

function scan_down ::
  "('a, 's) cmp_f \<Rightarrow> nat \<Rightarrow> nat \<Rightarrow> 'a list \<Rightarrow> 's \<Rightarrow> nat \<Rightarrow> nat \<Rightarrow> ('a list \<times> 's \<times> nat \<times> nat) res" where
  "scan_down cmp ptr i xs s j gt =
     (if i < j - 1 then
        bnd (cmp_at cmp xs ptr (ptr + (j - 1)) s) (\<lambda>(c, s).
          if c \<le> 0 then
            if c = 0 then
              bnd (swap xs (ptr + (gt - 1)) (ptr + (j - 1))) (\<lambda>xs.
                scan_down cmp ptr i xs s (j - 1) (gt - 1))
            else scan_down cmp ptr i xs s (j - 1) gt
          else Inr (xs, s, j - 1, gt))
      else Inr (xs, s, j - 1, gt))"
  by pat_completeness auto
termination by (relation "measure (\<lambda>(cmp, ptr, i, xs, s, j, gt). j)") auto

declare scan_down.simps [simp del]

lemma scan_down_le: "scan_down cmp ptr i xs s j gt = Inr (ys, s', j', gt') \<Longrightarrow> j' \<le> j - 1"
proof (induction j arbitrary: xs s gt rule: less_induct)
  case (less j)
  have IH: "j' \<le> j - 1" if "i < j - 1" "scan_down cmp ptr i zs t (j - 1) g = Inr (ys, s', j', gt')" for zs t g
    using less.IH [OF _ that(2)] that(1) by linarith
  show ?case
    using less.prems by (subst (asm) scan_down.simps) (auto simp: bnd_eq_Inr split: if_splits dest: IH [unfolded One_nat_def])
qed

text \<open>The outer loop, from the positions where the inner loops begin, and the exchange of blocks.\<close>

function partition_loop ::
  "('a, 's) cmp_f \<Rightarrow> nat \<Rightarrow> 'a list \<Rightarrow> 's \<Rightarrow> nat \<Rightarrow> nat \<Rightarrow> nat \<Rightarrow> nat
     \<Rightarrow> ('a list \<times> 's \<times> nat \<times> nat \<times> nat) res" where
  "partition_loop cmp ptr xs s lt i j gt =
     bnd (scan_up cmp ptr j xs s lt i) (\<lambda>(xs, s, lt, i).
     bnd (scan_down cmp ptr i xs s j gt) (\<lambda>(xs, s, j, gt).
       if i \<ge> j then Inr (xs, s, lt, i, gt)
       else bnd (swap xs (ptr + i) (ptr + j)) (\<lambda>xs. partition_loop cmp ptr xs s lt (i + 1) j gt)))"
  by pat_completeness auto
termination
  by (relation "measure (\<lambda>(cmp, ptr, xs, s, lt, i, j, gt). j)") (auto dest!: scan_down_le)

declare partition_loop.simps [simp del]

fun swap_block :: "'a list \<Rightarrow> nat \<Rightarrow> nat \<Rightarrow> nat \<Rightarrow> 'a list res" where
  "swap_block xs a b 0 = Inr xs"
| "swap_block xs a b (Suc n) = bnd (swap xs a b) (\<lambda>xs. swap_block xs (a + 1) (b + 1) n)"

text \<open>
  The elements as large as the pivot, at both ends, are exchanged with the inner end of the
  smaller and the greater ones; the result has the new \<open>lt\<close> and \<open>gt\<close>.
\<close>

definition gather :: "nat \<Rightarrow> nat \<Rightarrow> 'a list \<Rightarrow> nat \<Rightarrow> nat \<Rightarrow> nat \<Rightarrow> ('a list \<times> nat \<times> nat) res" where
  "gather ptr n xs lt i gt =
     (let span = min lt (i - lt) in
      bnd (swap_block xs ptr (ptr + i - span) span) (\<lambda>xs.
        let span2 = gt - i; span = min (n - gt) span2 in
        bnd (swap_block xs (ptr + i) (ptr + n - span) span) (\<lambda>xs. Inr (xs, i - lt, n - span2))))"

lemma gather_result: "gather ptr n xs lt i gt = Inr (ys, a, g) \<Longrightarrow> a = i - lt \<and> g = n - (gt - i)"
  by (auto simp: gather_def Let_def bnd_eq_Inr)

text \<open>One round of the quicksort: the number of smaller elements and the position of the larger ones.\<close>

definition partition3 ::
  "('a, 's) cmp_f \<Rightarrow> 'a list \<Rightarrow> 's \<Rightarrow> nat \<Rightarrow> nat \<Rightarrow> ('a list \<times> 's \<times> nat \<times> nat) res" where
  "partition3 cmp xs s ptr n =
     (let m4 = n div 4 in
      bnd (med3 cmp xs s (ptr + m4) (ptr + 2 * m4) (ptr + 3 * m4)) (\<lambda>(m, s).
      bnd (swap xs ptr m) (\<lambda>xs.
      bnd (partition_loop cmp ptr xs s 1 1 n n) (\<lambda>(xs, s, lt, i, gt).
      bnd (gather ptr n xs lt i gt) (\<lambda>(xs, lt, gt). Inr (xs, s, lt, gt))))))"

lemma scan_up_sizes:
  "scan_up cmp ptr j xs s lt i = Inr (ys, s', lt', i') \<Longrightarrow>
   lt \<le> lt' \<and> i \<le> i' \<and> (i \<le> j \<longrightarrow> i' \<le> j) \<and> (lt \<le> i \<longrightarrow> lt' \<le> i')"
proof (induction "j - i" arbitrary: xs s lt i rule: less_induct)
  case less
  have IH: "lt \<le> lt' \<and> i \<le> i' \<and> i' \<le> j \<and> (l \<le> Suc i \<longrightarrow> lt' \<le> i')"
    if "i < j" "scan_up cmp ptr j zs t l (Suc i) = Inr (ys, s', lt', i')" "lt \<le> l" for zs t l
    using less.hyps [of "Suc i"] that by fastforce
  show ?case
    using less.prems by (subst (asm) scan_up.simps) (auto simp: bnd_eq_Inr split: if_splits dest: IH)
qed

lemma scan_down_sizes:
  "scan_down cmp ptr i xs s j gt = Inr (ys, s', j', gt') \<Longrightarrow> j \<le> gt \<Longrightarrow> i \<le> gt \<Longrightarrow>
   gt' \<le> gt \<and> j' \<le> gt' \<and> i \<le> gt'"
proof (induction j arbitrary: xs s gt rule: less_induct)
  case (less j)
  have IH: "gt' \<le> gt \<and> j' \<le> gt' \<and> i \<le> gt'"
    if "i < j - 1" "scan_down cmp ptr i zs t (j - 1) g = Inr (ys, s', j', gt')"
      "g = gt \<or> g = gt - 1" for zs t g
    using less.IH [OF _ that(2)] that(1,3) less.prems(2) by linarith
  show ?case
    using less.prems
    by (subst (asm) scan_down.simps) (auto simp: bnd_eq_Inr split: if_splits dest: IH [unfolded One_nat_def])
qed

lemma partition_loop_sizes:
  "partition_loop cmp ptr xs s lt i j gt = Inr (ys, s', lt', i', gt') \<Longrightarrow>
   lt \<le> i \<Longrightarrow> i \<le> j \<Longrightarrow> j \<le> gt \<Longrightarrow>
   lt \<le> lt' \<and> lt' \<le> i' \<and> i \<le> i' \<and> i' \<le> gt' \<and> gt' \<le> gt"
proof (induction j arbitrary: xs s lt i gt rule: less_induct)
  case (less j)
  obtain zs t l k zs' t' m g where
    up: "scan_up cmp ptr j xs s lt i = Inr (zs, t, l, k)" and
    down: "scan_down cmp ptr k zs t j gt = Inr (zs', t', m, g)" and
    rest: "(if k \<ge> m then Inr (zs', t', l, k, g)
       else bnd (swap zs' (ptr + k) (ptr + m)) (\<lambda>xs. partition_loop cmp ptr xs t' l (k + 1) m g))
       = Inr (ys, s', lt', i', gt')"
    using less.prems(1) by (subst (asm) partition_loop.simps) (auto simp: bnd_eq_Inr)
  have b: "lt \<le> l" "l \<le> k" "i \<le> k" "k \<le> j"
    using scan_up_sizes [OF up] less.prems by auto
  have c: "m \<le> j - 1" "g \<le> gt" "m \<le> g" "k \<le> g"
    using scan_down_le [OF down] scan_down_sizes [OF down] less.prems b by auto
  show ?case
  proof (cases "m \<le> k")
    case True
    then show ?thesis using rest b c by simp
  next
    case False
    then obtain us where "partition_loop cmp ptr us t' l (k + 1) m g = Inr (ys, s', lt', i', gt')"
      using rest by (auto simp: bnd_eq_Inr)
    from less.IH [OF _ this] show ?thesis using False b c by fastforce
  qed
qed

lemma partition3_sizes:
  assumes "partition3 cmp xs s ptr n = Inr (ys, s', a, g)" and "n > 0"
  shows "a + (n - g) < n \<and> g \<le> n"
proof -
  obtain zs t us t' lt i gt where
    "partition_loop cmp ptr zs t 1 1 n n = Inr (us, t', lt, i, gt)" "a = i - lt" "g = n - (gt - i)"
    using assms(1) by (auto simp: partition3_def Let_def bnd_eq_Inr dest: gather_result)
  moreover from partition_loop_sizes [OF this(1)] assms(2) have "1 \<le> lt" "1 \<le> i" "i \<le> n" "gt \<le> n" by auto
  ultimately show ?thesis by linarith
qed

section \<open>The quicksort with its stack\<close>

type_synonym segment = "nat \<times> nat \<times> nat"

text \<open>The stack has the segment pushed last in front.\<close>

definition push_segment :: "segment \<Rightarrow> segment list \<Rightarrow> segment list res" where
  "push_segment g stack = (if length stack < 50 then Inr (g # stack) else Inl Undef)"

text \<open>
  The loop \<open>while (nmemb > 6)\<close>: the larger part is pushed, the smaller one is the next segment.
\<close>

function split_loop ::
  "('a, 's) cmp_f \<Rightarrow> 'a list \<Rightarrow> 's \<Rightarrow> segment list \<Rightarrow> nat \<Rightarrow> nat \<Rightarrow> nat
     \<Rightarrow> ('a list \<times> 's \<times> segment list \<times> nat \<times> nat) res" where
  "split_loop cmp xs s stack ptr n depth =
     (if n > 6 then
        if depth + 1 > 50 then
          bnd (heapsortx cmp xs s ptr n) (\<lambda>(xs, s). Inr (xs, s, stack, ptr, 0))
        else
          bnd (partition3 cmp xs s ptr n) (\<lambda>(xs, s, lt, gt).
            if lt > n - gt then
              bnd (push_segment (ptr, lt, depth + 1) stack) (\<lambda>stack.
                split_loop cmp xs s stack (ptr + gt) (n - gt) (depth + 1))
            else
              bnd (push_segment (ptr + gt, n - gt, depth + 1) stack) (\<lambda>stack.
                split_loop cmp xs s stack ptr lt (depth + 1)))
      else Inr (xs, s, stack, ptr, n))"
  by pat_completeness auto
termination
  by (relation "measure (\<lambda>(cmp, xs, s, stack, ptr, n, depth). n)") (auto dest!: partition3_sizes)

declare split_loop.simps [simp del]

definition segments_weight :: "segment list \<Rightarrow> nat" where
  "segments_weight stack = sum_list (map (\<lambda>(ptr, n, depth). 2 * n + 1) stack)"

lemma segments_weight_simps [simp]:
  "segments_weight [] = 0"
  "segments_weight ((ptr, n, depth) # stack) = 2 * n + 1 + segments_weight stack"
  by (simp_all add: segments_weight_def)

lemma split_loop_weight:
  "split_loop cmp xs s stack ptr n depth = Inr (ys, s', stack', ptr', n') \<Longrightarrow>
   segments_weight stack' + 2 * n' \<le> segments_weight stack + 2 * n"
proof (induction n arbitrary: xs s stack ptr depth rule: less_induct)
  case (less n)
  show ?case
  proof (cases "n > 6 \<and> depth + 1 \<le> 50")
    case False
    then show ?thesis
      using less.prems by (subst (asm) split_loop.simps) (auto simp: bnd_eq_Inr split: if_splits)
  next
    case True
    then obtain zs t lt gt where p: "partition3 cmp xs s ptr n = Inr (zs, t, lt, gt)"
      and rest: "(if lt > n - gt then
              bnd (push_segment (ptr, lt, depth + 1) stack) (\<lambda>stack.
                split_loop cmp zs t stack (ptr + gt) (n - gt) (depth + 1))
            else
              bnd (push_segment (ptr + gt, n - gt, depth + 1) stack) (\<lambda>stack.
                split_loop cmp zs t stack ptr lt (depth + 1))) = Inr (ys, s', stack', ptr', n')"
      using less.prems by (subst (asm) split_loop.simps) (auto simp: bnd_eq_Inr)
    have sz: "lt + (n - gt) < n" using partition3_sizes [OF p] True by auto
    show ?thesis
      using rest less.IH [of lt] less.IH [of "n - gt"] sz
      by (fastforce simp: push_segment_def split: if_splits)
  qed
qed

text \<open>The insertion sort: the position \<open>pj\<close> is \<open>j\<close> elements behind \<open>ptr\<close>.\<close>

fun insert_down :: "('a, 's) cmp_f \<Rightarrow> nat \<Rightarrow> 'a list \<Rightarrow> 's \<Rightarrow> nat \<Rightarrow> ('a list \<times> 's) res" where
  "insert_down cmp ptr xs s 0 = Inr (xs, s)"
| "insert_down cmp ptr xs s (Suc j) =
     bnd (cmp_at cmp xs (ptr + j) (ptr + Suc j) s) (\<lambda>(c, s).
       if c > 0 then bnd (swap xs (ptr + Suc j) (ptr + j)) (\<lambda>xs. insert_down cmp ptr xs s j)
       else Inr (xs, s))"

function insertion_sort ::
  "('a, 's) cmp_f \<Rightarrow> nat \<Rightarrow> nat \<Rightarrow> 'a list \<Rightarrow> 's \<Rightarrow> nat \<Rightarrow> ('a list \<times> 's) res" where
  "insertion_sort cmp ptr n xs s i =
     (if i < n then bnd (insert_down cmp ptr xs s i) (\<lambda>(xs, s). insertion_sort cmp ptr n xs s (i + 1))
      else Inr (xs, s))"
  by pat_completeness auto
termination by (relation "measure (\<lambda>(cmp, ptr, n, xs, s, i). n - i)") auto

declare insertion_sort.simps [simp del]

function sort_loop :: "('a, 's) cmp_f \<Rightarrow> 'a list \<Rightarrow> 's \<Rightarrow> segment list \<Rightarrow> ('a list \<times> 's) res" where
  "sort_loop cmp xs s [] = Inr (xs, s)"
| "sort_loop cmp xs s ((ptr, n, depth) # stack) =
     bnd (split_loop cmp xs s stack ptr n depth) (\<lambda>(xs, s, stack, ptr, n).
     bnd (insertion_sort cmp ptr n xs s 1) (\<lambda>(xs, s). sort_loop cmp xs s stack))"
  by pat_completeness auto
termination
  by (relation "measure (\<lambda>(cmp, xs, s, stack). segments_weight stack)") (auto dest!: split_loop_weight)

definition rqsort :: "('a, 's) cmp_f \<Rightarrow> 'a list \<Rightarrow> 's \<Rightarrow> nat \<Rightarrow> nat \<Rightarrow> ('a list \<times> 's) res" where
  "rqsort cmp xs s base nmemb =
     (if nmemb < 2 then Inr (xs, s)
      else bnd (push_segment (base, nmemb, 0) []) (\<lambda>stack. sort_loop cmp xs s stack))"

section \<open>What every comparison function gives\<close>

text \<open>\<open>exchanges l r xs ys\<close>: \<open>ys\<close> comes from \<open>xs\<close> by exchanges of elements at \<open>l, \<dots>, r - 1\<close>.\<close>

inductive exchanges :: "nat \<Rightarrow> nat \<Rightarrow> 'a list \<Rightarrow> 'a list \<Rightarrow> bool" for l r where
  exchanges_refl: "exchanges l r xs xs"
| exchanges_step: "exchanges l r xs ys \<Longrightarrow> l \<le> i \<Longrightarrow> i < r \<Longrightarrow> l \<le> j \<Longrightarrow> j < r \<Longrightarrow> r \<le> length xs \<Longrightarrow>
    exchanges l r xs (exch ys i j)"

lemma exchanges_length: "exchanges l r xs ys \<Longrightarrow> length ys = length xs"
  by (induction rule: exchanges.induct) simp_all

lemma exchanges_mset: "exchanges l r xs ys \<Longrightarrow> mset ys = mset xs"
  by (induction rule: exchanges.induct) (simp_all add: exchanges_length)

lemma exchanges_outside: "exchanges l r xs ys \<Longrightarrow> k < l \<or> r \<le> k \<Longrightarrow> ys ! k = xs ! k"
proof (induction rule: exchanges.induct)
  case (exchanges_step xs ys i j)
  then show ?case by (auto simp: nth_exch exchanges_length [OF exchanges_step.hyps(1)])
qed simp

lemma exchanges_inside:
  "exchanges l r xs ys \<Longrightarrow> l \<le> k \<Longrightarrow> k < r \<Longrightarrow> \<exists>k'. l \<le> k' \<and> k' < r \<and> ys ! k = xs ! k'"
proof (induction arbitrary: k rule: exchanges.induct)
  case (exchanges_step xs ys i j)
  then show ?case by (auto simp: nth_exch exchanges_length [OF exchanges_step.hyps(1)])
qed auto

lemma exchanges_trans: "exchanges l r ys zs \<Longrightarrow> exchanges l r xs ys \<Longrightarrow> exchanges l r xs zs"
  by (induction rule: exchanges.induct) (auto intro: exchanges.intros simp: exchanges_length)

lemma exchanges_mono:
  "exchanges l r xs ys \<Longrightarrow> l' \<le> l \<Longrightarrow> r \<le> r' \<Longrightarrow> r' \<le> length xs \<Longrightarrow> exchanges l' r' xs ys"
  by (induction rule: exchanges.induct) (auto intro: exchanges.intros)

lemma exchanges_exch:
  "l \<le> i \<Longrightarrow> i < r \<Longrightarrow> l \<le> j \<Longrightarrow> j < r \<Longrightarrow> r \<le> length xs \<Longrightarrow> exchanges l r xs (exch xs i j)"
  by (rule exchanges_step) (auto intro: exchanges_refl)

text \<open>
  A result that is defined and reached by exchanges: \<open>keeps l r xs x\<close> for results with the new
  array in front.
\<close>

definition keeps :: "nat \<Rightarrow> nat \<Rightarrow> 'a list \<Rightarrow> ('a list \<times> 'b) res \<Rightarrow> bool" where
  "keeps l r xs x \<longleftrightarrow> (\<exists>ys b. x = Inr (ys, b) \<and> exchanges l r xs ys)"

lemma keeps_Inr [simp]: "keeps l r xs (Inr (ys, b)) \<longleftrightarrow> exchanges l r xs ys"
  by (simp add: keeps_def)

lemma keeps_bnd:
  "keeps l r xs x \<Longrightarrow> (\<And>ys b. x = Inr (ys, b) \<Longrightarrow> exchanges l r xs ys \<Longrightarrow> keeps l r ys (f (ys, b))) \<Longrightarrow>
   keeps l r xs (bnd x f)"
  by (force simp: keeps_def intro: exchanges_trans)

lemma keeps_mono:
  "keeps l r xs x \<Longrightarrow> l' \<le> l \<Longrightarrow> r \<le> r' \<Longrightarrow> r' \<le> length xs \<Longrightarrow> keeps l' r' xs x"
  by (auto simp: keeps_def intro: exchanges_mono)

lemma cmp_at_Inr [simp]:
  "i < length xs \<Longrightarrow> j < length xs \<Longrightarrow> cmp_at cmp xs i j s = Inr (cmp (xs ! i) (xs ! j) s)"
  by (simp add: cmp_at_def)

lemma swap_Inr [simp]: "i < length xs \<Longrightarrow> j < length xs \<Longrightarrow> swap xs i j = Inr (exch xs i j)"
  by (simp add: swap_def)

lemma keeps_exchanges: "exchanges l r xs ys \<Longrightarrow> keeps l r ys x \<Longrightarrow> keeps l r xs x"
  unfolding keeps_def by (blast intro: exchanges_trans)

lemma keeps_exch:
  "keeps l r (exch xs i j) x \<Longrightarrow> l \<le> i \<Longrightarrow> i < r \<Longrightarrow> l \<le> j \<Longrightarrow> j < r \<Longrightarrow> r \<le> length xs \<Longrightarrow> keeps l r xs x"
  by (auto simp: keeps_def intro: exchanges_trans [OF _ exchanges_exch])

lemma sift_child_ok:
  "p + n \<le> length xs \<Longrightarrow> c < n \<Longrightarrow> \<exists>c' s'. sift_child cmp p n xs s c = Inr (c', s') \<and> c' < n"
  by (auto simp: sift_child_def split: prod.split)

lemma sift_down_keeps: "p + n \<le> length xs \<Longrightarrow> keeps p (p + n) xs (sift_down cmp p n xs s r)"
proof (induction "n - r" arbitrary: xs s r rule: less_induct)
  case less
  show ?case
  proof (cases "r * 2 + 1 < n")
    case False
    then show ?thesis by (subst sift_down.simps) (simp add: exchanges_refl)
  next
    case True
    obtain c t where c: "sift_child cmp p n xs s (r * 2 + 1) = Inr (c, t)" "c < n" "r < c"
      using sift_child_ok [OF less.prems True] sift_child_ge [of cmp p n xs s "r * 2 + 1"] by force
    have "keeps p (p + n) (exch xs (p + r) (p + c)) (sift_down cmp p n (exch xs (p + r) (p + c)) u c)" for u
      using less.hyps [of c "exch xs (p + r) (p + c)" u] c(2,3) less.prems by simp
    then have "keeps p (p + n) xs (sift_down cmp p n (exch xs (p + r) (p + c)) u c)" for u
      using c(2,3) less.prems by (intro keeps_exch [of p "p + n" xs "p + r" "p + c"]) auto
    then show ?thesis
      using less.prems True c
      by (subst sift_down.simps) (auto simp: exchanges_refl split: prod.split)
  qed
qed

lemma heapify_keeps: "p + n \<le> length xs \<Longrightarrow> keeps p (p + n) xs (heapify cmp p n xs s i)"
  by (induction i arbitrary: xs s)
    (auto simp: exchanges_refl exchanges_length split: prod.split intro!: keeps_bnd sift_down_keeps)

lemma heap_extract_keeps:
  "p + n \<le> length xs \<Longrightarrow> i < n \<Longrightarrow> keeps p (p + n) xs (heap_extract cmp p xs s i)"
proof (induction i arbitrary: xs s)
  case (Suc i)
  let ?zs = "exch xs p (p + Suc i)"
  have "keeps p (p + n) ?zs (sift_down cmp p (Suc i) ?zs s 0)"
    using Suc.prems by (intro keeps_mono [OF sift_down_keeps]) auto
  then have "keeps p (p + n) ?zs
      (bnd (sift_down cmp p (Suc i) ?zs s 0) (\<lambda>(xs, s). heap_extract cmp p xs s i))"
    using Suc by (auto intro!: keeps_bnd simp: exchanges_length)
  then show ?case
    using Suc.prems by (auto intro: keeps_exch)
qed (simp add: exchanges_refl)

lemma heapsortx_keeps: "p + n \<le> length xs \<Longrightarrow> keeps p (p + n) xs (heapsortx cmp xs s p n)"
  by (auto simp: heapsortx_def exchanges_refl exchanges_length
      intro!: keeps_bnd heapify_keeps heap_extract_keeps)

lemma med3_ok:
  "a < length xs \<Longrightarrow> b < length xs \<Longrightarrow> c < length xs \<Longrightarrow>
   \<exists>m s'. med3 cmp xs s a b c = Inr (m, s') \<and> m \<in> {a, b, c}"
  by (auto simp: med3_def split: prod.split)

lemma scan_up_keeps:
  "ptr + n \<le> length xs \<Longrightarrow> j \<le> n \<Longrightarrow> lt \<le> i \<Longrightarrow> i > 0 \<Longrightarrow>
   keeps ptr (ptr + n) xs (scan_up cmp ptr j xs s lt i)"
proof (induction "j - i" arbitrary: xs s lt i rule: less_induct)
  case less
  show ?case
  proof (cases "i < j")
    case False
    then show ?thesis by (subst scan_up.simps) (simp add: exchanges_refl)
  next
    case True
    have "keeps ptr (ptr + n) xs (scan_up cmp ptr j xs u lt (i + 1))" for u
      using less.hyps [of "i + 1" xs lt u] less.prems True by simp
    moreover have "keeps ptr (ptr + n) xs (scan_up cmp ptr j (exch xs (ptr + lt) (ptr + i)) u (lt + 1) (i + 1))" for u
      using less.hyps [of "i + 1" "exch xs (ptr + lt) (ptr + i)" "lt + 1" u] less.prems True
      by (intro keeps_exch [of ptr "ptr + n" xs "ptr + lt" "ptr + i"]) auto
    ultimately show ?thesis
      using less.prems True by (subst scan_up.simps) (auto simp: exchanges_refl split: prod.split)
  qed
qed

lemma scan_down_keeps:
  "ptr + n \<le> length xs \<Longrightarrow> j \<le> gt \<Longrightarrow> gt \<le> n \<Longrightarrow>
   keeps ptr (ptr + n) xs (scan_down cmp ptr i xs s j gt)"
proof (induction j arbitrary: xs s gt rule: less_induct)
  case (less j)
  show ?case
  proof (cases "i < j - 1")
    case False
    then show ?thesis by (subst scan_down.simps) (simp add: exchanges_refl)
  next
    case True
    let ?ys = "exch xs (ptr + (gt - 1)) (ptr + (j - 1))"
    have "keeps ptr (ptr + n) xs (scan_down cmp ptr i xs u (j - 1) gt)" for u
      using less.IH [of "j - 1" xs gt u] less.prems True by simp
    moreover have "keeps ptr (ptr + n) ?ys (scan_down cmp ptr i ?ys u (j - 1) (gt - 1))" for u
      using less.IH [of "j - 1" ?ys "gt - 1" u] less.prems True by (simp add: diff_le_mono)
    then have "keeps ptr (ptr + n) xs (scan_down cmp ptr i ?ys u (j - 1) (gt - 1))" for u
      using less.prems True
      by (intro keeps_exch [of ptr "ptr + n" xs "ptr + (gt - 1)" "ptr + (j - 1)"]) auto
    ultimately show ?thesis
      using less.prems True
      by (subst scan_down.simps) (simp add: exchanges_refl split: prod.split)
  qed
qed

lemma partition_loop_keeps:
  "ptr + n \<le> length xs \<Longrightarrow> lt \<le> i \<Longrightarrow> 0 < i \<Longrightarrow> i \<le> j \<Longrightarrow> j \<le> gt \<Longrightarrow> gt \<le> n \<Longrightarrow>
   keeps ptr (ptr + n) xs (partition_loop cmp ptr xs s lt i j gt)"
proof (induction j arbitrary: xs s lt i gt rule: less_induct)
  case (less j)
  obtain zs t l k where up: "scan_up cmp ptr j xs s lt i = Inr (zs, t, l, k)"
    and e1: "exchanges ptr (ptr + n) xs zs"
    using scan_up_keeps [of ptr n xs j lt i cmp s] less.prems by (auto simp: keeps_def)
  have b: "l \<le> k" "i \<le> k" "k \<le> j" using scan_up_sizes [OF up] less.prems by auto
  have len: "length zs = length xs" using e1 by (rule exchanges_length)
  obtain ys u m g where down: "scan_down cmp ptr k zs t j gt = Inr (ys, u, m, g)"
    and e2: "exchanges ptr (ptr + n) zs ys"
    using scan_down_keeps [of ptr n zs j gt cmp k t] less.prems len by (auto simp: keeps_def)
  have c: "m \<le> j - 1" "g \<le> gt" "m \<le> g"
    using scan_down_le [OF down] scan_down_sizes [OF down] less.prems b by auto
  have len': "length ys = length xs" using exchanges_length [OF e2] len by simp
  have "keeps ptr (ptr + n) ys (if k \<ge> m then Inr (ys, u, l, k, g)
       else bnd (swap ys (ptr + k) (ptr + m)) (\<lambda>xs. partition_loop cmp ptr xs u l (k + 1) m g))"
  proof (cases "m \<le> k")
    case False
    then have "keeps ptr (ptr + n) (exch ys (ptr + k) (ptr + m))
        (partition_loop cmp ptr (exch ys (ptr + k) (ptr + m)) u l (k + 1) m g)"
      using less.IH [of m "exch ys (ptr + k) (ptr + m)" l "k + 1" g u] less.prems b c len' by simp
    then have "keeps ptr (ptr + n) ys (partition_loop cmp ptr (exch ys (ptr + k) (ptr + m)) u l (k + 1) m g)"
      using False less.prems b c len'
      by (intro keeps_exch [of ptr "ptr + n" ys "ptr + k" "ptr + m"]) auto
    then show ?thesis using False less.prems b c len' by simp
  qed (simp add: exchanges_refl)
  then have "keeps ptr (ptr + n) xs (if k \<ge> m then Inr (ys, u, l, k, g)
       else bnd (swap ys (ptr + k) (ptr + m)) (\<lambda>xs. partition_loop cmp ptr xs u l (k + 1) m g))"
    by (rule keeps_exchanges [OF e1 keeps_exchanges [OF e2]])
  then show ?case by (subst partition_loop.simps) (simp add: up down)
qed

lemma swap_block_exchanges:
  "l \<le> a \<Longrightarrow> a + n \<le> r \<Longrightarrow> l \<le> b \<Longrightarrow> b + n \<le> r \<Longrightarrow> r \<le> length xs \<Longrightarrow>
   \<exists>ys. swap_block xs a b n = Inr ys \<and> exchanges l r xs ys"
proof (induction n arbitrary: xs a b)
  case (Suc n)
  obtain ys where "swap_block (exch xs a b) (a + 1) (b + 1) n = Inr ys" "exchanges l r (exch xs a b) ys"
    using Suc.IH [of "a + 1" "b + 1" "exch xs a b"] Suc.prems by auto
  then show ?case
    using Suc.prems by (auto intro: exchanges_trans [OF _ exchanges_exch])
qed (simp add: exchanges_refl)

lemma partition3_keeps:
  assumes "ptr + n \<le> length xs" and "n > 6"
  shows "keeps ptr (ptr + n) xs (partition3 cmp xs s ptr n)"
proof -
  let ?m4 = "n div 4"
  obtain m t where m: "med3 cmp xs s (ptr + ?m4) (ptr + 2 * ?m4) (ptr + 3 * ?m4) = Inr (m, t)"
    "ptr \<le> m" "m < ptr + n"
    using med3_ok [of "ptr + ?m4" xs "ptr + 2 * ?m4" "ptr + 3 * ?m4" cmp s] assms by force
  let ?zs = "exch xs ptr m"
  have e1: "exchanges ptr (ptr + n) xs ?zs" using m assms by (intro exchanges_exch) auto
  obtain ys u lt i gt where p: "partition_loop cmp ptr ?zs t 1 1 n n = Inr (ys, u, lt, i, gt)"
    and e2: "exchanges ptr (ptr + n) ?zs ys"
    using partition_loop_keeps [of ptr n ?zs 1 1 n n cmp t] assms by (auto simp: keeps_def)
  have b: "1 \<le> lt" "lt \<le> i" "i \<le> gt" "gt \<le> n"
    using partition_loop_sizes [OF p] assms by auto
  have len: "length ys = length xs" using exchanges_length [OF e2] by simp
  obtain ys1 where s1: "swap_block ys ptr (ptr + i - min lt (i - lt)) (min lt (i - lt)) = Inr ys1"
    and e3: "exchanges ptr (ptr + n) ys ys1"
    using swap_block_exchanges [of ptr ptr "min lt (i - lt)" "ptr + n" "ptr + i - min lt (i - lt)" ys]
      b assms len by fastforce
  have len1: "length ys1 = length xs" using exchanges_length [OF e3] len by simp
  obtain ys2 where s2: "swap_block ys1 (ptr + i) (ptr + n - min (n - gt) (gt - i)) (min (n - gt) (gt - i)) = Inr ys2"
    and e4: "exchanges ptr (ptr + n) ys1 ys2"
    using swap_block_exchanges [of ptr "ptr + i" "min (n - gt) (gt - i)" "ptr + n"
        "ptr + n - min (n - gt) (gt - i)" ys1]
      b assms len1 by fastforce
  have "exchanges ptr (ptr + n) xs ys2"
    using e1 e2 e3 e4 by (blast intro: exchanges_trans)
  then show ?thesis
    using m assms p s1 s2 by (simp add: partition3_def gather_def Let_def)
qed

lemma insert_down_keeps:
  "ptr + n \<le> length xs \<Longrightarrow> j < n \<Longrightarrow> keeps ptr (ptr + n) xs (insert_down cmp ptr xs s j)"
proof (induction j arbitrary: xs s)
  case (Suc j)
  have "keeps ptr (ptr + n) (exch xs (ptr + Suc j) (ptr + j))
      (insert_down cmp ptr (exch xs (ptr + Suc j) (ptr + j)) u j)" for u
    using Suc by simp
  then have "keeps ptr (ptr + n) xs (insert_down cmp ptr (exch xs (ptr + Suc j) (ptr + j)) u j)" for u
    by (rule keeps_exch) (use Suc.prems in auto)
  then show ?case using Suc.prems by (auto simp: exchanges_refl split: prod.split)
qed (simp add: exchanges_refl)

lemma insertion_sort_keeps:
  "ptr + n \<le> length xs \<Longrightarrow> keeps ptr (ptr + n) xs (insertion_sort cmp ptr n xs s i)"
proof (induction "n - i" arbitrary: xs s i rule: less_induct)
  case less
  show ?case
  proof (cases "i < n")
    case True
    then show ?thesis
      using less.hyps [of "i + 1"] less.prems
      by (subst insertion_sort.simps)
        (auto intro!: keeps_bnd insert_down_keeps simp: exchanges_length)
  qed (subst insertion_sort.simps, simp add: exchanges_refl)
qed

text \<open>
  The stack inside a call at depth \<open>d\<close>: the depths decrease from the top and are at least 1, so
  that there are at most \<open>d\<close> entries.
\<close>

definition stack_ok :: "nat \<Rightarrow> nat \<Rightarrow> nat \<Rightarrow> segment list \<Rightarrow> bool" where
  "stack_ok l r d stack \<longleftrightarrow>
     sorted_wrt (>) (map (snd \<circ> snd) stack) \<and>
     (\<forall>(p, n, e) \<in> set stack. 1 \<le> e \<and> e \<le> d \<and> l \<le> p \<and> p + n \<le> r)"

lemma stack_ok_simps [simp]:
  "stack_ok l r d []"
  "stack_ok l r d ((p, n, e) # stack) \<longleftrightarrow>
     1 \<le> e \<and> e \<le> d \<and> l \<le> p \<and> p + n \<le> r \<and> stack_ok l r (e - 1) stack"
  unfolding stack_ok_def by (simp, fastforce)

lemma stack_ok_mono: "stack_ok l r d stack \<Longrightarrow> d \<le> d' \<Longrightarrow> stack_ok l r d' stack"
  by (fastforce simp: stack_ok_def)

lemma stack_ok_length: "stack_ok l r d stack \<Longrightarrow> length stack \<le> d"
proof (induction stack arbitrary: d)
  case (Cons g stack)
  obtain p n e where "g = (p, n, e)" by (cases g)
  then show ?case using Cons.IH [of "e - 1"] Cons.prems by auto
qed simp

lemma split_loop_keeps:
  "stack_ok l r d stack \<Longrightarrow> d \<le> 50 \<Longrightarrow> l \<le> ptr \<Longrightarrow> ptr + n \<le> r \<Longrightarrow> r \<le> length xs \<Longrightarrow>
   \<exists>ys s' stack' ptr' n'. split_loop cmp xs s stack ptr n d = Inr (ys, s', stack', ptr', n') \<and>
     exchanges l r xs ys \<and> stack_ok l r 50 stack' \<and> l \<le> ptr' \<and> ptr' + n' \<le> r"
proof (induction n arbitrary: xs s stack ptr d rule: less_induct)
  case (less n)
  consider "n \<le> 6" | "n > 6" "d = 50" | "n > 6" "d < 50" using less.prems(2) by linarith
  then show ?case
  proof cases
    case 1
    then show ?thesis
      using less.prems by (subst split_loop.simps) (auto intro: exchanges_refl stack_ok_mono)
  next
    case 2
    obtain ys t where "heapsortx cmp xs s ptr n = Inr (ys, t)" "exchanges ptr (ptr + n) xs ys"
      using heapsortx_keeps [of ptr n xs cmp s] less.prems by (auto simp: keeps_def)
    then show ?thesis
      using 2 less.prems by (subst split_loop.simps) (auto intro: exchanges_mono)
  next
    case 3
    obtain ys t a g where p: "partition3 cmp xs s ptr n = Inr (ys, t, a, g)"
      and e: "exchanges ptr (ptr + n) xs ys"
      using partition3_keeps [of ptr n xs cmp s] 3 less.prems by (auto simp: keeps_def)
    have e': "exchanges l r xs ys" using e less.prems by (auto intro: exchanges_mono)
    have len: "length ys = length xs" using e by (rule exchanges_length)
    have sz: "a + (n - g) < n" "g \<le> n" using partition3_sizes [OF p] 3 by auto
    have room: "length stack < 50" using stack_ok_length [OF less.prems(1)] 3 by simp
    define st where "st = (if a > n - g then (ptr, a, d + 1) # stack else (ptr + g, n - g, d + 1) # stack)"
    define q where "q = (if a > n - g then ptr + g else ptr)"
    define k where "k = (if a > n - g then n - g else a)"
    have step: "split_loop cmp xs s stack ptr n d = split_loop cmp ys t st q k (d + 1)"
      using 3 room p by (subst split_loop.simps) (auto simp: push_segment_def st_def q_def k_def)
    have "\<exists>zs s' stack' ptr' n'. split_loop cmp ys t st q k (d + 1) = Inr (zs, s', stack', ptr', n') \<and>
       exchanges l r ys zs \<and> stack_ok l r 50 stack' \<and> l \<le> ptr' \<and> ptr' + n' \<le> r"
      using less.prems sz 3 len unfolding st_def q_def k_def
      by (intro less.IH) auto
    then show ?thesis using step e' by (auto intro: exchanges_trans)
  qed
qed

lemma sort_loop_keeps:
  "stack = [] \<or> (\<exists>p n e st. stack = (p, n, e) # st \<and> l \<le> p \<and> p + n \<le> r \<and> e \<le> 50 \<and> stack_ok l r e st) \<Longrightarrow>
   r \<le> length xs \<Longrightarrow> keeps l r xs (sort_loop cmp xs s stack)"
proof (induction cmp xs s stack rule: sort_loop.induct)
  case (2 cmp xs s p n e st)
  obtain ys t st' p' n' where sp: "split_loop cmp xs s st p n e = Inr (ys, t, st', p', n')"
    and ex: "exchanges l r xs ys" and ok: "stack_ok l r 50 st'" and b: "l \<le> p'" "p' + n' \<le> r"
    using split_loop_keeps [of l r e st p n xs cmp s] 2(2,3) by auto
  have len: "length ys = length xs" using ex by (rule exchanges_length)
  obtain zs u where ins: "insertion_sort cmp p' n' ys t 1 = Inr (zs, u)" and e2: "exchanges p' (p' + n') ys zs"
    using insertion_sort_keeps [of p' n' ys cmp t 1] b len 2(3) by (auto simp: keeps_def)
  have e3: "exchanges l r ys zs" using e2 b len 2(3) by (auto intro: exchanges_mono)
  have "st' = [] \<or> (\<exists>p n e st. st' = (p, n, e) # st \<and> l \<le> p \<and> p + n \<le> r \<and> e \<le> 50 \<and> stack_ok l r e st)"
    using ok by (cases st') (auto intro: stack_ok_mono [OF _ diff_le_self])
  then have "keeps l r zs (sort_loop cmp zs u st')"
    using 2(1) [OF sp refl refl refl refl ins refl] exchanges_length [OF e3] len 2(3) by simp
  then have "keeps l r xs (sort_loop cmp zs u st')"
    by (rule keeps_exchanges [OF ex keeps_exchanges [OF e3]])
  then show ?case by (simp add: sp ins [unfolded One_nat_def])
qed (simp add: exchanges_refl)

lemma rqsort_keeps:
  "base + nmemb \<le> length xs \<Longrightarrow> keeps base (base + nmemb) xs (rqsort cmp xs s base nmemb)"
  by (auto simp: rqsort_def push_segment_def exchanges_refl simp del: sort_loop.simps intro!: sort_loop_keeps)

text \<open>C32.
  Whatever the comparison function answers and does, sorting stops, reads and writes only the
  array it was given and its own stack of 50 segments, and the array holds the same elements
  afterwards, with those outside the sorted part in their places.
\<close>
theorem rqsort_permutes:
  assumes "base + nmemb \<le> length xs"
  shows "\<exists>ys t. rqsort cmp xs s base nmemb = Inr (ys, t) \<and> mset ys = mset xs \<and>
    take base ys = take base xs \<and> drop (base + nmemb) ys = drop (base + nmemb) xs"
  using rqsort_keeps [OF assms, of cmp s]
  by (auto simp: keeps_def exchanges_mset exchanges_length exchanges_outside intro!: nth_equalityI)

section \<open>Comparison functions with a state of their own\<close>

text \<open>
  Two comparison functions that agree in the states \<open>ok\<close>, which they do not leave, cannot be told
  apart by the sort. This is used for functions that answer consistently only while no script has
  thrown an exception.
\<close>

definition agrees :: "('s \<Rightarrow> bool) \<Rightarrow> ('a, 's) cmp_f \<Rightarrow> ('a, 's) cmp_f \<Rightarrow> bool" where
  "agrees ok cmp cmp' \<longleftrightarrow> (\<forall>a b s. ok s \<longrightarrow> cmp' a b s = cmp a b s \<and> ok (snd (cmp a b s)))"

text \<open>Equal results, and a final state (found by \<open>st\<close>) that is \<open>ok\<close>.\<close>

definition same :: "('s \<Rightarrow> bool) \<Rightarrow> ('b \<Rightarrow> 's) \<Rightarrow> 'b res \<Rightarrow> 'b res \<Rightarrow> bool" where
  "same ok st x x' \<longleftrightarrow> x' = x \<and> (\<forall>v. x = Inr v \<longrightarrow> ok (st v))"

lemma same_Inr [simp]: "same ok st (Inr v) (Inr v) \<longleftrightarrow> ok (st v)"
  by (simp add: same_def)

lemma same_bnd:
  "same ok st x x' \<Longrightarrow> (\<And>v. x = Inr v \<Longrightarrow> ok (st v) \<Longrightarrow> same ok st' (f v) (f' v)) \<Longrightarrow>
   same ok st' (bnd x f) (bnd x' f')"
  by (cases x) (auto simp: same_def)

lemma same_bnd_pure: "(\<And>v. x = Inr v \<Longrightarrow> same ok st (f v) (f' v)) \<Longrightarrow> same ok st (bnd x f) (bnd x f')"
  by (cases x) (auto simp: same_def)

lemma same_cmp_at:
  "agrees ok cmp cmp' \<Longrightarrow> ok s \<Longrightarrow> same ok snd (cmp_at cmp xs i j s) (cmp_at cmp' xs i j s)"
  unfolding cmp_at_def by (intro same_bnd_pure) (simp add: same_def agrees_def)

lemma same_sift_child:
  "agrees ok cmp cmp' \<Longrightarrow> ok s \<Longrightarrow> same ok snd (sift_child cmp p n xs s c) (sift_child cmp' p n xs s c)"
  by (auto simp: sift_child_def intro!: same_bnd [OF same_cmp_at])

lemma same_sift_down:
  "agrees ok cmp cmp' \<Longrightarrow> ok s \<Longrightarrow> same ok snd (sift_down cmp p n xs s r) (sift_down cmp' p n xs s r)"
proof (induction "n - r" arbitrary: xs s r rule: less_induct)
  case less
  show ?case
    unfolding sift_down.simps [of cmp p n xs s r] sift_down.simps [of cmp' p n xs s r]
    using less.prems
    by (auto intro!: same_bnd [OF same_sift_child] same_bnd [OF same_cmp_at] same_bnd_pure less.hyps
        dest!: sift_child_ge)
qed

lemma same_heapify:
  "agrees ok cmp cmp' \<Longrightarrow> ok s \<Longrightarrow> same ok snd (heapify cmp p n xs s i) (heapify cmp' p n xs s i)"
  by (induction i arbitrary: xs s) (auto intro!: same_bnd [OF same_sift_down])

lemma same_heap_extract:
  "agrees ok cmp cmp' \<Longrightarrow> ok s \<Longrightarrow> same ok snd (heap_extract cmp p xs s i) (heap_extract cmp' p xs s i)"
  by (induction i arbitrary: xs s) (auto intro!: same_bnd_pure same_bnd [OF same_sift_down])

lemma same_heapsortx:
  "agrees ok cmp cmp' \<Longrightarrow> ok s \<Longrightarrow> same ok snd (heapsortx cmp xs s p n) (heapsortx cmp' xs s p n)"
  by (auto simp: heapsortx_def intro!: same_bnd [OF same_heapify] same_heap_extract)

lemma same_med3:
  "agrees ok cmp cmp' \<Longrightarrow> ok s \<Longrightarrow> same ok snd (med3 cmp xs s a b c) (med3 cmp' xs s a b c)"
  by (auto simp: med3_def intro!: same_bnd [OF same_cmp_at])

lemma same_scan_up:
  "agrees ok cmp cmp' \<Longrightarrow> ok s \<Longrightarrow>
   same ok (\<lambda>r. fst (snd r)) (scan_up cmp ptr j xs s lt i) (scan_up cmp' ptr j xs s lt i)"
proof (induction "j - i" arbitrary: xs s lt i rule: less_induct)
  case less
  show ?case
    unfolding scan_up.simps [of cmp ptr j xs s lt i] scan_up.simps [of cmp' ptr j xs s lt i]
    using less.prems by (auto intro!: same_bnd [OF same_cmp_at] same_bnd_pure less.hyps)
qed

lemma same_scan_down:
  "agrees ok cmp cmp' \<Longrightarrow> ok s \<Longrightarrow>
   same ok (\<lambda>r. fst (snd r)) (scan_down cmp ptr i xs s j gt) (scan_down cmp' ptr i xs s j gt)"
proof (induction j arbitrary: xs s gt rule: less_induct)
  case (less j)
  show ?case
    unfolding scan_down.simps [of cmp ptr i xs s j gt] scan_down.simps [of cmp' ptr i xs s j gt]
    using less.prems by (auto intro!: same_bnd [OF same_cmp_at] same_bnd_pure less.IH)
qed

lemma same_partition_loop:
  "agrees ok cmp cmp' \<Longrightarrow> ok s \<Longrightarrow>
   same ok (\<lambda>r. fst (snd r)) (partition_loop cmp ptr xs s lt i j gt)
     (partition_loop cmp' ptr xs s lt i j gt)"
proof (induction j arbitrary: xs s lt i gt rule: less_induct)
  case (less j)
  show ?case
    unfolding partition_loop.simps [of cmp ptr xs s lt i j gt] partition_loop.simps [of cmp' ptr xs s lt i j gt]
    using less.prems
    by (auto intro!: same_bnd [OF same_scan_up] same_bnd [OF same_scan_down] same_bnd_pure less.IH
        dest!: scan_down_le)
qed

lemma same_partition3:
  "agrees ok cmp cmp' \<Longrightarrow> ok s \<Longrightarrow>
   same ok (\<lambda>r. fst (snd r)) (partition3 cmp xs s ptr n) (partition3 cmp' xs s ptr n)"
  by (auto simp: partition3_def Let_def
      intro!: same_bnd [OF same_med3] same_bnd [OF same_partition_loop] same_bnd_pure)

lemma same_split_loop:
  "agrees ok cmp cmp' \<Longrightarrow> ok s \<Longrightarrow>
   same ok (\<lambda>r. fst (snd r)) (split_loop cmp xs s stack ptr n d) (split_loop cmp' xs s stack ptr n d)"
proof (induction n arbitrary: xs s stack ptr d rule: less_induct)
  case (less n)
  show ?case
    unfolding split_loop.simps [of cmp xs s stack ptr n d] split_loop.simps [of cmp' xs s stack ptr n d]
    using less.prems
    by (auto intro!: same_bnd [OF same_heapsortx] same_bnd [OF same_partition3] same_bnd_pure less.IH
        dest!: partition3_sizes)
qed

lemma same_insert_down:
  "agrees ok cmp cmp' \<Longrightarrow> ok s \<Longrightarrow> same ok snd (insert_down cmp ptr xs s j) (insert_down cmp' ptr xs s j)"
  by (induction j arbitrary: xs s) (auto intro!: same_bnd [OF same_cmp_at] same_bnd_pure)

lemma same_insertion_sort:
  "agrees ok cmp cmp' \<Longrightarrow> ok s \<Longrightarrow>
   same ok snd (insertion_sort cmp ptr n xs s i) (insertion_sort cmp' ptr n xs s i)"
proof (induction "n - i" arbitrary: xs s i rule: less_induct)
  case less
  show ?case
    unfolding insertion_sort.simps [of cmp ptr n xs s i] insertion_sort.simps [of cmp' ptr n xs s i]
    using less.prems by (auto intro!: same_bnd [OF same_insert_down] less.hyps)
qed

lemma same_sort_loop:
  "agrees ok cmp cmp' \<Longrightarrow> ok s \<Longrightarrow> same ok snd (sort_loop cmp xs s stack) (sort_loop cmp' xs s stack)"
proof (induction "segments_weight stack" arbitrary: xs s stack rule: less_induct)
  case less
  show ?case
  proof (cases stack)
    case (Cons g st)
    obtain p n d where "g = (p, n, d)" by (cases g)
    then show ?thesis
      using less.prems Cons
      by (auto intro!: same_bnd [OF same_split_loop] same_bnd [OF same_insertion_sort] less.hyps
          dest!: split_loop_weight)
  qed (simp add: less.prems)
qed

lemma same_rqsort:
  "agrees ok cmp cmp' \<Longrightarrow> ok s \<Longrightarrow> same ok snd (rqsort cmp xs s base n) (rqsort cmp' xs s base n)"
  unfolding rqsort_def by (auto intro!: same_bnd_pure same_sort_loop simp del: sort_loop.simps)

end
