(* ===== verification/RQOrder.thy ===== *)
theory RQOrder
  imports RQSort
begin

text \<open>
  The order of the result of \<open>rqsort\<close>: the locale \<open>comparator\<close> states what a consistent comparison
  function promises; in it, heap sort and insertion sort put their segment in order (\<open>ordered\<close>), a
  round of the quicksort separates smaller, equal and greater elements (\<open>parts\<close>), and the segments
  on the stack are the only places where the array is not yet in order (\<open>apart\<close>).
\<close>

section \<open>What a consistent comparison function gives\<close>

text \<open>
  The contract of a comparison function: its answer depends on the elements only, exchanging
  them exchanges the sign, and "not greater" is transitive.
\<close>

locale comparator =
  fixes cmp :: "('a, 's) cmp_f" and c :: "'a \<Rightarrow> 'a \<Rightarrow> int"
  assumes answer: "fst (cmp a b s) = c a b"
    and opposite: "c a b < 0 \<longleftrightarrow> c b a > 0"
    and transitive: "c a b \<le> 0 \<Longrightarrow> c b d \<le> 0 \<Longrightarrow> c a d \<le> 0"
begin

lemma le_refl [simp]: "c a a \<le> 0" "c a a = 0"
  using opposite [of a a] by auto

lemma less_le: "c a b > 0 \<Longrightarrow> c b a \<le> 0"
  using opposite [of b a] by simp

lemma total: "c a b \<le> 0 \<or> c b a \<le> 0"
  using less_le [of a b] by linarith

lemma eq_swap: "c a b = 0 \<longleftrightarrow> c b a = 0"
  using opposite [of a b] opposite [of b a] by linarith

lemma cmp_eq: "cmp a b s = (d, t) \<Longrightarrow> d = c a b"
  using answer [of a b s] by simp

subsection \<open>Heap sort\<close>

text \<open>Parents at \<open>i\<close> and above are not less than their children, except for \<open>r\<close> itself.\<close>

definition heap_from :: "nat \<Rightarrow> nat \<Rightarrow> nat \<Rightarrow> 'a list \<Rightarrow> bool" where
  "heap_from p n i xs \<longleftrightarrow>
     (\<forall>j. 0 < j \<and> j < n \<and> i \<le> (j - 1) div 2 \<longrightarrow> c (xs ! (p + j)) (xs ! (p + (j - 1) div 2)) \<le> 0)"

definition heap_except :: "nat \<Rightarrow> nat \<Rightarrow> nat \<Rightarrow> nat \<Rightarrow> 'a list \<Rightarrow> bool" where
  "heap_except p n i r xs \<longleftrightarrow>
     (\<forall>j. 0 < j \<and> j < n \<and> i \<le> (j - 1) div 2 \<and> (j - 1) div 2 \<noteq> r \<longrightarrow>
        c (xs ! (p + j)) (xs ! (p + (j - 1) div 2)) \<le> 0) \<and>
     (\<forall>j. 0 < j \<and> j < n \<and> (j - 1) div 2 = r \<and> 0 < r \<and> i \<le> (r - 1) div 2 \<longrightarrow>
        c (xs ! (p + j)) (xs ! (p + (r - 1) div 2)) \<le> 0)"

lemma sift_child_max:
  assumes "sift_child cmp p n xs s (r * 2 + 1) = Inr (k, t)" and "p + n \<le> length xs" and "r * 2 + 1 < n"
  shows "0 < k \<and> k < n \<and> r < k \<and> (k - 1) div 2 = r \<and>
    (\<forall>j. 0 < j \<and> j < n \<and> (j - 1) div 2 = r \<longrightarrow> c (xs ! (p + j)) (xs ! (p + k)) \<le> 0)"
proof -
  have par: "j = r * 2 + 1 \<or> j = r * 2 + 2" if "0 < j" "(j - 1) div 2 = r" for j using that by linarith
  show ?thesis
  proof (cases "r * 2 + 2 < n")
    case False
    then have "k = r * 2 + 1" using assms by (auto simp: sift_child_def split: if_splits)
    then show ?thesis using False assms(3) par by fastforce
  next
    case True
    obtain d where d: "cmp (xs ! (p + (r * 2 + 1))) (xs ! (p + (r * 2 + 2))) s = (d, t)"
      and k: "k = (if d \<le> 0 then r * 2 + 2 else r * 2 + 1)"
    proof (cases "cmp (xs ! (p + (r * 2 + 1))) (xs ! (p + (r * 2 + 2))) s")
      case (Pair d' t')
      have "r * 2 + 1 < n - 1" "p + (r * 2 + 1) < length xs" "p + (r * 2 + 1) + 1 < length xs"
        using True assms(2) by simp_all
      then have "t' = t" "k = (if d' \<le> 0 then r * 2 + 2 else r * 2 + 1)"
        using assms(1) Pair by (auto simp: sift_child_def)
      then show ?thesis using that Pair by simp
    qed
    have "c (xs ! (p + j)) (xs ! (p + k)) \<le> 0" if "j = r * 2 + 1 \<or> j = r * 2 + 2" for j
      using that cmp_eq [OF d] k less_le [of "xs ! (p + (r * 2 + 1))" "xs ! (p + (r * 2 + 2))"]
      by (cases "d \<le> 0") auto
    then show ?thesis using True k par by (auto split: if_splits)
  qed
qed

lemma heap_except_down:
  assumes "heap_except p n i r xs" and "i \<le> r" and "p + n \<le> length xs"
    and k: "0 < k" "k < n" "r < k" "(k - 1) div 2 = r"
    and max: "\<forall>j. 0 < j \<and> j < n \<and> (j - 1) div 2 = r \<longrightarrow> c (xs ! (p + j)) (xs ! (p + k)) \<le> 0"
    and le: "c (xs ! (p + r)) (xs ! (p + k)) \<le> 0"
  shows "heap_except p n i k (exch xs (p + r) (p + k))"
proof -
  let ?ys = "exch xs (p + r) (p + k)"
  have y: "?ys ! (p + j) = (if j = k then xs ! (p + r) else if j = r then xs ! (p + k) else xs ! (p + j))" for j
    using assms(3) k by (simp add: nth_exch)
  have old: "c (xs ! (p + j)) (xs ! (p + (j - 1) div 2)) \<le> 0"
    if "0 < j" "j < n" "i \<le> (j - 1) div 2" "(j - 1) div 2 \<noteq> r" for j
    using assms(1) that unfolding heap_except_def by blast
  have above: "c (xs ! (p + k)) (xs ! (p + (r - 1) div 2)) \<le> 0" if "0 < r" "i \<le> (r - 1) div 2"
    using assms(1) that k unfolding heap_except_def by blast
  have "c (?ys ! (p + j)) (?ys ! (p + (j - 1) div 2)) \<le> 0"
    if "0 < j" "j < n" "i \<le> (j - 1) div 2" "(j - 1) div 2 \<noteq> k" for j
  proof -
    consider "j = r" | "j = k" | "j \<noteq> k" "(j - 1) div 2 = r" | "j \<noteq> r" "j \<noteq> k" "(j - 1) div 2 \<noteq> r" by blast
    then show ?thesis
    proof cases
      case 1
      then have "(j - 1) div 2 < r" "(j - 1) div 2 < k" using that(1) k(3) by linarith+
      then show ?thesis using 1 that k(3) above by (simp add: y)
    next
      case 2
      then show ?thesis using k le by (simp add: y)
    next
      case 3
      then have "j \<noteq> r" using that(1) by linarith
      then show ?thesis using 3 max that k(3) by (simp add: y)
    next
      case 4
      then show ?thesis using that old by (simp add: y)
    qed
  qed
  moreover have "c (?ys ! (p + j)) (?ys ! (p + (k - 1) div 2)) \<le> 0"
    if "0 < j" "j < n" "(j - 1) div 2 = k" for j
  proof -
    have "j \<noteq> k" "j \<noteq> r" using that k(3) by linarith+
    then show ?thesis using old [of j] that assms(2) k by (simp add: y)
  qed
  ultimately show ?thesis unfolding heap_except_def by blast
qed

lemma sift_down_heap:
  "sift_down cmp p n xs s r = Inr (ys, t) \<Longrightarrow> heap_except p n i r xs \<Longrightarrow> i \<le> r \<Longrightarrow> p + n \<le> length xs \<Longrightarrow>
   heap_from p n i ys"
proof (induction "n - r" arbitrary: xs s r rule: less_induct)
  case less
  show ?case
  proof (cases "r * 2 + 1 < n")
    case False
    then have "(j - 1) div 2 \<noteq> r" if "0 < j" "j < n" for j using that by linarith
    moreover have "ys = xs" using less.prems(1) False by (subst (asm) sift_down.simps) simp
    ultimately show ?thesis using less.prems(2) by (auto simp: heap_from_def heap_except_def)
  next
    case True
    obtain k u where ch: "sift_child cmp p n xs s (r * 2 + 1) = Inr (k, u)"
      using sift_child_ok [OF less.prems(4) True, of cmp s] by blast
    note k = sift_child_max [OF ch less.prems(4) True]
    obtain d v where d: "cmp (xs ! (p + r)) (xs ! (p + k)) u = (d, v)" by fastforce
    have res: "(if d > 0 then Inr (xs, v) else sift_down cmp p n (exch xs (p + r) (p + k)) v k) = Inr (ys, t)"
      using less.prems(1,4) True ch d k by (subst (asm) sift_down.simps) (simp split: if_splits)
    show ?thesis
    proof (cases "d > 0")
      case True
      have top: "c (xs ! (p + k)) (xs ! (p + r)) \<le> 0"
        using True cmp_eq [OF d] less_le [of "xs ! (p + r)" "xs ! (p + k)"] by simp
      have "c (xs ! (p + j)) (xs ! (p + (j - 1) div 2)) \<le> 0" if "0 < j" "j < n" "i \<le> (j - 1) div 2" for j
        using that less.prems(2) k transitive [OF _ top, of "xs ! (p + j)"]
        by (cases "(j - 1) div 2 = r") (auto simp: heap_except_def)
      then show ?thesis using res True by (simp add: heap_from_def)
    next
      case False
      have "heap_except p n i k (exch xs (p + r) (p + k))"
        using heap_except_down [OF less.prems(2,3,4)] k False cmp_eq [OF d] by auto
      moreover have "n - k < n - r" "i \<le> k" using k less.prems(3) by linarith+
      ultimately show ?thesis
        using less.hyps [of k "exch xs (p + r) (p + k)" v] res False less.prems(4) by simp
    qed
  qed
qed

end

context comparator
begin

text \<open>The elements at \<open>l, \<dots>, r - 1\<close> are in order.\<close>

definition ordered :: "nat \<Rightarrow> nat \<Rightarrow> 'a list \<Rightarrow> bool" where
  "ordered l r xs \<longleftrightarrow> (\<forall>i j. l \<le> i \<and> i < j \<and> j < r \<longrightarrow> c (xs ! i) (xs ! j) \<le> 0)"

lemma orderedI:
  "(\<And>a b. a < b \<Longrightarrow> b < m \<Longrightarrow> c (xs ! (p + a)) (xs ! (p + b)) \<le> 0) \<Longrightarrow> ordered p (p + m) xs"
  unfolding ordered_def
proof (intro allI impI)
  fix i j
  assume le: "\<And>a b. a < b \<Longrightarrow> b < m \<Longrightarrow> c (xs ! (p + a)) (xs ! (p + b)) \<le> 0"
    and "p \<le> i \<and> i < j \<and> j < p + m"
  then have ij: "p \<le> i" "p \<le> j" "i - p < j - p" "j - p < m" by linarith+
  show "c (xs ! i) (xs ! j) \<le> 0" using le [OF ij(3,4)] ij(1,2) by simp
qed

lemma heapify_heap:
  "heapify cmp p n xs s i = Inr (ys, t) \<Longrightarrow> heap_from p n i xs \<Longrightarrow> p + n \<le> length xs \<Longrightarrow> heap_from p n 0 ys"
proof (induction i arbitrary: xs s)
  case (Suc i)
  obtain zs u where d: "sift_down cmp p n xs s i = Inr (zs, u)" "heapify cmp p n zs u i = Inr (ys, t)"
    using Suc.prems(1) by (auto simp: bnd_eq_Inr)
  have "heap_except p n i i xs"
    using Suc.prems(2) by (auto simp: heap_from_def heap_except_def)
  from sift_down_heap [OF d(1) this] Suc.prems(3) have "heap_from p n i zs" by simp
  moreover have "length zs = length xs"
    using sift_down_keeps [OF Suc.prems(3), of cmp s i] d(1) by (auto dest: exchanges_length)
  ultimately show ?case using Suc.IH [OF d(2)] Suc.prems(3) by simp
qed simp

lemma heap_top: "heap_from p n 0 xs \<Longrightarrow> j < n \<Longrightarrow> c (xs ! (p + j)) (xs ! p) \<le> 0"
proof (induction j rule: less_induct)
  case (less j)
  show ?case
  proof (cases "j = 0")
    case False
    then have "(j - 1) div 2 < j" by linarith
    moreover have "c (xs ! (p + j)) (xs ! (p + (j - 1) div 2)) \<le> 0"
      using less.prems False by (simp add: heap_from_def)
    moreover have "c (xs ! (p + (j - 1) div 2)) (xs ! p) \<le> 0"
      using less.IH [OF \<open>(j - 1) div 2 < j\<close> less.prems(1)] less.prems(2) \<open>(j - 1) div 2 < j\<close> by linarith
    ultimately show ?thesis using transitive by blast
  qed simp
qed

lemma heap_extract_ordered:
  "heap_extract cmp p xs s i = Inr (ys, t) \<Longrightarrow> heap_from p (Suc i) 0 xs \<Longrightarrow> ordered (p + Suc i) (p + n) xs \<Longrightarrow>
   \<forall>j k. j \<le> i \<and> i < k \<and> k < n \<longrightarrow> c (xs ! (p + j)) (xs ! (p + k)) \<le> 0 \<Longrightarrow>
   i < n \<Longrightarrow> p + n \<le> length xs \<Longrightarrow> ordered p (p + n) ys"
proof (induction i arbitrary: xs s)
  case 0
  have "c (xs ! k) (xs ! j) \<le> 0" if "p \<le> k" "k < j" "j < p + n" for k j
  proof (cases "k = p")
    case True
    then show ?thesis using 0(4) [rule_format, of 0 "j - p"] that by simp
  next
    case False
    then show ?thesis using 0(3) that by (simp add: ordered_def)
  qed
  then show ?case using 0(1) by (simp add: ordered_def)
next
  case (Suc i)
  let ?zs = "exch xs p (Suc (p + i))"
  have b: "Suc (p + i) < length xs" "p < length xs" using Suc.prems(5,6) by simp_all
  obtain us u where d: "sift_down cmp p (Suc i) ?zs s 0 = Inr (us, u)" "heap_extract cmp p us u i = Inr (ys, t)"
    using Suc.prems(1) b by (auto simp: bnd_eq_Inr)
  have z: "?zs ! k = (if k = Suc (p + i) then xs ! p else if k = p then xs ! Suc (p + i) else xs ! k)" for k
    using b by (simp add: nth_exch)
  have e: "exchanges p (p + Suc i) ?zs us"
    using sift_down_keeps [of p "Suc i" ?zs cmp s 0] d(1) b by simp
  have "heap_except p (Suc i) 0 0 ?zs"
    using Suc.prems(2) by (auto simp: heap_except_def heap_from_def z)
  then have heap: "heap_from p (Suc i) 0 us"
    using sift_down_heap [OF d(1)] b by simp
  have out: "us ! k = ?zs ! k" if "p + Suc i \<le> k" for k
    using exchanges_outside [OF e, of k] that by simp
  have top: "c (?zs ! (p + j)) (?zs ! (p + k)) \<le> 0" if "j \<le> i" "i < k" "k < n" for j k
  proof (cases "k = Suc i")
    case True
    then show ?thesis
      using heap_top [OF Suc.prems(2), of "Suc i"] heap_top [OF Suc.prems(2), of j] that by (simp add: z)
  next
    case False
    then show ?thesis
      using Suc.prems(4) [rule_format, of "Suc i" k] Suc.prems(4) [rule_format, of j k] that by (simp add: z)
  qed
  have low: "c (us ! (p + j)) (us ! (p + k)) \<le> 0" if jk: "j \<le> i" "i < k" "k < n" for j k
  proof -
    obtain k' where "p \<le> k'" "k' < p + Suc i" "us ! (p + j) = ?zs ! k'"
      using exchanges_inside [OF e, of "p + j"] jk by auto
    then show ?thesis using top [of "k' - p" k] jk out [of "p + k"] by simp
  qed
  have "ordered (p + Suc i) (p + n) us"
    unfolding ordered_def
  proof (intro allI impI)
    fix k j assume jk: "p + Suc i \<le> k \<and> k < j \<and> j < p + n"
    have "c (?zs ! k) (?zs ! j) \<le> 0"
    proof (cases "k = p + Suc i")
      case True
      obtain m where m: "j = p + m" using jk le_Suc_ex [of p j] by auto
      show ?thesis using Suc.prems(4) [rule_format, of 0 m] jk True m by (simp add: z)
    next
      case False
      then show ?thesis using Suc.prems(3) jk by (simp add: z ordered_def)
    qed
    then show "c (us ! k) (us ! j) \<le> 0" using out jk by simp
  qed
  then show ?case
    using Suc.IH [OF d(2) heap _ _ _ _] low Suc.prems(5,6) exchanges_length [OF e] by simp
qed

lemma heapsortx_ordered:
  assumes "heapsortx cmp xs s p n = Inr (ys, t)" and "p + n \<le> length xs"
  shows "ordered p (p + n) ys"
proof (cases "n > 1")
  case False
  then show ?thesis using assms by (auto simp: ordered_def)
next
  case True
  obtain zs u where d: "heapify cmp p n xs s (n div 2) = Inr (zs, u)" "heap_extract cmp p zs u (n - 1) = Inr (ys, t)"
    using assms True by (auto simp: heapsortx_def bnd_eq_Inr)
  have "\<not> (0 < j \<and> j < n \<and> n div 2 \<le> (j - 1) div 2)" for j by linarith
  then have "heap_from p n (n div 2) xs" unfolding heap_from_def by blast
  from heapify_heap [OF d(1) this assms(2)] have "heap_from p n 0 zs" .
  moreover have "length zs = length xs"
    using heapify_keeps [OF assms(2), of cmp s "n div 2"] d(1) by (auto dest: exchanges_length)
  moreover have "ordered (p + Suc (n - 1)) (p + n) zs" using True by (simp add: ordered_def)
  moreover have "\<forall>j k. j \<le> n - 1 \<and> n - 1 < k \<and> k < n \<longrightarrow> c (zs ! (p + j)) (zs ! (p + k)) \<le> 0" by auto
  ultimately show ?thesis
    using heap_extract_ordered [OF d(2), of n] True assms(2) by simp
qed

subsection \<open>Insertion sort\<close>

lemma insert_down_ordered:
  "insert_down cmp ptr xs s j = Inr (ys, t) \<Longrightarrow> j \<le> i \<Longrightarrow> ptr + i < length xs \<Longrightarrow>
   \<forall>a b. a < b \<and> b \<le> i \<and> b \<noteq> j \<longrightarrow> c (xs ! (ptr + a)) (xs ! (ptr + b)) \<le> 0 \<Longrightarrow> ordered ptr (ptr + Suc i) ys"
proof (induction j arbitrary: xs s)
  case 0
  then show ?case using orderedI [of "Suc i" xs ptr] by auto
next
  case (Suc j)
  obtain d u where d: "cmp (xs ! (ptr + j)) (xs ! (ptr + Suc j)) s = (d, u)" by fastforce
  let ?zs = "exch xs (Suc (ptr + j)) (ptr + j)"
  have b: "Suc (ptr + j) < length xs" "ptr + j < length xs" using Suc.prems(2,3) by simp_all
  have old: "c (xs ! (ptr + a)) (xs ! (ptr + b)) \<le> 0" if "a < b" "b \<le> i" "b \<noteq> Suc j" for a b
    using Suc.prems(4) that by blast
  have res: "(if d > 0 then insert_down cmp ptr ?zs u j else Inr (xs, u)) = Inr (ys, t)"
    using Suc.prems(1) d b by (simp split: if_splits)
  show ?case
  proof (cases "d > 0")
    case True
    have z: "?zs ! k = (if k = ptr + j then xs ! Suc (ptr + j) else if k = Suc (ptr + j) then xs ! (ptr + j) else xs ! k)" for k
      using b by (simp add: nth_exch)
    have le: "c (xs ! (ptr + Suc j)) (xs ! (ptr + j)) \<le> 0" using True cmp_eq [OF d] less_le by simp
    have "c (?zs ! (ptr + a)) (?zs ! (ptr + b)) \<le> 0" if ab: "a < b" "b \<le> i" "b \<noteq> j" for a b
    proof (cases "b = Suc j")
      case True
      then show ?thesis using ab old [of a j] le Suc.prems(2) by (cases "a = j") (auto simp: z)
    next
      case False
      have "c (xs ! (ptr + (if a = j then Suc j else if a = Suc j then j else a))) (xs ! (ptr + b)) \<le> 0"
        using ab False by (intro old) auto
      then show ?thesis using ab False by (simp add: z split: if_splits)
    qed
    then show ?thesis
      using Suc.IH [of ?zs u] res True Suc.prems(2,3) by simp
  next
    case False
    then have le: "c (xs ! (ptr + j)) (xs ! (ptr + Suc j)) \<le> 0" using cmp_eq [OF d] by simp
    have "c (xs ! (ptr + a)) (xs ! (ptr + b)) \<le> 0" if ab: "a < b" "b \<le> i" for a b
    proof (cases "b = Suc j")
      case True
      show ?thesis
      proof (cases "a = j")
        case False
        then have "c (xs ! (ptr + a)) (xs ! (ptr + j)) \<le> 0" using ab True by (intro old) auto
        then show ?thesis using True transitive [OF _ le] by simp
      qed (use True le in simp)
    qed (use ab old in simp)
    then show ?thesis using res False orderedI [of "Suc i" xs ptr] by auto
  qed
qed

lemma insertion_sort_ordered:
  "insertion_sort cmp ptr n xs s i = Inr (ys, t) \<Longrightarrow> ordered ptr (ptr + i) xs \<Longrightarrow> 0 < i \<Longrightarrow> ptr + n \<le> length xs \<Longrightarrow>
   ordered ptr (ptr + n) ys"
proof (induction "n - i" arbitrary: xs s i rule: less_induct)
  case less
  show ?case
  proof (cases "i < n")
    case False
    then have "ys = xs" using less.prems(1) by (subst (asm) insertion_sort.simps) simp
    then show ?thesis using less.prems(2) False by (auto simp: ordered_def)
  next
    case True
    obtain zs u where d: "insert_down cmp ptr xs s i = Inr (zs, u)" "insertion_sort cmp ptr n zs u (i + 1) = Inr (ys, t)"
      using less.prems(1) True by (subst (asm) insertion_sort.simps) (auto simp: bnd_eq_Inr)
    have "\<forall>a b. a < b \<and> b \<le> i \<and> b \<noteq> i \<longrightarrow> c (xs ! (ptr + a)) (xs ! (ptr + b)) \<le> 0"
      using less.prems(2) by (auto simp: ordered_def)
    then have "ordered ptr (ptr + Suc i) zs"
      using insert_down_ordered [OF d(1), of i] True less.prems(4) by simp
    moreover have "length zs = length xs"
      using insert_down_keeps [OF less.prems(4) True, of cmp s] d(1) by (auto dest: exchanges_length)
    ultimately show ?thesis
      using less.hyps [OF _ d(2)] True less.prems(4) by simp
  qed
qed

end

subsection \<open>Partition\<close>

text \<open>
  The four parts of the array during a round, for the pivot at \<open>p\<close>: as large, smaller, (unknown),
  greater, as large.
\<close>

context comparator
begin

definition parts :: "nat \<Rightarrow> nat \<Rightarrow> nat \<Rightarrow> nat \<Rightarrow> nat \<Rightarrow> nat \<Rightarrow> 'a list \<Rightarrow> bool" where
  "parts p n lt i j gt xs \<longleftrightarrow>
     (\<forall>k < lt. c (xs ! p) (xs ! (p + k)) = 0) \<and>
     (\<forall>k. lt \<le> k \<and> k < i \<longrightarrow> c (xs ! p) (xs ! (p + k)) > 0) \<and>
     (\<forall>k. j \<le> k \<and> k < gt \<longrightarrow> c (xs ! p) (xs ! (p + k)) < 0) \<and>
     (\<forall>k. gt \<le> k \<and> k < n \<longrightarrow> c (xs ! p) (xs ! (p + k)) = 0)"

lemma scan_up_parts:
  "scan_up cmp p j xs s lt i = Inr (ys, t, lt', i') \<Longrightarrow> parts p n lt i j gt xs \<Longrightarrow>
   1 \<le> lt \<Longrightarrow> lt \<le> i \<Longrightarrow> i \<le> j \<Longrightarrow> j \<le> gt \<Longrightarrow> gt \<le> n \<Longrightarrow> p + n \<le> length xs \<Longrightarrow>
   parts p n lt' i' j gt ys \<and> (i' < j \<longrightarrow> c (ys ! p) (ys ! (p + i')) < 0)"
proof (induction "j - i" arbitrary: xs s lt i rule: less_induct)
  case less
  show ?case
  proof (cases "i < j")
    case False
    then show ?thesis using less.prems(1,2,5) by (subst (asm) scan_up.simps) simp
  next
    case True
    obtain d u where d: "cmp (xs ! p) (xs ! (p + i)) s = (d, u)" by fastforce
    have b: "p < length xs" "p + i < length xs" "p + lt < length xs" "p \<noteq> p + lt"
      using less.prems True by linarith+
    have res: "(if d \<ge> 0 then if d = 0 then scan_up cmp p j (exch xs (p + lt) (p + i)) u (lt + 1) (i + 1)
        else scan_up cmp p j xs u lt (i + 1) else Inr (xs, u, lt, i)) = Inr (ys, t, lt', i')"
      using less.prems(1) True d b by (subst (asm) scan_up.simps) (simp split: if_splits)
    note old = less.prems(2) [unfolded parts_def]
    consider "d < 0" | "d > 0" | "d = 0" by linarith
    then show ?thesis
    proof cases
      case 1
      then show ?thesis using res less.prems(2) cmp_eq [OF d] by simp
    next
      case 2
      have "parts p n lt (i + 1) j gt xs"
        using old 2 cmp_eq [OF d] unfolding parts_def by (auto simp: less_Suc_eq)
      then show ?thesis
        using less.hyps [of "i + 1" xs u lt] res 2 less.prems True by simp
    next
      case 3
      let ?zs = "exch xs (p + lt) (p + i)"
      have z: "?zs ! k = (if k = p + i then xs ! (p + lt) else if k = p + lt then xs ! (p + i) else xs ! k)" for k
        using b by (simp add: nth_exch)
      have "parts p n (lt + 1) (i + 1) j gt ?zs"
        unfolding parts_def
      proof (intro conjI allI impI)
        have p0: "?zs ! p = xs ! p" using b True less.prems by (simp add: z)
        fix k
        show "c (?zs ! p) (?zs ! (p + k)) = 0" if "k < lt + 1"
          using that old less.prems(4) 3 cmp_eq [OF d] unfolding p0 by (auto simp: z less_Suc_eq)
        show "c (?zs ! p) (?zs ! (p + k)) > 0" if "lt + 1 \<le> k \<and> k < i + 1"
          using that old less.prems(4) unfolding p0 by (auto simp: z less_Suc_eq)
        show "c (?zs ! p) (?zs ! (p + k)) < 0" if "j \<le> k \<and> k < gt"
          using that old less.prems(4) True unfolding p0 by (auto simp: z)
        show "c (?zs ! p) (?zs ! (p + k)) = 0" if "gt \<le> k \<and> k < n"
          using that old less.prems(4,6) True unfolding p0 by (auto simp: z)
      qed
      then show ?thesis
        using less.hyps [of "i + 1" ?zs u "lt + 1"] res 3 less.prems True by simp
    qed
  qed
qed

lemma scan_down_parts:
  "scan_down cmp p i xs s j gt = Inr (ys, t, j', gt') \<Longrightarrow> parts p n lt i j gt xs \<Longrightarrow>
   (i < j \<longrightarrow> c (xs ! p) (xs ! (p + i)) < 0) \<Longrightarrow>
   1 \<le> lt \<Longrightarrow> lt \<le> i \<Longrightarrow> i \<le> j \<Longrightarrow> j \<le> gt \<Longrightarrow> gt \<le> n \<Longrightarrow> p + n \<le> length xs \<Longrightarrow>
   (if j' \<le> i then parts p n lt i i gt' ys
    else parts p n lt i (j' + 1) gt' ys \<and> c (ys ! p) (ys ! (p + j')) > 0 \<and>
      c (ys ! p) (ys ! (p + i)) < 0)"
proof (induction j arbitrary: xs s gt rule: less_induct)
  case (less j)
  show ?case
  proof (cases "i < j - 1")
    case False
    then have res: "ys = xs" "j' = j - 1" "gt' = gt"
      using less.prems(1) by (subst (asm) scan_down.simps, simp)+
    have "parts p n lt i i gt xs"
    proof (cases "i < j")
      case True
      then have "c (xs ! p) (xs ! (p + i)) < 0" "j = i + 1" using less.prems(3) False by auto
      moreover have "c (xs ! p) (xs ! (p + k)) < 0" if "j \<le> k \<and> k < gt" for k
        using less.prems(2) that by (simp add: parts_def)
      ultimately have "c (xs ! p) (xs ! (p + k)) < 0" if "i \<le> k \<and> k < gt" for k
        using that by (cases "k = i") auto
      then show ?thesis using less.prems(2) by (simp add: parts_def)
    qed (use less.prems(2,6) in simp)
    then show ?thesis using res False by simp
  next
    case True
    obtain d u where d: "cmp (xs ! p) (xs ! (p + (j - 1))) s = (d, u)" by fastforce
    have b: "p < length xs" "p + (j - 1) < length xs" "p + (gt - 1) < length xs" "gt - 1 \<ge> j - 1" "gt > 0"
      using less.prems True by linarith+
    have res: "(if d \<le> 0 then if d = 0
         then scan_down cmp p i (exch xs (p + (gt - 1)) (p + (j - 1))) u (j - 1) (gt - 1)
         else scan_down cmp p i xs u (j - 1) gt else Inr (xs, u, j - 1, gt)) = Inr (ys, t, j', gt')"
      using less.prems(1) True d b by (subst (asm) scan_down.simps) (simp split: if_splits)
    note old = less.prems(2) [unfolded parts_def]
    have xi: "c (xs ! p) (xs ! (p + i)) < 0" using less.prems(3) True by simp
    consider "d > 0" | "d < 0" | "d = 0" by linarith
    then show ?thesis
    proof cases
      case 1
      then show ?thesis using res less.prems(2) cmp_eq [OF d] True xi by auto
    next
      case 2
      have "c (xs ! p) (xs ! (p + k)) < 0" if "j - 1 \<le> k \<and> k < gt" for k
        using that old 2 cmp_eq [OF d] by (cases "k = j - 1") auto
      then have "parts p n lt i (j - 1) gt xs"
        using old unfolding parts_def by blast
      moreover have "j - Suc 0 \<le> gt" using less.prems(7) by linarith
      ultimately show ?thesis
        using less.IH [of "j - 1" xs u gt] res 2 less.prems True xi by simp
    next
      case 3
      obtain m where m: "j = Suc m" using True by (cases j) auto
      obtain q where q: "gt = Suc q" using b(5) by (cases gt) auto
      have mq: "i < m" "m \<le> q" "p + q < length xs" "p + m < length xs" "0 < i"
        using True b m q less.prems(4,5) by auto
      let ?zs = "exch xs (p + q) (p + m)"
      have z: "?zs ! k = (if k = p + m then xs ! (p + q) else if k = p + q then xs ! (p + m) else xs ! k)" for k
        using mq by (simp add: nth_exch)
      have p0: "?zs ! p = xs ! p" using mq by (simp add: z)
      have pi: "?zs ! (p + i) = xs ! (p + i)" using mq by (simp add: z)
      have pm: "c (xs ! p) (xs ! (p + m)) = 0" using 3 cmp_eq [OF d] m by simp
      have "parts p n lt i m q ?zs"
        unfolding parts_def p0
      proof (intro conjI allI impI)
        fix k
        show "c (xs ! p) (?zs ! (p + k)) = 0" if "k < lt"
          using that old mq less.prems(5) by (simp add: z)
        show "c (xs ! p) (?zs ! (p + k)) > 0" if "lt \<le> k \<and> k < i"
          using that old mq by (simp add: z)
        show "c (xs ! p) (?zs ! (p + k)) < 0" if "m \<le> k \<and> k < q"
          using that old m q by (auto simp: z)
        show "c (xs ! p) (?zs ! (p + k)) = 0" if "q \<le> k \<and> k < n"
          using that old pm m q mq by (auto simp: z)
      qed
      then show ?thesis
        using less.IH [of m ?zs u q] res 3 less.prems xi mq p0 pi m q by simp
    qed
  qed
qed

end

lemma swap_block_nth:
  "swap_block xs a b n = Inr ys \<Longrightarrow> a + n \<le> b \<Longrightarrow>
   ys ! k = (if a \<le> k \<and> k < a + n then xs ! (b + (k - a))
             else if b \<le> k \<and> k < b + n then xs ! (a + (k - b)) else xs ! k)"
proof (induction n arbitrary: xs a b)
  case (Suc n)
  have b: "a < length xs" "b < length xs" and rest: "swap_block (exch xs a b) (a + 1) (b + 1) n = Inr ys"
    using Suc.prems(1) by (auto simp: swap_def bnd_eq_Inr split: if_splits)
  have z: "exch xs a b ! k = (if k = b then xs ! a else if k = a then xs ! b else xs ! k)" for k
    using b by (simp add: nth_exch)
  have IH: "ys ! k = (if a + 1 \<le> k \<and> k < a + 1 + n then exch xs a b ! (b + 1 + (k - (a + 1)))
             else if b + 1 \<le> k \<and> k < b + 1 + n then exch xs a b ! (a + 1 + (k - (b + 1)))
             else exch xs a b ! k)"
    using Suc.IH [OF rest] Suc.prems(2) by simp
  consider "k = a" | "k = b" | "a < k" "k < a + Suc n" | "b < k" "k < b + Suc n"
    | "\<not> (a \<le> k \<and> k < a + Suc n)" "\<not> (b \<le> k \<and> k < b + Suc n)" by linarith
  then show ?case
  proof cases
    case 3
    then have "b + 1 + (k - (a + 1)) = b + (k - a)" "b + (k - a) \<noteq> b" "b + (k - a) \<noteq> a"
      using Suc.prems(2) by linarith+
    then show ?thesis using 3 IH by (simp add: z)
  next
    case 4
    then have "a + 1 + (k - (b + 1)) = a + (k - b)" "a + (k - b) \<noteq> b" "a + (k - b) \<noteq> a"
      using Suc.prems(2) by linarith+
    then show ?thesis using 4 IH Suc.prems(2) by (simp add: z)
  next
    case 1
    then show ?thesis using IH Suc.prems(2) by (simp add: z)
  next
    case 2
    then show ?thesis using IH Suc.prems(2) by (simp add: z)
  next
    case 5
    then have "\<not> (a + 1 \<le> k \<and> k < a + 1 + n)" "\<not> (b + 1 \<le> k \<and> k < b + 1 + n)" "k \<noteq> a" "k \<noteq> b"
      by linarith+
    then have "ys ! k = xs ! k" using IH by (simp only: z if_False)
    then show ?thesis using 5 by (simp only: if_False)
  qed
qed auto

text \<open>The exchange of the shorter of two neighbouring blocks swaps the blocks as sets.\<close>

lemma swap_blocks_mem:
  assumes "swap_block xs a (a + m + q - min m q) (min m q) = Inr ys"
  shows "k < q \<Longrightarrow> \<exists>k'. m \<le> k' \<and> k' < m + q \<and> ys ! (a + k) = xs ! (a + k')"
    and "q \<le> k \<Longrightarrow> k < m + q \<Longrightarrow> \<exists>k' < m. ys ! (a + k) = xs ! (a + k')"
    and "k < a \<or> a + m + q \<le> k \<Longrightarrow> ys ! k = xs ! k"
proof -
  have y: "ys ! k = (if a \<le> k \<and> k < a + min m q then xs ! (a + m + q - min m q + (k - a))
             else if a + m + q - min m q \<le> k \<and> k < a + m + q then xs ! (a + (k - (a + m + q - min m q)))
             else xs ! k)" for k
    using swap_block_nth [OF assms, of k] by simp
  show "ys ! k = xs ! k" if "k < a \<or> a + m + q \<le> k"
    using that y [of k] by (auto split: if_splits)
  show "\<exists>k'. m \<le> k' \<and> k' < m + q \<and> ys ! (a + k) = xs ! (a + k')" if "k < q"
  proof (cases "k < min m q")
    case True
    then show ?thesis
      using y [of "a + k"] by (intro exI [of _ "m + q - min m q + k"]) (auto simp: add.assoc)
  next
    case False
    then show ?thesis using that y [of "a + k"] by (intro exI [of _ k]) auto
  qed
  show "\<exists>k' < m. ys ! (a + k) = xs ! (a + k')" if "q \<le> k" "k < m + q"
  proof (cases "m + q - min m q \<le> k")
    case True
    then have "a + m + q - min m q \<le> a + k" "a + k - (a + m + q - min m q) = k - (m + q - min m q)" by linarith+
    then show ?thesis
      using that y [of "a + k"] by (intro exI [of _ "k - (m + q - min m q)"]) auto
  next
    case False
    then show ?thesis using that y [of "a + k"] by (intro exI [of _ k]) auto
  qed
qed

context comparator
begin

lemma partition_loop_parts:
  "partition_loop cmp p xs s lt i j gt = Inr (ys, t, lt', i', gt') \<Longrightarrow> parts p n lt i j gt xs \<Longrightarrow>
   1 \<le> lt \<Longrightarrow> lt \<le> i \<Longrightarrow> i \<le> j \<Longrightarrow> j \<le> gt \<Longrightarrow> gt \<le> n \<Longrightarrow> p + n \<le> length xs \<Longrightarrow>
   parts p n lt' i' i' gt' ys"
proof (induction j arbitrary: xs s lt i gt rule: less_induct)
  case (less j)
  obtain zs u l k us v m g where
    up: "scan_up cmp p j xs s lt i = Inr (zs, u, l, k)" and
    down: "scan_down cmp p k zs u j gt = Inr (us, v, m, g)" and
    rest: "(if k \<ge> m then Inr (us, v, l, k, g)
       else bnd (swap us (p + k) (p + m)) (\<lambda>xs. partition_loop cmp p xs v l (k + 1) m g))
       = Inr (ys, t, lt', i', gt')"
    using less.prems(1) by (subst (asm) partition_loop.simps) (auto simp: bnd_eq_Inr)
  have b: "lt \<le> l" "l \<le> k" "i \<le> k" "k \<le> j"
    using scan_up_sizes [OF up] less.prems by auto
  have c: "m \<le> j - 1" "g \<le> gt" "m \<le> g" "k \<le> g"
    using scan_down_le [OF down] scan_down_sizes [OF down] less.prems b by auto
  have len: "length zs = length xs"
    using scan_up_keeps [of p n xs j lt i cmp s] up less.prems by (auto dest: exchanges_length)
  have len': "length us = length xs"
    using scan_down_keeps [of p n zs j gt cmp k u] down less.prems len by (auto dest: exchanges_length)
  have up_parts: "parts p n l k j gt zs \<and> (k < j \<longrightarrow> c (zs ! p) (zs ! (p + k)) < 0)"
    by (rule scan_up_parts [OF up less.prems(2-8)])
  have down_parts: "if m \<le> k then parts p n l k k g us
    else parts p n l k (m + 1) g us \<and> c (us ! p) (us ! (p + m)) > 0 \<and> c (us ! p) (us ! (p + k)) < 0"
    using scan_down_parts [OF down, of n l] up_parts b less.prems len by simp
  show ?case
  proof (cases "m \<le> k")
    case True
    then show ?thesis using rest down_parts by simp
  next
    case False
    have bb: "p + k < length us" "p + m < length us" "0 < k" "k < m"
      using False less.prems b c len' by linarith+
    let ?ws = "exch us (p + k) (p + m)"
    have z: "?ws ! q = (if q = p + m then us ! (p + k) else if q = p + k then us ! (p + m) else us ! q)" for q
      using bb by (simp add: nth_exch)
    have p0: "?ws ! p = us ! p" using bb by (simp add: z)
    have old: "\<forall>q < l. c (us ! p) (us ! (p + q)) = 0" "\<forall>q. l \<le> q \<and> q < k \<longrightarrow> c (us ! p) (us ! (p + q)) > 0"
      "\<forall>q. m + 1 \<le> q \<and> q < g \<longrightarrow> c (us ! p) (us ! (p + q)) < 0"
      "\<forall>q. g \<le> q \<and> q < n \<longrightarrow> c (us ! p) (us ! (p + q)) = 0"
      and mk: "c (us ! p) (us ! (p + m)) > 0" "c (us ! p) (us ! (p + k)) < 0"
      using down_parts False unfolding parts_def by simp_all
    have "m < g"
    proof (rule ccontr)
      assume "\<not> m < g"
      then show False using old(4) [rule_format, of m] mk(1) c less.prems(5-7) bb b by simp
    qed
    have "parts p n l (k + 1) m g ?ws"
      unfolding parts_def p0
    proof (intro conjI allI impI)
      fix q
      show "c (us ! p) (?ws ! (p + q)) = 0" if "q < l"
        using that old(1) b bb by (simp add: z)
      show "c (us ! p) (?ws ! (p + q)) > 0" if "l \<le> q \<and> q < k + 1"
        using that old(2) mk(1) bb by (cases "q = k") (simp_all add: z)
      show "c (us ! p) (?ws ! (p + q)) < 0" if "m \<le> q \<and> q < g"
        using that old(3) mk(2) bb by (cases "q = m") (simp_all add: z)
      show "c (us ! p) (?ws ! (p + q)) = 0" if "g \<le> q \<and> q < n"
        using that old(4) bb \<open>m < g\<close> by (simp add: z)
    qed
    moreover have "partition_loop cmp p ?ws v l (k + 1) m g = Inr (ys, t, lt', i', gt')"
      using rest False bb by simp
    moreover have "m < j" using c less.prems bb by linarith
    ultimately show ?thesis
      using less.IH [of m ?ws v l "k + 1" g] less.prems(3-8) b c bb len' by simp
  qed
qed

text \<open>Smaller, as large and greater elements, with the same pivot value \<open>x\<close> throughout.\<close>

lemma partition3_parts:
  assumes "partition3 cmp xs s p n = Inr (ys, t, a, g)" and "p + n \<le> length xs" and "n > 6"
  shows "\<exists>x. (\<forall>k < a. c x (ys ! (p + k)) > 0) \<and>
    (\<forall>k. a \<le> k \<and> k < g \<longrightarrow> c x (ys ! (p + k)) = 0) \<and>
    (\<forall>k. g \<le> k \<and> k < n \<longrightarrow> c x (ys ! (p + k)) < 0)"
proof -
  obtain m u where m: "med3 cmp xs s (p + n div 4) (p + 2 * (n div 4)) (p + 3 * (n div 4)) = Inr (m, u)"
    "p \<le> m" "m < p + n"
    using med3_ok [of "p + n div 4" xs "p + 2 * (n div 4)" "p + 3 * (n div 4)" cmp s] assms(2,3) by force
  let ?zs = "exch xs p m"
  obtain us v lt i gt where
    pl: "partition_loop cmp p ?zs u 1 1 n n = Inr (us, v, lt, i, gt)" and
    ga: "gather p n us lt i gt = Inr (ys, a, g)"
    using assms(1,2) m by (auto simp: partition3_def bnd_eq_Inr)
  obtain vs where
    s1: "swap_block us p (p + i - min lt (i - lt)) (min lt (i - lt)) = Inr vs" and
    s2: "swap_block vs (p + i) (p + n - min (n - gt) (gt - i)) (min (n - gt) (gt - i)) = Inr ys"
    using ga by (auto simp: gather_def Let_def bnd_eq_Inr)
  note ag = gather_result [OF ga, THEN conjunct1] gather_result [OF ga, THEN conjunct2]
  have sz: "1 \<le> lt" "lt \<le> i" "i \<le> gt" "gt \<le> n" using partition_loop_sizes [OF pl] assms(3) by auto
  have "parts p n 1 1 n n ?zs" unfolding parts_def by auto
  then have "parts p n lt i i gt us"
    using partition_loop_parts [OF pl] assms(2,3) by simp
  then have us: "\<forall>k < lt. c (us ! p) (us ! (p + k)) = 0"
    "\<forall>k. lt \<le> k \<and> k < i \<longrightarrow> c (us ! p) (us ! (p + k)) > 0"
    "\<forall>k. i \<le> k \<and> k < gt \<longrightarrow> c (us ! p) (us ! (p + k)) < 0"
    "\<forall>k. gt \<le> k \<and> k < n \<longrightarrow> c (us ! p) (us ! (p + k)) = 0"
    unfolding parts_def by blast+
  have s1': "swap_block us p (p + lt + a - min lt a) (min lt a) = Inr vs"
    using s1 sz ag by simp
  have s2': "swap_block vs (p + i) (p + i + (gt - i) + (n - gt) - min (gt - i) (n - gt)) (min (gt - i) (n - gt)) = Inr ys"
    using s2 sz by (simp add: min.commute)
  note first = swap_blocks_mem [OF s1'] and second = swap_blocks_mem [OF s2']
  have low: "ys ! (p + k) = vs ! (p + k)" if "k < i" for k
    using second(3) [of "p + k"] that by simp
  have high: "vs ! (p + k) = us ! (p + k)" if "i \<le> k" for k
    using first(3) [of "p + k"] that sz ag by simp
  have 1: "c (us ! p) (ys ! (p + k)) > 0" if "k < a" for k
    using first(1) [OF that] us(2) low [of k] that sz ag by fastforce
  have 2: "c (us ! p) (ys ! (p + k)) = 0" if "a \<le> k" "k < i" for k
    using first(2) [OF that(1)] us(1) low [OF that(2)] that sz ag by fastforce
  have 3: "c (us ! p) (ys ! (p + i + k)) = 0" if k: "k < n - gt" for k
  proof -
    obtain k' where k': "gt - i \<le> k'" "k' < gt - i + (n - gt)" "ys ! (p + i + k) = vs ! (p + i + k')"
      using second(1) [OF k] by blast
    have "gt \<le> i + k' \<and> i + k' < n" using k'(1,2) sz by linarith
    from us(4) [rule_format, OF this] show ?thesis using k'(3) high [of "i + k'"] by (simp add: add.assoc)
  qed
  have 4: "c (us ! p) (ys ! (p + i + k)) < 0" if k: "n - gt \<le> k" "k < gt - i + (n - gt)" for k
  proof -
    obtain k' where k': "k' < gt - i" "ys ! (p + i + k) = vs ! (p + i + k')"
      using second(2) [OF k] by blast
    have "i \<le> i + k' \<and> i + k' < gt" using k'(1) sz by linarith
    from us(3) [rule_format, OF this] show ?thesis using k'(2) high [of "i + k'"] by (simp add: add.assoc)
  qed
  have "c (us ! p) (ys ! (p + k)) = 0" if "a \<le> k" "k < g" for k
  proof (cases "k < i")
    case False
    then have "k - i < n - gt" "p + i + (k - i) = p + k" using that sz ag by linarith+
    then show ?thesis using 3 [of "k - i"] by simp
  qed (use 2 that in simp)
  moreover have "c (us ! p) (ys ! (p + k)) < 0" if "g \<le> k" "k < n" for k
  proof -
    have "n - gt \<le> k - i" "k - i < gt - i + (n - gt)" "p + i + (k - i) = p + k"
      using that sz ag by linarith+
    then show ?thesis using 4 [of "k - i"] by simp
  qed
  ultimately show ?thesis using 1 by blast
qed

end

subsection \<open>The whole sort\<close>

definition disjoint_segments :: "segment \<Rightarrow> segment \<Rightarrow> bool" where
  "disjoint_segments = (\<lambda>(p, n, d) (q, m, e). p + n \<le> q \<or> q + m \<le> p)"

context comparator
begin

text \<open>All elements of \<open>l, \<dots>, r - 1\<close> are in order, except within a segment still to be sorted.\<close>

definition apart :: "nat \<Rightarrow> nat \<Rightarrow> segment list \<Rightarrow> 'a list \<Rightarrow> bool" where
  "apart l r segs xs \<longleftrightarrow> sorted_wrt disjoint_segments segs \<and>
     (\<forall>i j. l \<le> i \<and> i < j \<and> j < r \<and> (\<forall>(p, n, d) \<in> set segs. \<not> (p \<le> i \<and> j < p + n)) \<longrightarrow>
        c (xs ! i) (xs ! j) \<le> 0)"

lemma apartD:
  "apart l r segs xs \<Longrightarrow> l \<le> i \<Longrightarrow> i < j \<Longrightarrow> j < r \<Longrightarrow>
   (\<And>p n d. (p, n, d) \<in> set segs \<Longrightarrow> \<not> (p \<le> i \<and> j < p + n)) \<Longrightarrow> c (xs ! i) (xs ! j) \<le> 0"
  unfolding apart_def by fast

lemma apart_exchanges:
  assumes "apart l r ((p, n, d) # segs) xs" and e: "exchanges p (p + n) xs ys"
    and "l \<le> p" and "p + n \<le> r"
  shows "apart l r ((p, n, d) # segs) ys"
proof -
  have dis: "sorted_wrt disjoint_segments ((p, n, d) # segs)" using assms(1) by (simp add: apart_def)
  have origin: "\<exists>k'. ys ! k = xs ! k' \<and> (if p \<le> k \<and> k < p + n then p \<le> k' \<and> k' < p + n else k' = k)" for k
    using exchanges_inside [OF e, of k] exchanges_outside [OF e, of k]
    by (cases "p \<le> k \<and> k < p + n") auto
  have "c (ys ! i) (ys ! j) \<le> 0"
    if ij: "l \<le> i" "i < j" "j < r" and sep: "\<forall>(q, m, e) \<in> set ((p, n, d) # segs). \<not> (q \<le> i \<and> j < q + m)" for i j
  proof -
    obtain i' where i': "ys ! i = xs ! i'" "if p \<le> i \<and> i < p + n then p \<le> i' \<and> i' < p + n else i' = i"
      using origin [of i] by blast
    obtain j' where j': "ys ! j = xs ! j'" "if p \<le> j \<and> j < p + n then p \<le> j' \<and> j' < p + n else j' = j"
      using origin [of j] by blast
    have not_both: "\<not> (p \<le> i \<and> j < p + n)" using sep by simp
    have "l \<le> i'" "i' < j'" "j' < r" "\<not> (p \<le> i' \<and> j' < p + n)"
      using i'(2) j'(2) not_both ij assms(3,4) by (auto split: if_splits)
    moreover have "\<not> (q \<le> i' \<and> j' < q + m)" if "(q, m, f) \<in> set segs" for q m f
    proof
      assume in_q: "q \<le> i' \<and> j' < q + m"
      have "p + n \<le> q \<or> q + m \<le> p" using dis that by (auto simp: disjoint_segments_def)
      then have "i' = i" "j' = j" using in_q \<open>i' < j'\<close> i'(2) j'(2) by (auto split: if_splits)
      then show False using sep that in_q by auto
    qed
    ultimately have "c (xs ! i') (xs ! j') \<le> 0" by (intro apartD [OF assms(1)]) auto
    then show ?thesis using i'(1) j'(1) by simp
  qed
  then show ?thesis using dis unfolding apart_def by blast
qed

lemma apart_drop:
  assumes "apart l r ((p, n, d) # segs) xs" and "ordered p (p + n) xs"
  shows "apart l r segs xs"
  unfolding apart_def
proof (intro conjI allI impI)
  show "sorted_wrt disjoint_segments segs" using assms(1) by (simp add: apart_def)
  fix i j
  assume "l \<le> i \<and> i < j \<and> j < r \<and> (\<forall>(p, n, d) \<in> set segs. \<not> (p \<le> i \<and> j < p + n))"
  then show "c (xs ! i) (xs ! j) \<le> 0"
    using assms by (cases "p \<le> i \<and> j < p + n") (auto simp: apart_def ordered_def)
qed

lemma apart_empty: "apart l r ((p, n, d) # segs) xs \<Longrightarrow> ordered p (p + n) xs \<Longrightarrow> apart l r ((p, 0, d) # segs) xs"
  using apart_drop [of l r p n d segs xs] by (fastforce simp: apart_def disjoint_segments_def)

lemma apart_split:
  assumes "apart l r ((p, n, d) # segs) xs" and "a \<le> g" and "g \<le> n"
    and parts: "\<forall>k < a. c x (xs ! (p + k)) > 0"
      "\<forall>k. a \<le> k \<and> k < g \<longrightarrow> c x (xs ! (p + k)) = 0"
      "\<forall>k. g \<le> k \<and> k < n \<longrightarrow> c x (xs ! (p + k)) < 0"
  shows "apart l r ((p, a, d1) # (p + g, n - g, d2) # segs) xs"
  unfolding apart_def
proof (intro conjI allI impI)
  show "sorted_wrt disjoint_segments ((p, a, d1) # (p + g, n - g, d2) # segs)"
    using assms(1-3) by (fastforce simp: apart_def disjoint_segments_def)
  fix i j
  assume ij: "l \<le> i \<and> i < j \<and> j < r \<and>
    (\<forall>(q, m, d) \<in> set ((p, a, d1) # (p + g, n - g, d2) # segs). \<not> (q \<le> i \<and> j < q + m))"
  show "c (xs ! i) (xs ! j) \<le> 0"
  proof (cases "p \<le> i \<and> j < p + n")
    case False
    then show ?thesis using assms(1) ij by (auto simp: apart_def)
  next
    case True
    then obtain i' j' where i': "i = p + i'" "j = p + j'" by (metis le_Suc_ex less_imp_le_nat order.trans ij)
    have not_both: "\<not> j' < a" "\<not> g \<le> i'" using ij i' True assms(3) by auto
    have "c (xs ! i) x \<le> 0"
      using not_both(2) parts(1,2) i' less_le [of x "xs ! i"] eq_swap [of x "xs ! i"]
      by (cases "i' < a") auto
    moreover have "c x (xs ! j) \<le> 0"
      using not_both(1) parts(2,3) i' True by (cases "j' < g") (auto simp: order.strict_implies_order)
    ultimately show ?thesis by (rule transitive)
  qed
qed

lemma apart_swap: "apart l r (u # v # segs) xs \<Longrightarrow> apart l r (v # u # segs) xs"
  unfolding apart_def by (auto simp: disjoint_segments_def)

lemma split_loop_apart:
  "split_loop cmp xs s stack ptr n d = Inr (ys, t, stack', ptr', n') \<Longrightarrow>
   apart l r ((ptr, n, d) # stack) xs \<Longrightarrow> l \<le> ptr \<Longrightarrow> ptr + n \<le> r \<Longrightarrow> r \<le> length xs \<Longrightarrow>
   \<exists>d'. apart l r ((ptr', n', d') # stack') ys"
proof (induction n arbitrary: xs s stack ptr d rule: less_induct)
  case (less n)
  consider "n \<le> 6" | "n > 6" "d + 1 > 50" | "n > 6" "d + 1 \<le> 50" by linarith
  then show ?case
  proof cases
    case 1
    then show ?thesis using less.prems(1,2) by (subst (asm) split_loop.simps) auto
  next
    case 2
    then have h: "heapsortx cmp xs s ptr n = Inr (ys, t)" "stack' = stack" "n' = 0" "ptr' = ptr"
      using less.prems(1) by (subst (asm) split_loop.simps, auto simp: bnd_eq_Inr)+
    have "exchanges ptr (ptr + n) xs ys"
      using heapsortx_keeps [of ptr n xs cmp s] h less.prems(4,5) by simp
    from apart_exchanges [OF less.prems(2) this less.prems(3,4)]
    have "apart l r ((ptr, 0, d) # stack) ys"
      using apart_empty heapsortx_ordered [OF h(1)] less.prems(4,5) by simp
    then show ?thesis using h by auto
  next
    case 3
    obtain zs u a g where p: "partition3 cmp xs s ptr n = Inr (zs, u, a, g)"
      and rest: "(if a > n - g then
              bnd (push_segment (ptr, a, d + 1) stack) (\<lambda>stack.
                split_loop cmp zs u stack (ptr + g) (n - g) (d + 1))
            else
              bnd (push_segment (ptr + g, n - g, d + 1) stack) (\<lambda>stack.
                split_loop cmp zs u stack ptr a (d + 1))) = Inr (ys, t, stack', ptr', n')"
      using less.prems(1) 3 by (subst (asm) split_loop.simps) (auto simp: bnd_eq_Inr)
    have e: "exchanges ptr (ptr + n) xs zs"
      using partition3_keeps [of ptr n xs cmp s] p 3 less.prems(4,5) by simp
    have sz: "a + (n - g) < n" "g \<le> n" using partition3_sizes [OF p] 3 by auto
    obtain x where x: "\<forall>k < a. c x (zs ! (ptr + k)) > 0" "\<forall>k. a \<le> k \<and> k < g \<longrightarrow> c x (zs ! (ptr + k)) = 0"
      "\<forall>k. g \<le> k \<and> k < n \<longrightarrow> c x (zs ! (ptr + k)) < 0"
      using partition3_parts [OF p] less.prems(4,5) 3 by auto
    have ap: "apart l r ((ptr, a, d + 1) # (ptr + g, n - g, d + 1) # stack) zs"
      using apart_split [OF apart_exchanges [OF less.prems(2) e less.prems(3,4)] _ sz(2) x] sz by simp
    have len: "length zs = length xs" using e by (rule exchanges_length)
    show ?thesis
    proof (cases "a > n - g")
      case True
      then have "split_loop cmp zs u ((ptr, a, d + 1) # stack) (ptr + g) (n - g) (d + 1) = Inr (ys, t, stack', ptr', n')"
        using rest by (simp add: push_segment_def split: if_splits)
      from less.IH [OF _ this apart_swap [OF ap]] show ?thesis using sz less.prems(3-5) len by simp
    next
      case False
      then have "split_loop cmp zs u ((ptr + g, n - g, d + 1) # stack) ptr a (d + 1) = Inr (ys, t, stack', ptr', n')"
        using rest by (simp add: push_segment_def split: if_splits)
      from less.IH [OF _ this ap] show ?thesis using sz less.prems(3-5) len by simp
    qed
  qed
qed

end

context comparator
begin

lemma sort_loop_apart:
  "sort_loop f xs s stack = Inr (ys, t) \<Longrightarrow> f = cmp \<Longrightarrow> apart l r stack xs \<Longrightarrow>
   stack = [] \<or> (\<exists>p n e st. stack = (p, n, e) # st \<and> l \<le> p \<and> p + n \<le> r \<and> e \<le> 50 \<and> stack_ok l r e st) \<Longrightarrow>
   r \<le> length xs \<Longrightarrow> apart l r [] ys"
proof (induction f xs s stack rule: sort_loop.induct)
  case (2 f xs s p n e st)
  obtain zs u st' p' n' where sp: "split_loop cmp xs s st p n e = Inr (zs, u, st', p', n')"
    and ex: "exchanges l r xs zs" and ok: "stack_ok l r 50 st'" and b: "l \<le> p'" "p' + n' \<le> r"
    using split_loop_keeps [of l r e st p n xs cmp s] 2(5,6) by auto
  have len: "length zs = length xs" using ex by (rule exchanges_length)
  obtain d' where ap: "apart l r ((p', n', d') # st') zs"
    using split_loop_apart [OF sp 2(4)] 2(5,6) by auto
  obtain us v where ins: "insertion_sort cmp p' n' zs u 1 = Inr (us, v)" and e2: "exchanges p' (p' + n') zs us"
    using insertion_sort_keeps [of p' n' zs cmp u 1] b len 2(6) by (auto simp: keeps_def)
  have "ordered p' (p' + 1) zs" by (simp add: ordered_def)
  from insertion_sort_ordered [OF ins this] have "ordered p' (p' + n') us" using b len 2(6) by simp
  then have "apart l r st' us"
    using apart_drop [OF apart_exchanges [OF ap e2 b]] by simp
  moreover have "st' = [] \<or> (\<exists>p n e st. st' = (p, n, e) # st \<and> l \<le> p \<and> p + n \<le> r \<and> e \<le> 50 \<and> stack_ok l r e st)"
    using ok by (cases st') (auto intro: stack_ok_mono [OF _ diff_le_self])
  moreover have "sort_loop cmp us v st' = Inr (ys, t)" using 2(2,3) sp ins by simp
  ultimately show ?case
    using 2(1) [unfolded 2(3), OF sp refl refl refl refl ins refl] exchanges_length [OF e2] len 2(6) by simp
qed simp

lemma rqsort_ordered:
  assumes "rqsort cmp xs s base nmemb = Inr (ys, t)" and "base + nmemb \<le> length xs"
  shows "ordered base (base + nmemb) ys"
proof (cases "nmemb < 2")
  case True
  then show ?thesis by (auto simp: ordered_def)
next
  case False
  have "apart base (base + nmemb) [(base, nmemb, 0)] xs" by (auto simp: apart_def)
  moreover have "sort_loop cmp xs s [(base, nmemb, 0)] = Inr (ys, t)"
    using assms False by (simp add: rqsort_def push_segment_def del: sort_loop.simps)
  ultimately have "apart base (base + nmemb) [] ys"
    using sort_loop_apart [OF _ refl] assms(2) by (simp del: sort_loop.simps)
  then show ?thesis by (auto simp: apart_def ordered_def)
qed

end

context comparator
begin

lemma rqsort_sorted:
  assumes "base + nmemb \<le> length xs"
  shows "\<exists>ys t. rqsort cmp xs s base nmemb = Inr (ys, t) \<and> mset ys = mset xs \<and>
    sorted_wrt (\<lambda>a b. c a b \<le> 0) (take nmemb (drop base ys))"
proof -
  obtain ys t where ys: "rqsort cmp xs s base nmemb = Inr (ys, t)" "exchanges base (base + nmemb) xs ys"
    using rqsort_keeps [OF assms, of cmp s] by (auto simp: keeps_def)
  have "ordered base (base + nmemb) ys" by (rule rqsort_ordered [OF ys(1) assms])
  then show ?thesis
    using ys exchanges_mset [OF ys(2)] exchanges_length [OF ys(2)] assms
    by (auto simp: sorted_wrt_iff_nth_less ordered_def)
qed

end

text \<open>C31.
  With a comparison function that, in the states \<open>ok\<close> it does not leave, depends on the elements
  only and is consistent (opposite when its arguments are exchanged, and "not greater" is
  transitive) the sort ends in such a state with the same elements, the sorted part in order.
\<close>
theorem rqsort_sorts:
  assumes answer: "\<And>a b s. ok s \<Longrightarrow> fst (cmp a b s) = c a b \<and> ok (snd (cmp a b s))"
    and "\<And>a b. c a b < 0 \<longleftrightarrow> c b a > 0"
    and "\<And>a b d. c a b \<le> 0 \<Longrightarrow> c b d \<le> 0 \<Longrightarrow> c a d \<le> 0"
    and "ok s" and "base + nmemb \<le> length xs"
  shows "\<exists>ys t. rqsort cmp xs s base nmemb = Inr (ys, t) \<and> ok t \<and> mset ys = mset xs \<and>
    sorted_wrt (\<lambda>a b. c a b \<le> 0) (take nmemb (drop base ys))"
proof -
  define cmp' where "cmp' = (\<lambda>a b s. if ok s then cmp a b s else (c a b, s))"
  have "comparator cmp' c" using assms(1-3) by unfold_locales (auto simp: cmp'_def)
  from comparator.rqsort_sorted [OF this assms(5)] obtain ys t where
    ys: "rqsort cmp' xs s base nmemb = Inr (ys, t)" "mset ys = mset xs"
    "sorted_wrt (\<lambda>a b. c a b \<le> 0) (take nmemb (drop base ys))" by blast
  have "agrees ok cmp cmp'" using answer by (simp add: agrees_def cmp'_def)
  note agree = same_rqsort [OF this assms(4), of xs base nmemb, unfolded same_def]
  then have "rqsort cmp xs s base nmemb = Inr (ys, t)" using ys(1) by simp
  then show ?thesis using agree ys(2,3) by simp
qed

end
