(* ===== verification/RQExchange.thy ===== *)
theory RQExchange
  imports RQSort Bytes
begin

text \<open>
  The exchange of two elements in memory (\<open>cutils.c\<close>): \<open>exchange_func\<close> chooses one of ten functions
  by the alignment of the array and the size of its elements. The memory is a list of bytes, an
  index in it an address. Reading or writing units of 2, 4 or 8 bytes at an address that is not a
  multiple of their size is undefined in C and \<open>Undef\<close> here. The theorem relates the byte level to
  the exchange \<open>exch\<close> of the elements of a list, on which \<open>RQSort\<close> is written.
\<close>

definition block :: "nat \<Rightarrow> nat \<Rightarrow> 'a list \<Rightarrow> 'a list" where
  "block i n xs = take n (drop i xs)"

text \<open>
  \<open>n\<close> units of \<open>w\<close> bytes are exchanged one after the other; \<open>al\<close> is the alignment the accesses
  need. (The 16-byte unit is two 64-bit words, both read before they are written.)
\<close>

fun exchange_units :: "nat \<Rightarrow> nat \<Rightarrow> bytes \<Rightarrow> nat \<Rightarrow> nat \<Rightarrow> nat \<Rightarrow> bytes res" where
  "exchange_units w al mem ap bp 0 = Inr mem"
| "exchange_units w al mem ap bp (Suc n) =
     (if ap mod al = 0 \<and> bp mod al = 0 \<and> ap + w \<le> length mem \<and> bp + w \<le> length mem
      then let t = block ap w mem;
               mem = overwrite mem ap (block bp w mem);
               mem = overwrite mem bp t
           in exchange_units w al mem (ap + w) (bp + w) n
      else Inl Undef)"

datatype exchange_f = Bytes | One_byte | Int16s | One_int16 | Int32s | One_int32
  | Int64s | One_int64 | Int128s | One_int128

fun exchange :: "exchange_f \<Rightarrow> bytes \<Rightarrow> nat \<Rightarrow> nat \<Rightarrow> nat \<Rightarrow> bytes res" where
  "exchange Bytes mem a b sz = exchange_units 1 1 mem a b sz"
| "exchange One_byte mem a b sz = exchange_units 1 1 mem a b 1"
| "exchange Int16s mem a b sz = exchange_units 2 2 mem a b (sz div 2)"
| "exchange One_int16 mem a b sz = exchange_units 2 2 mem a b 1"
| "exchange Int32s mem a b sz = exchange_units 4 4 mem a b (sz div 4)"
| "exchange One_int32 mem a b sz = exchange_units 4 4 mem a b 1"
| "exchange Int64s mem a b sz = exchange_units 8 8 mem a b (sz div 8)"
| "exchange One_int64 mem a b sz = exchange_units 8 8 mem a b 1"
| "exchange Int128s mem a b sz = exchange_units 16 8 mem a b (sz div (8 * 2))"
| "exchange One_int128 mem a b sz = exchange_units 16 8 mem a b 1"

definition exchange_func :: "nat \<Rightarrow> nat \<Rightarrow> exchange_f" where
  "exchange_func base sz =
     (let k = (base OR sz) AND 15 in
      if k = 0 then if sz = 16 then One_int128 else Int128s
      else if k = 8 then if sz = 8 then One_int64 else Int64s
      else if k = 4 \<or> k = 12 then if sz = 4 then One_int32 else Int32s
      else if k = 2 \<or> k = 6 \<or> k = 10 \<or> k = 14 then if sz = 2 then One_int16 else Int16s
      else if sz = 1 then One_byte else Bytes)"

text \<open>The memory after the exchange of \<open>n\<close> bytes, byte by byte.\<close>

definition exchanged :: "nat \<Rightarrow> nat \<Rightarrow> nat \<Rightarrow> bytes \<Rightarrow> bytes \<Rightarrow> bool" where
  "exchanged a b n mem mem' \<longleftrightarrow> length mem' = length mem \<and>
     (\<forall>k < length mem. mem' ! k =
        (if a \<le> k \<and> k < a + n then mem ! (b + (k - a))
         else if b \<le> k \<and> k < b + n then mem ! (a + (k - b)) else mem ! k))"

lemma block_nth: "i + n \<le> length xs \<Longrightarrow> k < n \<Longrightarrow> block i n xs ! k = xs ! (i + k)"
  and length_block: "i + n \<le> length xs \<Longrightarrow> length (block i n xs) = n"
  by (simp_all add: block_def)

lemma exchange_units_swaps:
  "a = b \<or> a + n * w \<le> b \<or> b + n * w \<le> a \<Longrightarrow> a + n * w \<le> length mem \<Longrightarrow> b + n * w \<le> length mem \<Longrightarrow>
   al dvd a \<Longrightarrow> al dvd b \<Longrightarrow> al dvd w \<Longrightarrow> al > 0 \<Longrightarrow>
   \<exists>mem'. exchange_units w al mem a b n = Inr mem' \<and> exchanged a b (n * w) mem mem'"
proof (induction n arbitrary: mem a b)
  case (Suc n)
  let ?mem1 = "overwrite (overwrite mem a (block b w mem)) b (block a w mem)"
  have b: "a + w \<le> length mem" "b + w \<le> length mem" using Suc.prems(2,3) by simp_all
  have step: "?mem1 ! k = (if a \<le> k \<and> k < a + w then mem ! (b + (k - a))
         else if b \<le> k \<and> k < b + w then mem ! (a + (k - b)) else mem ! k)" for k
    using b Suc.prems(1) by (auto simp: overwrite_nth length_block block_nth)
  have len: "length ?mem1 = length mem" using b by (simp add: length_block)
  obtain mem' where r: "exchange_units w al ?mem1 (a + w) (b + w) n = Inr mem'"
    "exchanged (a + w) (b + w) (n * w) ?mem1 mem'"
    using Suc.IH [of "a + w" "b + w" ?mem1] Suc.prems len by (auto simp: add.assoc)
  have "exchanged a b (Suc n * w) mem mem'"
    unfolding exchanged_def
  proof (intro conjI allI impI)
    show "length mem' = length mem" using r(2) len by (simp add: exchanged_def)
    fix k assume "k < length mem"
    then have k: "mem' ! k =
        (if a + w \<le> k \<and> k < a + w + n * w then ?mem1 ! (b + w + (k - (a + w)))
         else if b + w \<le> k \<and> k < b + w + n * w then ?mem1 ! (a + w + (k - (b + w))) else ?mem1 ! k)"
      using r(2) len by (simp add: exchanged_def)
    define q where "q = n * w"
    have dis: "a = b \<or> a + (w + q) \<le> b \<or> b + (w + q) \<le> a" using Suc.prems(1) by (simp add: q_def)
    have k: "mem' ! k = (if a + w \<le> k \<and> k < a + w + q then ?mem1 ! (b + w + (k - (a + w)))
         else if b + w \<le> k \<and> k < b + w + q then ?mem1 ! (a + w + (k - (b + w))) else ?mem1 ! k)"
      using k by (simp only: q_def)
    have "mem' ! k = (if a \<le> k \<and> k < a + (w + q) then mem ! (b + (k - a))
         else if b \<le> k \<and> k < b + (w + q) then mem ! (a + (k - b)) else mem ! k)"
    proof -
      consider "a + w \<le> k" "k < a + w + q" | "\<not> (a + w \<le> k \<and> k < a + w + q)" "b + w \<le> k" "k < b + w + q"
        | "\<not> (a + w \<le> k \<and> k < a + w + q)" "\<not> (b + w \<le> k \<and> k < b + w + q)" by linarith
      then show ?thesis
      proof cases
        case 1
        then have i: "b + w + (k - (a + w)) = b + (k - a)" by linarith
        have "\<not> (a \<le> b + (k - a) \<and> b + (k - a) < a + w)" "\<not> (b \<le> b + (k - a) \<and> b + (k - a) < b + w)"
          using 1 dis by linarith+
        then have "?mem1 ! (b + (k - a)) = mem ! (b + (k - a))" by (simp only: step if_False)
        then show ?thesis using 1 i k by simp
      next
        case 2
        then have i: "a + w + (k - (b + w)) = a + (k - b)" by linarith
        have "\<not> (a \<le> a + (k - b) \<and> a + (k - b) < a + w)" "\<not> (b \<le> a + (k - b) \<and> a + (k - b) < b + w)"
          using 2 dis by linarith+
        then have "?mem1 ! (a + (k - b)) = mem ! (a + (k - b))" by (simp only: step if_False)
        moreover have "mem' ! k = ?mem1 ! (a + (k - b))" using k 2 i by (simp only: if_False if_True simp_thms)
        moreover have "\<not> (a \<le> k \<and> k < a + (w + q))" "b \<le> k \<and> k < b + (w + q)" using 2 dis by linarith+
        ultimately show ?thesis by (simp only: if_False if_True simp_thms)
      next
        case 3
        then have "mem' ! k = ?mem1 ! k" using k by (simp only: if_False)
        moreover have "a \<le> k \<and> k < a + w \<longleftrightarrow> a \<le> k \<and> k < a + (w + q)"
          "b \<le> k \<and> k < b + w \<longleftrightarrow> b \<le> k \<and> k < b + (w + q)" using 3 by linarith+
        ultimately show ?thesis by (simp only: step)
      qed
    qed
    then show "mem' ! k = (if a \<le> k \<and> k < a + Suc n * w then mem ! (b + (k - a))
         else if b \<le> k \<and> k < b + Suc n * w then mem ! (a + (k - b)) else mem ! k)"
      by (simp only: q_def mult_Suc)
  qed
  then show ?case using r(1) Suc.prems(4,5,7) b by (auto simp: Let_def)
next
  case 0
  have "exchanged a b 0 mem mem" unfolding exchanged_def by auto
  then show ?case by simp
qed

text \<open>The alignment that \<open>exchange_func\<close> reads off the low four bits.\<close>

lemma or_bits:
  "(base OR sz) AND 15 = 0 \<Longrightarrow> 16 dvd base \<and> 16 dvd (sz :: nat)"
  "(base OR sz) AND 15 = 8 \<Longrightarrow> 8 dvd base \<and> 8 dvd sz"
  "(base OR sz) AND 15 \<in> {4, 12} \<Longrightarrow> 4 dvd base \<and> 4 dvd sz"
  "(base OR sz) AND 15 \<in> {2, 6, 10, 14} \<Longrightarrow> 2 dvd base \<and> 2 dvd sz"
proof -
  have low: "2 ^ m dvd base \<and> 2 ^ m dvd sz"
    if "take_bit m ((base OR sz) AND 15) = 0" "m \<le> 4" for m
  proof -
    have "take_bit m (base OR sz) = take_bit m ((base OR sz) AND mask 4)"
      using that(2) by (simp add: take_bit_eq_mask_iff flip: take_bit_eq_mask)
    then have "take_bit m base OR take_bit m sz = 0"
      using that(1) by (simp add: take_bit_or mask_eq_exp_minus_1)
    then show ?thesis by (simp add: or_eq_0_iff take_bit_eq_0_iff)
  qed
  show "(base OR sz) AND 15 = 0 \<Longrightarrow> 16 dvd base \<and> 16 dvd sz" using low [of 4] by simp
  show "(base OR sz) AND 15 = 8 \<Longrightarrow> 8 dvd base \<and> 8 dvd sz" using low [of 3] by (simp add: take_bit_eq_mod)
  show "(base OR sz) AND 15 \<in> {4, 12} \<Longrightarrow> 4 dvd base \<and> 4 dvd sz" using low [of 2] by (auto simp: take_bit_eq_mod)
  show "(base OR sz) AND 15 \<in> {2, 6, 10, 14} \<Longrightarrow> 2 dvd base \<and> 2 dvd sz" using low [of 1] by (auto simp: take_bit_eq_mod)
qed

text \<open>
  Whatever function is chosen, it exchanges units of \<open>w\<close> bytes, where \<open>w\<close> divides the size and the
  address of the array has the alignment.
\<close>

lemma exchange_dispatch:
  "\<exists>m al. al dvd 2 ^ m \<and> al dvd base \<and> al > 0 \<and> 2 ^ m dvd sz \<and>
    (\<forall>n mem a b. n = sz \<or> sz \<notin> {1, 2, 4, 8, 16} \<longrightarrow>
       exchange (exchange_func base sz) mem a b n = exchange_units (2 ^ m) al mem a b (n div 2 ^ m))"
proof -
  let ?k = "(base OR sz) AND 15"
  consider "?k = 0" | "?k = 8" | "?k \<in> {4, 12}" | "?k \<in> {2, 6, 10, 14}"
    | "?k \<notin> {0, 8, 4, 12, 2, 6, 10, 14}" by auto
  then show ?thesis
  proof cases
    case 1
    then have "8 dvd base" "16 dvd sz" using or_bits(1) [OF 1] by auto
    then show ?thesis using 1 by (intro exI [of _ 4] exI [of _ 8]) (auto simp: exchange_func_def)
  next
    case 2
    then show ?thesis using or_bits(2) [OF 2]
      by (intro exI [of _ 3] exI [of _ 8]) (auto simp: exchange_func_def)
  next
    case 3
    then have k: "?k \<noteq> 0" "?k \<noteq> 8" "?k = 4 \<or> ?k = 12" "\<not> (?k = 2 \<or> ?k = 6 \<or> ?k = 10 \<or> ?k = 14)" by auto
    have "exchange_func base sz = (if sz = 4 then One_int32 else Int32s)"
      unfolding exchange_func_def Let_def using k by (simp only: if_False if_True simp_thms)
    then show ?thesis using or_bits(3) [OF 3]
      by (intro exI [of _ 2] exI [of _ 4]) simp
  next
    case 4
    then have k: "?k \<noteq> 0" "?k \<noteq> 8" "\<not> (?k = 4 \<or> ?k = 12)" "?k = 2 \<or> ?k = 6 \<or> ?k = 10 \<or> ?k = 14" by auto
    have "exchange_func base sz = (if sz = 2 then One_int16 else Int16s)"
      unfolding exchange_func_def Let_def using k by (simp only: if_False if_True simp_thms)
    then show ?thesis using or_bits(4) [OF 4]
      by (intro exI [of _ 1] exI [of _ 2]) simp
  next
    case 5
    then have "exchange_func base sz = (if sz = 1 then One_byte else Bytes)"
      unfolding exchange_func_def Let_def by (simp only: insert_iff empty_iff de_Morgan_disj if_False simp_thms)
    then show ?thesis by (intro exI [of _ 0] exI [of _ 1]) simp
  qed
qed

text \<open>The elements of an array of \<open>n\<close> elements of \<open>sz\<close> bytes at \<open>base\<close>.\<close>

definition elements :: "nat \<Rightarrow> nat \<Rightarrow> nat \<Rightarrow> bytes \<Rightarrow> bytes list" where
  "elements base sz n mem = map (\<lambda>k. block (base + k * sz) sz mem) [0 ..< n]"

lemma apart_multiples:
  assumes "i * sz \<le> j * sz + d" and "d < (sz :: nat)"
  shows "i \<le> j"
proof (rule ccontr)
  assume "\<not> i \<le> j"
  then have "Suc j * sz \<le> i * sz" by (intro mult_le_mono1) simp
  then show False using assms by simp
qed

lemma exchanged_elements:
  assumes ex: "exchanged (base + i * sz) (base + j * sz) sz mem mem'" and "i < n" and "j < n"
    and bound: "base + n * sz \<le> length mem"
  shows "elements base sz n mem' = exch (elements base sz n mem) i j"
proof (rule nth_equalityI)
  show "length (elements base sz n mem') = length (exch (elements base sz n mem) i j)"
    by (simp add: elements_def)
  fix k assume "k < length (elements base sz n mem')"
  then have k: "k < n" by (simp add: elements_def)
  have in_mem: "base + l * sz + sz \<le> length mem" if "l < n" for l
    using bound mult_le_mono1 [of "Suc l" n sz] that by simp
  have len: "length mem' = length mem" using ex by (simp add: exchanged_def)
  define l where "l = (if k = i then j else if k = j then i else k)"
  have l: "l < n" using assms(2,3) k by (simp add: l_def)
  have "block (base + k * sz) sz mem' = block (base + l * sz) sz mem"
  proof (rule nth_equalityI)
    show "length (block (base + k * sz) sz mem') = length (block (base + l * sz) sz mem)"
      using in_mem [OF k] in_mem [OF l] len by (simp add: length_block)
    fix d assume "d < length (block (base + k * sz) sz mem')"
    then have d: "d < sz" using in_mem [OF k] len by (simp add: length_block)
    have same: "base + x * sz \<le> base + k * sz + d \<and> base + k * sz + d < base + x * sz + sz \<longleftrightarrow> x = k" for x
    proof
      assume x: "base + x * sz \<le> base + k * sz + d \<and> base + k * sz + d < base + x * sz + sz"
      have "x * sz \<le> k * sz + d" "k * sz \<le> x * sz + (sz - 1)" using x d by linarith+
      then have "x \<le> k" "k \<le> x" using d apart_multiples [of x sz k d] apart_multiples [of k sz x "sz - 1"] by linarith+
      then show "x = k" by simp
    qed (use d in simp)
    have "mem' ! (base + k * sz + d) = mem ! (base + l * sz + d)"
    proof -
      have b: "base + k * sz + d < length mem" using in_mem [OF k] d by simp
      have "mem' ! (base + k * sz + d) =
        (if i = k then mem ! (base + j * sz + (base + k * sz + d - (base + i * sz)))
         else if j = k then mem ! (base + i * sz + (base + k * sz + d - (base + j * sz)))
         else mem ! (base + k * sz + d))"
        by (rule ex [unfolded exchanged_def, THEN conjunct2, rule_format, OF b, unfolded same])
      then show ?thesis by (auto simp: l_def)
    qed
    then show "block (base + k * sz) sz mem' ! d = block (base + l * sz) sz mem ! d"
      using in_mem [OF k] in_mem [OF l] len d by (simp add: block_nth)
  qed
  then show "elements base sz n mem' ! k = exch (elements base sz n mem) i j ! k"
    using k l assms(2,3) by (simp add: elements_def nth_exch l_def)
qed

text \<open>C33.
  The exchange function chosen for an array and its element size makes only aligned accesses
  inside the array and has the effect of exchanging the two elements, for every element size.
\<close>
theorem exchange_swaps_elements:
  assumes "0 < sz" and "i < n" and "j < n" and "base + n * sz \<le> length mem"
  shows "\<exists>mem'. exchange (exchange_func base sz) mem (base + i * sz) (base + j * sz) sz = Inr mem' \<and>
    elements base sz n mem' = exch (elements base sz n mem) i j \<and>
    take base mem' = take base mem \<and> drop (base + n * sz) mem' = drop (base + n * sz) mem"
proof -
  obtain m al where e: "al dvd 2 ^ m \<and> al dvd base \<and> al > 0 \<and> 2 ^ m dvd sz \<and>
    (\<forall>n mem a b. n = sz \<or> sz \<notin> {1, 2, 4, 8, 16} \<longrightarrow>
       exchange (exchange_func base sz) mem a b n = exchange_units (2 ^ m) al mem a b (n div 2 ^ m))"
    using exchange_dispatch [of base sz] by (elim exE)
  note d = e [THEN conjunct1] e [THEN conjunct2, THEN conjunct1] e [THEN conjunct2, THEN conjunct2, THEN conjunct1]
    e [THEN conjunct2, THEN conjunct2, THEN conjunct2, THEN conjunct1]
  have f: "exchange (exchange_func base sz) mem a b sz = exchange_units (2 ^ m) al mem a b (sz div 2 ^ m)" for a b
    using e by presburger
  have sz: "sz div 2 ^ m * 2 ^ m = sz" using d(4) by simp
  have al: "al dvd sz" using d(1,4) by (rule dvd_trans)
  have in_mem: "base + l * sz + sz \<le> base + n * sz" if "l < n" for l
    using mult_le_mono1 [of "Suc l" n sz] that by simp
  have dis: "base + i * sz = base + j * sz \<or> base + i * sz + sz \<le> base + j * sz \<or> base + j * sz + sz \<le> base + i * sz"
    using mult_le_mono1 [of "Suc i" j sz] mult_le_mono1 [of "Suc j" i sz] by (cases i j rule: linorder_cases) simp_all
  obtain mem' where r: "exchange (exchange_func base sz) mem (base + i * sz) (base + j * sz) sz = Inr mem'"
    "exchanged (base + i * sz) (base + j * sz) sz mem mem'"
    using exchange_units_swaps [of "base + i * sz" "base + j * sz" "sz div 2 ^ m" "2 ^ m" mem al]
      dis in_mem [OF assms(2)] in_mem [OF assms(3)] assms(4) d al
    unfolding f sz by (meson dvd_add dvd_mult order.trans)
  have out: "mem' ! k = mem ! k" if "k < base \<or> base + n * sz \<le> k" "k < length mem" for k
  proof -
    have "\<not> (base + i * sz \<le> k \<and> k < base + i * sz + sz)" "\<not> (base + j * sz \<le> k \<and> k < base + j * sz + sz)"
      using that(1) in_mem [OF assms(2)] in_mem [OF assms(3)] by linarith+
    then show ?thesis using r(2) that(2) unfolding exchanged_def by presburger
  qed
  have len: "length mem' = length mem" using r(2) by (simp add: exchanged_def)
  then have "take base mem' = take base mem" "drop (base + n * sz) mem' = drop (base + n * sz) mem"
    using out assms(4) by (auto intro!: nth_equalityI)
  then show ?thesis using exchanged_elements [OF r(2) assms(2,3,4)] r(1) by blast
qed

end
