(* ===== verification/JsString.thy ===== *)
theory JsString
  imports Prelude "HOL-Library.List_Lexorder"
begin

text \<open>
  Strings of the engine (\<open>quickjs.c\<close>): a string is stored with 8 or with 16 bits per code unit.
  Modelled are the comparison (\<open>js_string_memcmp\<close>, \<open>js_string_compare\<close>), the hash function and the
  recognition of array indices (\<open>is_num_string\<close>). The lemmas show that the representation does not
  matter: comparison is the lexicographic order of the code units, the hash depends on the code
  units only, and \<open>is_num_string\<close> accepts exactly the decimal numerals of 32-bit numbers.
\<close>

section \<open>Representation\<close>

datatype JSString = Str8 "u8 list" | Str16 "u16 list"

fun units :: "JSString \<Rightarrow> u16 list" where
  "units (Str8 cs) = map ucast cs"
| "units (Str16 cs) = cs"

fun js_len :: "JSString \<Rightarrow> nat" where
  "js_len (Str8 cs) = length cs"
| "js_len (Str16 cs) = length cs"

lemma length_units [simp]: "length (units p) = js_len p"
  by (cases p) simp_all

section \<open>Comparison\<close>

text \<open>
  The three loops; \<open>len\<close> is the number of code units to compare. Of the result of \<open>memcmp\<close> only the
  sign is specified, and only the sign is used.
\<close>

fun memcmp_from :: "('a::len) word list \<Rightarrow> ('b::len) word list \<Rightarrow> nat \<Rightarrow> nat \<Rightarrow> int res" where
  "memcmp_from src1 src2 i 0 = Inr 0"
| "memcmp_from src1 src2 i (Suc len) =
     bnd (rd src1 i) (\<lambda>a. bnd (rd src2 i) (\<lambda>b.
       let c = uint a - uint b in
       if c \<noteq> 0 then Inr c else memcmp_from src1 src2 (i + 1) len))"

definition memcmp :: "u8 list \<Rightarrow> u8 list \<Rightarrow> nat \<Rightarrow> int res" where
  "memcmp src1 src2 len = memcmp_from src1 src2 0 len"

definition memcmp16_8 :: "u16 list \<Rightarrow> u8 list \<Rightarrow> nat \<Rightarrow> int res" where
  "memcmp16_8 src1 src2 len = memcmp_from src1 src2 0 len"

definition memcmp16 :: "u16 list \<Rightarrow> u16 list \<Rightarrow> nat \<Rightarrow> int res" where
  "memcmp16 src1 src2 len = memcmp_from src1 src2 0 len"

fun js_string_memcmp :: "JSString \<Rightarrow> JSString \<Rightarrow> nat \<Rightarrow> int res" where
  "js_string_memcmp (Str8 a) (Str8 b) len = memcmp a b len"
| "js_string_memcmp (Str8 a) (Str16 b) len = bnd (memcmp16_8 b a len) (\<lambda>c. Inr (- c))"
| "js_string_memcmp (Str16 a) (Str8 b) len = memcmp16_8 a b len"
| "js_string_memcmp (Str16 a) (Str16 b) len = memcmp16 a b len"

definition js_string_compare :: "JSString \<Rightarrow> JSString \<Rightarrow> int res" where
  "js_string_compare p1 p2 =
     bnd (js_string_memcmp p1 p2 (min (js_len p1) (js_len p2))) (\<lambda>res.
       Inr (if res = 0 then if js_len p1 = js_len p2 then 0 else if js_len p1 < js_len p2 then - 1 else 1
            else res))"

text \<open>The first difference of two lists of numbers, at most \<open>n\<close> long.\<close>

fun first_diff :: "int list \<Rightarrow> int list \<Rightarrow> nat \<Rightarrow> int" where
  "first_diff (a # as) (b # bs) (Suc n) = (if a - b \<noteq> 0 then a - b else first_diff as bs n)"
| "first_diff as bs n = 0"

lemma memcmp_from_diff:
  "i + len \<le> length xs \<Longrightarrow> i + len \<le> length ys \<Longrightarrow>
   memcmp_from xs ys i len = Inr (first_diff (map uint (drop i xs)) (map uint (drop i ys)) len)"
proof (induction len arbitrary: i)
  case (Suc len)
  then show ?case
    by (simp add: Cons_nth_drop_Suc [of i xs, symmetric] Cons_nth_drop_Suc [of i ys, symmetric] Let_def)
qed simp

lemma first_diff_swap: "- first_diff bs as n = first_diff as bs n"
  by (induction as bs n rule: first_diff.induct) auto

lemma uint_units: "map uint (units (Str8 cs)) = map uint cs"
  by (simp add: uint_up_ucast is_up)

lemma memcmp_diff:
  "len \<le> length xs \<Longrightarrow> len \<le> length ys \<Longrightarrow>
   memcmp_from xs ys 0 len = Inr (first_diff (map uint xs) (map uint ys) len)"
  using memcmp_from_diff [of 0 len xs ys] by simp

lemma js_string_memcmp_diff:
  assumes "len \<le> js_len p" and "len \<le> js_len q"
  shows "js_string_memcmp p q len = Inr (first_diff (map uint (units p)) (map uint (units q)) len)"
proof -
  note defs = memcmp_def memcmp16_def memcmp16_8_def memcmp_diff uint_units first_diff_swap
  show ?thesis
    using assms by (cases p; cases q) (simp_all add: defs del: units.simps(1))
qed

lemma first_diff_order:
  "(first_diff as bs (min (length as) (length bs)) < 0 \<or>
     first_diff as bs (min (length as) (length bs)) = 0 \<and> length as < length bs \<longleftrightarrow> as < bs) \<and>
   (first_diff as bs (min (length as) (length bs)) = 0 \<and> length as = length bs \<longleftrightarrow> as = bs)"
proof (induction as arbitrary: bs)
  case Nil
  then show ?case by (cases bs) auto
next
  case (Cons a as)
  then show ?case by (cases bs) auto
qed

lemma js_string_compare_order:
  "\<exists>d. js_string_compare p q = Inr d \<and>
     (d < 0 \<longleftrightarrow> map uint (units p) < map uint (units q)) \<and> (d = 0 \<longleftrightarrow> units p = units q)"
proof -
  let ?a = "map uint (units p)" and ?b = "map uint (units q)"
  have "js_string_memcmp p q (min (js_len p) (js_len q)) = Inr (first_diff ?a ?b (min (length ?a) (length ?b)))"
    by (subst js_string_memcmp_diff) simp_all
  moreover have "?a = ?b \<longleftrightarrow> units p = units q"
    by (metis inj_map_eq_map word_uint_eqI injI)
  ultimately show ?thesis
    using first_diff_order [of ?a ?b] by (auto simp: js_string_compare_def)
qed

section \<open>Hash\<close>

text \<open>The loop of \<open>hash_string8\<close> and \<open>hash_string16\<close>, with 32-bit arithmetic.\<close>

fun hash_units :: "u32 \<Rightarrow> ('a::len) word list \<Rightarrow> u32" where
  "hash_units h [] = h"
| "hash_units h (c # cs) = hash_units (h * 263 + ucast c) cs"

definition hash_string8 :: "u8 list \<Rightarrow> u32 \<Rightarrow> u32" where
  "hash_string8 cs h = hash_units h cs"

definition hash_string16 :: "u16 list \<Rightarrow> u32 \<Rightarrow> u32" where
  "hash_string16 cs h = hash_units h cs"

fun hash_string :: "JSString \<Rightarrow> u32 \<Rightarrow> u32" where
  "hash_string (Str8 cs) h = hash_string8 cs h"
| "hash_string (Str16 cs) h = hash_string16 cs h"

lemma hash_units_wide: "hash_units h (map ucast (cs :: u8 list) :: u16 list) = hash_units h cs"
  by (induction cs arbitrary: h) (simp_all add: ucast_up_ucast is_up)

lemma hash_string_units: "hash_string p h = hash_units h (units p)"
  by (cases p) (simp_all add: hash_string8_def hash_string16_def hash_units_wide)

section \<open>Array indices\<close>

definition is_num :: "u32 \<Rightarrow> bool" where
  "is_num c \<longleftrightarrow> c \<ge> 0x30 \<and> c \<le> 0x39"

fun char_at :: "JSString \<Rightarrow> nat \<Rightarrow> u32 res" where
  "char_at (Str8 cs) i = bnd (rd cs i) (\<lambda>c. Inr (ucast c))"
| "char_at (Str16 cs) i = bnd (rd cs i) (\<lambda>c. Inr (ucast c))"

text \<open>The loop over the digits from \<open>i\<close>, with \<open>k\<close> of them left; \<open>n64\<close> has 64 bits.\<close>

fun num_digits :: "JSString \<Rightarrow> u32 \<Rightarrow> nat \<Rightarrow> nat \<Rightarrow> u32 option res" where
  "num_digits p n i 0 = Inr (Some n)"
| "num_digits p n i (Suc k) =
     bnd (char_at p i) (\<lambda>c.
       if \<not> is_num c then Inr None
       else let n64 = (ucast n :: u64) * 10 + ucast (c - 0x30) in
         if drop_bit 32 n64 \<noteq> 0 then Inr None else num_digits p (ucast n64) (i + 1) k)"

definition is_num_string :: "JSString \<Rightarrow> u32 option res" where
  "is_num_string p =
     (let len = js_len p in
      if len = 0 \<or> len > 10 then Inr None
      else bnd (char_at p 0) (\<lambda>c.
        if is_num c then
          if c = 0x30 then if len \<noteq> 1 then Inr None else Inr (Some 0)
          else num_digits p (c - 0x30) 1 (len - 1)
        else Inr None))"

text \<open>The decimal numeral of a number, in code units.\<close>

fun decimal :: "nat \<Rightarrow> nat list" where
  "decimal n = (if n < 10 then [0x30 + n] else decimal (n div 10) @ [0x30 + n mod 10])"

declare decimal.simps [simp del]

lemma decimal_small: "n < 10 \<Longrightarrow> decimal n = [0x30 + n]"
  by (subst decimal.simps) simp

lemma decimal_snoc: "0 < n \<Longrightarrow> d < 10 \<Longrightarrow> decimal (n * 10 + d) = decimal n @ [0x30 + d]"
  by (subst decimal.simps) auto

lemma decimal_nonempty: "decimal n \<noteq> []"
  by (subst decimal.simps) simp

lemma decimal_digits: "x \<in> set (decimal n) \<Longrightarrow> 0x30 \<le> x \<and> x \<le> 0x39"
  by (induction n rule: decimal.induct) (subst (asm) (2) decimal.simps, fastforce split: if_splits)

lemma decimal_hd: "n \<ge> 1 \<Longrightarrow> hd (decimal n) \<noteq> 0x30"
proof (induction n rule: decimal.induct)
  case (1 n)
  then show ?case
    by (cases "n < 10") (simp_all add: decimal_small decimal.simps [of n] hd_append decimal_nonempty)
qed

lemma decimal_prefix: "decimal v = decimal a @ xs \<Longrightarrow> a \<le> v"
proof (induction xs arbitrary: v rule: rev_induct)
  case Nil
  then show ?case
  proof (induction v arbitrary: a rule: decimal.induct)
    case (1 v)
    have ten: "(v < 10) = (a < 10)"
      using 1(2) decimal_nonempty [of "a div 10"] decimal_nonempty [of "v div 10"]
      by (cases "v < 10"; cases "a < 10") (auto simp: decimal_small decimal.simps [of v] decimal.simps [of a])
    show ?case
    proof (cases "v < 10")
      case True
      then show ?thesis using 1(2) ten by (simp add: decimal_small)
    next
      case False
      then have "decimal (v div 10) = decimal (a div 10) @ []" "v mod 10 = a mod 10"
        using 1(2) ten by (simp_all add: decimal.simps [of v] decimal.simps [of a])
      then show ?thesis using 1(1) [OF False] by (metis div_mult_mod_eq add_le_mono1 mult_le_mono1)
    qed
  qed
next
  case (snoc x xs)
  have "\<not> v < 10"
    using snoc.prems decimal_nonempty [of a] by (auto simp: decimal_small Cons_eq_append_conv)
  then have "decimal (v div 10) = decimal a @ xs" using snoc.prems by (simp add: decimal.simps [of v])
  from snoc.IH [OF this] show ?case by linarith
qed

lemma unat_u32: "unat (v :: u32) < 2 ^ 32"
  using unsigned_less [of v, where ?'a = nat] by simp

lemma unat_wide: "unat (ucast (c :: u16) :: u32) = unat c" "unat (ucast (v :: u32) :: u64) = unat v"
proof -
  have "uint (ucast c :: u32) = uint c" "uint (ucast v :: u64) = uint v"
    by (simp_all add: uint_up_ucast is_up)
  then show "unat (ucast c :: u32) = unat c" "unat (ucast v :: u64) = unat v"
    unfolding unat_eq_nat_uint by (simp_all only:)
qed

lemma char_at_units: "i < js_len p \<Longrightarrow> char_at p i = Inr (ucast (units p ! i))"
  by (cases p) (simp_all add: ucast_up_ucast is_up)

lemma is_num_unat: "is_num c \<longleftrightarrow> 0x30 \<le> unat c \<and> unat c \<le> 0x39"
  by (simp add: is_num_def word_le_nat_alt)

lemma unat_digit: "is_num c \<Longrightarrow> unat (c - 0x30) = unat c - 0x30"
  unfolding is_num_def by (subst unat_sub) simp_all

lemma num_digits_decimal:
  "take i ds = decimal (unat n) \<Longrightarrow> ds = map unat (units p) \<Longrightarrow> 0 < unat n \<Longrightarrow> i + k = length ds \<Longrightarrow>
   \<exists>r. num_digits p n i k = Inr r \<and> (\<forall>v. r = Some v \<longleftrightarrow> ds = decimal (unat v))"
proof (induction k arbitrary: n i)
  case 0
  have "ds = decimal (unat v) \<longleftrightarrow> v = n" for v
    using 0 decimal_prefix [of "unat v" "unat n" "[]"] decimal_prefix [of "unat n" "unat v" "[]"]
    by (auto simp: word_unat_eq_iff le_antisym)
  then show ?case by auto
next
  case (Suc k)
  have i: "i < length ds" "i < js_len p" using Suc.prems(2,4) by auto
  define c :: u32 where "c = ucast (units p ! i)"
  have c: "char_at p i = Inr c" "unat c = ds ! i"
    using i Suc.prems(2) by (simp_all add: c_def char_at_units unat_wide)
  have take: "take (Suc i) ds = decimal (unat n) @ [ds ! i]"
    using Suc.prems(1) i by (simp add: take_Suc_conv_app_nth)
  show ?case
  proof (cases "is_num c")
    case False
    have "ds \<noteq> decimal v" for v
      using decimal_digits [of "ds ! i" v] i False c by (auto simp: is_num_unat)
    then show ?thesis using c False by simp
  next
    case True
    let ?m = "unat n * 10 + (ds ! i - 0x30)"
    define n64 :: u64 where "n64 = ucast n * 10 + ucast (c - 0x30)"
    have d: "unat (c - 0x30) = ds ! i - 0x30" "0x30 \<le> ds ! i" "ds ! i - 0x30 < 10"
      using True c unat_digit [OF True] by (auto simp: is_num_unat)
    have "unat n < 2 ^ 32" using unat_u32 [of n] by simp
    then have n64: "unat n64 = ?m"
      using d by (simp add: n64_def unat_word_ariths unat_wide)
    have m: "take (Suc i) ds = decimal ?m"
      using take decimal_snoc [OF Suc.prems(3) d(3)] d(2) by simp
    have big: "drop_bit 32 n64 \<noteq> 0 \<longleftrightarrow> 2 ^ 32 \<le> ?m"
    proof -
      have "drop_bit 32 n64 = 0 \<longleftrightarrow> unat (drop_bit 32 n64) = 0" by (simp add: unat_eq_0)
      also have "unat (drop_bit 32 n64) = ?m div 2 ^ 32"
        by (simp only: unat_drop_bit_eq n64 drop_bit_eq_div [of 32 ?m])
      also have "?m div 2 ^ 32 = 0 \<longleftrightarrow> ?m < 2 ^ 32" by (simp add: div_eq_0_iff)
      finally show ?thesis by auto
    qed
    show ?thesis
    proof (cases "2 ^ 32 \<le> ?m")
      case overflow: True
      have "ds \<noteq> decimal (unat v)" for v :: u32
      proof
        assume "ds = decimal (unat v)"
        then have "decimal (unat v) = decimal ?m @ drop (Suc i) ds" using m by (metis append_take_drop_id)
        from decimal_prefix [OF this] show False using overflow unat_u32 [of v] by simp
      qed
      then show ?thesis using c True big overflow by (simp add: Let_def flip: n64_def)
    next
      case False
      then have "unat (ucast n64 :: u32) = ?m"
        by (simp add: unsigned_ucast_eq n64 take_bit_eq_mod)
      moreover have "0 < ?m" using Suc.prems(3) by simp
      ultimately show ?thesis
        using Suc.IH [of "Suc i" "ucast n64"] m Suc.prems(2,4) c True big False
        by (simp add: Let_def flip: n64_def)
    qed
  qed
qed

lemma decimal_length: "unat (v :: u32) = n \<Longrightarrow> length (decimal n) \<le> 10"
proof -
  have len: "length (decimal m) \<le> k" if "m < 10 ^ k" "0 < k" for k m
    using that
  proof (induction k arbitrary: m)
    case (Suc k)
    show ?case
    proof (cases "m < 10")
      case False
      then have "k \<noteq> 0" using Suc.prems(1) by (intro notI) simp
      then show ?thesis using Suc.IH [of "m div 10"] Suc.prems False
        by (simp add: decimal.simps [of m] less_mult_imp_div_less mult.commute)
    qed (simp add: decimal_small)
  qed simp
  assume "unat v = n"
  then have "n < 10 ^ 10" using unat_u32 [of v] by simp
  then show ?thesis by (rule len) simp
qed

lemma is_num_string_numeral:
  "\<exists>r. is_num_string p = Inr r \<and> (\<forall>v. r = Some v \<longleftrightarrow> map unat (units p) = decimal (unat v))"
proof (cases "js_len p = 0 \<or> js_len p > 10")
  case True
  have "map unat (units p) \<noteq> decimal (unat v)" for v :: u32
    using True decimal_length [OF refl, of v] decimal_nonempty [of "unat v"]
    by (metis length_map length_units list.size(3) not_less length_0_conv)
  then show ?thesis using True by (simp add: is_num_string_def)
next
  case False
  let ?ds = "map unat (units p)"
  define c :: u32 where "c = ucast (units p ! 0)"
  have c: "char_at p 0 = Inr c" "unat c = ?ds ! 0"
    using False by (simp_all add: c_def char_at_units unat_wide)
  have hd: "?ds \<noteq> []" "hd ?ds = unat c" using False c(2) by (auto simp: hd_conv_nth simp flip: length_greater_0_conv)
  consider "\<not> is_num c" | "c = 0x30" | "is_num c" "c \<noteq> 0x30" by blast
  then show ?thesis
  proof cases
    case 1
    have "?ds \<noteq> decimal v" for v
      using 1 hd decimal_digits [of "hd ?ds" v] by (metis hd_in_set is_num_unat)
    then show ?thesis using False c 1 by (simp add: is_num_string_def)
  next
    case 2
    have "?ds = decimal (unat v) \<longleftrightarrow> js_len p = 1 \<and> v = 0" for v :: u32
    proof
      assume v: "?ds = decimal (unat v)"
      then have "\<not> 1 \<le> unat v" using decimal_hd [of "unat v"] hd 2 by auto
      then have "unat v = 0" by linarith
      then have "v = 0" by (simp add: unat_eq_0)
      then show "js_len p = 1 \<and> v = 0" using v by (simp add: decimal_small flip: length_units) (metis length_map length_Cons list.size(3) One_nat_def)
    next
      assume v: "js_len p = 1 \<and> v = 0"
      then have "length ?ds = 1" by simp
      then show "?ds = decimal (unat v)" using v hd 2 by (cases ?ds) (auto simp: decimal_small)
    qed
    then show ?thesis using False c 2 by (auto simp: is_num_string_def is_num_def)
  next
    case 3
    have c30: "unat (c - 0x30) = unat c - 0x30" "unat c \<noteq> 0x30" "0x30 \<le> unat c" "unat c \<le> 0x39"
      using 3 unat_digit [OF 3(1)] by (auto simp: is_num_unat word_unat_eq_iff)
    have "take 1 ?ds = [unat c]" using hd c(2) by (cases ?ds) auto
    then have "take 1 ?ds = decimal (unat (c - 0x30))" using c30 by (simp add: decimal_small)
    from num_digits_decimal [OF this refl, of "js_len p - 1"] show ?thesis
      using c30 False c 3 by (simp add: is_num_string_def Let_def)
  qed
qed

text \<open>C36.
  A string is taken for an array index exactly when it is the decimal numeral of a 32-bit number,
  without leading zeros, whichever way it is stored; the number returned is that number.
\<close>
theorem is_num_string_decimal:
  "\<exists>r. is_num_string p = Inr r \<and> (\<forall>v. r = Some v \<longleftrightarrow> map unat (units p) = decimal (unat v))"
  by (rule is_num_string_numeral)

end
