(* ===== verification/JsSort.thy ===== *)
theory JsSort
  imports RQOrder JsString
begin

text \<open>
  Sorting of arrays for scripts (\<open>quickjs.c\<close>): the comparison functions of typed arrays, and
  \<open>Array.prototype.sort\<close> (\<open>js_array_sort\<close> with \<open>js_array_cmp_generic\<close>). Both rest on \<open>rqsort\<close>, which
  is not stable; the comparison function makes the sort stable by comparing positions last.

  What scripts and objects do is a parameter: a record of operations on a state \<open>'w\<close>. The theorem
  on \<open>Array.prototype.sort\<close> is about a plain array, whose elements are read, written and deleted
  without running a script.
\<close>

section \<open>Typed arrays\<close>

definition js_TA_cmp_int8 :: "(8 word, 's) cmp_f" where
  "js_TA_cmp_int8 a b s = (sint a - sint b, s)"

definition js_TA_cmp_uint8 :: "(8 word, 's) cmp_f" where
  "js_TA_cmp_uint8 a b s = (uint a - uint b, s)"

definition js_TA_cmp_int16 :: "(16 word, 's) cmp_f" where
  "js_TA_cmp_int16 a b s = (sint a - sint b, s)"

definition js_TA_cmp_uint16 :: "(16 word, 's) cmp_f" where
  "js_TA_cmp_uint16 a b s = (uint a - uint b, s)"

definition js_TA_cmp_int32 :: "(32 word, 's) cmp_f" where
  "js_TA_cmp_int32 x y s = (of_bool (y <s x) - of_bool (x <s y), s)"

definition js_TA_cmp_uint32 :: "(32 word, 's) cmp_f" where
  "js_TA_cmp_uint32 x y s = (of_bool (y < x) - of_bool (y > x), s)"

definition js_TA_cmp_int64 :: "(64 word, 's) cmp_f" where
  "js_TA_cmp_int64 x y s = (of_bool (y <s x) - of_bool (x <s y), s)"

definition js_TA_cmp_uint64 :: "(64 word, 's) cmp_f" where
  "js_TA_cmp_uint64 x y s = (of_bool (y < x) - of_bool (y > x), s)"

text \<open>
  A double is the word of its representation: sign, 11 bits of exponent, 52 of mantissa. Numbers
  that are not NaN compare by sign and magnitude, with both zeros equal.
\<close>

definition f64_magnitude :: "u64 \<Rightarrow> nat" where
  "f64_magnitude x = unat (take_bit 63 x)"

definition signbit :: "u64 \<Rightarrow> bool" where
  "signbit x = bit x 63"

definition isnan :: "u64 \<Rightarrow> bool" where
  "isnan x \<longleftrightarrow> f64_magnitude x > 0x7ff0000000000000"

definition f64_value :: "u64 \<Rightarrow> int" where
  "f64_value x = (if signbit x then - int (f64_magnitude x) else int (f64_magnitude x))"

definition js_cmp_doubles :: "u64 \<Rightarrow> u64 \<Rightarrow> int" where
  "js_cmp_doubles x y =
     (if isnan x then if isnan y then 0 else 1
      else if isnan y then - 1
      else if f64_value x < f64_value y then - 1
      else if f64_value x > f64_value y then 1
      else if f64_value x \<noteq> 0 then 0
      else if signbit x then if signbit y then 0 else - 1
      else if signbit y then 1 else 0)"

definition js_TA_cmp_float64 :: "(64 word, 's) cmp_f" where
  "js_TA_cmp_float64 a b s = (js_cmp_doubles a b, s)"

text \<open>
  A comparison whose sign is that of the difference of two keys is consistent; all of the above
  are. That of doubles puts NaN last and -0 before +0.
\<close>

locale key_comparator =
  fixes cmp :: "('a, 's) cmp_f" and d :: "'a \<Rightarrow> 'a \<Rightarrow> int" and key :: "'a \<Rightarrow> int"
  assumes reply: "fst (cmp a b s) = d a b"
    and keys: "sgn (d a b) = sgn (key a - key b)"
begin

lemma d_less: "d a b < 0 \<longleftrightarrow> key a < key b" and d_greater: "d a b > 0 \<longleftrightarrow> key b < key a"
  and d_le: "d a b \<le> 0 \<longleftrightarrow> key a \<le> key b"
  using keys [of a b] by (auto simp: sgn_if split: if_splits)

end

sublocale key_comparator \<subseteq> comparator cmp d
  by unfold_locales (auto simp: reply d_less d_greater d_le)

context key_comparator
begin

lemma rqsort_sorts_keys:
  assumes "base + n \<le> length xs"
  shows "\<exists>ys t. rqsort cmp xs s base n = Inr (ys, t) \<and> mset ys = mset xs \<and>
    sorted (map key (take n (drop base ys)))"
  using rqsort_sorted [OF assms, of s] by (simp add: d_le sorted_map)

end

definition f64_key :: "u64 \<Rightarrow> int" where
  "f64_key x = (if isnan x then 2 ^ 64 else if signbit x then - int (f64_magnitude x) - 1 else int (f64_magnitude x))"

lemma js_cmp_doubles_key: "js_cmp_doubles x y = sgn (f64_key x - f64_key y)"
proof -
  have m: "int (f64_magnitude z) < 2 ^ 63" for z
    using take_bit_nat_less_exp [of 63 "unat z"]
    unfolding f64_magnitude_def unsigned_take_bit_eq of_nat_less_iff [where ?'a = int, symmetric] by simp
  show ?thesis
    using m [of x] m [of y]
    by (auto simp: js_cmp_doubles_def f64_key_def f64_value_def sgn_if)
qed

lemmas TA_cmp_defs = js_TA_cmp_int8_def js_TA_cmp_uint8_def js_TA_cmp_int16_def js_TA_cmp_uint16_def
  js_TA_cmp_int32_def js_TA_cmp_uint32_def js_TA_cmp_int64_def js_TA_cmp_uint64_def
  js_TA_cmp_float64_def js_cmp_doubles_key word_sless_alt word_less_alt

interpretation int8: key_comparator js_TA_cmp_int8 "\<lambda>a b. sint a - sint b" sint
  by unfold_locales (simp_all add: TA_cmp_defs)

interpretation uint8: key_comparator js_TA_cmp_uint8 "\<lambda>a b. uint a - uint b" uint
  by unfold_locales (simp_all add: TA_cmp_defs)

interpretation int16: key_comparator js_TA_cmp_int16 "\<lambda>a b. sint a - sint b" sint
  by unfold_locales (simp_all add: TA_cmp_defs)

interpretation uint16: key_comparator js_TA_cmp_uint16 "\<lambda>a b. uint a - uint b" uint
  by unfold_locales (simp_all add: TA_cmp_defs)

interpretation int32: key_comparator js_TA_cmp_int32 "\<lambda>a b. sgn (sint a - sint b)" sint
  by unfold_locales (simp_all add: TA_cmp_defs sgn_if)

interpretation uint32: key_comparator js_TA_cmp_uint32 "\<lambda>a b. sgn (uint a - uint b)" uint
  by unfold_locales (simp_all add: TA_cmp_defs sgn_if)

interpretation int64: key_comparator js_TA_cmp_int64 "\<lambda>a b. sgn (sint a - sint b)" sint
  by unfold_locales (simp_all add: TA_cmp_defs sgn_if)

interpretation uint64: key_comparator js_TA_cmp_uint64 "\<lambda>a b. sgn (uint a - uint b)" uint
  by unfold_locales (simp_all add: TA_cmp_defs sgn_if)

interpretation float64: key_comparator js_TA_cmp_float64 "\<lambda>a b. sgn (f64_key a - f64_key b)" f64_key
  by unfold_locales (simp_all add: TA_cmp_defs)

section \<open>\<open>Array.prototype.sort\<close>\<close>

text \<open>
  The operations the sort uses, on the state \<open>'w\<close> of all objects: the length of the array, the
  value of a property (\<open>None\<close>: a script threw; \<open>Some None\<close>: there is none), writing and deleting a
  property (\<open>False\<close>: failed), room for more slots (the number obtained), a call of the comparison
  method and the conversion of its result to a double, and the conversion of a value to a string.
\<close>

record ('v, 'f, 'w) sort_ops =
  get_length :: "'w \<Rightarrow> nat option \<times> 'w"
  try_get :: "nat \<Rightarrow> 'w \<Rightarrow> 'v option option \<times> 'w"
  set_property :: "nat \<Rightarrow> 'v \<Rightarrow> 'w \<Rightarrow> bool \<times> 'w"
  delete_property :: "nat \<Rightarrow> 'w \<Rightarrow> bool \<times> 'w"
  more_slots :: "nat \<Rightarrow> 'w \<Rightarrow> nat option \<times> 'w"
  call_method :: "'v \<Rightarrow> 'v \<Rightarrow> 'w \<Rightarrow> 'v option \<times> 'w"
  int_value :: "'v \<Rightarrow> int option"
  to_float :: "'v \<Rightarrow> 'w \<Rightarrow> 'f option \<times> 'w"
  positive :: "'f \<Rightarrow> bool"
  negative :: "'f \<Rightarrow> bool"
  to_string :: "'v \<Rightarrow> 'w \<Rightarrow> JSString option \<times> 'w"
  undefined_value :: 'v

text \<open>
  A slot is a value and its position. Its field \<open>str\<close>, the string of the value once it has been
  needed, is kept in the context of the sort under the slot.
\<close>

type_synonym 'v slot = "'v \<times> nat"

record ('v, 'w) array_sort_context =
  exc :: bool
  strs :: "'v slot \<Rightarrow> JSString option"
  world :: 'w

definition sign_of :: "bool \<Rightarrow> bool \<Rightarrow> int" where
  "sign_of pos neg = of_bool pos - of_bool neg"

definition method_sign ::
  "('v, 'f, 'w) sort_ops \<Rightarrow> 'v \<Rightarrow> 'v \<Rightarrow> 'w \<Rightarrow> int option \<times> 'w" where
  "method_sign P v1 v2 w =
     (case call_method P v1 v2 w of
        (None, w) \<Rightarrow> (None, w)
      | (Some res, w) \<Rightarrow>
          (case int_value P res of
             Some val \<Rightarrow> (Some (sign_of (val > 0) (val < 0)), w)
           | None \<Rightarrow>
               (case to_float P res w of
                  (None, w) \<Rightarrow> (None, w)
                | (Some val, w) \<Rightarrow> (Some (sign_of (positive P val) (negative P val)), w))))"

definition slot_string ::
  "('v, 'f, 'w) sort_ops \<Rightarrow> 'v slot \<Rightarrow> ('v, 'w) array_sort_context
     \<Rightarrow> JSString option \<times> ('v, 'w) array_sort_context" where
  "slot_string P a s =
     (case strs s a of
        Some str \<Rightarrow> (Some str, s)
      | None \<Rightarrow>
          (case to_string P (fst a) (world s) of
             (None, w) \<Rightarrow> (None, s\<lparr>world := w\<rparr>)
           | (Some str, w) \<Rightarrow> (Some str, s\<lparr>world := w, strs := (strs s)(a := Some str)\<rparr>)))"

definition compare_strings ::
  "('v, 'f, 'w) sort_ops \<Rightarrow> 'v slot \<Rightarrow> 'v slot \<Rightarrow> ('v, 'w) array_sort_context
     \<Rightarrow> int option \<times> ('v, 'w) array_sort_context" where
  "compare_strings P a b s =
     (case slot_string P a s of
        (None, s) \<Rightarrow> (None, s)
      | (Some astr, s) \<Rightarrow>
          (case slot_string P b s of
             (None, s) \<Rightarrow> (None, s)
           | (Some bstr, s) \<Rightarrow>
               (case js_string_compare astr bstr of Inr c \<Rightarrow> (Some c, s) | Inl _ \<Rightarrow> (None, s))))"

definition js_array_cmp_generic ::
  "('v, 'f, 'w) sort_ops \<Rightarrow> bool \<Rightarrow> ('v slot, ('v, 'w) array_sort_context) cmp_f" where
  "js_array_cmp_generic P has_method a b s =
     (if exc s then (0, s)
      else
        let (cmp, s) =
          (if has_method then
             if fst a = fst b then (Some 0, s)
             else let (d, w) = method_sign P (fst a) (fst b) (world s) in (d, s\<lparr>world := w\<rparr>)
           else compare_strings P a b s)
        in case cmp of
             None \<Rightarrow> (0, s\<lparr>exc := True\<rparr>)
           | Some cmp \<Rightarrow> (if cmp \<noteq> 0 then cmp else sign_of (snd a > snd b) (snd a < snd b), s))"

text \<open>
  The collection of the values: \<open>k\<close> properties left to look at, from \<open>i\<close>; \<open>room\<close> slots allocated,
  \<open>slots\<close> filled, \<open>u\<close> values undefined. \<open>None\<close> stands for the jump to \<open>exception\<close>.
\<close>

fun collect ::
  "('v, 'f, 'w) sort_ops \<Rightarrow> nat \<Rightarrow> nat \<Rightarrow> nat \<Rightarrow> 'v slot list \<Rightarrow> nat \<Rightarrow> 'w
     \<Rightarrow> ('v slot list \<times> nat) option \<times> 'w" where
  "collect P 0 i room slots u w = (Some (slots, u), w)"
| "collect P (Suc k) i room slots u w =
     (case (if length slots \<ge> room then more_slots P ((room + room div 2 + 31) div 16 * 16) w else (Some room, w)) of
        (None, w) \<Rightarrow> (None, w)
      | (Some room, w) \<Rightarrow>
          (case try_get P i w of
             (None, w) \<Rightarrow> (None, w)
           | (Some None, w) \<Rightarrow> collect P k (i + 1) room slots u w
           | (Some (Some v), w) \<Rightarrow>
               if v = undefined_value P then collect P k (i + 1) room slots (u + 1) w
               else collect P k (i + 1) room (slots @ [(v, i)]) u w))"

text \<open>The three loops that store the result; \<open>False\<close> when a property could not be stored.\<close>

fun store_slots :: "('v, 'f, 'w) sort_ops \<Rightarrow> nat \<Rightarrow> 'v slot list \<Rightarrow> 'w \<Rightarrow> bool \<times> 'w" where
  "store_slots P n [] w = (True, w)"
| "store_slots P n ((v, pos) # slots) w =
     (if pos = n then store_slots P (n + 1) slots w
      else case set_property P n v w of
          (False, w) \<Rightarrow> (False, w)
        | (True, w) \<Rightarrow> store_slots P (n + 1) slots w)"

fun store_undefined :: "('v, 'f, 'w) sort_ops \<Rightarrow> nat \<Rightarrow> nat \<Rightarrow> 'w \<Rightarrow> bool \<times> 'w" where
  "store_undefined P i 0 w = (True, w)"
| "store_undefined P i (Suc k) w =
     (case set_property P i (undefined_value P) w of
        (False, w) \<Rightarrow> (False, w)
      | (True, w) \<Rightarrow> store_undefined P (i + 1) k w)"

fun delete_rest :: "('v, 'f, 'w) sort_ops \<Rightarrow> nat \<Rightarrow> nat \<Rightarrow> 'w \<Rightarrow> bool \<times> 'w" where
  "delete_rest P i 0 w = (True, w)"
| "delete_rest P i (Suc k) w =
     (case delete_property P i w of
        (False, w) \<Rightarrow> (False, w)
      | (True, w) \<Rightarrow> delete_rest P (i + 1) k w)"

text \<open>The whole function; the answer is whether it returned the object (it threw otherwise).\<close>

definition js_array_sort ::
  "('v, 'f, 'w) sort_ops \<Rightarrow> bool \<Rightarrow> bool \<Rightarrow> 'w \<Rightarrow> (bool \<times> 'w) res" where
  "js_array_sort P has_method is_function w =
     (if has_method \<and> \<not> is_function then Inr (False, w)
      else case get_length P w of
        (None, w) \<Rightarrow> Inr (False, w)
      | (Some len, w) \<Rightarrow>
          (case collect P len 0 0 [] 0 w of
             (None, w) \<Rightarrow> Inr (False, w)
           | (Some (slots, u), w) \<Rightarrow>
               let asc = \<lparr>exc = False, strs = (\<lambda>_. None), world = w\<rparr>; pos = length slots in
               bnd (rqsort (js_array_cmp_generic P has_method) slots asc 0 pos) (\<lambda>(slots, asc).
                 let w = world asc in
                 if exc asc then Inr (False, w)
                 else case store_slots P 0 slots w of
                     (False, w) \<Rightarrow> Inr (False, w)
                   | (True, w) \<Rightarrow>
                       (case store_undefined P pos u w of
                          (False, w) \<Rightarrow> Inr (False, w)
                        | (True, w) \<Rightarrow> Inr (delete_rest P (pos + u) (len - (pos + u)) w)))))"

section \<open>Plain arrays\<close>

text \<open>
  A plain array: a list of properties, some of them missing, beside the rest \<open>'u\<close> of the state,
  which the comparison method and the conversion to a string may change.
\<close>

definition plain :: "('v, 'f, 'u) sort_ops \<Rightarrow> ('v, 'f, 'v option list \<times> 'u) sort_ops" where
  "plain P = \<lparr>
     get_length = (\<lambda>(arr, u). (Some (length arr), (arr, u))),
     try_get = (\<lambda>i (arr, u). (Some (if i < length arr then arr ! i else None), (arr, u))),
     set_property = (\<lambda>i v (arr, u). (True, (arr[i := Some v], u))),
     delete_property = (\<lambda>i (arr, u). (True, (arr[i := None], u))),
     more_slots = (\<lambda>n w. (Some n, w)),
     call_method = (\<lambda>v1 v2 (arr, u). let (r, u) = call_method P v1 v2 u in (r, (arr, u))),
     int_value = int_value P,
     to_float = (\<lambda>v (arr, u). let (r, u) = to_float P v u in (r, (arr, u))),
     positive = positive P, negative = negative P,
     to_string = (\<lambda>v (arr, u). let (r, u) = to_string P v u in (r, (arr, u))),
     undefined_value = undefined_value P\<rparr>"

lemma plain_simps [simp]:
  "get_length (plain P) (arr, u) = (Some (length arr), (arr, u))"
  "try_get (plain P) i (arr, u) = (Some (if i < length arr then arr ! i else None), (arr, u))"
  "set_property (plain P) i v (arr, u) = (True, (arr[i := Some v], u))"
  "delete_property (plain P) i (arr, u) = (True, (arr[i := None], u))"
  "more_slots (plain P) n w = (Some n, w)"
  "undefined_value (plain P) = undefined_value P"
  by (simp_all add: plain_def)

text \<open>The values in order with their positions, leaving out missing and undefined ones.\<close>

fun slots_from :: "'v \<Rightarrow> nat \<Rightarrow> 'v option list \<Rightarrow> 'v slot list" where
  "slots_from undef i [] = []"
| "slots_from undef i (None # arr) = slots_from undef (i + 1) arr"
| "slots_from undef i (Some v # arr) =
     (if v = undef then slots_from undef (i + 1) arr else (v, i) # slots_from undef (i + 1) arr)"

lemma slots_from_mem: "(v, p) \<in> set (slots_from undef i arr) \<Longrightarrow> i \<le> p \<and> p < i + length arr \<and> arr ! (p - i) = Some v"
proof (induction undef i arr rule: slots_from.induct)
  case (2 undef i arr)
  then have "i + 1 \<le> p" "p < i + 1 + length arr" "arr ! (p - (i + 1)) = Some v" by auto
  moreover have "p - i = Suc (p - (i + 1))" using \<open>i + 1 \<le> p\<close> by simp
  ultimately show ?case by simp
next
  case (3 undef i w arr)
  show ?case
  proof (cases "(v, p) \<in> set (slots_from undef (i + 1) arr)")
    case True
    then have "i + 1 \<le> p" "p < i + 1 + length arr" "arr ! (p - (i + 1)) = Some v"
      using 3 by (auto split: if_splits)
    moreover have "p - i = Suc (p - (i + 1))" using \<open>i + 1 \<le> p\<close> by simp
    ultimately show ?thesis by simp
  next
    case False
    then show ?thesis using 3(3) by (auto split: if_splits)
  qed
qed simp

lemma slots_from_distinct: "distinct (map snd (slots_from undef i arr))"
  by (induction undef i arr rule: slots_from.induct) (auto dest: slots_from_mem)

lemma length_slots_from:
  "length (slots_from undef i arr) + length (filter ((=) (Some undef)) arr) + length (filter ((=) None) arr) = length arr"
  by (induction undef i arr rule: slots_from.induct) auto

lemma collect_plain:
  "i + k = length arr \<Longrightarrow>
   collect (plain P) k i room slots u (arr, w) =
     (Some (slots @ slots_from (undefined_value P) i (drop i arr),
            u + length (filter ((=) (Some (undefined_value P))) (drop i arr))), (arr, w))"
proof (induction k arbitrary: i room slots u)
  case (Suc k)
  have d: "drop i arr = arr ! i # drop (i + 1) arr" using Suc.prems by (simp add: Cons_nth_drop_Suc)
  have "collect (plain P) (Suc k) i room slots u (arr, w) =
      (case arr ! i of
         None \<Rightarrow> collect (plain P) k (i + 1) (if length slots \<ge> room then (room + room div 2 + 31) div 16 * 16 else room) slots u (arr, w)
       | Some v \<Rightarrow> if v = undefined_value P
           then collect (plain P) k (i + 1) (if length slots \<ge> room then (room + room div 2 + 31) div 16 * 16 else room) slots (u + 1) (arr, w)
           else collect (plain P) k (i + 1) (if length slots \<ge> room then (room + room div 2 + 31) div 16 * 16 else room) (slots @ [(v, i)]) u (arr, w))"
    using Suc.prems by (simp split: option.split)
  also have "\<dots> = (Some (slots @ slots_from (undefined_value P) i (drop i arr),
            u + length (filter ((=) (Some (undefined_value P))) (drop i arr))), (arr, w))"
    using Suc.IH [of "i + 1"] Suc.prems unfolding d by (cases "arr ! i") auto
  finally show ?case .
qed simp

lemma store_slots_plain:
  "n + length slots \<le> length arr \<Longrightarrow> \<forall>(v, p) \<in> set slots. n \<le> p \<longrightarrow> arr ! p = Some v \<Longrightarrow>
   store_slots (plain P) n slots (arr, w) =
     (True, (take n arr @ map (Some \<circ> fst) slots @ drop (n + length slots) arr, w))"
proof (induction slots arbitrary: n arr)
  case (Cons a slots)
  obtain v p where a: "a = (v, p)" by (cases a)
  let ?arr = "arr[n := Some v]"
  have n: "n < length arr" using Cons.prems(1) by simp
  have "store_slots (plain P) n (a # slots) (arr, w) = store_slots (plain P) (n + 1) slots (?arr, w)"
  proof (cases "p = n")
    case True
    then have "?arr = arr" using Cons.prems(2) a by (simp add: list_update_same_conv n)
    then show ?thesis using a True by simp
  qed (simp add: a)
  also have "\<dots> = (True, (take (n + 1) ?arr @ map (Some \<circ> fst) slots @ drop (n + 1 + length slots) ?arr, w))"
    using Cons.prems by (intro Cons.IH) (auto simp: nth_list_update)
  also have "take (n + 1) ?arr = take n arr @ [Some v]"
    using n by (simp add: take_Suc_conv_app_nth take_update_cancel)
  finally show ?case using a by simp
qed simp

lemma store_undefined_plain:
  "i + k \<le> length arr \<Longrightarrow>
   store_undefined (plain P) i k (arr, w) =
     (True, (take i arr @ replicate k (Some (undefined_value P)) @ drop (i + k) arr, w))"
proof (induction k arbitrary: i arr)
  case (Suc k)
  let ?arr = "arr[i := Some (undefined_value P)]"
  have "take (i + 1) ?arr = take i arr @ [Some (undefined_value P)]"
    using Suc.prems by (simp add: take_Suc_conv_app_nth take_update_cancel)
  then show ?case using Suc.IH [of "i + 1" ?arr] Suc.prems by simp
qed simp

lemma delete_rest_plain:
  "i + k \<le> length arr \<Longrightarrow>
   delete_rest (plain P) i k (arr, w) = (True, (take i arr @ replicate k None @ drop (i + k) arr, w))"
proof (induction k arbitrary: i arr)
  case (Suc k)
  let ?arr = "arr[i := None]"
  have "take (i + 1) ?arr = take i arr @ [None]"
    using Suc.prems by (simp add: take_Suc_conv_app_nth take_update_cancel)
  then show ?case using Suc.IH [of "i + 1" ?arr] Suc.prems by simp
qed simp

section \<open>The sort of a plain array\<close>

text \<open>The order of the slots: by \<open>m\<close> of the values, then by position.\<close>

definition slot_order :: "('v \<Rightarrow> 'v \<Rightarrow> int) \<Rightarrow> 'v slot \<Rightarrow> 'v slot \<Rightarrow> int" where
  "slot_order m a b =
     (if m (fst a) (fst b) \<noteq> 0 then m (fst a) (fst b) else sign_of (snd a > snd b) (snd a < snd b))"

lemma slot_order_opposite:
  assumes "\<And>a b. m a b < 0 \<longleftrightarrow> m b a > 0"
  shows "slot_order m a b < 0 \<longleftrightarrow> slot_order m b a > 0"
  using assms [of "fst a" "fst b"] assms [of "fst b" "fst a"]
  by (auto simp: slot_order_def sign_of_def)

lemma slot_order_transitive:
  assumes opp: "\<And>a b. m a b < 0 \<longleftrightarrow> m b a > 0"
    and trans: "\<And>a b c. m a b \<le> 0 \<Longrightarrow> m b c \<le> 0 \<Longrightarrow> m a c \<le> 0"
    and "slot_order m a b \<le> 0" and "slot_order m b d \<le> 0"
  shows "slot_order m a d \<le> 0"
proof -
  have ab: "m (fst a) (fst b) < 0 \<or> m (fst a) (fst b) = 0 \<and> snd a \<le> snd b"
    and bd: "m (fst b) (fst d) < 0 \<or> m (fst b) (fst d) = 0 \<and> snd b \<le> snd d"
    using assms(3,4) by (auto simp: slot_order_def sign_of_def split: if_splits)
  then have le: "m (fst a) (fst d) \<le> 0" using trans [of "fst a" "fst b" "fst d"] by linarith
  have "snd a \<le> snd d" if "m (fst a) (fst d) = 0"
  proof -
    have da: "m (fst d) (fst a) \<le> 0" using that opp [of "fst a" "fst d"] by linarith
    have "m (fst b) (fst a) \<le> 0" using trans [OF _ da, of "fst b"] bd by linarith
    moreover have "m (fst d) (fst b) \<le> 0" using trans [OF da, of "fst b"] ab by linarith
    ultimately have "m (fst a) (fst b) = 0" "m (fst b) (fst d) = 0"
      using ab bd opp [of "fst a" "fst b"] opp [of "fst b" "fst d"] by linarith+
    then show ?thesis using ab bd by linarith
  qed
  then show ?thesis using le by (auto simp: slot_order_def sign_of_def)
qed

text \<open>What the sort does with any comparison that is consistent in the states \<open>ok\<close>.\<close>

lemma js_array_sort_plain:
  assumes answer: "\<And>a b s. ok s \<Longrightarrow> fst (js_array_cmp_generic (plain P) h a b s) = slot_order m a b \<and>
      ok (snd (js_array_cmp_generic (plain P) h a b s))"
    and opp: "\<And>a b. m a b < 0 \<longleftrightarrow> m b a > 0"
    and trans: "\<And>a b c. m a b \<le> 0 \<Longrightarrow> m b c \<le> 0 \<Longrightarrow> m a c \<le> 0"
    and ok: "\<And>s. ok s \<Longrightarrow> \<not> exc s \<and> fst (world s) = arr"
    and start: "ok \<lparr>exc = False, strs = (\<lambda>_. None), world = (arr, w)\<rparr>"
  shows "\<exists>slots w'. js_array_sort (plain P) h True (arr, w) =
      Inr (True, (map (Some \<circ> fst) slots @
        replicate (length (filter ((=) (Some (undefined_value P))) arr)) (Some (undefined_value P)) @
        replicate (length (filter ((=) None) arr)) None, w')) \<and>
    mset slots = mset (slots_from (undefined_value P) 0 arr) \<and>
    sorted_wrt (\<lambda>a b. m (fst a) (fst b) < 0 \<or> m (fst a) (fst b) = 0 \<and> snd a < snd b) slots"
proof -
  let ?u = "undefined_value P"
  let ?slots = "slots_from ?u 0 arr"
  let ?U = "length (filter ((=) (Some ?u)) arr)" and ?N = "length (filter ((=) None) arr)"
  let ?asc = "\<lparr>exc = False, strs = (\<lambda>_. None), world = (arr, w)\<rparr>"
  have "\<exists>slots asc. rqsort (js_array_cmp_generic (plain P) h) ?slots ?asc 0 (length ?slots) = Inr (slots, asc) \<and>
    ok asc \<and> mset slots = mset ?slots \<and>
    sorted_wrt (\<lambda>a b. slot_order m a b \<le> 0) (take (length ?slots) (drop 0 slots))"
  proof (rule rqsort_sorts)
    show "fst (js_array_cmp_generic (plain P) h a b s) = slot_order m a b \<and>
        ok (snd (js_array_cmp_generic (plain P) h a b s))" if "ok s" for a b s
      by (rule answer [OF that])
    show "slot_order m a b < 0 \<longleftrightarrow> 0 < slot_order m b a" for a b
      by (rule slot_order_opposite [OF opp])
    show "slot_order m a d \<le> 0" if "slot_order m a b \<le> 0" "slot_order m b d \<le> 0" for a b d
      by (rule slot_order_transitive [OF opp trans that])
  qed (use start in simp_all)
  then obtain slots asc where sorted: "rqsort (js_array_cmp_generic (plain P) h) ?slots ?asc 0 (length ?slots) = Inr (slots, asc)"
    "ok asc" "mset slots = mset ?slots" "sorted_wrt (\<lambda>a b. slot_order m a b \<le> 0) (take (length ?slots) (drop 0 slots))"
    by blast
  have len: "length slots = length ?slots" using sorted(3) by (metis size_mset)
  have sizes: "length slots + ?U + ?N = length arr" using length_slots_from [of ?u 0 arr] len by simp
  obtain w' where w': "world asc = (arr, w')" "\<not> exc asc" using ok [OF sorted(2)] by (cases "world asc") auto
  have mem: "set slots = set ?slots" using sorted(3) by (metis set_mset_mset)
  have in_place: "\<forall>(v, p) \<in> set slots. 0 \<le> p \<longrightarrow> arr ! p = Some v"
    unfolding mem
  proof (intro ballI, clarify)
    fix v p assume "(v, p) \<in> set ?slots"
    from slots_from_mem [OF this] show "arr ! p = Some v" by simp
  qed
  let ?arr1 = "map (Some \<circ> fst) slots @ drop (length slots) arr"
  have s1: "store_slots (plain P) 0 slots (arr, w') = (True, (?arr1, w'))"
    using store_slots_plain [OF _ in_place, of P w'] sizes by simp
  let ?arr2 = "map (Some \<circ> fst) slots @ replicate ?U (Some ?u) @ drop (length slots + ?U) arr"
  have s2: "store_undefined (plain P) (length slots) ?U (?arr1, w') = (True, (?arr2, w'))"
    using store_undefined_plain [of "length slots" ?U ?arr1 P w'] sizes by (simp add: add.commute)
  let ?arr3 = "map (Some \<circ> fst) slots @ replicate ?U (Some ?u) @ replicate ?N None"
  have rest: "length arr - (length slots + ?U) = ?N" using sizes by linarith
  have s3: "delete_rest (plain P) (length slots + ?U) (length arr - (length slots + ?U)) (?arr2, w') = (True, (?arr3, w'))"
    unfolding rest using delete_rest_plain [of "length slots + ?U" ?N ?arr2 P w'] sizes by simp
  have c: "collect (plain P) (length arr) 0 0 [] 0 (arr, w) = (Some (?slots, ?U), (arr, w))"
    using collect_plain [of 0 "length arr" arr P 0 "[]" 0 w] by simp
  have "js_array_sort (plain P) h True (arr, w) = Inr (True, (?arr3, w'))"
    unfolding js_array_sort_def using c sorted(1) s1 s2 s3 w' len by (simp add: Let_def)
  moreover have "sorted_wrt (\<lambda>a b. m (fst a) (fst b) < 0 \<or> m (fst a) (fst b) = 0 \<and> snd a < snd b) slots"
  proof (rule sorted_wrt_iff_nth_less [THEN iffD2], intro allI impI)
    fix i j assume ij: "i < j" "j < length slots"
    have "distinct (map snd slots)"
      using slots_from_distinct [of ?u 0 arr] sorted(3) by (metis distinct_count_atmost_1 mset_map set_mset_mset)
    then have "snd (slots ! i) \<noteq> snd (slots ! j)" using ij by (simp add: distinct_conv_nth)
    moreover have "slot_order m (slots ! i) (slots ! j) \<le> 0"
      using sorted(4) ij len by (simp add: sorted_wrt_iff_nth_less)
    ultimately show "m (fst (slots ! i)) (fst (slots ! j)) < 0 \<or>
        m (fst (slots ! i)) (fst (slots ! j)) = 0 \<and> snd (slots ! i) < snd (slots ! j)"
      by (auto simp: slot_order_def sign_of_def split: if_splits)
  qed
  ultimately show ?thesis using sorted(3) by blast
qed

lemma method_sign_plain:
  "method_sign (plain P) a b (arr, u) = (let (d, u) = method_sign P a b u in (d, (arr, u)))"
  by (simp add: method_sign_def plain_def Let_def split: prod.split option.split)

text \<open>C34.
  With a comparison method that always returns the sign of a consistent order \<open>m\<close> and throws
  nothing, \<open>Array.prototype.sort\<close> on a plain array is the stable sort: the values by \<open>m\<close>, those equal
  under \<open>m\<close> in their old order, then the undefined values, then the missing elements.
\<close>
theorem js_array_sort_stable:
  assumes "\<And>a b u. fst (method_sign P a b u) = Some (m a b)"
    and "\<And>a b. m a b < 0 \<longleftrightarrow> m b a > 0"
    and "\<And>a b c. m a b \<le> 0 \<Longrightarrow> m b c \<le> 0 \<Longrightarrow> m a c \<le> 0"
  shows "\<exists>slots w'. js_array_sort (plain P) True True (arr, w) =
      Inr (True, (map (Some \<circ> fst) slots @
        replicate (length (filter ((=) (Some (undefined_value P))) arr)) (Some (undefined_value P)) @
        replicate (length (filter ((=) None) arr)) None, w')) \<and>
    mset slots = mset (slots_from (undefined_value P) 0 arr) \<and>
    sorted_wrt (\<lambda>a b. m (fst a) (fst b) < 0 \<or> m (fst a) (fst b) = 0 \<and> snd a < snd b) slots"
proof (rule js_array_sort_plain [where ok = "\<lambda>s. \<not> exc s \<and> fst (world s) = arr", OF _ assms(2,3)])
  fix a b :: "'a slot" and s :: "('a, 'a option list \<times> 'b) array_sort_context"
  assume ok: "\<not> exc s \<and> fst (world s) = arr"
  then obtain u where u: "world s = (arr, u)" by (cases "world s") auto
  obtain u' where m: "method_sign P (fst a) (fst b) u = (Some (m (fst a) (fst b)), u')"
    using assms(1) by (metis prod.collapse)
  have "m v v = 0" for v using assms(2) [of v v] by linarith
  then show "fst (js_array_cmp_generic (plain P) True a b s) = slot_order m a b \<and>
      \<not> exc (snd (js_array_cmp_generic (plain P) True a b s)) \<and>
      fst (world (snd (js_array_cmp_generic (plain P) True a b s))) = arr"
    using ok u m by (auto simp: js_array_cmp_generic_def method_sign_plain slot_order_def)
qed auto

text \<open>The order of the strings of the values, for the sort without a comparison method.\<close>

definition string_order :: "('v \<Rightarrow> JSString) \<Rightarrow> 'v \<Rightarrow> 'v \<Rightarrow> int" where
  "string_order str a b = (case js_string_compare (str a) (str b) of Inr d \<Rightarrow> d | Inl _ \<Rightarrow> 0)"

lemma string_order_units:
  "string_order str a b < 0 \<longleftrightarrow> map uint (units (str a)) < map uint (units (str b))"
  "string_order str a b = 0 \<longleftrightarrow> units (str a) = units (str b)"
  "js_string_compare (str a) (str b) = Inr (string_order str a b)"
  using js_string_compare_order [of "str a" "str b"] by (auto simp: string_order_def)

lemma string_order_consistent:
  "string_order str a b < 0 \<longleftrightarrow> string_order str b a > 0"
  "string_order str a b \<le> 0 \<Longrightarrow> string_order str b c \<le> 0 \<Longrightarrow> string_order str a c \<le> 0"
proof -
  have inj: "map uint (units x) = map uint (units y) \<longleftrightarrow> units x = units y" for x y
    by (metis inj_map_eq_map word_uint_eqI injI)
  have le: "string_order str x y \<le> 0 \<longleftrightarrow> map uint (units (str x)) \<le> map uint (units (str y))" for x y
    using string_order_units(1,2) [of str x y] by (auto simp: le_less inj)
  show "string_order str a b < 0 \<longleftrightarrow> string_order str b a > 0"
    using le [of b a] string_order_units(1) [of str a b] by (auto simp: not_le [symmetric])
  show "string_order str a b \<le> 0 \<Longrightarrow> string_order str b c \<le> 0 \<Longrightarrow> string_order str a c \<le> 0"
    unfolding le by (rule order.trans)
qed

lemma slot_string_plain:
  assumes "\<And>v u. fst (to_string P v u) = Some (str v)"
    and "\<not> exc s \<and> fst (world s) = arr \<and> (\<forall>a t. strs s a = Some t \<longrightarrow> t = str (fst a))"
  shows "\<exists>s'. slot_string (plain P) a s = (Some (str (fst a)), s') \<and>
    \<not> exc s' \<and> fst (world s') = arr \<and> (\<forall>a t. strs s' a = Some t \<longrightarrow> t = str (fst a))"
proof (cases "strs s a")
  case None
  obtain u where u: "world s = (arr, u)" using assms(2) by (cases "world s") auto
  obtain u' where "to_string P (fst a) u = (Some (str (fst a)), u')" using assms(1) by (metis prod.collapse)
  then have "to_string (plain P) (fst a) (world s) = (Some (str (fst a)), (arr, u'))"
    using u by (simp add: plain_def)
  then show ?thesis using None assms(2) by (auto simp: slot_string_def)
next
  case (Some t)
  moreover have "strs s a = Some t \<longrightarrow> t = str (fst a)" using assms(2) by blast
  ultimately have "t = str (fst a)" by (rule rev_mp)
  then have "slot_string (plain P) a s = (Some (str (fst a)), s)" using Some by (simp add: slot_string_def)
  then show ?thesis using assms(2) by blast
qed


end
