(* ===== verification/SortDemo.thy ===== *)
theory SortDemo
  imports JsSort RQExchange
begin

text \<open>
  The theorems about sorting applied to concrete arrays: bytes sorted by the comparison function
  of typed arrays, and arrays of integers with missing elements, sorted with a method that
  compares the last decimal digit and as strings of one code unit.
\<close>

text \<open>Sorting three bytes.\<close>

lemma rqsort_permutes_witness:
  "\<exists>ys t. rqsort js_TA_cmp_uint8 [3, 200, 1] () 0 3 = Inr (ys, t) \<and> mset ys = mset [3, 200, 1] \<and>
    take 0 ys = take 0 [3, 200, 1] \<and> drop (0 + 3) ys = drop (0 + 3) [3, 200, 1]"
  by (rule rqsort_permutes) simp

lemma rqsort_sorts_witness:
  "\<exists>ys t. rqsort js_TA_cmp_int8 [3, 200, 1] () 0 3 = Inr (ys, t) \<and> True \<and> mset ys = mset [3, 200, 1] \<and>
    sorted_wrt (\<lambda>a b. sint a - sint b \<le> 0) (take 3 (drop 0 ys))"
  by (rule rqsort_sorts [where ok = "\<lambda>_. True"]) (simp_all add: js_TA_cmp_int8_def)

text \<open>Exchanging the two elements of an array of two words of four bytes.\<close>

lemma exchange_swaps_elements_witness:
  "\<exists>mem'. exchange (exchange_func 0 4) [1, 2, 3, 4, 5, 6, 7, 8] (0 + 0 * 4) (0 + 1 * 4) 4 = Inr mem' \<and>
    elements 0 4 2 mem' = exch (elements 0 4 2 [1, 2, 3, 4, 5, 6, 7, 8]) 0 1 \<and>
    take 0 mem' = take 0 [1, 2, 3, 4, 5, 6, 7, 8] \<and>
    drop (0 + 2 * 4) mem' = drop (0 + 2 * 4) [1, 2, 3, 4, 5, 6, 7, 8]"
  by (rule exchange_swaps_elements) simp_all

text \<open>
  Values are integers, \<open>0\<close> stands for undefined; the method compares last digits, and the string of
  a value is the one code unit with its number.
\<close>

definition integer_ops :: "(int, int, nat) sort_ops" where
  "integer_ops = \<lparr>
     get_length = (\<lambda>u. (Some 0, u)),
     try_get = (\<lambda>i u. (Some None, u)),
     set_property = (\<lambda>i v u. (True, u)),
     delete_property = (\<lambda>i u. (True, u)),
     more_slots = (\<lambda>n u. (Some n, u)),
     call_method = (\<lambda>a b u. (Some (a mod 10 - b mod 10), u + 1)),
     int_value = Some,
     to_float = (\<lambda>v u. (Some v, u)),
     positive = (\<lambda>v. v > 0), negative = (\<lambda>v. v < 0),
     to_string = (\<lambda>v u. (Some (Str16 [word_of_int v]), u + 1)),
     undefined_value = 0\<rparr>"

lemma integer_ops_simps [simp]:
  "undefined_value integer_ops = 0"
  "method_sign integer_ops a b u = (Some (sgn (a mod 10 - b mod 10)), u + 1)"
  "to_string integer_ops v u = (Some (Str16 [word_of_int v]), u + 1)"
  by (auto simp: integer_ops_def method_sign_def sign_of_def sgn_if)

lemma js_array_sort_stable_witness:
  "\<exists>slots w'. js_array_sort (plain integer_ops) True True ([Some 21, None, Some 0, Some 11], 0) =
      Inr (True, (map (Some \<circ> fst) slots @
        replicate (length (filter ((=) (Some (undefined_value integer_ops))) [Some 21, None, Some 0, Some 11]))
          (Some (undefined_value integer_ops)) @
        replicate (length (filter ((=) None) [Some (21 :: int), None, Some 0, Some 11])) None, w')) \<and>
    mset slots = mset (slots_from (undefined_value integer_ops) 0 [Some 21, None, Some 0, Some 11]) \<and>
    sorted_wrt (\<lambda>a b. sgn (fst a mod 10 - fst b mod 10) < 0 \<or>
      sgn (fst a mod 10 - fst b mod 10) = 0 \<and> snd a < snd b) slots"
  by (rule js_array_sort_stable) (auto simp: sgn_if split: if_splits)


end
