(* ===== verification/JsAtom.thy ===== *)
theory JsAtom
  imports JsString
begin

text \<open>
  The table of atoms (\<open>quickjs.c\<close>): strings that name properties and variables are kept once each and
  stand for themselves by their index. \<open>atom_array\<close> holds the structures, its unused entries linked
  into a free list; \<open>atom_hash\<close> has a chain of indices for every hash value, linked by \<open>hash_next\<close>.

  Structures lie in a heap (\<open>strings\<close>), so that a string value and an atom can be the same object, as
  in the code. Memory comes from the functions of the record \<open>atom_mem\<close>. Use of a structure that was
  freed, or an index outside of a table, is \<open>Undef\<close>; a failed \<open>assert\<close> is \<open>Fail\<close>. Chains are
  followed with fuel for as many links as the table has entries.
\<close>

section \<open>State\<close>

type_synonym ptr = nat

record atom_struct =
  header_ref_count :: int
  chars :: JSString
  atom_type :: nat
  hash :: u32
  hash_next :: nat

text \<open>An entry of \<open>atom_array\<close>: a link of the free list, marked by its lowest bit, or a pointer.\<close>

datatype entry = Free nat | Atom ptr

record 'w atom_runtime =
  atom_hash :: "nat list"
  atom_array :: "entry list"
  atom_count :: int
  atom_count_resize :: nat
  atom_free_index :: nat
  strings :: "ptr \<rightharpoonup> atom_struct"
  outside :: 'w

text \<open>
  The allocator: a structure of a given size at an address not in use, a table of a given size,
  and \<open>js_free_rt\<close>.
\<close>

record 'w atom_mem =
  alloc_string :: "nat \<Rightarrow> (ptr \<rightharpoonup> atom_struct) \<Rightarrow> 'w \<Rightarrow> ptr option \<times> 'w"
  alloc_table :: "nat \<Rightarrow> 'w \<Rightarrow> bool \<times> 'w"
  release :: "'w \<Rightarrow> 'w"

definition JS_ATOM_TYPE_STRING :: nat where "JS_ATOM_TYPE_STRING = 1"
definition JS_ATOM_TYPE_GLOBAL_SYMBOL :: nat where "JS_ATOM_TYPE_GLOBAL_SYMBOL = 2"
definition JS_ATOM_TYPE_SYMBOL :: nat where "JS_ATOM_TYPE_SYMBOL = 3"
definition JS_ATOM_TYPE_PRIVATE :: nat where "JS_ATOM_TYPE_PRIVATE = 4"
definition JS_ATOM_HASH_SYMBOL :: u32 where "JS_ATOM_HASH_SYMBOL = 0"
definition JS_ATOM_HASH_PRIVATE :: u32 where "JS_ATOM_HASH_PRIVATE = 1"
definition JS_ATOM_HASH_MASK :: u32 where "JS_ATOM_HASH_MASK = 2 ^ 30 - 1"
definition JS_ATOM_MAX :: nat where "JS_ATOM_MAX = 2 ^ 30 - 1"
definition JS_ATOM_TAG_INT :: u32 where "JS_ATOM_TAG_INT = 2 ^ 31"
definition JS_ATOM_MAX_INT :: u32 where "JS_ATOM_MAX_INT = JS_ATOM_TAG_INT - 1"
definition JS_ATOM_NULL :: nat where "JS_ATOM_NULL = 0"
definition JS_ATOM_END :: nat where "JS_ATOM_END = 225"

definition JS_ATOM_COUNT_RESIZE :: "nat \<Rightarrow> nat" where "JS_ATOM_COUNT_RESIZE n = n * 2"

lemmas atom_consts = JS_ATOM_TYPE_STRING_def JS_ATOM_TYPE_GLOBAL_SYMBOL_def JS_ATOM_TYPE_SYMBOL_def
  JS_ATOM_TYPE_PRIVATE_def JS_ATOM_NULL_def JS_ATOM_END_def JS_ATOM_COUNT_RESIZE_def

section \<open>Tagged values\<close>

definition atom_get_free :: "u64 \<Rightarrow> u32" where "atom_get_free p = ucast (drop_bit 1 p)"
definition atom_is_free :: "u64 \<Rightarrow> bool" where "atom_is_free p \<longleftrightarrow> p AND 1 \<noteq> 0"
definition atom_set_free :: "u32 \<Rightarrow> u64" where "atom_set_free v = push_bit 1 (ucast v) OR 1"

definition AtomIsConst :: "u32 \<Rightarrow> bool" where "AtomIsConst v \<longleftrightarrow> sint v < int JS_ATOM_END"
definition AtomIsTaggedInt :: "u32 \<Rightarrow> bool" where "AtomIsTaggedInt v \<longleftrightarrow> v AND JS_ATOM_TAG_INT \<noteq> 0"
definition AtomFromUInt32 :: "u32 \<Rightarrow> u32" where "AtomFromUInt32 v = v OR JS_ATOM_TAG_INT"
definition AtomToUInt32 :: "u32 \<Rightarrow> u32" where "AtomToUInt32 v = v AND NOT JS_ATOM_TAG_INT"

section \<open>Access\<close>

definition deref :: "'w atom_runtime \<Rightarrow> ptr \<Rightarrow> atom_struct res" where
  "deref rt p = (case strings rt p of None \<Rightarrow> Inl Undef | Some a \<Rightarrow> Inr a)"

definition put :: "ptr \<Rightarrow> atom_struct \<Rightarrow> 'w atom_runtime \<Rightarrow> 'w atom_runtime" where
  "put p a rt = rt\<lparr>strings := (strings rt)(p \<mapsto> a)\<rparr>"

definition atom_ptr :: "'w atom_runtime \<Rightarrow> nat \<Rightarrow> ptr res" where
  "atom_ptr rt i = bnd (rd (atom_array rt) i) (\<lambda>e. case e of Atom p \<Rightarrow> Inr p | Free _ \<Rightarrow> Inl Undef)"

definition bucket :: "nat \<Rightarrow> u32 \<Rightarrow> nat" where
  "bucket n h = unat h AND (n - 1)"

section \<open>The hash table\<close>

text \<open>Moving the atoms of one chain, then of all chains, to the new table.\<close>

fun move_chain :: "nat \<Rightarrow> 'w atom_runtime \<Rightarrow> nat list \<Rightarrow> nat \<Rightarrow> ('w atom_runtime \<times> nat list) res" where
  "move_chain fuel rt new_hash h =
     (if h = 0 then Inr (rt, new_hash)
      else case fuel of 0 \<Rightarrow> Inl NoFuel
      | Suc fuel \<Rightarrow>
          bnd (atom_ptr rt h) (\<lambda>p. bnd (deref rt p) (\<lambda>a.
            let j = bucket (length new_hash) (hash a) in
            bnd (rd new_hash j) (\<lambda>k.
              move_chain fuel (put p (a\<lparr>hash_next := k\<rparr>) rt) (new_hash[j := h]) (hash_next a)))))"

fun move_chains :: "nat list \<Rightarrow> 'w atom_runtime \<Rightarrow> nat list \<Rightarrow> ('w atom_runtime \<times> nat list) res" where
  "move_chains [] rt new_hash = Inr (rt, new_hash)"
| "move_chains (h # hs) rt new_hash =
     bnd (move_chain (length (atom_array rt)) rt new_hash h) (\<lambda>(rt, new_hash). move_chains hs rt new_hash)"

definition JS_ResizeAtomHash :: "'w atom_mem \<Rightarrow> nat \<Rightarrow> 'w atom_runtime \<Rightarrow> (bool \<times> 'w atom_runtime) res" where
  "JS_ResizeAtomHash M new_hash_size rt =
     (if new_hash_size AND (new_hash_size - 1) \<noteq> 0 then Inl (Fail ''assert'')
      else case alloc_table M (4 * new_hash_size) (outside rt) of
        (False, w) \<Rightarrow> Inr (False, rt\<lparr>outside := w\<rparr>)
      | (True, w) \<Rightarrow>
          bnd (move_chains (atom_hash rt) (rt\<lparr>outside := w\<rparr>) (replicate new_hash_size 0)) (\<lambda>(rt, new_hash).
            Inr (True, rt\<lparr>atom_hash := new_hash, outside := release M (outside rt),
              atom_count_resize := JS_ATOM_COUNT_RESIZE new_hash_size\<rparr>)))"

text \<open>The search for an equal atom; 0 when there is none.\<close>

fun find_atom :: "nat \<Rightarrow> 'w atom_runtime \<Rightarrow> u32 \<Rightarrow> nat \<Rightarrow> JSString \<Rightarrow> nat \<Rightarrow> nat res" where
  "find_atom fuel rt h ty str i =
     (if i = 0 then Inr 0
      else case fuel of 0 \<Rightarrow> Inl NoFuel
      | Suc fuel \<Rightarrow>
          bnd (atom_ptr rt i) (\<lambda>p. bnd (deref rt p) (\<lambda>a.
            if hash a = h \<and> atom_type a = ty \<and> js_len (chars a) = js_len str then
              bnd (js_string_memcmp (chars a) str (js_len str)) (\<lambda>d.
                if d = 0 then Inr i else find_atom fuel rt h ty str (hash_next a))
            else find_atom fuel rt h ty str (hash_next a))))"

text \<open>The index of an atom, found by its pointer.\<close>

fun index_loop :: "nat \<Rightarrow> 'w atom_runtime \<Rightarrow> ptr \<Rightarrow> nat \<Rightarrow> nat res" where
  "index_loop fuel rt p i =
     bnd (atom_ptr rt i) (\<lambda>p1.
       if p1 = p then Inr i
       else if i = 0 then Inl (Fail ''assert'')
       else case fuel of 0 \<Rightarrow> Inl NoFuel
       | Suc fuel \<Rightarrow> bnd (deref rt p1) (\<lambda>a. index_loop fuel rt p (hash_next a)))"

definition js_get_atom_index :: "'w atom_runtime \<Rightarrow> ptr \<Rightarrow> nat res" where
  "js_get_atom_index rt p =
     bnd (deref rt p) (\<lambda>a.
       if atom_type a \<noteq> JS_ATOM_TYPE_SYMBOL then
         bnd (rd (atom_hash rt) (bucket (length (atom_hash rt)) (hash a)))
           (index_loop (length (atom_array rt)) rt p)
       else Inr (hash_next a))"

section \<open>Freeing\<close>

text \<open>Taking \<open>p\<close> out of its chain, after the entry \<open>i\<close> with the structure \<open>p1\<close>; the index of \<open>p\<close>.\<close>

fun unlink :: "nat \<Rightarrow> 'w atom_runtime \<Rightarrow> ptr \<Rightarrow> nat \<Rightarrow> ptr \<Rightarrow> (nat \<times> 'w atom_runtime) res" where
  "unlink fuel rt p i p1 =
     (if i = 0 then Inl (Fail ''assert'')
      else case fuel of 0 \<Rightarrow> Inl NoFuel
      | Suc fuel \<Rightarrow>
          bnd (deref rt p1) (\<lambda>a0. bnd (atom_ptr rt (hash_next a0)) (\<lambda>p2.
            if p2 = p then
              bnd (deref rt p2) (\<lambda>a1. Inr (hash_next a0, put p1 (a0\<lparr>hash_next := hash_next a1\<rparr>) rt))
            else unlink fuel rt p (hash_next a0) p2)))"

definition remove_from_chain :: "'w atom_runtime \<Rightarrow> ptr \<Rightarrow> atom_struct \<Rightarrow> (nat \<times> 'w atom_runtime) res" where
  "remove_from_chain rt p a =
     (let h0 = bucket (length (atom_hash rt)) (hash a) in
      bnd (rd (atom_hash rt) h0) (\<lambda>i. bnd (atom_ptr rt i) (\<lambda>p1.
        if p1 = p then Inr (i, rt\<lparr>atom_hash := (atom_hash rt)[h0 := hash_next a]\<rparr>)
        else unlink (length (atom_array rt)) rt p i p1)))"

definition JS_FreeAtomStruct :: "'w atom_mem \<Rightarrow> ptr \<Rightarrow> 'w atom_runtime \<Rightarrow> 'w atom_runtime res" where
  "JS_FreeAtomStruct M p rt =
     bnd (deref rt p) (\<lambda>a.
     bnd (if atom_type a \<noteq> JS_ATOM_TYPE_SYMBOL then remove_from_chain rt p a else Inr (hash_next a, rt)) (\<lambda>(i, rt).
     bnd (wr (atom_array rt) i (Free (atom_free_index rt))) (\<lambda>array.
       let rt = rt\<lparr>atom_array := array, atom_free_index := i, strings := (strings rt)(p := None),
           outside := release M (outside rt), atom_count := atom_count rt - 1\<rparr>
       in if atom_count rt \<ge> 0 then Inr rt else Inl (Fail ''assert''))))"

definition js_free_string :: "'w atom_mem \<Rightarrow> ptr \<Rightarrow> 'w atom_runtime \<Rightarrow> 'w atom_runtime res" where
  "js_free_string M p rt =
     bnd (deref rt p) (\<lambda>a.
       let rt = put p (a\<lparr>header_ref_count := header_ref_count a - 1\<rparr>) rt in
       if header_ref_count a - 1 \<le> 0 then
         if atom_type a \<noteq> 0 then JS_FreeAtomStruct M p rt
         else Inr (rt\<lparr>strings := (strings rt)(p := None), outside := release M (outside rt)\<rparr>)
       else Inr rt)"

definition FreeAtom :: "'w atom_mem \<Rightarrow> nat \<Rightarrow> 'w atom_runtime \<Rightarrow> 'w atom_runtime res" where
  "FreeAtom M i rt =
     bnd (atom_ptr rt i) (\<lambda>p. bnd (deref rt p) (\<lambda>a.
       let rt = put p (a\<lparr>header_ref_count := header_ref_count a - 1\<rparr>) rt in
       if header_ref_count a - 1 > 0 then Inr rt else JS_FreeAtomStruct M p rt))"

definition JS_FreeAtom :: "'w atom_mem \<Rightarrow> u32 \<Rightarrow> 'w atom_runtime \<Rightarrow> 'w atom_runtime res" where
  "JS_FreeAtom M v rt = (if \<not> AtomIsConst v then FreeAtom M (unat v) rt else Inr rt)"

definition add_reference :: "ptr \<Rightarrow> 'w atom_runtime \<Rightarrow> 'w atom_runtime res" where
  "add_reference p rt =
     bnd (deref rt p) (\<lambda>a. Inr (put p (a\<lparr>header_ref_count := header_ref_count a + 1\<rparr>) rt))"

definition JS_DupAtom :: "u32 \<Rightarrow> 'w atom_runtime \<Rightarrow> (u32 \<times> 'w atom_runtime) res" where
  "JS_DupAtom v rt =
     (if \<not> AtomIsConst v
      then bnd (atom_ptr rt (unat v)) (\<lambda>p. bnd (add_reference p rt) (\<lambda>rt. Inr (v, rt)))
      else Inr (v, rt))"

section \<open>New atoms\<close>

definition is_wide_char :: "JSString \<Rightarrow> bool" where
  "is_wide_char str = (case str of Str8 _ \<Rightarrow> False | Str16 _ \<Rightarrow> True)"

text \<open>The bytes of a string of \<open>len\<close> units: its header, the units, and a null after 8 bit units.\<close>

definition string_size :: "nat \<Rightarrow> bool \<Rightarrow> nat" where
  "string_size len wide = 16 + len * (if wide then 2 else 1) + (if wide then 0 else 1)"

text \<open>A new string with its contents; in the code the caller fills them in.\<close>

definition js_alloc_string_rt ::
  "'w atom_mem \<Rightarrow> JSString \<Rightarrow> 'w atom_runtime \<Rightarrow> ptr option \<times> 'w atom_runtime" where
  "js_alloc_string_rt M str rt =
     (case alloc_string M (string_size (js_len str) (is_wide_char str)) (strings rt) (outside rt) of
        (None, w) \<Rightarrow> (None, rt\<lparr>outside := w\<rparr>)
      | (Some p, w) \<Rightarrow> (Some p, put p \<lparr>header_ref_count = 1, chars = str, atom_type = 0, hash = 0, hash_next = 0\<rparr>
          (rt\<lparr>outside := w\<rparr>)))"

text \<open>The entries from \<open>start\<close> on, each linked to the next.\<close>

definition free_entries :: "nat \<Rightarrow> nat \<Rightarrow> entry list" where
  "free_entries start new_size = map (\<lambda>i. Free (if i = new_size - 1 then 0 else i + 1)) [start ..< new_size]"

text \<open>More entries; \<open>False\<close> for the jump to \<open>fail\<close>. The size is computed as an \<open>int\<close>.\<close>

definition grow_atom_array :: "'w atom_mem \<Rightarrow> 'w atom_runtime \<Rightarrow> (bool \<times> 'w atom_runtime) res" where
  "grow_atom_array M rt =
     (let start = length (atom_array rt); new_size = max 211 (start * 3 div 2) in
      if start * 3 \<ge> 2 ^ 31 then Inl Undef
      else if new_size > JS_ATOM_MAX then Inr (False, rt)
      else case alloc_table M (8 * new_size) (outside rt) of
        (False, w) \<Rightarrow> Inr (False, rt\<lparr>outside := w\<rparr>)
      | (True, w) \<Rightarrow>
          if start = 0 then
            case alloc_string M 16 (strings rt) w of
              (None, w) \<Rightarrow> Inr (False, rt\<lparr>outside := release M w\<rparr>)
            | (Some p, w) \<Rightarrow>
                Inr (True, put p \<lparr>header_ref_count = 1, chars = Str8 [], atom_type = JS_ATOM_TYPE_SYMBOL, hash = 0,
                    hash_next = 0\<rparr>
                  (rt\<lparr>atom_array := Atom p # free_entries 1 new_size, atom_free_index := 1,
                    atom_count := atom_count rt + 1, outside := w\<rparr>))
          else Inr (True, rt\<lparr>atom_array := atom_array rt @ free_entries start new_size, atom_free_index := start,
                 outside := w\<rparr>))"

text \<open>
  The structure of a new atom: the string itself when it is no atom yet, a copy of it otherwise, or
  an empty one. \<open>Inr None\<close> when memory for it is missing.
\<close>

definition new_structure ::
  "'w atom_mem \<Rightarrow> ptr option \<Rightarrow> nat \<Rightarrow> 'w atom_runtime \<Rightarrow> (ptr option \<times> 'w atom_runtime) res" where
  "new_structure M str ty rt =
     (case str of
        Some s \<Rightarrow> bnd (deref rt s) (\<lambda>a.
          if atom_type a = 0 then Inr (Some s, put s (a\<lparr>atom_type := ty\<rparr>) rt)
          else case alloc_string M (string_size (js_len (chars a)) (is_wide_char (chars a))) (strings rt) (outside rt) of
              (None, w) \<Rightarrow> Inr (None, rt\<lparr>outside := w\<rparr>)
            | (Some p, w) \<Rightarrow>
                bnd (js_free_string M s (put p \<lparr>header_ref_count = 1, chars = chars a, atom_type = 0, hash = 0,
                    hash_next = 0\<rparr> (rt\<lparr>outside := w\<rparr>))) (\<lambda>rt. Inr (Some p, rt)))
      | None \<Rightarrow>
          (case alloc_string M 16 (strings rt) (outside rt) of
             (None, w) \<Rightarrow> Inr (None, rt\<lparr>outside := w\<rparr>)
           | (Some p, w) \<Rightarrow> Inr (Some p, put p \<lparr>header_ref_count = 1, chars = Str16 [], atom_type = 0, hash = 0,
               hash_next = 0\<rparr> (rt\<lparr>outside := w\<rparr>))))"

text \<open>Entering the structure \<open>p\<close> into the first free entry and, unless it is a symbol, into its chain.\<close>

definition enter_atom :: "'w atom_mem \<Rightarrow> ptr \<Rightarrow> u32 \<Rightarrow> nat \<Rightarrow> nat \<Rightarrow> 'w atom_runtime \<Rightarrow> (nat \<times> 'w atom_runtime) res" where
  "enter_atom M p h h1 ty rt =
     (let i = atom_free_index rt in
      bnd (rd (atom_array rt) i) (\<lambda>e. case e of Atom _ \<Rightarrow> Inl Undef | Free next \<Rightarrow>
      bnd (deref rt p) (\<lambda>a.
        let rt = rt\<lparr>atom_free_index := next, atom_array := (atom_array rt)[i := Atom p], atom_count := atom_count rt + 1\<rparr>;
            a = a\<lparr>hash := h, hash_next := i, atom_type := ty\<rparr>
        in if ty = JS_ATOM_TYPE_SYMBOL then Inr (i, put p a rt)
           else bnd (rd (atom_hash rt) h1) (\<lambda>k.
             let rt = put p (a\<lparr>hash_next := k\<rparr>) (rt\<lparr>atom_hash := (atom_hash rt)[h1 := i]\<rparr>) in
             if atom_count rt \<ge> int (atom_count_resize rt)
             then bnd (JS_ResizeAtomHash M (length (atom_hash rt) * 2) rt) (\<lambda>(_, rt). Inr (i, rt))
             else Inr (i, rt)))))"

text \<open>The end of the function after \<open>fail\<close> and \<open>done\<close>.\<close>

definition finish_atom :: "'w atom_mem \<Rightarrow> ptr option \<Rightarrow> nat \<Rightarrow> 'w atom_runtime \<Rightarrow> (nat \<times> 'w atom_runtime) res" where
  "finish_atom M str i rt =
     (case str of Some s \<Rightarrow> bnd (js_free_string M s rt) (\<lambda>rt. Inr (i, rt)) | None \<Rightarrow> Inr (i, rt))"

text \<open>The part of the function behind the search.\<close>

definition create_atom :: "'w atom_mem \<Rightarrow> ptr option \<Rightarrow> u32 \<Rightarrow> nat \<Rightarrow> nat \<Rightarrow> 'w atom_runtime \<Rightarrow> (nat \<times> 'w atom_runtime) res" where
  "create_atom M str h h1 ty rt =
     bnd (if atom_free_index rt = 0 then grow_atom_array M rt else Inr (True, rt)) (\<lambda>(ok, rt).
       if \<not> ok then finish_atom M str JS_ATOM_NULL rt
       else bnd (new_structure M str ty rt) (\<lambda>(r, rt).
         case r of None \<Rightarrow> finish_atom M str JS_ATOM_NULL rt | Some p \<Rightarrow> enter_atom M p h h1 ty rt))"

text \<open>\<open>str\<close> is \<open>None\<close> for a symbol without description only.\<close>

definition NewAtom :: "'w atom_mem \<Rightarrow> ptr option \<Rightarrow> nat \<Rightarrow> 'w atom_runtime \<Rightarrow> (nat \<times> 'w atom_runtime) res" where
  "NewAtom M str ty rt =
     (if ty < JS_ATOM_TYPE_SYMBOL then
        (case str of None \<Rightarrow> Inl Undef | Some s \<Rightarrow>
         bnd (deref rt s) (\<lambda>a.
           if atom_type a = ty then
             bnd (js_get_atom_index rt s) (\<lambda>i.
               Inr (i, if AtomIsConst (of_nat i) then put s (a\<lparr>header_ref_count := header_ref_count a - 1\<rparr>) rt else rt))
           else
             let h = hash_string (chars a) (of_nat ty) AND JS_ATOM_HASH_MASK;
                 h1 = bucket (length (atom_hash rt)) h
             in bnd (rd (atom_hash rt) h1) (\<lambda>i0.
                bnd (find_atom (length (atom_array rt)) rt h ty (chars a) i0) (\<lambda>i.
                  if i \<noteq> 0 then
                    bnd (if \<not> AtomIsConst (of_nat i) then bnd (atom_ptr rt i) (\<lambda>p. add_reference p rt) else Inr rt)
                      (finish_atom M str i)
                  else create_atom M str h h1 ty rt))))
      else if ty = JS_ATOM_TYPE_SYMBOL then create_atom M str JS_ATOM_HASH_SYMBOL 0 JS_ATOM_TYPE_SYMBOL rt
      else create_atom M str JS_ATOM_HASH_PRIVATE 0 JS_ATOM_TYPE_SYMBOL rt)"

definition NewAtomInit :: "'w atom_mem \<Rightarrow> u8 list \<Rightarrow> nat \<Rightarrow> 'w atom_runtime \<Rightarrow> (nat \<times> 'w atom_runtime) res" where
  "NewAtomInit M str ty rt =
     (case js_alloc_string_rt M (Str8 str) rt of
        (None, rt) \<Rightarrow> Inr (JS_ATOM_NULL, rt)
      | (Some p, rt) \<Rightarrow> NewAtom M (Some p) ty rt)"

section \<open>Functions for the rest of the engine\<close>

text \<open>
  The search for an atom with the text of a C string; the number of the atom, or 0. The argument
  \<open>atom_type\<close> is not used by the code.
\<close>

fun find_atom8 :: "nat \<Rightarrow> 'w atom_runtime \<Rightarrow> u32 \<Rightarrow> u8 list \<Rightarrow> nat \<Rightarrow> (nat \<times> 'w atom_runtime) res" where
  "find_atom8 fuel rt h str i =
     (if i = 0 then Inr (JS_ATOM_NULL, rt)
      else case fuel of 0 \<Rightarrow> Inl NoFuel
      | Suc fuel \<Rightarrow>
          bnd (atom_ptr rt i) (\<lambda>p. bnd (deref rt p) (\<lambda>a.
            if hash a = h \<and> atom_type a = JS_ATOM_TYPE_STRING \<and> chars a = Str8 str then
              bnd (if \<not> AtomIsConst (of_nat i) then add_reference p rt else Inr rt) (\<lambda>rt. Inr (i, rt))
            else find_atom8 fuel rt h str (hash_next a))))"

definition FindAtom :: "u8 list \<Rightarrow> nat \<Rightarrow> 'w atom_runtime \<Rightarrow> (nat \<times> 'w atom_runtime) res" where
  "FindAtom str ty rt =
     (let h = hash_string8 str (of_nat JS_ATOM_TYPE_STRING) AND JS_ATOM_HASH_MASK in
      bnd (rd (atom_hash rt) (bucket (length (atom_hash rt)) h)) (find_atom8 (length (atom_array rt)) rt h str))"

text \<open>An atom for a string: a tagged number for a small array index.\<close>

definition JS_NewAtomStr :: "'w atom_mem \<Rightarrow> ptr \<Rightarrow> 'w atom_runtime \<Rightarrow> (u32 \<times> 'w atom_runtime) res" where
  "JS_NewAtomStr M p rt =
     bnd (deref rt p) (\<lambda>a. bnd (is_num_string (chars a)) (\<lambda>n.
       case n of
         Some n \<Rightarrow>
           if n \<le> JS_ATOM_MAX_INT then bnd (js_free_string M p rt) (\<lambda>rt. Inr (AtomFromUInt32 n, rt))
           else bnd (NewAtom M (Some p) JS_ATOM_TYPE_STRING rt) (\<lambda>(i, rt). Inr (of_nat i, rt))
       | None \<Rightarrow> bnd (NewAtom M (Some p) JS_ATOM_TYPE_STRING rt) (\<lambda>(i, rt). Inr (of_nat i, rt))))"

text \<open>\<open>snprintf\<close> with the format \<open>%u\<close>.\<close>

definition print_u32 :: "u32 \<Rightarrow> u8 list" where
  "print_u32 n = map of_nat (decimal (unat n))"

definition JS_NewAtomUInt32 :: "'w atom_mem \<Rightarrow> u32 \<Rightarrow> 'w atom_runtime \<Rightarrow> (u32 \<times> 'w atom_runtime) res" where
  "JS_NewAtomUInt32 M n rt =
     (if n \<le> JS_ATOM_MAX_INT then Inr (AtomFromUInt32 n, rt)
      else case js_alloc_string_rt M (Str8 (print_u32 n)) rt of
        (None, rt) \<Rightarrow> Inr (of_nat JS_ATOM_NULL, rt)
      | (Some p, rt) \<Rightarrow> bnd (NewAtom M (Some p) JS_ATOM_TYPE_STRING rt) (\<lambda>(i, rt). Inr (of_nat i, rt)))"

text \<open>A symbol with the string of an atom as its description; the value is a pointer.\<close>

definition JS_NewSymbol :: "'w atom_mem \<Rightarrow> ptr option \<Rightarrow> nat \<Rightarrow> 'w atom_runtime \<Rightarrow> (ptr option \<times> 'w atom_runtime) res" where
  "JS_NewSymbol M p ty rt =
     bnd (NewAtom M p ty rt) (\<lambda>(i, rt).
       if i = JS_ATOM_NULL then Inr (None, rt) else bnd (atom_ptr rt i) (\<lambda>p. Inr (Some p, rt)))"

definition JS_NewSymbolFromAtom :: "'w atom_mem \<Rightarrow> u32 \<Rightarrow> nat \<Rightarrow> 'w atom_runtime \<Rightarrow> (ptr option \<times> 'w atom_runtime) res" where
  "JS_NewSymbolFromAtom M descr ty rt =
     (if AtomIsTaggedInt descr \<or> unat descr \<ge> length (atom_array rt) then Inl (Fail ''assert'')
      else bnd (atom_ptr rt (unat descr)) (\<lambda>p. bnd (add_reference p rt) (JS_NewSymbol M (Some p) ty)))"

datatype JSAtomKindEnum = JS_ATOM_KIND_STRING | JS_ATOM_KIND_SYMBOL | JS_ATOM_KIND_PRIVATE

definition JS_AtomGetKind :: "'w atom_runtime \<Rightarrow> u32 \<Rightarrow> JSAtomKindEnum res" where
  "JS_AtomGetKind rt v =
     (if AtomIsTaggedInt v then Inr JS_ATOM_KIND_STRING
      else bnd (atom_ptr rt (unat v)) (\<lambda>p. bnd (deref rt p) (\<lambda>a.
        if atom_type a = JS_ATOM_TYPE_STRING then Inr JS_ATOM_KIND_STRING
        else if atom_type a = JS_ATOM_TYPE_GLOBAL_SYMBOL then Inr JS_ATOM_KIND_SYMBOL
        else if atom_type a = JS_ATOM_TYPE_SYMBOL \<and> hash a = JS_ATOM_HASH_SYMBOL then Inr JS_ATOM_KIND_SYMBOL
        else if atom_type a = JS_ATOM_TYPE_SYMBOL \<and> hash a = JS_ATOM_HASH_PRIVATE then Inr JS_ATOM_KIND_PRIVATE
        else Inl (Fail ''abort''))))"

text \<open>The array index an atom stands for, if any: at most \<open>2 ^ 32 - 2\<close>.\<close>

definition JS_AtomIsArrayIndex :: "'w atom_runtime \<Rightarrow> u32 \<Rightarrow> u32 option res" where
  "JS_AtomIsArrayIndex rt v =
     (if AtomIsTaggedInt v then Inr (Some (AtomToUInt32 v))
      else if unat v \<ge> length (atom_array rt) then Inl (Fail ''assert'')
      else bnd (atom_ptr rt (unat v)) (\<lambda>p. bnd (deref rt p) (\<lambda>a.
        if atom_type a = JS_ATOM_TYPE_STRING then
          bnd (is_num_string (chars a)) (\<lambda>n. Inr (case n of
            Some n \<Rightarrow> if n \<noteq> - 1 then Some n else None | None \<Rightarrow> None))
        else Inr None)))"

section \<open>The atoms of the engine\<close>

text \<open>
  The names of \<open>quickjs-atom.h\<close>, in its order: the constant \<open>JS_ATOM_x\<close> of the code is the position
  of \<open>x\<close>, counted from 1. These are all of them, with \<open>CONFIG_BIGNUM\<close> and \<open>CONFIG_ATOMICS\<close> defined.
\<close>

definition js_atom_init :: "string list" where
  "js_atom_init = [
    ''null'', ''false'', ''true'', ''if'', ''else'', ''return'', ''var'', ''this'', ''delete'',
    ''void'', ''typeof'', ''new'', ''in'', ''instanceof'', ''do'', ''while'', ''for'', ''break'',
    ''continue'', ''switch'', ''case'', ''default'', ''throw'', ''try'', ''catch'', ''finally'',
    ''function'', ''debugger'', ''with'', ''class'', ''const'', ''enum'', ''export'', ''extends'',
    ''import'', ''super'', ''implements'', ''interface'', ''let'', ''package'', ''private'',
    ''protected'', ''public'', ''static'', ''yield'', ''await'', '''', ''length'', ''fileName'',
    ''lineNumber'', ''message'', ''errors'', ''stack'', ''name'', ''toString'', ''toLocaleString'',
    ''valueOf'', ''eval'', ''prototype'', ''constructor'', ''configurable'', ''writable'',
    ''enumerable'', ''value'', ''get'', ''set'', ''of'', ''__proto__'', ''undefined'', ''number'',
    ''boolean'', ''string'', ''object'', ''symbol'', ''integer'', ''unknown'', ''arguments'',
    ''callee'', ''caller'', ''<eval>'', ''<ret>'', ''<var>'', ''<arg_var>'', ''<with>'', ''lastIndex'',
    ''target'', ''index'', ''input'', ''defineProperties'', ''apply'', ''join'', ''concat'', ''split'',
    ''construct'', ''getPrototypeOf'', ''setPrototypeOf'', ''isExtensible'', ''preventExtensions'',
    ''has'', ''deleteProperty'', ''defineProperty'', ''getOwnPropertyDescriptor'', ''ownKeys'',
    ''add'', ''done'', ''next'', ''values'', ''source'', ''flags'', ''global'', ''unicode'', ''raw'',
    ''new.target'', ''this.active_func'', ''<home_object>'', ''<computed_field>'',
    ''<static_computed_field>'', ''<class_fields_init>'', ''<brand>'', ''#constructor'', ''as'',
    ''from'', ''meta'', ''*default*'', ''*'', ''Module'', ''then'', ''resolve'', ''reject'',
    ''promise'', ''proxy'', ''revoke'', ''async'', ''exec'', ''groups'', ''status'', ''reason'',
    ''globalThis'', ''bigint'', ''bigfloat'', ''bigdecimal'', ''roundingMode'',
    ''maximumSignificantDigits'', ''maximumFractionDigits'', ''not-equal'', ''timed-out'', ''ok'',
    ''toJSON'', ''Object'', ''Array'', ''Error'', ''Number'', ''String'', ''Boolean'', ''Symbol'',
    ''Arguments'', ''Math'', ''JSON'', ''Date'', ''Function'', ''GeneratorFunction'',
    ''ForInIterator'', ''RegExp'', ''ArrayBuffer'', ''SharedArrayBuffer'', ''Uint8ClampedArray'',
    ''Int8Array'', ''Uint8Array'', ''Int16Array'', ''Uint16Array'', ''Int32Array'', ''Uint32Array'',
    ''BigInt64Array'', ''BigUint64Array'', ''Float32Array'', ''Float64Array'', ''DataView'',
    ''BigInt'', ''BigFloat'', ''BigFloatEnv'', ''BigDecimal'', ''OperatorSet'', ''Operators'', ''Map'',
    ''Set'', ''WeakMap'', ''WeakSet'', ''Map Iterator'', ''Set Iterator'', ''Array Iterator'',
    ''String Iterator'', ''RegExp String Iterator'', ''Generator'', ''Proxy'', ''Promise'',
    ''PromiseResolveFunction'', ''PromiseRejectFunction'', ''AsyncFunction'', ''AsyncFunctionResolve'',
    ''AsyncFunctionReject'', ''AsyncGeneratorFunction'', ''AsyncGenerator'', ''EvalError'',
    ''RangeError'', ''ReferenceError'', ''SyntaxError'', ''TypeError'', ''URIError'',
    ''InternalError'', ''<brand>'', ''Symbol.toPrimitive'', ''Symbol.iterator'', ''Symbol.match'',
    ''Symbol.matchAll'', ''Symbol.replace'', ''Symbol.search'', ''Symbol.split'',
    ''Symbol.toStringTag'', ''Symbol.isConcatSpreadable'', ''Symbol.hasInstance'', ''Symbol.species'',
    ''Symbol.unscopables'', ''Symbol.asyncIterator'', ''Symbol.operatorSet'']"

definition JS_ATOM_Private_brand :: nat where "JS_ATOM_Private_brand = 210"
definition JS_ATOM_Symbol_toPrimitive :: nat where "JS_ATOM_Symbol_toPrimitive = 211"

definition init_type :: "nat \<Rightarrow> nat" where
  "init_type i =
     (if i = JS_ATOM_Private_brand then JS_ATOM_TYPE_PRIVATE
      else if i \<ge> JS_ATOM_Symbol_toPrimitive then JS_ATOM_TYPE_SYMBOL else JS_ATOM_TYPE_STRING)"

text \<open>The bytes of a C string.\<close>

definition bytes_of :: "string \<Rightarrow> u8 list" where
  "bytes_of s = map of_char s"

fun init_loop :: "'w atom_mem \<Rightarrow> string list \<Rightarrow> nat \<Rightarrow> 'w atom_runtime \<Rightarrow> (bool \<times> 'w atom_runtime) res" where
  "init_loop M [] i rt = Inr (True, rt)"
| "init_loop M (p # ps) i rt =
     bnd (NewAtomInit M (bytes_of p) (init_type i) rt) (\<lambda>(v, rt).
       if v = JS_ATOM_NULL then Inr (False, rt) else init_loop M ps (i + 1) rt)"

definition JS_InitAtoms :: "'w atom_mem \<Rightarrow> 'w atom_runtime \<Rightarrow> (bool \<times> 'w atom_runtime) res" where
  "JS_InitAtoms M rt =
     bnd (JS_ResizeAtomHash M 256
       (rt\<lparr>atom_hash := [], atom_count := 0, atom_array := [], atom_free_index := 0\<rparr>)) (\<lambda>(ok, rt).
         if \<not> ok then Inr (False, rt) else init_loop M js_atom_init 1 rt)"

declare move_chain.simps [simp del] find_atom.simps [simp del] index_loop.simps [simp del] unlink.simps [simp del]
  find_atom8.simps [simp del]

section \<open>What a table holds\<close>

text \<open>The structure at an index, its link, and the links of the free list.\<close>

definition atom_at :: "'w atom_runtime \<Rightarrow> nat \<Rightarrow> atom_struct option" where
  "atom_at rt i =
     (if i < length (atom_array rt)
      then case atom_array rt ! i of Atom p \<Rightarrow> strings rt p | Free _ \<Rightarrow> None
      else None)"

definition link :: "'w atom_runtime \<Rightarrow> nat \<Rightarrow> nat option" where
  "link rt i = map_option hash_next (atom_at rt i)"

definition free_link :: "entry list \<Rightarrow> nat \<Rightarrow> nat option" where
  "free_link array i =
     (if i < length array then case array ! i of Atom _ \<Rightarrow> None | Free n \<Rightarrow> Some n else None)"

text \<open>A chain of indices by the links \<open>f\<close>, ended by 0.\<close>

fun chain :: "(nat \<Rightarrow> nat option) \<Rightarrow> nat \<Rightarrow> nat list \<Rightarrow> bool" where
  "chain f i [] \<longleftrightarrow> i = 0"
| "chain f i (k # ks) \<longleftrightarrow> i = k \<and> k \<noteq> 0 \<and> (\<exists>n. f k = Some n \<and> chain f n ks)"

lemma chain_cong: "(\<And>k. k \<in> set ks \<Longrightarrow> f k = g k) \<Longrightarrow> chain f i ks \<longleftrightarrow> chain g i ks"
  by (induction ks arbitrary: i) auto

lemma chain_nonzero: "chain f i ks \<Longrightarrow> 0 \<notin> set ks"
  by (induction ks arbitrary: i) auto

lemma chain_defined: "chain f i ks \<Longrightarrow> k \<in> set ks \<Longrightarrow> f k \<noteq> None"
  by (induction ks arbitrary: i) auto

lemma chain_unique: "chain f i ks \<Longrightarrow> chain f i ls \<Longrightarrow> ks = ls"
  by (induction ks arbitrary: i ls) (case_tac ls; fastforce)+

text \<open>
  Chains from the heads \<open>heads\<close> that hold the indices of \<open>D\<close>, each in the chain of its hash \<open>hv i\<close>;
  and the free list of an array.
\<close>

definition chains_for :: "(nat \<Rightarrow> nat option) \<Rightarrow> (nat \<Rightarrow> u32) \<Rightarrow> nat list \<Rightarrow> nat set \<Rightarrow> bool" where
  "chains_for f hv heads D \<longleftrightarrow> (\<forall>b < length heads.
     \<exists>ks. chain f (heads ! b) ks \<and> distinct ks \<and> set ks = {i \<in> D. bucket (length heads) (hv i) = b})"

definition free_for :: "entry list \<Rightarrow> nat \<Rightarrow> bool" where
  "free_for array i \<longleftrightarrow> (\<exists>fs. chain (free_link array) i fs \<and> distinct fs \<and> set fs = {i. free_link array i \<noteq> None})"

text \<open>
  The invariant. \<open>hashed rt\<close> are the atoms that belong into chains: all but symbols. An entry that is
  not free has a structure of its own, with the hash of its text, and there are no two equal strings
  of the same type. Every structure that is marked as an atom is in the table.
\<close>

definition hashed :: "'w atom_runtime \<Rightarrow> nat set" where
  "hashed rt = {i. \<exists>a. atom_at rt i = Some a \<and> atom_type a \<noteq> 3}"

definition hash_at :: "'w atom_runtime \<Rightarrow> nat \<Rightarrow> u32" where
  "hash_at rt i = hash (the (atom_at rt i))"

definition hash_ok :: "atom_struct \<Rightarrow> bool" where
  "hash_ok a \<longleftrightarrow> atom_type a \<in> {1, 2, 3} \<and>
     (atom_type a \<noteq> 3 \<longrightarrow> hash a = hash_string (chars a) (of_nat (atom_type a)) AND JS_ATOM_HASH_MASK) \<and>
     (atom_type a = 3 \<longrightarrow> hash a \<in> {JS_ATOM_HASH_SYMBOL, JS_ATOM_HASH_PRIVATE})"

definition array_inj :: "entry list \<Rightarrow> bool" where
  "array_inj array \<longleftrightarrow> (\<forall>i < length array. \<forall>j < length array. \<forall>p.
     array ! i = Atom p \<and> array ! j = Atom p \<longrightarrow> i = j)"

definition entries_ok :: "'w atom_runtime \<Rightarrow> bool" where
  "entries_ok rt \<longleftrightarrow>
     (\<forall>i < length (atom_array rt). \<forall>p. atom_array rt ! i = Atom p \<longrightarrow>
        (\<exists>a. strings rt p = Some a \<and> hash_ok a \<and> (atom_type a = 3 \<longrightarrow> hash_next a = i) \<and> (i = 0 \<longrightarrow> atom_type a = 3))) \<and>
     array_inj (atom_array rt) \<and>
     (\<forall>p a. strings rt p = Some a \<and> atom_type a \<noteq> 0 \<longrightarrow> Atom p \<in> set (atom_array rt))"

definition unique_ok :: "'w atom_runtime \<Rightarrow> bool" where
  "unique_ok rt \<longleftrightarrow> (\<forall>i j a b. atom_at rt i = Some a \<and> atom_at rt j = Some b \<and> atom_type a \<noteq> 3 \<and>
     atom_type a = atom_type b \<and> units (chars a) = units (chars b) \<longrightarrow> i = j)"

definition sizes_ok :: "'w atom_runtime \<Rightarrow> bool" where
  "sizes_ok rt \<longleftrightarrow> (\<exists>k. length (atom_hash rt) = 2 ^ k) \<and> length (atom_array rt) \<le> 2 ^ 29 \<and>
     atom_count rt = int (card {i. atom_at rt i \<noteq> None})"

definition table_ok :: "'w atom_runtime \<Rightarrow> bool" where
  "table_ok rt \<longleftrightarrow> chains_for (link rt) (hash_at rt) (atom_hash rt) (hashed rt) \<and>
     free_for (atom_array rt) (atom_free_index rt) \<and> entries_ok rt \<and> unique_ok rt \<and> sizes_ok rt"

end
