(* ===== verification/JsAtomTable.thy ===== *)
theory JsAtomTable
  imports JsAtom
begin

text \<open>
  The operations on the table of atoms keep its invariant, and have the effect of a map from indices
  to strings in which no string of a type is found twice.
\<close>

section \<open>Chains\<close>

lemma bucket_less: "n = 2 ^ k \<Longrightarrow> bucket n h < n"
  using take_bit_nat_less_exp [of k "unat h"]
  by (simp add: bucket_def mask_eq_exp_minus_1 take_bit_eq_mask)

lemma chains_for_cong:
  assumes same: "\<And>k. k \<in> D \<Longrightarrow> f k = g k \<and> hv k = hw k" and C: "chains_for f hv heads D"
  shows "chains_for g hw heads D"
  unfolding chains_for_def
proof (intro allI impI)
  fix b assume "b < length heads"
  then obtain ks where ks: "chain f (heads ! b) ks" "distinct ks" "set ks = {i \<in> D. bucket (length heads) (hv i) = b}"
    using C by (auto simp: chains_for_def)
  then have "chain g (heads ! b) ks" using same by (subst chain_cong [where g = f]) auto
  moreover have "set ks = {i \<in> D. bucket (length heads) (hw i) = b}" using ks(3) same by auto
  ultimately show "\<exists>ks. chain g (heads ! b) ks \<and> distinct ks \<and> set ks = {i \<in> D. bucket (length heads) (hw i) = b}"
    using ks(2) by blast
qed

lemma chains_for_in: "chains_for f hv heads D \<Longrightarrow> i \<in> D \<Longrightarrow> bucket (length heads) (hv i) < length heads \<Longrightarrow> i \<noteq> 0"
  unfolding chains_for_def by (metis (mono_tags, lifting) chain_nonzero mem_Collect_eq)

lemma chains_add:
  assumes C: "chains_for f hv heads D" and i: "i \<notin> D" "i \<noteq> 0"
    and same: "\<And>k. k \<in> D \<Longrightarrow> g k = f k \<and> hw k = hv k"
    and b: "b = bucket (length heads) (hw i)" "b < length heads" "g i = Some (heads ! b)"
  shows "chains_for g hw (heads[b := i]) (insert i D)"
  unfolding chains_for_def
proof (intro allI impI)
  fix c assume c: "c < length (heads[b := i])"
  then obtain ks where ks: "chain f (heads ! c) ks" "distinct ks"
    "set ks = {i \<in> D. bucket (length heads) (hv i) = c}"
    using C by (auto simp: chains_for_def)
  have sub: "set ks \<subseteq> D" using ks(3) by auto
  then have g: "chain g (heads ! c) ks" using ks(1) same by (subst chain_cong [where g = f]) auto
  have set_ks: "set ks = {i \<in> D. bucket (length heads) (hw i) = c}" using ks(3) same by auto
  show "\<exists>ks. chain g (heads[b := i] ! c) ks \<and> distinct ks \<and>
      set ks = {j \<in> insert i D. bucket (length (heads[b := i])) (hw j) = c}"
  proof (cases "c = b")
    case True
    then have "chain g (heads[b := i] ! c) (i # ks)" using g i b by simp
    moreover have "distinct (i # ks)" using ks(2) i sub by auto
    moreover have "set (i # ks) = {j \<in> insert i D. bucket (length (heads[b := i])) (hw j) = c}"
      using set_ks True b by auto
    ultimately show ?thesis by blast
  next
    case False
    then show ?thesis using g ks(2) set_ks b i by (intro exI [of _ ks]) auto
  qed
qed

lemma chain_skip:
  "chain f x (xs @ j # i # ys) \<Longrightarrow> distinct (xs @ j # i # ys) \<Longrightarrow> f i = Some n \<Longrightarrow>
   chain (f(j \<mapsto> n)) x (xs @ j # ys)"
proof (induction xs arbitrary: x)
  case Nil
  then have "chain (f(j \<mapsto> n)) n ys" by (subst chain_cong [where g = f]) auto
  then show ?case using Nil by (simp add: fun_upd_def)
next
  case (Cons k xs)
  then show ?case by auto
qed

lemma chains_remove_head:
  assumes C: "chains_for f hv heads D" and i: "i \<in> D" "heads ! b = i" "f i = Some n"
    and b: "b = bucket (length heads) (hv i)" "b < length heads"
  shows "chains_for f hv (heads[b := n]) (D - {i})"
  unfolding chains_for_def
proof (intro allI impI)
  fix c assume c: "c < length (heads[b := n])"
  then obtain ks where ks: "chain f (heads ! c) ks" "distinct ks"
    "set ks = {i \<in> D. bucket (length heads) (hv i) = c}"
    using C by (auto simp: chains_for_def)
  show "\<exists>ks. chain f (heads[b := n] ! c) ks \<and> distinct ks \<and>
      set ks = {j \<in> D - {i}. bucket (length (heads[b := n])) (hv j) = c}"
  proof (cases "c = b")
    case True
    then have "i \<in> set ks" using ks(3) i b by auto
    then obtain ls where ls: "ks = i # ls" using ks(1) True i by (cases ks) auto
    then have "chain f (heads[b := n] ! c) ls" using ks(1) True i b by simp
    moreover have "set ls = {j \<in> D - {i}. bucket (length (heads[b := n])) (hv j) = c}"
      using ks(2,3) ls by auto
    ultimately show ?thesis using ks(2) ls by auto
  next
    case False
    then show ?thesis using ks b i by (intro exI [of _ ks]) auto
  qed
qed

lemma chains_remove_next:
  assumes C: "chains_for f hv heads D"
    and ks: "chain f (heads ! b) (xs @ j # i # ys)" "f i = Some n" and b: "b < length heads"
  shows "chains_for (f(j \<mapsto> n)) hv heads (D - {i})"
  unfolding chains_for_def
proof (intro allI impI)
  fix c assume c: "c < length heads"
  obtain ls where ls: "chain f (heads ! b) ls" "distinct ls" "set ls = {i \<in> D. bucket (length heads) (hv i) = b}"
    using C b by (auto simp: chains_for_def)
  then have ls_eq: "ls = xs @ j # i # ys" using ks(1) chain_unique by blast
  obtain ms where ms: "chain f (heads ! c) ms" "distinct ms" "set ms = {i \<in> D. bucket (length heads) (hv i) = c}"
    using C c by (auto simp: chains_for_def)
  show "\<exists>ks. chain (f(j \<mapsto> n)) (heads ! c) ks \<and> distinct ks \<and>
      set ks = {k \<in> D - {i}. bucket (length heads) (hv k) = c}"
  proof (cases "c = b")
    case True
    have "chain (f(j \<mapsto> n)) (heads ! b) (xs @ j # ys)"
      using ks ls(2) unfolding ls_eq by (intro chain_skip) auto
    moreover have "set (xs @ j # ys) = {k \<in> D - {i}. bucket (length heads) (hv k) = b}"
      using ls(2,3) unfolding ls_eq by auto
    ultimately show ?thesis using ls(2) True unfolding ls_eq by (intro exI [of _ "xs @ j # ys"]) auto
  next
    case False
    have "j \<in> set ls" "i \<in> set ls" by (auto simp: ls_eq)
    then have "j \<notin> set ms" "i \<notin> set ms" using ls(3) ms(3) False by auto
    then have "chain (f(j \<mapsto> n)) (heads ! c) ms"
      using ms(1) by (subst chain_cong [where g = f]) auto
    moreover have "set ms = {k \<in> D - {i}. bucket (length heads) (hv k) = c}"
      using \<open>i \<notin> set ms\<close> ms(3) by auto
    ultimately show ?thesis using ms(2) by blast
  qed
qed

section \<open>The free list\<close>

lemma free_link_update:
  "i < length array \<Longrightarrow> free_link (array[i := e]) = (free_link array)(i := (case e of Atom _ \<Rightarrow> None | Free n \<Rightarrow> Some n))"
  by (auto simp: free_link_def nth_list_update fun_eq_iff split: entry.splits)

lemma free_push:
  assumes "free_for array f" and "i < length array" and "i \<noteq> 0" and "array ! i = Atom p"
  shows "free_for (array[i := Free f]) i"
proof -
  obtain fs where fs: "chain (free_link array) f fs" "distinct fs" "set fs = {i. free_link array i \<noteq> None}"
    using assms(1) by (auto simp: free_for_def)
  have i: "i \<notin> set fs" using fs(3) assms(4) by (simp add: free_link_def)
  then have "chain ((free_link array)(i := Some f)) i (i # fs)"
    using fs(1) assms(3) by (simp, subst chain_cong [where g = "free_link array"]) auto
  then show ?thesis
    unfolding free_for_def free_link_update [OF assms(2)]
    using fs(2,3) i by (intro exI [of _ "i # fs"]) auto
qed

lemma free_pop:
  assumes "free_for array i" and "i \<noteq> 0"
  shows "\<exists>n. i < length array \<and> array ! i = Free n \<and> free_for (array[i := Atom p]) n"
proof -
  obtain fs where fs: "chain (free_link array) i fs" "distinct fs" "set fs = {i. free_link array i \<noteq> None}"
    using assms(1) by (auto simp: free_for_def)
  then obtain n gs where gs: "fs = i # gs" "free_link array i = Some n" "chain (free_link array) n gs"
    using assms(2) by (cases fs) auto
  then have i: "i < length array" "array ! i = Free n" by (auto simp: free_link_def split: if_splits entry.splits)
  have "chain ((free_link array)(i := None)) n gs"
    using gs fs(2) by (subst chain_cong [where g = "free_link array"]) auto
  then show ?thesis
    using i fs(2,3) gs(1) unfolding free_for_def free_link_update [OF i(1)]
    by (intro exI [of _ n] conjI) (auto intro!: exI [of _ gs])
qed

lemma chain_free_entries:
  assumes "0 < start" and "start \<le> n"
    and that: "start \<le> k" "k \<le> n" "length array = start"
  shows "chain (free_link (array @ free_entries start n)) (if k = n then 0 else k) [k ..< n]"
  using that(2,1)
proof (induction rule: inc_induct)
  case base
  then show ?case by simp
next
  case (step k)
  have "free_link (array @ free_entries start n) k = Some (if k = n - 1 then 0 else k + 1)"
    using step that(3) by (simp add: free_link_def nth_append free_entries_def)
  then show ?case
    using step assms by (subst upt_conv_Cons) (auto split: if_splits)
qed

lemma free_grow:
  assumes "\<And>e. e \<in> set array \<Longrightarrow> \<exists>p. e = Atom p" and "array \<noteq> []" and "length array < n"
  shows "free_for (array @ free_entries (length array) n) (length array)"
proof -
  let ?a = "array @ free_entries (length array) n"
  have "chain (free_link ?a) (length array) [length array ..< n]"
    using chain_free_entries [of "length array" n "length array" array] assms(2,3) by simp
  moreover have "set [length array ..< n] = {i. free_link ?a i \<noteq> None}"
  proof (rule set_eqI)
    fix i
    show "i \<in> set [length array ..< n] \<longleftrightarrow> i \<in> {i. free_link ?a i \<noteq> None}"
      using assms(1) [of "array ! i"] assms(3)
      by (cases "i < length array") (auto simp: free_link_def nth_append free_entries_def)
  qed
  ultimately show ?thesis by (auto simp: free_for_def intro!: exI [of _ "[length array ..< n]"])
qed

section \<open>Entries and structures\<close>

lemma atom_atE:
  assumes "atom_at rt i = Some a"
  obtains p where "i < length (atom_array rt)" "atom_array rt ! i = Atom p" "strings rt p = Some a"
  using assms by (auto simp: atom_at_def split: if_splits entry.splits)

lemma atom_ptr_at: "i < length (atom_array rt) \<Longrightarrow> atom_array rt ! i = Atom p \<Longrightarrow> atom_ptr rt i = Inr p"
  by (simp add: atom_ptr_def)

lemma deref_Some: "strings rt p = Some a \<Longrightarrow> deref rt p = Inr a"
  by (simp add: deref_def)

lemma deref_eq: "deref rt p = Inr a \<longleftrightarrow> strings rt p = Some a"
  by (auto simp: deref_def split: option.splits)

lemma put_simps [simp]:
  "atom_hash (put p a rt) = atom_hash rt" "atom_array (put p a rt) = atom_array rt"
  "atom_count (put p a rt) = atom_count rt" "atom_count_resize (put p a rt) = atom_count_resize rt"
  "atom_free_index (put p a rt) = atom_free_index rt" "strings (put p a rt) = (strings rt)(p \<mapsto> a)"
  by (simp_all add: put_def)

lemma entries_inj: "entries_ok rt \<Longrightarrow> array_inj (atom_array rt)"
  by (simp add: entries_ok_def)

lemma array_injD: "array_inj array \<Longrightarrow> i < length array \<Longrightarrow> j < length array \<Longrightarrow> array ! i = Atom p \<Longrightarrow> array ! j = Atom p \<Longrightarrow> i = j"
  unfolding array_inj_def by blast

lemma array_inj_free: "array_inj array \<Longrightarrow> array_inj (array[i := Free n])"
  unfolding array_inj_def by (metis entry.distinct(1) length_list_update nth_list_update_eq nth_list_update_neq)

lemma array_inj_entry:
  "array_inj array \<Longrightarrow> Atom p \<notin> set array \<Longrightarrow> array_inj (array[i := Atom p])"
  unfolding array_inj_def
  by (metis entry.inject(2) length_list_update nth_list_update_eq nth_list_update_neq nth_mem)

lemma entries_ex: "entries_ok rt \<Longrightarrow> i < length (atom_array rt) \<Longrightarrow> atom_array rt ! i = Atom p \<Longrightarrow>
   \<exists>a. strings rt p = Some a \<and> hash_ok a \<and> (atom_type a = 3 \<longrightarrow> hash_next a = i) \<and> (i = 0 \<longrightarrow> atom_type a = 3)"
  unfolding entries_ok_def by blast

lemma entries_struct:
  assumes "entries_ok rt" and "i < length (atom_array rt)" and "atom_array rt ! i = Atom p"
  obtains a where "strings rt p = Some a" "hash_ok a" "atom_type a = 3 \<Longrightarrow> hash_next a = i" "i = 0 \<Longrightarrow> atom_type a = 3"
    "atom_at rt i = Some a"
proof -
  have "\<exists>a. strings rt p = Some a \<and> hash_ok a \<and> (atom_type a = 3 \<longrightarrow> hash_next a = i) \<and> (i = 0 \<longrightarrow> atom_type a = 3)"
    using assms unfolding entries_ok_def by blast
  then show thesis using that assms(2,3) by (auto simp: atom_at_def)
qed

lemma entries_marked:
  assumes "entries_ok rt" and "strings rt p = Some a" and "atom_type a \<noteq> 0"
  shows "\<exists>i < length (atom_array rt). atom_array rt ! i = Atom p"
proof -
  have "Atom p \<in> set (atom_array rt)" using assms unfolding entries_ok_def by blast
  then show ?thesis by (simp add: in_set_conv_nth)
qed

lemma atom_at_put:
  assumes "array_inj (atom_array rt)" and "i < length (atom_array rt)" and "atom_array rt ! i = Atom p"
  shows "atom_at (put p a rt) = (atom_at rt)(i \<mapsto> a)"
  using assms by (auto simp: fun_eq_iff atom_at_def dest: array_injD split: entry.splits)

text \<open>A structure without its link; the states that differ in links only.\<close>

definition unlinked :: "atom_struct \<Rightarrow> atom_struct" where
  "unlinked a = a\<lparr>hash_next := 0\<rparr>"

definition view :: "'w atom_runtime \<Rightarrow> ptr \<Rightarrow> atom_struct option" where
  "view rt p = map_option unlinked (strings rt p)"

lemma unlinked_simps [simp]:
  "unlinked (a\<lparr>hash_next := n\<rparr>) = unlinked a"
  "header_ref_count (unlinked a) = header_ref_count a" "chars (unlinked a) = chars a"
  "atom_type (unlinked a) = atom_type a" "hash (unlinked a) = hash a"
  by (simp_all add: unlinked_def)

lemma unlinked_eq:
  "unlinked a = unlinked b \<longleftrightarrow> header_ref_count a = header_ref_count b \<and> chars a = chars b \<and>
     atom_type a = atom_type b \<and> hash a = hash b"
  by (cases a; cases b) (simp add: unlinked_def)

lemma view_put: "view (put p a rt) = (view rt)(p \<mapsto> unlinked a)"
  by (auto simp: view_def fun_eq_iff)

lemma atom_at_view: "map_option unlinked (atom_at rt i) =
   (if i < length (atom_array rt) then case atom_array rt ! i of Atom p \<Rightarrow> view rt p | Free _ \<Rightarrow> None else None)"
  by (auto simp: atom_at_def view_def split: entry.splits)

lemma same_view_atom:
  assumes "atom_array rt' = atom_array rt" and "view rt' = view rt"
  shows "map_option unlinked (atom_at rt' i) = map_option unlinked (atom_at rt i)"
  using assms by (simp add: atom_at_view cong: entry.case_cong)

lemma same_view_Some:
  assumes "atom_array rt' = atom_array rt" and "view rt' = view rt" and "atom_at rt i = Some a"
  obtains b where "atom_at rt' i = Some b" "unlinked b = unlinked a"
  using same_view_atom [OF assms(1,2), of i] assms(3) by auto

lemma same_view_hashed:
  assumes "atom_array rt' = atom_array rt" and "view rt' = view rt"
  shows "hashed rt' = hashed rt" "i \<in> hashed rt \<Longrightarrow> hash_at rt' i = hash_at rt i"
    "{i. atom_at rt' i \<noteq> None} = {i. atom_at rt i \<noteq> None}"
proof -
  have *: "(\<exists>a. atom_at rt' i = Some a \<and> P (unlinked a)) \<longleftrightarrow> (\<exists>a. atom_at rt i = Some a \<and> P (unlinked a))" for i P
    using same_view_atom [OF assms, of i] by (cases "atom_at rt i"; cases "atom_at rt' i") auto
  show "hashed rt' = hashed rt"
    using * [of _ "\<lambda>a. atom_type a \<noteq> 3"] by (simp add: hashed_def)
  show "i \<in> hashed rt \<Longrightarrow> hash_at rt' i = hash_at rt i"
    using same_view_atom [OF assms, of i] by (auto simp: hashed_def hash_at_def unlinked_eq)
  show "{i. atom_at rt' i \<noteq> None} = {i. atom_at rt i \<noteq> None}"
    using * [of _ "\<lambda>_. True"] by auto
qed

lemma same_view_unique:
  assumes "atom_array rt' = atom_array rt" and "view rt' = view rt" and "unique_ok rt"
  shows "unique_ok rt'"
  unfolding unique_ok_def
proof (intro allI impI, elim conjE)
  fix i j a b assume ab: "atom_at rt' i = Some a" "atom_at rt' j = Some b" "atom_type a \<noteq> 3"
    "atom_type a = atom_type b" "units (chars a) = units (chars b)"
  obtain a' where a': "atom_at rt i = Some a'" "unlinked a' = unlinked a"
    using same_view_atom [OF assms(1,2), of i] ab(1) by (cases "atom_at rt i") auto
  obtain b' where b': "atom_at rt j = Some b'" "unlinked b' = unlinked b"
    using same_view_atom [OF assms(1,2), of j] ab(2) by (cases "atom_at rt j") auto
  show "i = j"
    using assms(3) a' b' ab(3-5) unfolding unique_ok_def unlinked_eq by metis
qed

text \<open>Changing the link of one atom.\<close>

lemma view_relink: "strings rt p = Some a \<Longrightarrow> view (put p (a\<lparr>hash_next := n\<rparr>) rt) = view rt"
  by (auto simp: view_put fun_eq_iff) (simp add: view_def)

lemma link_relink:
  assumes "array_inj (atom_array rt)" and "i < length (atom_array rt)" and "atom_array rt ! i = Atom p"
  shows "link (put p (a\<lparr>hash_next := n\<rparr>) rt) = (link rt)(i \<mapsto> n)"
  using assms by (auto simp: link_def atom_at_put)

lemma hashed_atom: "i \<in> hashed rt \<Longrightarrow> \<exists>a. atom_at rt i = Some a \<and> atom_type a \<noteq> 3 \<and> hash_at rt i = hash a \<and> link rt i = Some (hash_next a)"
  by (auto simp: hashed_def hash_at_def link_def)

section \<open>Rehashing\<close>

lemma move_chain_step:
  assumes "0 < h" and "atom_at rt h = Some a" and "array_inj (atom_array rt)"
    and "bucket (length new) (hash a) < length new"
  obtains p where "h < length (atom_array rt)" "atom_array rt ! h = Atom p" "strings rt p = Some a"
    "move_chain (Suc fuel) rt new h =
       move_chain fuel (put p (a\<lparr>hash_next := new ! bucket (length new) (hash a)\<rparr>) rt)
         (new[bucket (length new) (hash a) := h]) (hash_next a)"
proof -
  obtain p where p: "h < length (atom_array rt)" "atom_array rt ! h = Atom p" "strings rt p = Some a"
    using assms(2) by (elim atom_atE)
  have "move_chain (Suc fuel) rt new h =
       move_chain fuel (put p (a\<lparr>hash_next := new ! bucket (length new) (hash a)\<rparr>) rt)
         (new[bucket (length new) (hash a) := h]) (hash_next a)"
    using assms(1,4) by (subst move_chain.simps) (simp add: atom_ptr_at [OF p(1,2)] deref_Some [OF p(3)] Let_def)
  then show thesis using that p by blast
qed

lemma move_chain_moves:
  assumes "chain (link rt) h ks" and "distinct ks" and "set ks \<inter> D = {}" and "set ks \<subseteq> hashed rt"
    and "D \<subseteq> hashed rt" and "length ks \<le> fuel" and "array_inj (atom_array rt)"
    and "chains_for (link rt) (hash_at rt) new D" and "length new = 2 ^ k"
  shows "\<exists>S new'. move_chain fuel rt new h = Inr (rt\<lparr>strings := S\<rparr>, new') \<and> view (rt\<lparr>strings := S\<rparr>) = view rt \<and>
    length new' = length new \<and>
    chains_for (link (rt\<lparr>strings := S\<rparr>)) (hash_at (rt\<lparr>strings := S\<rparr>)) new' (D \<union> set ks) \<and>
    (\<forall>i. i \<notin> set ks \<longrightarrow> link (rt\<lparr>strings := S\<rparr>) i = link rt i)"
  using assms
proof (induction ks arbitrary: fuel rt new h D)
  case Nil
  then show ?case by (intro exI [of _ "strings rt"] exI [of _ new]) (simp add: move_chain.simps)
next
  case (Cons i ks)
  have h: "h = i" "0 < i" using Cons.prems(1) by auto
  obtain a where a: "atom_at rt i = Some a" "atom_type a \<noteq> 3" "hash_at rt i = hash a" "link rt i = Some (hash_next a)"
    using Cons.prems(4) hashed_atom [of i rt] by auto
  have rest: "chain (link rt) (hash_next a) ks" using Cons.prems(1) a(4) by auto
  let ?b = "bucket (length new) (hash a)"
  have b: "?b < length new" using Cons.prems(9) by (rule bucket_less)
  obtain f where f: "fuel = Suc f" using Cons.prems(6) by (cases fuel) auto
  obtain p where p: "i < length (atom_array rt)" "atom_array rt ! i = Atom p" "strings rt p = Some a"
    "move_chain (Suc f) rt new i = move_chain f (put p (a\<lparr>hash_next := new ! ?b\<rparr>) rt) (new[?b := i]) (hash_next a)"
    using move_chain_step [OF h(2) a(1) Cons.prems(7) b, of f] by blast
  define rt1 where "rt1 = put p (a\<lparr>hash_next := new ! ?b\<rparr>) rt"
  have view1: "view rt1 = view rt" unfolding rt1_def by (rule view_relink [OF p(3)])
  have arr1: "atom_array rt1 = atom_array rt" by (simp add: rt1_def)
  have link1: "link rt1 = (link rt)(i \<mapsto> new ! ?b)"
    unfolding rt1_def by (rule link_relink [OF Cons.prems(7) p(1,2)])
  note hashed1 = same_view_hashed [OF arr1 view1]
  have "chains_for (link rt1) (hash_at rt1) (new[?b := i]) (insert i D)"
  proof (rule chains_add [OF Cons.prems(8)])
    show "i \<notin> D" using Cons.prems(3) by auto
    show "?b = bucket (length new) (hash_at rt1 i)" using hashed1(2) a(3) Cons.prems(4) by auto
    show "link rt1 k = link rt k \<and> hash_at rt1 k = hash_at rt k" if "k \<in> D" for k
      using that link1 hashed1(2) Cons.prems(3,5) by auto
  qed (use h b link1 in auto)
  moreover have "chain (link rt1) (hash_next a) ks"
    using rest Cons.prems(2) link1 by (subst chain_cong [where g = "link rt"]) auto
  ultimately obtain S new' where S: "move_chain f rt1 (new[?b := i]) (hash_next a) = Inr (rt1\<lparr>strings := S\<rparr>, new')"
    "view (rt1\<lparr>strings := S\<rparr>) = view rt1" "length new' = length new"
    "chains_for (link (rt1\<lparr>strings := S\<rparr>)) (hash_at (rt1\<lparr>strings := S\<rparr>)) new' (insert i D \<union> set ks)"
    "\<forall>j. j \<notin> set ks \<longrightarrow> link (rt1\<lparr>strings := S\<rparr>) j = link rt1 j"
    using Cons.IH [of rt1 "hash_next a" "insert i D" f "new[?b := i]"] Cons.prems f hashed1(1) arr1 by force
  have eq: "rt1\<lparr>strings := S\<rparr> = rt\<lparr>strings := S\<rparr>" by (simp add: rt1_def put_def)
  show ?case
    using S view1 link1 p(4) h f unfolding eq rt1_def [symmetric]
    by (intro exI [of _ S] exI [of _ new']) auto
qed

lemma hashed_bound: "hashed rt \<subseteq> {..< length (atom_array rt)}"
  by (auto simp: hashed_def elim: atom_atE)

lemma chain_length_le:
  assumes "distinct ks" and "set ks \<subseteq> hashed rt"
  shows "length ks \<le> length (atom_array rt)"
proof -
  have "card (set ks) \<le> card {..< length (atom_array rt)}"
    using assms(2) hashed_bound by (intro card_mono) auto
  then show ?thesis using distinct_card [OF assms(1)] by simp
qed

lemma same_view_entries:
  assumes "atom_array rt' = atom_array rt" and "view rt' = view rt" and "entries_ok rt"
    and "\<And>i. i \<notin> hashed rt \<Longrightarrow> link rt' i = link rt i"
  shows "entries_ok rt'"
  unfolding entries_ok_def assms(1)
proof (intro conjI allI impI)
  show "array_inj (atom_array rt)" using assms(3) by (rule entries_inj)
next
  fix i p assume i: "i < length (atom_array rt)" "atom_array rt ! i = Atom p"
  obtain a where a: "strings rt p = Some a" "hash_ok a" "atom_type a = 3 \<Longrightarrow> hash_next a = i" "i = 0 \<Longrightarrow> atom_type a = 3"
    "atom_at rt i = Some a"
    using entries_struct [OF assms(3) i] by blast
  have "view rt' p = Some (unlinked a)" using a(1) by (simp add: assms(2)) (simp add: view_def)
  then obtain b where b: "strings rt' p = Some b" "unlinked b = unlinked a" by (auto simp: view_def)
  have at': "atom_at rt' i = Some b" using b(1) i assms(1) by (simp add: atom_at_def)
  have "hash_next b = i" if "atom_type b = 3"
  proof -
    have "i \<notin> hashed rt" using that b(2) a(5) by (simp add: hashed_def unlinked_eq)
    then show ?thesis using assms(4) [of i] a(3,5) at' that b(2) by (simp add: link_def unlinked_eq)
  qed
  then show "\<exists>a. strings rt' p = Some a \<and> hash_ok a \<and> (atom_type a = 3 \<longrightarrow> hash_next a = i) \<and> (i = 0 \<longrightarrow> atom_type a = 3)"
    using b a(2,4) by (auto simp: unlinked_eq hash_ok_def)
next
  fix p b assume "strings rt' p = Some b \<and> atom_type b \<noteq> 0"
  moreover then have "view rt p = Some (unlinked b)" by (simp add: assms(2) [symmetric] view_def)
  then obtain a where "strings rt p = Some a" "unlinked a = unlinked b" by (auto simp: view_def)
  ultimately show "Atom p \<in> set (atom_array rt)"
    using assms(3) unfolding entries_ok_def by (metis unlinked_eq)
qed

lemma move_chains_moves:
  assumes "list_all2 (chain (link rt)) hs kss" and "distinct (concat kss)" and "set (concat kss) \<inter> D = {}"
    and "set (concat kss) \<subseteq> hashed rt" and "D \<subseteq> hashed rt" and "array_inj (atom_array rt)"
    and "chains_for (link rt) (hash_at rt) new D" and "length new = 2 ^ k"
  shows "\<exists>S new'. move_chains hs rt new = Inr (rt\<lparr>strings := S\<rparr>, new') \<and> view (rt\<lparr>strings := S\<rparr>) = view rt \<and>
    length new' = length new \<and>
    chains_for (link (rt\<lparr>strings := S\<rparr>)) (hash_at (rt\<lparr>strings := S\<rparr>)) new' (D \<union> set (concat kss)) \<and>
    (\<forall>i. i \<notin> set (concat kss) \<longrightarrow> link (rt\<lparr>strings := S\<rparr>) i = link rt i)"
  using assms
proof (induction hs arbitrary: kss rt new D)
  case Nil
  then show ?case by (intro exI [of _ "strings rt"] exI [of _ new]) simp
next
  case (Cons h hs)
  then obtain ks kss' where kss: "kss = ks # kss'" "chain (link rt) h ks" "list_all2 (chain (link rt)) hs kss'"
    by (auto simp: list_all2_Cons1)
  have sub: "set ks \<subseteq> hashed rt" "distinct ks" "set ks \<inter> D = {}" using Cons.prems kss(1) by auto
  obtain S new1 where S: "move_chain (length (atom_array rt)) rt new h = Inr (rt\<lparr>strings := S\<rparr>, new1)"
    "view (rt\<lparr>strings := S\<rparr>) = view rt" "length new1 = length new"
    "chains_for (link (rt\<lparr>strings := S\<rparr>)) (hash_at (rt\<lparr>strings := S\<rparr>)) new1 (D \<union> set ks)"
    "\<forall>i. i \<notin> set ks \<longrightarrow> link (rt\<lparr>strings := S\<rparr>) i = link rt i"
    using move_chain_moves [OF kss(2) sub(2,3,1) Cons.prems(5) chain_length_le [OF sub(2,1)] Cons.prems(6,7,8)] by blast
  define rt1 where "rt1 = rt\<lparr>strings := S\<rparr>"
  note S = S [folded rt1_def]
  have arr1: "atom_array rt1 = atom_array rt" by (simp add: rt1_def)
  note hashed1 = same_view_hashed(1) [OF arr1 S(2)]
  have "list_all2 (chain (link rt1)) hs kss'"
  proof (rule list_all2_mono [OF kss(3), THEN list.rel_mono_strong])
    fix h ls assume "chain (link rt) h ls" "ls \<in> set kss'"
    moreover have "set ls \<inter> set ks = {}" using Cons.prems(2) kss(1) \<open>ls \<in> set kss'\<close> by auto
    ultimately show "chain (link rt1) h ls" using S(5) by (subst chain_cong [where g = "link rt"]) auto
  qed
  moreover have disjoint: "set (concat kss') \<inter> (D \<union> set ks) = {}" using Cons.prems(2,3) kss(1) by auto
  ultimately obtain S' new2 where S': "move_chains hs rt1 new1 = Inr (rt1\<lparr>strings := S'\<rparr>, new2)"
    "view (rt1\<lparr>strings := S'\<rparr>) = view rt1" "length new2 = length new1"
    "chains_for (link (rt1\<lparr>strings := S'\<rparr>)) (hash_at (rt1\<lparr>strings := S'\<rparr>)) new2 ((D \<union> set ks) \<union> set (concat kss'))"
    "\<forall>i. i \<notin> set (concat kss') \<longrightarrow> link (rt1\<lparr>strings := S'\<rparr>) i = link rt1 i"
    using Cons.IH [of rt1 kss' "D \<union> set ks" new1, OF _ _ disjoint] Cons.prems kss(1) S(3,4) hashed1 arr1 sub by auto
  have eq: "rt1\<lparr>strings := S'\<rparr> = rt\<lparr>strings := S'\<rparr>" by (simp add: rt1_def)
  show ?case
    using S S' kss(1) unfolding eq by (intro exI [of _ S'] exI [of _ new2]) (auto simp: Un_assoc)
qed

lemma chains_for_lists:
  assumes "chains_for f hv heads D" and "\<And>i. bucket (length heads) (hv i) < length heads"
  obtains kss where "list_all2 (chain f) heads kss" "distinct (concat kss)" "set (concat kss) = D"
proof -
  obtain ks where ks: "\<And>b. b < length heads \<Longrightarrow> chain f (heads ! b) (ks b) \<and> distinct (ks b) \<and>
      set (ks b) = {i \<in> D. bucket (length heads) (hv i) = b}"
    using assms(1) unfolding chains_for_def by metis
  let ?kss = "map ks [0 ..< length heads]"
  have "list_all2 (chain f) heads ?kss" using ks by (auto simp: list_all2_conv_all_nth)
  moreover have "set (concat ?kss) = D"
  proof (rule set_eqI)
    fix i
    show "i \<in> set (concat ?kss) \<longleftrightarrow> i \<in> D" using ks assms(2) [of i] by fastforce
  qed
  moreover have "distinct (concat (map ks [0 ..< n]))" if "n \<le> length heads" for n
    using that
  proof (induction n)
    case (Suc n)
    have "set (ks n) \<inter> set (ks b) = {}" if "b < n" for b
      using ks [of n] ks [of b] that Suc.prems by auto
    then show ?case using Suc ks [of n] by fastforce
  qed simp
  ultimately show thesis using that by blast
qed

lemma chains_for_empty: "chains_for f hv (replicate n 0) {}"
  by (auto simp: chains_for_def intro!: exI [of _ "[]"])

lemma table_okD:
  assumes "table_ok rt"
  shows "chains_for (link rt) (hash_at rt) (atom_hash rt) (hashed rt)"
    "free_for (atom_array rt) (atom_free_index rt)" "entries_ok rt" "unique_ok rt" "sizes_ok rt"
    "array_inj (atom_array rt)" "bucket (length (atom_hash rt)) h < length (atom_hash rt)"
  using assms bucket_less [of "length (atom_hash rt)" _ h] by (auto simp: table_ok_def sizes_ok_def entries_inj)

lemma power_of_two: "(2 ^ k :: nat) AND (2 ^ k - 1) = 0"
  using take_bit_eq_mask [of k "2 ^ k :: nat"] by (simp add: mask_eq_exp_minus_1)

lemma atom_at_same: "atom_array rt' = atom_array rt \<Longrightarrow> strings rt' = strings rt \<Longrightarrow> atom_at rt' = atom_at rt"
  by (auto simp: atom_at_def fun_eq_iff cong: entry.case_cong)

lemma outside_simps [simp]:
  "atom_at (rt\<lparr>outside := w\<rparr>) = atom_at rt" "view (rt\<lparr>outside := w\<rparr>) = view rt" "link (rt\<lparr>outside := w\<rparr>) = link rt"
  "hash_at (rt\<lparr>outside := w\<rparr>) = hash_at rt" "hashed (rt\<lparr>outside := w\<rparr>) = hashed rt"
proof -
  show at: "atom_at (rt\<lparr>outside := w\<rparr>) = atom_at rt" by (rule atom_at_same) simp_all
  show "view (rt\<lparr>outside := w\<rparr>) = view rt" "link (rt\<lparr>outside := w\<rparr>) = link rt"
    "hash_at (rt\<lparr>outside := w\<rparr>) = hash_at rt" "hashed (rt\<lparr>outside := w\<rparr>) = hashed rt"
    by (simp_all add: at fun_eq_iff view_def link_def hash_at_def hashed_def)
qed

lemma table_ok_outside [simp]: "table_ok (rt\<lparr>outside := w\<rparr>) = table_ok rt"
  by (simp add: table_ok_def entries_ok_def unique_ok_def sizes_ok_def)

lemma resize_keeps:
  assumes "table_ok rt"
  shows "\<exists>ok rt'. JS_ResizeAtomHash M (length (atom_hash rt) * 2) rt = Inr (ok, rt') \<and> table_ok rt' \<and>
    atom_array rt' = atom_array rt \<and> view rt' = view rt \<and> atom_free_index rt' = atom_free_index rt"
proof -
  note ok = table_okD [OF assms]
  obtain k where k: "length (atom_hash rt) * 2 = 2 ^ Suc k" using ok(5) by (auto simp: sizes_ok_def)
  have assert: "\<not> (length (atom_hash rt) * 2 AND (length (atom_hash rt) * 2 - 1) \<noteq> 0)"
    unfolding k by (simp only: power_of_two)
  obtain b w where w: "alloc_table M (4 * (length (atom_hash rt) * 2)) (outside rt) = (b, w)" by fastforce
  let ?rt = "rt\<lparr>outside := w\<rparr>"
  show ?thesis
  proof (cases b)
    case False
    then show ?thesis using assms w assert by (auto simp add: JS_ResizeAtomHash_def)
  next
    case True
    let ?new = "replicate (length (atom_hash rt) * 2) (0 :: nat)"
    obtain kss where kss: "list_all2 (chain (link rt)) (atom_hash rt) kss" "distinct (concat kss)"
      "set (concat kss) = hashed rt"
      using chains_for_lists [OF ok(1) ok(7)] by blast
    have len: "length ?new = 2 ^ Suc k" using k by simp
    obtain S new' where S: "move_chains (atom_hash rt) ?rt ?new = Inr (?rt\<lparr>strings := S\<rparr>, new')"
      "view (?rt\<lparr>strings := S\<rparr>) = view ?rt" "length new' = length ?new"
      "chains_for (link (?rt\<lparr>strings := S\<rparr>)) (hash_at (?rt\<lparr>strings := S\<rparr>)) new' ({} \<union> set (concat kss))"
      "\<forall>i. i \<notin> set (concat kss) \<longrightarrow> link (?rt\<lparr>strings := S\<rparr>) i = link ?rt i"
      using move_chains_moves [of ?rt "atom_hash rt" kss "{}" ?new, OF _ kss(2) _ _ _ _ chains_for_empty len]
        kss(1,3) ok(6) by auto
    define rt' where "rt' = rt\<lparr>strings := S, outside := release M w, atom_hash := new',
      atom_count_resize := JS_ATOM_COUNT_RESIZE (length (atom_hash rt) * 2)\<rparr>"
    have res: "JS_ResizeAtomHash M (length (atom_hash rt) * 2) rt = Inr (True, rt')"
      using True w assert S(1) by (simp add: JS_ResizeAtomHash_def rt'_def)
    have at': "atom_at rt' = atom_at (?rt\<lparr>strings := S\<rparr>)"
      by (rule atom_at_same) (simp_all add: rt'_def)
    have links: "link rt' = link (?rt\<lparr>strings := S\<rparr>)" "hash_at rt' = hash_at (?rt\<lparr>strings := S\<rparr>)"
      using at' by (auto simp: fun_eq_iff link_def hash_at_def)
    have view': "view rt' = view rt" using S(2) by (auto simp: fun_eq_iff view_def rt'_def)
    have arr': "atom_array rt' = atom_array rt" by (simp add: rt'_def)
    note same' = same_view_hashed [OF arr' view']
    have "entries_ok rt'"
      using S(5) kss(3) links by (intro same_view_entries [OF arr' view' ok(3)]) auto
    moreover have "unique_ok rt'" by (rule same_view_unique [OF arr' view' ok(4)])
    moreover have "sizes_ok rt'"
    proof -
      have "length (atom_hash rt') = 2 ^ Suc k" using S(3) len by (simp add: rt'_def)
      moreover have "atom_count rt' = atom_count rt" by (simp add: rt'_def)
      ultimately show ?thesis using ok(5) same'(3) arr' unfolding sizes_ok_def by metis
    qed
    moreover have "chains_for (link rt') (hash_at rt') (atom_hash rt') (hashed rt')"
      using S(4) kss(3) same'(1) links by (simp add: rt'_def)
    moreover have "free_for (atom_array rt') (atom_free_index rt')" using ok(2) by (simp add: rt'_def)
    ultimately have "table_ok rt'" by (simp add: table_ok_def)
    then show ?thesis using res view' arr' by (auto simp: rt'_def)
  qed
qed

lemma link_Some: "link rt k = Some n \<longleftrightarrow> (\<exists>a. atom_at rt k = Some a \<and> n = hash_next a)"
  by (auto simp: link_def)

section \<open>Search\<close>

lemma same_string_memcmp:
  assumes "js_len a = js_len b"
  shows "\<exists>d. js_string_memcmp a b (js_len b) = Inr d \<and> (d = 0 \<longleftrightarrow> units a = units b)"
proof -
  obtain d where "js_string_compare a b = Inr d" and "d = 0 \<longleftrightarrow> units a = units b"
    using js_string_compare_order [of a b] by blast
  then show ?thesis
    using assms by (auto simp: js_string_compare_def bnd_eq_Inr split: if_splits)
qed

text \<open>What the search looks for.\<close>

definition sought :: "u32 \<Rightarrow> nat \<Rightarrow> JSString \<Rightarrow> atom_struct \<Rightarrow> bool" where
  "sought h ty str a \<longleftrightarrow> hash a = h \<and> atom_type a = ty \<and> units (chars a) = units str"

lemma find_atom_chain:
  assumes "chain (link rt) i ks" and "length ks \<le> fuel"
  shows "\<exists>r. find_atom fuel rt h ty str i = Inr r \<and>
    (if r = 0 then \<forall>k \<in> set ks. \<forall>a. atom_at rt k = Some a \<longrightarrow> \<not> sought h ty str a
     else r \<in> set ks \<and> (\<exists>a. atom_at rt r = Some a \<and> sought h ty str a))"
  using assms
proof (induction ks arbitrary: fuel i)
  case Nil
  then show ?case by (subst find_atom.simps) simp
next
  case (Cons k ks)
  then obtain a where a: "i = k" "k \<noteq> 0" "atom_at rt k = Some a" "chain (link rt) (hash_next a) ks"
    by (auto simp: link_Some)
  obtain p where p: "k < length (atom_array rt)" "atom_array rt ! k = Atom p" "strings rt p = Some a"
    using a(3) by (elim atom_atE)
  obtain f where f: "fuel = Suc f" "length ks \<le> f" using Cons.prems(2) by (cases fuel) auto
  obtain r where r: "find_atom f rt h ty str (hash_next a) = Inr r"
    "if r = 0 then \<forall>k \<in> set ks. \<forall>a. atom_at rt k = Some a \<longrightarrow> \<not> sought h ty str a
     else r \<in> set ks \<and> (\<exists>a. atom_at rt r = Some a \<and> sought h ty str a)"
    using Cons.IH [OF a(4) f(2)] by blast
  have "find_atom fuel rt h ty str i = Inr (if sought h ty str a then k else r)"
  proof (cases "js_len (chars a) = js_len str")
    case True
    then obtain d where "js_string_memcmp (chars a) str (js_len str) = Inr d" "d = 0 \<longleftrightarrow> units (chars a) = units str"
      using same_string_memcmp by blast
    then show ?thesis using a(1,2) f(1) r(1) True
      by (subst find_atom.simps) (simp add: atom_ptr_at [OF p(1,2)] deref_Some [OF p(3)] sought_def)
  next
    case False
    then have "units (chars a) \<noteq> units str" by (metis length_units)
    then show ?thesis using a(1,2) f(1) r(1) False
      by (subst find_atom.simps) (simp add: atom_ptr_at [OF p(1,2)] deref_Some [OF p(3)] sought_def)
  qed
  then show ?case using r(2) a(2,3) by (auto split: if_splits)
qed

lemma chain_of_bucket:
  assumes "table_ok rt"
  obtains ks where "chain (link rt) (atom_hash rt ! bucket (length (atom_hash rt)) h) ks" "distinct ks"
    "set ks = {i \<in> hashed rt. bucket (length (atom_hash rt)) (hash_at rt i) = bucket (length (atom_hash rt)) h}"
    "length ks \<le> length (atom_array rt)"
proof -
  note ok = table_okD [OF assms]
  obtain ks where ks: "chain (link rt) (atom_hash rt ! bucket (length (atom_hash rt)) h) ks" "distinct ks"
    "set ks = {i \<in> hashed rt. bucket (length (atom_hash rt)) (hash_at rt i) = bucket (length (atom_hash rt)) h}"
    using ok(1,7) unfolding chains_for_def by blast
  moreover have "length ks \<le> length (atom_array rt)" using ks by (intro chain_length_le) auto
  ultimately show thesis using that by blast
qed

text \<open>The atom with type and text, if there is one.\<close>

definition has_text :: "'w atom_runtime \<Rightarrow> nat \<Rightarrow> nat \<Rightarrow> u16 list \<Rightarrow> bool" where
  "has_text rt i ty us \<longleftrightarrow> (\<exists>a. atom_at rt i = Some a \<and> atom_type a = ty \<and> units (chars a) = us)"

lemma atom_hash_ok: "table_ok rt \<Longrightarrow> atom_at rt i = Some a \<Longrightarrow> hash_ok a"
  by (metis atom_atE entries_struct option.inject table_okD(3))

lemma find_atom_finds:
  assumes "table_ok rt" and "ty \<in> {1, 2}" and h_def: "h = hash_string str (of_nat ty) AND JS_ATOM_HASH_MASK"
  shows "\<exists>i. find_atom (length (atom_array rt)) rt h ty str (atom_hash rt ! bucket (length (atom_hash rt)) h) = Inr i \<and>
    (if i = 0 then \<forall>j. \<not> has_text rt j ty (units str) else has_text rt i ty (units str))"
proof -
  obtain ks where ks: "chain (link rt) (atom_hash rt ! bucket (length (atom_hash rt)) h) ks" "distinct ks"
    "set ks = {i \<in> hashed rt. bucket (length (atom_hash rt)) (hash_at rt i) = bucket (length (atom_hash rt)) h}"
    "length ks \<le> length (atom_array rt)"
    using chain_of_bucket [OF assms(1)] by blast
  have in_chain: "j \<in> set ks \<and> sought h ty str a"
    if "atom_at rt j = Some a" "atom_type a = ty" "units (chars a) = units str" for j a
  proof -
    have "hash a = h" using atom_hash_ok [OF assms(1) that(1)] that(2,3) assms(2)
      by (auto simp: hash_ok_def h_def hash_string_units)
    then show ?thesis using that assms(2) ks(3) by (auto simp: hashed_def hash_at_def sought_def)
  qed
  obtain i where i: "find_atom (length (atom_array rt)) rt h ty str (atom_hash rt ! bucket (length (atom_hash rt)) h) = Inr i"
    "if i = 0 then \<forall>k \<in> set ks. \<forall>a. atom_at rt k = Some a \<longrightarrow> \<not> sought h ty str a
     else i \<in> set ks \<and> (\<exists>a. atom_at rt i = Some a \<and> sought h ty str a)"
    using find_atom_chain [OF ks(1,4), of h ty str] by blast
  show ?thesis
  proof (cases "i = 0")
    case True
    then have "\<not> has_text rt j ty (units str)" for j
      using i(2) in_chain unfolding has_text_def by auto
    then show ?thesis using i(1) True by auto
  next
    case False
    then show ?thesis using i by (auto simp: has_text_def sought_def)
  qed
qed

lemma pointer_at:
  assumes "atom_at rt k = Some a"
  obtains p where "k < length (atom_array rt)" "atom_array rt ! k = Atom p" "strings rt p = Some a"
    "atom_ptr rt k = Inr p" "deref rt p = Inr a"
  using assms by (elim atom_atE) (simp add: atom_ptr_at deref_Some)

lemma index_loop_chain:
  assumes "chain (link rt) i ks" and "length ks \<le> fuel" and "t \<in> set ks" and "array_inj (atom_array rt)"
    and "t < length (atom_array rt)" and "atom_array rt ! t = Atom p"
  shows "index_loop fuel rt p i = Inr t"
  using assms
proof (induction ks arbitrary: fuel i)
  case (Cons k ks)
  then obtain a where a: "i = k" "k \<noteq> 0" "atom_at rt k = Some a" "chain (link rt) (hash_next a) ks"
    by (auto simp: link_Some)
  obtain q where q: "k < length (atom_array rt)" "atom_array rt ! k = Atom q" "atom_ptr rt k = Inr q" "deref rt q = Inr a"
    using pointer_at [OF a(3)] by metis
  obtain f where f: "fuel = Suc f" "length ks \<le> f" using Cons.prems(2) by (cases fuel) auto
  show ?case
  proof (cases "q = p")
    case True
    then have "k = t" using array_injD [OF Cons.prems(4) q(1) Cons.prems(5) q(2)] Cons.prems(6) by simp
    then show ?thesis using True q(3) a(1) by (subst index_loop.simps) simp
  next
    case False
    then have "t \<in> set ks" using Cons.prems(3,6) q(2) by auto
    then show ?thesis
      using False q(3,4) a(1,2) f Cons.IH [OF a(4) f(2) _ Cons.prems(4-6)] by (subst index_loop.simps) simp
  qed
qed simp

lemma js_get_atom_index_finds:
  assumes "table_ok rt" and "i < length (atom_array rt)" and "atom_array rt ! i = Atom p"
  shows "js_get_atom_index rt p = Inr i"
proof -
  note ok = table_okD [OF assms(1)]
  obtain a where a: "strings rt p = Some a" "atom_type a = 3 \<Longrightarrow> hash_next a = i" "atom_at rt i = Some a"
    using entries_struct [OF ok(3) assms(2,3)] by metis
  show ?thesis
  proof (cases "atom_type a = 3")
    case True
    then show ?thesis using a by (simp add: js_get_atom_index_def deref_Some atom_consts)
  next
    case False
    obtain ks where ks: "chain (link rt) (atom_hash rt ! bucket (length (atom_hash rt)) (hash a)) ks" "distinct ks"
      "set ks = {i \<in> hashed rt. bucket (length (atom_hash rt)) (hash_at rt i) = bucket (length (atom_hash rt)) (hash a)}"
      "length ks \<le> length (atom_array rt)"
      using chain_of_bucket [OF assms(1)] by blast
    then have "i \<in> set ks" using a(3) False by (auto simp: hashed_def hash_at_def)
    then show ?thesis
      using index_loop_chain [OF ks(1,4) _ ok(6) assms(2,3)] False a(1) ok(7)
      by (simp add: js_get_atom_index_def deref_Some atom_consts)
  qed
qed

section \<open>Freeing an atom\<close>

lemma unlink_chain:
  assumes "chain (link rt) j (j # xs @ t # ys)" and "distinct (j # xs @ t # ys)" and "length xs < fuel"
    and "array_inj (atom_array rt)" and "t < length (atom_array rt)" and "atom_array rt ! t = Atom p"
    and "atom_at rt t = Some at" and "j < length (atom_array rt)" and "atom_array rt ! j = Atom p1"
  shows "\<exists>q a0. unlink fuel rt p j p1 = Inr (t, put q (a0\<lparr>hash_next := hash_next at\<rparr>) rt) \<and>
    last (j # xs) < length (atom_array rt) \<and> atom_array rt ! last (j # xs) = Atom q \<and> strings rt q = Some a0"
  using assms
proof (induction xs arbitrary: j p1 fuel)
  case Nil
  then obtain a0 where a0: "atom_at rt j = Some a0" "hash_next a0 = t" "0 < j" by (auto simp: link_Some)
  then have str: "strings rt p1 = Some a0" using Nil.prems(8,9) by (simp add: atom_at_def)
  obtain f where f: "fuel = Suc f" using Nil.prems(3) by (cases fuel) auto
  have "strings rt p = Some at" using Nil.prems(5-7) by (simp add: atom_at_def)
  then show ?case
    using str a0 f Nil.prems(5,6,8,9)
    by (subst unlink.simps) (simp add: deref_Some atom_ptr_at)
next
  case (Cons k xs)
  then obtain a0 where a0: "atom_at rt j = Some a0" "hash_next a0 = k" "0 < j" by (auto simp: link_Some)
  then have str: "strings rt p1 = Some a0" using Cons.prems(8,9) by (simp add: atom_at_def)
  have rest: "chain (link rt) k (k # xs @ t # ys)" using Cons.prems(1) a0 by (auto simp: link_Some)
  then obtain b where b: "atom_at rt k = Some b" by (auto simp: link_Some)
  obtain p2 where p2: "k < length (atom_array rt)" "atom_array rt ! k = Atom p2" "atom_ptr rt k = Inr p2"
    using pointer_at [OF b] by metis
  have "p2 \<noteq> p" using array_injD [OF Cons.prems(4) p2(1) Cons.prems(5) p2(2)] Cons.prems(2,6) by auto
  obtain f where f: "fuel = Suc f" "length xs < f" using Cons.prems(3) by (cases fuel) auto
  have "distinct (k # xs @ t # ys)" using Cons.prems(2) by auto
  note ih = Cons.IH [OF rest this f(2) Cons.prems(4-7) p2(1,2)]
  have "unlink fuel rt p j p1 = unlink f rt p k p2"
    using str a0(2,3) f(1) \<open>p2 \<noteq> p\<close> p2(3) by (subst unlink.simps) (simp add: deref_Some)
  then show ?case using ih by simp
qed

lemma remove_from_chain_removes:
  assumes T: "table_ok rt" and i: "i < length (atom_array rt)" "atom_array rt ! i = Atom p"
    and a: "strings rt p = Some a" "atom_type a \<noteq> 3"
  shows "\<exists>S heads. remove_from_chain rt p a = Inr (i, rt\<lparr>strings := S, atom_hash := heads\<rparr>) \<and>
    view (rt\<lparr>strings := S\<rparr>) = view rt \<and> length heads = length (atom_hash rt) \<and>
    chains_for (link (rt\<lparr>strings := S\<rparr>)) (hash_at rt) heads (hashed rt - {i}) \<and>
    (\<forall>j. j \<notin> hashed rt \<longrightarrow> link (rt\<lparr>strings := S\<rparr>) j = link rt j)"
proof -
  note ok = table_okD [OF T]
  have at: "atom_at rt i = Some a" using i a(1) by (simp add: atom_at_def)
  then have hi: "i \<in> hashed rt" "hash_at rt i = hash a" "link rt i = Some (hash_next a)"
    using a(2) by (auto simp: hashed_def hash_at_def link_def)
  let ?b = "bucket (length (atom_hash rt)) (hash a)"
  have b: "?b < length (atom_hash rt)" by (rule ok(7))
  obtain ks where ks: "chain (link rt) (atom_hash rt ! ?b) ks" "distinct ks"
    "set ks = {i \<in> hashed rt. bucket (length (atom_hash rt)) (hash_at rt i) = ?b}" "length ks \<le> length (atom_array rt)"
    using chain_of_bucket [OF T] by blast
  have "i \<in> set ks" using ks(3) hi by auto
  then obtain xs ys where split: "ks = xs @ i # ys" by (auto simp: in_set_conv_decomp)
  show ?thesis
  proof (cases xs)
    case Nil
    then have head: "atom_hash rt ! ?b = i" using ks(1) split by simp
    have "chains_for (link rt) (hash_at rt) ((atom_hash rt)[?b := hash_next a]) (hashed rt - {i})"
      using chains_remove_head [OF ok(1) hi(1) head hi(3) _ b] hi(2) by simp
    then show ?thesis
      using b head i
      by (intro exI [of _ "strings rt"] exI [of _ "(atom_hash rt)[?b := hash_next a]"])
         (simp add: remove_from_chain_def atom_ptr_at Let_def)
  next
    case (Cons j xs')
    then have j: "atom_hash rt ! ?b = j" "chain (link rt) j (j # xs' @ i # ys)" using ks(1) split by auto
    then obtain b1 where "atom_at rt j = Some b1" by (auto simp: link_Some)
    then obtain p1 where p1: "j < length (atom_array rt)" "atom_array rt ! j = Atom p1" "atom_ptr rt j = Inr p1"
      using pointer_at by metis
    have dist: "distinct (j # xs' @ i # ys)" using ks(2) split Cons by simp
    have "length xs' < length (atom_array rt)" using ks(4) split Cons by simp
    from unlink_chain [OF j(2) dist this ok(6) i at p1(1,2)] obtain q a0 where
      u: "unlink (length (atom_array rt)) rt p j p1 = Inr (i, put q (a0\<lparr>hash_next := hash_next a\<rparr>) rt)" and
      q: "last (j # xs') < length (atom_array rt)" "atom_array rt ! last (j # xs') = Atom q" "strings rt q = Some a0"
      by blast
    have "p1 \<noteq> p" using array_injD [OF ok(6) p1(1) i(1) p1(2)] i(2) dist by auto
    then have res: "remove_from_chain rt p a = Inr (i, put q (a0\<lparr>hash_next := hash_next a\<rparr>) rt)"
      using b j(1) p1(3) u by (simp add: remove_from_chain_def Let_def)
    define zs where "zs = butlast (j # xs')"
    define l where "l = last (j # xs')"
    have "ks = (zs @ [l]) @ i # ys" unfolding split Cons zs_def l_def by (subst append_butlast_last_id) auto
    then have ks': "chain (link rt) (atom_hash rt ! ?b) (zs @ l # i # ys)" and l: "l \<in> set ks" using ks(1) by simp_all
    have link': "link (put q (a0\<lparr>hash_next := hash_next a\<rparr>) rt) = (link rt)(l \<mapsto> hash_next a)"
      unfolding l_def by (rule link_relink [OF ok(6) q(1,2)])
    have "chains_for ((link rt)(l \<mapsto> hash_next a)) (hash_at rt) (atom_hash rt) (hashed rt - {i})"
      by (rule chains_remove_next [OF ok(1) ks' hi(3) b])
    moreover have "l \<in> hashed rt" using l ks(3) by auto
    ultimately show ?thesis
      using res link' view_relink [OF q(3), of "hash_next a"]
      by (intro exI [of _ "(strings rt)(q \<mapsto> a0\<lparr>hash_next := hash_next a\<rparr>)"] exI [of _ "atom_hash rt"])
         (auto simp: put_def)
  qed
qed

lemma table_ok_refcount:
  assumes T: "table_ok rt" and p: "strings rt p = Some a"
  shows "table_ok (put p (a\<lparr>header_ref_count := n\<rparr>) rt)" (is "table_ok ?rt")
proof -
  note ok = table_okD [OF T]
  define drop where "drop = (\<lambda>b :: atom_struct. b\<lparr>header_ref_count := 0\<rparr>)"
  have core: "map_option drop (strings ?rt q) = map_option drop (strings rt q)" for q
    using p by (simp add: drop_def)
  have core_at: "map_option drop (atom_at ?rt i) = map_option drop (atom_at rt i)" for i
    using core by (auto simp: atom_at_def split: entry.splits)
  have lifted: "\<exists>c. x = Some c \<and> drop c = drop b" if "map_option drop x = map_option drop y" "y = Some b" for x y b
    using that by (cases x) auto
  have at1: "\<exists>c. atom_at rt i = Some c \<and> drop c = drop b" if "atom_at ?rt i = Some b" for i b
    using lifted [OF core_at [symmetric] that] .
  have at2: "\<exists>c. atom_at ?rt i = Some c \<and> drop c = drop b" if "atom_at rt i = Some b" for i b
    using lifted [OF core_at that] .
  have eq: "drop b = drop c \<longleftrightarrow> chars b = chars c \<and> atom_type b = atom_type c \<and> hash b = hash c \<and> hash_next b = hash_next c" for b c
    by (cases b; cases c) (simp add: drop_def)
  have dom: "{i. atom_at ?rt i \<noteq> None} = {i. atom_at rt i \<noteq> None}" using at1 at2 by fastforce
  have link: "link ?rt = link rt"
  proof
    fix i show "link ?rt i = link rt i"
      using at1 [of i] at2 [of i] by (cases "atom_at rt i"; cases "atom_at ?rt i") (auto simp: link_def eq)
  qed
  have hashed: "hashed ?rt = hashed rt"
  proof (rule set_eqI)
    fix i show "i \<in> hashed ?rt \<longleftrightarrow> i \<in> hashed rt"
      using at1 [of i] at2 [of i] by (cases "atom_at rt i"; cases "atom_at ?rt i") (auto simp: hashed_def eq)
  qed
  have hash: "hash_at ?rt i = hash_at rt i" if "i \<in> hashed rt" for i
    using that at2 [of i] by (auto simp: hashed_def hash_at_def eq)
  have "chains_for (link ?rt) (hash_at ?rt) (atom_hash ?rt) (hashed ?rt)"
    using chains_for_cong [of "hashed rt" "link rt" "link ?rt" "hash_at rt" "hash_at ?rt", OF _ ok(1)] link hash hashed by simp
  moreover have "entries_ok ?rt"
    unfolding entries_ok_def put_simps
  proof (intro conjI allI impI)
    show "array_inj (atom_array rt)" by (rule ok(6))
  next
    fix i q assume "i < length (atom_array rt)" "atom_array rt ! i = Atom q"
    from entries_struct [OF ok(3) this] obtain b where b: "strings rt q = Some b" "hash_ok b"
      "atom_type b = 3 \<longrightarrow> hash_next b = i" "i = 0 \<longrightarrow> atom_type b = 3" by metis
    obtain c where "strings ?rt q = Some c" "drop c = drop b" using lifted [OF core b(1)] by blast
    then show "\<exists>a'. ((strings rt)(p \<mapsto> a\<lparr>header_ref_count := n\<rparr>)) q = Some a' \<and> hash_ok a' \<and>
        (atom_type a' = 3 \<longrightarrow> hash_next a' = i) \<and> (i = 0 \<longrightarrow> atom_type a' = 3)"
      using b by (auto simp: eq hash_ok_def)
  next
    fix q b assume "((strings rt)(p \<mapsto> a\<lparr>header_ref_count := n\<rparr>)) q = Some b \<and> atom_type b \<noteq> 0"
    then have "\<exists>c. strings rt q = Some c \<and> atom_type c \<noteq> 0" using p by (auto split: if_splits)
    then show "Atom q \<in> set (atom_array rt)" using ok(3) unfolding entries_ok_def by blast
  qed
  moreover have "unique_ok ?rt"
    unfolding unique_ok_def
  proof (intro allI impI, elim conjE)
    fix i j b c assume bc: "atom_at ?rt i = Some b" "atom_at ?rt j = Some c" "atom_type b \<noteq> 3"
      "atom_type b = atom_type c" "units (chars b) = units (chars c)"
    obtain b' c' where "atom_at rt i = Some b'" "drop b' = drop b" "atom_at rt j = Some c'" "drop c' = drop c"
      using at1 bc(1,2) by blast
    then show "i = j" using ok(4) bc(3-5) unfolding unique_ok_def eq by metis
  qed
  moreover have "sizes_ok ?rt" using ok(5) dom by (simp add: sizes_ok_def)
  ultimately show ?thesis using ok(2) by (simp add: table_ok_def)
qed

text \<open>The count of the entries in use.\<close>

lemma finite_atoms: "finite {i. atom_at rt i \<noteq> None}"
  by (rule finite_subset [of _ "{..< length (atom_array rt)}"]) (auto simp: atom_at_def split: if_splits)

lemma atom_at_freed:
  assumes "array_inj (atom_array rt)" and "i < length (atom_array rt)" and "atom_array rt ! i = Atom p"
    and "atom_array rt' = (atom_array rt)[i := Free n]" and "strings rt' = S(p := None)"
  shows "atom_at rt' = (atom_at (rt\<lparr>strings := S\<rparr>))(i := None)"
proof
  fix j show "atom_at rt' j = ((atom_at (rt\<lparr>strings := S\<rparr>))(i := None)) j"
    using assms by (cases "j < length (atom_array rt)")
      (auto simp: atom_at_def nth_list_update dest: array_injD split: entry.splits)
qed

lemma unique_ok_fewer:
  "unique_ok rt1 \<Longrightarrow> atom_at rt' = A \<Longrightarrow> (\<And>j a. A j = Some a \<Longrightarrow> atom_at rt1 j = Some a) \<Longrightarrow> unique_ok rt'"
  unfolding unique_ok_def by blast

lemma free_struct_frees:
  assumes T: "table_ok rt" and i: "i < length (atom_array rt)" "atom_array rt ! i = Atom p" "i \<noteq> 0"
  shows "\<exists>rt'. JS_FreeAtomStruct M p rt = Inr rt' \<and> table_ok rt' \<and>
    atom_array rt' = (atom_array rt)[i := Free (atom_free_index rt)] \<and> atom_free_index rt' = i \<and>
    view rt' = (view rt)(p := None) \<and> length (atom_hash rt') = length (atom_hash rt)"
proof -
  note ok = table_okD [OF T]
  obtain a where a: "strings rt p = Some a" "atom_type a = 3 \<Longrightarrow> hash_next a = i" "atom_at rt i = Some a"
    using entries_struct [OF ok(3) i(1,2)] by metis
  have "\<exists>S heads. (if atom_type a \<noteq> JS_ATOM_TYPE_SYMBOL then remove_from_chain rt p a else Inr (hash_next a, rt)) =
      Inr (i, rt\<lparr>strings := S, atom_hash := heads\<rparr>) \<and>
    view (rt\<lparr>strings := S\<rparr>) = view rt \<and> length heads = length (atom_hash rt) \<and>
    chains_for (link (rt\<lparr>strings := S\<rparr>)) (hash_at rt) heads (hashed rt - {i}) \<and>
    (\<forall>j. j \<notin> hashed rt \<longrightarrow> link (rt\<lparr>strings := S\<rparr>) j = link rt j)"
  proof (cases "atom_type a = 3")
    case True
    then have "hashed rt - {i} = hashed rt" using a(3) by (auto simp: hashed_def)
    then show ?thesis using True a(2) ok(1) by (intro exI [of _ "strings rt"] exI [of _ "atom_hash rt"]) (simp add: atom_consts)
  next
    case False
    then show ?thesis using remove_from_chain_removes [OF T i(1,2) a(1)] by (simp add: atom_consts)
  qed
  then obtain S heads where S: "(if atom_type a \<noteq> JS_ATOM_TYPE_SYMBOL then remove_from_chain rt p a else Inr (hash_next a, rt)) =
      Inr (i, rt\<lparr>strings := S, atom_hash := heads\<rparr>)"
    "view (rt\<lparr>strings := S\<rparr>) = view rt" "length heads = length (atom_hash rt)"
    "chains_for (link (rt\<lparr>strings := S\<rparr>)) (hash_at rt) heads (hashed rt - {i})"
    "\<And>j. j \<notin> hashed rt \<Longrightarrow> link (rt\<lparr>strings := S\<rparr>) j = link rt j"
    by blast
  define rt1 where "rt1 = rt\<lparr>strings := S\<rparr>"
  note S = S(1) S(2-5) [folded rt1_def]
  have arr1: "atom_array rt1 = atom_array rt" by (simp add: rt1_def)
  note same1 = same_view_hashed [OF arr1 S(2)]
  have ok1: "entries_ok rt1" by (rule same_view_entries [OF arr1 S(2) ok(3) S(5)])
  have uniq1: "unique_ok rt1" by (rule same_view_unique [OF arr1 S(2) ok(4)])
  define rt' where "rt' = rt\<lparr>atom_hash := heads, atom_array := (atom_array rt)[i := Free (atom_free_index rt)],
    atom_free_index := i, strings := S(p := None), outside := release M (outside rt), atom_count := atom_count rt - 1\<rparr>"
  have at': "atom_at rt' = (atom_at rt1)(i := None)"
    unfolding rt1_def by (rule atom_at_freed [OF ok(6) i(1,2)]) (simp_all add: rt'_def)
  have links: "link rt' = (link rt1)(i := None)" using at' by (auto simp: link_def)
  have hashed': "hashed rt' = hashed rt - {i}" using at' same1(1) by (auto simp: hashed_def)
  have in_use: "i \<in> {j. atom_at rt j \<noteq> None}" using a(3) by simp
  have "{j. atom_at rt' j \<noteq> None} = {j. atom_at rt1 j \<noteq> None} - {i}" using at' by auto
  then have dom': "{j. atom_at rt' j \<noteq> None} = {j. atom_at rt j \<noteq> None} - {i}" unfolding same1(3) .
  have "card {j. atom_at rt j \<noteq> None} > 0" using in_use finite_atoms card_gt_0_iff by blast
  moreover have "card {j. atom_at rt' j \<noteq> None} = card {j. atom_at rt j \<noteq> None} - 1"
    unfolding dom' by (rule card_Diff_singleton [OF in_use])
  ultimately have count: "atom_count rt - 1 = int (card {j. atom_at rt' j \<noteq> None})" "atom_count rt - 1 \<ge> 0"
    using ok(5) by (auto simp: sizes_ok_def)
  have res: "JS_FreeAtomStruct M p rt = Inr rt'"
    using S(1) i(1) count(2) by (simp add: JS_FreeAtomStruct_def deref_Some [OF a(1)] rt'_def)
  have "chains_for (link rt') (hash_at rt') (atom_hash rt') (hashed rt')"
  proof -
    have "link rt1 k = link rt' k \<and> hash_at rt k = hash_at rt' k" if "k \<in> hashed rt - {i}" for k
      using that links same1(2) [of k] at' by (simp add: hash_at_def)
    from chains_for_cong [OF this S(4)] show ?thesis unfolding hashed' by (simp add: rt'_def)
  qed
  moreover have "free_for (atom_array rt') (atom_free_index rt')"
    using free_push [OF ok(2) i(1) i(3) i(2)] by (simp add: rt'_def)
  moreover have "entries_ok rt'"
    unfolding entries_ok_def
  proof (intro conjI allI impI)
    show "array_inj (atom_array rt')"
      using array_inj_free [OF ok(6)] by (simp add: rt'_def)
  next
    fix j q assume j: "j < length (atom_array rt')" "atom_array rt' ! j = Atom q"
    then have j': "j \<noteq> i" "j < length (atom_array rt)" "atom_array rt ! j = Atom q"
      using i(1) by (cases "j = i"; simp add: rt'_def)+
    then have "q \<noteq> p" using array_injD [OF ok(6) j'(2) i(1) j'(3)] i(2) by auto
    then have "strings rt' q = strings rt1 q" by (simp add: rt'_def rt1_def)
    then show "\<exists>b. strings rt' q = Some b \<and> hash_ok b \<and> (atom_type b = 3 \<longrightarrow> hash_next b = j) \<and> (j = 0 \<longrightarrow> atom_type b = 3)"
      using entries_struct [OF ok1, unfolded arr1, OF j'(2,3)] by metis
  next
    fix q b assume "strings rt' q = Some b \<and> atom_type b \<noteq> 0"
    then have "q \<noteq> p" "strings rt1 q = Some b" "atom_type b \<noteq> 0" by (auto simp: rt'_def rt1_def split: if_splits)
    then obtain j where "j < length (atom_array rt)" "atom_array rt ! j = Atom q"
      using entries_marked [OF ok1] unfolding arr1 by blast
    moreover from this have "j \<noteq> i" using i(2) \<open>q \<noteq> p\<close> by auto
    ultimately show "Atom q \<in> set (atom_array rt')"
      unfolding in_set_conv_nth by (intro exI [of _ j]) (simp add: rt'_def)
  qed
  moreover have "unique_ok rt'" using uniq1 at' by (rule unique_ok_fewer) (simp split: if_splits)
  moreover have "sizes_ok rt'" using ok(5) count(1) S(3) by (auto simp: sizes_ok_def rt'_def)
  moreover have "view rt' = (view rt)(p := None)" using S(2) by (auto simp: fun_eq_iff view_def rt'_def rt1_def)
  ultimately show ?thesis using res S(3) by (auto simp: table_ok_def rt'_def)
qed

section \<open>Entering an atom\<close>

text \<open>The state without the structure \<open>p\<close>, which is not in the table.\<close>

abbreviation without :: "ptr \<Rightarrow> 'w atom_runtime \<Rightarrow> 'w atom_runtime" where
  "without p rt \<equiv> rt\<lparr>strings := (strings rt)(p := None)\<rparr>"

lemma atom_at_elsewhere:
  "Atom p \<notin> set (atom_array rt) \<Longrightarrow> atom_array rt' = atom_array rt \<Longrightarrow> (\<And>q. q \<noteq> p \<Longrightarrow> strings rt' q = strings rt q) \<Longrightarrow>
   atom_at rt' = atom_at rt"
  by (auto simp: atom_at_def fun_eq_iff split: entry.splits) (metis nth_mem)+

lemma atom_at_entered:
  assumes "Atom p \<notin> set (atom_array rt)" and "i < length (atom_array rt)" and "atom_array rt ! i = Free n"
    and "atom_array rt' = (atom_array rt)[i := Atom p]" and "strings rt' = (strings rt)(p \<mapsto> a)"
  shows "atom_at rt' = (atom_at rt)(i \<mapsto> a)"
proof
  fix j
  have "atom_array rt ! j \<noteq> Atom p" if "j < length (atom_array rt)" using assms(1) that by (metis nth_mem)
  then show "atom_at rt' j = ((atom_at rt)(i \<mapsto> a)) j"
    using assms(2-5) by (cases "j < length (atom_array rt)"; cases "j = i") (auto simp: atom_at_def split: entry.splits)
qed

lemma entered_table_ok:
  assumes T: "table_ok (without p rt)" and p: "Atom p \<notin> set (atom_array rt)"
    and i: "i = atom_free_index rt" "i \<noteq> 0" "atom_array rt ! i = Free n"
    and a: "hash_ok a" "atom_type a = 3 \<longrightarrow> hash_next a = i"
    and new: "atom_type a \<noteq> 3 \<longrightarrow> (\<forall>j. \<not> has_text rt j (atom_type a) (units (chars a)))"
    and heads: "if atom_type a = 3 then heads = atom_hash rt
      else heads = (atom_hash rt)[b := i] \<and> b = bucket (length (atom_hash rt)) (hash a) \<and> hash_next a = atom_hash rt ! b"
    and rt': "atom_hash rt' = heads" "atom_array rt' = (atom_array rt)[i := Atom p]" "atom_free_index rt' = n"
      "strings rt' = (strings rt)(p \<mapsto> a)" "atom_count rt' = atom_count rt + 1"
  shows "table_ok rt'"
proof -
  note ok = table_okD [OF T]
  have free: "i < length (atom_array rt)" "free_for ((atom_array rt)[i := Atom p]) n"
    using free_pop [of "atom_array rt" i p] ok(2) i by auto
  have at0: "atom_at (without p rt) = atom_at rt" by (rule atom_at_elsewhere [OF p]) auto
  have at': "atom_at rt' = (atom_at rt)(i \<mapsto> a)" by (rule atom_at_entered [OF p free(1) i(3) rt'(2,4)])
  have none: "atom_at rt i = None" using i(3) by (simp add: atom_at_def)
  have same: "link (without p rt) = link rt" "hash_at (without p rt) = hash_at rt" "hashed (without p rt) = hashed rt"
    using at0 by (auto simp: fun_eq_iff link_def hash_at_def hashed_def)
  have C: "chains_for (link rt) (hash_at rt) (atom_hash rt) (hashed rt)" using ok(1) same by simp
  have notin: "i \<notin> hashed rt" using none by (simp add: hashed_def)
  have keep: "link rt' k = link rt k \<and> hash_at rt' k = hash_at rt k" if "k \<in> hashed rt" for k
    using that notin at' by (auto simp: link_def hash_at_def)
  have "chains_for (link rt') (hash_at rt') (atom_hash rt') (hashed rt')"
  proof (cases "atom_type a = 3")
    case True
    then have "hashed rt' = hashed rt" using at' none by (auto simp: hashed_def)
    then show ?thesis
      using chains_for_cong [of "hashed rt" "link rt" "link rt'" "hash_at rt" "hash_at rt'", OF _ C] keep True heads rt'(1)
      by simp
  next
    case False
    have "chains_for (link rt') (hash_at rt') ((atom_hash rt)[b := i]) (insert i (hashed rt))"
      using False heads at' ok(7) by (intro chains_add [OF C notin i(2) keep]) (auto simp: hash_at_def link_def)
    moreover have "hashed rt' = insert i (hashed rt)" using at' False by (auto simp: hashed_def)
    ultimately show ?thesis using False heads rt'(1) by simp
  qed
  moreover have "entries_ok rt'"
    unfolding entries_ok_def
  proof (intro conjI allI impI)
    show "array_inj (atom_array rt')" using array_inj_entry [OF _ p] ok(6) rt'(2) by simp
  next
    fix j q assume j: "j < length (atom_array rt')" "atom_array rt' ! j = Atom q"
    show "\<exists>b. strings rt' q = Some b \<and> hash_ok b \<and> (atom_type b = 3 \<longrightarrow> hash_next b = j) \<and> (j = 0 \<longrightarrow> atom_type b = 3)"
    proof (cases "j = i")
      case True
      then have "q = p" using j rt'(2) free(1) by simp
      then show ?thesis using True a i(2) rt'(4) by simp
    next
      case False
      then have j': "j < length (atom_array rt)" "atom_array rt ! j = Atom q" using j rt'(2) by simp_all
      then have "q \<noteq> p" using p nth_mem by metis
      then have "strings rt' q = strings (without p rt) q" using rt'(4) by simp
      moreover have "\<exists>b. strings (without p rt) q = Some b \<and> hash_ok b \<and> (atom_type b = 3 \<longrightarrow> hash_next b = j) \<and>
          (j = 0 \<longrightarrow> atom_type b = 3)"
        using j' by (intro entries_ex [OF ok(3)]) simp_all
      ultimately show ?thesis by (simp only:)
    qed
  next
    fix q b assume q: "strings rt' q = Some b \<and> atom_type b \<noteq> 0"
    show "Atom q \<in> set (atom_array rt')"
    proof (cases "q = p")
      case True
      then show ?thesis using rt'(2) free(1) by (simp add: set_update_memI)
    next
      case False
      then have "strings (without p rt) q = Some b" using q rt'(4) by simp
      then obtain j where "j < length (atom_array rt)" "atom_array rt ! j = Atom q"
        using entries_marked [OF ok(3)] q by auto
      moreover from this have "j \<noteq> i" using i(3) by auto
      ultimately show ?thesis unfolding in_set_conv_nth by (intro exI [of _ j]) (simp add: rt'(2))
    qed
  qed
  moreover have "unique_ok rt'"
    unfolding unique_ok_def at'
  proof (intro allI impI, elim conjE)
    fix j k b c assume bc: "((atom_at rt)(i \<mapsto> a)) j = Some b" "((atom_at rt)(i \<mapsto> a)) k = Some c" "atom_type b \<noteq> 3"
      "atom_type b = atom_type c" "units (chars b) = units (chars c)"
    have old: "\<not> (atom_at rt l = Some d \<and> atom_type d = atom_type a \<and> units (chars d) = units (chars a))"
      if "atom_type a \<noteq> 3" for l d
      using new that by (auto simp: has_text_def)
    show "j = k"
    proof (cases "j = i \<or> k = i")
      case True
      then show ?thesis using bc old by (auto split: if_splits)
    next
      case False
      then have "atom_at (without p rt) j = Some b" "atom_at (without p rt) k = Some c" using bc(1,2) at0 by simp_all
      then show ?thesis using bc(3-5) ok(4) unfolding unique_ok_def by blast
    qed
  qed
  moreover have "sizes_ok rt'"
  proof -
    have "{j. atom_at rt' j \<noteq> None} = insert i {j. atom_at rt j \<noteq> None}" using at' by auto
    then have "card {j. atom_at rt' j \<noteq> None} = Suc (card {j. atom_at rt j \<noteq> None})"
      using none finite_atoms [of rt] by simp
    moreover have "length (atom_hash rt') = length (atom_hash rt)" using heads rt'(1) by (auto split: if_splits)
    ultimately show ?thesis using ok(5) at0 rt'(2,5) by (simp add: sizes_ok_def)
  qed
  ultimately show ?thesis using free(2) rt'(2,3) by (simp add: table_ok_def)
qed

lemma enter_atom_enters:
  assumes T: "table_ok (without p rt)" and p: "Atom p \<notin> set (atom_array rt)" "strings rt p = Some a"
    and i: "atom_free_index rt \<noteq> 0" and ty: "ty \<in> {1, 2, 3}"
    and string: "ty \<noteq> 3 \<Longrightarrow> h = hash_string (chars a) (of_nat ty) AND JS_ATOM_HASH_MASK \<and>
      h1 = bucket (length (atom_hash rt)) h \<and> (\<forall>j. \<not> has_text rt j ty (units (chars a)))"
    and symbol: "ty = 3 \<Longrightarrow> h \<in> {JS_ATOM_HASH_SYMBOL, JS_ATOM_HASH_PRIVATE}"
  shows "\<exists>rt'. enter_atom M p h h1 ty rt = Inr (atom_free_index rt, rt') \<and> table_ok rt' \<and>
    atom_array rt' = (atom_array rt)[atom_free_index rt := Atom p] \<and>
    view rt' = (view rt)(p \<mapsto> unlinked (a\<lparr>hash := h, atom_type := ty\<rparr>)) \<and>
    atom_array rt ! atom_free_index rt = Free (atom_free_index rt')"
proof -
  note ok = table_okD [OF T]
  let ?i = "atom_free_index rt"
  obtain n where n: "?i < length (atom_array rt)" "atom_array rt ! ?i = Free n"
    using free_pop [of "atom_array rt" ?i p] ok(2) i by auto
  define heads where "heads = (if ty = 3 then atom_hash rt else (atom_hash rt)[h1 := ?i])"
  define link' where "link' = (if ty = 3 then ?i else atom_hash rt ! h1)"
  define a' where "a' = a\<lparr>hash := h, atom_type := ty, hash_next := link'\<rparr>"
  have order: "a\<lparr>hash := h, hash_next := m, atom_type := t\<rparr> = a\<lparr>hash := h, atom_type := t, hash_next := m\<rparr>" for m t
    by (cases a) simp
  define rt1 where "rt1 = put p a' (rt\<lparr>atom_free_index := n, atom_array := (atom_array rt)[?i := Atom p],
    atom_count := atom_count rt + 1, atom_hash := heads\<rparr>)"
  have T1: "table_ok rt1"
  proof (rule entered_table_ok [OF T p(1) refl i n(2), of a'])
    show "hash_ok a'" using ty string symbol by (auto simp: hash_ok_def a'_def)
    show "if atom_type a' = 3 then heads = atom_hash rt
      else heads = (atom_hash rt)[h1 := ?i] \<and> h1 = bucket (length (atom_hash rt)) (hash a') \<and> hash_next a' = atom_hash rt ! h1"
      using string by (simp add: heads_def a'_def link'_def)
  qed (use string in \<open>simp_all add: a'_def link'_def rt1_def\<close>)
  have view1: "view rt1 = (view rt)(p \<mapsto> unlinked (a\<lparr>hash := h, atom_type := ty\<rparr>))"
    by (simp add: rt1_def view_put a'_def unlinked_def) (simp add: view_def fun_eq_iff)
  have arr1: "atom_array rt1 = (atom_array rt)[?i := Atom p]" by (simp add: rt1_def)
  have h1: "h1 < length (atom_hash rt)" if "ty \<noteq> 3" using string [OF that] ok(7) by simp
  obtain ok2 rt2 where r: "JS_ResizeAtomHash M (length (atom_hash rt1) * 2) rt1 = Inr (ok2, rt2)" "table_ok rt2"
    "atom_array rt2 = atom_array rt1" "view rt2 = view rt1" "atom_free_index rt2 = atom_free_index rt1"
    using resize_keeps [OF T1] by blast
  define rt' where "rt' = (if ty \<noteq> 3 \<and> atom_count rt1 \<ge> int (atom_count_resize rt1) then rt2 else rt1)"
  have "enter_atom M p h h1 ty rt = Inr (?i, rt')"
  proof (cases "ty = 3")
    case True
    then show ?thesis using n by (simp add: order enter_atom_def deref_Some [OF p(2)] rt'_def rt1_def a'_def link'_def
          heads_def atom_consts put_def Let_def)
  next
    case False
    have eq: "put p (a\<lparr>hash := h, atom_type := ty, hash_next := atom_hash rt ! h1\<rparr>)
       (rt\<lparr>atom_free_index := n, atom_array := (atom_array rt)[?i := Atom p], atom_count := atom_count rt + 1,
           atom_hash := (atom_hash rt)[h1 := ?i]\<rparr>) = rt1"
      using False by (simp add: rt1_def a'_def link'_def heads_def)
    have "atom_count_resize rt1 = atom_count_resize rt" "atom_count rt1 = atom_count rt + 1"
      "length (atom_hash rt1) = length (atom_hash rt)" by (simp_all add: rt1_def heads_def)
    then show ?thesis using False n h1 r(1) eq
      by (simp add: enter_atom_def deref_Some [OF p(2)] rt'_def atom_consts Let_def)
  qed
  moreover have "atom_free_index rt1 = n" by (simp add: rt1_def)
  ultimately show ?thesis using T1 r view1 arr1 n(2) by (auto simp: rt'_def)
qed

section \<open>Strings that are no atoms\<close>

lemma not_in_table:
  assumes "table_ok rt" and "\<forall>a. strings rt p = Some a \<longrightarrow> atom_type a = 0"
  shows "Atom p \<notin> set (atom_array rt)"
proof
  assume "Atom p \<in> set (atom_array rt)"
  then obtain i where "i < length (atom_array rt)" "atom_array rt ! i = Atom p" by (auto simp: in_set_conv_nth)
  from entries_ex [OF table_okD(3) [OF assms(1)] this] show False using assms(2) by (auto simp: hash_ok_def)
qed

lemma table_ok_elsewhere:
  assumes T: "table_ok rt" and p: "Atom p \<notin> set (atom_array rt)" and x: "\<And>b. x = Some b \<Longrightarrow> atom_type b = 0"
  shows "table_ok (rt\<lparr>strings := (strings rt)(p := x)\<rparr>)" (is "table_ok ?rt")
    and "atom_at (rt\<lparr>strings := (strings rt)(p := x)\<rparr>) = atom_at rt"
proof -
  note ok = table_okD [OF T]
  show at: "atom_at ?rt = atom_at rt" by (rule atom_at_elsewhere [OF p]) auto
  have same: "link ?rt = link rt" "hash_at ?rt = hash_at rt" "hashed ?rt = hashed rt"
    using at by (auto simp: fun_eq_iff link_def hash_at_def hashed_def)
  have "entries_ok ?rt"
    unfolding entries_ok_def
  proof (intro conjI allI impI)
    show "array_inj (atom_array ?rt)" using ok(6) by simp
  next
    fix i q assume i: "i < length (atom_array ?rt)" "atom_array ?rt ! i = Atom q"
    then have "q \<noteq> p" using p nth_mem by fastforce
    then have "strings ?rt q = strings rt q" by simp
    then show "\<exists>b. strings ?rt q = Some b \<and> hash_ok b \<and> (atom_type b = 3 \<longrightarrow> hash_next b = i) \<and> (i = 0 \<longrightarrow> atom_type b = 3)"
      using entries_ex [OF ok(3), of i q] i by simp
  next
    fix q b assume "strings ?rt q = Some b \<and> atom_type b \<noteq> 0"
    then have "strings rt q = Some b" "atom_type b \<noteq> 0" using x by (auto split: if_splits)
    then show "Atom q \<in> set (atom_array ?rt)" using ok(3) unfolding entries_ok_def by auto
  qed
  moreover have "unique_ok ?rt" using ok(4) by (rule unique_ok_fewer [OF _ at])
  ultimately show "table_ok ?rt" using ok(1,2,5) same at by (simp add: table_ok_def sizes_ok_def)
qed

section \<open>Reference counts and texts\<close>

definition refs :: "'w atom_runtime \<Rightarrow> ptr \<Rightarrow> int option" where
  "refs rt p = map_option header_ref_count (strings rt p)"

definition texts :: "'w atom_runtime \<Rightarrow> nat \<Rightarrow> (nat \<times> u16 list) option" where
  "texts rt i = (if i = 0 then None else map_option (\<lambda>a. (atom_type a, units (chars a))) (atom_at rt i))"

text \<open>The texts when a reference to \<open>s\<close> is given up: the last one takes the atom with it.\<close>

definition texts_freed :: "'w atom_runtime \<Rightarrow> ptr \<Rightarrow> nat \<Rightarrow> (nat \<times> u16 list) option" where
  "texts_freed rt s i =
     (if i < length (atom_array rt) \<and> atom_array rt ! i = Atom s \<and> (\<exists>n \<le> 1. refs rt s = Some n) then None
      else texts rt i)"

definition null_atom :: "'w atom_runtime \<Rightarrow> ptr \<Rightarrow> bool" where
  "null_atom rt s \<longleftrightarrow> atom_array rt \<noteq> [] \<and> atom_array rt ! 0 = Atom s"

lemma text_outside [simp]:
  "texts (rt\<lparr>outside := w\<rparr>) = texts rt" "refs (rt\<lparr>outside := w\<rparr>) = refs rt"
  "null_atom (rt\<lparr>outside := w\<rparr>) = null_atom rt"
  by (simp_all add: fun_eq_iff texts_def refs_def null_atom_def)

lemma texts_freed_outside [simp]: "texts_freed (rt\<lparr>outside := w\<rparr>) = texts_freed rt"
  unfolding texts_freed_def [abs_def] by (simp cong: if_cong)

lemma refs_view: "view rt' p = view rt p \<Longrightarrow> refs rt' p = refs rt p"
  unfolding view_def refs_def by (cases "strings rt p"; cases "strings rt' p") (auto simp: unlinked_eq)

lemma texts_view:
  assumes "i < length (atom_array rt') \<longleftrightarrow> i < length (atom_array rt)"
    and "i < length (atom_array rt) \<Longrightarrow> atom_array rt' ! i = atom_array rt ! i"
    and "\<And>p. i < length (atom_array rt) \<Longrightarrow> atom_array rt ! i = Atom p \<Longrightarrow> view rt' p = view rt p"
  shows "texts rt' i = texts rt i"
proof -
  have "map_option unlinked (atom_at rt' i) = map_option unlinked (atom_at rt i)"
    using assms by (auto simp: atom_at_view split: entry.splits)
  then show ?thesis
    by (cases "atom_at rt i"; cases "atom_at rt' i") (auto simp: texts_def unlinked_eq)
qed

lemma texts_put_refcount:
  assumes "strings rt p = Some a"
  shows "texts (put p (a\<lparr>header_ref_count := n\<rparr>) rt) = texts rt"
proof
  fix i show "texts (put p (a\<lparr>header_ref_count := n\<rparr>) rt) i = texts rt i"
    using assms by (auto simp: texts_def atom_at_def split: entry.splits)
qed

lemma free_string_frees:
  assumes T: "table_ok rt" and s: "strings rt s = Some a" "\<not> null_atom rt s"
  shows "\<exists>rt'. js_free_string M s rt = Inr rt' \<and> table_ok rt' \<and>
    length (atom_array rt') = length (atom_array rt) \<and> length (atom_hash rt') = length (atom_hash rt) \<and>
    (atom_free_index rt \<noteq> 0 \<longrightarrow> atom_free_index rt' \<noteq> 0) \<and>
    refs rt' = (refs rt)(s := if header_ref_count a \<le> 1 then None else Some (header_ref_count a - 1)) \<and>
    texts rt' = texts_freed rt s \<and> (\<forall>p. p \<noteq> s \<longrightarrow> view rt' p = view rt p) \<and>
    set (atom_array rt') \<inter> range Atom \<subseteq> set (atom_array rt) \<and> (\<forall>p. null_atom rt' p \<longleftrightarrow> null_atom rt p)"
proof -
  let ?n = "header_ref_count a - 1"
  define rt1 where "rt1 = put s (a\<lparr>header_ref_count := ?n\<rparr>) rt"
  have T1: "table_ok rt1" unfolding rt1_def by (rule table_ok_refcount [OF T s(1)])
  have view1: "view rt1 p = view rt p" if "p \<noteq> s" for p using that by (simp add: rt1_def view_put)
  have texts1: "texts rt1 = texts rt" unfolding rt1_def by (rule texts_put_refcount [OF s(1)])
  have refs1: "refs rt1 = (refs rt)(s \<mapsto> ?n)" by (auto simp: rt1_def refs_def)
  have one: "(\<exists>n \<le> 1. refs rt s = Some n) \<longleftrightarrow> header_ref_count a \<le> 1" using s(1) by (auto simp: refs_def)
  consider (kept) "header_ref_count a > 1" | (atom) "header_ref_count a \<le> 1" "atom_type a \<noteq> 0"
    | (plain) "header_ref_count a \<le> 1" "atom_type a = 0" by linarith
  then show ?thesis
  proof cases
    case kept
    then have "js_free_string M s rt = Inr rt1" by (simp add: js_free_string_def deref_Some [OF s(1)] rt1_def)
    moreover have "texts_freed rt s = texts rt" using kept one by (auto simp: texts_freed_def fun_eq_iff)
    ultimately show ?thesis using T1 view1 texts1 refs1 kept by (simp add: rt1_def null_atom_def)
  next
    case plain
    have notin: "Atom s \<notin> set (atom_array rt)" using not_in_table [OF T] s(1) plain(2) by simp
    define rt2 where "rt2 = rt1\<lparr>strings := (strings rt1)(s := None), outside := release M (outside rt1)\<rparr>"
    have eq: "js_free_string M s rt = Inr rt2"
      using plain by (simp add: js_free_string_def deref_Some [OF s(1)] rt1_def [symmetric] rt2_def)
    have "Atom s \<notin> set (atom_array rt1)" using notin by (simp add: rt1_def)
    then have "table_ok rt2" "atom_at rt2 = atom_at rt1"
      using table_ok_elsewhere [OF T1, of s None] by (simp_all add: rt2_def)
    moreover from this(2) have "texts rt2 = texts rt" by (simp add: texts1 [symmetric]) (simp add: fun_eq_iff texts_def)
    moreover have "texts_freed rt s = texts rt" using notin by (auto simp: texts_freed_def fun_eq_iff in_set_conv_nth)
    moreover have "refs rt2 = (refs rt)(s := None)" using refs1 by (auto simp: refs_def rt2_def fun_eq_iff)
    moreover have "view rt2 p = view rt p" if "p \<noteq> s" for p
      using that view1 [OF that] by (simp add: view_def rt2_def)
    ultimately show ?thesis using eq plain(1) by (simp add: rt2_def rt1_def null_atom_def)
  next
    case atom
    obtain i where i: "i < length (atom_array rt1)" "atom_array rt1 ! i = Atom s"
      using entries_marked [OF table_okD(3) [OF T] s(1) atom(2)] by (auto simp: rt1_def)
    then have "i \<noteq> 0" using s(2) by (metis null_atom_def rt1_def put_simps(2) list.size(3) not_less0)
    obtain rt2 where rt2: "JS_FreeAtomStruct M s rt1 = Inr rt2" "table_ok rt2"
      "atom_array rt2 = (atom_array rt1)[i := Free (atom_free_index rt1)]" "atom_free_index rt2 = i"
      "view rt2 = (view rt1)(s := None)" "length (atom_hash rt2) = length (atom_hash rt1)"
      using free_struct_frees [OF T1 i \<open>i \<noteq> 0\<close>] by blast
    have eq: "js_free_string M s rt = Inr rt2"
      using atom rt2(1) by (simp add: js_free_string_def deref_Some [OF s(1)] rt1_def [symmetric])
    have other: "atom_array rt ! j \<noteq> Atom s" if "j < length (atom_array rt)" "j \<noteq> i" for j
      using array_injD [OF table_okD(6) [OF T1], of j i s] that i by (auto simp: rt1_def)
    have "texts rt2 = texts_freed rt s"
    proof
      fix j
      have "texts rt2 i = None" using rt2(3) i(1) by (simp add: texts_def atom_at_def)
      moreover have "texts rt2 j = texts rt1 j" if "j \<noteq> i"
        using that rt2(3,5) other i(1) by (intro texts_view) (auto simp: rt1_def)
      ultimately show "texts rt2 j = texts_freed rt s j"
        using atom(1) one i other texts1 by (cases "j = i") (auto simp: texts_freed_def rt1_def)
    qed
    moreover have "refs rt2 = (refs rt)(s := None)"
    proof
      have "view rt2 s = None" using rt2(5) by simp
      then have "refs rt2 s = None" by (simp add: view_def refs_def)
      fix p show "refs rt2 p = ((refs rt)(s := None)) p"
        using refs_view [of rt2 p rt1] refs1 rt2(5) \<open>refs rt2 s = None\<close> by (cases "p = s") simp_all
    qed
    moreover have "set (atom_array rt2) \<inter> range Atom \<subseteq> set (atom_array rt)"
      using rt2(3) set_update_subset_insert [of "atom_array rt1" i] by (auto simp: rt1_def)
    ultimately show ?thesis using eq atom(1) rt2 view1 \<open>i \<noteq> 0\<close> by (simp add: rt1_def null_atom_def)
  qed
qed

section \<open>More entries\<close>

text \<open>
  What is relied on of the allocator: a structure is at an address not in use, and no table has more
  than \<open>2 ^ 32\<close> bytes (the module sets a memory limit of 655359 bytes).
\<close>

definition memory_ok :: "'w atom_mem \<Rightarrow> bool" where
  "memory_ok M \<longleftrightarrow> (\<forall>n h w p w'. alloc_string M n h w = (Some p, w') \<longrightarrow> h p = None) \<and>
     (\<forall>n w w'. alloc_table M n w = (True, w') \<longrightarrow> n \<le> 2 ^ 32)"

lemma no_free_entries:
  assumes "free_for array 0" and "e \<in> set array"
  shows "\<exists>p. e = Atom p"
proof -
  obtain fs where fs: "chain (free_link array) 0 fs" "set fs = {i. free_link array i \<noteq> None}"
    using assms(1) by (auto simp: free_for_def)
  then have none: "free_link array i = None" for i by (cases fs) auto
  obtain i where "i < length array" "e = array ! i" using assms(2) by (auto simp: in_set_conv_nth)
  then show ?thesis using none [of i] by (cases "array ! i") (auto simp: free_link_def)
qed

lemma atom_at_append:
  assumes "atom_array rt' = atom_array rt @ free_entries n m" and "\<And>p. Atom p \<in> set (atom_array rt) \<Longrightarrow> strings rt' p = strings rt p"
  shows "atom_at rt' = atom_at rt"
proof
  fix i
  show "atom_at rt' i = atom_at rt i"
  proof (cases "i < length (atom_array rt)")
    case True
    then have "strings rt' p = strings rt p" if "atom_array rt ! i = Atom p" for p
      using assms(2) that by (metis nth_mem)
    then show ?thesis using True assms(1) by (auto simp: atom_at_def nth_append split: entry.splits)
  next
    case False
    have "free_entries n m ! j = Free (if n + j = m - 1 then 0 else n + j + 1)" if "j < length (free_entries n m)" for j
      using that by (simp add: free_entries_def)
    then show ?thesis using False assms(1) by (simp add: atom_at_def nth_append)
  qed
qed

lemma entries_append:
  assumes "entries_ok rt" and arr: "atom_array rt' = atom_array rt @ free_entries n m" and "strings rt' = strings rt"
  shows "entries_ok rt'"
proof -
  have free: "free_entries n m ! j \<noteq> Atom p" if "j < length (free_entries n m)" for j p
    using that by (simp add: free_entries_def)
  have old: "i < length (atom_array rt) \<and> atom_array rt ! i = Atom p"
    if "i < length (atom_array rt')" "atom_array rt' ! i = Atom p" for i p
    using that free [of "i - length (atom_array rt)" p] arr by (cases "i < length (atom_array rt)") (auto simp: nth_append)
  show ?thesis
    unfolding entries_ok_def
  proof (intro conjI allI impI)
    show "array_inj (atom_array rt')"
      unfolding array_inj_def using old array_injD [OF entries_inj [OF assms(1)]] by blast
  next
    fix i p assume "i < length (atom_array rt')" "atom_array rt' ! i = Atom p"
    then show "\<exists>b. strings rt' p = Some b \<and> hash_ok b \<and> (atom_type b = 3 \<longrightarrow> hash_next b = i) \<and> (i = 0 \<longrightarrow> atom_type b = 3)"
      using entries_ex [OF assms(1), of i p] old assms(3) by simp
  next
    fix p b assume "strings rt' p = Some b \<and> atom_type b \<noteq> 0"
    then have "Atom p \<in> set (atom_array rt)" using assms(1,3) unfolding entries_ok_def by metis
    then show "Atom p \<in> set (atom_array rt')" using arr by simp
  qed
qed

lemma grow_grows:
  assumes T: "table_ok rt" and M: "memory_ok M" and full: "atom_free_index rt = 0" and arr: "atom_array rt \<noteq> []"
  shows "\<exists>ok rt'. grow_atom_array M rt = Inr (ok, rt') \<and> table_ok rt' \<and> strings rt' = strings rt \<and>
    atom_hash rt' = atom_hash rt \<and> atom_at rt' = atom_at rt \<and> (ok \<longrightarrow> atom_free_index rt' \<noteq> 0) \<and>
    (\<exists>m > length (atom_array rt). atom_array rt' = atom_array rt @ (if ok then free_entries (length (atom_array rt)) m else [])) \<and>
    (ok \<longrightarrow> atom_free_index rt' = length (atom_array rt))"
proof -
  note tok = table_okD [OF T]
  let ?s = "length (atom_array rt)"
  define n where "n = max 211 (?s * 3 div 2)"
  have s: "?s * 3 < 2 ^ 31" using tok(5) by (simp add: sizes_ok_def)
  obtain b w where w: "alloc_table M (8 * n) (outside rt) = (b, w)" by fastforce
  consider (limit) "n > JS_ATOM_MAX" | (fail) "n \<le> JS_ATOM_MAX" "\<not> b" | (grow) "n \<le> JS_ATOM_MAX" b by linarith
  then show ?thesis
  proof cases
    case limit
    then show ?thesis using s T by (auto simp: grow_atom_array_def n_def [symmetric] Let_def)
  next
    case fail
    then show ?thesis using s T w by (auto simp: grow_atom_array_def n_def [symmetric] Let_def)
  next
    case grow
    define rt' where "rt' = rt\<lparr>atom_array := atom_array rt @ free_entries ?s n, atom_free_index := ?s, outside := w\<rparr>"
    have res: "grow_atom_array M rt = Inr (True, rt')"
      using grow s w arr by (simp add: grow_atom_array_def n_def [symmetric] rt'_def Let_def)
    have "8 * n \<le> 2 ^ 32" using M w grow(2) unfolding memory_ok_def by metis
    moreover have "?s < n" by (simp add: n_def less_max_iff_disj) linarith
    ultimately have n: "?s < n" "8 * n \<le> 2 ^ 32" by blast+
    have "free_for (atom_array rt') (atom_free_index rt')"
      using free_grow [OF no_free_entries arr n(1)] tok(2) full by (simp add: rt'_def)
    moreover have at': "atom_at rt' = atom_at rt" by (rule atom_at_append [of _ _ ?s n]) (simp_all add: rt'_def)
    moreover from this have "link rt' = link rt" "hash_at rt' = hash_at rt" "hashed rt' = hashed rt"
      by (auto simp: fun_eq_iff link_def hash_at_def hashed_def)
    moreover have "entries_ok rt'" by (rule entries_append [OF tok(3), of _ ?s n]) (simp_all add: rt'_def)
    moreover have "unique_ok rt'" using tok(4) by (rule unique_ok_fewer [OF _ at'])
    moreover have "sizes_ok rt'" using tok(5) n at' by (auto simp: sizes_ok_def rt'_def free_entries_def)
    ultimately have "table_ok rt'" using tok(1) by (simp add: table_ok_def) (simp add: rt'_def)
    moreover have "\<exists>m > ?s. atom_array rt' = atom_array rt @ free_entries ?s m" using n(1) by (auto simp: rt'_def)
    moreover have "strings rt' = strings rt" "atom_hash rt' = atom_hash rt" "atom_free_index rt' = ?s" by (simp_all add: rt'_def)
    ultimately show ?thesis using res at' arr by (intro exI [of _ True] exI [of _ rt']) simp
  qed
qed

section \<open>Creating an atom\<close>

lemma has_text_texts:
  assumes "table_ok rt" and "ty \<noteq> 3"
  shows "has_text rt j ty us \<longleftrightarrow> texts rt j = Some (ty, us)"
proof -
  have "atom_type a = 3" if "atom_at rt 0 = Some a" for a
    using that entries_ex [OF table_okD(3) [OF assms(1)], of 0] by (elim atom_atE) auto
  then show ?thesis using assms(2) by (cases "j = 0") (auto simp: has_text_def texts_def)
qed

lemma texts_entered:
  assumes "i < length (atom_array rt)" and "i \<noteq> 0" and "Atom p \<notin> set (atom_array rt)"
    and "atom_array rt' = (atom_array rt)[i := Atom p]" and "view rt' = (view rt)(p \<mapsto> unlinked b)"
  shows "texts rt' = (texts rt)(i \<mapsto> (atom_type b, units (chars b)))"
proof
  fix j
  show "texts rt' j = ((texts rt)(i \<mapsto> (atom_type b, units (chars b)))) j"
  proof (cases "j = i")
    case True
    have "view rt' p = Some (unlinked b)" using assms(5) by simp
    then obtain c where "strings rt' p = Some c" "unlinked c = unlinked b" by (auto simp: view_def)
    then show ?thesis using True assms(1,2,4) by (simp add: texts_def atom_at_def unlinked_eq)
  next
    case False
    have "texts rt' j = texts rt j"
    proof (rule texts_view)
      fix q assume "j < length (atom_array rt)" "atom_array rt ! j = Atom q"
      then have "q \<noteq> p" using assms(3) nth_mem by metis
      then show "view rt' q = view rt q" using assms(5) by simp
    qed (use False assms(4) in simp_all)
    then show ?thesis using False by simp
  qed
qed

text \<open>The entries from \<open>k\<close> on are free and in order, as in a table that nothing was taken out of.\<close>

definition free_tail :: "'w atom_runtime \<Rightarrow> nat \<Rightarrow> bool" where
  "free_tail rt k \<longleftrightarrow> 0 < k \<and> k \<le> length (atom_array rt) \<and>
     atom_free_index rt = (if k = length (atom_array rt) then 0 else k) \<and>
     (\<forall>j. k \<le> j \<and> j < length (atom_array rt) \<longrightarrow>
        atom_array rt ! j = Free (if j = length (atom_array rt) - 1 then 0 else j + 1))"

lemma free_tail_next:
  assumes "free_tail rt k" and "atom_free_index rt \<noteq> 0" and "atom_array rt' = (atom_array rt)[atom_free_index rt := Atom p]"
    and "atom_array rt ! atom_free_index rt = Free (atom_free_index rt')"
  shows "atom_free_index rt = k \<and> free_tail rt' (k + 1)"
proof -
  have k: "k < length (atom_array rt)" "atom_free_index rt = k" using assms(1,2) by (auto simp: free_tail_def split: if_splits)
  then have "atom_free_index rt' = (if k = length (atom_array rt) - 1 then 0 else k + 1)"
    using assms(1,4) by (auto simp: free_tail_def)
  then show ?thesis using k assms(1,3) by (auto simp: free_tail_def)
qed

lemma enter_new:
  assumes T: "table_ok (without p rt)" and p: "Atom p \<notin> set (atom_array rt)" "strings rt p = Some a"
    and i: "atom_free_index rt \<noteq> 0" and ty: "ty \<in> {1, 2, 3}"
    and string: "ty \<noteq> 3 \<Longrightarrow> h = hash_string (chars a) (of_nat ty) AND JS_ATOM_HASH_MASK \<and>
      h1 = bucket (length (atom_hash rt)) h \<and> (\<forall>j. texts rt j \<noteq> Some (ty, units (chars a)))"
    and symbol: "ty = 3 \<Longrightarrow> h \<in> {JS_ATOM_HASH_SYMBOL, JS_ATOM_HASH_PRIVATE}"
  shows "\<exists>rt'. enter_atom M p h h1 ty rt = Inr (atom_free_index rt, rt') \<and> table_ok rt' \<and>
    texts rt' = (texts rt)(atom_free_index rt \<mapsto> (ty, units (chars a))) \<and> texts rt (atom_free_index rt) = None \<and>
    refs rt' = refs rt \<and> (\<forall>p. null_atom rt' p \<longleftrightarrow> null_atom rt p) \<and> atom_array rt' \<noteq> [] \<and>
    (\<forall>k. free_tail rt k \<longrightarrow> atom_free_index rt = k \<and> free_tail rt' (k + 1))"
proof -
  obtain n where n: "atom_free_index rt < length (atom_array rt)" "atom_array rt ! atom_free_index rt = Free n"
    using free_pop [of "atom_array rt" "atom_free_index rt" p] table_okD(2) [OF T] i by auto
  have at0: "atom_at (without p rt) = atom_at rt" by (rule atom_at_elsewhere [OF p(1)]) auto
  have "\<forall>j. \<not> has_text rt j ty (units (chars a))" if "ty \<noteq> 3"
  proof -
    have "has_text (without p rt) = has_text rt" "texts (without p rt) = texts rt"
      by (simp_all add: at0 has_text_def texts_def fun_eq_iff)
    then show ?thesis using string [OF that] has_text_texts [OF T that] by simp
  qed
  then have *: "ty \<noteq> 3 \<Longrightarrow> h = hash_string (chars a) (of_nat ty) AND JS_ATOM_HASH_MASK \<and>
      h1 = bucket (length (atom_hash rt)) h \<and> (\<forall>j. \<not> has_text rt j ty (units (chars a)))"
    using string by blast
  obtain rt' where rt': "enter_atom M p h h1 ty rt = Inr (atom_free_index rt, rt')" "table_ok rt'"
    "atom_array rt' = (atom_array rt)[atom_free_index rt := Atom p]"
    "view rt' = (view rt)(p \<mapsto> unlinked (a\<lparr>hash := h, atom_type := ty\<rparr>))"
    "atom_array rt ! atom_free_index rt = Free (atom_free_index rt')"
    using enter_atom_enters [OF T p i ty * symbol] by blast
  have "texts rt' = (texts rt)(atom_free_index rt \<mapsto> (ty, units (chars a)))"
    using texts_entered [OF n(1) i p(1) rt'(3,4)] by simp
  moreover have "refs rt' = refs rt"
  proof
    fix q
    have "view rt' p = Some (unlinked (a\<lparr>hash := h, atom_type := ty\<rparr>))" using rt'(4) by simp
    then have "refs rt' p = refs rt p" using p(2) by (auto simp: view_def refs_def unlinked_eq)
    then show "refs rt' q = refs rt q" using refs_view [of rt' q rt] rt'(4) by (cases "q = p") simp_all
  qed
  moreover have "texts rt (atom_free_index rt) = None" using n by (simp add: texts_def atom_at_def)
  moreover have "atom_array rt' \<noteq> []" using rt'(3) n(1) by auto
  moreover have "null_atom rt' q \<longleftrightarrow> null_atom rt q" for q using rt'(3) n(1) i by (simp add: null_atom_def)
  moreover have "\<forall>k. free_tail rt k \<longrightarrow> atom_free_index rt = k \<and> free_tail rt' (k + 1)"
    using free_tail_next [OF _ i rt'(3,5)] by blast
  ultimately show ?thesis using rt'(1,2) by blast
qed

text \<open>What giving up the string \<open>str\<close> does to the texts and the counts.\<close>

definition freed_texts :: "ptr option \<Rightarrow> 'w atom_runtime \<Rightarrow> nat \<Rightarrow> (nat \<times> u16 list) option" where
  "freed_texts str rt = (case str of None \<Rightarrow> texts rt | Some s \<Rightarrow> texts_freed rt s)"

definition string_ok :: "ptr option \<Rightarrow> u16 list \<Rightarrow> 'w atom_runtime \<Rightarrow> bool" where
  "string_ok str us rt \<longleftrightarrow> (case str of None \<Rightarrow> us = []
     | Some s \<Rightarrow> \<exists>a. strings rt s = Some a \<and> units (chars a) = us \<and> \<not> null_atom rt s)"

lemma texts_freed_le: "texts_freed rt s i = None \<or> texts_freed rt s i = texts rt i"
  by (simp add: texts_freed_def)

lemma texts_freed_plain:
  assumes "table_ok rt" and "strings rt s = Some a" and "atom_type a = 0"
  shows "texts_freed rt s = texts rt"
  using not_in_table [OF assms(1), of s] assms(2,3) by (auto simp: texts_freed_def fun_eq_iff in_set_conv_nth)

lemma finish_atom_frees:
  assumes T: "table_ok rt" and s: "string_ok str us rt"
  shows "\<exists>rt'. finish_atom M str i rt = Inr (i, rt') \<and> table_ok rt' \<and> texts rt' = freed_texts str rt \<and>
    (\<forall>p. null_atom rt' p \<longleftrightarrow> null_atom rt p) \<and> length (atom_array rt') = length (atom_array rt)"
proof (cases str)
  case None
  then show ?thesis using T by (auto simp: finish_atom_def freed_texts_def)
next
  case (Some s')
  then obtain a where a: "strings rt s' = Some a" "\<not> null_atom rt s'" using s by (auto simp: string_ok_def)
  obtain rt' where "js_free_string M s' rt = Inr rt'" "table_ok rt'" "texts rt' = texts_freed rt s'"
    "\<forall>p. null_atom rt' p \<longleftrightarrow> null_atom rt p" "length (atom_array rt') = length (atom_array rt)"
    using free_string_frees [OF T a] by blast
  then show ?thesis using Some by (simp add: finish_atom_def freed_texts_def)
qed

text \<open>A structure that was allocated and is not in the table.\<close>

lemma new_string:
  assumes T: "table_ok rt" and fresh: "strings rt p = None" and b: "atom_type b = 0"
    and rt1_def: "rt1 = put p b (rt\<lparr>outside := w\<rparr>)"
  shows "table_ok rt1" "table_ok (without p rt1)" "Atom p \<notin> set (atom_array rt1)" "atom_at rt1 = atom_at rt" "texts rt1 = texts rt"
    "refs rt1 = (refs rt)(p \<mapsto> header_ref_count b)" "null_atom rt1 = null_atom rt"
    "texts_freed rt1 s = (if s = p then texts rt else texts_freed rt s)"
proof -
  have notin: "Atom p \<notin> set (atom_array rt)" using not_in_table [OF T] fresh by simp
  then show "Atom p \<notin> set (atom_array rt1)" by (simp add: rt1_def)
  have T': "table_ok (rt\<lparr>outside := w\<rparr>)" using T by simp
  have rt1: "rt1 = (rt\<lparr>outside := w\<rparr>)\<lparr>strings := (strings (rt\<lparr>outside := w\<rparr>))(p := Some b)\<rparr>"
    by (simp add: rt1_def put_def)
  show "table_ok rt1" "atom_at rt1 = atom_at rt"
    using table_ok_elsewhere [OF T', of p "Some b"] notin b unfolding rt1 by auto
  then show texts1: "texts rt1 = texts rt" by (simp add: texts_def fun_eq_iff)
  have "without p rt1 = rt\<lparr>outside := w\<rparr>" using fresh by (simp add: rt1_def put_def fun_upd_idem)
  then show "table_ok (without p rt1)" using T' by simp
  show "refs rt1 = (refs rt)(p \<mapsto> header_ref_count b)" by (auto simp: refs_def rt1_def fun_eq_iff)
  show "null_atom rt1 = null_atom rt" by (simp add: null_atom_def rt1_def fun_eq_iff)
  show "texts_freed rt1 s = (if s = p then texts rt else texts_freed rt s)"
  proof
    fix i
    have "atom_array rt1 ! i \<noteq> Atom p" if "i < length (atom_array rt1)"
      using that notin unfolding rt1_def by simp (metis nth_mem)
    moreover have "refs rt1 s = refs rt s" if "s \<noteq> p" using that by (simp add: refs_def rt1_def)
    moreover have "atom_array rt1 = atom_array rt" by (simp add: rt1_def)
    ultimately show "texts_freed rt1 s i = (if s = p then texts rt else texts_freed rt s) i"
      by (cases "s = p") (auto simp: texts_freed_def texts1)
  qed
qed

text \<open>The effect of creating an atom with the index \<open>i\<close>, or of failing to (\<open>i = 0\<close>).\<close>

definition created ::
  "ptr option \<Rightarrow> nat \<Rightarrow> u16 list \<Rightarrow> 'w atom_runtime \<Rightarrow> nat \<Rightarrow> 'w atom_runtime \<Rightarrow> bool" where
  "created str ty us rt i rt' \<longleftrightarrow> table_ok rt' \<and>
    texts rt' = (if i = 0 then freed_texts str rt else (freed_texts str rt)(i \<mapsto> (ty, us))) \<and>
    (i \<noteq> 0 \<longrightarrow> freed_texts str rt i = None) \<and> (\<forall>p. null_atom rt' p \<longleftrightarrow> null_atom rt p) \<and>
    (\<forall>s a. i \<noteq> 0 \<longrightarrow> str = Some s \<longrightarrow> strings rt s = Some a \<longrightarrow> atom_type a = 0 \<longrightarrow> refs rt' = refs rt \<and>
      (\<forall>k. free_tail rt k \<longrightarrow> i = k \<and> free_tail rt' (k + 1)))"

lemma new_structure_enters:
  assumes T: "table_ok rt" and M: "memory_ok M" and s: "string_ok str us rt" "str = None \<Longrightarrow> ty = 3"
    and i: "atom_free_index rt \<noteq> 0" and ty: "ty \<in> {1, 2, 3}"
    and string: "ty \<noteq> 3 \<Longrightarrow> h = hash_units (of_nat ty) us AND JS_ATOM_HASH_MASK \<and>
      h1 = bucket (length (atom_hash rt)) h \<and> (\<forall>j. texts rt j \<noteq> Some (ty, us))"
    and symbol: "ty = 3 \<Longrightarrow> h \<in> {JS_ATOM_HASH_SYMBOL, JS_ATOM_HASH_PRIVATE}"
  shows "\<exists>i rt'. bnd (new_structure M str ty rt) (\<lambda>(r, rt).
      case r of None \<Rightarrow> finish_atom M str JS_ATOM_NULL rt | Some p \<Rightarrow> enter_atom M p h h1 ty rt) = Inr (i, rt') \<and> created str ty us rt i rt'"
proof (cases str)
  case None
  then have ty3: "ty = 3" "us = []" using s by (auto simp: string_ok_def)
  obtain r w where w: "alloc_string M 16 (strings rt) (outside rt) = (r, w)" by fastforce
  show ?thesis
  proof (cases r)
    case None
    then show ?thesis using \<open>str = None\<close> w T
      by (simp add: created_def new_structure_def finish_atom_def atom_consts freed_texts_def)
  next
    case (Some p)
    then have fresh: "strings rt p = None" using M w unfolding memory_ok_def by blast
    let ?b = "\<lparr>header_ref_count = 1, chars = Str16 [], atom_type = 0, hash = 0, hash_next = 0\<rparr>"
    let ?rt1 = "put p ?b (rt\<lparr>outside := w\<rparr>)"
    have plain: "atom_type ?b = 0" by simp
    note new = new_string [OF T fresh plain refl, of w]
    obtain rt' where "enter_atom M p h h1 ty ?rt1 = Inr (atom_free_index ?rt1, rt')" "table_ok rt'"
      "texts rt' = (texts ?rt1)(atom_free_index ?rt1 \<mapsto> (ty, []))" "texts ?rt1 (atom_free_index ?rt1) = None"
      "\<forall>p. null_atom rt' p \<longleftrightarrow> null_atom ?rt1 p"
      using enter_new [OF new(2,3), of ?b ty h h1 M] i ty3 symbol by auto
    then show ?thesis using Some w \<open>str = None\<close> ty3 new i by (simp add: created_def new_structure_def freed_texts_def)
  qed
next
  case (Some s')
  then obtain a where a: "strings rt s' = Some a" "units (chars a) = us" "\<not> null_atom rt s'" using s by (auto simp: string_ok_def)
  show ?thesis
  proof (cases "atom_type a = 0")
    case True
    let ?rt1 = "put s' (a\<lparr>atom_type := ty\<rparr>) rt"
    have notin: "Atom s' \<notin> set (atom_array rt)" using not_in_table [OF T] a(1) True by simp
    have "without s' ?rt1 = rt\<lparr>strings := (strings rt)(s' := None)\<rparr>" by (simp add: put_def)
    then have T1: "table_ok (without s' ?rt1)" using table_ok_elsewhere(1) [OF T notin, of None] by simp
    have at1: "atom_at ?rt1 = atom_at rt" by (rule atom_at_elsewhere [OF notin]) auto
    then have texts1: "texts ?rt1 = texts rt" by (simp add: texts_def fun_eq_iff)
    have refs1: "refs ?rt1 = refs rt" using a(1) by (auto simp: refs_def fun_eq_iff)
    have null1: "null_atom ?rt1 = null_atom rt" and tail1: "free_tail ?rt1 = free_tail rt"
      by (simp_all add: fun_eq_iff null_atom_def free_tail_def)
    obtain rt' where "enter_atom M s' h h1 ty ?rt1 = Inr (atom_free_index ?rt1, rt')" "table_ok rt'"
      "texts rt' = (texts ?rt1)(atom_free_index ?rt1 \<mapsto> (ty, us))" "texts ?rt1 (atom_free_index ?rt1) = None"
      "refs rt' = refs ?rt1" "\<forall>p. null_atom rt' p \<longleftrightarrow> null_atom ?rt1 p"
      "\<forall>k. free_tail ?rt1 k \<longrightarrow> atom_free_index ?rt1 = k \<and> free_tail rt' (k + 1)"
      using enter_new [OF T1, of "a\<lparr>atom_type := ty\<rparr>" ty h h1 M] notin i ty string symbol texts1 a(2)
      by (auto simp: hash_string_units)
    then show ?thesis
      using Some True a i texts1 refs1 texts_freed_plain [OF T a(1) True]
      by (simp add: created_def new_structure_def deref_Some freed_texts_def null1 tail1)
  next
    case False
    obtain r w where w: "alloc_string M (string_size (js_len (chars a)) (is_wide_char (chars a))) (strings rt) (outside rt) = (r, w)"
      by fastforce
    show ?thesis
    proof (cases r)
      case None
      have "table_ok (rt\<lparr>outside := w\<rparr>)" "string_ok str us (rt\<lparr>outside := w\<rparr>)"
        using T s by (simp_all add: string_ok_def null_atom_def split: option.splits)
      from finish_atom_frees [OF this, of M JS_ATOM_NULL] obtain rt' where
        "finish_atom M str JS_ATOM_NULL (rt\<lparr>outside := w\<rparr>) = Inr (JS_ATOM_NULL, rt')" "table_ok rt'"
        "texts rt' = freed_texts str (rt\<lparr>outside := w\<rparr>)" "\<forall>p. null_atom rt' p \<longleftrightarrow> null_atom (rt\<lparr>outside := w\<rparr>) p"
        by blast
      moreover have "freed_texts str (rt\<lparr>outside := w\<rparr>) = freed_texts str rt"
        by (cases str) (simp_all add: freed_texts_def)
      ultimately show ?thesis using Some None False w by (simp add: created_def new_structure_def deref_Some [OF a(1)] atom_consts null_atom_def)
    next
      case (Some p)
      then have fresh: "strings rt p = None" using M w unfolding memory_ok_def by blast
      then have ps: "p \<noteq> s'" using a(1) by auto
      let ?b = "\<lparr>header_ref_count = 1, chars = chars a, atom_type = 0, hash = 0, hash_next = 0\<rparr>"
      let ?rt1 = "put p ?b (rt\<lparr>outside := w\<rparr>)"
      have plain: "atom_type ?b = 0" by simp
    note new = new_string [OF T fresh plain refl, of w]
      have s1: "strings ?rt1 s' = Some a" "\<not> null_atom ?rt1 s'" using a ps new(7) by simp_all
      obtain rt2 where rt2: "js_free_string M s' ?rt1 = Inr rt2" "table_ok rt2" "length (atom_hash rt2) = length (atom_hash ?rt1)"
        "atom_free_index ?rt1 \<noteq> 0 \<longrightarrow> atom_free_index rt2 \<noteq> 0" "texts rt2 = texts_freed ?rt1 s'"
        "\<forall>q. q \<noteq> s' \<longrightarrow> view rt2 q = view ?rt1 q" "set (atom_array rt2) \<inter> range Atom \<subseteq> set (atom_array ?rt1)"
        "\<forall>p. null_atom rt2 p \<longleftrightarrow> null_atom ?rt1 p"
        using free_string_frees [OF new(1) s1, of M] by blast
      have "view rt2 p = Some (unlinked ?b)" using rt2(6) ps by (simp add: view_put)
      then obtain b where b: "strings rt2 p = Some b" "chars b = chars a" "atom_type b = 0"
        by (auto simp: view_def unlinked_eq)
      have notin: "Atom p \<notin> set (atom_array rt2)" using rt2(7) new(3) by auto
      have T3: "table_ok (without p rt2)" using table_ok_elsewhere(1) [OF rt2(2) notin, of None] by simp
      have texts2: "texts rt2 = freed_texts str rt" using rt2(5) new(8) ps \<open>str = Some s'\<close> by (simp add: freed_texts_def)
      have "texts rt2 j \<noteq> Some (ty, us)" if "ty \<noteq> 3" for j
        using string [OF that] texts_freed_le [of rt s' j] texts2 \<open>str = Some s'\<close> by (auto simp: freed_texts_def)
      then obtain rt' where "enter_atom M p h h1 ty rt2 = Inr (atom_free_index rt2, rt')" "table_ok rt'"
        "texts rt' = (texts rt2)(atom_free_index rt2 \<mapsto> (ty, us))" "texts rt2 (atom_free_index rt2) = None"
        "\<forall>p. null_atom rt' p \<longleftrightarrow> null_atom rt2 p"
        using enter_new [OF T3 notin b(1), of ty h h1 M] rt2(3,4) b(2) a(2) i ty string symbol by (auto simp: hash_string_units)
      then show ?thesis
        using Some False a rt2(1,4,8) i w \<open>str = Some s'\<close> texts2 new(7)
        by (simp add: created_def new_structure_def deref_Some)
    qed
  qed
qed

text \<open>The table as it is before and after: the contents \<open>us\<close> of the given string are entered or not.\<close>

lemma create_creates:
  assumes T: "table_ok rt" and M: "memory_ok M" and s: "string_ok str us rt" "str = None \<Longrightarrow> ty = 3"
    and arr: "atom_array rt \<noteq> []" and ty: "ty \<in> {1, 2, 3}"
    and string: "ty \<noteq> 3 \<Longrightarrow> h = hash_units (of_nat ty) us AND JS_ATOM_HASH_MASK \<and>
      h1 = bucket (length (atom_hash rt)) h \<and> (\<forall>j. texts rt j \<noteq> Some (ty, us))"
    and symbol: "ty = 3 \<Longrightarrow> h \<in> {JS_ATOM_HASH_SYMBOL, JS_ATOM_HASH_PRIVATE}"
  shows "\<exists>i rt'. create_atom M str h h1 ty rt = Inr (i, rt') \<and> created str ty us rt i rt'"
proof (cases "atom_free_index rt = 0")
  case False
  then show ?thesis using new_structure_enters [OF T M s False ty string symbol] by (simp add: create_atom_def)
next
  case True
  obtain ok rt1 where rt1: "grow_atom_array M rt = Inr (ok, rt1)" "table_ok rt1" "strings rt1 = strings rt"
    "atom_hash rt1 = atom_hash rt" "atom_at rt1 = atom_at rt" "ok \<longrightarrow> atom_free_index rt1 \<noteq> 0"
    and arr2: "\<exists>m > length (atom_array rt). atom_array rt1 = atom_array rt @ (if ok then free_entries (length (atom_array rt)) m else [])"
    and start: "ok \<longrightarrow> atom_free_index rt1 = length (atom_array rt)"
    using grow_grows [OF T M True arr] by blast
  define n where "n = length (atom_array rt)"
  obtain m where arr1: "atom_array rt1 = atom_array rt @ (if ok then free_entries n m else [])" and m: "n < m"
    using arr2 unfolding n_def by blast
  have texts1: "texts rt1 = texts rt" using rt1(5) by (simp add: texts_def fun_eq_iff)
  have refs1: "refs rt1 = refs rt" using rt1(3) by (simp add: refs_def fun_eq_iff)
  have null1: "null_atom rt1 = null_atom rt" using arr arr1 by (auto simp: null_atom_def fun_eq_iff nth_append)
  have free: "free_entries n m ! j \<noteq> Atom p" if "j < length (free_entries n m)" for j p
    using that by (simp add: free_entries_def)
  have "texts_freed rt1 q = texts_freed rt q" for q
  proof
    fix i
    have "i < length (atom_array rt1) \<and> atom_array rt1 ! i = Atom q \<longleftrightarrow> i < length (atom_array rt) \<and> atom_array rt ! i = Atom q"
      using arr1 free [of "i - length (atom_array rt)" q] by (cases "i < length (atom_array rt)") (auto simp: nth_append)
    then show "texts_freed rt1 q i = texts_freed rt q i" unfolding texts_freed_def texts1 refs1 by auto
  qed
  then have freed1: "freed_texts str rt1 = freed_texts str rt" using texts1 by (cases str) (simp_all add: freed_texts_def)
  have s1: "string_ok str us rt1" using s(1) rt1(3) null1 by (simp add: string_ok_def split: option.splits)
  show ?thesis
  proof (cases ok)
    case False
    obtain rt' where "finish_atom M str JS_ATOM_NULL rt1 = Inr (JS_ATOM_NULL, rt')" "table_ok rt'"
      "texts rt' = freed_texts str rt1" "\<forall>p. null_atom rt' p \<longleftrightarrow> null_atom rt1 p"
      using finish_atom_frees [OF rt1(2) s1] by blast
    then show ?thesis using False True rt1(1) freed1 null1 by (simp add: created_def create_atom_def atom_consts)
  next
    case ok: True
    have i1: "atom_free_index rt1 \<noteq> 0" using ok rt1(6) by simp
    have string1: "ty \<noteq> 3 \<Longrightarrow> h = hash_units (of_nat ty) us AND JS_ATOM_HASH_MASK \<and>
      h1 = bucket (length (atom_hash rt1)) h \<and> (\<forall>j. texts rt1 j \<noteq> Some (ty, us))"
      using string rt1(4) texts1 by simp
    have "create_atom M str h h1 ty rt = bnd (new_structure M str ty rt1) (\<lambda>(r, rt).
      case r of None \<Rightarrow> finish_atom M str JS_ATOM_NULL rt | Some p \<Rightarrow> enter_atom M p h h1 ty rt)"
      using ok True rt1(1) by (simp add: create_atom_def)
    moreover have "free_tail rt1 k" if "free_tail rt k" for k
    proof -
      have "k = n" "0 < k" using that True by (auto simp: free_tail_def n_def split: if_splits)
      then show ?thesis using arr1 ok m start by (auto simp: free_tail_def n_def [symmetric] nth_append free_entries_def)
    qed
    moreover obtain i rt' where "bnd (new_structure M str ty rt1) (\<lambda>(r, rt).
      case r of None \<Rightarrow> finish_atom M str JS_ATOM_NULL rt | Some p \<Rightarrow> enter_atom M p h h1 ty rt) = Inr (i, rt')"
      and "created str ty us rt1 i rt'"
      using new_structure_enters [OF rt1(2) M s1 s(2) i1 ty string1 symbol] by blast
    ultimately show ?thesis using freed1 null1 refs1 rt1(3) by (auto simp: created_def)
  qed
qed

section \<open>The operations\<close>

text \<open>The index at which a string of a type is found, if there is one.\<close>

lemma unique_text: "table_ok rt \<Longrightarrow> ty \<noteq> 3 \<Longrightarrow> has_text rt i ty us \<Longrightarrow> has_text rt j ty us \<Longrightarrow> i = j"
  using table_okD(4) unfolding has_text_def unique_ok_def by metis

lemma null_not_text: "table_ok rt \<Longrightarrow> ty \<noteq> 3 \<Longrightarrow> \<not> has_text rt 0 ty us"
  using has_text_texts [of rt ty 0 us] by (simp add: texts_def)

lemma add_reference_adds:
  assumes "table_ok rt" and "strings rt p = Some a"
  shows "\<exists>rt'. add_reference p rt = Inr rt' \<and> table_ok rt' \<and> texts rt' = texts rt \<and> atom_array rt' = atom_array rt \<and>
    strings rt' = (strings rt)(p \<mapsto> a\<lparr>header_ref_count := header_ref_count a + 1\<rparr>)"
  using assms table_ok_refcount [OF assms] texts_put_refcount [OF assms(2)]
  by (simp add: add_reference_def deref_Some)

lemma AtomIsConst_index: "i < 2 ^ 31 \<Longrightarrow> AtomIsConst (of_nat i) \<longleftrightarrow> i < 225"
  by (simp add: AtomIsConst_def atom_consts signed_of_nat signed_take_bit_int_eq_self)

text \<open>Entry 0 is in use as soon as there is one.\<close>

lemma null_exists:
  assumes "table_ok rt" and "atom_array rt \<noteq> []"
  shows "\<exists>p. null_atom rt p"
proof -
  obtain fs where "chain (free_link (atom_array rt)) (atom_free_index rt) fs" "set fs = {i. free_link (atom_array rt) i \<noteq> None}"
    using table_okD(2) [OF assms(1)] by (auto simp: free_for_def)
  then have "free_link (atom_array rt) 0 = None" using chain_nonzero by blast
  then show ?thesis using assms(2) by (auto simp: null_atom_def free_link_def split: entry.splits)
qed

text \<open>
  Entering a string that is no atom yet: it is found, or entered, or there is no memory. When found,
  the reference to the string is exchanged for one to the atom (which the constant atoms, below 225,
  do not count).
\<close>

lemma NewAtom_string:
  assumes T: "table_ok rt" and M: "memory_ok M" and arr: "atom_array rt \<noteq> []" and ty: "ty \<in> {1, 2}"
    and s: "strings rt s = Some a" "atom_type a = 0" "header_ref_count a \<ge> 1"
  shows "\<exists>i rt'. NewAtom M (Some s) ty rt = Inr (i, rt') \<and> table_ok rt' \<and> atom_array rt' \<noteq> [] \<and>
    (if \<exists>j. has_text rt j ty (units (chars a))
     then has_text rt i ty (units (chars a)) \<and> texts rt' = texts rt \<and>
       (\<forall>p. p \<noteq> s \<longrightarrow> refs rt' p = (if atom_array rt ! i = Atom p \<and> i \<ge> 225 then map_option (\<lambda>n. n + 1) (refs rt p) else refs rt p)) \<and>
       refs rt' s = (if header_ref_count a = 1 then None else Some (header_ref_count a - 1))
     else if i = 0 then texts rt' = texts rt
     else texts rt i = None \<and> texts rt' = (texts rt)(i \<mapsto> (ty, units (chars a))) \<and> refs rt' = refs rt \<and>
       (\<forall>k. free_tail rt k \<longrightarrow> i = k \<and> free_tail rt' (k + 1)))"
proof -
  note ok = table_okD [OF T]
  let ?us = "units (chars a)"
  have notin: "Atom s \<notin> set (atom_array rt)" using not_in_table [OF T] s by simp
  have not_null: "\<not> null_atom rt s" using notin unfolding null_atom_def by (metis length_greater_0_conv nth_mem)
  define h where "h = hash_string (chars a) (of_nat ty) AND JS_ATOM_HASH_MASK"
  define h1 where "h1 = bucket (length (atom_hash rt)) h"
  have h1: "h1 < length (atom_hash rt)" using ok(7) by (simp add: h1_def)
  have ty3: "ty \<noteq> 3" "ty < JS_ATOM_TYPE_SYMBOL" "atom_type a \<noteq> ty" using ty s(2) by (auto simp: atom_consts)
  obtain i where i: "find_atom (length (atom_array rt)) rt h ty (chars a) (atom_hash rt ! h1) = Inr i"
    "if i = 0 then \<forall>j. \<not> has_text rt j ty ?us else has_text rt i ty ?us"
    using find_atom_finds [OF T ty h_def] h1_def by auto
  show ?thesis
  proof (cases "i = 0")
    case True
    then have none: "\<forall>j. \<not> has_text rt j ty ?us" using i(2) by simp
    have "NewAtom M (Some s) ty rt = create_atom M (Some s) h h1 ty rt"
      using ty3 True i(1) h1 by (simp add: NewAtom_def deref_Some [OF s(1)] h_def [symmetric] h1_def [symmetric] Let_def)
    moreover have "string_ok (Some s) ?us rt" using s(1) not_null by (simp add: string_ok_def)
    moreover have "\<forall>j. texts rt j \<noteq> Some (ty, ?us)" using none has_text_texts [OF T ty3(1)] by simp
    ultimately obtain k rt' where "NewAtom M (Some s) ty rt = Inr (k, rt')" "table_ok rt'"
      "texts rt' = (if k = 0 then freed_texts (Some s) rt else (freed_texts (Some s) rt)(k \<mapsto> (ty, ?us)))"
      "k \<noteq> 0 \<longrightarrow> freed_texts (Some s) rt k = None" "\<forall>p. null_atom rt' p \<longleftrightarrow> null_atom rt p" "k \<noteq> 0 \<longrightarrow> refs rt' = refs rt"
      "\<forall>n. k \<noteq> 0 \<and> free_tail rt n \<longrightarrow> k = n \<and> free_tail rt' (n + 1)"
      using create_creates [OF T M, of "Some s" ?us ty h h1] arr ty ty3 h1_def h_def s
      by (auto simp: hash_string_units created_def)
    moreover have "freed_texts (Some s) rt = texts rt" by (simp add: freed_texts_def texts_freed_plain [OF T s(1,2)])
    moreover have "atom_array rt' \<noteq> []" using null_exists [OF T arr] calculation(5) by (auto simp: null_atom_def)
    ultimately show ?thesis using none by auto
  next
    case False
    then have found: "has_text rt i ty ?us" using i(2) by simp
    then obtain b where b: "atom_at rt i = Some b" by (auto simp: has_text_def)
    obtain p where p: "i < length (atom_array rt)" "atom_array rt ! i = Atom p" "strings rt p = Some b" "atom_ptr rt i = Inr p"
      using pointer_at [OF b] by metis
    then have ps: "p \<noteq> s" using notin nth_mem by metis
    have "i < 2 ^ 31" using p(1) ok(5) by (simp add: sizes_ok_def)
    note const = AtomIsConst_index [OF this]
    define rt1 where "rt1 = (if i < 225 then rt else put p (b\<lparr>header_ref_count := header_ref_count b + 1\<rparr>) rt)"
    have rt1: "table_ok rt1" "texts rt1 = texts rt" "atom_array rt1 = atom_array rt" "strings rt1 s = Some a"
      using T table_ok_refcount [OF T p(3)] texts_put_refcount [OF p(3)] s(1) ps by (auto simp: rt1_def)
    have new: "NewAtom M (Some s) ty rt = finish_atom M (Some s) i rt1"
      using ty3 False i(1) h1 p(4) const
      by (simp add: NewAtom_def deref_Some [OF s(1)] h_def [symmetric] h1_def [symmetric] Let_def rt1_def
          add_reference_def deref_Some [OF p(3)])
    have "\<not> null_atom rt1 s" using not_null rt1(3) by (simp add: null_atom_def)
    from free_string_frees [OF rt1(1,4) this, of M] obtain rt' where rt': "js_free_string M s rt1 = Inr rt'" "table_ok rt'"
      "length (atom_array rt') = length (atom_array rt1)"
      "refs rt' = (refs rt1)(s := if header_ref_count a \<le> 1 then None else Some (header_ref_count a - 1))"
      "texts rt' = texts_freed rt1 s" by blast
    have "texts rt' = texts rt" using rt'(5) texts_freed_plain [OF rt1(1,4) s(2)] rt1(2) by simp
    moreover have "refs rt' q = (if atom_array rt ! i = Atom q \<and> i \<ge> 225 then map_option (\<lambda>n. n + 1) (refs rt q) else refs rt q)"
      if "q \<noteq> s" for q using that rt'(4) p(2,3) by (auto simp: rt1_def refs_def)
    moreover have "refs rt' s = (if header_ref_count a = 1 then None else Some (header_ref_count a - 1))"
      using rt'(4) s(3) by simp
    moreover have "atom_array rt' \<noteq> []" using rt'(3) rt1(3) arr by auto
    ultimately show ?thesis using new rt'(1,2) found by (auto simp: finish_atom_def)
  qed
qed

text \<open>The same without the counts, for reasoning by cases.\<close>

lemma NewAtom_texts:
  assumes T: "table_ok rt" and M: "memory_ok M" and arr: "atom_array rt \<noteq> []" and ty: "ty \<in> {1, 2}"
    and s: "strings rt s = Some a" "atom_type a = 0" "header_ref_count a \<ge> 1"
  obtains i rt' where "NewAtom M (Some s) ty rt = Inr (i, rt')" "table_ok rt'" "atom_array rt' \<noteq> []"
    "has_text rt i ty (units (chars a)) \<and> i \<noteq> 0 \<and> texts rt' = texts rt \<or>
     (\<nexists>j. has_text rt j ty (units (chars a))) \<and> i = 0 \<and> texts rt' = texts rt \<or>
     (\<nexists>j. has_text rt j ty (units (chars a))) \<and> i \<noteq> 0 \<and> texts rt i = None \<and>
       texts rt' = (texts rt)(i \<mapsto> (ty, units (chars a))) \<and> (\<forall>k. free_tail rt k \<longrightarrow> i = k \<and> free_tail rt' (k + 1))"
proof (cases "\<exists>j. has_text rt j ty (units (chars a))")
  case True
  obtain i rt' where "NewAtom M (Some s) ty rt = Inr (i, rt')" "table_ok rt'" "atom_array rt' \<noteq> []"
    and i: "has_text rt i ty (units (chars a))" "texts rt' = texts rt"
    using NewAtom_string [OF T M arr ty s] unfolding if_P [OF True] by blast
  moreover have "i \<noteq> 0" using i(1) null_not_text [OF T, of ty] ty by (cases "i = 0") auto
  ultimately show thesis using that by blast
next
  case False
  obtain i rt' where "NewAtom M (Some s) ty rt = Inr (i, rt')" "table_ok rt'" "atom_array rt' \<noteq> []"
    and "if i = 0 then texts rt' = texts rt
     else texts rt i = None \<and> texts rt' = (texts rt)(i \<mapsto> (ty, units (chars a))) \<and> refs rt' = refs rt \<and>
       (\<forall>k. free_tail rt k \<longrightarrow> i = k \<and> free_tail rt' (k + 1))"
    using NewAtom_string [OF T M arr ty s] unfolding if_not_P [OF False] by blast
  then show thesis using that False by (cases "i = 0") auto
qed

end
