(* ===== verification/JsAtomUse.thy ===== *)
theory JsAtomUse
  imports JsAtomTable
begin

text \<open>
  What the engine may rely on of its atoms: they are equal exactly when their strings are, the
  constants of the code are the atoms of their names, and no sequence of uses breaks the table.
\<close>

section \<open>Strings and atoms\<close>

text \<open>The string an atom stands for.\<close>

definition atom_text :: "'w atom_runtime \<Rightarrow> u32 \<Rightarrow> nat list option" where
  "atom_text rt v =
     (if AtomIsTaggedInt v then Some (decimal (unat (AtomToUInt32 v)))
      else case texts rt (unat v) of Some (ty, us) \<Rightarrow> if ty = 1 then Some (map unat us) else None | None \<Rightarrow> None)"

text \<open>Small array indices are never strings in the table.\<close>

definition numerals_ok :: "'w atom_runtime \<Rightarrow> bool" where
  "numerals_ok rt \<longleftrightarrow> (\<forall>i us n. texts rt i = Some (1, us) \<longrightarrow> n < 2 ^ 31 \<longrightarrow> map unat us \<noteq> decimal n)"

lemma bit_tag_int: "bit JS_ATOM_TAG_INT n \<longleftrightarrow> n = 31"
  unfolding JS_ATOM_TAG_INT_def bit_exp_iff by (auto simp: possible_bit_word)

lemma tag_bit: "AtomIsTaggedInt v \<longleftrightarrow> bit v 31"
proof -
  have "v AND JS_ATOM_TAG_INT \<noteq> 0 \<longleftrightarrow> (\<exists>n. bit (v AND JS_ATOM_TAG_INT) n)"
    by (metis bit_0_eq bit_eqI bot_apply bot_bool_def)
  then show ?thesis by (simp add: AtomIsTaggedInt_def bit_and_iff bit_tag_int)
qed

lemma tag_unat: "AtomIsTaggedInt v \<longleftrightarrow> unat v \<ge> 2 ^ 31"
proof -
  have "bit v 31 \<longleftrightarrow> bit (unat v) 31" by (simp add: bit_unsigned_iff)
  also have "\<dots> \<longleftrightarrow> odd (unat v div 2 ^ 31)" by (rule bit_iff_odd)
  finally have "bit v 31 \<longleftrightarrow> odd (unat v div 2 ^ 31)" .
  moreover have "unat v div 2 ^ 31 = (if unat v \<ge> 2 ^ 31 then 1 else 0)"
    using unat_u32 [of v] by (auto simp: div_nat_eqI)
  ultimately show ?thesis unfolding tag_bit by auto
qed

lemma tagged:
  assumes "n \<le> JS_ATOM_MAX_INT"
  shows "AtomIsTaggedInt (AtomFromUInt32 n)" "AtomToUInt32 (AtomFromUInt32 n) = n" "unat n < 2 ^ 31"
proof -
  show n: "unat n < 2 ^ 31" using assms by (simp add: JS_ATOM_MAX_INT_def JS_ATOM_TAG_INT_def word_le_nat_alt)
  then have "\<not> bit n 31" using tag_unat tag_bit by (metis not_less)
  then show "AtomToUInt32 (AtomFromUInt32 n) = n"
    unfolding AtomToUInt32_def AtomFromUInt32_def
    by (intro bit_eqI) (auto simp: bit_tag_int bit_and_iff bit_or_iff bit_not_iff)
  show "AtomIsTaggedInt (AtomFromUInt32 n)"
    by (simp add: tag_bit AtomFromUInt32_def bit_or_iff bit_tag_int)
qed

lemma decimal_inj: "decimal m = decimal n \<Longrightarrow> m = n"
  using decimal_prefix [of m n "[]"] decimal_prefix [of n m "[]"] by simp

lemma unat_index: "i < 2 ^ 31 \<Longrightarrow> unat (of_nat i :: u32) = i"
  by (simp add: unsigned_of_nat take_bit_nat_eq_self)

lemma small_index: "unat (AtomToUInt32 v) < 2 ^ 31"
  using tag_unat [of "AtomToUInt32 v"] tag_bit [of "AtomToUInt32 v"]
  by (simp add: AtomToUInt32_def bit_and_iff bit_not_iff bit_tag_int)

lemma atom_text_index:
  assumes "i < 2 ^ 31"
  shows "atom_text rt (of_nat i) = (case texts rt i of Some (ty, us) \<Rightarrow> if ty = 1 then Some (map unat us) else None | None \<Rightarrow> None)"
proof -
  have "unat (of_nat i :: u32) = i" using assms by (rule unat_index)
  then show ?thesis using assms tag_unat [of "of_nat i"] by (simp add: atom_text_def)
qed

lemma texts_bound: "table_ok rt \<Longrightarrow> texts rt i \<noteq> None \<Longrightarrow> i < 2 ^ 31"
  using table_okD(5) [of rt] by (auto simp: texts_def atom_at_def sizes_ok_def split: if_splits)

text \<open>Atoms with the same string are the same.\<close>

lemma atom_text_inj:
  assumes T: "table_ok rt" and N: "numerals_ok rt" and v: "atom_text rt v = Some us" and w: "atom_text rt w = Some us"
  shows "v = w"
proof -
  have num: False
    if h: "AtomIsTaggedInt v \<and> \<not> AtomIsTaggedInt w \<and> atom_text rt v = Some us \<and> atom_text rt w = Some us" for v w
  proof -
    obtain us' where "texts rt (unat w) = Some (1, us')" "us = map unat us'"
      using h by (auto simp: atom_text_def split: option.splits if_splits)
    then show False using N small_index [of v] h unfolding numerals_ok_def atom_text_def by fastforce
  qed
  show ?thesis
  proof (cases "AtomIsTaggedInt v")
    case True
    then have "AtomIsTaggedInt w" using num v w by blast
    then have "AtomToUInt32 v = AtomToUInt32 w"
      using True v w decimal_inj by (simp add: atom_text_def word_unat_eq_iff)
    moreover have "x = AtomFromUInt32 (AtomToUInt32 x)" if "AtomIsTaggedInt x" for x
      using that unfolding AtomToUInt32_def AtomFromUInt32_def tag_bit
      by (intro bit_eqI) (auto simp: bit_tag_int bit_and_iff bit_or_iff bit_not_iff)
    ultimately show ?thesis using True \<open>AtomIsTaggedInt w\<close> by metis
  next
    case False
    then have "\<not> AtomIsTaggedInt w" using num v w by blast
    then obtain x y where "texts rt (unat v) = Some (1, x)" "us = map unat x" "texts rt (unat w) = Some (1, y)" "us = map unat y"
      using False v w by (auto simp: atom_text_def split: option.splits if_splits)
    moreover from this have "x = y" by (metis inj_map_eq_map inj_def word_unat_eq_iff)
    ultimately have "has_text rt (unat v) 1 x" "has_text rt (unat w) 1 x" using has_text_texts [OF T, of 1] by auto
    then have "unat v = unat w" using unique_text [OF T, of 1] by auto
    then show ?thesis by (simp only: word_unat_eq_iff)
  qed
qed

text \<open>
  A string turned into an atom: the atom stands for that string, the strings of all other atoms stay,
  and the invariants are kept. 0 is returned when memory runs out.
\<close>

lemma JS_NewAtomStr_interns:
  assumes T: "table_ok rt" and M: "memory_ok M" and arr: "atom_array rt \<noteq> []" and N: "numerals_ok rt"
    and s: "strings rt s = Some a" "atom_type a = 0" "header_ref_count a \<ge> 1"
  shows "\<exists>v rt'. JS_NewAtomStr M s rt = Inr (v, rt') \<and> table_ok rt' \<and> numerals_ok rt' \<and> atom_array rt' \<noteq> [] \<and>
    (v \<noteq> 0 \<longrightarrow> atom_text rt' v = Some (map unat (units (chars a)))) \<and>
    (v = 0 \<longrightarrow> atom_text rt' = atom_text rt \<and> (\<nexists>w. atom_text rt w = Some (map unat (units (chars a))))) \<and>
    (\<forall>w. atom_text rt w \<noteq> None \<longrightarrow> atom_text rt' w = atom_text rt w)"
proof -
  let ?us = "units (chars a)"
  obtain r where r: "is_num_string (chars a) = Inr r" "\<And>n. r = Some n \<longleftrightarrow> map unat ?us = decimal (unat n)"
    using is_num_string_numeral [of "chars a"] by blast
  consider (small) n where "r = Some n" "n \<le> JS_ATOM_MAX_INT" | (table) "\<And>n. r = Some n \<Longrightarrow> \<not> n \<le> JS_ATOM_MAX_INT"
    by blast
  then show ?thesis
  proof cases
    case (small n)
    have notin: "Atom s \<notin> set (atom_array rt)" using not_in_table [OF T] s by simp
    then have "\<not> null_atom rt s" unfolding null_atom_def by (metis length_greater_0_conv nth_mem)
    from free_string_frees [OF T s(1) this, of M] obtain rt' where rt': "js_free_string M s rt = Inr rt'" "table_ok rt'"
      "length (atom_array rt') = length (atom_array rt)" "texts rt' = texts_freed rt s" by blast
    have same: "texts rt' = texts rt" using rt'(4) texts_freed_plain [OF T s(1,2)] by simp
    then have same_text: "atom_text rt' = atom_text rt" and N': "numerals_ok rt'"
      using N by (simp_all add: atom_text_def fun_eq_iff numerals_ok_def)
    have "atom_text rt' (AtomFromUInt32 n) = Some (map unat ?us)"
      using tagged [OF small(2)] r(2) [of n] small(1) by (simp add: atom_text_def)
    moreover have "AtomFromUInt32 n \<noteq> 0" using tagged(1) [OF small(2)] by (auto simp: AtomIsTaggedInt_def)
    moreover have "JS_NewAtomStr M s rt = Inr (AtomFromUInt32 n, rt')"
      using small r(1) rt'(1) by (simp add: JS_NewAtomStr_def deref_Some [OF s(1)])
    moreover have "atom_array rt' \<noteq> []" using rt'(3) arr by auto
    ultimately show ?thesis using rt'(2) same_text N' by auto
  next
    case table
    obtain i rt' where i: "NewAtom M (Some s) 1 rt = Inr (i, rt')" "table_ok rt'" "atom_array rt' \<noteq> []" and
      outcome: "has_text rt i 1 ?us \<and> i \<noteq> 0 \<and> texts rt' = texts rt \<or>
       (\<nexists>j. has_text rt j 1 ?us) \<and> i = 0 \<and> texts rt' = texts rt \<or>
       (\<nexists>j. has_text rt j 1 ?us) \<and> i \<noteq> 0 \<and> texts rt i = None \<and> texts rt' = (texts rt)(i \<mapsto> (1, ?us)) \<and>
         (\<forall>k. free_tail rt k \<longrightarrow> i = k \<and> free_tail rt' (k + 1))"
      by (rule NewAtom_texts [OF T M arr _ s, of 1]) simp
    have res: "JS_NewAtomStr M s rt = Inr (of_nat i, rt')"
      using table r(1) i(1) by (cases r) (auto simp: JS_NewAtomStr_def deref_Some [OF s(1)] atom_consts)
    have not_small: "map unat ?us \<noteq> decimal n" if "n < 2 ^ 31" for n
    proof
      assume "map unat ?us = decimal n"
      moreover have n: "unat (of_nat n :: u32) = n" using that by (rule unat_index)
      ultimately have "r = Some (of_nat n)" using r(2) by simp
      then show False using table n that by (auto simp: JS_ATOM_MAX_INT_def JS_ATOM_TAG_INT_def word_le_nat_alt)
    qed
    have old: "texts rt j = texts rt' j \<or> texts rt j = None \<and> texts rt' j = Some (1, ?us)" for j
      using outcome by (cases "j = i") auto
    have here: "texts rt' i = Some (1, ?us)" if "i \<noteq> 0"
      using outcome that has_text_texts [OF T, of 1 i ?us] by auto
    have N': "numerals_ok rt'"
      unfolding numerals_ok_def
    proof (intro allI impI)
      fix j us n assume "texts rt' j = Some (1, us)" "(n :: nat) < 2 ^ 31"
      then show "map unat us \<noteq> decimal n" using old [of j] N not_small unfolding numerals_ok_def by auto
    qed
    have keep: "atom_text rt w \<noteq> None \<longrightarrow> atom_text rt' w = atom_text rt w" for w
      using old [of "unat w"] by (auto simp: atom_text_def split: option.splits if_splits)
    have new: "atom_text rt' (of_nat i) = Some (map unat ?us)" if "i \<noteq> 0"
    proof -
      have t: "texts rt' i = Some (1, ?us)" by (rule here [OF that])
      then have b: "i < 2 ^ 31" using texts_bound [OF i(2), of i] by simp
      show ?thesis using atom_text_index [OF b, of rt'] t by simp
    qed
    have zero: "texts rt' = texts rt \<and> (\<nexists>j. has_text rt j 1 ?us)" if "i = 0"
      using outcome that by blast
    have none: "\<nexists>w. atom_text rt w = Some (map unat ?us)" if "i = 0"
    proof
      assume "\<exists>w. atom_text rt w = Some (map unat ?us)"
      then obtain w where w: "atom_text rt w = Some (map unat ?us)" by blast
      show False
      proof (cases "AtomIsTaggedInt w")
        case True
        then have "decimal (unat (AtomToUInt32 w)) = map unat ?us" using w by (simp add: atom_text_def)
        then show False using not_small [OF small_index [of w]] by simp
      next
        case False
        then obtain x where x: "texts rt (unat w) = Some (1, x)" "map unat x = map unat ?us"
          using w by (auto simp: atom_text_def split: option.splits if_splits)
        then have "x = ?us" by (metis inj_map_eq_map inj_def word_unat_eq_iff)
        then show False using zero [OF that] x(1) has_text_texts [OF T, of 1] by auto
      qed
    qed
    have iff: "(of_nat i :: u32) = 0 \<longleftrightarrow> i = 0"
    proof (cases "i = 0")
      case False
      then have "texts rt' i \<noteq> None" using here by simp
      then have "unat (of_nat i :: u32) = i" using texts_bound [OF i(2)] by (simp add: unat_index)
      then show ?thesis using False by (metis unat_0)
    qed simp
    have "i = 0 \<Longrightarrow> atom_text rt' = atom_text rt" using zero by (simp add: atom_text_def fun_eq_iff)
    then show ?thesis using res i(2,3) N' keep new none iff by auto
  qed
qed

end
