(* ===== verification/JsAtomInit.thy ===== *)
theory JsAtomInit
  imports JsAtomUse
begin

text \<open>
  The start of the engine: \<open>JS_InitAtoms\<close> gives every name of \<open>quickjs-atom.h\<close> the index that the
  constants of the code have for it.
\<close>

section \<open>The first entries\<close>

lemma alloc_cases:
  assumes "memory_ok M"
  obtains (none) w where "js_alloc_string_rt M str rt = (None, rt\<lparr>outside := w\<rparr>)"
  | (some) p w where "js_alloc_string_rt M str rt =
      (Some p, put p \<lparr>header_ref_count = 1, chars = str, atom_type = 0, hash = 0, hash_next = 0\<rparr> (rt\<lparr>outside := w\<rparr>))"
      "strings rt p = None"
proof -
  obtain r w where w: "alloc_string M (string_size (js_len str) (is_wide_char str)) (strings rt) (outside rt) = (r, w)"
    by fastforce
  show thesis
  proof (cases r)
    case None
    then show ?thesis using w none [of w] by (simp add: js_alloc_string_rt_def)
  next
    case (Some p)
    then have "strings rt p = None" using assms w unfolding memory_ok_def by blast
    then show ?thesis using Some w some [of p w] by (simp add: js_alloc_string_rt_def)
  qed
qed

text \<open>Memory that does not run out for the structures and tables of the start.\<close>

definition enough_memory :: "'w atom_mem \<Rightarrow> bool" where
  "enough_memory M \<longleftrightarrow> (\<forall>n h w. finite (dom h) \<longrightarrow> fst (alloc_string M n h w) \<noteq> None) \<and>
     (\<forall>n w. n \<le> 2 ^ 16 \<longrightarrow> fst (alloc_table M n w))"

lemma enough_string: "enough_memory M \<Longrightarrow> finite (dom (strings rt)) \<Longrightarrow> fst (js_alloc_string_rt M str rt) \<noteq> None"
proof -
  assume "enough_memory M" "finite (dom (strings rt))"
  then have "fst (alloc_string M (string_size (js_len str) (is_wide_char str)) (strings rt) (outside rt)) \<noteq> None"
    unfolding enough_memory_def by blast
  then show "fst (js_alloc_string_rt M str rt) \<noteq> None"
    by (auto simp: js_alloc_string_rt_def split: prod.splits option.splits)
qed

lemma finite_refs: "refs rt' = refs rt \<Longrightarrow> finite (dom (strings rt)) \<Longrightarrow> finite (dom (strings rt'))"
proof -
  have "dom (refs x) = dom (strings x)" for x :: "'w atom_runtime" by (auto simp: refs_def)
  then show "refs rt' = refs rt \<Longrightarrow> finite (dom (strings rt)) \<Longrightarrow> finite (dom (strings rt'))" by metis
qed

lemma enter_index: "enter_atom M p h h1 ty rt = Inr (i, rt') \<Longrightarrow> i = atom_free_index rt"
  unfolding enter_atom_def Let_def bnd_eq_Inr
  by (elim exE conjE, rename_tac e, case_tac e) (auto simp: bnd_eq_Inr split: if_split_asm)

lemma create_nonzero:
  assumes M: "enough_memory M" and s: "strings rt s = Some a" "atom_type a = 0"
    and arr: "atom_array rt \<noteq> []" "atom_free_index rt = 0 \<Longrightarrow> length (atom_array rt) < 2 ^ 10"
    and res: "create_atom M (Some s) h h1 ty rt = Inr (i, rt')"
  shows "i \<noteq> 0"
proof -
  have new: "i = atom_free_index rt1" if "strings rt1 s = Some a"
    "bnd (new_structure M (Some s) ty rt1) (\<lambda>(r, rt).
         case r of None \<Rightarrow> finish_atom M (Some s) JS_ATOM_NULL rt | Some p \<Rightarrow> enter_atom M p h h1 ty rt) = Inr (i, rt')" for rt1
    using that enter_index [of M s h h1 ty "put s (a\<lparr>atom_type := ty\<rparr>) rt1" i rt'] s(2) by (simp add: new_structure_def deref_Some)
  show ?thesis
  proof (cases "atom_free_index rt = 0")
    case False
    then show ?thesis using res new [of rt] s(1) by (simp add: create_atom_def)
  next
    case True
    let ?n = "max 211 (length (atom_array rt) * 3 div 2)"
    have "length (atom_array rt) < 2 ^ 10" using arr(2) True by blast
    then have n: "8 * ?n \<le> 2 ^ 16" "\<not> ?n > JS_ATOM_MAX" "\<not> length (atom_array rt) * 3 \<ge> 2 ^ 31"
      by (simp_all add: JS_ATOM_MAX_def)
    then have "fst (alloc_table M (8 * ?n) (outside rt))" using M unfolding enough_memory_def by blast
    then obtain w where w: "alloc_table M (8 * ?n) (outside rt) = (True, w)" by (metis prod.collapse)
    let ?rt1 = "rt\<lparr>atom_array := atom_array rt @ free_entries (length (atom_array rt)) ?n,
      atom_free_index := length (atom_array rt), outside := w\<rparr>"
    have "grow_atom_array M rt = Inr (True, ?rt1)"
      using n(2,3) w arr(1) unfolding grow_atom_array_def Let_def by simp
    then have "i = atom_free_index ?rt1" using res True s(1) by (intro new) (simp_all add: create_atom_def)
    then show ?thesis using arr(1) by simp
  qed
qed

lemma symbol_created:
  assumes T: "table_ok rt" and M: "memory_ok M" and arr: "atom_array rt \<noteq> []" and ty: "ty \<in> {3, 4}"
    and s: "string_ok (Some s) us rt" "strings rt s = Some a" "atom_type a = 0"
  shows "\<exists>i rt'. NewAtom M (Some s) ty rt = Inr (i, rt') \<and> table_ok rt' \<and> atom_array rt' \<noteq> [] \<and>
    texts rt' = (if i = 0 then texts rt else (texts rt)(i \<mapsto> (3, us))) \<and> (i \<noteq> 0 \<longrightarrow> texts rt i = None) \<and>
    (\<forall>k. i \<noteq> 0 \<longrightarrow> free_tail rt k \<longrightarrow> i = k \<and> free_tail rt' (k + 1)) \<and> (i \<noteq> 0 \<longrightarrow> refs rt' = refs rt) \<and>
    (enough_memory M \<and> (\<exists>k < 2 ^ 10. free_tail rt k) \<longrightarrow> i \<noteq> 0)"
proof -
  define h where "h = (if ty = 3 then JS_ATOM_HASH_SYMBOL else JS_ATOM_HASH_PRIVATE)"
  have hh: "h \<in> {JS_ATOM_HASH_SYMBOL, JS_ATOM_HASH_PRIVATE}" by (simp add: h_def)
  have new: "NewAtom M (Some s) ty rt = create_atom M (Some s) h 0 3 rt"
    using ty by (auto simp: NewAtom_def atom_consts h_def)
  obtain i rt' where i: "create_atom M (Some s) h 0 3 rt = Inr (i, rt')" "created (Some s) 3 us rt i rt'"
    using create_creates [OF T M s(1), of 3 h 0] arr hh by auto
  have same: "freed_texts (Some s) rt = texts rt"
    by (simp add: freed_texts_def texts_freed_plain [OF T s(2,3)])
  have c: "table_ok rt'" "texts rt' = (if i = 0 then texts rt else (texts rt)(i \<mapsto> (3, us)))"
    "i \<noteq> 0 \<longrightarrow> texts rt i = None" "\<forall>p. null_atom rt' p \<longleftrightarrow> null_atom rt p"
    using i(2) unfolding created_def same by blast+
  have "(\<forall>k. i \<noteq> 0 \<longrightarrow> free_tail rt k \<longrightarrow> i = k \<and> free_tail rt' (k + 1)) \<and> (i \<noteq> 0 \<longrightarrow> refs rt' = refs rt)"
    using i(2) s(2,3) unfolding created_def by blast
  moreover have "i \<noteq> 0" if "enough_memory M" "k < 2 ^ 10" "free_tail rt k" for k
    by (rule create_nonzero [OF that(1) s(2,3) arr _ i(1)]) (use that in \<open>auto simp: free_tail_def split: if_splits\<close>)
  moreover have "atom_array rt' \<noteq> []" using null_exists [OF T arr] c(4) by (auto simp: null_atom_def)
  ultimately show ?thesis using new i(1) c(1,2,3) by auto
qed

text \<open>A string that is not in the table goes to \<open>create_atom\<close>.\<close>

lemma NewAtom_absent:
  assumes T: "table_ok rt" and ty: "ty \<in> {1, 2}" and s: "strings rt s = Some a" "atom_type a = 0"
    and none: "\<forall>j. \<not> has_text rt j ty (units (chars a))"
    and h: "h = hash_string (chars a) (of_nat ty) AND JS_ATOM_HASH_MASK"
  shows "NewAtom M (Some s) ty rt = create_atom M (Some s) h (bucket (length (atom_hash rt)) h) ty rt"
proof -
  note ok = table_okD [OF T]
  obtain i where i: "find_atom (length (atom_array rt)) rt h ty (chars a) (atom_hash rt ! bucket (length (atom_hash rt)) h) = Inr i"
    "if i = 0 then \<forall>j. \<not> has_text rt j ty (units (chars a)) else has_text rt i ty (units (chars a))"
    using find_atom_finds [OF T ty h] by auto
  then have "i = 0" using none by metis
  then show ?thesis
    using ty s i(1) ok(7) by (auto simp: NewAtom_def deref_Some [OF s(1)] h [symmetric] Let_def atom_consts)
qed

lemma init_step:
  assumes T: "table_ok rt" and M: "memory_ok M" and arr: "atom_array rt \<noteq> []" and k: "free_tail rt k"
    and fin: "finite (dom (strings rt))" and ty: "ty \<in> {1, 3, 4}" and us: "us = units (Str8 name)" and new: "ty = 1 \<Longrightarrow> \<forall>j. texts rt j \<noteq> Some (1, us)"
  shows "\<exists>i rt'. NewAtomInit M name ty rt = Inr (i, rt') \<and> table_ok rt' \<and> atom_array rt' \<noteq> [] \<and>
    (i \<noteq> 0 \<longrightarrow> i = k \<and> free_tail rt' (k + 1) \<and> texts rt' = (texts rt)(k \<mapsto> (if ty = 1 then 1 else 3, us)) \<and>
       finite (dom (strings rt'))) \<and> (enough_memory M \<and> k < 2 ^ 10 \<longrightarrow> i \<noteq> 0)"
proof (rule alloc_cases [OF M, of "Str8 name" rt])
  fix w assume "js_alloc_string_rt M (Str8 name) rt = (None, rt\<lparr>outside := w\<rparr>)"
  moreover from this have "\<not> enough_memory M" using enough_string [OF _ fin, of M "Str8 name"] by auto
  ultimately show ?thesis using T arr by (simp add: NewAtomInit_def atom_consts)
next
  fix p w
  let ?b = "\<lparr>header_ref_count = 1, chars = Str8 name, atom_type = 0, hash = 0, hash_next = 0\<rparr>"
  let ?rt = "put p ?b (rt\<lparr>outside := w\<rparr>)"
  assume p: "js_alloc_string_rt M (Str8 name) rt = (Some p, ?rt)" "strings rt p = None"
  have plain: "atom_type ?b = 0" by simp
  note n = new_string [OF T p(2) plain refl, of w]
  have s: "strings ?rt p = Some ?b" by simp
  have arr1: "atom_array ?rt \<noteq> []" using arr by simp
  have k1: "free_tail ?rt k" using k by (simp add: free_tail_def)
  have init: "NewAtomInit M name ty rt = NewAtom M (Some p) ty ?rt" by (simp add: NewAtomInit_def p(1))
  have fin_heap: "finite (dom (strings ?rt))" using fin by simp
  have absent: "\<nexists>j. has_text ?rt j 1 us" if "ty = 1"
    using new [OF that] n(5) has_text_texts [OF n(1), of 1] by simp
  have not_null: "\<not> null_atom ?rt p" using n(3) arr1 unfolding null_atom_def by (metis length_greater_0_conv nth_mem)
  show ?thesis
  proof (cases "ty = 1")
    case True
    have one: "(1 :: nat) \<in> {1, 2}" and count: "header_ref_count ?b \<ge> 1" by simp_all
    have none: "\<not> (\<exists>j. has_text ?rt j 1 (units (chars ?b)))" using absent True us by simp
    obtain i rt' where i: "NewAtom M (Some p) 1 ?rt = Inr (i, rt')" "table_ok rt'" "atom_array rt' \<noteq> []"
      "if i = 0 then texts rt' = texts ?rt
       else texts ?rt i = None \<and> texts rt' = (texts ?rt)(i \<mapsto> (1, units (chars ?b))) \<and> refs rt' = refs ?rt \<and>
         (\<forall>k. free_tail ?rt k \<longrightarrow> i = k \<and> free_tail rt' (k + 1))"
      using NewAtom_string [OF n(1) M arr1 one s plain count] unfolding if_not_P [OF none] by blast
    have "i \<noteq> 0" if "enough_memory M" "k < 2 ^ 10"
      by (rule create_nonzero [OF that(1) s plain arr1 _ i(1) [unfolded NewAtom_absent [OF n(1) one s plain none [unfolded not_ex] refl]]])
        (use that(2) k1 in \<open>auto simp: free_tail_def split: if_splits\<close>)
    moreover have "finite (dom (strings rt'))" if "i \<noteq> 0"
      using i(4) that finite_refs [OF _ fin_heap, of rt'] by simp
    moreover have "i \<noteq> 0 \<longrightarrow> i = k \<and> free_tail rt' (k + 1) \<and> texts rt' = (texts rt)(k \<mapsto> (1, us))"
      using i(4) k1 us n(5) by auto
    ultimately show ?thesis using True init i(1,2,3) by auto
  next
    case False
    then have ty3: "ty \<in> {3, 4}" using ty by auto
    have "string_ok (Some p) us ?rt" using us not_null by (simp add: string_ok_def)
    from symbol_created [OF n(1) M arr1 ty3 this s plain]
    obtain i rt' where "NewAtom M (Some p) ty ?rt = Inr (i, rt')" "table_ok rt'" "atom_array rt' \<noteq> []"
      "texts rt' = (if i = 0 then texts ?rt else (texts ?rt)(i \<mapsto> (3, us)))"
      "\<forall>k. i \<noteq> 0 \<longrightarrow> free_tail ?rt k \<longrightarrow> i = k \<and> free_tail rt' (k + 1)" "i \<noteq> 0 \<longrightarrow> refs rt' = refs ?rt"
      "enough_memory M \<and> (\<exists>k < 2 ^ 10. free_tail ?rt k) \<longrightarrow> i \<noteq> 0" by blast
    moreover from this have "i \<noteq> 0 \<longrightarrow> finite (dom (strings rt'))" using finite_refs [OF _ fin_heap, of rt'] by blast
    ultimately show ?thesis using False init k1 n(5) by auto
  qed
qed

lemma grow_first:
  assumes T: "table_ok rt" and M: "memory_ok M" and arr: "atom_array rt = []" and count: "atom_count rt = 0"
  shows "(\<exists>w. grow_atom_array M rt = Inr (False, rt\<lparr>outside := w\<rparr>)) \<and>
      \<not> (enough_memory M \<and> finite (dom (strings rt))) \<or>
    (\<exists>q b rt'. grow_atom_array M rt = Inr (True, rt') \<and> table_ok rt' \<and> atom_array rt' \<noteq> [] \<and> free_tail rt' 1 \<and>
       texts rt' = (\<lambda>_. None) \<and> strings rt q = None \<and> strings rt' = (strings rt)(q \<mapsto> b) \<and> atom_hash rt' = atom_hash rt \<and>
       atom_free_index rt' \<noteq> 0)"
proof -
  note ok = table_okD [OF T]
  let ?b = "\<lparr>header_ref_count = 1, chars = Str8 [], atom_type = 3, hash = 0, hash_next = 0\<rparr>"
  obtain c w where w: "alloc_table M 1688 (outside rt) = (c, w)" by fastforce
  obtain r w2 where w2: "alloc_string M 16 (strings rt) w = (r, w2)" by fastforce
  have small: "\<not> 211 > JS_ATOM_MAX" by (simp add: JS_ATOM_MAX_def)
  show ?thesis
  proof (cases "c \<and> r \<noteq> None")
    case False
    then have "\<exists>w. grow_atom_array M rt = Inr (False, rt\<lparr>outside := w\<rparr>)"
      using w w2 arr small by (cases c) (auto simp: grow_atom_array_def)
    moreover have "c \<and> r \<noteq> None" if h: "enough_memory M" "finite (dom (strings rt))"
    proof -
      have "fst (alloc_table M 1688 (outside rt))" "fst (alloc_string M 16 (strings rt) w) \<noteq> None"
        using h unfolding enough_memory_def by simp_all
      then show ?thesis by (simp add: w w2)
    qed
    ultimately show ?thesis using False by blast
  next
    case True
    then obtain q where q: "r = Some q" by auto
    then have fresh: "strings rt q = None" using M w2 unfolding memory_ok_def by blast
    define rt' where "rt' = put q ?b (rt\<lparr>atom_array := Atom q # free_entries 1 211, atom_free_index := 1,
      atom_count := 1, outside := w2\<rparr>)"
    have array: "atom_array rt' = [Atom q] @ free_entries 1 211" "atom_free_index rt' = 1"
      "strings rt' = (strings rt)(q \<mapsto> ?b)" "atom_hash rt' = atom_hash rt" "atom_count rt' = 1"
      by (simp_all add: rt'_def)
    have free: "free_entries 1 211 ! j = Free (if j = 209 then 0 else j + 2)" if "j < 210" for j
      using that by (simp add: free_entries_def)
    have len: "length (free_entries 1 211) = 210" by (simp add: free_entries_def)
    have at': "atom_at rt' i = (if i = 0 then Some ?b else None)" for i
      using free [of "i - 1"] len by (cases i) (simp_all add: atom_at_def array)
    have "hashed rt' = {}" by (auto simp: hashed_def at' split: if_splits)
    moreover have "hashed rt = {}" using arr by (simp add: hashed_def atom_at_def)
    ultimately have none: "hashed rt' = {}" "hashed rt = {}" .
    have "chains_for (link rt') (hash_at rt') (atom_hash rt') (hashed rt')"
      using ok(1) unfolding chains_for_def none array(4) by simp
    moreover have "free_for (atom_array rt') (atom_free_index rt')"
      using free_grow [of "[Atom q]" 211] by (simp add: array)
    moreover have "entries_ok rt'"
      unfolding entries_ok_def
    proof (intro conjI allI impI)
      have entry: "i = 0 \<and> p = q" if "i < length (atom_array rt')" "atom_array rt' ! i = Atom p" for i p
        using that free [of "i - 1"] len by (cases i) (auto simp: array)
      show "array_inj (atom_array rt')" unfolding array_inj_def using entry by blast
      fix i p assume "i < length (atom_array rt')" "atom_array rt' ! i = Atom p"
      then have "i = 0" "p = q" using entry by blast+
      then show "\<exists>a. strings rt' p = Some a \<and> hash_ok a \<and> (atom_type a = 3 \<longrightarrow> hash_next a = i) \<and> (i = 0 \<longrightarrow> atom_type a = 3)"
        by (simp add: array hash_ok_def JS_ATOM_HASH_SYMBOL_def)
    next
      fix p a assume "strings rt' p = Some a \<and> atom_type a \<noteq> 0"
      then have "p = q \<or> Atom p \<in> set (atom_array rt)" using ok(3) by (auto simp: entries_ok_def array split: if_splits)
      then show "Atom p \<in> set (atom_array rt')" using arr by (auto simp: array)
    qed
    moreover have "unique_ok rt'" by (simp add: unique_ok_def at')
    moreover have "sizes_ok rt'" using ok(5) len by (simp add: sizes_ok_def at' array)
    ultimately have "table_ok rt'" by (simp add: table_ok_def)
    moreover have "texts rt' = (\<lambda>_. None)" by (simp add: texts_def fun_eq_iff at')
    moreover have "free_tail rt' 1"
      using free len by (auto simp: free_tail_def array nth_Cons split: nat.splits)
    moreover have "grow_atom_array M rt = Inr (True, rt')"
      using True w w2 q arr small count by (simp add: grow_atom_array_def rt'_def atom_consts)
    ultimately show ?thesis using fresh array by auto
  qed
qed

lemma first_step:
  assumes T: "table_ok rt" and M: "memory_ok M" and arr: "atom_array rt = []" and count: "atom_count rt = 0"
    and fin: "finite (dom (strings rt))" and us: "us = units (Str8 name)"
  shows "\<exists>i rt'. NewAtomInit M name 1 rt = Inr (i, rt') \<and>
    (i \<noteq> 0 \<longrightarrow> table_ok rt' \<and> atom_array rt' \<noteq> [] \<and> free_tail rt' 2 \<and> texts rt' = (\<lambda>_. None)(1 \<mapsto> (1, us)) \<and>
       finite (dom (strings rt'))) \<and> (enough_memory M \<longrightarrow> i \<noteq> 0)"
proof (rule alloc_cases [OF M, of "Str8 name" rt])
  fix w assume "js_alloc_string_rt M (Str8 name) rt = (None, rt\<lparr>outside := w\<rparr>)"
  moreover from this have "\<not> enough_memory M" using enough_string [OF _ fin, of M "Str8 name"] by auto
  ultimately show ?thesis by (simp add: NewAtomInit_def atom_consts)
next
  fix p w
  let ?b = "\<lparr>header_ref_count = 1, chars = Str8 name, atom_type = 0, hash = 0, hash_next = 0\<rparr>"
  define rt0 where "rt0 = put p ?b (rt\<lparr>outside := w\<rparr>)"
  assume p: "js_alloc_string_rt M (Str8 name) rt = (Some p, put p ?b (rt\<lparr>outside := w\<rparr>))" "strings rt p = None"
  have plain: "atom_type ?b = 0" by simp
  note n = new_string [OF T p(2) plain rt0_def]
  have s: "strings rt0 p = Some ?b" "atom_array rt0 = []" "atom_count rt0 = 0" using arr count by (simp_all add: rt0_def)
  have init: "NewAtomInit M name 1 rt = NewAtom M (Some p) 1 rt0" by (simp add: NewAtomInit_def p(1) rt0_def)
  define h where "h = hash_string (chars ?b) (of_nat 1) AND JS_ATOM_HASH_MASK"
  have one: "(1 :: nat) \<in> {1, 2}" and count1: "header_ref_count ?b \<ge> 1" by simp_all
  have "\<forall>j. \<not> has_text rt0 j 1 (units (chars ?b))" using s(2) by (simp add: has_text_def atom_at_def)
  note create = NewAtom_absent [OF n(1) one s(1) plain this h_def, of M]
  from grow_first [OF n(1) M s(2,3)] show ?thesis
  proof (elim disjE exE conjE)
    fix v assume grow: "grow_atom_array M rt0 = Inr (False, rt0\<lparr>outside := v\<rparr>)"
      and lack: "\<not> (enough_memory M \<and> finite (dom (strings rt0)))"
    have "table_ok (rt0\<lparr>outside := v\<rparr>)" "string_ok (Some p) us (rt0\<lparr>outside := v\<rparr>)"
      using n(1) s us by (simp_all add: string_ok_def null_atom_def)
    from finish_atom_frees [OF this, of M 0] obtain rt' where "finish_atom M (Some p) 0 (rt0\<lparr>outside := v\<rparr>) = Inr (0, rt')"
      by blast
    moreover have "atom_free_index rt0 = 0"
      using table_okD(2) [OF n(1)] s(2) by (auto simp: free_for_def free_link_def)
    ultimately have "NewAtom M (Some p) 1 rt0 = Inr (0, rt')"
      using create grow by (simp add: create_atom_def atom_consts)
    moreover have "finite (dom (strings rt0))" using fin by (simp add: rt0_def)
    ultimately show ?thesis using init lack by simp
  next
    fix q b rt1
    assume grow: "grow_atom_array M rt0 = Inr (True, rt1)" and t1: "table_ok rt1" and arr1: "atom_array rt1 \<noteq> []"
      and tail1: "free_tail rt1 1" and texts1: "texts rt1 = (\<lambda>_. None)" and fresh: "strings rt0 q = None"
      and heap1: "strings rt1 = (strings rt0)(q \<mapsto> b)" and heads1: "atom_hash rt1 = atom_hash rt0"
      and free1: "atom_free_index rt1 \<noteq> 0"
    have s1: "strings rt1 p = Some ?b" using heap1 fresh s(1) by (cases "p = q") simp_all
    have none1: "\<nexists>j. has_text rt1 j 1 (units (chars ?b))" using texts1 has_text_texts [OF t1, of 1] by simp
    have "atom_free_index rt0 = 0"
      using table_okD(2) [OF n(1)] s(2) by (auto simp: free_for_def free_link_def)
    then have "NewAtom M (Some p) 1 rt0 = create_atom M (Some p) h (bucket (length (atom_hash rt0)) h) 1 rt1"
      using create grow free1 by (simp add: create_atom_def)
    also have "\<dots> = NewAtom M (Some p) 1 rt1"
      using NewAtom_absent [OF t1 one s1 plain _ h_def, of M] none1 heads1 by simp
    finally have new: "NewAtom M (Some p) 1 rt0 = NewAtom M (Some p) 1 rt1" .
    obtain i rt' where i: "NewAtom M (Some p) 1 rt1 = Inr (i, rt')" "table_ok rt'" "atom_array rt' \<noteq> []"
      "if i = 0 then texts rt' = texts rt1
       else texts rt1 i = None \<and> texts rt' = (texts rt1)(i \<mapsto> (1, units (chars ?b))) \<and> refs rt' = refs rt1 \<and>
         (\<forall>k. free_tail rt1 k \<longrightarrow> i = k \<and> free_tail rt' (k + 1))"
      using NewAtom_string [OF t1 M arr1 one s1 plain count1] unfolding if_not_P [OF none1] by blast
    have "i \<noteq> 0" if "enough_memory M"
      by (rule create_nonzero [OF that s1 plain arr1 _ i(1) [unfolded NewAtom_absent [OF t1 one s1 plain none1 [unfolded not_ex] refl]]])
        (use free1 in simp)
    moreover have "finite (dom (strings rt'))" if "i \<noteq> 0"
      using i(4) that finite_refs [of rt' rt1] fin heap1 by (simp add: rt0_def)
    moreover have "i \<noteq> 0 \<longrightarrow> free_tail rt' 2 \<and> texts rt' = (\<lambda>_. None)(1 \<mapsto> (1, us))"
      using i(4) tail1 texts1 us by (auto simp: numeral_2_eq_2)
    ultimately show ?thesis using init new i(1,2,3) by auto
  qed
qed

section \<open>The table of the constants\<close>

text \<open>The texts below the index \<open>n\<close> after the start; the private brand is a symbol like the others.\<close>

definition init_texts :: "nat \<Rightarrow> nat \<Rightarrow> (nat \<times> u16 list) option" where
  "init_texts n i = (if 1 \<le> i \<and> i < n
     then Some (if i < JS_ATOM_Private_brand then 1 else 3, map ucast (bytes_of (js_atom_init ! (i - 1)))) else None)"

lemma init_type_cases: "init_type i \<in> {1, 3, 4}" "init_type i = 1 \<longleftrightarrow> i < JS_ATOM_Private_brand"
  by (auto simp: init_type_def atom_consts JS_ATOM_Private_brand_def JS_ATOM_Symbol_toPrimitive_def)

text \<open>No two names are equal: they differ in a number computed from them, compared from the lowest bit on.\<close>

fun distinct_bits :: "nat \<Rightarrow> int list \<Rightarrow> bool" where
  "distinct_bits 0 xs = distinct xs"
| "distinct_bits (Suc n) xs \<longleftrightarrow> distinct_bits n (map (\<lambda>x. x div 2) (filter (\<lambda>x. x mod 2 = 0) xs)) \<and>
     distinct_bits n (map (\<lambda>x. x div 2) (filter (\<lambda>x. x mod 2 \<noteq> 0) xs))"

lemma distinct_filters: "distinct (filter P xs) \<Longrightarrow> distinct (filter (\<lambda>x. \<not> P x) xs) \<Longrightarrow> distinct xs"
  by (induction xs) (auto split: if_splits)

lemma distinct_bits: "distinct_bits n xs \<Longrightarrow> distinct xs"
proof (induction n arbitrary: xs)
  case (Suc n)
  then have "distinct (filter (\<lambda>x. x mod 2 = 0) xs)" "distinct (filter (\<lambda>x. x mod 2 \<noteq> 0) xs)"
    by (auto dest!: Suc.IH simp: distinct_map)
  then show ?case by (rule distinct_filters)
qed simp

lemma names_distinct: "distinct (take 209 js_atom_init)"
proof -
  let ?key = "\<lambda>s. fold (\<lambda>c n. n + n + n + n + n + of_char c) s (0 :: int)"
  have "distinct_bits 9 (map ?key (take 209 js_atom_init))" by code_simp
  then show ?thesis by (auto dest!: distinct_bits simp: distinct_map)
qed

lemma names_count: "length js_atom_init = 224"
  by code_simp

lemma names_no_numbers: "\<forall>s \<in> set js_atom_init. s = [] \<or> of_char (hd s) \<notin> {0x30 .. (0x39 :: nat)}"
  by code_simp

lemma unat_of_char: "unat (of_char c :: u8) = of_char c"
proof -
  have "(of_char c :: u8) = of_nat (of_char c)" by (simp only: of_nat_of_char)
  moreover have "(of_char c :: nat) < 256" by (rule nat_of_char_less_256)
  ultimately show ?thesis by (simp add: unsigned_of_nat take_bit_nat_eq_self del: of_nat_of_char)
qed

lemma units_of_name: "map unat (map ucast (bytes_of s) :: u16 list) = map of_char s"
proof -
  have "unat (ucast b :: u16) = unat b" for b :: u8 
  proof -
    have "unat b < 256" using unsigned_less [of b] by simp
    then show ?thesis by (simp add: unsigned_ucast_eq take_bit_nat_eq_self)
  qed
  then show ?thesis by (simp add: bytes_of_def unat_of_char)
qed

lemma name_inj: "map ucast (bytes_of s) = (map ucast (bytes_of t) :: u16 list) \<Longrightarrow> s = t"
proof -
  assume "map ucast (bytes_of s) = (map ucast (bytes_of t) :: u16 list)"
  then have "map of_char s = (map of_char t :: nat list)" using units_of_name by metis
  then show "s = t" by (rule map_injective) (auto intro: injI)
qed

lemma init_texts_new:
  assumes "1 \<le> k" and "k < 210"
  shows "init_texts k j \<noteq> Some (1, map ucast (bytes_of (js_atom_init ! (k - 1))))"
proof
  assume h: "init_texts k j = Some (1, map ucast (bytes_of (js_atom_init ! (k - 1))))"
  then have j: "1 \<le> j" "j < k" "js_atom_init ! (j - 1) = js_atom_init ! (k - 1)"
    using name_inj by (auto simp: init_texts_def split: if_splits)
  then have "take 209 js_atom_init ! (j - 1) = take 209 js_atom_init ! (k - 1)" using assms by simp
  then have "j - 1 = k - 1"
    using nth_eq_iff_index_eq [OF names_distinct, of "j - 1" "k - 1"] j assms by (simp add: names_count)
  then show False using j(1,2) by simp
qed

lemma init_texts_next:
  "1 \<le> k \<Longrightarrow> (init_texts k)(k \<mapsto> (if init_type k = 1 then 1 else 3, map ucast (bytes_of (js_atom_init ! (k - 1))))) =
    init_texts (k + 1)"
  using init_type_cases(2) [of k] by (auto simp: init_texts_def fun_eq_iff)

lemma init_loop_fills:
  assumes "table_ok rt" and M: "memory_ok M" and "atom_array rt \<noteq> []" and "free_tail rt k" and "finite (dom (strings rt))"
    and "texts rt = init_texts k" and "1 \<le> k" and "ps = drop (k - 1) js_atom_init" and "k \<le> 225"
  shows "\<exists>ok rt'. init_loop M ps k rt = Inr (ok, rt') \<and> (ok \<longrightarrow> table_ok rt' \<and> atom_array rt' \<noteq> [] \<and> texts rt' = init_texts 225) \<and>
    (enough_memory M \<longrightarrow> ok)"
  using assms(1,3-)
proof (induction ps arbitrary: k rt)
  case Nil
  then have "k = 225" using names_count by (cases "k < 225") auto
  then show ?case using Nil by (intro exI [of _ True]) simp
next
  case (Cons p ps)
  have k: "k < 225" using Cons.prems(7,8) names_count by (cases "k = 225") auto
  have "js_atom_init ! (k - 1) # drop k js_atom_init = drop (k - 1) js_atom_init"
    using Cons_nth_drop_Suc [of "k - 1" js_atom_init] k names_count Cons.prems(6) by simp
  then have p: "p = js_atom_init ! (k - 1)" "ps = drop (k + 1 - 1) js_atom_init"
    using Cons.prems(7) by (metis list.inject, metis add_diff_cancel_right' list.inject)
  let ?us = "map ucast (bytes_of p)"
  have us: "?us = units (Str8 (bytes_of p))" by simp
  have new: "\<forall>j. texts rt j \<noteq> Some (1, ?us)" if "init_type k = 1"
  proof -
    have "k < 210" using that init_type_cases(2) [of k] by (simp add: JS_ATOM_Private_brand_def)
    then show ?thesis using init_texts_new [of k] Cons.prems(5,6) by (simp add: p(1))
  qed
  obtain i rt1 where i: "NewAtomInit M (bytes_of p) (init_type k) rt = Inr (i, rt1)" "table_ok rt1" "atom_array rt1 \<noteq> []"
    "i \<noteq> 0 \<longrightarrow> i = k \<and> free_tail rt1 (k + 1) \<and> texts rt1 = (texts rt)(k \<mapsto> (if init_type k = 1 then 1 else 3, ?us)) \<and>
       finite (dom (strings rt1))" "enough_memory M \<and> k < 2 ^ 10 \<longrightarrow> i \<noteq> 0"
    using init_step [OF Cons.prems(1) M Cons.prems(2,3,4) init_type_cases(1) us new] by blast
  show ?case
  proof (cases "i = 0")
    case True
    then have "\<not> enough_memory M" using i(5) k by simp
    then show ?thesis using True i(1) by (intro exI [of _ False]) (simp add: atom_consts)
  next
    case False
    then have "texts rt1 = init_texts (k + 1)"
      using i(4) init_texts_next [OF Cons.prems(6)] Cons.prems(5) p(1) by simp
    moreover have "1 \<le> k + 1" "k + 1 \<le> 225" using k by simp_all
    moreover have "free_tail rt1 (k + 1)" "finite (dom (strings rt1))" using i(4) False by blast+
    ultimately show ?thesis using Cons.IH [of rt1 "k + 1"] i(1,2,3) p(2) False by (simp add: atom_consts)
  qed
qed

text \<open>The empty table.\<close>

lemma start_table:
  assumes M: "memory_ok M" and heap: "strings rt = Map.empty"
  defines "rt0 \<equiv> rt\<lparr>atom_hash := [], atom_count := 0, atom_array := [], atom_free_index := 0\<rparr>"
  shows "\<exists>ok rt1. JS_ResizeAtomHash M 256 rt0 = Inr (ok, rt1) \<and> (enough_memory M \<longrightarrow> ok) \<and>
    (ok \<longrightarrow> table_ok rt1 \<and> atom_array rt1 = [] \<and> atom_count rt1 = 0 \<and> strings rt1 = Map.empty)"
proof -
  obtain c w where w: "alloc_table M 1024 (outside rt0) = (c, w)" by fastforce
  have enough: "c" if "enough_memory M"
  proof -
    have "fst (alloc_table M 1024 (outside rt0))" using that unfolding enough_memory_def by simp
    then show ?thesis by (simp add: w)
  qed
  have assert: "(256 :: nat) AND 255 = 0" by code_simp
  show ?thesis
  proof (cases c)
    case False
    then show ?thesis using w enough assert by (auto simp: JS_ResizeAtomHash_def)
  next
    case True
    define rt1 where "rt1 = rt0\<lparr>outside := release M w, atom_hash := replicate 256 0, atom_count_resize := JS_ATOM_COUNT_RESIZE 256\<rparr>"
    have "JS_ResizeAtomHash M 256 rt0 = Inr (True, rt1)"
      using True w assert by (simp add: JS_ResizeAtomHash_def rt1_def rt0_def)
    moreover have at': "atom_at rt1 = (\<lambda>_. None)" by (simp add: atom_at_def fun_eq_iff rt1_def rt0_def)
    have "hashed rt1 = {}" by (simp add: hashed_def at')
    then have "chains_for (link rt1) (hash_at rt1) (atom_hash rt1) (hashed rt1)"
      using chains_for_empty [of _ _ 256] by (simp add: rt1_def)
    moreover have "free_for (atom_array rt1) (atom_free_index rt1)"
      by (auto simp: free_for_def free_link_def rt1_def rt0_def intro!: exI [of _ "[]"])
    moreover have "entries_ok rt1" by (simp add: entries_ok_def array_inj_def rt1_def rt0_def heap)
    moreover have "unique_ok rt1" by (simp add: unique_ok_def at')
    moreover have "{i. atom_at rt1 i \<noteq> None} = {}" by (simp add: at')
    then have "sizes_ok rt1" unfolding sizes_ok_def by (auto simp: rt1_def rt0_def intro!: exI [of _ 8])
    ultimately show ?thesis using enough heap by (auto simp: table_ok_def rt1_def rt0_def)
  qed
qed

text \<open>The start as a whole, with the texts of all entries.\<close>

lemma InitAtoms_fills:
  assumes M: "memory_ok M" and heap: "strings rt = Map.empty"
  shows "\<exists>ok rt'. JS_InitAtoms M rt = Inr (ok, rt') \<and> (enough_memory M \<longrightarrow> ok) \<and>
    (ok \<longrightarrow> table_ok rt' \<and> numerals_ok rt' \<and> (\<forall>i. texts rt' i = (if 1 \<le> i \<and> i \<le> 224
       then Some (if i \<le> 209 then 1 else 3, map ucast (bytes_of (js_atom_init ! (i - 1)))) else None)))"
proof -
  let ?rt0 = "rt\<lparr>atom_hash := [], atom_count := 0, atom_array := [], atom_free_index := 0\<rparr>"
  obtain ok rt1 where rt1: "JS_ResizeAtomHash M 256 ?rt0 = Inr (ok, rt1)" "enough_memory M \<longrightarrow> ok"
    "ok \<longrightarrow> table_ok rt1 \<and> atom_array rt1 = [] \<and> atom_count rt1 = 0 \<and> strings rt1 = Map.empty"
    using start_table [OF M heap] by blast
  have texts: "init_texts 225 i = (if 1 \<le> i \<and> i \<le> 224
       then Some (if i \<le> 209 then 1 else 3, map ucast (bytes_of (js_atom_init ! (i - 1)))) else None)" for i
    by (auto simp: init_texts_def JS_ATOM_Private_brand_def)
  show ?thesis
  proof (cases ok)
    case False
    then show ?thesis using rt1 by (intro exI [of _ False]) (simp add: JS_InitAtoms_def)
  next
    case True
    have names: "js_atom_init = ''null'' # drop 1 js_atom_init" by (simp add: js_atom_init_def)
    obtain i rt2 where i: "NewAtomInit M (bytes_of ''null'') 1 rt1 = Inr (i, rt2)"
      "i \<noteq> 0 \<longrightarrow> table_ok rt2 \<and> atom_array rt2 \<noteq> [] \<and> free_tail rt2 2 \<and>
         texts rt2 = (\<lambda>_. None)(1 \<mapsto> (1, units (Str8 (bytes_of ''null'')))) \<and> finite (dom (strings rt2))"
      "enough_memory M \<longrightarrow> i \<noteq> 0"
      using first_step [OF _ M _ _ _ refl, of rt1 "bytes_of ''null''"] rt1(3) True by auto
    have loop: "JS_InitAtoms M rt = (if i = 0 then Inr (False, rt2) else init_loop M (drop 1 js_atom_init) 2 rt2)"
      using rt1(1) True i(1) by (subst JS_InitAtoms_def, subst names) (simp add: init_type_def JS_ATOM_Private_brand_def
        JS_ATOM_Symbol_toPrimitive_def atom_consts numeral_2_eq_2)
    show ?thesis
    proof (cases "i = 0")
      case True
      then show ?thesis using loop i(3) by (intro exI [of _ False]) simp
    next
      case False
      have null: "js_atom_init ! 0 = ''null''" by (subst names) (rule nth_Cons_0)
      have "init_texts 2 = (\<lambda>_. None)(1 \<mapsto> (1, units (Str8 (bytes_of ''null''))))"
      proof
        fix j show "init_texts 2 j = ((\<lambda>_. None)(1 \<mapsto> (1, units (Str8 (bytes_of ''null''))))) j"
          unfolding init_texts_def by (cases "j = 1") (simp_all add: null JS_ATOM_Private_brand_def)
      qed
      then have "texts rt2 = init_texts 2" using i(2) False by simp
      then obtain ok' rt' where fill: "init_loop M (drop 1 js_atom_init) 2 rt2 = Inr (ok', rt')"
        "ok' \<longrightarrow> table_ok rt' \<and> texts rt' = init_texts 225" "enough_memory M \<longrightarrow> ok'"
        using init_loop_fills [of rt2 M 2 "drop 1 js_atom_init"] i(2) False M by auto
      have "numerals_ok rt'" if "ok'"
        unfolding numerals_ok_def
      proof (intro allI impI)
        fix j us and n :: nat
        assume "texts rt' j = Some (1, us)" "n < 2 ^ 31"
        then have some: "init_texts 225 j = Some (1, us)" using fill(2) that by simp
        define s where "s = js_atom_init ! (j - 1)"
        have j: "1 \<le> j" "j < 225" and us: "us = map ucast (bytes_of s)"
          using some by (simp_all add: init_texts_def s_def split: if_splits)
        have s: "s \<in> set js_atom_init" using j names_count unfolding s_def by (intro nth_mem) simp
        have us': "map unat us = map of_char s" unfolding us by (rule units_of_name)
        show "map unat us \<noteq> decimal n"
        proof
          assume h: "map unat us = decimal n"
          then have "s \<noteq> []" using us' decimal_nonempty [of n] by auto
          then have "of_char (hd s) \<in> set (decimal n)" using us' h by (metis hd_in_set hd_map list.map_disc_iff)
          from decimal_digits [OF this] show False using bspec [OF names_no_numbers s] \<open>s \<noteq> []\<close> by simp
        qed
      qed
      then show ?thesis using loop False fill texts by simp
    qed
  qed
qed

text \<open>C38.
  Starting the engine: \<open>JS_InitAtoms\<close> ends without an error of memory access or a failed assertion,
  with a correct table in which the atom number \<open>i\<close> is the name of position \<open>i\<close> in \<open>quickjs-atom.h\<close>, a
  string up to the 209th and a symbol from then on, so that the constants of the code stand for
  their names; or it reports that memory ran out, which it does not when there is enough.
\<close>

theorem JS_InitAtoms_constants:
  assumes M: "memory_ok M" and heap: "strings rt = Map.empty"
  shows "\<exists>ok rt'. JS_InitAtoms M rt = Inr (ok, rt') \<and> (enough_memory M \<longrightarrow> ok) \<and>
    (ok \<longrightarrow> table_ok rt' \<and>
       (\<forall>i \<in> {1 .. 209}. atom_text rt' (of_nat i) = Some (map of_char (js_atom_init ! (i - 1)))) \<and>
       (\<forall>i \<in> {210 .. 224}. texts rt' i = Some (3, map ucast (bytes_of (js_atom_init ! (i - 1))))) \<and>
       (\<forall>i. i = 0 \<or> i > 224 \<longrightarrow> texts rt' i = None))"
proof -
  obtain ok rt' where r: "JS_InitAtoms M rt = Inr (ok, rt')" "enough_memory M \<longrightarrow> ok"
    "ok \<longrightarrow> table_ok rt' \<and> (\<forall>i. texts rt' i = (if 1 \<le> i \<and> i \<le> 224
       then Some (if i \<le> 209 then 1 else 3, map ucast (bytes_of (js_atom_init ! (i - 1)))) else None))"
    using InitAtoms_fills [OF M heap] by blast
  have "atom_text rt' (of_nat i) = Some (map of_char (js_atom_init ! (i - 1)))" if "ok" "i \<in> {1 .. 209}" for i
  proof -
    have "texts rt' i = Some (1, map ucast (bytes_of (js_atom_init ! (i - 1))))" using r(3) that by simp
    then show ?thesis using atom_text_index [of i rt'] units_of_name that(2) by simp
  qed
  then show ?thesis using r by simp
qed

text \<open>A memory with all addresses, for the witnesses: the lowest free one is given.\<close>

definition lowest_free :: "unit atom_mem" where
  "lowest_free = \<lparr>alloc_string = \<lambda>n h w. (if \<exists>p. h p = None then Some (LEAST p. h p = None) else None, w),
     alloc_table = \<lambda>n w. (n \<le> 2 ^ 20, w), release = \<lambda>w. w\<rparr>"

definition blank :: "unit atom_runtime" where
  "blank = \<lparr>atom_hash = [], atom_array = [], atom_count = 0, atom_count_resize = 0, atom_free_index = 0,
     strings = Map.empty, outside = ()\<rparr>"

lemma lowest_free_ok: "memory_ok lowest_free" "enough_memory lowest_free"
proof -
  have "h (LEAST p. h p = None) = None" if "\<exists>p. h p = None" for h :: "ptr \<rightharpoonup> atom_struct"
    using that by (rule LeastI_ex)
  then show "memory_ok lowest_free" by (auto simp: memory_ok_def lowest_free_def split: if_splits)
  have "\<exists>p. h p = None" if "finite (dom h)" for h :: "ptr \<rightharpoonup> atom_struct"
    using ex_new_if_finite [OF _ that] by (auto simp: infinite_UNIV_nat)
  then show "enough_memory lowest_free" by (auto simp: enough_memory_def lowest_free_def)
qed

lemma blank_strings: "strings blank = Map.empty"
  by (simp add: blank_def)

theorem JS_InitAtoms_constants_witness:
  "\<exists>rt'. JS_InitAtoms lowest_free blank = Inr (True, rt') \<and> table_ok rt' \<and>
    atom_text rt' 1 = Some (map of_char ''null'') \<and> atom_text rt' 48 = Some (map of_char ''length'')"
  using JS_InitAtoms_constants [OF lowest_free_ok(1) blank_strings]
proof (elim exE conjE)
  fix ok rt'
  assume r: "JS_InitAtoms lowest_free blank = Inr (ok, rt')" "enough_memory lowest_free \<longrightarrow> ok"
    "ok \<longrightarrow> table_ok rt' \<and>
       (\<forall>i \<in> {1 .. 209}. atom_text rt' (of_nat i) = Some (map of_char (js_atom_init ! (i - 1)))) \<and>
       (\<forall>i \<in> {210 .. 224}. texts rt' i = Some (3, map ucast (bytes_of (js_atom_init ! (i - 1))))) \<and>
       (\<forall>i. i = 0 \<or> i > 224 \<longrightarrow> texts rt' i = None)"
  from r(2) have ok: ok using lowest_free_ok(2) by (rule mp)
  note c = mp [OF r(3) ok]
  have "js_atom_init ! 0 = ''null''" "js_atom_init ! 47 = ''length''" by (simp_all add: js_atom_init_def)
  moreover have "(1 :: nat) \<in> {1 .. 209}" "(48 :: nat) \<in> {1 .. 209}" by simp_all
  note bspec [OF conjunct1 [OF conjunct2 [OF c]] this(1)] bspec [OF conjunct1 [OF conjunct2 [OF c]] this(2)]
  ultimately show ?thesis using r(1) ok conjunct1 [OF c] by (intro exI [of _ rt']) simp
qed

end
