(* ===== verification/JsAtomHistory.thy ===== *)
theory JsAtomHistory
  imports JsAtomInit
begin

text \<open>
  Uses of atoms by the rest of the engine, in any order: strings turned into atoms, and atoms
  duplicated and given up again. No history fails, and whatever happens in between, two atoms that
  are still held are equal exactly when their strings are.
\<close>

section \<open>What an operation leaves alone\<close>

lemma move_chain_array: "move_chain n rt heads h = Inr (rt', heads') \<Longrightarrow> atom_array rt' = atom_array rt"
  by (induction n arbitrary: rt heads h)
    (auto simp: move_chain.simps [of 0] move_chain.simps [of "Suc n" for n] bnd_eq_Inr Let_def split: if_splits)

lemma move_chains_array: "move_chains hs rt heads = Inr (rt', heads') \<Longrightarrow> atom_array rt' = atom_array rt"
  by (induction hs arbitrary: rt heads) (auto simp: bnd_eq_Inr dest!: move_chain_array)

lemma resize_array: "JS_ResizeAtomHash M n rt = Inr (ok, rt') \<Longrightarrow> atom_array rt' = atom_array rt"
  by (auto simp: JS_ResizeAtomHash_def bnd_eq_Inr dest!: move_chains_array split: if_splits prod.splits bool.splits)

lemma enter_array:
  assumes "enter_atom M p h h1 ty rt = Inr (i, rt')"
  shows "atom_array rt' = (atom_array rt)[i := Atom p]"
  using assms unfolding enter_atom_def Let_def bnd_eq_Inr
  by (elim exE conjE, rename_tac e, case_tac e) (auto simp: bnd_eq_Inr dest!: resize_array split: if_split_asm)

lemma free_plain:
  assumes "strings rt s = Some a" and "atom_type a = 0" and "js_free_string M s rt = Inr rt'"
  shows "atom_array rt' = atom_array rt" and "p \<noteq> s \<Longrightarrow> strings rt' p = strings rt p"
  using assms by (auto simp: js_free_string_def deref_Some put_def Let_def split: if_splits)

lemma grow_array:
  "grow_atom_array M rt = Inr (ok, rt') \<Longrightarrow> atom_array rt \<noteq> [] \<Longrightarrow>
    (\<exists>ext. atom_array rt' = atom_array rt @ ext) \<and> strings rt' = strings rt \<and>
    (ok \<longrightarrow> atom_free_index rt' = length (atom_array rt))"
  unfolding grow_atom_array_def Let_def by (auto split: if_splits prod.splits bool.splits)

text \<open>
  A string that is no atom: entering it changes no entry but its own, and no structure but the string
  when it is given up.
\<close>

lemma create_array:
  assumes s: "strings rt s = Some a" "atom_type a = 0" and arr: "atom_array rt \<noteq> []"
    and res: "create_atom M (Some s) h h1 ty rt = Inr (i, rt')"
  shows "(\<exists>ext. atom_array rt' = atom_array rt @ ext \<and> i = 0 \<and> (\<forall>p. p \<noteq> s \<longrightarrow> strings rt' p = strings rt p)) \<or>
    (\<exists>ext. atom_array rt' = (atom_array rt @ ext)[i := Atom s] \<and> i \<noteq> 0)"
proof -
  obtain ok rt1 where rt1: "(if atom_free_index rt = 0 then grow_atom_array M rt else Inr (True, rt)) = Inr (ok, rt1)"
    using res by (auto simp: create_atom_def bnd_eq_Inr)
  then obtain ext where ext: "atom_array rt1 = atom_array rt @ ext" "strings rt1 = strings rt"
    and index: "ok \<longrightarrow> atom_free_index rt1 \<noteq> 0"
    using grow_array [of M rt ok rt1] arr by (auto split: if_splits)
  show ?thesis
  proof (cases ok)
    case False
    then have "js_free_string M s rt1 = Inr rt'" "i = 0"
      using res rt1 by (auto simp: create_atom_def finish_atom_def bnd_eq_Inr atom_consts)
    then show ?thesis using free_plain [of rt1 s a M rt'] ext s by auto
  next
    case True
    then have "enter_atom M s h h1 ty (put s (a\<lparr>atom_type := ty\<rparr>) rt1) = Inr (i, rt')"
      using res rt1 ext s by (simp add: create_atom_def new_structure_def deref_Some)
    note this = enter_array [OF this] enter_index [OF this]
    then show ?thesis using ext(1) index True by auto
  qed
qed

section \<open>Atoms that are held\<close>

text \<open>The count of references of an entry.\<close>

definition entry_refs :: "'w atom_runtime \<Rightarrow> nat \<Rightarrow> int option" where
  "entry_refs rt i = map_option header_ref_count (atom_at rt i)"

lemma entry_refs_ptr: "i < length (atom_array rt) \<Longrightarrow> atom_array rt ! i = Atom p \<Longrightarrow> entry_refs rt i = refs rt p"
  by (simp add: entry_refs_def atom_at_def refs_def)

lemma entry_refs_Some:
  assumes "entry_refs rt i = Some n"
  obtains p where "i < length (atom_array rt)" "atom_array rt ! i = Atom p" "refs rt p = Some n"
  using assms by (auto simp: entry_refs_def atom_at_def refs_def split: if_splits entry.splits)

lemma entry_refs_kept:
  assumes "entry_refs rt j = Some n" and "atom_array rt' = (atom_array rt @ ext)[i := Atom s]" and "j \<noteq> i"
    and "\<And>p. Atom p \<in> set (atom_array rt) \<Longrightarrow> refs rt' p = refs rt p"
  shows "entry_refs rt' j = Some n"
proof -
  obtain p where p: "j < length (atom_array rt)" "atom_array rt ! j = Atom p" "refs rt p = Some n"
    using assms(1) by (rule entry_refs_Some)
  then have "refs rt' p = Some n" using assms(4) [of p] by (metis nth_mem)
  then show ?thesis using p assms(2,3) entry_refs_ptr [of j rt' p] by (simp add: nth_append)
qed

lemma finish_plain:
  assumes "strings rt s = Some a" and "atom_type a = 0" and "finish_atom M (Some s) i rt = Inr (k, rt')"
  shows "atom_array rt' = atom_array rt"
  using assms free_plain(1) [of rt s a M] by (auto simp: finish_atom_def bnd_eq_Inr)

lemma NewAtom_found_array:
  assumes T: "table_ok rt" and s: "strings rt s = Some a" "atom_type a = 0"
    and found: "has_text rt j 1 (units (chars a))" and res: "NewAtom M (Some s) 1 rt = Inr (i, rt')"
  shows "atom_array rt' = atom_array rt"
proof -
  note ok = table_okD [OF T]
  define h where "h = hash_string (chars a) (of_nat 1) AND JS_ATOM_HASH_MASK"
  obtain k where k: "find_atom (length (atom_array rt)) rt h 1 (chars a) (atom_hash rt ! bucket (length (atom_hash rt)) h) = Inr k"
    "if k = 0 then \<forall>j. \<not> has_text rt j 1 (units (chars a)) else has_text rt k 1 (units (chars a))"
    using find_atom_finds [OF T _ h_def] by auto
  then have "k \<noteq> 0" using found by metis
  then have "bnd (if \<not> AtomIsConst (of_nat k) then bnd (atom_ptr rt k) (\<lambda>p. add_reference p rt) else Inr rt)
      (finish_atom M (Some s) k) = Inr (i, rt')"
    using res k(1) ok(7) s by (simp add: NewAtom_def deref_Some h_def Let_def atom_consts)
  then obtain rt1 where rt1: "(if \<not> AtomIsConst (of_nat k) then bnd (atom_ptr rt k) (\<lambda>p. add_reference p rt) else Inr rt) = Inr rt1"
    "finish_atom M (Some s) k rt1 = Inr (i, rt')" by (auto simp: bnd_eq_Inr)
  have same: "atom_array rt1 = atom_array rt \<and> (\<exists>b. strings rt1 s = Some b \<and> atom_type b = 0)"
  proof (cases "AtomIsConst (of_nat k)")
    case False
    then obtain p b where "strings rt p = Some b" "rt1 = put p (b\<lparr>header_ref_count := header_ref_count b + 1\<rparr>) rt"
      using rt1(1) by (auto simp: add_reference_def bnd_eq_Inr deref_eq)
    then show ?thesis using s by auto
  qed (use rt1(1) s in auto)
  then show ?thesis using finish_plain [OF _ _ rt1(2)] by auto
qed

text \<open>The counts after a string was turned into an atom.\<close>

lemma NewAtom_refs:
  assumes T: "table_ok rt" and M: "memory_ok M" and arr: "atom_array rt \<noteq> []"
    and s: "strings rt s = Some a" "atom_type a = 0" "header_ref_count a = 1"
    and res: "NewAtom M (Some s) 1 rt = Inr (i, rt')"
  shows "entry_refs rt j = Some n \<Longrightarrow> entry_refs rt' j = Some (if i = j \<and> j \<ge> 225 then n + 1 else n)"
    and "i \<noteq> 0 \<Longrightarrow> entry_refs rt i = None \<Longrightarrow> entry_refs rt' i = Some 1"
proof -
  let ?us = "units (chars a)"
  have one: "(1 :: nat) \<in> {1, 2}" and count: "header_ref_count a \<ge> 1" using s(3) by simp_all
  have notin: "Atom s \<notin> set (atom_array rt)" using not_in_table [OF T] s by simp
  note new = NewAtom_string [OF T M arr one s(1,2) count]
  show "entry_refs rt' j = Some (if i = j \<and> j \<ge> 225 then n + 1 else n)" if h: "entry_refs rt j = Some n"
  proof (cases "\<exists>k. has_text rt k 1 ?us")
    case True
    have refs: "\<forall>p. p \<noteq> s \<longrightarrow> refs rt' p = (if atom_array rt ! i = Atom p \<and> i \<ge> 225 then map_option (\<lambda>n. n + 1) (refs rt p) else refs rt p)"
      and i: "has_text rt i 1 ?us" using new res unfolding if_P [OF True] by auto
    have same: "atom_array rt' = atom_array rt" using True NewAtom_found_array [OF T s(1,2) _ res] by blast
    obtain p where p: "j < length (atom_array rt)" "atom_array rt ! j = Atom p" "refs rt p = Some n"
      using h by (rule entry_refs_Some)
    then have "p \<noteq> s" using notin nth_mem by metis
    moreover have "i < length (atom_array rt)" using i by (auto simp: has_text_def atom_at_def split: if_splits)
    then have "atom_array rt ! i = Atom p \<longleftrightarrow> i = j"
      using p array_injD [OF table_okD(6) [OF T], of i j p] by auto
    ultimately have "refs rt' p = Some (if i = j \<and> j \<ge> 225 then n + 1 else n)" using refs p(3) by auto
    then show ?thesis using p same entry_refs_ptr [of j rt' p] by simp
  next
    case False
    then have create: "create_atom M (Some s) (hash_string (chars a) (of_nat 1) AND JS_ATOM_HASH_MASK)
        (bucket (length (atom_hash rt)) (hash_string (chars a) (of_nat 1) AND JS_ATOM_HASH_MASK)) 1 rt = Inr (i, rt')"
      using NewAtom_absent [OF T one s(1,2) _ refl, of M] res by simp
    have out: "if i = 0 then texts rt' = texts rt else texts rt i = None \<and> refs rt' = refs rt"
      using new res unfolding if_not_P [OF False] by (auto split: if_splits)
    show ?thesis
    proof (cases "i = 0")
      case True
      from create_array [OF s(1,2) arr create] obtain ext where
        ext: "atom_array rt' = atom_array rt @ ext" "\<forall>p. p \<noteq> s \<longrightarrow> strings rt' p = strings rt p" using True by blast
      have "refs rt' p = refs rt p" if "Atom p \<in> set (atom_array rt)" for p
        using that notin ext(2) by (cases "p = s") (auto simp: refs_def)
      moreover have "j < length (atom_array rt)" using h by (rule entry_refs_Some)
      ultimately have "entry_refs rt' j = Some n"
        using entry_refs_kept [OF h, of rt' ext "length (atom_array rt @ ext)" s] ext(1) by (simp add: list_update_beyond)
      then show ?thesis using True by auto
    next
      case False
      then have none: "texts rt i = None" "refs rt' = refs rt" using out by simp_all
      then have "entry_refs rt i = None" using False by (simp add: texts_def entry_refs_def)
      then have "j \<noteq> i" using h by auto
      from create_array [OF s(1,2) arr create] obtain ext where "atom_array rt' = (atom_array rt @ ext)[i := Atom s]" using False by blast
      from entry_refs_kept [OF h this \<open>j \<noteq> i\<close>] show ?thesis using none(2) \<open>j \<noteq> i\<close> by simp
    qed
  qed
  show "entry_refs rt' i = Some 1" if h: "i \<noteq> 0" "entry_refs rt i = None"
  proof -
    have texts: "texts rt i = None" using h by (simp add: texts_def entry_refs_def)
    have absent: "\<not> (\<exists>k. has_text rt k 1 ?us)"
    proof
      assume "\<exists>k. has_text rt k 1 ?us"
      from new [unfolded if_P [OF this]] res have "has_text rt i 1 ?us" by auto
      then show False using has_text_texts [OF T, of 1 i ?us] texts by simp
    qed
    then have create: "create_atom M (Some s) (hash_string (chars a) (of_nat 1) AND JS_ATOM_HASH_MASK)
        (bucket (length (atom_hash rt)) (hash_string (chars a) (of_nat 1) AND JS_ATOM_HASH_MASK)) 1 rt = Inr (i, rt')"
      using NewAtom_absent [OF T one s(1,2) _ refl, of M] res absent by simp
    have out: "table_ok rt'" "texts rt' = (texts rt)(i \<mapsto> (1, ?us))" "refs rt' = refs rt"
      using new res h(1) unfolding if_not_P [OF absent] by auto
    from create_array [OF s(1,2) arr create] obtain ext where ext: "atom_array rt' = (atom_array rt @ ext)[i := Atom s]"
      using h(1) by blast
    have "texts rt' i \<noteq> None" using out(2) by simp
    then have "i < length (atom_array rt')" by (auto simp: texts_def atom_at_def split: if_splits)
    then have "entry_refs rt' i = refs rt s" using ext entry_refs_ptr [of i rt' s] out(3) by simp
    then show ?thesis using s by (simp add: refs_def)
  qed
qed

section \<open>Histories\<close>

text \<open>
  A client with the atoms it holds, each with the string it was made of: it turns a string into an
  atom, duplicates one of its atoms, or gives one up. It has the atom 0 for failures only.
\<close>

type_synonym held = "(u32 \<times> nat list) list"

datatype atom_use = Intern JSString | Duplicate nat | Give_up nat

fun use_atom :: "'w atom_mem \<Rightarrow> atom_use \<Rightarrow> 'w atom_runtime \<times> held \<Rightarrow> ('w atom_runtime \<times> held) res" where
  "use_atom M (Intern str) (rt, held) =
     (case js_alloc_string_rt M str rt of
        (None, rt) \<Rightarrow> Inr (rt, held)
      | (Some s, rt) \<Rightarrow> bnd (JS_NewAtomStr M s rt) (\<lambda>(v, rt).
          Inr (rt, if v = 0 then held else held @ [(v, map unat (units str))])))"
| "use_atom M (Duplicate k) (rt, held) =
     (if k < length held
      then bnd (JS_DupAtom (fst (held ! k)) rt) (\<lambda>(v, rt). Inr (rt, held @ [(v, snd (held ! k))]))
      else Inr (rt, held))"
| "use_atom M (Give_up k) (rt, held) =
     (if k < length held
      then bnd (JS_FreeAtom M (fst (held ! k)) rt) (\<lambda>rt. Inr (rt, take k held @ drop (Suc k) held))
      else Inr (rt, held))"

fun use_atoms :: "'w atom_mem \<Rightarrow> atom_use list \<Rightarrow> 'w atom_runtime \<times> held \<Rightarrow> ('w atom_runtime \<times> held) res" where
  "use_atoms M [] c = Inr c"
| "use_atoms M (u # us) c = bnd (use_atom M u c) (use_atoms M us)"

text \<open>What holds at all times: atoms have their strings, and are counted often enough.\<close>

definition held_ok :: "'w atom_runtime \<Rightarrow> held \<Rightarrow> bool" where
  "held_ok rt held \<longleftrightarrow> table_ok rt \<and> numerals_ok rt \<and> atom_array rt \<noteq> [] \<and>
     (\<forall>(v, us) \<in> set held. atom_text rt v = Some us) \<and>
     (\<forall>j n. 225 \<le> j \<longrightarrow> entry_refs rt j = Some n \<longrightarrow> 1 \<le> n \<and> int (count_list (map fst held) (of_nat j)) \<le> n)"

lemma held_okD:
  assumes "held_ok rt held"
  shows "table_ok rt" "numerals_ok rt" "atom_array rt \<noteq> []" "(v, us) \<in> set held \<Longrightarrow> atom_text rt v = Some us"
    "225 \<le> j \<Longrightarrow> entry_refs rt j = Some n \<Longrightarrow> 1 \<le> n \<and> int (count_list (map fst held) (of_nat j)) \<le> n"
  using assms by (auto simp: held_ok_def)

lemma held_okI:
  assumes "table_ok rt" and "numerals_ok rt" and "atom_array rt \<noteq> []"
    and "\<And>v us. (v, us) \<in> set held \<Longrightarrow> atom_text rt v = Some us"
    and "\<And>j n. 225 \<le> j \<Longrightarrow> entry_refs rt j = Some n \<Longrightarrow> 1 \<le> n \<and> int (count_list (map fst held) (of_nat j)) \<le> n"
  shows "held_ok rt held"
  using assms unfolding held_ok_def by blast

lemma entry_refs_texts: "j \<noteq> 0 \<Longrightarrow> entry_refs rt j = None \<longleftrightarrow> texts rt j = None"
  by (simp add: entry_refs_def texts_def)

lemma entry_refs_bound: "table_ok rt \<Longrightarrow> entry_refs rt j = Some n \<Longrightarrow> j < 2 ^ 31"
  using table_okD(5) [of rt] by (auto simp: entry_refs_def atom_at_def sizes_ok_def split: if_splits)

lemma same_texts:
  assumes "texts rt' = texts rt"
  shows "atom_text rt' = atom_text rt" "numerals_ok rt' = numerals_ok rt"
  using assms by (simp_all add: atom_text_def fun_eq_iff numerals_ok_def)

lemma not_const_index: "\<not> AtomIsConst v \<longleftrightarrow> 225 \<le> unat v \<and> unat v < 2 ^ 31"
proof (cases "unat v < 2 ^ 31")
  case True
  then have "AtomIsConst (of_nat (unat v)) \<longleftrightarrow> unat v < 225" by (rule AtomIsConst_index)
  then show ?thesis using True by auto
next
  case False
  then have "sint v < 0" using tag_unat tag_bit by (simp add: bit_last_iff [symmetric] not_less)
  then show ?thesis using False by (simp add: AtomIsConst_def atom_consts)
qed

text \<open>The entry behind an atom that is held.\<close>

lemma held_entry:
  assumes T: "table_ok rt" and v: "atom_text rt v = Some us" "\<not> AtomIsConst v"
  obtains p a where "unat v < length (atom_array rt)" "atom_array rt ! unat v = Atom p" "strings rt p = Some a"
    "entry_refs rt (unat v) = Some (header_ref_count a)" "atom_ptr rt (unat v) = Inr p" "225 \<le> unat v"
    "of_nat (unat v) = v"
proof -
  have bound: "225 \<le> unat v" "unat v < 2 ^ 31" using v(2) not_const_index by blast+
  then have "\<not> AtomIsTaggedInt v" by (simp add: tag_unat)
  then have "texts rt (unat v) \<noteq> None" using v(1) by (auto simp: atom_text_def split: option.splits)
  then obtain a where a: "atom_at rt (unat v) = Some a" by (auto simp: texts_def split: if_splits)
  from pointer_at [OF this] obtain p where "unat v < length (atom_array rt)" "atom_array rt ! unat v = Atom p"
    "strings rt p = Some a" "atom_ptr rt (unat v) = Inr p" by metis
  then show thesis using that bound a by (simp add: entry_refs_def)
qed

lemma entry_refs_count:
  assumes T: "table_ok rt" and p: "i < length (atom_array rt)" "atom_array rt ! i = Atom p" "strings rt p = Some a"
  shows "entry_refs (put p (a\<lparr>header_ref_count := n\<rparr>) rt) j = (if j = i then Some n else entry_refs rt j)"
proof (cases "j < length (atom_array rt) \<and> (\<exists>q. atom_array rt ! j = Atom q)")
  case True
  then obtain q where q: "j < length (atom_array rt)" "atom_array rt ! j = Atom q" by blast
  then have "q = p \<longleftrightarrow> j = i" using p array_injD [OF table_okD(6) [OF T], of i j p] by auto
  then show ?thesis using q p by (auto simp: entry_refs_def atom_at_def)
next
  case False
  then have "atom_at rt j = None" "atom_at (put p (a\<lparr>header_ref_count := n\<rparr>) rt) j = None" "j \<noteq> i"
    using p by (auto simp: atom_at_def split: entry.splits)
  then show ?thesis by (simp add: entry_refs_def)
qed

lemma dup_held:
  assumes ok: "held_ok rt held" and k: "k < length held"
  shows "\<exists>rt' held'. use_atom M (Duplicate k) (rt, held) = Inr (rt', held') \<and> held_ok rt' held'"
proof -
  note h = held_okD [OF ok]
  obtain v us where vus: "held ! k = (v, us)" by fastforce
  then have tx: "atom_text rt v = Some us" using h(4) k nth_mem by metis
  show ?thesis
  proof (cases "AtomIsConst v")
    case True
    have "of_nat j \<noteq> v" if "225 \<le> j" "entry_refs rt j = Some n" for j n
      using AtomIsConst_index [OF entry_refs_bound [OF h(1) that(2)]] True that(1) by auto
    then have "held_ok rt (held @ [(v, us)])" using h tx by (auto simp: held_ok_def)
    then show ?thesis using True k vus by (simp add: JS_DupAtom_def)
  next
    case False
    obtain p a where p: "unat v < length (atom_array rt)" "atom_array rt ! unat v = Atom p" "strings rt p = Some a"
      "entry_refs rt (unat v) = Some (header_ref_count a)" "atom_ptr rt (unat v) = Inr p" "225 \<le> unat v" "of_nat (unat v) = v"
      using held_entry [OF h(1) tx False] by metis
    define rt' where "rt' = put p (a\<lparr>header_ref_count := header_ref_count a + 1\<rparr>) rt"
    have res: "use_atom M (Duplicate k) (rt, held) = Inr (rt', held @ [(v, us)])"
      using False k vus p by (simp add: JS_DupAtom_def add_reference_def deref_Some rt'_def)
    have T': "table_ok rt'" using table_ok_refcount [OF h(1) p(3)] by (simp add: rt'_def)
    have texts': "texts rt' = texts rt" using texts_put_refcount [OF p(3)] by (simp add: rt'_def)
    have refs': "entry_refs rt' j = (if j = unat v then Some (header_ref_count a + 1) else entry_refs rt j)" for j
      using entry_refs_count [OF h(1) p(1,2,3)] by (simp add: rt'_def)
    have "1 \<le> n \<and> int (count_list (map fst (held @ [(v, us)])) (of_nat j)) \<le> n"
      if j: "225 \<le> j" "entry_refs rt' j = Some n" for j n
    proof (cases "j = unat v")
      case True
      then show ?thesis using h(5) [OF p(6,4)] j(2) refs' p(7) by auto
    next
      case False
      then have "entry_refs rt j = Some n" using j(2) refs' by simp
      moreover have "v \<noteq> of_nat j"
        using False unat_index [OF entry_refs_bound [OF h(1) \<open>entry_refs rt j = Some n\<close>]] by auto
      ultimately show ?thesis using h(5) [OF j(1)] by simp
    qed
    then have "held_ok rt' (held @ [(v, us)])"
      using T' same_texts [OF texts'] h(2,3,4) tx by (auto simp: held_ok_def rt'_def)
    then show ?thesis using res by blast
  qed
qed

lemma count_removed:
  assumes "k < length held"
  shows "count_list (map fst held) w =
    count_list (map fst (take k held @ drop (Suc k) held)) w + (if fst (held ! k) = w then 1 else 0)"
  by (subst id_take_nth_drop [OF assms]) simp

lemma fewer_held:
  assumes ok: "held_ok rt held" and k: "k < length held"
  shows "held_ok rt (take k held @ drop (Suc k) held)"
proof -
  have "1 \<le> n \<and> int (count_list (map fst (take k held @ drop (Suc k) held)) (of_nat j)) \<le> n"
    if "225 \<le> j" "entry_refs rt j = Some n" for j n
    using held_okD(5) [OF ok that] count_removed [OF k, of "of_nat j"] by (simp split: if_splits)
  moreover have "set (take k held @ drop (Suc k) held) \<subseteq> set held"
    using set_take_subset set_drop_subset by fastforce
  ultimately show ?thesis using ok unfolding held_ok_def by blast
qed

lemma give_up_held:
  assumes ok: "held_ok rt held" and k: "k < length held"
  shows "\<exists>rt' held'. use_atom M (Give_up k) (rt, held) = Inr (rt', held') \<and> held_ok rt' held'"
proof -
  note h = held_okD [OF ok]
  obtain v us where vus: "held ! k = (v, us)" by fastforce
  then have tx: "atom_text rt v = Some us" using h(4) k nth_mem by metis
  let ?held = "take k held @ drop (Suc k) held"
  show ?thesis
  proof (cases "AtomIsConst v")
    case True
    then show ?thesis using fewer_held [OF ok k] k vus by (simp add: JS_FreeAtom_def)
  next
    case False
    obtain p a where p: "unat v < length (atom_array rt)" "atom_array rt ! unat v = Atom p" "strings rt p = Some a"
      "entry_refs rt (unat v) = Some (header_ref_count a)" "atom_ptr rt (unat v) = Inr p" "225 \<le> unat v" "of_nat (unat v) = v"
      using held_entry [OF h(1) tx False] by metis
    define rt1 where "rt1 = put p (a\<lparr>header_ref_count := header_ref_count a - 1\<rparr>) rt"
    have T1: "table_ok rt1" using table_ok_refcount [OF h(1) p(3)] by (simp add: rt1_def)
    have texts1: "texts rt1 = texts rt" using texts_put_refcount [OF p(3)] by (simp add: rt1_def)
    have array1: "atom_array rt1 = atom_array rt" by (simp add: rt1_def)
    have refs1: "entry_refs rt1 j = (if j = unat v then Some (header_ref_count a - 1) else entry_refs rt j)" for j
      using entry_refs_count [OF h(1) p(1,2,3)] by (simp add: rt1_def)
    have sub: "x \<in> set held" if "x \<in> set ?held" for x
      using that set_take_subset [of k held] set_drop_subset [of "Suc k" held] by auto
    have count: "int (count_list (map fst ?held) v) \<le> header_ref_count a - 1"
      using h(5) [OF p(6,4)] count_removed [OF k, of v] vus p(7) by simp
    have others: "1 \<le> n \<and> int (count_list (map fst ?held) (of_nat j)) \<le> n"
      if j: "225 \<le> j" "entry_refs rt j = Some n" for j n
      using held_okD(5) [OF fewer_held [OF ok k] j] .
    show ?thesis
    proof (cases "header_ref_count a - 1 > 0")
      case True
      have "use_atom M (Give_up k) (rt, held) = Inr (rt1, ?held)"
        using False True k vus p by (simp add: JS_FreeAtom_def FreeAtom_def deref_Some rt1_def Let_def)
      moreover have "held_ok rt1 ?held"
      proof (rule held_okI [OF T1])
        show "numerals_ok rt1" "atom_array rt1 \<noteq> []" using same_texts(2) [OF texts1] h(2,3) array1 by simp_all
        show "atom_text rt1 w = Some ws" if "(w, ws) \<in> set ?held" for w ws
          using h(4) [OF sub [OF that]] same_texts(1) [OF texts1] by simp
        show "1 \<le> n \<and> int (count_list (map fst ?held) (of_nat j)) \<le> n"
          if "225 \<le> j" "entry_refs rt1 j = Some n" for j n
          using that others [of j n] refs1 count True p(7) by (cases "j = unat v") auto
      qed
      ultimately show ?thesis by blast
    next
      case gone: False
      then have "count_list (map fst ?held) v = 0" using count by linarith
      then have not_held: "v \<notin> fst ` set ?held" by (simp add: count_list_0_iff image_Un)
      have "unat v \<noteq> 0" using p(6) by simp
      then obtain rt' where rt': "JS_FreeAtomStruct M p rt1 = Inr rt'" "table_ok rt'"
        "atom_array rt' = (atom_array rt)[unat v := Free (atom_free_index rt1)]" "view rt' = (view rt1)(p := None)"
        using free_struct_frees [OF T1, of "unat v" p M] p(1,2) array1 by auto
      have res: "use_atom M (Give_up k) (rt, held) = Inr (rt', ?held)"
        using False gone k vus p rt'(1) by (simp add: JS_FreeAtom_def FreeAtom_def deref_Some rt1_def Let_def)
      have ptr: "q \<noteq> p" if "j \<noteq> unat v" "j < length (atom_array rt)" "atom_array rt ! j = Atom q" for j q
        using that p(1,2) array_injD [OF table_okD(6) [OF h(1)], of j "unat v" p] by auto
      have texts': "texts rt' j = (if j = unat v then None else texts rt j)" for j
      proof (cases "j = unat v")
        case True
        then show ?thesis using rt'(3) p(1) by (simp add: texts_def atom_at_def)
      next
        case False
        have "texts rt' j = texts rt1 j" by (rule texts_view) (use rt'(3,4) ptr [OF False] False array1 in auto)
        then show ?thesis using False texts1 by simp
      qed
      have refs': "entry_refs rt' j = (if j = unat v then None else entry_refs rt j)" for j
      proof (cases "j = unat v")
        case True
        then show ?thesis using rt'(3) p(1) by (simp add: entry_refs_def atom_at_def)
      next
        case False
        have "refs rt' q = refs rt1 q" if "j < length (atom_array rt)" "atom_array rt ! j = Atom q" for q
          using refs_view [of rt' q rt1] rt'(4) ptr [OF False that] by simp
        then have "entry_refs rt' j = entry_refs rt1 j"
          using rt'(3) False array1 by (auto simp: entry_refs_def atom_at_def refs_def split: entry.split)
        then show ?thesis using False refs1 by simp
      qed
      have "atom_text rt' w = Some ws" if "(w, ws) \<in> set ?held" for w ws
      proof -
        have "w \<noteq> v" using not_held that by force
        then have "unat w \<noteq> unat v" by (simp add: word_unat_eq_iff)
        then have "texts rt' (unat w) = texts rt (unat w)" using texts' by simp
        then have "atom_text rt' w = atom_text rt w" unfolding atom_text_def by simp
        then show ?thesis using h(4) [OF sub [OF that]] by simp
      qed
      moreover have "numerals_ok rt'" using h(2) texts' unfolding numerals_ok_def by auto
      moreover have "1 \<le> n \<and> int (count_list (map fst ?held) (of_nat j)) \<le> n"
        if "225 \<le> j" "entry_refs rt' j = Some n" for j n
        using that others [of j n] refs' by (cases "j = unat v") auto
      moreover have "atom_array rt' \<noteq> []" using rt'(3) h(3) by (metis length_0_conv length_list_update)
      ultimately have "held_ok rt' ?held" by (intro held_okI [OF rt'(2)])
      then show ?thesis using res by blast
    qed
  qed
qed

text \<open>The counts after \<open>JS_NewAtomStr\<close>.\<close>

lemma JS_NewAtomStr_cases:
  assumes s: "strings rt s = Some a" and res: "JS_NewAtomStr M s rt = Inr (v, rt')"
  obtains (small) "AtomIsConst v" "js_free_string M s rt = Inr rt'"
  | (table) i where "NewAtom M (Some s) 1 rt = Inr (i, rt')" "v = of_nat i"
proof -
  obtain m where m: "is_num_string (chars a) = Inr m" using is_num_string_numeral [of "chars a"] by blast
  show thesis
  proof (cases "\<exists>n. m = Some n \<and> n \<le> JS_ATOM_MAX_INT")
    case True
    then obtain n where n: "m = Some n" "n \<le> JS_ATOM_MAX_INT" by blast
    then have "v = AtomFromUInt32 n" "js_free_string M s rt = Inr rt'"
      using res m by (auto simp: JS_NewAtomStr_def deref_Some [OF s] bnd_eq_Inr)
    moreover from tagged(1) [OF n(2)] have "AtomIsConst (AtomFromUInt32 n)"
      using not_const_index [of "AtomFromUInt32 n"] tag_unat [of "AtomFromUInt32 n"] by auto
    ultimately show thesis using small by simp
  next
    case False
    then have "bnd (NewAtom M (Some s) 1 rt) (\<lambda>(i, rt). Inr (of_nat i, rt)) = Inr (v, rt')"
      using res m by (cases m) (auto simp: JS_NewAtomStr_def deref_Some [OF s] atom_consts)
    then show thesis using table by (auto simp: bnd_eq_Inr)
  qed
qed

lemma JS_NewAtomStr_refs:
  assumes T: "table_ok rt" and M: "memory_ok M" and arr: "atom_array rt \<noteq> []"
    and s: "strings rt s = Some a" "atom_type a = 0" "header_ref_count a = 1"
    and res: "JS_NewAtomStr M s rt = Inr (v, rt')" and j: "225 \<le> j" "j < 2 ^ 31"
  shows "entry_refs rt j = Some n \<Longrightarrow> entry_refs rt' j = Some (if v = of_nat j then n + 1 else n)"
    and "entry_refs rt j = None \<Longrightarrow> entry_refs rt' j = Some n \<Longrightarrow> v = of_nat j \<and> n = 1"
proof -
  have notin: "Atom s \<notin> set (atom_array rt)" using not_in_table [OF T] s by simp
  have one: "(1 :: nat) \<in> {1, 2}" and count: "header_ref_count a \<ge> 1" using s(3) by simp_all
  have nc: "\<not> AtomIsConst (of_nat j)" using AtomIsConst_index [OF j(2)] j(1) by simp
  from s(1) res have "(\<forall>n. entry_refs rt j = Some n \<longrightarrow> entry_refs rt' j = Some (if v = of_nat j then n + 1 else n)) \<and>
    (\<forall>n. entry_refs rt j = None \<longrightarrow> entry_refs rt' j = Some n \<longrightarrow> v = of_nat j \<and> n = 1)"
  proof (cases rule: JS_NewAtomStr_cases)
    case small
    have "entry_refs rt' j = entry_refs rt j"
    proof -
      have "strings rt' p = strings rt p" if "j < length (atom_array rt)" "atom_array rt ! j = Atom p" for p
        using free_plain(2) [OF s(1,2) small(2), of p] that notin nth_mem by metis
      then show ?thesis using free_plain(1) [OF s(1,2) small(2)]
        by (auto simp: entry_refs_def atom_at_def split: entry.split)
    qed
    moreover have "v \<noteq> of_nat j" using small(1) nc by auto
    ultimately show ?thesis by auto
  next
    case (table i)
    note refs = NewAtom_refs [OF T M arr s table(1)]
    obtain i' rt1 where out: "NewAtom M (Some s) 1 rt = Inr (i', rt1)" "table_ok rt1"
      "has_text rt i' 1 (units (chars a)) \<and> i' \<noteq> 0 \<and> texts rt1 = texts rt \<or>
       (\<nexists>j. has_text rt j 1 (units (chars a))) \<and> i' = 0 \<and> texts rt1 = texts rt \<or>
       (\<nexists>j. has_text rt j 1 (units (chars a))) \<and> i' \<noteq> 0 \<and> texts rt i' = None \<and>
         texts rt1 = (texts rt)(i' \<mapsto> (1, units (chars a))) \<and> (\<forall>k. free_tail rt k \<longrightarrow> i' = k \<and> free_tail rt1 (k + 1))"
      by (rule NewAtom_texts [OF T M arr one s(1,2) count])
    then have same: "i' = i" "rt1 = rt'" using table(1) by auto
    have "i < 2 ^ 31"
    proof (cases "i = 0")
      case False
      then have "texts rt' i \<noteq> None" using out(3) same has_text_texts [OF T, of 1 i "units (chars a)"] by auto
      then show ?thesis using texts_bound [of rt' i] out(2) same by simp
    qed simp
    then have eq: "v = of_nat j \<longleftrightarrow> i = j" using table(2) j(2) unat_index by metis
    have "v = of_nat j \<and> n = 1" if e: "entry_refs rt j = None" "entry_refs rt' j = Some n" for n
    proof -
      have "j \<noteq> 0" using j(1) by simp
      then have "texts rt j = None" "texts rt' j \<noteq> None"
        using e entry_refs_texts [of j rt] entry_refs_texts [of j rt'] by auto
      then have "i = j" using out(3) same by (auto split: if_splits)
      then show ?thesis using refs(2) \<open>j \<noteq> 0\<close> e eq by simp
    qed
    then show ?thesis using refs(1) [of j] eq j(1) by auto
  qed
  then show "entry_refs rt j = Some n \<Longrightarrow> entry_refs rt' j = Some (if v = of_nat j then n + 1 else n)"
    and "entry_refs rt j = None \<Longrightarrow> entry_refs rt' j = Some n \<Longrightarrow> v = of_nat j \<and> n = 1" by blast+
qed

lemma intern_held:
  assumes M: "memory_ok M" and ok: "held_ok rt held"
  shows "\<exists>rt' held'. use_atom M (Intern str) (rt, held) = Inr (rt', held') \<and> held_ok rt' held'"
proof (rule alloc_cases [OF M, of str rt])
  fix w assume "js_alloc_string_rt M str rt = (None, rt\<lparr>outside := w\<rparr>)"
  moreover have "held_ok (rt\<lparr>outside := w\<rparr>) held"
    using held_okD [OF ok] same_texts [of "rt\<lparr>outside := w\<rparr>" rt] by (intro held_okI) (simp_all add: entry_refs_def)
  ultimately show ?thesis by simp
next
  fix s w
  note h = held_okD [OF ok]
  let ?b = "\<lparr>header_ref_count = 1, chars = str, atom_type = 0, hash = 0, hash_next = 0\<rparr>"
  define rt1 where "rt1 = put s ?b (rt\<lparr>outside := w\<rparr>)"
  assume s: "js_alloc_string_rt M str rt = (Some s, put s ?b (rt\<lparr>outside := w\<rparr>))" "strings rt s = None"
  have plain: "atom_type ?b = 0" "header_ref_count ?b = 1" "header_ref_count ?b \<ge> 1" by simp_all
  note n = new_string [OF h(1) s(2) plain(1) rt1_def]
  have s1: "strings rt1 s = Some ?b" and arr1: "atom_array rt1 \<noteq> []" using h(3) by (simp_all add: rt1_def)
  have N1: "numerals_ok rt1" and same1: "atom_text rt1 = atom_text rt" using same_texts [OF n(5)] h(2) by simp_all
  obtain v rt' where v: "JS_NewAtomStr M s rt1 = Inr (v, rt')" "table_ok rt'" "numerals_ok rt'" "atom_array rt' \<noteq> []"
    "v \<noteq> 0 \<longrightarrow> atom_text rt' v = Some (map unat (units str))" "\<forall>w. atom_text rt1 w \<noteq> None \<longrightarrow> atom_text rt' w = atom_text rt1 w"
    using JS_NewAtomStr_interns [OF n(1) M arr1 N1 s1 plain(1,3)] by auto
  define held' where "held' = (if v = 0 then held else held @ [(v, map unat (units str))])"
  have "held_ok rt' held'"
  proof (rule held_okI [OF v(2,3,4)])
    show "atom_text rt' x = Some us" if "(x, us) \<in> set held'" for x us
      using that v(5,6) h(4) same1 by (auto simp: held'_def split: if_splits)
    show "1 \<le> m \<and> int (count_list (map fst held') (of_nat j)) \<le> m" if j: "225 \<le> j" "entry_refs rt' j = Some m" for j m
    proof -
      have bound: "j < 2 ^ 31" using entry_refs_bound [OF v(2) j(2)] .
      note refs = JS_NewAtomStr_refs [OF n(1) M arr1 s1 plain(1,2) v(1) j(1) bound]
      have same: "entry_refs rt1 j = entry_refs rt j" by (simp add: entry_refs_def n(4))
      have count: "count_list (map fst held') (of_nat j) =
          count_list (map fst held) (of_nat j) + (if v = of_nat j then 1 else 0)"
      proof -
        have "v \<noteq> of_nat j" if "v = 0" using that unat_index [OF bound] j(1) by auto
        then show ?thesis by (simp add: held'_def)
      qed
      show ?thesis
      proof (cases "entry_refs rt j")
        case (Some k)
        then show ?thesis using h(5) [OF j(1) Some] refs(1) [of k] same j(2) count by auto
      next
        case None
        have "of_nat j \<notin> set (map fst held)"
        proof
          assume "of_nat j \<in> set (map fst held)"
          then obtain us where "(of_nat j, us) \<in> set held" by auto
          then have "atom_text rt (of_nat j) = Some us" using h(4) by blast
          moreover have "texts rt j = None" using None entry_refs_texts [of j rt] j(1) by simp
          ultimately show False using atom_text_index [OF bound, of rt] by simp
        qed
        then have "count_list (map fst held) (of_nat j) = 0" by (simp add: count_list_0_iff)
        then show ?thesis using refs(2) same None j(2) count by simp
      qed
    qed
  qed
  moreover have "use_atom M (Intern str) (rt, held) = Inr (rt', held')"
    using s(1) v(1) by (simp add: rt1_def held'_def)
  ultimately show ?thesis by blast
qed

lemma use_atoms_held:
  assumes M: "memory_ok M"
  shows "held_ok rt held \<Longrightarrow> \<exists>rt' held'. use_atoms M us (rt, held) = Inr (rt', held') \<and> held_ok rt' held'"
proof (induction us arbitrary: rt held)
  case (Cons u us)
  have "\<exists>rt' held'. use_atom M u (rt, held) = Inr (rt', held') \<and> held_ok rt' held'"
  proof (cases u)
    case (Intern str)
    then show ?thesis using intern_held [OF M Cons.prems] by blast
  next
    case (Duplicate k)
    then show ?thesis using dup_held [OF Cons.prems, of k M] Cons.prems by (cases "k < length held") auto
  next
    case (Give_up k)
    then show ?thesis using give_up_held [OF Cons.prems, of k M] Cons.prems by (cases "k < length held") auto
  qed
  then show ?case using Cons.IH by force
qed simp

lemma start_held:
  assumes M: "memory_ok M" and heap: "strings rt = Map.empty" and start: "JS_InitAtoms M rt = Inr (True, rt0)"
  shows "held_ok rt0 []"
proof -
  have r: "table_ok rt0" "numerals_ok rt0" "\<forall>i. texts rt0 i = (if 1 \<le> i \<and> i \<le> 224
       then Some (if i \<le> 209 then 1 else 3, map ucast (bytes_of (js_atom_init ! (i - 1)))) else None)"
    using InitAtoms_fills [OF M heap] start by auto
  then have "texts rt0 1 \<noteq> None" by simp
  then have "atom_array rt0 \<noteq> []" by (auto simp: texts_def atom_at_def)
  moreover have "entry_refs rt0 j = None" if "225 \<le> j" for j
    using that r(3) entry_refs_texts [of j rt0] by simp
  ultimately show ?thesis using r(1,2) by (intro held_okI) simp_all
qed



end
