(* ===== verification/BfLimbs.thy ===== *)
theory BfLimbs
  imports Prelude
begin

unbundle bit_operations_syntax

text \<open>
  Arithmetic on numbers of several limbs (\<open>libbf.c\<close>, the functions \<open>mp_*\<close>). A limb is a word of any
  length, written \<open>'a word\<close>, since the code is compiled for limbs of 32 and of 64 bits; a number is a
  list of limbs with the lowest first.

  A function that goes through \<open>n\<close> limbs of its operands and stores \<open>n\<close> limbs is a function from the
  lists of these limbs to the list stored: every limb of an operand is read before the limb of the
  same index is stored, so that the result may be stored over an operand, as the callers do.
  Values of the type \<open>dlimb_t\<close> are integers with the wrap-around written out.
\<close>

section \<open>Values\<close>

fun limbs_val :: "'a::len word list \<Rightarrow> nat" where
  "limbs_val [] = 0"
| "limbs_val (x # xs) = unat x + 2 ^ LENGTH('a) * limbs_val xs"

lemma unat_limb: "unat (x :: 'a::len word) < 2 ^ LENGTH('a)"
  by (rule unsigned_less)

lemma uint_limb: "uint (x :: 'a::len word) < 2 ^ LENGTH('a)"
  by (rule unsigned_less)

lemma uint_limb0: "0 \<le> uint (x :: 'a::len word)"
  by (rule unsigned_greater_eq)

lemma limbs_val_append: "limbs_val (xs @ ys) = limbs_val xs + 2 ^ (LENGTH('a) * length xs) * limbs_val (ys :: 'a::len word list)"
  by (induction xs) (simp_all add: power_add algebra_simps)

lemma limbs_val_bound: "limbs_val (xs :: 'a::len word list) < 2 ^ (LENGTH('a) * length xs)"
proof (induction xs)
  case (Cons x xs)
  have "unat x < 2 ^ LENGTH('a)" by (rule unat_limb)
  moreover have "limbs_val xs + 1 \<le> 2 ^ (LENGTH('a) * length xs)" using Cons by simp
  then have "2 ^ LENGTH('a) * (limbs_val xs + 1) \<le> 2 ^ LENGTH('a) * 2 ^ (LENGTH('a) * length xs)" by (rule mult_le_mono2)
  ultimately have "unat x + 2 ^ LENGTH('a) * limbs_val xs < 2 ^ LENGTH('a) * 2 ^ (LENGTH('a) * length xs)"
    unfolding distrib_left by linarith
  then show ?case by (simp add: power_add)
qed simp

lemma limbs_val_replicate: "limbs_val (replicate n 0 :: 'a::len word list) = 0"
  by (induction n) simp_all

text \<open>The sum and the difference of two limbs with their carries.\<close>

lemma unat_add_carry: "unat (v + b :: 'a::len word) + 2 ^ LENGTH('a) * (if v + b < v then 1 else 0) = unat v + unat b"
proof -
  have bounds: "unat v < 2 ^ LENGTH('a)" "unat b < 2 ^ LENGTH('a)" by (rule unat_limb)+
  show ?thesis
  proof (cases "unat v + unat b < 2 ^ LENGTH('a)")
    case True
    then have "unat (v + b) = unat v + unat b" by (simp add: unat_word_ariths)
    then show ?thesis unfolding word_less_nat_alt by simp
  next
    case False
    have "unat (v + b) = (unat v + unat b) mod 2 ^ LENGTH('a)" by (rule unat_word_ariths)
    also have "\<dots> = unat v + unat b - 2 ^ LENGTH('a)"
      using bounds False by (subst le_mod_geq) (simp_all only: not_less, rule mod_less, linarith)
    finally have eq: "unat (v + b) = unat v + unat b - 2 ^ LENGTH('a)" .
    then have "unat (v + b) < unat v" using bounds False by linarith
    then have "v + b < v" unfolding word_less_nat_alt .
    then show ?thesis using False eq by simp
  qed
qed

lemma unat_sub_borrow: "unat (v - b :: 'a::len word) + unat b = unat v + 2 ^ LENGTH('a) * (if v - b > v then 1 else 0)"
proof -
  have "unat (v - b + b) + 2 ^ LENGTH('a) * (if v - b + b < v - b then 1 else 0) = unat (v - b) + unat b"
    by (rule unat_add_carry [symmetric, THEN sym])
  then show ?thesis by simp
qed

section \<open>Addition and subtraction\<close>

fun mp_add :: "'a::len word list \<Rightarrow> 'a word list \<Rightarrow> 'a word \<Rightarrow> 'a word list \<times> 'a word" where
  "mp_add (v # op1) (b # op2) k =
     (let a = v + b; k1 = (a < v); a = a + k; k = of_bool (a < k \<or> k1); (res, c) = mp_add op1 op2 k in (a # res, c))"
| "mp_add _ _ k = ([], k)"

fun mp_add_ui :: "'a::len word list \<Rightarrow> 'a word \<Rightarrow> 'a word list \<times> 'a word" where
  "mp_add_ui [] k = ([], k)"
| "mp_add_ui (x # tab) k =
     (if k = 0 then (x # tab, k)
      else let a = x + k; (res, c) = mp_add_ui tab (of_bool (a < k)) in (a # res, c))"

fun mp_sub :: "'a::len word list \<Rightarrow> 'a word list \<Rightarrow> 'a word \<Rightarrow> 'a word list \<times> 'a word" where
  "mp_sub (v # op1) (b # op2) k =
     (let a = v - b; k1 = (a > v); v = a - k; k = of_bool (v > a \<or> k1); (res, c) = mp_sub op1 op2 k in (v # res, c))"
| "mp_sub _ _ k = ([], k)"

fun mp_neg :: "'a::len word list \<Rightarrow> 'a word \<Rightarrow> 'a word list \<times> 'a word" where
  "mp_neg (b # op2) k =
     (let v = 0; a = v - b; k1 = (a > v); v = a - k; k = of_bool (v > a \<or> k1); (res, c) = mp_neg op2 k in (v # res, c))"
| "mp_neg [] k = ([], k)"

fun mp_sub_ui :: "'a::len word list \<Rightarrow> 'a word \<Rightarrow> 'a word list \<times> 'a word" where
  "mp_sub_ui [] k = ([], k)"
| "mp_sub_ui (v # tab) k =
     (let a = v - k; k = of_bool (a > v) in
      if k = 0 then (a # tab, k) else let (res, c) = mp_sub_ui tab k in (a # res, c))"

lemma carry_once:
  fixes v b k :: "'a::len word"
  assumes "unat k \<le> 1"
  shows "unat (v + b + k) + 2 ^ LENGTH('a) * unat (of_bool (v + b + k < k \<or> v + b < v) :: 'a word) = unat v + unat b + unat k"
proof -
  have 1: "unat (v + b) + 2 ^ LENGTH('a) * (if v + b < v then 1 else 0) = unat v + unat b" by (rule unat_add_carry)
  have 2: "unat (v + b + k) + 2 ^ LENGTH('a) * (if v + b + k < k then 1 else 0) = unat (v + b) + unat k"
    using unat_add_carry [of k "v + b"] by (simp add: ac_simps)
  have "\<not> (v + b + k < k \<and> v + b < v)"
  proof
    assume h: "v + b + k < k \<and> v + b < v"
    have "unat v < 2 ^ LENGTH('a)" "unat b < 2 ^ LENGTH('a)" by (rule unat_limb)+
    moreover have "unat (v + b + k) + 2 * 2 ^ LENGTH('a) = unat v + unat b + unat k" using 1 2 h by simp
    ultimately show False using assms by linarith
  qed
  then show ?thesis using 1 2 by (auto split: if_splits)
qed

lemma borrow_once:
  fixes v b k :: "'a::len word"
  assumes "unat k \<le> 1"
  shows "unat (v - b - k) + unat b + unat k = unat v + 2 ^ LENGTH('a) * unat (of_bool (v - b - k > v - b \<or> v - b > v) :: 'a word)"
proof -
  have 1: "unat (v - b) + unat b = unat v + 2 ^ LENGTH('a) * (if v - b > v then 1 else 0)" by (rule unat_sub_borrow)
  have 2: "unat (v - b - k) + unat k = unat (v - b) + 2 ^ LENGTH('a) * (if v - b - k > v - b then 1 else 0)"
    by (rule unat_sub_borrow)
  have "\<not> (v - b - k > v - b \<and> v - b > v)"
  proof
    assume h: "v - b - k > v - b \<and> v - b > v"
    have "unat b < 2 ^ LENGTH('a)" "unat (v - b - k) < 2 ^ LENGTH('a)" by (rule unat_limb)+
    moreover have "unat (v - b - k) + unat b + unat k = unat v + 2 * 2 ^ LENGTH('a)" using 1 2 h by simp
    ultimately show False using assms by linarith
  qed
  then show ?thesis using 1 2 by (auto split: if_splits)
qed

lemma unat_of_bool_le: "unat (of_bool P :: 'a::len word) \<le> 1"
  by simp

lemma mp_add_val:
  fixes op1 op2 :: "'a::len word list"
  assumes "length op1 = length op2" and "unat k \<le> 1" and "mp_add op1 op2 k = (r, c)"
  shows "limbs_val r + 2 ^ (LENGTH('a) * length op1) * unat c = limbs_val op1 + limbs_val op2 + unat k"
    and "length r = length op1" and "unat c \<le> 1"
proof -
  have "limbs_val r + 2 ^ (LENGTH('a) * length op1) * unat c = limbs_val op1 + limbs_val op2 + unat k \<and>
    length r = length op1 \<and> unat c \<le> 1"
    using assms
  proof (induction op1 op2 arbitrary: k r c rule: list_induct2)
    case (Cons v op1 b op2)
    define k' :: "'a word" where "k' = of_bool (v + b + k < k \<or> v + b < v)"
    obtain r' where r': "mp_add op1 op2 k' = (r', c)" "r = (v + b + k) # r'"
      using Cons.prems(2) by (auto simp: k'_def Let_def split: prod.splits)
    have "unat k' \<le> 1" by (simp add: k'_def)
    from Cons.IH [OF this r'(1)]
    have ih: "limbs_val r' + 2 ^ (LENGTH('a) * length op1) * unat c = limbs_val op1 + limbs_val op2 + unat k'"
      "length r' = length op1" "unat c \<le> 1" by blast+
    have "limbs_val r + 2 ^ (LENGTH('a) * length (v # op1)) * unat c =
        unat (v + b + k) + 2 ^ LENGTH('a) * (limbs_val r' + 2 ^ (LENGTH('a) * length op1) * unat c)"
      by (simp add: r'(2) power_add algebra_simps)
    also have "\<dots> = limbs_val (v # op1) + limbs_val (b # op2) + unat k"
      using carry_once [OF Cons.prems(1), of v b] by (simp only: ih) (simp add: k'_def algebra_simps)
    finally show ?case using ih r'(2) by simp
  qed simp
  then show "limbs_val r + 2 ^ (LENGTH('a) * length op1) * unat c = limbs_val op1 + limbs_val op2 + unat k"
    "length r = length op1" "unat c \<le> 1" by blast+
qed

lemma mp_sub_val:
  fixes op1 op2 :: "'a::len word list"
  assumes "length op1 = length op2" and "unat k \<le> 1" and "mp_sub op1 op2 k = (r, c)"
  shows "limbs_val r + limbs_val op2 + unat k = limbs_val op1 + 2 ^ (LENGTH('a) * length op1) * unat c"
    and "length r = length op1" and "unat c \<le> 1"
proof -
  have "limbs_val r + limbs_val op2 + unat k = limbs_val op1 + 2 ^ (LENGTH('a) * length op1) * unat c \<and>
    length r = length op1 \<and> unat c \<le> 1"
    using assms
  proof (induction op1 op2 arbitrary: k r c rule: list_induct2)
    case (Cons v op1 b op2)
    define k' :: "'a word" where "k' = of_bool (v - b - k > v - b \<or> v - b > v)"
    obtain r' where r': "mp_sub op1 op2 k' = (r', c)" "r = (v - b - k) # r'"
      using Cons.prems(2) by (auto simp: k'_def Let_def split: prod.splits)
    have "unat k' \<le> 1" by (simp add: k'_def)
    from Cons.IH [OF this r'(1)]
    have ih: "limbs_val r' + limbs_val op2 + unat k' = limbs_val op1 + 2 ^ (LENGTH('a) * length op1) * unat c"
      "length r' = length op1" "unat c \<le> 1" by blast+
    have "limbs_val (v # op1) + 2 ^ (LENGTH('a) * length (v # op1)) * unat c =
        unat v + 2 ^ LENGTH('a) * (limbs_val op1 + 2 ^ (LENGTH('a) * length op1) * unat c)"
      by (simp add: power_add algebra_simps)
    also have "\<dots> = limbs_val r + limbs_val (b # op2) + unat k"
      using borrow_once [OF Cons.prems(1), of v b]
      by (simp only: ih(1) [symmetric]) (simp add: k'_def r'(2) algebra_simps)
    finally show ?case using ih r'(2) by simp
  qed simp
  then show "limbs_val r + limbs_val op2 + unat k = limbs_val op1 + 2 ^ (LENGTH('a) * length op1) * unat c"
    "length r = length op1" "unat c \<le> 1" by blast+
qed

lemma mp_neg_sub: "mp_neg op2 k = mp_sub (replicate (length op2) 0) op2 k"
  by (induction op2 arbitrary: k) (simp_all add: Let_def)

lemma mp_add_ui_val:
  fixes tab :: "'a::len word list"
  shows "mp_add_ui tab k = (r, c) \<Longrightarrow>
    limbs_val r + 2 ^ (LENGTH('a) * length tab) * unat c = limbs_val tab + unat k \<and> length r = length tab"
proof (induction tab arbitrary: k r c)
  case (Cons x tab)
  show ?case
  proof (cases "k = 0")
    case True
    then show ?thesis using Cons.prems by auto
  next
    case False
    then obtain r' where r': "mp_add_ui tab (of_bool (x + k < k)) = (r', c)" "r = (x + k) # r'"
      using Cons.prems by (auto simp: Let_def split: prod.splits)
    have carry: "unat (x + k) + 2 ^ LENGTH('a) * (if x + k < k then 1 else 0) = unat x + unat k"
      using unat_add_carry [of k x] by (simp add: ac_simps)
    have ih: "limbs_val r' + 2 ^ (LENGTH('a) * length tab) * unat c = limbs_val tab + unat (of_bool (x + k < k) :: 'a word)"
      "length r' = length tab" using Cons.IH [OF r'(1)] by blast+
    have "limbs_val r + 2 ^ (LENGTH('a) * length (x # tab)) * unat c =
        unat (x + k) + 2 ^ LENGTH('a) * (limbs_val r' + 2 ^ (LENGTH('a) * length tab) * unat c)"
      by (simp add: r'(2) power_add algebra_simps)
    also have "\<dots> = limbs_val (x # tab) + unat k"
      using carry by (simp only: ih(1)) (auto simp: algebra_simps split: if_splits)
    finally show ?thesis using ih(2) r'(2) by simp
  qed
qed simp

lemma mp_sub_ui_val:
  fixes tab :: "'a::len word list"
  shows "mp_sub_ui tab k = (r, c) \<Longrightarrow>
    limbs_val r + unat k = limbs_val tab + 2 ^ (LENGTH('a) * length tab) * unat c \<and> length r = length tab"
proof (induction tab arbitrary: k r c)
  case (Cons v tab)
  have borrow: "unat (v - k) + unat k = unat v + 2 ^ LENGTH('a) * (if v - k > v then 1 else 0)"
    by (rule unat_sub_borrow)
  show ?case
  proof (cases "v - k > v")
    case False
    then show ?thesis using Cons.prems borrow by (auto simp: Let_def)
  next
    case True
    then obtain r' where r': "mp_sub_ui tab 1 = (r', c)" "r = (v - k) # r'"
      using Cons.prems by (auto simp: Let_def split: prod.splits)
    have ih: "limbs_val r' + unat (1 :: 'a word) = limbs_val tab + 2 ^ (LENGTH('a) * length tab) * unat c"
      "length r' = length tab" using Cons.IH [OF r'(1)] by blast+
    have "limbs_val (v # tab) + 2 ^ (LENGTH('a) * length (v # tab)) * unat c =
        unat v + 2 ^ LENGTH('a) * (limbs_val tab + 2 ^ (LENGTH('a) * length tab) * unat c)"
      by (simp add: power_add algebra_simps)
    also have "\<dots> = limbs_val r + unat k"
      using borrow True by (simp only: ih(1) [symmetric]) (simp add: r'(2) algebra_simps)
    finally show ?thesis using ih(2) r'(2) by simp
  qed
qed simp

section \<open>Shift\<close>

text \<open>The limbs from the highest on; \<open>l\<close> is the limb above.\<close>

fun shr_loop :: "nat \<Rightarrow> 'a::len word \<Rightarrow> 'a word list \<Rightarrow> 'a word list \<times> 'a word" where
  "shr_loop shift l [] = ([], l)"
| "shr_loop shift l (a # tab) =
     (let (res, l') = shr_loop shift a tab in ((drop_bit shift a OR push_bit (LENGTH('a) - shift) l) # res, l'))"

definition mp_shr :: "'a::len word list \<Rightarrow> nat \<Rightarrow> 'a word \<Rightarrow> ('a word list \<times> 'a word) res" where
  "mp_shr tab shift high =
     (if shift \<ge> 1 \<and> shift < LENGTH('a)
      then let (res, l) = shr_loop shift high (rev tab) in Inr (rev res, l AND (push_bit shift 1 - 1))
      else Inl (Fail ''assert''))"

lemma shr_limb:
  fixes a l :: "'a::len word"
  assumes "0 < s" and "s < LENGTH('a)"
  shows "unat (drop_bit s a OR push_bit (LENGTH('a) - s) l) * 2 ^ s + unat a mod 2 ^ s = unat a + unat l mod 2 ^ s * 2 ^ LENGTH('a)"
proof -
  let ?n = "LENGTH('a)"
  have hi: "unat (push_bit (?n - s) l) = unat l mod 2 ^ s * 2 ^ (?n - s)"
  proof -
    have "unat (push_bit (?n - s) l) = take_bit ?n (push_bit (?n - s) (unat l))" by (rule unsigned_push_bit_eq)
    also have "\<dots> = push_bit (?n - s) (take_bit s (unat l))" using assms by (simp only: take_bit_push_bit) simp
    finally show ?thesis by (simp only: push_bit_eq_mult take_bit_eq_mod)
  qed
  have "unat (drop_bit s a) = drop_bit s (take_bit ?n (unat a))" by (rule unsigned_drop_bit_eq)
  then have lo: "unat (drop_bit s a) = unat a div 2 ^ s"
    using unat_limb [of a] by (simp only: take_bit_nat_eq_self drop_bit_eq_div)
  have "drop_bit s a AND push_bit (?n - s) l = 0"
  proof (rule bit_eqI)
    fix k show "bit (drop_bit s a AND push_bit (?n - s) l) k \<longleftrightarrow> bit (0 :: 'a word) k"
      using bit_imp_le_length [of a "s + k"] assms by (auto simp: bit_and_iff bit_drop_bit_eq bit_push_bit_iff)
  qed
  then have "unat (drop_bit s a) AND unat (push_bit (?n - s) l) = 0" by (simp flip: unsigned_and_eq)
  then have "unat (drop_bit s a OR push_bit (?n - s) l) = unat a div 2 ^ s + unat l mod 2 ^ s * 2 ^ (?n - s)"
    by (simp add: unsigned_or_eq hi lo flip: disjunctive_add_eq_or)
  moreover have "(2 :: nat) ^ (?n - s) * 2 ^ s = 2 ^ ?n" using assms by (simp flip: power_add)
  ultimately show ?thesis by (simp add: algebra_simps)
qed

lemma shr_loop_val:
  fixes tab :: "'a::len word list"
  assumes s: "0 < s" "s < LENGTH('a)"
  shows "shr_loop s l tab = (res, l') \<Longrightarrow>
    limbs_val (rev res) * 2 ^ s + unat l' mod 2 ^ s = unat l mod 2 ^ s * 2 ^ (LENGTH('a) * length tab) + limbs_val (rev tab) \<and>
    length res = length tab"
proof (induction tab arbitrary: l res l')
  case (Cons a tab)
  obtain res' where r: "shr_loop s a tab = (res', l')" "res = (drop_bit s a OR push_bit (LENGTH('a) - s) l) # res'"
    using Cons.prems by (auto split: prod.splits)
  let ?q = "drop_bit s a OR push_bit (LENGTH('a) - s) l" and ?b = "2 ^ (LENGTH('a) * length tab) :: nat"
  have ih: "limbs_val (rev res') * 2 ^ s + unat l' mod 2 ^ s = unat a mod 2 ^ s * ?b + limbs_val (rev tab)"
    "length res' = length tab" using Cons.IH [OF r(1)] by blast+
  have "limbs_val (rev res) * 2 ^ s + unat l' mod 2 ^ s = ?b * (unat ?q * 2 ^ s + unat a mod 2 ^ s) + limbs_val (rev tab)"
    using ih by (simp add: r(2) limbs_val_append algebra_simps)
  also have "\<dots> = unat l mod 2 ^ s * 2 ^ (LENGTH('a) * length (a # tab)) + limbs_val (rev (a # tab))"
    unfolding shr_limb [OF s] by (simp add: limbs_val_append power_add algebra_simps)
  finally show ?case using ih(2) r(2) by simp
qed simp

lemma unat_low_mask:
  assumes "s < LENGTH('a)"
  shows "unat (l AND (push_bit s 1 - 1) :: 'a::len word) = unat l mod 2 ^ s"
proof -
  have "push_bit s 1 - 1 = (mask s :: 'a word)" by (simp add: mask_eq_exp_minus_1 push_bit_eq_mult)
  then have "l AND (push_bit s 1 - 1) = take_bit s l" by (simp add: take_bit_eq_mask)
  moreover have "unat (take_bit s l) = take_bit s (unat l)" by (simp only: unsigned_take_bit_eq)
  ultimately show ?thesis by (simp only: take_bit_eq_mod)
qed

lemma mp_shr_val:
  fixes tab :: "'a::len word list"
  assumes "1 \<le> s" and "s < LENGTH('a)" and "unat high < 2 ^ s"
  shows "\<exists>r l. mp_shr tab s high = Inr (r, l) \<and> length r = length tab \<and>
    limbs_val r * 2 ^ s + unat l = unat high * 2 ^ (LENGTH('a) * length tab) + limbs_val tab \<and> unat l < 2 ^ s"
proof -
  obtain res l where r: "shr_loop s high (rev tab) = (res, l)" by fastforce
  have "limbs_val (rev res) * 2 ^ s + unat l mod 2 ^ s = unat high * 2 ^ (LENGTH('a) * length tab) + limbs_val tab"
    "length res = length tab" using shr_loop_val [OF _ assms(2) r] assms by simp_all
  moreover have "mp_shr tab s high = Inr (rev res, l AND (push_bit s 1 - 1))" using assms r by (simp add: mp_shr_def)
  ultimately show ?thesis using unat_low_mask [OF assms(2), of l]
    by (intro exI [of _ "rev res"] exI [of _ "l AND (push_bit s 1 - 1)"]) simp
qed

section \<open>Multiplication\<close>

text \<open>A value of the double length type, and its upper half.\<close>

definition dlimb :: "nat \<Rightarrow> int \<Rightarrow> int" where
  "dlimb n t = t mod 2 ^ (2 * n)"

fun mp_mul1 :: "'a::len word list \<Rightarrow> 'a word \<Rightarrow> 'a word \<Rightarrow> 'a word list \<times> 'a word" where
  "mp_mul1 [] b l = ([], l)"
| "mp_mul1 (a # taba) b l =
     (let t = dlimb LENGTH('a) (uint a * uint b + uint l); (res, c) = mp_mul1 taba b (of_int (t div 2 ^ LENGTH('a)))
      in (of_int t # res, c))"

fun mp_add_mul1 :: "'a::len word list \<Rightarrow> 'a word list \<Rightarrow> 'a word \<Rightarrow> 'a word \<Rightarrow> 'a word list \<times> 'a word" where
  "mp_add_mul1 (x # tabr) (a # taba) b l =
     (let t = dlimb LENGTH('a) (uint a * uint b + uint l + uint x);
          (res, c) = mp_add_mul1 tabr taba b (of_int (t div 2 ^ LENGTH('a)))
      in (of_int t # res, c))"
| "mp_add_mul1 _ _ b l = ([], l)"

fun mp_sub_mul1 :: "'a::len word list \<Rightarrow> 'a word list \<Rightarrow> 'a word \<Rightarrow> 'a word \<Rightarrow> 'a word list \<times> 'a word" where
  "mp_sub_mul1 (x # tabr) (a # taba) b l =
     (let t = dlimb LENGTH('a) (uint x - uint a * uint b - uint l);
          (res, c) = mp_sub_mul1 tabr taba b (of_int (- (t div 2 ^ LENGTH('a))))
      in (of_int t # res, c))"
| "mp_sub_mul1 _ _ b l = ([], l)"

text \<open>The limbs of an array from \<open>i\<close> on, of which \<open>n\<close> are used.\<close>

definition part :: "'a list \<Rightarrow> nat \<Rightarrow> nat \<Rightarrow> 'a list res" where
  "part tab i n = (if i + n \<le> length tab then Inr (take n (drop i tab)) else Inl Undef)"

fun mul_loop :: "'a::len word list \<Rightarrow> 'a word list \<Rightarrow> 'a word list \<Rightarrow> nat \<Rightarrow> 'a word list res" where
  "mul_loop result op1 [] i = Inr result"
| "mul_loop result op1 (b # op2) i =
     bnd (part result i (length op1)) (\<lambda>x.
       let (x, r) = mp_add_mul1 x op1 b 0 in
       bnd (memcpy result i x) (\<lambda>result. bnd (wr result (i + length op1) r) (\<lambda>result.
         mul_loop result op1 op2 (i + 1))))"

definition mp_mul_basecase :: "'a::len word list \<Rightarrow> 'a word list \<Rightarrow> 'a word list \<Rightarrow> 'a word list res" where
  "mp_mul_basecase result op1 op2 =
     bnd (rd op2 0) (\<lambda>b.
       let (x, r) = mp_mul1 op1 b 0 in
       bnd (memcpy result 0 x) (\<lambda>result. bnd (wr result (length op1) r) (\<lambda>result.
         mul_loop result op1 (drop 1 op2) 1)))"

text \<open>A value of two limbs that does not wrap around.\<close>

lemma split_dlimb:
  fixes t :: int
  assumes "0 \<le> t" and "t < 2 ^ (2 * LENGTH('a))"
  shows "dlimb LENGTH('a) t = t"
    and "int (unat (of_int t :: 'a::len word)) + 2 ^ LENGTH('a) * int (unat (of_int (t div 2 ^ LENGTH('a)) :: 'a word)) = t"
proof -
  show "dlimb LENGTH('a) t = t" using assms by (simp add: dlimb_def)
  have "t div 2 ^ LENGTH('a) < 2 ^ LENGTH('a)"
  proof (rule ccontr)
    assume "\<not> t div 2 ^ LENGTH('a) < 2 ^ LENGTH('a)"
    then have "2 ^ LENGTH('a) * 2 ^ LENGTH('a) \<le> t div 2 ^ LENGTH('a) * 2 ^ LENGTH('a)" by (intro mult_right_mono) simp_all
    also have "\<dots> \<le> t" by (simp add: minus_mod_eq_div_mult [symmetric])
    finally show False using assms(2) by (simp add: mult_2 power_add)
  qed
  moreover have "0 \<le> t div 2 ^ LENGTH('a)" using assms(1) by (simp add: pos_imp_zdiv_nonneg_iff)
  ultimately have "uint (of_int (t div 2 ^ LENGTH('a)) :: 'a word) = t div 2 ^ LENGTH('a)"
    by (simp add: unsigned_of_int take_bit_eq_mod)
  moreover have "uint (of_int t :: 'a word) = t mod 2 ^ LENGTH('a)" by (simp add: unsigned_of_int take_bit_eq_mod)
  ultimately show "int (unat (of_int t :: 'a word)) + 2 ^ LENGTH('a) * int (unat (of_int (t div 2 ^ LENGTH('a)) :: 'a word)) = t"
    by simp
qed

lemma dlimb_bound:
  fixes a b l x :: "'a::len word"
  shows "uint a * uint b + uint l + uint x < 2 ^ (2 * LENGTH('a))"
proof -
  have "uint a \<le> 2 ^ LENGTH('a) - 1" "uint b \<le> 2 ^ LENGTH('a) - 1" "uint l \<le> 2 ^ LENGTH('a) - 1" "uint x \<le> 2 ^ LENGTH('a) - 1"
    using uint_limb [of a] uint_limb [of b] uint_limb [of l] uint_limb [of x] by linarith+
  moreover from this have "uint a * uint b \<le> (2 ^ LENGTH('a) - 1) * (2 ^ LENGTH('a) - 1)" by (intro mult_mono) simp_all
  ultimately have "uint a * uint b + uint l + uint x \<le> 2 ^ LENGTH('a) * 2 ^ LENGTH('a) - 1"
    by (simp add: algebra_simps)
  then show ?thesis by (simp add: mult_2 power_add)
qed

lemma mp_mul1_val:
  fixes taba :: "'a::len word list"
  shows "mp_mul1 taba b l = (r, c) \<Longrightarrow>
    limbs_val r + 2 ^ (LENGTH('a) * length taba) * unat c = limbs_val taba * unat b + unat l \<and> length r = length taba"
proof (induction taba arbitrary: l r c)
  case (Cons a taba)
  let ?t = "uint a * uint b + uint l"
  have t: "0 \<le> ?t" "?t < 2 ^ (2 * LENGTH('a))" using dlimb_bound [of a b l 0] by simp_all
  let ?h = "of_int (?t div 2 ^ LENGTH('a)) :: 'a word"
  obtain r' where r': "mp_mul1 taba b ?h = (r', c)" "r = of_int ?t # r'"
    using Cons.prems by (auto simp: Let_def split_dlimb(1) [OF t] split: prod.splits)
  have ih: "limbs_val r' + 2 ^ (LENGTH('a) * length taba) * unat c = limbs_val taba * unat b + unat ?h"
    "length r' = length taba" using Cons.IH [OF r'(1)] by blast+
  have "int (unat (of_int ?t :: 'a word) + 2 ^ LENGTH('a) * unat ?h) = int (unat a * unat b + unat l)"
    using split_dlimb(2) [OF t] by simp
  then have split: "unat (of_int ?t :: 'a word) + 2 ^ LENGTH('a) * unat ?h = unat a * unat b + unat l" by (simp only: of_nat_eq_iff)
  have "limbs_val r + 2 ^ (LENGTH('a) * length (a # taba)) * unat c =
      unat (of_int ?t :: 'a word) + 2 ^ LENGTH('a) * (limbs_val r' + 2 ^ (LENGTH('a) * length taba) * unat c)"
    by (simp add: r'(2) power_add algebra_simps)
  also have "\<dots> = limbs_val (a # taba) * unat b + unat l"
    using split by (simp only: ih(1)) (simp add: algebra_simps)
  finally show ?case using ih(2) r'(2) by simp
qed simp

lemma mp_add_mul1_val:
  fixes taba :: "'a::len word list"
  assumes "length tabr = length taba" and "mp_add_mul1 tabr taba b l = (r, c)"
  shows "limbs_val r + 2 ^ (LENGTH('a) * length taba) * unat c = limbs_val tabr + limbs_val taba * unat b + unat l"
    and "length r = length taba"
proof -
  have "limbs_val r + 2 ^ (LENGTH('a) * length taba) * unat c = limbs_val tabr + limbs_val taba * unat b + unat l \<and>
    length r = length taba"
    using assms
  proof (induction tabr taba arbitrary: l r c rule: list_induct2)
    case (Cons x tabr a taba)
    let ?t = "uint a * uint b + uint l + uint x"
    have t: "0 \<le> ?t" "?t < 2 ^ (2 * LENGTH('a))" using dlimb_bound [of a b l x] by simp_all
    let ?h = "of_int (?t div 2 ^ LENGTH('a)) :: 'a word"
    obtain r' where r': "mp_add_mul1 tabr taba b ?h = (r', c)" "r = of_int ?t # r'"
      using Cons.prems by (auto simp: Let_def split_dlimb(1) [OF t] split: prod.splits)
    have ih: "limbs_val r' + 2 ^ (LENGTH('a) * length taba) * unat c = limbs_val tabr + limbs_val taba * unat b + unat ?h"
      "length r' = length taba" using Cons.IH [OF r'(1)] by blast+
    have "int (unat (of_int ?t :: 'a word) + 2 ^ LENGTH('a) * unat ?h) = int (unat a * unat b + unat l + unat x)"
      using split_dlimb(2) [OF t] by simp
    then have split: "unat (of_int ?t :: 'a word) + 2 ^ LENGTH('a) * unat ?h = unat a * unat b + unat l + unat x"
      by (simp only: of_nat_eq_iff)
    have "limbs_val r + 2 ^ (LENGTH('a) * length (a # taba)) * unat c =
        unat (of_int ?t :: 'a word) + 2 ^ LENGTH('a) * (limbs_val r' + 2 ^ (LENGTH('a) * length taba) * unat c)"
      by (simp add: r'(2) power_add algebra_simps)
    also have "\<dots> = limbs_val (x # tabr) + limbs_val (a # taba) * unat b + unat l"
      using split by (simp only: ih(1)) (simp add: algebra_simps)
    finally show ?case using ih(2) r'(2) by simp
  qed simp
  then show "limbs_val r + 2 ^ (LENGTH('a) * length taba) * unat c = limbs_val tabr + limbs_val taba * unat b + unat l"
    "length r = length taba" by blast+
qed

lemma uint_small: "0 \<le> h \<Longrightarrow> h < 2 ^ LENGTH('a) \<Longrightarrow> uint (of_int h :: 'a::len word) = h"
  by (simp add: unsigned_of_int take_bit_eq_mod)

lemma split_borrow:
  fixes t :: int
  assumes "- (2 ^ LENGTH('a) - 1) * 2 ^ LENGTH('a) \<le> t" and "t < 2 ^ LENGTH('a)"
  defines "d \<equiv> dlimb LENGTH('a) t"
  shows "int (unat (of_int d :: 'a::len word)) = t + 2 ^ LENGTH('a) * int (unat (of_int (- (d div 2 ^ LENGTH('a))) :: 'a word))"
proof -
  let ?B = "2 ^ LENGTH('a) :: int"
  define k where "k = t div (?B * ?B)"
  have "d = t mod (?B * ?B)" by (simp add: d_def dlimb_def mult_2 power_add)
  then have d: "d = t + ?B * (- (?B * k))"
    using minus_mult_div_eq_mod [of t "?B * ?B"] by (simp add: k_def mult.assoc)
  have "d div ?B = - (?B * k) + t div ?B" unfolding d by (rule div_mult_self2) simp
  then have "(of_int (- (d div ?B)) :: 'a word) = of_int (- (t div ?B))"
    by (simp add: word_of_int_2p)
  moreover have "t div ?B \<le> 0"
  proof -
    have "t div ?B \<le> (?B - 1) div ?B" by (rule zdiv_mono1) (use assms(2) in simp_all)
    then show ?thesis by (simp add: div_pos_pos_trivial)
  qed
  moreover have "- (?B - 1) \<le> t div ?B"
  proof -
    have "- (?B - 1) * ?B div ?B \<le> t div ?B" by (rule zdiv_mono1 [OF assms(1)]) simp
    then show ?thesis by simp
  qed
  ultimately have "int (unat (of_int (- (d div ?B)) :: 'a word)) = - (t div ?B)"
    using uint_small [of "- (t div ?B)", where 'a = 'a] by simp
  moreover have "int (unat (of_int d :: 'a word)) = t mod ?B"
    by (simp add: d unsigned_of_int take_bit_eq_mod)
  ultimately show ?thesis by (simp add: minus_mult_div_eq_mod [symmetric])
qed

lemma mp_sub_mul1_val:
  fixes taba :: "'a::len word list"
  assumes "length tabr = length taba" and "mp_sub_mul1 tabr taba b l = (r, c)"
  shows "limbs_val r + limbs_val taba * unat b + unat l = limbs_val tabr + 2 ^ (LENGTH('a) * length taba) * unat c"
    and "length r = length taba"
proof -
  have "limbs_val r + limbs_val taba * unat b + unat l = limbs_val tabr + 2 ^ (LENGTH('a) * length taba) * unat c \<and>
    length r = length taba"
    using assms
  proof (induction tabr taba arbitrary: l r c rule: list_induct2)
    case (Cons x tabr a taba)
    let ?t = "uint x - uint a * uint b - uint l"
    let ?d = "dlimb LENGTH('a) ?t"
    let ?h = "of_int (- (?d div 2 ^ LENGTH('a))) :: 'a word"
    have "uint a \<le> 2 ^ LENGTH('a) - 1" "uint b \<le> 2 ^ LENGTH('a) - 1" "uint l \<le> 2 ^ LENGTH('a) - 1"
      using uint_limb [of a] uint_limb [of b] uint_limb [of l] by linarith+
    moreover from this have "uint a * uint b \<le> (2 ^ LENGTH('a) - 1) * (2 ^ LENGTH('a) - 1)" by (intro mult_mono) simp_all
    ultimately have "uint a * uint b + uint l \<le> (2 ^ LENGTH('a) - 1) * 2 ^ LENGTH('a)" by (simp add: algebra_simps)
    then have low: "- (2 ^ LENGTH('a) - 1) * 2 ^ LENGTH('a) \<le> ?t" 
      using uint_limb0 [of x] unfolding mult_minus_left by linarith
    have "0 \<le> uint a * uint b" by simp
    then have high: "?t < 2 ^ LENGTH('a)" using uint_limb [of x] uint_limb0 [of l] by linarith
    have "int (unat (of_int ?d :: 'a word) + unat a * unat b + unat l) = int (unat x + 2 ^ LENGTH('a) * unat ?h)"
      using split_borrow [OF low high] by simp
    then have split: "unat (of_int ?d :: 'a word) + unat a * unat b + unat l = unat x + 2 ^ LENGTH('a) * unat ?h"
      by (simp only: of_nat_eq_iff)
    obtain r' where r': "mp_sub_mul1 tabr taba b ?h = (r', c)" "r = of_int ?d # r'"
      using Cons.prems by (auto simp: Let_def split: prod.splits)
    have ih: "limbs_val r' + limbs_val taba * unat b + unat ?h = limbs_val tabr + 2 ^ (LENGTH('a) * length taba) * unat c"
      "length r' = length taba" using Cons.IH [OF r'(1)] by blast+
    have "limbs_val (x # tabr) + 2 ^ (LENGTH('a) * length (a # taba)) * unat c =
        unat x + 2 ^ LENGTH('a) * (limbs_val tabr + 2 ^ (LENGTH('a) * length taba) * unat c)"
      by (simp add: power_add algebra_simps)
    also have "\<dots> = unat x + 2 ^ LENGTH('a) * unat ?h + 2 ^ LENGTH('a) * (limbs_val r' + limbs_val taba * unat b)"
      by (simp only: ih(1) [symmetric]) (simp add: algebra_simps)
    also have "\<dots> = limbs_val r + limbs_val (a # taba) * unat b + unat l"
      by (simp only: split [symmetric]) (simp add: r'(2) algebra_simps)
    finally show ?case using ih(2) r'(2) by simp
  qed simp
  then show "limbs_val r + limbs_val taba * unat b + unat l = limbs_val tabr + 2 ^ (LENGTH('a) * length taba) * unat c"
    "length r = length taba" by blast+
qed

section \<open>The product\<close>

lemma part_Inr: "i + n \<le> length tab \<Longrightarrow> part tab i n = Inr (take n (drop i tab))"
  by (simp add: part_def)

text \<open>The value of an array is that of its lower limbs, a part, and the rest.\<close>

lemma take_part: "take (i + n) tab = take i tab @ take n (drop i tab)"
  by (simp add: take_add)

lemma mul_loop_val:
  fixes op1 :: "'a::len word list"
  assumes "length result = length op1 + i + length op2" and "result' = take (i + length op1) result"
  shows "\<exists>r. mul_loop result op1 op2 i = Inr r \<and> length r = length result \<and>
    limbs_val r = limbs_val result' + 2 ^ (LENGTH('a) * i) * (limbs_val op1 * limbs_val op2)"
  using assms
proof (induction op2 arbitrary: result result' i)
  case Nil
  then show ?case by simp
next
  case (Cons b op2)
  let ?n = "length op1"
  obtain x r where x: "mp_add_mul1 (take ?n (drop i result)) op1 b 0 = (x, r)" by fastforce
  have len: "length (take ?n (drop i result)) = ?n" using Cons.prems(1) by simp
  have xval: "limbs_val x + 2 ^ (LENGTH('a) * ?n) * unat r = limbs_val (take ?n (drop i result)) + limbs_val op1 * unat b"
    "length x = ?n" using mp_add_mul1_val [OF len x] by simp_all
  define result1 where "result1 = (overwrite result i x)[i + ?n := r]"
  have fits: "i + length x \<le> length result" "i + ?n < length result" using Cons.prems(1) xval(2) by simp_all
  have len1: "length result1 = length op1 + (i + 1) + length op2" using fits Cons.prems(1) by (simp add: result1_def)
  have taken: "take (i + 1 + ?n) result1 = take i result @ x @ [r]"
  proof -
    have "take (i + 1 + ?n) result1 = (take (Suc (i + ?n)) (overwrite result i x))[i + ?n := r]"
      by (simp add: result1_def take_update_swap)
    also have "take (Suc (i + ?n)) (overwrite result i x) = take (i + ?n) (overwrite result i x) @ [overwrite result i x ! (i + ?n)]"
      using fits by (simp add: take_Suc_conv_app_nth)
    also have "take (i + ?n) (overwrite result i x) = take i result @ x" using take_overwrite [OF fits(1)] xval(2) by simp
    finally show ?thesis using fits xval(2) by (simp add: list_update_append)
  qed
  have step: "mul_loop result op1 (b # op2) i = mul_loop result1 op1 op2 (i + 1)"
    using fits xval(2) by (simp add: part_Inr x result1_def)
  obtain r1 where r1: "mul_loop result1 op1 op2 (i + 1) = Inr r1" "length r1 = length result1"
    "limbs_val r1 = limbs_val (take (i + 1 + ?n) result1) + 2 ^ (LENGTH('a) * (i + 1)) * (limbs_val op1 * limbs_val op2)"
    using Cons.IH [OF len1 refl] by blast
  have li: "length (take i result) = i" using fits by simp
  have "limbs_val (take (i + 1 + ?n) result1) =
      limbs_val (take i result) + 2 ^ (LENGTH('a) * i) * (limbs_val x + 2 ^ (LENGTH('a) * ?n) * unat r)"
    unfolding taken by (simp add: limbs_val_append li [simplified] xval(2))
  also have "\<dots> = limbs_val result' + 2 ^ (LENGTH('a) * i) * (limbs_val op1 * unat b)"
    unfolding xval(1) Cons.prems(2) take_part by (simp add: limbs_val_append li [simplified] algebra_simps)
  finally have "limbs_val r1 = limbs_val result' + 2 ^ (LENGTH('a) * i) * (limbs_val op1 * limbs_val (b # op2))"
    unfolding r1(3) by (simp add: power_add algebra_simps)
  then show ?case using step r1(1,2) len1 Cons.prems(1) by simp
qed

lemma mp_mul_basecase_val:
  fixes op1 :: "'a::len word list"
  assumes "length result = length op1 + length op2" and "op2 \<noteq> []"
  shows "\<exists>r. mp_mul_basecase result op1 op2 = Inr r \<and> length r = length result \<and> limbs_val r = limbs_val op1 * limbs_val op2"
proof -
  obtain b rest where op2: "op2 = b # rest" using assms(2) by (cases op2) auto
  obtain x r where x: "mp_mul1 op1 b 0 = (x, r)" by fastforce
  have xval: "limbs_val x + 2 ^ (LENGTH('a) * length op1) * unat r = limbs_val op1 * unat b" "length x = length op1"
    using mp_mul1_val [OF x] by simp_all
  define result1 where "result1 = (overwrite result 0 x)[length op1 := r]"
  have fits: "0 + length x \<le> length result" "length op1 < length result" using assms(1) op2 xval(2) by simp_all
  have len1: "length result1 = length op1 + 1 + length rest" using assms(1) fits op2 by (simp add: result1_def)
  have "result1 = x @ r # drop (Suc (length op1)) result"
    using fits xval(2) by (simp add: result1_def overwrite_def list_update_append drop_update_swap Cons_nth_drop_Suc [symmetric])
  then have taken: "take (1 + length op1) result1 = x @ [r]" using xval(2) by simp
  obtain r1 where r1: "mul_loop result1 op1 rest 1 = Inr r1" "length r1 = length result1"
    "limbs_val r1 = limbs_val (x @ [r]) + 2 ^ (LENGTH('a) * 1) * (limbs_val op1 * limbs_val rest)"
    using mul_loop_val [OF len1 refl] unfolding taken by blast
  have "mp_mul_basecase result op1 op2 = Inr r1"
    using fits xval(2) r1(1) by (simp add: mp_mul_basecase_def op2 x result1_def)
  moreover have "limbs_val r1 = limbs_val op1 * limbs_val op2"
    unfolding r1(3) using xval by (simp add: limbs_val_append op2 algebra_simps)
  ultimately show ?thesis using r1(2) len1 assms(1) op2 by simp
qed

section \<open>The property\<close>

text \<open>C40.
  The schoolbook multiplication of \<open>libbf.c\<close> is exact: when the place for the result has as many limbs
  as the two operands together, it writes each limb of that place, reads and writes nothing
  outside the arrays, and the number it leaves there is the product of the two numbers.
\<close>
lemma mp_mul_basecase_multiplies:
  fixes op1 :: "'a::len word list"
  assumes "length result = length op1 + length op2" and "op2 \<noteq> []"
  shows "\<exists>r. mp_mul_basecase result op1 op2 = Inr r \<and> length r = length result \<and> limbs_val r = limbs_val op1 * limbs_val op2"
  using assms by (rule mp_mul_basecase_val)

lemma mp_mul_basecase_multiplies_witness:
  "mp_mul_basecase [7, 7, 7, 7 :: 32 word] [0xFFFFFFFF, 0xFFFFFFFF] [0xFFFFFFFF, 0xFFFFFFFF] = Inr [1, 0, 0xFFFFFFFE, 0xFFFFFFFF]
    \<and> limbs_val [1, 0, 0xFFFFFFFE, 0xFFFFFFFF :: 32 word] = (2 ^ 64 - 1) ^ 2"
proof -
  have run: "mp_mul_basecase [7, 7, 7, 7 :: 32 word] [0xFFFFFFFF, 0xFFFFFFFF] [0xFFFFFFFF, 0xFFFFFFFF] = Inr [1, 0, 0xFFFFFFFE, 0xFFFFFFFF]"
    by code_simp
  then show ?thesis
    using mp_mul_basecase_multiplies [of "[7, 7, 7, 7 :: 32 word]" "[0xFFFFFFFF, 0xFFFFFFFF]" "[0xFFFFFFFF, 0xFFFFFFFF]"] by simp
qed

end
