(* ===== verification/BfDiv.thy ===== *)
theory BfDiv
  imports BfLimbs
begin

unbundle bit_operations_syntax

text \<open>
  Division of numbers of several limbs (\<open>libbf.c\<close>): by one limb, with the inverse of the divisor
  computed once, and by several limbs, where each limb of the quotient is estimated from the
  highest limbs and corrected.
\<close>

section \<open>Division of two limbs by one\<close>

definition udiv1norm_init :: "'a::len word \<Rightarrow> 'a word" where
  "udiv1norm_init d = (let a1 = - d - 1; a0 = (- 1 :: 'a word) in of_int ((push_bit LENGTH('a) (uint a1) OR uint a0) div uint d))"

definition udiv1norm :: "'a::len word \<Rightarrow> 'a word \<Rightarrow> 'a word \<Rightarrow> 'a word \<Rightarrow> 'a word \<times> 'a word" where
  "udiv1norm a1 a0 d d_inv =
     (let n1m = signed_drop_bit (LENGTH('a) - 1) a0;
          n_adj = a0 + (n1m AND d);
          a = dlimb LENGTH('a) (uint d_inv * uint (a1 - n1m) + uint n_adj);
          q = of_int (a div 2 ^ LENGTH('a)) + a1;
          a = push_bit LENGTH('a) (uint a1) OR uint a0;
          a = dlimb LENGTH('a) (a - uint q * uint d - uint d);
          ah = of_int (a div 2 ^ LENGTH('a))
      in (q + (1 + ah), of_int a + (ah AND d)))"

lemma quotient_less: "0 < d \<Longrightarrow> x < y * d \<Longrightarrow> x div d < y" for x y d :: int
proof (rule ccontr)
  assume h: "0 < d" "x < y * d" "\<not> x div d < y"
  then have "y * d \<le> x div d * d" by (intro mult_right_mono) simp_all
  also have "\<dots> \<le> x" using h(1) pos_mod_sign [of d x] by (simp add: minus_mod_eq_div_mult [symmetric])
  finally show False using h(2) by simp
qed

lemma quotient_ge: "0 < d \<Longrightarrow> y * d \<le> x \<Longrightarrow> y \<le> x div d" for x y d :: int
  using zdiv_mono1 [of "y * d" x d] by simp

lemma two_limbs: "push_bit LENGTH('a) (uint (h :: 'a::len word)) OR uint (l :: 'a word) = uint h * 2 ^ LENGTH('a) + uint l"
proof -
  have "push_bit LENGTH('a) (uint h) AND uint l = 0"
  proof (rule bit_eqI)
    fix k show "bit (push_bit LENGTH('a) (uint h) AND uint l) k \<longleftrightarrow> bit (0 :: int) k"
      using bit_imp_le_length [of l k] by (auto simp: bit_and_iff bit_push_bit_iff bit_unsigned_iff)
  qed
  then show ?thesis by (simp add: push_bit_eq_mult flip: disjunctive_add_eq_or)
qed

text \<open>The estimate from the inverse is at most one too small.\<close>

lemma estimate_bounds:
  fixes B D A1 A0 m e t :: int
  assumes D: "B \<le> 2 * D" "D < B" and A1: "0 \<le> A1" "A1 < D" and A0: "0 \<le> A0" "A0 < B"
    and m: "m * D = B * B - 1 - D * B - e" "0 \<le> e" "e < D" and t: "t = (if B \<le> 2 * A0 then 1 else 0)"
  defines "S \<equiv> m * (A1 + t) + (A0 + t * (D - B))"
  shows "0 \<le> A1 * B + A0 - (A1 + S div B) * D" and "A1 * B + A0 - (A1 + S div B) * D < 2 * D"
proof -
  have B: "0 < B" using D A1 by linarith
  let ?N = "A1 * B + A0" and ?q = "A1 + S div B"
  have S: "S * D = (B * B - 1 - D * B - e) * (A1 + t) + (A0 + t * (D - B)) * D"
    unfolding S_def m(1) [symmetric] by (simp add: algebra_simps)
  define s where "s = S mod B"
  have s: "0 \<le> s" "s < B" "B * (S div B) = S - s" using B by (simp_all add: s_def minus_mod_eq_mult_div)
  have key: "B * (?N - ?q * D) = (B - D) * A0 + (1 + e) * (A1 + t) - t * ((B - D) * (B - D)) + s * D"
  proof -
    have "B * (?N - ?q * D) = B * ?N - B * A1 * D - (B * (S div B)) * D" by (simp add: algebra_simps)
    also have "\<dots> = B * ?N - B * A1 * D - S * D + s * D" unfolding s(3) by (simp add: algebra_simps)
    also have "\<dots> = (B - D) * A0 + (1 + e) * (A1 + t) - t * ((B - D) * (B - D)) + s * D"
      unfolding S by (simp add: algebra_simps)
    finally show ?thesis .
  qed
  have sD: "0 \<le> s * D" "s * D \<le> (B - 1) * D" using s D A1 by (auto intro!: mult_right_mono)
  have e1: "0 \<le> (1 + e) * (A1 + t)" "(1 + e) * (A1 + t) \<le> D * (A1 + t)"
    using m A1 t by (auto intro!: mult_nonneg_nonneg mult_right_mono)
  show "0 \<le> ?N - ?q * D"
  proof -
    have "0 \<le> B * (?N - ?q * D)"
    proof (cases "B \<le> 2 * A0")
      case True
      then have "(B - D) * (B - D) \<le> (B - D) * A0" using D by (intro mult_left_mono) linarith+
      then show ?thesis using key t True e1(1) sD(1) by simp
    next
      case False
      have "0 \<le> (B - D) * A0" using D A0 by simp
      then show ?thesis using key t False e1(1) sD(1) by simp
    qed
    then show ?thesis using B by (simp add: zero_le_mult_iff)
  qed
  show "?N - ?q * D < 2 * D"
  proof -
    have "B * (?N - ?q * D) < B * (2 * D)"
    proof (cases "B \<le> 2 * A0")
      case True
      then have t1: "t = 1" using t by simp
      have "(B - D) * A0 \<le> (B - D) * (B - 1)" using D A0 by (intro mult_left_mono) linarith+
      moreover have "D * (A1 + 1) \<le> D * D" using D A1 by (intro mult_left_mono) linarith+
      ultimately have "B * (?N - ?q * D) \<le> (B - D) * (B - 1) + D * D - (B - D) * (B - D) + (B - 1) * D"
        using key t1 e1(2) sD(2) by simp
      also have "\<dots> = B * (2 * D) - B" by (simp add: algebra_simps)
      finally show ?thesis using B by linarith
    next
      case False
      then have t0: "t = 0" using t by simp
      have "(B - D) * A0 \<le> (B - D) * D" using D False by (intro mult_left_mono) linarith+
      moreover have "D * A1 \<le> D * (D - 1)" using D A1 by (intro mult_left_mono) linarith+
      ultimately have "B * (?N - ?q * D) \<le> (B - D) * D + D * (D - 1) + (B - 1) * D"
        using key t0 e1(2) sD(2) by simp
      also have "\<dots> = B * (2 * D) - 2 * D" by (simp add: algebra_simps)
      finally show ?thesis using A1 by linarith
    qed
    then show ?thesis using B by (simp add: mult_less_cancel_left_pos)
  qed
qed

lemma top_bit: "bit (x :: 'a::len word) (LENGTH('a) - 1) \<longleftrightarrow> 2 ^ LENGTH('a) \<le> 2 * uint x"
proof -
  let ?h = "2 ^ (LENGTH('a) - 1) :: int"
  have pow: "(2 :: int) ^ LENGTH('a) = 2 * ?h" by (metis One_nat_def Suc_pred len_gt_0 power_Suc)
  have "bit x (LENGTH('a) - 1) \<longleftrightarrow> bit (uint x) (LENGTH('a) - 1)" by (simp add: bit_unsigned_iff bit_imp_le_length)
  also have "\<dots> \<longleftrightarrow> odd (uint x div ?h)" by (rule bit_iff_odd)
  also have "uint x div ?h = (if ?h \<le> uint x then 1 else 0)"
  proof (cases "?h \<le> uint x")
    case True
    have "uint x div ?h = (uint x - ?h) div ?h + 1"
      using div_add_self2 [of ?h "uint x - ?h"] by simp
    moreover have "(uint x - ?h) div ?h = 0"
      using True uint_limb [of x] pow by (intro div_pos_pos_trivial) linarith+
    ultimately show ?thesis using True by simp
  next
    case False
    then show ?thesis using uint_limb0 [of x] by (simp add: div_pos_pos_trivial)
  qed
  finally show ?thesis using pow by (simp split: if_splits)
qed

lemma top_mask: "signed_drop_bit (LENGTH('a) - 1) (x :: 'a::len word) = (if 2 ^ LENGTH('a) \<le> 2 * uint x then - 1 else 0)"
proof -
  have "signed_drop_bit (LENGTH('a) - 1) x = (if bit x (LENGTH('a) - 1) then - 1 else 0)"
    by (rule bit_word_eqI) (auto simp: bit_signed_drop_bit_iff le_Suc_eq Suc_le_eq)
  then show ?thesis by (simp only: top_bit)
qed

lemma normal_pos: "2 ^ LENGTH('a) \<le> 2 * uint (d :: 'a::len word) \<Longrightarrow> 0 < uint d"
proof -
  have "(0 :: int) < 2 ^ LENGTH('a)" by simp
  then show "2 ^ LENGTH('a) \<le> 2 * uint d \<Longrightarrow> 0 < uint d" by linarith
qed

text \<open>The inverse: \<open>floor ((B^2 - 1) / d) - B\<close>.\<close>

lemma udiv1norm_init_val:
  fixes d :: "'a::len word"
  assumes "2 ^ LENGTH('a) \<le> 2 * uint d"
  defines "B \<equiv> 2 ^ LENGTH('a) :: int"
  shows "uint (udiv1norm_init d) = (B * B - 1 - uint d * B) div uint d"
proof -
  have d: "0 < uint d" "uint d < B" using normal_pos [OF assms(1)] uint_limb [of d] by (simp_all only: B_def)
  have "uint (- d - 1) = (- uint d - 1) mod B" by (simp add: uint_word_ariths B_def mod_simps)
  also have "\<dots> = (- uint d - 1 + B) mod B" by simp
  also have "\<dots> = B - 1 - uint d" using d by (simp only: mod_pos_pos_trivial)
  finally have a1: "uint (- d - 1) = B - 1 - uint d" .
  have a0: "uint (- 1 :: 'a word) = B - 1" by (simp add: B_def unsigned_minus_1_eq_mask mask_eq_exp_minus_1)
  let ?x = "(B - 1 - uint d) * B + (B - 1)"
  have x: "?x = B * B - 1 - uint d * B" by (simp add: algebra_simps)
  have "B * B - 1 - uint d * B < B * uint d"
  proof -
    have "B * B \<le> B * (2 * uint d)" using assms(1) d by (intro mult_left_mono) (simp_all add: B_def)
    then show ?thesis by (simp add: algebra_simps)
  qed
  then have "(B * B - 1 - uint d * B) div uint d < B" using d(1) by (intro quotient_less)
  moreover have "0 \<le> B * B - 1 - uint d * B"
  proof -
    have "0 \<le> (B - 1 - uint d) * B" using d by simp
    then show ?thesis unfolding x [symmetric] using d by linarith
  qed
  then have "0 \<le> (B * B - 1 - uint d * B) div uint d" using d(1) by (simp add: pos_imp_zdiv_nonneg_iff)
  ultimately show ?thesis
    unfolding udiv1norm_init_def Let_def two_limbs a1 a0 B_def [symmetric] x
    by (intro uint_small) (simp_all add: B_def)
qed

text \<open>The division is exact.\<close>

lemma udiv1norm_val:
  fixes a1 a0 d :: "'a::len word"
  assumes d: "2 ^ LENGTH('a) \<le> 2 * uint d" and a1: "a1 < d"
  defines "n \<equiv> uint a1 * 2 ^ LENGTH('a) + uint a0"
  shows "uint (fst (udiv1norm a1 a0 d (udiv1norm_init d))) = n div uint d"
    and "uint (snd (udiv1norm a1 a0 d (udiv1norm_init d))) = n mod uint d"
proof -
  define B :: int where "B = 2 ^ LENGTH('a)"
  define D A1 A0 where "D = uint d" and "A1 = uint a1" and "A0 = uint a0"
  define t :: int where "t = (if B \<le> 2 * A0 then 1 else 0)"
  define v where "v = udiv1norm_init d"
  have range: "B \<le> 2 * D" "D < B" "0 \<le> A1" "A1 < D" "0 \<le> A0" "A0 < B" "0 < D" "0 < B"
    using d a1 uint_limb [of d] uint_limb [of a0] uint_limb0 [of a1] uint_limb0 [of a0] normal_pos [OF d]
    unfolding B_def D_def A1_def A0_def word_less_def by simp_all
  define m e where "m = uint v" and "e = (B * B - 1 - D * B) mod D"
  have me: "m * D = B * B - 1 - D * B - e" "0 \<le> e" "e < D"
    using udiv1norm_init_val [OF d] range(7)
    by (simp_all add: m_def e_def v_def D_def B_def minus_mod_eq_div_mult)
  define S where "S = m * (A1 + t) + (A0 + t * (D - B))"
  have n: "n = A1 * B + A0" by (simp add: n_def A1_def A0_def B_def)
  note est = estimate_bounds [OF range(1-6) me t_def, folded S_def n]
  have n1m: "signed_drop_bit (LENGTH('a) - 1) a0 = - of_int t"
    unfolding top_mask by (simp add: t_def B_def A0_def)
  have arg: "uint (a1 - - of_int t) = A1 + t"
  proof -
    have "a1 - - of_int t = of_int (A1 + t)" by (simp add: A1_def)
    moreover have "0 \<le> A1 + t" "A1 + t < 2 ^ LENGTH('a)" using range by (auto simp: t_def B_def)
    ultimately show ?thesis by (simp only: uint_small)
  qed
  have adj: "uint (a0 + (- of_int t AND d)) = A0 + t * (D - B)"
  proof -
    have "a0 + (- of_int t AND d) = of_int (A0 + t * (D - B))"
      by (simp add: t_def A0_def D_def B_def word_of_int_2p)
    moreover have "0 \<le> A0 + t * (D - B)" "A0 + t * (D - B) < 2 ^ LENGTH('a)" using range by (auto simp: t_def B_def)
    ultimately show ?thesis by (simp only: uint_small)
  qed
  have S0: "0 \<le> S"
  proof -
    have "0 \<le> m * (A1 + t)" using range uint_limb0 [of v] by (auto simp: m_def t_def intro!: mult_nonneg_nonneg)
    moreover have "0 \<le> A0 + t * (D - B)" using range by (simp add: t_def)
    ultimately show ?thesis by (simp add: S_def)
  qed
  have S1: "S < B * B"
    using dlimb_bound [of v "a1 - - of_int t" "a0 + (- of_int t AND d)" 0]
    unfolding arg adj by (simp add: S_def m_def B_def mult_2 power_add)
  define q1 where "q1 = A1 + S div B"
  have q1: "0 \<le> q1" "q1 \<le> n div D" "n div D < B"
  proof -
    show "0 \<le> q1" using S0 range by (simp add: q1_def pos_imp_zdiv_nonneg_iff)
    have "q1 * D \<le> n" using est(1) by (simp add: q1_def)
    then show "q1 \<le> n div D" using range(7) by (intro quotient_ge)
    have "n < (A1 + 1) * B" using range by (simp add: n algebra_simps)
    also have "\<dots> \<le> D * B" using range by (intro mult_right_mono) simp_all
    finally show "n div D < B" using range(7) by (intro quotient_less) (simp_all only: mult.commute)
  qed
  define q :: "'a word" where "q = of_int (S div B) + a1"
  have q: "uint q = q1"
  proof -
    have "q = of_int q1" by (simp add: q_def q1_def A1_def)
    then show ?thesis using q1 by (simp only: uint_small B_def)
  qed
  define T where "T = n - q1 * D - D"
  have T: "- D \<le> T" "T < D" using est by (simp_all add: T_def q1_def)
  define T' where "T' = dlimb LENGTH('a) T"
  have step: "udiv1norm a1 a0 d v = (q + (1 + of_int (T' div B)), of_int T' + (of_int (T' div B) AND d))"
  proof -
    have "dlimb LENGTH('a) S = S" using S0 S1 by (simp add: dlimb_def B_def mult_2 power_add)
    then show ?thesis
      unfolding udiv1norm_def Let_def n1m arg adj two_limbs m_def [symmetric] S_def [symmetric]
      by (simp add: q_def [symmetric] q B_def [symmetric] T'_def T_def n A1_def A0_def D_def)
  qed
  show "uint (fst (udiv1norm a1 a0 d (udiv1norm_init d))) = n div uint d"
    and "uint (snd (udiv1norm a1 a0 d (udiv1norm_init d))) = n mod uint d"
  proof -
    have "uint (fst (udiv1norm a1 a0 d v)) = n div D \<and> uint (snd (udiv1norm a1 a0 d v)) = n mod D"
    proof (cases "T < 0")
      case True
      have "T mod (B * B) = (T + B * B) mod (B * B)" by simp
      also have "\<dots> = T + B * B"
      proof (rule mod_pos_pos_trivial)
        have "D * 1 \<le> B * B" using range by (intro mult_mono) linarith+
        then show "0 \<le> T + B * B" using T by linarith
      qed (use True in simp)
      finally have T': "T' = T + B * B" by (simp add: T'_def dlimb_def B_def mult_2 power_add)
      have "T div B = (T + B) div B - 1" using div_add_self2 [of B T] range(8) by linarith
      also have "(T + B) div B = 0" using T True range by (intro div_pos_pos_trivial) linarith+
      finally have "T div B = - 1" by simp
      then have "T' div B = B - 1" using range(8) by (simp add: T')
      then have high: "(of_int (T' div B) :: 'a word) = - 1" by (simp add: B_def word_of_int_2p)
      have "(of_int T' :: 'a word) + (- 1 AND d) = of_int (T + D)"
        by (simp add: T' D_def B_def word_of_int_2p)
      then have "snd (udiv1norm a1 a0 d v) = of_int (T + D)" "fst (udiv1norm a1 a0 d v) = q"
        unfolding step high by simp_all
      moreover have "0 \<le> T + D" "T + D < D" using T True by simp_all
      moreover from this have "uint (of_int (T + D) :: 'a word) = T + D"
        using range(2) by (intro uint_small) (simp_all add: B_def)
      moreover have nq: "n = D * q1 + (T + D)" by (simp add: T_def algebra_simps)
      moreover have "n div D = q1" by (rule int_div_pos_eq [OF nq]) (use T True in simp_all)
      moreover have "n mod D = T + D" by (rule int_mod_pos_eq [OF nq]) (use T True in simp_all)
      ultimately show ?thesis using q by simp
    next
      case False
      have "B * 1 \<le> B * B" using range by (intro mult_mono) linarith+
      then have "T mod (B * B) = T" using False T range by (intro mod_pos_pos_trivial) linarith+
      then have T': "T' = T" by (simp add: T'_def dlimb_def B_def mult_2 power_add)
      have high: "T div B = 0" using False T range by (intro div_pos_pos_trivial) linarith+
      have res: "udiv1norm a1 a0 d v = (q + 1, of_int T)" unfolding step high T' by simp
      have nq: "n = D * (q1 + 1) + T" by (simp add: T_def algebra_simps)
      have "n div D = q1 + 1" by (rule int_div_pos_eq [OF nq]) (use T False in simp_all)
      moreover have "n mod D = T" by (rule int_mod_pos_eq [OF nq]) (use T False in simp_all)
      moreover have "uint (of_int T :: 'a word) = T" using False T range by (intro uint_small) (simp_all add: B_def)
      moreover have "q + 1 = of_int (q1 + 1)" by (simp add: q [symmetric])
      then have "uint (q + 1) = q1 + 1"
        using q1(1,3) \<open>n div D = q1 + 1\<close> by (simp only: uint_small B_def)
      ultimately show ?thesis by (simp add: res)
    qed
    then show "uint (fst (udiv1norm a1 a0 d (udiv1norm_init d))) = n div uint d"
      "uint (snd (udiv1norm a1 a0 d (udiv1norm_init d))) = n mod uint d" by (simp_all add: v_def D_def)
  qed
qed

section \<open>Division by one limb\<close>

definition UDIV1NORM_THRESHOLD :: nat where "UDIV1NORM_THRESHOLD = 3"
definition DIVNORM_LARGE_THRESHOLD :: nat where "DIVNORM_LARGE_THRESHOLD = 50"

text \<open>The division with the type \<open>dlimb_t\<close>.\<close>

definition div_dlimb :: "'a::len word \<Rightarrow> 'a word \<Rightarrow> 'a word \<Rightarrow> 'a word \<times> 'a word" where
  "div_dlimb r a b =
     (let a1 = push_bit LENGTH('a) (uint r) OR uint a in (of_int (a1 div uint b), of_int (a1 mod uint b)))"

text \<open>The loop from the highest limb on, with one division per limb.\<close>

fun div1_loop :: "('a::len word \<Rightarrow> 'a word \<Rightarrow> 'a word \<times> 'a word) \<Rightarrow> 'a word \<Rightarrow> 'a word list \<Rightarrow> 'a word list \<times> 'a word" where
  "div1_loop f r [] = ([], r)"
| "div1_loop f r (a # taba) = (let (q, r) = f r a; (res, r) = div1_loop f r taba in (q # res, r))"

definition mp_div1norm :: "'a::len word list \<Rightarrow> 'a word \<Rightarrow> 'a word \<Rightarrow> ('a word list \<times> 'a word) res" where
  "mp_div1norm taba b r =
     (if b = 0 \<and> taba \<noteq> [] then Inl Undef
      else let (res, r) =
        (if length taba \<ge> UDIV1NORM_THRESHOLD
         then let b_inv = udiv1norm_init b in div1_loop (\<lambda>r a. udiv1norm r a b b_inv) r (rev taba)
         else div1_loop (\<lambda>r a. div_dlimb r a b) r (rev taba))
      in Inr (rev res, r))"

definition divides_exactly :: "('a::len word \<Rightarrow> 'a word \<Rightarrow> 'a word \<times> 'a word) \<Rightarrow> 'a word \<Rightarrow> bool" where
  "divides_exactly f b \<longleftrightarrow> (\<forall>r a. r < b \<longrightarrow>
     unat (fst (f r a)) = (unat r * 2 ^ LENGTH('a) + unat a) div unat b \<and>
     unat (snd (f r a)) = (unat r * 2 ^ LENGTH('a) + unat a) mod unat b)"

lemma udiv1norm_exact:
  fixes b :: "'a::len word"
  assumes "2 ^ LENGTH('a) \<le> 2 * unat b"
  shows "divides_exactly (\<lambda>r a. udiv1norm r a b (udiv1norm_init b)) b"
  unfolding divides_exactly_def
proof (intro allI impI)
  fix r a assume r: "r < b"
  have "int (2 ^ LENGTH('a)) \<le> int (2 * unat b)" using assms by (simp only: of_nat_le_iff)
  then have b: "2 ^ LENGTH('a) \<le> 2 * uint b" by simp
  let ?x = "udiv1norm r a b (udiv1norm_init b)"
  have "int (unat (fst ?x)) = int ((unat r * 2 ^ LENGTH('a) + unat a) div unat b)"
    "int (unat (snd ?x)) = int ((unat r * 2 ^ LENGTH('a) + unat a) mod unat b)"
    using udiv1norm_val [OF b r, of a] by (simp_all add: zdiv_int zmod_int)
  then show "unat (fst ?x) = (unat r * 2 ^ LENGTH('a) + unat a) div unat b \<and>
      unat (snd ?x) = (unat r * 2 ^ LENGTH('a) + unat a) mod unat b" by (simp only: of_nat_eq_iff)
qed

lemma two_limbs_less:
  fixes r a b :: "'a::len word"
  assumes "r < b"
  shows "unat r * 2 ^ LENGTH('a) + unat a < unat b * 2 ^ LENGTH('a)"
proof -
  have "unat r + 1 \<le> unat b" using assms by (simp add: word_less_nat_alt)
  then have "(unat r + 1) * 2 ^ LENGTH('a) \<le> unat b * 2 ^ LENGTH('a)" by (rule mult_le_mono1)
  then show ?thesis using unat_limb [of a] unfolding add_mult_distrib by linarith
qed

lemma unat_small: "n < 2 ^ LENGTH('a) \<Longrightarrow> unat (of_int (int n) :: 'a::len word) = n"
  by (simp add: unsigned_of_nat take_bit_nat_eq_self)

lemma div_dlimb_exact: "divides_exactly (\<lambda>r a. div_dlimb r a b) (b :: 'a::len word)"
  unfolding divides_exactly_def
proof (intro allI impI)
  fix r a :: "'a word" assume r: "r < b"
  let ?n = "unat r * 2 ^ LENGTH('a) + unat a"
  have b: "0 < unat b" using r by (simp add: word_less_nat_alt)
  have n: "push_bit LENGTH('a) (uint r) OR uint a = int ?n" unfolding two_limbs by simp
  have "?n div unat b < 2 ^ LENGTH('a)"
    using two_limbs_less [OF r, of a] b by (simp add: div_less_iff_less_mult mult.commute)
  moreover have "?n mod unat b < 2 ^ LENGTH('a)"
    using b unat_limb [of b] mod_less_divisor [of "unat b" ?n] by linarith
  moreover have "int ?n div uint b = int (?n div unat b)" "int ?n mod uint b = int (?n mod unat b)"
    by (simp_all add: zdiv_int zmod_int)
  ultimately show "unat (fst (div_dlimb r a b)) = ?n div unat b \<and> unat (snd (div_dlimb r a b)) = ?n mod unat b"
    unfolding div_dlimb_def Let_def n by (simp only: fst_conv snd_conv unat_small)
qed

lemma div1_loop_val:
  fixes taba :: "'a::len word list"
  assumes f: "divides_exactly f b"
  shows "r < b \<Longrightarrow> div1_loop f r taba = (res, r') \<Longrightarrow>
    limbs_val (rev res) * unat b + unat r' = unat r * 2 ^ (LENGTH('a) * length taba) + limbs_val (rev taba) \<and>
    r' < b \<and> length res = length taba"
proof (induction taba arbitrary: r res r')
  case (Cons a taba)
  obtain q r1 where q: "f r a = (q, r1)" by fastforce
  have qr: "unat q = (unat r * 2 ^ LENGTH('a) + unat a) div unat b" "unat r1 = (unat r * 2 ^ LENGTH('a) + unat a) mod unat b"
    using f Cons.prems(1) q unfolding divides_exactly_def by (metis fst_conv, metis snd_conv)
  have b: "0 < unat b" using Cons.prems(1) by (simp add: word_less_nat_alt)
  have r1: "r1 < b" using qr(2) b by (simp add: word_less_nat_alt)
  have digit: "unat q * unat b + unat r1 = unat r * 2 ^ LENGTH('a) + unat a" unfolding qr by simp
  obtain res1 where res1: "div1_loop f r1 taba = (res1, r')" "res = q # res1"
    using Cons.prems(2) q by (auto split: prod.splits)
  have ih: "limbs_val (rev res1) * unat b + unat r' = unat r1 * 2 ^ (LENGTH('a) * length taba) + limbs_val (rev taba)"
    "r' < b" "length res1 = length taba" using Cons.IH [OF r1 res1(1)] by blast+
  have "limbs_val (rev res) * unat b + unat r' =
      2 ^ (LENGTH('a) * length taba) * (unat q * unat b + unat r1) + limbs_val (rev taba)"
    using ih by (simp add: res1(2) limbs_val_append algebra_simps)
  also have "\<dots> = unat r * 2 ^ (LENGTH('a) * length (a # taba)) + limbs_val (rev (a # taba))"
    unfolding digit by (simp add: limbs_val_append power_add algebra_simps)
  finally show ?case using ih(2,3) res1(2) by simp
qed simp

lemma mp_div1norm_val:
  fixes taba :: "'a::len word list"
  assumes b: "2 ^ LENGTH('a) \<le> 2 * unat b" and r: "r < b"
  shows "\<exists>res r'. mp_div1norm taba b r = Inr (res, r') \<and> length res = length taba \<and>
    limbs_val res * unat b + unat r' = unat r * 2 ^ (LENGTH('a) * length taba) + limbs_val taba \<and> r' < b"
proof -
  define f where "f = (if length taba \<ge> UDIV1NORM_THRESHOLD then (\<lambda>r a. udiv1norm r a b (udiv1norm_init b)) else (\<lambda>r a. div_dlimb r a b))"
  have f: "divides_exactly f b" using udiv1norm_exact [OF b] div_dlimb_exact [of b] by (simp add: f_def)
  obtain res r' where loop: "div1_loop f r (rev taba) = (res, r')" by fastforce
  have "b \<noteq> 0" using r by auto
  then have "mp_div1norm taba b r = Inr (rev res, r')"
    using loop by (auto simp: mp_div1norm_def f_def Let_def split: if_splits)
  then show ?thesis using div1_loop_val [OF f r loop] by simp
qed

section \<open>Division by several limbs\<close>

text \<open>The first limb of the quotient is 0 or 1, from a comparison, highest limbs first.\<close>

fun first_digit :: "'a::len word list \<Rightarrow> 'a word list \<Rightarrow> 'a word" where
  "first_digit (a # taba) (b # tabb) = (if a \<noteq> b then (if a < b then 0 else 1) else first_digit taba tabb)"
| "first_digit _ _ = 1"

definition estimate_digit :: "'a::len word \<Rightarrow> 'a word \<Rightarrow> 'a word \<Rightarrow> 'a word \<Rightarrow> 'a word" where
  "estimate_digit b1 b1_inv high low =
     (if high \<ge> b1 then - 1
      else if b1_inv \<noteq> 0 then fst (udiv1norm high low b1 b1_inv)
      else fst (div_dlimb high low b1))"

text \<open>The loop that makes a negative remainder positive; two turns are enough, as is shown below.\<close>

fun add_back :: "nat \<Rightarrow> 'a::len word list \<Rightarrow> nat \<Rightarrow> 'a word \<Rightarrow> 'a word list \<Rightarrow> ('a word \<times> 'a word list) res" where
  "add_back 0 tabb i q taba = Inl NoFuel"
| "add_back (Suc k) tabb i q taba =
     bnd (part taba i (length tabb)) (\<lambda>x.
       let q = q - 1; (x, c) = mp_add x tabb 0 in
       bnd (memcpy taba i x) (\<lambda>taba.
         if c \<noteq> 0 then
           bnd (rd taba (i + length tabb)) (\<lambda>v. bnd (wr taba (i + length tabb) (v + 1)) (\<lambda>taba.
             if v + 1 = 0 then Inr (q, taba) else add_back k tabb i q taba))
         else add_back k tabb i q taba))"

definition div_digit ::
  "'a::len word list \<Rightarrow> 'a word \<Rightarrow> 'a word \<Rightarrow> nat \<Rightarrow> 'a word list \<Rightarrow> ('a word \<times> 'a word list) res" where
  "div_digit tabb b1 b1_inv i taba =
     bnd (rd taba (i + length tabb)) (\<lambda>high. bnd (rd taba (i + length tabb - 1)) (\<lambda>low.
       let q = estimate_digit b1 b1_inv high low in
       bnd (part taba i (length tabb)) (\<lambda>x.
         let (x, r) = mp_sub_mul1 x tabb q 0 in
         bnd (memcpy taba i x) (\<lambda>taba. bnd (rd taba (i + length tabb)) (\<lambda>v.
           let a = v - r; c = (a > v) in
           bnd (wr taba (i + length tabb) a) (\<lambda>taba.
             if c then add_back 2 tabb i q taba else Inr (q, taba)))))))"

fun div_digits :: "'a::len word list \<Rightarrow> 'a word \<Rightarrow> 'a word \<Rightarrow> nat \<Rightarrow> 'a word list \<Rightarrow> 'a word list \<Rightarrow>
    ('a word list \<times> 'a word list) res" where
  "div_digits tabb b1 b1_inv 0 tabq taba = Inr (tabq, taba)"
| "div_digits tabb b1 b1_inv (Suc i) tabq taba =
     bnd (div_digit tabb b1 b1_inv i taba) (\<lambda>(q, taba).
       bnd (wr tabq i q) (\<lambda>tabq. div_digits tabb b1 b1_inv i tabq taba))"

text \<open>The algorithm for long numbers, \<open>mp_divnorm_large\<close>, is the argument \<open>large\<close>.\<close>

definition mp_divnorm ::
  "('a::len word list \<Rightarrow> 'a word list \<Rightarrow> 'a word list \<Rightarrow> ('a word list \<times> 'a word list) res) \<Rightarrow>
    'a word list \<Rightarrow> 'a word list \<Rightarrow> 'a word list \<Rightarrow> ('a word list \<times> 'a word list) res" where
  "mp_divnorm large tabq taba tabb =
     bnd (rd tabb (length tabb - 1)) (\<lambda>b1.
       if length tabb = 1 then
         bnd (mp_div1norm taba b1 0) (\<lambda>(res, r).
           bnd (memcpy tabq 0 res) (\<lambda>tabq. bnd (wr taba 0 r) (\<lambda>taba. Inr (tabq, taba))))
       else if length taba < length tabb then Inl Undef
       else
         let n = length taba - length tabb in
         if min n (length tabb) \<ge> DIVNORM_LARGE_THRESHOLD then large tabq taba tabb
         else
           let b1_inv = (if n \<ge> UDIV1NORM_THRESHOLD then udiv1norm_init b1 else 0) in
           bnd (part taba n (length tabb)) (\<lambda>x.
             let q = first_digit (rev x) (rev tabb) in
             bnd (wr tabq n q) (\<lambda>tabq.
             bnd (if q \<noteq> 0 then memcpy taba n (fst (mp_sub x tabb 0)) else Inr taba) (\<lambda>taba.
               div_digits tabb b1 b1_inv n tabq taba))))"

subsection \<open>The parts of an array\<close>

lemma part_mid: "n = length x \<Longrightarrow> part (pre @ x @ post) (length pre) n = Inr x"
  by (simp add: part_def)

lemma memcpy_mid: "length y = length x \<Longrightarrow> memcpy (pre @ x @ post) (length pre) y = Inr (pre @ y @ post)"
  by (simp add: overwrite_def)

lemma rd_mid: "n = length x \<Longrightarrow> rd (pre @ x @ v # post) (length pre + n) = Inr v"
  by (simp add: nth_append)

lemma rd_last: "n = length x \<Longrightarrow> x \<noteq> [] \<Longrightarrow> rd (pre @ x @ post) (length pre + n - 1) = Inr (last x)"
  by (cases x rule: rev_cases) (simp_all add: nth_append)

lemmas rd_last' = rd_last [unfolded One_nat_def]

lemma wr_mid: "n = length x \<Longrightarrow> wr (pre @ x @ v # post) (length pre + n) w = Inr (pre @ x @ w # post)"
  by (simp add: list_update_append)

subsection \<open>The correction\<close>

lemma unat_inc: "unat (v + 1 :: 'a::len word) = (if v + 1 = 0 then 0 else unat v + 1)"
proof (cases "v + 1 < v")
  case True
  then have "unat (v + 1) + 2 ^ LENGTH('a) = unat v + 1" using unat_add_carry [of v 1] by simp
  then have "unat (v + 1) = 0" using unat_limb [of v] by linarith
  then have "v + 1 = 0" by (rule unat_eq_zero [THEN iffD1])
  then show ?thesis by simp
next
  case False
  then have "unat (v + 1) = unat v + 1" using unat_add_carry [of v 1] by simp
  then show ?thesis by auto
qed

lemma add_back_val:
  fixes tabb :: "'a::len word list"
  defines "P \<equiv> 2 ^ (LENGTH('a) * length tabb) * 2 ^ LENGTH('a) :: nat"
  shows "length x = length tabb \<Longrightarrow> 1 \<le> m \<Longrightarrow> m \<le> k \<Longrightarrow>
    P \<le> limbs_val (x @ [v]) + m * limbs_val tabb \<Longrightarrow> limbs_val (x @ [v]) + m * limbs_val tabb < P + limbs_val tabb \<Longrightarrow>
    \<exists>x' v'. add_back k tabb (length pre) q (pre @ x @ v # post) = Inr (q - of_nat m, pre @ x' @ v' # post) \<and>
      length x' = length tabb \<and> limbs_val (x' @ [v']) + P = limbs_val (x @ [v]) + m * limbs_val tabb"
proof (induction k arbitrary: m x v q)
  case (Suc k)
  let ?b = "limbs_val tabb" and ?Q = "2 ^ (LENGTH('a) * length tabb) :: nat"
  obtain x1 c where add: "mp_add x tabb 0 = (x1, c)" by fastforce
  have x1: "limbs_val x1 + ?Q * unat c = limbs_val x + ?b" "length x1 = length tabb" "unat c \<le> 1"
    using mp_add_val [OF Suc.prems(1) _ add] Suc.prems(1) by simp_all
  define v1 where "v1 = (if c = 0 then v else v + 1)"
  have step: "add_back (Suc k) tabb (length pre) q (pre @ x @ v # post) =
      (if c \<noteq> 0 \<and> v + 1 = 0 then Inr (q - 1, pre @ x1 @ v1 # post) else add_back k tabb (length pre) (q - 1) (pre @ x1 @ v1 # post))"
    using Suc.prems(1) x1(2) add
    by (simp add: part_mid memcpy_mid rd_mid wr_mid v1_def del: rd_Inr wr_Inr memcpy_Inr)
  have val: "limbs_val (x @ [v]) = limbs_val x + ?Q * unat v" "limbs_val (x1 @ [v1]) = limbs_val x1 + ?Q * unat v1"
    using Suc.prems(1) x1(2) by (simp_all add: limbs_val_append)
  show ?case
  proof (cases "c \<noteq> 0 \<and> v + 1 = 0")
    case True
    then have c: "unat c = 1" using x1(3) by (metis le_antisym less_one not_less unat_eq_zero)
    have "unat v + 1 = 2 ^ LENGTH('a)"
      using True unat_add_carry [of v 1] by (auto split: if_splits simp: word_less_nat_alt)
    then have "?Q * (unat v + 1) = P" by (simp only: P_def)
    then have "?Q * unat v + ?Q = P" by simp
    then have sum: "limbs_val (x @ [v]) + ?b = limbs_val x1 + P" using x1(1) c val(1) by simp
    have "m = 1"
    proof (rule ccontr)
      assume "m \<noteq> 1"
      then have "2 * ?b \<le> m * ?b" using Suc.prems(2) by (intro mult_le_mono1) simp
      then show False using Suc.prems(5) sum by linarith
    qed
    moreover have "v1 = 0" using True by (simp add: v1_def)
    ultimately show ?thesis using step True sum x1(2) val(2) by auto
  next
    case False
    have "unat v1 = unat v + unat c"
    proof (cases "c = 0")
      case True
      then show ?thesis by (simp add: v1_def)
    next
      case c: False
      then have "unat c = 1" using x1(3) by (metis le_antisym less_one not_less unat_eq_zero)
      then show ?thesis using c False unat_inc [of v] by (simp add: v1_def)
    qed
    then have sum: "limbs_val (x1 @ [v1]) = limbs_val (x @ [v]) + ?b" using x1(1) val by (simp add: algebra_simps)
    have "limbs_val (x1 @ [v1]) < P"
      using limbs_val_bound [of "x1 @ [v1]"] x1(2) by (simp add: P_def power_add algebra_simps)
    then have "m \<noteq> 1" using Suc.prems(4) sum by auto
    then obtain m' where m': "m = Suc m'" "1 \<le> m'" "m' \<le> k" using Suc.prems(2,3) by (cases m) auto
    obtain x' v' where "add_back k tabb (length pre) (q - 1) (pre @ x1 @ v1 # post) = Inr (q - 1 - of_nat m', pre @ x' @ v' # post)"
      "length x' = length tabb" "limbs_val (x' @ [v']) + P = limbs_val (x1 @ [v1]) + m' * ?b"
      using Suc.IH [OF x1(2) m'(2,3), of v1 "q - 1"] Suc.prems(4,5) sum m'(1) by (auto simp: add.assoc)
    then show ?thesis using step False sum m'(1) by (auto simp: algebra_simps)
  qed
qed simp

subsection \<open>One limb of the quotient\<close>

text \<open>The estimate from the highest limbs is at most 2 too large.\<close>

lemma estimate_close:
  fixes P B b1 b' tn w' :: nat
  assumes low: "b' < P" "w' < P" and b1: "B \<le> 2 * b1" "0 < B"
    and b: "b = b' + P * b1" and w: "w = w' + P * tn" "w < B * b" and q: "q = min (tn div b1) (B - 1)"
  shows "w div b \<le> q" and "q \<le> w div b + 2"
proof -
  have pos: "0 < b1" "0 < P" using b1 low by auto
  then have bpos: "0 < b" using b by simp
  define qt where "qt = w div b"
  have qt: "qt * b \<le> w" "w < (qt + 1) * b"
    using dividend_less_times_div [OF bpos, of w] unfolding qt_def by (simp_all add: algebra_simps)
  show "w div b \<le> q"
  proof -
    have "qt * (P * b1) \<le> qt * b" unfolding b by (intro mult_le_mono2) simp
    also have "\<dots> \<le> w" by (rule qt(1))
    also have "w < P * (tn + 1)" using low w(1) by simp
    finally have "P * (qt * b1) < P * (tn + 1)" by (simp add: algebra_simps)
    then have "qt * b1 < tn + 1" by (simp only: mult_less_cancel1)
    then have "qt * b1 \<le> tn" by simp
    then have "qt \<le> tn div b1" using pos by (simp add: less_eq_div_iff_mult_less_eq)
    moreover have "qt < B" using w(2) bpos unfolding qt_def by (simp add: div_less_iff_less_mult)
    ultimately show ?thesis unfolding q qt_def by simp
  qed
  show "q \<le> w div b + 2"
  proof (rule ccontr)
    assume "\<not> q \<le> w div b + 2"
    then have three: "qt + 3 \<le> q" by (simp add: qt_def)
    then have "(qt + 1) * b + 2 * b \<le> q * b" using mult_le_mono1 [OF three, of b] by (simp add: algebra_simps)
    then have "w + 2 * b < q * b" using qt(2) by simp
    also have "q * b = q * b' + P * (q * b1)" unfolding b by (simp add: algebra_simps)
    also have "q * b1 \<le> tn" using q pos by (metis div_times_less_eq_dividend le_trans min.cobounded1 mult_le_mono1)
    then have "P * (q * b1) \<le> w" using w(1) by (simp add: trans_le_add2)
    finally have "2 * b < q * b'" by linarith
    also have "\<dots> \<le> (B - 1) * P" using q low by (intro mult_le_mono) simp_all
    also have "\<dots> \<le> B * P" by (intro mult_le_mono1) simp
    also have "\<dots> \<le> 2 * b1 * P" by (rule mult_le_mono1 [OF b1(1)])
    also have "\<dots> \<le> 2 * b" unfolding b by (simp add: algebra_simps)
    finally show False by simp
  qed
qed

lemma estimate_digit_val:
  fixes b1 :: "'a::len word"
  assumes b1: "2 ^ LENGTH('a) \<le> 2 * unat b1" and inv: "b1_inv = 0 \<or> b1_inv = udiv1norm_init b1"
  shows "unat (estimate_digit b1 b1_inv high low) =
    min ((unat low + 2 ^ LENGTH('a) * unat high) div unat b1) (2 ^ LENGTH('a) - 1)"
proof (cases "high \<ge> b1")
  case True
  have "unat b1 \<noteq> 0" using b1 by (cases "unat b1 = 0") auto
  moreover have "unat b1 * 2 ^ LENGTH('a) \<le> unat low + 2 ^ LENGTH('a) * unat high"
    using True by (simp add: word_le_nat_alt trans_le_add2)
  ultimately have "2 ^ LENGTH('a) \<le> (unat low + 2 ^ LENGTH('a) * unat high) div unat b1"
    by (simp add: less_eq_div_iff_mult_less_eq mult.commute)
  moreover have "unat (- 1 :: 'a word) = 2 ^ LENGTH('a) - 1"
    by (simp add: unsigned_minus_1_eq_mask mask_eq_exp_minus_1)
  ultimately show ?thesis using True by (simp add: estimate_digit_def)
next
  case False
  then have less: "high < b1" by simp
  have "unat (estimate_digit b1 b1_inv high low) = (unat high * 2 ^ LENGTH('a) + unat low) div unat b1"
    using less inv udiv1norm_exact [OF b1] div_dlimb_exact [of b1]
    by (auto simp: estimate_digit_def divides_exactly_def not_le)
  moreover have "(unat high * 2 ^ LENGTH('a) + unat low) div unat b1 < 2 ^ LENGTH('a)"
    using two_limbs_less [OF less, of low] less by (simp add: div_less_iff_less_mult word_less_nat_alt mult.commute)
  ultimately show ?thesis by (simp add: ac_simps)
qed

lemma div_digit_val:
  fixes tabb :: "'a::len word list"
  assumes nb: "2 \<le> length tabb" and top: "2 ^ LENGTH('a) \<le> 2 * unat (last tabb)"
    and inv: "b1_inv = 0 \<or> b1_inv = udiv1norm_init (last tabb)"
    and x: "length x = length tabb" and w: "limbs_val (x @ [v]) < 2 ^ LENGTH('a) * limbs_val tabb"
  shows "\<exists>q x' v'. div_digit tabb (last tabb) b1_inv (length pre) (pre @ x @ v # post) = Inr (q, pre @ x' @ v' # post) \<and>
    length x' = length tabb \<and> unat q = limbs_val (x @ [v]) div limbs_val tabb \<and>
    limbs_val (x' @ [v']) = limbs_val (x @ [v]) mod limbs_val tabb"
proof -
  let ?n = "length tabb" and ?b = "limbs_val tabb" and ?w = "limbs_val (x @ [v])" and ?b1 = "last tabb"
  let ?Q = "2 ^ (LENGTH('a) * ?n) :: nat" and ?B = "2 ^ LENGTH('a) :: nat"
  have ne: "tabb \<noteq> []" "x \<noteq> []" using nb x by auto
  define bs xs where "bs = butlast tabb" and "xs = butlast x"
  have split: "tabb = bs @ [?b1]" "x = xs @ [last x]" using ne by (simp_all add: bs_def xs_def)
  have len: "length bs = ?n - 1" "length xs = ?n - 1" using x by (simp_all add: bs_def xs_def)
  define P :: nat where "P = 2 ^ (LENGTH('a) * (?n - 1))"
  have b: "?b = limbs_val bs + P * unat ?b1"
    by (subst split(1)) (simp add: limbs_val_append len P_def)
  have wx: "?w = limbs_val xs + P * (unat (last x) + ?B * unat v)"
    by (subst split(2)) (simp add: limbs_val_append len P_def power_add algebra_simps)
  define q where "q = estimate_digit ?b1 b1_inv v (last x)"
  have qval: "unat q = min ((unat (last x) + ?B * unat v) div unat ?b1) (?B - 1)"
    unfolding q_def by (rule estimate_digit_val [OF top inv])
  have low: "limbs_val bs < P" "limbs_val xs < P"
    using limbs_val_bound [of bs] limbs_val_bound [of xs] len by (simp_all add: P_def)
  have close: "?w div ?b \<le> unat q" "unat q \<le> ?w div ?b + 2"
    using estimate_close [OF low top _ b wx w qval] by simp_all
  obtain x1 r where sub: "mp_sub_mul1 x tabb q 0 = (x1, r)" by fastforce
  have x1: "limbs_val x1 + ?b * unat q = limbs_val x + ?Q * unat r" "length x1 = ?n"
    using mp_sub_mul1_val [OF x sub] by simp_all
  define a where "a = v - r"
  have a: "unat a + unat r = unat v + ?B * (if a > v then 1 else 0)" unfolding a_def by (rule unat_sub_borrow)
  have step: "div_digit tabb ?b1 b1_inv (length pre) (pre @ x @ v # post) =
      (if a > v then add_back 2 tabb (length pre) q (pre @ x1 @ a # post) else Inr (q, pre @ x1 @ a # post))"
    using x x1(2) ne(2) sub
    by (simp add: div_digit_def rd_mid rd_last' part_mid memcpy_mid wr_mid a_def q_def [symmetric] Let_def del: rd_Inr wr_Inr memcpy_Inr)
  have vals: "limbs_val (x1 @ [a]) = limbs_val x1 + ?Q * unat a" "?w = limbs_val x + ?Q * unat v"
    using x x1(2) by (simp_all add: limbs_val_append)
  have key: "limbs_val (x1 @ [a]) + unat q * ?b = ?w + ?Q * ?B * (if a > v then 1 else 0)"
  proof -
    have "limbs_val (x1 @ [a]) + unat q * ?b = (limbs_val x1 + ?b * unat q) + ?Q * unat a"
      unfolding vals by (simp add: algebra_simps)
    also have "\<dots> = limbs_val x + ?Q * (unat a + unat r)" unfolding x1(1) by (simp add: algebra_simps)
    also have "\<dots> = ?w + ?Q * ?B * (if a > v then 1 else 0)" unfolding a vals by (simp add: algebra_simps)
    finally show ?thesis .
  qed
  have bpos: "0 < ?b" using w by (cases "?b = 0") auto
  have wdiv: "?w = ?w div ?b * ?b + ?w mod ?b" by simp
  have small: "limbs_val (x1 @ [a]) < ?Q * ?B"
    using limbs_val_bound [of "x1 @ [a]"] x1(2) by (simp add: power_add algebra_simps)
  show ?thesis
  proof (cases "a > v")
    case False
    then have eq: "limbs_val (x1 @ [a]) + unat q * ?b = ?w" using key by simp
    then have "unat q * ?b \<le> ?w" by linarith
    then have "unat q \<le> ?w div ?b" using bpos by (simp add: less_eq_div_iff_mult_less_eq)
    then have q: "unat q = ?w div ?b" using close(1) by simp
    then have "limbs_val (x1 @ [a]) = ?w mod ?b" using eq wdiv unfolding q by linarith
    then show ?thesis using step False q x1(2) by auto
  next
    case True
    then have eq: "limbs_val (x1 @ [a]) + unat q * ?b = ?w + ?Q * ?B" using key by simp
    define m where "m = unat q - ?w div ?b"
    have qm: "unat q = ?w div ?b + m" using close(1) by (simp add: m_def)
    have "unat q \<noteq> ?w div ?b"
    proof
      assume h: "unat q = ?w div ?b"
      have "unat q * ?b \<le> ?w" unfolding h by (rule div_times_less_eq_dividend)
      then show False using eq small by linarith
    qed
    then have m: "1 \<le> m" "m \<le> 2" using qm close(2) by simp_all
    have sum: "limbs_val (x1 @ [a]) + m * ?b = ?Q * ?B + ?w mod ?b"
      using eq wdiv unfolding qm add_mult_distrib by linarith
    then have "?Q * ?B \<le> limbs_val (x1 @ [a]) + m * ?b" "limbs_val (x1 @ [a]) + m * ?b < ?Q * ?B + ?b"
      using mod_less_divisor [OF bpos, of ?w] by simp_all
    from add_back_val [OF x1(2) m this] obtain x' v' where
      r: "add_back 2 tabb (length pre) q (pre @ x1 @ a # post) = Inr (q - of_nat m, pre @ x' @ v' # post)"
        "length x' = ?n" "limbs_val (x' @ [v']) + ?Q * ?B = limbs_val (x1 @ [a]) + m * ?b" by blast
    have "q - of_nat m = of_nat (?w div ?b)"
    proof -
      have "q = of_nat (unat q)" by simp
      also have "\<dots> = of_nat (?w div ?b) + of_nat m" unfolding qm by simp
      finally show ?thesis by simp
    qed
    moreover have "?w div ?b < ?B" using close(1) unat_limb [of q] by linarith
    ultimately have "unat (q - of_nat m) = ?w div ?b" by (simp add: unsigned_of_nat take_bit_nat_eq_self)
    moreover have "limbs_val (x' @ [v']) = ?w mod ?b" using r(3) sum by simp
    ultimately show ?thesis using step True r(1,2) by auto
  qed
qed

subsection \<open>The loop over the quotient\<close>

lemma limbs_val_take_Suc: "i < length t \<Longrightarrow> limbs_val (take (Suc i) t) = limbs_val (take i t) + 2 ^ (LENGTH('a) * i) * unat (t ! i)"
  for t :: "'a::len word list"
  by (simp add: take_Suc_conv_app_nth limbs_val_append)

lemma limbs_val_take_add: "i + k \<le> length t \<Longrightarrow>
    limbs_val (take (i + k) t) = limbs_val (take i t) + 2 ^ (LENGTH('a) * i) * limbs_val (take k (drop i t))"
  for t :: "'a::len word list"
  by (simp add: take_add limbs_val_append)

lemma div_digits_val:
  fixes tabb :: "'a::len word list"
  assumes nb: "2 \<le> length tabb" and top: "2 ^ LENGTH('a) \<le> 2 * unat (last tabb)"
    and inv: "b1_inv = 0 \<or> b1_inv = udiv1norm_init (last tabb)"
  shows "i + length tabb \<le> length taba \<Longrightarrow> i \<le> length tabq \<Longrightarrow> limbs_val (take (length tabb) (drop i taba)) < limbs_val tabb \<Longrightarrow>
    \<exists>tabq' taba'. div_digits tabb (last tabb) b1_inv i tabq taba = Inr (tabq', taba') \<and>
      length tabq' = length tabq \<and> length taba' = length taba \<and> drop i tabq' = drop i tabq \<and>
      limbs_val (take i tabq') * limbs_val tabb + limbs_val (take (length tabb) taba') = limbs_val (take (i + length tabb) taba) \<and>
      limbs_val (take (length tabb) taba') < limbs_val tabb"
proof (induction i arbitrary: tabq taba)
  case (Suc i)
  let ?n = "length tabb" and ?b = "limbs_val tabb"
  define pre x v post where "pre = take i taba" and "x = take ?n (drop i taba)" and "v = taba ! (i + ?n)" and "post = drop (Suc (i + ?n)) taba"
  have len: "length pre = i" "length x = ?n" using Suc.prems(1) by (simp_all add: pre_def x_def)
  have taba: "taba = pre @ x @ v # post"
  proof -
    have "drop i taba = x @ drop (i + ?n) taba" unfolding x_def by (metis append_take_drop_id drop_drop add.commute)
    also have "drop (i + ?n) taba = v # post"
      using Suc.prems(1) by (simp add: v_def post_def Cons_nth_drop_Suc)
    finally show ?thesis unfolding pre_def by (metis append_take_drop_id)
  qed
  define w where "w = limbs_val (x @ [v])"
  have xv: "x @ [v] = taba ! i # take ?n (drop (Suc i) taba)"
  proof -
    have "x @ [v] = take (Suc ?n) (drop i taba)"
      using Suc.prems(1) by (simp add: x_def v_def take_Suc_conv_app_nth)
    also have "drop i taba = taba ! i # drop (Suc i) taba" using Suc.prems(1) by (simp add: Cons_nth_drop_Suc)
    finally show ?thesis by simp
  qed
  have "w < 2 ^ LENGTH('a) * ?b"
  proof -
    have "limbs_val (take ?n (drop (Suc i) taba)) + 1 \<le> ?b" using Suc.prems(3) by simp
    then have "2 ^ LENGTH('a) * (limbs_val (take ?n (drop (Suc i) taba)) + 1) \<le> 2 ^ LENGTH('a) * ?b" by (rule mult_le_mono2)
    then show ?thesis unfolding w_def xv limbs_val.simps distrib_left using unat_limb [of "taba ! i"] by linarith
  qed
  from div_digit_val [OF nb top inv len(2) this [unfolded w_def], of pre post] obtain q x' v' where
    q: "div_digit tabb (last tabb) b1_inv i taba = Inr (q, pre @ x' @ v' # post)" "length x' = ?n"
      "unat q = w div ?b" "limbs_val (x' @ [v']) = w mod ?b" unfolding taba len w_def by blast
  have bpos: "0 < ?b" using Suc.prems(3) by simp
  define taba1 where "taba1 = pre @ x' @ v' # post"
  have taba1: "length taba1 = length taba" "take i taba1 = take i taba" "take ?n (drop i taba1) = x'"
    using len q(2) by (simp_all add: taba1_def taba)
  have x': "limbs_val x' \<le> w mod ?b" "limbs_val x' < ?b" "v' = 0" "limbs_val x' = w mod ?b"
  proof -
    have eq: "limbs_val x' + 2 ^ (LENGTH('a) * ?n) * unat v' = w mod ?b" using q(2,4) by (simp add: limbs_val_append)
    then show "limbs_val x' \<le> w mod ?b" by linarith
    moreover have less: "w mod ?b < ?b" using bpos by simp
    ultimately show "limbs_val x' < ?b" by linarith
    show "v' = 0"
    proof (rule ccontr)
      assume "v' \<noteq> 0"
      then have "1 \<le> unat v'" by (simp add: unat_gt_0 Suc_le_eq)
      then have "2 ^ (LENGTH('a) * ?n) * 1 \<le> 2 ^ (LENGTH('a) * ?n) * unat v'" by (rule mult_le_mono2)
      then show False using eq less limbs_val_bound [of tabb] by linarith
    qed
    then show "limbs_val x' = w mod ?b" using eq by simp
  qed
  have step: "div_digits tabb (last tabb) b1_inv (Suc i) tabq taba = div_digits tabb (last tabb) b1_inv i (tabq[i := q]) taba1"
    using q(1) Suc.prems(2) by (simp add: taba1_def)
  obtain tabq' taba' where r: "div_digits tabb (last tabb) b1_inv i (tabq[i := q]) taba1 = Inr (tabq', taba')"
    "length tabq' = length tabq" "length taba' = length taba" "drop i tabq' = drop i (tabq[i := q])"
    "limbs_val (take i tabq') * ?b + limbs_val (take ?n taba') = limbs_val (take (i + ?n) taba1)"
    "limbs_val (take ?n taba') < ?b"
    using Suc.IH [of taba1 "tabq[i := q]"] Suc.prems taba1 x'(2) by auto
  have qi: "tabq' ! i = q" "drop (Suc i) tabq' = drop (Suc i) tabq"
  proof -
    have "drop i tabq' = q # drop (Suc i) tabq"
      using r(4) Suc.prems(2) by (simp add: drop_update_swap Cons_nth_drop_Suc [symmetric])
    moreover have "drop i tabq' = tabq' ! i # drop (Suc i) tabq'" using r(2) Suc.prems(2) by (simp add: Cons_nth_drop_Suc)
    ultimately show "tabq' ! i = q" "drop (Suc i) tabq' = drop (Suc i) tabq" by simp_all
  qed
  have "limbs_val (take (Suc i + ?n) taba) = limbs_val (take i taba) + 2 ^ (LENGTH('a) * i) * w"
  proof -
    have "take (Suc i + ?n) taba = pre @ (x @ [v])" using len by (simp add: taba)
    then show ?thesis by (simp only: limbs_val_append len w_def) (simp add: taba len)
  qed
  also have "w = unat q * ?b + limbs_val x'" unfolding q(3) x'(4) by simp
  also have "limbs_val (take i taba) + 2 ^ (LENGTH('a) * i) * (unat q * ?b + limbs_val x') =
      limbs_val (take (i + ?n) taba1) + 2 ^ (LENGTH('a) * i) * unat q * ?b"
    using Suc.prems(1) taba1 by (simp add: limbs_val_take_add algebra_simps)
  also have "\<dots> = limbs_val (take (Suc i) tabq') * ?b + limbs_val (take ?n taba')"
    using r(2,5) Suc.prems(2) qi(1) by (simp add: limbs_val_take_Suc algebra_simps)
  finally show ?case using step r(1,2,3,6) qi(2) by auto
qed simp

lemma first_digit_val:
  "length as = length bs \<Longrightarrow> first_digit as bs = (if limbs_val (rev bs) \<le> limbs_val (rev as) then 1 else 0)"
proof (induction as bs rule: list_induct2)
  case (Cons a as b bs)
  let ?P = "2 ^ (LENGTH('a) * length as) :: nat"
  have val: "limbs_val (rev (a # as)) = limbs_val (rev as) + ?P * unat a" "limbs_val (rev (b # bs)) = limbs_val (rev bs) + ?P * unat b"
    using Cons.hyps by (simp_all add: limbs_val_append)
  have bound: "limbs_val (rev as) < ?P" "limbs_val (rev bs) < ?P"
    using limbs_val_bound [of "rev as"] limbs_val_bound [of "rev bs"] Cons.hyps by simp_all
  have apart: "limbs_val xs + ?P * unat c < ?P * unat d" if "limbs_val xs < ?P" "c < d" for xs :: "'a word list" and c d :: "'a word"
  proof -
    have "unat c + 1 \<le> unat d" using that(2) by (simp add: word_less_nat_alt)
    then have "?P * (unat c + 1) \<le> ?P * unat d" by (rule mult_le_mono2)
    then show ?thesis using that(1) by simp
  qed
  consider "a = b" | "a < b" | "b < a" by fastforce
  then show ?case
  proof cases
    case 1
    then show ?thesis using Cons.IH unfolding val by simp
  next
    case 2
    then show ?thesis using apart [OF bound(1) 2] unfolding val by auto
  next
    case 3
    then show ?thesis using apart [OF bound(2) 3] unfolding val by auto
  qed
qed simp

lemma normal_double:
  fixes tabb :: "'a::len word list"
  assumes "tabb \<noteq> []" and "2 ^ LENGTH('a) \<le> 2 * unat (last tabb)"
  shows "2 ^ (LENGTH('a) * length tabb) \<le> 2 * limbs_val tabb"
proof -
  obtain bs b1 where b: "tabb = bs @ [b1]" using assms(1) by (cases tabb rule: rev_cases) auto
  have "2 ^ (LENGTH('a) * length tabb) = 2 ^ (LENGTH('a) * length bs) * (2 ^ LENGTH('a) :: nat)"
    by (simp add: b power_add)
  also have "\<dots> \<le> 2 ^ (LENGTH('a) * length bs) * (2 * unat b1)" using assms(2) by (intro mult_le_mono2) (simp add: b)
  also have "\<dots> \<le> 2 * limbs_val tabb" by (simp add: b limbs_val_append)
  finally show ?thesis .
qed

lemma mp_divnorm_several:
  fixes taba :: "'a::len word list"
  assumes nb: "2 \<le> length tabb" and top: "2 ^ LENGTH('a) \<le> 2 * unat (last tabb)"
    and na: "length taba = n + length tabb" and nq: "length tabq = n + 1" and small: "min n (length tabb) < DIVNORM_LARGE_THRESHOLD"
  shows "\<exists>tabq' taba'. mp_divnorm large tabq taba tabb = Inr (tabq', taba') \<and> length tabq' = n + 1 \<and> length taba' = length taba \<and>
    limbs_val taba = limbs_val tabq' * limbs_val tabb + limbs_val (take (length tabb) taba') \<and>
    limbs_val (take (length tabb) taba') < limbs_val tabb \<and> unat (last tabq') \<le> 1"
proof -
  let ?b = "limbs_val tabb" and ?nb = "length tabb"
  have ne: "tabb \<noteq> []" using nb by auto
  define x where "x = drop n taba"
  have x: "length x = ?nb" "taba = take n taba @ x" using na by (simp_all add: x_def)
  have ltn: "length (take n taba) = n" using na by simp
  define q where "q = first_digit (rev x) (rev tabb)"
  have q: "q = (if ?b \<le> limbs_val x then 1 else 0)" using first_digit_val [of "rev x" "rev tabb"] x(1) by (simp add: q_def)
  define x1 where "x1 = (if q \<noteq> 0 then fst (mp_sub x tabb 0) else x)"
  have x1: "limbs_val x = unat q * ?b + limbs_val x1" "length x1 = ?nb" "limbs_val x1 < ?b"
  proof -
    obtain y c where sub: "mp_sub x tabb 0 = (y, c)" by fastforce
    have y: "limbs_val y + ?b = limbs_val x + 2 ^ (LENGTH('a) * ?nb) * unat c" "length y = ?nb" "unat c \<le> 1"
      using mp_sub_val [OF x(1) _ sub] x(1) by simp_all
    have bounds: "limbs_val x < 2 ^ (LENGTH('a) * ?nb)" "limbs_val y < 2 ^ (LENGTH('a) * ?nb)" "?b < 2 ^ (LENGTH('a) * ?nb)"
      using limbs_val_bound [of x] limbs_val_bound [of y] limbs_val_bound [of tabb] x(1) y(2) by simp_all
    have dbl: "2 ^ (LENGTH('a) * ?nb) \<le> 2 * ?b" by (rule normal_double [OF ne top])
    have "limbs_val x = unat q * ?b + limbs_val x1 \<and> length x1 = ?nb \<and> limbs_val x1 < ?b"
    proof (cases "?b \<le> limbs_val x")
      case True
      have "unat c = 0"
      proof (rule ccontr)
        assume "unat c \<noteq> 0"
        then have "2 ^ (LENGTH('a) * ?nb) * 1 \<le> 2 ^ (LENGTH('a) * ?nb) * unat c" by (intro mult_le_mono2) simp
        then show False using y(1) bounds True by linarith
      qed
      then have "limbs_val y + ?b = limbs_val x" using y(1) by simp
      moreover from this have "limbs_val y < ?b" using bounds(1) dbl by linarith
      ultimately show ?thesis using True y(2) by (simp add: q x1_def sub)
    next
      case False
      then show ?thesis using x(1) by (simp add: q x1_def)
    qed
    then show "limbs_val x = unat q * ?b + limbs_val x1" "length x1 = ?nb" "limbs_val x1 < ?b" by blast+
  qed
  define taba1 where "taba1 = take n taba @ x1"
  have taba1: "length taba1 = n + ?nb" "take n taba1 = take n taba" "drop n taba1 = x1"
    using ltn x1(2) by (simp_all add: taba1_def)
  have store: "(if q \<noteq> 0 then memcpy taba n (fst (mp_sub x tabb 0)) else Inr taba) = Inr taba1"
  proof (cases "q = 0")
    case True
    then show ?thesis using x by (simp add: taba1_def x1_def)
  next
    case False
    then have "memcpy (take n taba @ x @ []) (length (take n taba)) (fst (mp_sub x tabb 0)) = Inr (take n taba @ x1 @ [])"
      using x1(2) x(1) by (intro trans [OF memcpy_mid]) (simp_all add: x1_def)
    then show ?thesis using False x(2) ltn by (simp add: taba1_def)
  qed
  define b1_inv where "b1_inv = (if n \<ge> UDIV1NORM_THRESHOLD then udiv1norm_init (last tabb) else 0)"
  have inv: "b1_inv = 0 \<or> b1_inv = udiv1norm_init (last tabb)" by (simp add: b1_inv_def)
  have "mp_divnorm large tabq taba tabb = div_digits tabb (last tabb) b1_inv n (tabq[n := q]) taba1"
  proof -
    have part: "part taba n ?nb = Inr x" using na by (simp add: part_def x_def)
    have rd: "rd tabb (?nb - 1) = Inr (last tabb)" using ne by (simp add: last_conv_nth)
    have wr: "wr tabq n q = Inr (tabq[n := q])" using nq by simp
    have tests: "(?nb = 1) = False" "(length taba < ?nb) = False" "length taba - ?nb = n"
      "(DIVNORM_LARGE_THRESHOLD \<le> min n ?nb) = False"
      using nb na small by (simp_all add: min_less_iff_disj not_le)
    show ?thesis
      by (simp only: mp_divnorm_def Let_def rd bnd_Inr tests if_False part q_def [symmetric] wr store b1_inv_def [symmetric])
  qed
  moreover obtain tabq' taba' where r: "div_digits tabb (last tabb) b1_inv n (tabq[n := q]) taba1 = Inr (tabq', taba')"
    "length tabq' = n + 1" "length taba' = length taba1" "drop n tabq' = drop n (tabq[n := q])"
    "limbs_val (take n tabq') * ?b + limbs_val (take ?nb taba') = limbs_val (take (n + ?nb) taba1)"
    "limbs_val (take ?nb taba') < ?b"
    using div_digits_val [OF nb top inv, of n taba1 "tabq[n := q]"] taba1 nq x1(2,3) by auto
  moreover have qn: "tabq' = take n tabq' @ [q]"
  proof -
    obtain us u where "tabq = us @ [u]" using nq by (cases tabq rule: rev_cases) auto
    then have "drop n (tabq[n := q]) = [q]" using nq by (simp add: list_update_append)
    then show ?thesis using r(4) by (metis append_take_drop_id)
  qed
  moreover have "limbs_val taba = limbs_val tabq' * ?b + limbs_val (take ?nb taba')"
  proof -
    have "limbs_val taba = limbs_val (take n taba) + 2 ^ (LENGTH('a) * n) * (unat q * ?b + limbs_val x1)"
      using x(2) ltn x1(1) by (metis limbs_val_append)
    also have "\<dots> = limbs_val (take (n + ?nb) taba1) + 2 ^ (LENGTH('a) * n) * unat q * ?b"
      using taba1 ltn x1(2) by (simp add: taba1_def limbs_val_append algebra_simps)
    also have "limbs_val (take (n + ?nb) taba1) = limbs_val (take n tabq') * ?b + limbs_val (take ?nb taba')" by (rule r(5) [symmetric])
    finally have "limbs_val taba = (limbs_val (take n tabq') + 2 ^ (LENGTH('a) * n) * unat q) * ?b + limbs_val (take ?nb taba')"
      by (simp add: algebra_simps)
    moreover have "limbs_val tabq' = limbs_val (take n tabq') + 2 ^ (LENGTH('a) * n) * unat q"
      by (subst qn) (simp add: limbs_val_append r(2))
    ultimately show ?thesis by simp
  qed
  moreover have "unat (last tabq') \<le> 1" using qn q by (metis last_snoc unat_0 unat_1 zero_le_one order_refl)
  ultimately show ?thesis using taba1(1) na by auto
qed

lemma mp_divnorm_single:
  fixes taba :: "'a::len word list"
  assumes nb: "length tabb = 1" and top: "2 ^ LENGTH('a) \<le> 2 * unat (last tabb)"
    and na: "taba \<noteq> []" and nq: "length tabq = length taba"
  shows "\<exists>tabq' taba'. mp_divnorm large tabq taba tabb = Inr (tabq', taba') \<and> length tabq' = length tabq \<and> length taba' = length taba \<and>
    limbs_val taba = limbs_val tabq' * limbs_val tabb + limbs_val (take (length tabb) taba') \<and>
    limbs_val (take (length tabb) taba') < limbs_val tabb"
proof -
  obtain b where b: "tabb = [b]" using nb by (cases tabb) auto
  obtain a as where a: "taba = a # as" using na by (cases taba) auto
  have top': "2 ^ LENGTH('a) \<le> 2 * unat b" using top by (simp add: b)
  then have pos: "0 < b" by (cases "b = 0") (simp_all add: word_gt_0)
  obtain res r where div: "mp_div1norm taba b 0 = Inr (res, r)" "length res = length taba"
    "limbs_val res * unat b + unat r = limbs_val taba" "r < b"
    using mp_div1norm_val [OF top' pos, of taba] by auto
  have rd: "rd tabb (length tabb - 1) = Inr b" by (simp add: b)
  have store: "memcpy tabq 0 res = Inr res" using memcpy_mid [of res tabq "[]" "[]"] nq div(2) by simp
  have wr: "wr taba 0 r = Inr (r # as)" by (simp add: a)
  have "(length tabb = 1) = True" using nb by simp
  then have "mp_divnorm large tabq taba tabb = Inr (res, r # as)"
    by (simp only: mp_divnorm_def rd bnd_Inr if_True div(1) store wr prod.case)
  then show ?thesis using div nq by (simp add: b a word_less_nat_alt)
qed

lemma mp_divnorm_val:
  fixes taba :: "'a::len word list"
  assumes nb: "tabb \<noteq> []" and top: "2 ^ LENGTH('a) \<le> 2 * unat (last tabb)" and na: "length tabb \<le> length taba"
    and nq: "length tabq = length taba - length tabb + 1"
    and small: "min (length taba - length tabb) (length tabb) < DIVNORM_LARGE_THRESHOLD"
  shows "\<exists>tabq' taba'. mp_divnorm large tabq taba tabb = Inr (tabq', taba') \<and> length tabq' = length tabq \<and> length taba' = length taba \<and>
    limbs_val tabq' = limbs_val taba div limbs_val tabb \<and>
    limbs_val (take (length tabb) taba') = limbs_val taba mod limbs_val tabb"
proof -
  have "\<exists>tabq' taba'. mp_divnorm large tabq taba tabb = Inr (tabq', taba') \<and> length tabq' = length tabq \<and> length taba' = length taba \<and>
    limbs_val taba = limbs_val tabq' * limbs_val tabb + limbs_val (take (length tabb) taba') \<and>
    limbs_val (take (length tabb) taba') < limbs_val tabb"
  proof (cases "length tabb = 1")
    case True
    then show ?thesis using top na nq by (intro mp_divnorm_single) auto
  next
    case False
    then have two: "2 \<le> length tabb" using nb by (cases tabb; cases "tl tabb") auto
    have "length taba = (length taba - length tabb) + length tabb" using na by simp
    from mp_divnorm_several [OF two top this nq small, of large] show ?thesis unfolding nq by blast
  qed
  then show ?thesis by (auto simp: div_mult_self3 div_less mod_mult_self3)
qed

section \<open>The property\<close>

text \<open>C39.
  Division of numbers of several limbs. The dividend has at least as many limbs as the divisor, the
  highest bit of the divisor is set (the callers shift it there), the place for the quotient has
  \<open>na - nb + 1\<close> limbs, and the quotient or the divisor is below the size from which the division by
  an inverse is used. Then \<open>mp_divnorm\<close> stays within its arrays and returns the quotient and, in the low
  limbs of the dividend, the remainder of the numbers: the estimate of a limb of the quotient,
  from two limbs of the dividend and the highest limb of the divisor, and the additions that correct it
  together give the exact limb.
\<close>
lemma mp_divnorm_divides:
  fixes taba :: "'a::len word list"
  assumes "tabb \<noteq> []" and "2 ^ LENGTH('a) \<le> 2 * unat (last tabb)" and "length tabb \<le> length taba"
    and "length tabq = length taba - length tabb + 1"
    and "min (length taba - length tabb) (length tabb) < DIVNORM_LARGE_THRESHOLD"
  shows "\<exists>tabq' taba'. mp_divnorm large tabq taba tabb = Inr (tabq', taba') \<and> length tabq' = length tabq \<and> length taba' = length taba \<and>
    limbs_val tabq' = limbs_val taba div limbs_val tabb \<and>
    limbs_val (take (length tabb) taba') = limbs_val taba mod limbs_val tabb"
  using assms by (rule mp_divnorm_val)

lemma mp_divnorm_divides_witness:
  "mp_divnorm (\<lambda>_ _ _. Inl Undef) [5, 5, 5] [0, 0, 0, 0x80000000 :: 32 word] [0xFFFFFFFF, 0x80000000] =
      Inr ([5, 0xFFFFFFFE, 0], [5, 0x7FFFFFF9, 0, 0]) \<and>
    limbs_val [5, 0xFFFFFFFE, 0 :: 32 word] = 2 ^ 127 div (2 ^ 63 + 2 ^ 32 - 1) \<and>
    limbs_val [5, 0x7FFFFFF9 :: 32 word] = 2 ^ 127 mod (2 ^ 63 + 2 ^ 32 - 1)"
proof -
  have run: "mp_divnorm (\<lambda>_ _ _. Inl Undef) [5, 5, 5] [0, 0, 0, 0x80000000 :: 32 word] [0xFFFFFFFF, 0x80000000] =
      Inr ([5, 0xFFFFFFFE, 0], [5, 0x7FFFFFF9, 0, 0])" by code_simp
  then show ?thesis
    using mp_divnorm_divides [of "[0xFFFFFFFF, 0x80000000 :: 32 word]" "[0, 0, 0, 0x80000000]" "[5, 5, 5]" "\<lambda>_ _ _. Inl Undef"]
    by (simp add: DIVNORM_LARGE_THRESHOLD_def)
qed

end
