(* ===== verification/HostApi.thy ===== *)
theory HostApi
  imports Prelude
begin

text \<open>
  The two interpreters that \<open>js.cpp\<close> joins, as far as it uses them.

  JavaScript values are the tagged values of \<open>quickjs.h\<close>. The functions of QuickJS behind
  \<open>JS_GetPropertyStr\<close>, \<open>JS_ToCString\<close> and so on can run any script, so they are fields of the
  record \<open>host\<close> that act on the world \<open>'w\<close>, which holds the heaps of both interpreters and the
  game. The same record holds the Lua side of the game (\<open>GarrysMod/Lua/LuaBase.h\<close>, whose
  implementation is part of the game) and the arithmetic of the C type \<open>double\<close>, the type
  \<open>'f\<close>. A function that can fail by a Lua error yields \<open>None\<close>: the error unwinds the C code,
  which the model reports as \<open>Inl (Fail ''lua'')\<close>.

  The Lua stack is modelled as \<open>LuaBase.h\<close> documents it: a list of values with its top at the
  head, addressed from the top by negative and from the bottom by positive numbers. A reference
  outside the stack is \<open>Undef\<close>.
\<close>

section \<open>JavaScript values\<close>

text \<open>
  The tags of \<open>quickjs.h\<close>; \<open>JS_TAGGED t n\<close> stands for the values of the remaining tags
  (symbols, big numbers, internal values).
\<close>

datatype 'f JSValue =
    JS_UNDEFINED | JS_NULL | JS_EXCEPTION
  | JS_BOOL bool | JS_INT "32 word" | JS_FLOAT64 'f
  | JS_STRING string | JS_OBJECT nat | JS_TAGGED int nat

record ('f, 'w, 'v) host =
  of_int32 :: "32 word \<Rightarrow> 'f"
  as_int32 :: "'f \<Rightarrow> 32 word option"
  f_add :: "'f \<Rightarrow> 'f \<Rightarrow> 'f"
  f_sub :: "'f \<Rightarrow> 'f \<Rightarrow> 'f"
  f_mul :: "'f \<Rightarrow> 'f \<Rightarrow> 'f"
  f_div :: "'f \<Rightarrow> 'f \<Rightarrow> 'f"
  f_mod :: "'f \<Rightarrow> 'f \<Rightarrow> 'f"
  f_pow :: "'f \<Rightarrow> 'f \<Rightarrow> 'f"
  f_sqrt :: "'f \<Rightarrow> 'f"
  js_get :: "'w \<Rightarrow> 'f JSValue \<Rightarrow> string \<Rightarrow> 'f JSValue \<times> 'w"
  js_set :: "'w \<Rightarrow> 'f JSValue \<Rightarrow> string \<Rightarrow> 'f JSValue \<Rightarrow> 'w"
  js_new_object :: "'w \<Rightarrow> 'f JSValue \<times> 'w"
  js_throw :: "'w \<Rightarrow> string \<Rightarrow> string \<Rightarrow> 'w"
  js_to_number :: "'w \<Rightarrow> 'f JSValue \<Rightarrow> 'f \<times> 'w"
  js_to_cstring :: "'w \<Rightarrow> 'f JSValue \<Rightarrow> string option \<times> 'w"
  js_own_names :: "'w \<Rightarrow> 'f JSValue \<Rightarrow> string list option \<times> 'w"
  js_atom_cstring :: "'w \<Rightarrow> string \<Rightarrow> string option \<times> 'w"
  lua_glob :: 'v
  lua_nil :: 'v
  lua_cfunction :: "string \<Rightarrow> 'v"
  lua_number :: "'f \<Rightarrow> 'v"
  lua_string :: "string \<Rightarrow> 'v"
  lua_to_bool :: "'v \<Rightarrow> bool"
  lua_to_number :: "'v \<Rightarrow> 'f"
  lua_to_string :: "'v \<Rightarrow> string option"
  lua_to_vector :: "'v \<Rightarrow> 'f \<times> 'f \<times> 'f"
  lua_to_angle :: "'v \<Rightarrow> 'f \<times> 'f \<times> 'f"
  lua_type :: "'v \<Rightarrow> int"
  lua_index :: "'w \<Rightarrow> 'v \<Rightarrow> 'v \<Rightarrow> ('v \<times> 'w) option"
  lua_set_index :: "'w \<Rightarrow> 'v \<Rightarrow> 'v \<Rightarrow> 'v \<Rightarrow> 'w option"
  lua_new_table :: "'w \<Rightarrow> 'v \<times> 'w"
  lua_metatable :: "'w \<Rightarrow> 'v \<Rightarrow> 'v option"
  lua_call :: "'w \<Rightarrow> 'v \<Rightarrow> 'v list \<Rightarrow> ('v list \<times> 'w) option"

fun JS_IsNumber :: "'f JSValue \<Rightarrow> bool" where
  "JS_IsNumber (JS_INT i) = True"
| "JS_IsNumber (JS_FLOAT64 d) = True"
| "JS_IsNumber v = False"

fun JS_IsObject :: "'f JSValue \<Rightarrow> bool" where
  "JS_IsObject (JS_OBJECT n) = True"
| "JS_IsObject v = False"

fun JS_IsString :: "'f JSValue \<Rightarrow> bool" where
  "JS_IsString (JS_STRING s) = True"
| "JS_IsString v = False"

fun JS_IsException :: "'f JSValue \<Rightarrow> bool" where
  "JS_IsException JS_EXCEPTION = True"
| "JS_IsException v = False"

text \<open>A double with the value of an \<open>int32_t\<close> (and not minus zero) becomes an integer value.\<close>

definition JS_NewFloat64 :: "('f, 'w, 'v) host \<Rightarrow> 'f \<Rightarrow> 'f JSValue" where
  "JS_NewFloat64 H d = (case as_int32 H d of Some i \<Rightarrow> JS_INT i | None \<Rightarrow> JS_FLOAT64 d)"

definition JS_NewBool :: "bool \<Rightarrow> 'f JSValue" where
  "JS_NewBool b = JS_BOOL b"

fun JS_ToFloat64 :: "('f, 'w, 'v) host \<Rightarrow> 'w \<Rightarrow> 'f JSValue \<Rightarrow> 'f \<times> 'w" where
  "JS_ToFloat64 H w (JS_INT i) = (of_int32 H i, w)"
| "JS_ToFloat64 H w (JS_BOOL b) = (of_int32 H (if b then 1 else 0), w)"
| "JS_ToFloat64 H w JS_NULL = (of_int32 H 0, w)"
| "JS_ToFloat64 H w (JS_FLOAT64 d) = (d, w)"
| "JS_ToFloat64 H w v = js_to_number H w v"

text \<open>
  What is assumed of \<open>double\<close>: the test of \<open>JS_NewFloat64\<close> for an integer compares the bits.
\<close>

definition int_doubles :: "('f, 'w, 'v) host \<Rightarrow> bool" where
  "int_doubles H \<longleftrightarrow> (\<forall>d i. as_int32 H d = Some i \<longrightarrow> of_int32 H i = d)"

text \<open>The number a value stands for, when it is a number.\<close>

fun number_of :: "('f, 'w, 'v) host \<Rightarrow> 'f JSValue \<Rightarrow> 'f option" where
  "number_of H (JS_INT i) = Some (of_int32 H i)"
| "number_of H (JS_FLOAT64 d) = Some d"
| "number_of H v = None"

lemma number_of_NewFloat64 [simp]:
  "int_doubles H \<Longrightarrow> number_of H (JS_NewFloat64 H d) = Some d"
  by (auto simp: JS_NewFloat64_def int_doubles_def split: option.split)

lemma ToFloat64_number:
  "number_of H v = Some d \<Longrightarrow> JS_ToFloat64 H w v = (d, w)"
  by (cases v) auto

lemma number_of_IsNumber: "number_of H v = Some d \<Longrightarrow> JS_IsNumber v"
  by (cases v) auto

lemma IsNumber_NewFloat64 [simp]: "JS_IsNumber (JS_NewFloat64 H d)"
  by (simp add: JS_NewFloat64_def split: option.split)

section \<open>The Lua stack\<close>

type_synonym ('w, 'v) lua = "'w \<times> 'v list"

definition lua_at :: "'v list \<Rightarrow> int \<Rightarrow> 'v res" where
  "lua_at st i =
     (if i < 0 then rd st (nat (- i) - 1)
      else if i = 0 \<or> nat i > length st then Inl Undef
      else Inr (st ! (length st - nat i)))"

datatype 'f lua_op =
    PushSpecial | PushNumber 'f | PushString string | PushNil | Push int | Pop nat
  | GetField int string | SetField int string | GetTable int | GetMetaTable int
  | CreateTable | Call nat nat | PushCFunction string

definition lua_error :: "'a option \<Rightarrow> 'a res" where
  "lua_error r = (case r of None \<Rightarrow> Inl (Fail ''lua'') | Some x \<Rightarrow> Inr x)"

fun lua_step :: "('f, 'w, 'v) host \<Rightarrow> 'f lua_op \<Rightarrow> ('w, 'v) lua \<Rightarrow> ('w, 'v) lua res" where
  "lua_step H PushSpecial (w, st) = Inr (w, lua_glob H # st)"
| "lua_step H (PushNumber d) (w, st) = Inr (w, lua_number H d # st)"
| "lua_step H (PushString s) (w, st) = Inr (w, lua_string H s # st)"
| "lua_step H (PushCFunction f) (w, st) = Inr (w, lua_cfunction H f # st)"
| "lua_step H PushNil (w, st) = Inr (w, lua_nil H # st)"
| "lua_step H (Push i) (w, st) = bnd (lua_at st i) (\<lambda>v. Inr (w, v # st))"
| "lua_step H (Pop n) (w, st) = (if n \<le> length st then Inr (w, drop n st) else Inl Undef)"
| "lua_step H (GetField i k) (w, st) =
     bnd (lua_at st i) (\<lambda>t. bnd (lua_error (lua_index H w t (lua_string H k))) (\<lambda>(v, w). Inr (w, v # st)))"
| "lua_step H (SetField i k) (w, st) =
     bnd (lua_at st i) (\<lambda>t. bnd (lua_at st (- 1)) (\<lambda>v.
       bnd (lua_error (lua_set_index H w t (lua_string H k) v)) (\<lambda>w. Inr (w, tl st))))"
| "lua_step H (GetTable i) (w, st) =
     bnd (lua_at st i) (\<lambda>t. bnd (lua_at st (- 1)) (\<lambda>k.
       bnd (lua_error (lua_index H w t k)) (\<lambda>(v, w). Inr (w, v # tl st))))"
| "lua_step H (GetMetaTable i) (w, st) =
     bnd (lua_at st i) (\<lambda>v.
       Inr (w, case lua_metatable H w v of None \<Rightarrow> st | Some m \<Rightarrow> m # st))"
| "lua_step H CreateTable (w, st) = (let (v, w) = lua_new_table H w in Inr (w, v # st))"
| "lua_step H (Call a r) (w, st) =
     bnd (lua_at st (- int a - 1)) (\<lambda>f.
       bnd (lua_error (lua_call H w f (rev (take a st)))) (\<lambda>(vs, w).
         Inr (w, rev (take r (vs @ replicate r (lua_nil H))) @ drop (a + 1) st)))"

fun lua_run :: "('f, 'w, 'v) host \<Rightarrow> 'f lua_op list \<Rightarrow> ('w, 'v) lua \<Rightarrow> ('w, 'v) lua res" where
  "lua_run H [] s = Inr s"
| "lua_run H (x # xs) s = bnd (lua_step H x s) (lua_run H xs)"

definition GetBool :: "('f, 'w, 'v) host \<Rightarrow> ('w, 'v) lua \<Rightarrow> int \<Rightarrow> bool res" where
  "GetBool H s i = bnd (lua_at (snd s) i) (\<lambda>v. Inr (lua_to_bool H v))"

definition GetNumber :: "('f, 'w, 'v) host \<Rightarrow> ('w, 'v) lua \<Rightarrow> int \<Rightarrow> 'f res" where
  "GetNumber H s i = bnd (lua_at (snd s) i) (\<lambda>v. Inr (lua_to_number H v))"

text \<open>
  Every use of \<open>GetString\<close> passes the pointer on to \<open>strlen\<close> or \<open>strcmp\<close>, which are undefined
  on the null pointer \<open>GetString\<close> returns for a value that is no string.
\<close>

definition GetString :: "('f, 'w, 'v) host \<Rightarrow> ('w, 'v) lua \<Rightarrow> int \<Rightarrow> string res" where
  "GetString H s i = bnd (lua_at (snd s) i) (\<lambda>v.
     case lua_to_string H v of None \<Rightarrow> Inl Undef | Some x \<Rightarrow> Inr x)"

definition GetVector :: "('f, 'w, 'v) host \<Rightarrow> ('w, 'v) lua \<Rightarrow> int \<Rightarrow> ('f \<times> 'f \<times> 'f) res" where
  "GetVector H s i = bnd (lua_at (snd s) i) (\<lambda>v. Inr (lua_to_vector H v))"

definition GetAngle :: "('f, 'w, 'v) host \<Rightarrow> ('w, 'v) lua \<Rightarrow> int \<Rightarrow> ('f \<times> 'f \<times> 'f) res" where
  "GetAngle H s i = bnd (lua_at (snd s) i) (\<lambda>v. Inr (lua_to_angle H v))"

definition GetType :: "('f, 'w, 'v) host \<Rightarrow> ('w, 'v) lua \<Rightarrow> int \<Rightarrow> int res" where
  "GetType H s i = bnd (lua_at (snd s) i) (\<lambda>v. Inr (lua_type H v))"

text \<open>Symbolic execution on a stack whose top is known.\<close>

lemma lua_at_Cons [simp]:
  "i < 0 \<Longrightarrow> lua_at (v # st) i = (if i = - 1 then Inr v else lua_at st (i + 1))"
proof -
  assume i: "i < 0"
  then obtain k where k: "i = - int (Suc k)"
    by (metis gr0_implies_Suc neg_0_less_iff_less minus_minus zero_less_imp_eq_int)
  show ?thesis
    by (cases k) (auto simp: k lua_at_def rd_def nat_add_distrib)
qed

end
