(* ===== verification/HostDemo.thy ===== *)
theory HostDemo
  imports HostApi
begin

text \<open>
  A small instance of the record \<open>host\<close>, on which the theorems about the bindings are applied to
  concrete inputs: doubles are integers, JavaScript objects are association lists of
  properties, the game has the world (entity 0), two props and a player.
\<close>

datatype demo_lua =
    DNil | DBool bool | DNumber int | DString string | DGlobal | DEntity int | DPhysics int
  | DVector int int int | DTable nat | DFunction string

record demo =
  objects :: "(string \<times> int JSValue) list list"
  thrown :: "string list"
  game_log :: "string list"
  tables :: "(string \<times> demo_lua) list list"

definition demo_get :: "demo \<Rightarrow> int JSValue \<Rightarrow> string \<Rightarrow> int JSValue \<times> demo" where
  "demo_get w v k =
     (case v of
        JS_OBJECT i \<Rightarrow> if i < length (objects w)
          then (case map_of (objects w ! i) k of None \<Rightarrow> JS_UNDEFINED | Some x \<Rightarrow> x, w)
          else (JS_UNDEFINED, w)
      | _ \<Rightarrow> (JS_UNDEFINED, w))"

definition demo_set :: "demo \<Rightarrow> int JSValue \<Rightarrow> string \<Rightarrow> int JSValue \<Rightarrow> demo" where
  "demo_set w v k x =
     (case v of
        JS_OBJECT i \<Rightarrow> w\<lparr>objects := (objects w)[i := (k, x) # (objects w ! i)]\<rparr>
      | _ \<Rightarrow> w)"

definition demo_index :: "demo \<Rightarrow> demo_lua \<Rightarrow> demo_lua \<Rightarrow> (demo_lua \<times> demo) option" where
  "demo_index w t k =
     (case (t, k) of
        (DGlobal, DString n) \<Rightarrow> Some (DFunction n, w)
      | (DEntity i, DString n) \<Rightarrow> Some (DFunction n, w)
      | (DPhysics i, DString n) \<Rightarrow> Some (DFunction n, w)
      | (DTable i, DString n) \<Rightarrow>
          Some (case map_of (tables w ! i) n of None \<Rightarrow> DNil | Some v \<Rightarrow> v, w)
      | _ \<Rightarrow> None)"

definition demo_call ::
  "demo \<Rightarrow> demo_lua \<Rightarrow> demo_lua list \<Rightarrow> (demo_lua list \<times> demo) option" where
  "demo_call w f args =
     (case (f, args) of
        (DFunction n, args) \<Rightarrow>
          let w' = w\<lparr>game_log := n # game_log w\<rparr> in
          if n = ''Entity'' then
            Some ([case args of [DNumber i] \<Rightarrow> DEntity i | _ \<Rightarrow> DNil], w')
          else if n = ''Vector'' then
            Some ([case args of [DNumber x, DNumber y, DNumber z] \<Rightarrow> DVector x y z | _ \<Rightarrow> DNil], w')
          else if n = ''IsValid'' then
            Some ([case args of [DEntity i] \<Rightarrow> DBool (0 < i \<and> i \<le> 3) | [DPhysics i] \<Rightarrow> DBool True | _ \<Rightarrow> DBool False], w')
          else if n = ''IsPlayer'' then
            Some ([case args of [DEntity i] \<Rightarrow> DBool (i = 3) | _ \<Rightarrow> DBool False], w')
          else if n = ''EntIndex'' then
            Some ([case args of [DEntity i] \<Rightarrow> DNumber i | _ \<Rightarrow> DNil], w')
          else if n = ''GetPhysicsObject'' then
            Some ([case args of [DEntity i] \<Rightarrow> DPhysics i | _ \<Rightarrow> DNil], w')
          else if n = ''OutputType'' then Some ([DString ''COLOR''], w')
          else if n = ''GetName'' then Some ([DString ''prop''], w')
          else Some ([DNumber 7], w')
      | _ \<Rightarrow> None)"

definition demo_host :: "(int, demo, demo_lua) host" where
  "demo_host = \<lparr>
     of_int32 = sint,
     as_int32 = (\<lambda>d. if sint (word_of_int d :: 32 word) = d then Some (word_of_int d) else None),
     f_add = (+), f_sub = (-), f_mul = (*), f_div = (div), f_mod = (mod),
     f_pow = (\<lambda>x y. x ^ nat y), f_sqrt = (\<lambda>x. x),
     js_get = demo_get, js_set = demo_set,
     js_new_object = (\<lambda>w. (JS_OBJECT (length (objects w)), w\<lparr>objects := objects w @ [[]]\<rparr>)),
     js_throw = (\<lambda>w kind msg. w\<lparr>thrown := msg # thrown w\<rparr>),
     js_to_number = (\<lambda>w v. (- 1, w)),
     js_to_cstring = (\<lambda>w v. (case v of JS_STRING s \<Rightarrow> Some s | _ \<Rightarrow> None, w)),
     js_own_names = (\<lambda>w v. (case v of
        JS_OBJECT i \<Rightarrow> if i < length (objects w) then Some (remdups (map fst (objects w ! i))) else None
      | _ \<Rightarrow> None, w)),
     js_atom_cstring = (\<lambda>w k. (Some k, w)),
     lua_glob = DGlobal, lua_nil = DNil, lua_cfunction = DFunction, lua_number = DNumber, lua_string = DString,
     lua_to_bool = (\<lambda>v. case v of DBool b \<Rightarrow> b | _ \<Rightarrow> False),
     lua_to_number = (\<lambda>v. case v of DNumber n \<Rightarrow> n | _ \<Rightarrow> 0),
     lua_to_string = (\<lambda>v. case v of DString s \<Rightarrow> Some s | _ \<Rightarrow> None),
     lua_to_vector = (\<lambda>v. case v of DVector x y z \<Rightarrow> (x, y, z) | _ \<Rightarrow> (0, 0, 0)),
     lua_to_angle = (\<lambda>v. (0, 0, 0)),
     lua_type = (\<lambda>v. case v of DNil \<Rightarrow> 0 | DBool b \<Rightarrow> 1 | DNumber n \<Rightarrow> 3 | DString s \<Rightarrow> 4 | DTable n \<Rightarrow> 5
        | DFunction n \<Rightarrow> 6 | DEntity i \<Rightarrow> 9 | DVector x y z \<Rightarrow> 10 | DPhysics i \<Rightarrow> 12 | DGlobal \<Rightarrow> 5),
     lua_index = demo_index,
     lua_set_index = (\<lambda>w t k v. case (t, k) of
        (DTable i, DString n) \<Rightarrow> Some (w\<lparr>tables := (tables w)[i := (n, v) # tables w ! i]\<rparr>)
      | _ \<Rightarrow> None),
     lua_new_table = (\<lambda>w. (DTable (length (tables w)), w\<lparr>tables := tables w @ [[]]\<rparr>)),
     lua_metatable = (\<lambda>w v. Some DNil),
     lua_call = demo_call \<rparr>"

lemma demo_host_simps [simp]:
  "of_int32 demo_host = sint"
  "as_int32 demo_host = (\<lambda>d. if sint (word_of_int d :: 32 word) = d then Some (word_of_int d) else None)"
  "f_add demo_host = (+)"
  "f_sub demo_host = (-)"
  "f_mul demo_host = (*)"
  "f_div demo_host = (div)"
  "f_mod demo_host = (mod)"
  "f_pow demo_host = (\<lambda>x y. x ^ nat y)"
  "f_sqrt demo_host = (\<lambda>x. x)"
  "js_get demo_host = demo_get"
  "js_set demo_host = demo_set"
  "js_new_object demo_host = (\<lambda>w. (JS_OBJECT (length (objects w)), w\<lparr>objects := objects w @ [[]]\<rparr>))"
  "js_throw demo_host = (\<lambda>w kind msg. w\<lparr>thrown := msg # thrown w\<rparr>)"
  "js_to_number demo_host = (\<lambda>w v. (- 1, w))"
  "js_to_cstring demo_host = (\<lambda>w v. (case v of JS_STRING s \<Rightarrow> Some s | _ \<Rightarrow> None, w))"
  "js_own_names demo_host = (\<lambda>w v. (case v of
        JS_OBJECT i \<Rightarrow> if i < length (objects w) then Some (remdups (map fst (objects w ! i))) else None
      | _ \<Rightarrow> None, w))"
  "js_atom_cstring demo_host = (\<lambda>w k. (Some k, w))"
  "lua_glob demo_host = DGlobal"
  "lua_nil demo_host = DNil"
  "lua_cfunction demo_host = DFunction"
  "lua_number demo_host = DNumber"
  "lua_string demo_host = DString"
  "lua_to_bool demo_host = (\<lambda>v. case v of DBool b \<Rightarrow> b | _ \<Rightarrow> False)"
  "lua_to_number demo_host = (\<lambda>v. case v of DNumber n \<Rightarrow> n | _ \<Rightarrow> 0)"
  "lua_to_string demo_host = (\<lambda>v. case v of DString s \<Rightarrow> Some s | _ \<Rightarrow> None)"
  "lua_to_vector demo_host = (\<lambda>v. case v of DVector x y z \<Rightarrow> (x, y, z) | _ \<Rightarrow> (0, 0, 0))"
  "lua_to_angle demo_host = (\<lambda>v. (0, 0, 0))"
  "lua_type demo_host = (\<lambda>v. case v of DNil \<Rightarrow> 0 | DBool b \<Rightarrow> 1 | DNumber n \<Rightarrow> 3 | DString s \<Rightarrow> 4 | DTable n \<Rightarrow> 5
        | DFunction n \<Rightarrow> 6 | DEntity i \<Rightarrow> 9 | DVector x y z \<Rightarrow> 10 | DPhysics i \<Rightarrow> 12 | DGlobal \<Rightarrow> 5)"
  "lua_index demo_host = demo_index"
  "lua_set_index demo_host = (\<lambda>w t k v. case (t, k) of
        (DTable i, DString n) \<Rightarrow> Some (w\<lparr>tables := (tables w)[i := (n, v) # tables w ! i]\<rparr>)
      | _ \<Rightarrow> None)"
  "lua_new_table demo_host = (\<lambda>w. (DTable (length (tables w)), w\<lparr>tables := tables w @ [[]]\<rparr>))"
  "lua_metatable demo_host = (\<lambda>w v. Some DNil)"
  "lua_call demo_host = demo_call"
  by (simp_all add: demo_host_def)

lemmas demo_defs = demo_get_def demo_set_def demo_index_def demo_call_def

definition demo_start :: demo where
  "demo_start = \<lparr>objects = [], thrown = [], game_log = [], tables = []\<rparr>"

end
