(* ===== verification/HostVec.thy ===== *)
theory HostVec
  imports HostDemo
begin

text \<open>
  The vector functions of \<open>js.cpp\<close>, which scripts reach as \<open>Vector.Add\<close> and so on. They use
  JavaScript values only; the Lua stack is passed through, so that they have the type all
  bindings have. \<open>argc\<close> is the number of arguments of the call, \<open>argv\<close> the array QuickJS passes
  (\<open>call_c_function\<close>).
\<close>

section \<open>Calling a C function from a script\<close>

type_synonym ('f, 'w, 'v) binding =
  "nat \<Rightarrow> 'f JSValue list \<Rightarrow> ('w, 'v) lua \<Rightarrow> ('f JSValue \<times> ('w, 'v) lua) res"

text \<open>
  \<open>js_call_c_function\<close> extends the arguments to the length given to \<open>JS_NewCFunction\<close>, which is
  1 for every function \<open>js.cpp\<close> registers. \<open>argc\<close> stays the number of arguments.
\<close>

definition call_c_function ::
  "('f, 'w, 'v) binding \<Rightarrow> 'f JSValue list \<Rightarrow> ('w, 'v) lua \<Rightarrow> ('f JSValue \<times> ('w, 'v) lua) res" where
  "call_c_function f argv s =
     (let arg_count = 1;
          arg_buf = (if length argv < arg_count
                     then argv @ replicate (arg_count - length argv) JS_UNDEFINED else argv)
      in f (length argv) arg_buf s)"

definition JS_ThrowTypeError ::
  "('f, 'w, 'v) host \<Rightarrow> ('w, 'v) lua \<Rightarrow> string \<Rightarrow> ('f JSValue \<times> ('w, 'v) lua) res" where
  "JS_ThrowTypeError H s msg = Inr (JS_EXCEPTION, (js_throw H (fst s) ''TypeError'' msg, snd s))"

section \<open>Reading and making objects with numeric properties\<close>

text \<open>\<open>JS_GetPropertyStr\<close> for three names in turn.\<close>

definition get_three ::
  "('f, 'w, 'v) host \<Rightarrow> string \<times> string \<times> string \<Rightarrow> 'w \<Rightarrow> 'f JSValue
     \<Rightarrow> ('f JSValue \<times> 'f JSValue \<times> 'f JSValue) \<times> 'w" where
  "get_three H ks w v =
     (let (k1, k2, k3) = ks; (x, w) = js_get H w v k1; (y, w) = js_get H w v k2;
          (z, w) = js_get H w v k3
      in ((x, y, z), w))"

abbreviation "get_xyz H \<equiv> get_three H (''x'', ''y'', ''z'')"

fun all_numbers :: "'f JSValue \<times> 'f JSValue \<times> 'f JSValue \<Rightarrow> bool" where
  "all_numbers (x, y, z) \<longleftrightarrow> JS_IsNumber x \<and> JS_IsNumber y \<and> JS_IsNumber z"

fun to_floats ::
  "('f, 'w, 'v) host \<Rightarrow> 'w \<Rightarrow> 'f JSValue \<times> 'f JSValue \<times> 'f JSValue \<Rightarrow> ('f \<times> 'f \<times> 'f) \<times> 'w" where
  "to_floats H w (vx, vy, vz) =
     (let (x, w) = JS_ToFloat64 H w vx; (y, w) = JS_ToFloat64 H w vy; (z, w) = JS_ToFloat64 H w vz
      in ((x, y, z), w))"

text \<open>\<open>JS_NewObject\<close> followed by \<open>JS_SetPropertyStr\<close> with \<open>JS_NewFloat64\<close> for each component.\<close>

definition new_object3 ::
  "('f, 'w, 'v) host \<Rightarrow> string \<times> string \<times> string \<Rightarrow> 'w \<Rightarrow> 'f \<times> 'f \<times> 'f \<Rightarrow> 'f JSValue \<times> 'w" where
  "new_object3 H ks w ds =
     (let (v, w) = js_new_object H w; (k1, k2, k3) = ks; (a, b, c) = ds;
          w = js_set H w v k1 (JS_NewFloat64 H a);
          w = js_set H w v k2 (JS_NewFloat64 H b);
          w = js_set H w v k3 (JS_NewFloat64 H c)
      in (v, w))"

abbreviation "new_vector H \<equiv> new_object3 H (''x'', ''y'', ''z'')"

section \<open>The functions\<close>

text \<open>The second operand: a number stands for three equal components.\<close>

definition vec_operand ::
  "('f, 'w, 'v) host \<Rightarrow> 'w \<Rightarrow> 'f JSValue \<Rightarrow> string \<Rightarrow> (string + 'f \<times> 'f \<times> 'f) \<times> 'w" where
  "vec_operand H w b bad =
     (if \<not> JS_IsObject b then
        if \<not> JS_IsNumber b then (Inl bad, w)
        else let (x2, w) = JS_ToFloat64 H w b in (Inr (x2, x2, x2), w)
      else let (vs, w) = get_xyz H w b in
        if \<not> all_numbers vs then (Inl ''Second argument is not a valid vector'', w)
        else let (ds, w) = to_floats H w vs in (Inr ds, w))"

definition componentwise ::
  "('f \<Rightarrow> 'f \<Rightarrow> 'f) \<Rightarrow> 'f \<times> 'f \<times> 'f \<Rightarrow> 'f \<times> 'f \<times> 'f \<Rightarrow> 'f \<times> 'f \<times> 'f" where
  "componentwise f a b = (case a of (x, y, z) \<Rightarrow> case b of (x2, y2, z2) \<Rightarrow> (f x x2, f y y2, f z z2))"

text \<open>
  The common text of \<open>vector_add\<close>, \<open>vector_mul\<close>, \<open>vector_sub\<close>, \<open>vector_div\<close> and
  \<open>vector_pow\<close>, which differ in the operator.
\<close>

definition vec_binary :: "('f, 'w, 'v) host \<Rightarrow> ('f \<Rightarrow> 'f \<Rightarrow> 'f) \<Rightarrow> ('f, 'w, 'v) binding" where
  "vec_binary H f argc argv s =
     (if argc < 2 then JS_ThrowTypeError H s ''Expected (vector, vector or number)''
      else bnd (rd argv 0) (\<lambda>a.
        if \<not> JS_IsObject a then JS_ThrowTypeError H s ''First argument is not a valid vector''
        else let (w, st) = s; (vs, w) = get_xyz H w a in
          if \<not> all_numbers vs
          then JS_ThrowTypeError H (w, st) ''First argument is not a valid vector''
          else bnd (rd argv 1) (\<lambda>b.
            case vec_operand H w b ''Second argument is not a valid number'' of
              (Inl msg, w) \<Rightarrow> JS_ThrowTypeError H (w, st) msg
            | (Inr ds2, w) \<Rightarrow>
                let (ds, w) = to_floats H w vs; (v, w) = new_vector H w (componentwise f ds ds2)
                in Inr (v, (w, st)))))"

definition vector_add :: "('f, 'w, 'v) host \<Rightarrow> ('f, 'w, 'v) binding" where
  "vector_add H = vec_binary H (f_add H)"

definition vector_mul :: "('f, 'w, 'v) host \<Rightarrow> ('f, 'w, 'v) binding" where
  "vector_mul H = vec_binary H (f_mul H)"

definition vector_sub :: "('f, 'w, 'v) host \<Rightarrow> ('f, 'w, 'v) binding" where
  "vector_sub H = vec_binary H (f_sub H)"

definition vector_div :: "('f, 'w, 'v) host \<Rightarrow> ('f, 'w, 'v) binding" where
  "vector_div H = vec_binary H (f_div H)"

definition vector_pow :: "('f, 'w, 'v) host \<Rightarrow> ('f, 'w, 'v) binding" where
  "vector_pow H = vec_binary H (f_pow H)"

text \<open>\<open>vector_mod\<close> tests its second argument where the others test the first.\<close>

definition vector_mod :: "('f, 'w, 'v) host \<Rightarrow> ('f, 'w, 'v) binding" where
  "vector_mod H argc argv s =
     (if argc < 2 then JS_ThrowTypeError H s ''Expected (vector, vector or number)''
      else bnd (rd argv 1) (\<lambda>b.
        if \<not> JS_IsObject b then JS_ThrowTypeError H s ''Second argument is not a valid vector''
        else bnd (rd argv 0) (\<lambda>a. let (w, st) = s; (vs, w) = get_xyz H w a in
          if \<not> all_numbers vs
          then JS_ThrowTypeError H (w, st) ''Second argument is not a valid vector''
          else case vec_operand H w b ''Second argument is not a valid vecto'' of
              (Inl msg, w) \<Rightarrow> JS_ThrowTypeError H (w, st) msg
            | (Inr ds2, w) \<Rightarrow>
                let (ds, w) = to_floats H w vs; (v, w) = new_vector H w (componentwise (f_mod H) ds ds2)
                in Inr (v, (w, st)))))"

definition square_distance ::
  "('f, 'w, 'v) host \<Rightarrow> 'f \<times> 'f \<times> 'f \<Rightarrow> 'f \<times> 'f \<times> 'f \<Rightarrow> 'f" where
  "square_distance H a b =
     (case a of (x, y, z) \<Rightarrow> case b of (x2, y2, z2) \<Rightarrow>
        f_add H (f_add H (f_mul H (f_sub H x2 x) (f_sub H x2 x))
                         (f_mul H (f_sub H y2 y) (f_sub H y2 y)))
                (f_mul H (f_sub H z2 z) (f_sub H z2 z)))"

text \<open>The common text of \<open>vector_distance\<close> and \<open>vector_distance2\<close>.\<close>

definition vec_measure ::
  "('f, 'w, 'v) host \<Rightarrow> ('f \<times> 'f \<times> 'f \<Rightarrow> 'f \<times> 'f \<times> 'f \<Rightarrow> 'f) \<Rightarrow> ('f, 'w, 'v) binding" where
  "vec_measure H f argc argv s =
     (if argc < 2 then JS_ThrowTypeError H s ''Expected (vector, vector)''
      else bnd (rd argv 0) (\<lambda>a.
        if \<not> JS_IsObject a then JS_ThrowTypeError H s ''First argument is not a valid vector''
        else let (w, st) = s; (vs, w) = get_xyz H w a in
          if \<not> all_numbers vs
          then JS_ThrowTypeError H (w, st) ''First argument is not a valid vector''
          else bnd (rd argv 1) (\<lambda>b.
            if \<not> JS_IsObject b
            then JS_ThrowTypeError H (w, st) ''Second argument is not a valid vector''
            else let (vs2, w) = get_xyz H w b in
              if \<not> all_numbers vs2
              then JS_ThrowTypeError H (w, st) ''Second argument is not a valid vector''
              else let (ds, w) = to_floats H w vs; (ds2, w) = to_floats H w vs2
                in Inr (JS_NewFloat64 H (f ds ds2), (w, st)))))"

definition vector_distance :: "('f, 'w, 'v) host \<Rightarrow> ('f, 'w, 'v) binding" where
  "vector_distance H = vec_measure H (\<lambda>a b. f_sqrt H (square_distance H a b))"

definition vector_distance2 :: "('f, 'w, 'v) host \<Rightarrow> ('f, 'w, 'v) binding" where
  "vector_distance2 H = vec_measure H (square_distance H)"

definition magnitude :: "('f, 'w, 'v) host \<Rightarrow> 'f \<times> 'f \<times> 'f \<Rightarrow> 'f" where
  "magnitude H a = (case a of (x, y, z) \<Rightarrow>
     f_sqrt H (f_add H (f_add H (f_mul H x x) (f_mul H y y)) (f_mul H z z)))"

text \<open>
  \<open>vector_magnitude\<close> and \<open>vector_normalize\<close> accept one argument and read the second.
\<close>

definition vec_second ::
  "('f, 'w, 'v) host \<Rightarrow> ('w \<Rightarrow> 'f \<times> 'f \<times> 'f \<Rightarrow> 'f JSValue \<times> 'w) \<Rightarrow> ('f, 'w, 'v) binding" where
  "vec_second H f argc argv s =
     (if argc < 1 then JS_ThrowTypeError H s ''Expected at least one argument''
      else bnd (rd argv 1) (\<lambda>a.
        if \<not> JS_IsObject a then JS_ThrowTypeError H s ''Second argument is not a valid vector''
        else let (w, st) = s; (vs, w) = get_xyz H w a in
          if \<not> all_numbers vs
          then JS_ThrowTypeError H (w, st) ''Second argument is not a valid vector''
          else let (ds, w) = to_floats H w vs; (v, w) = f w ds in Inr (v, (w, st))))"

definition vector_magnitude :: "('f, 'w, 'v) host \<Rightarrow> ('f, 'w, 'v) binding" where
  "vector_magnitude H = vec_second H (\<lambda>w ds. (JS_NewFloat64 H (magnitude H ds), w))"

definition vector_normalize :: "('f, 'w, 'v) host \<Rightarrow> ('f, 'w, 'v) binding" where
  "vector_normalize H = vec_second H (\<lambda>w ds.
     let m = magnitude H ds in new_vector H w (componentwise (f_div H) ds (m, m, m)))"

text \<open>The members of the global object \<open>Vector\<close>, as \<open>lua_create_context\<close> registers them.\<close>

definition vector_members :: "('f, 'w, 'v) host \<Rightarrow> (string \<times> ('f, 'w, 'v) binding) list" where
  "vector_members H =
     [(''Add'', vector_add H), (''Sub'', vector_sub H), (''Mul'', vector_mul H),
      (''Div'', vector_div H), (''Pow'', vector_pow H), (''Mod'', vector_mod H),
      (''Magnitude'', vector_magnitude H), (''Distance'', vector_distance H),
      (''Distance2'', vector_distance H), (''Normalize'', vector_distance2 H)]"

definition call_member ::
  "(string \<times> ('f, 'w, 'v) binding) list \<Rightarrow> string \<Rightarrow> 'f JSValue list \<Rightarrow> ('w, 'v) lua
     \<Rightarrow> ('f JSValue \<times> ('w, 'v) lua) res" where
  "call_member ms name argv s =
     (case map_of ms name of None \<Rightarrow> Inl Undef | Some f \<Rightarrow> call_c_function f argv s)"

section \<open>What the vector functions compute\<close>

text \<open>
  What is assumed of objects made by \<open>JS_NewObject\<close>: \<open>plain w v\<close> says that \<open>v\<close> is an object
  with ordinary data properties in the world \<open>w\<close>. A property that was set reads back; setting
  a property or making an object leaves every other plain object as it is.
\<close>

definition same_properties ::
  "('f, 'w, 'v) host \<Rightarrow> 'w \<Rightarrow> 'w \<Rightarrow> 'f JSValue \<Rightarrow> string \<Rightarrow> bool" where
  "same_properties H w w' u k \<longleftrightarrow> (\<forall>y. js_get H w u k = (y, w) \<longrightarrow> js_get H w' u k = (y, w'))"

definition ordinary_objects ::
  "('f, 'w, 'v) host \<Rightarrow> ('w \<Rightarrow> 'f JSValue \<Rightarrow> bool) \<Rightarrow> bool" where
  "ordinary_objects H plain \<longleftrightarrow>
     (\<forall>w v w'. js_new_object H w = (v, w') \<longrightarrow>
        JS_IsObject v \<and> plain w' v \<and>
        (\<forall>u. plain w u \<longrightarrow> u \<noteq> v \<and> plain w' u \<and> (\<forall>k. same_properties H w w' u k))) \<and>
     (\<forall>w v k x. plain w v \<longrightarrow>
        js_get H (js_set H w v k x) v k = (x, js_set H w v k x) \<and>
        (\<forall>u. plain w u \<longrightarrow> plain (js_set H w v k x) u \<and>
           (\<forall>k'. u \<noteq> v \<or> k' \<noteq> k \<longrightarrow> same_properties H w (js_set H w v k x) u k')))"

definition numeric_property ::
  "('f, 'w, 'v) host \<Rightarrow> 'w \<Rightarrow> 'f JSValue \<Rightarrow> string \<Rightarrow> 'f \<Rightarrow> bool" where
  "numeric_property H w v k d \<longleftrightarrow> (\<exists>x. js_get H w v k = (x, w) \<and> number_of H x = Some d)"

text \<open>\<open>v\<close> is an object a script can use as the vector \<open>(x, y, z)\<close>.\<close>

definition is_vector ::
  "('f, 'w, 'v) host \<Rightarrow> ('w \<Rightarrow> 'f JSValue \<Rightarrow> bool) \<Rightarrow> 'w \<Rightarrow> 'f JSValue \<Rightarrow> 'f \<times> 'f \<times> 'f \<Rightarrow> bool" where
  "is_vector H plain w v ds \<longleftrightarrow>
     (case ds of (x, y, z) \<Rightarrow>
        JS_IsObject v \<and> plain w v \<and> numeric_property H w v ''x'' x \<and>
        numeric_property H w v ''y'' y \<and> numeric_property H w v ''z'' z)"

lemma set_property:
  assumes "ordinary_objects H plain" and "plain w v" and "int_doubles H"
  shows "numeric_property H (js_set H w v k (JS_NewFloat64 H d)) v k d"
  using assms by (auto simp: ordinary_objects_def numeric_property_def)

lemma set_keeps:
  assumes "ordinary_objects H plain" and "plain w v" and "plain w u"
  shows "plain (js_set H w v k x) u"
  using assms by (auto simp: ordinary_objects_def)

lemma set_keeps_property:
  assumes "ordinary_objects H plain" and "plain w v" and "plain w u"
    and "numeric_property H w u k' d" and "u \<noteq> v \<or> k' \<noteq> k"
  shows "numeric_property H (js_set H w v k x) u k' d"
  using assms by (auto simp: ordinary_objects_def same_properties_def numeric_property_def)

lemma new_keeps_property:
  assumes "ordinary_objects H plain" and "js_new_object H w = (v, w')" and "plain w u"
    and "numeric_property H w u k d"
  shows "numeric_property H w' u k d"
  using assms by (auto simp: ordinary_objects_def same_properties_def numeric_property_def)

lemma new_object_plain:
  assumes "ordinary_objects H plain" and "js_new_object H w = (v, w')"
  shows "JS_IsObject v" and "plain w' v" and "plain w u \<Longrightarrow> plain w' u" and "plain w u \<Longrightarrow> u \<noteq> v"
  using assms by (auto simp: ordinary_objects_def)

lemma new_vector_is_vector:
  assumes H: "ordinary_objects H plain" "int_doubles H"
    and new: "new_vector H w ds = (v, w')"
  shows "is_vector H plain w' v ds" and "is_vector H plain w u es \<Longrightarrow> is_vector H plain w' u es"
proof -
  obtain a b c where ds: "ds = (a, b, c)" by (cases ds)
  obtain w1 where w1: "js_new_object H w = (v, w1)"
    using new by (auto simp: new_object3_def ds Let_def split: prod.splits)
  define w2 where "w2 = js_set H w1 v ''x'' (JS_NewFloat64 H a)"
  define w3 where "w3 = js_set H w2 v ''y'' (JS_NewFloat64 H b)"
  have w': "w' = js_set H w3 v ''z'' (JS_NewFloat64 H c)"
    using new by (simp add: new_object3_def ds w1 w2_def w3_def)
  note plain1 = new_object_plain [OF H(1) w1]
  have p: "plain w2 v" "plain w3 v" "plain w' v"
    by (auto simp: w2_def w3_def w' intro!: set_keeps [OF H(1)] plain1)
  note keep = set_keeps_property [OF H(1)] and set = set_property [OF H(1) _ H(2)]
  have "numeric_property H w' v ''x'' a"
    unfolding w' by (rule keep) (use p in \<open>auto simp: w3_def w2_def intro!: keep set plain1\<close>)
  moreover have "numeric_property H w' v ''y'' b"
    unfolding w' by (rule keep) (use p in \<open>auto simp: w3_def intro!: set\<close>)
  moreover have "numeric_property H w' v ''z'' c"
    unfolding w' using p by (intro set)
  ultimately show "is_vector H plain w' v ds"
    using plain1(1) p by (simp add: is_vector_def ds)
  assume u: "is_vector H plain w u es"
  obtain x y z where es: "es = (x, y, z)" by (cases es)
  have pu: "plain w u" and ne: "u \<noteq> v" and pu1: "plain w1 u"
    using u plain1(3,4) by (auto simp: is_vector_def es)
  have pu2: "plain w2 u" "plain w3 u" "plain w' u"
    using pu1 p plain1 by (auto simp: w2_def w3_def w' intro!: set_keeps [OF H(1)])
  have "numeric_property H w' u k d" if "numeric_property H w u k d" for k d
  proof -
    have "numeric_property H w1 u k d" by (rule new_keeps_property [OF H(1) w1 pu that])
    then have "numeric_property H w2 u k d"
      unfolding w2_def using ne pu1 plain1 by (intro keep) auto
    then have "numeric_property H w3 u k d"
      unfolding w3_def using ne pu2 p by (intro keep) auto
    then show ?thesis
      unfolding w' using ne pu2 p by (intro keep) auto
  qed
  then show "is_vector H plain w' u es"
    using u pu2 by (simp add: is_vector_def es)
qed

lemma numeric_property_get:
  assumes "numeric_property H w v k d"
  obtains x where "js_get H w v k = (x, w)" and "JS_IsNumber x"
    and "\<forall>w'. JS_ToFloat64 H w' x = (d, w')"
  using assms by (auto simp: numeric_property_def dest: number_of_IsNumber ToFloat64_number)

lemma is_vector_reads:
  assumes "is_vector H plain w v ds"
  obtains vs where "get_xyz H w v = (vs, w)" and "all_numbers vs"
    and "\<forall>w'. to_floats H w' vs = (ds, w')" and "JS_IsObject v"
proof -
  obtain x y z where ds: "ds = (x, y, z)" by (cases ds)
  have p: "numeric_property H w v ''x'' x" "numeric_property H w v ''y'' y"
    "numeric_property H w v ''z'' z" and o: "JS_IsObject v"
    using assms by (auto simp: is_vector_def ds)
  obtain a where a: "js_get H w v ''x'' = (a, w)" "JS_IsNumber a"
    "\<forall>w'. JS_ToFloat64 H w' a = (x, w')"
    using p(1) by (elim numeric_property_get) blast
  obtain b where b: "js_get H w v ''y'' = (b, w)" "JS_IsNumber b"
    "\<forall>w'. JS_ToFloat64 H w' b = (y, w')"
    using p(2) by (elim numeric_property_get) blast
  obtain c where c: "js_get H w v ''z'' = (c, w)" "JS_IsNumber c"
    "\<forall>w'. JS_ToFloat64 H w' c = (z, w')"
    using p(3) by (elim numeric_property_get) blast
  show ?thesis
    by (rule that [of "(a, b, c)"]) (simp_all add: get_three_def ds a b c o)
qed

lemma vec_operand_cases:
  assumes "is_vector H plain w b ds2 \<or>
           (\<not> JS_IsObject b \<and> (\<exists>d. number_of H b = Some d \<and> ds2 = (d, d, d)))"
  shows "vec_operand H w b bad = (Inr ds2, w)"
  using assms
proof
  assume b: "is_vector H plain w b ds2"
  then obtain vs where "get_xyz H w b = (vs, w)" "all_numbers vs"
    "\<forall>w'. to_floats H w' vs = (ds2, w')" "JS_IsObject b" by (rule is_vector_reads)
  then show ?thesis by (simp add: vec_operand_def)
next
  assume "\<not> JS_IsObject b \<and> (\<exists>d. number_of H b = Some d \<and> ds2 = (d, d, d))"
  then show ?thesis by (auto simp: vec_operand_def number_of_IsNumber ToFloat64_number)
qed

lemma call_c_function_two [simp]: "call_c_function f [a, b] s = f 2 [a, b] s"
  by (simp add: call_c_function_def numeral_2_eq_2)

lemma vec_binary_computes:
  assumes H: "ordinary_objects H plain" "int_doubles H"
    and a: "is_vector H plain w a ds"
    and b: "is_vector H plain w b ds2 \<or>
            (\<not> JS_IsObject b \<and> (\<exists>d. number_of H b = Some d \<and> ds2 = (d, d, d)))"
  shows "\<exists>v w'. vec_binary H f 2 [a, b] (w, st) = Inr (v, (w', st)) \<and>
                is_vector H plain w' v (componentwise f ds ds2) \<and> is_vector H plain w' a ds"
proof -
  obtain vs where vs: "get_xyz H w a = (vs, w)" "all_numbers vs"
    "\<forall>w'. to_floats H w' vs = (ds, w')" "JS_IsObject a" using a by (rule is_vector_reads)
  obtain v w' where new: "new_vector H w (componentwise f ds ds2) = (v, w')" by fastforce
  have "vec_binary H f 2 [a, b] (w, st) = Inr (v, (w', st))"
    by (simp add: vec_binary_def vs vec_operand_cases [OF b] new)
  then show ?thesis
    using new_vector_is_vector [OF H new] a by blast
qed

lemma vector_member:
  "map_of (vector_members H) ''Add'' = Some (vector_add H)"
  "map_of (vector_members H) ''Sub'' = Some (vector_sub H)"
  "map_of (vector_members H) ''Mul'' = Some (vector_mul H)"
  "map_of (vector_members H) ''Div'' = Some (vector_div H)"
  "map_of (vector_members H) ''Pow'' = Some (vector_pow H)"
  "map_of (vector_members H) ''Mod'' = Some (vector_mod H)"
  "map_of (vector_members H) ''Magnitude'' = Some (vector_magnitude H)"
  "map_of (vector_members H) ''Distance'' = Some (vector_distance H)"
  "map_of (vector_members H) ''Distance2'' = Some (vector_distance H)"
  "map_of (vector_members H) ''Normalize'' = Some (vector_distance2 H)"
  by (simp_all add: vector_members_def)


definition demo_plain :: "demo \<Rightarrow> int JSValue \<Rightarrow> bool" where
  "demo_plain w v \<longleftrightarrow> (\<exists>i < length (objects w). v = JS_OBJECT i)"

lemma demo_ordinary: "ordinary_objects demo_host demo_plain"
  by (auto simp: ordinary_objects_def demo_defs demo_plain_def same_properties_def nth_append
      nth_list_update split: if_splits option.splits)

lemma demo_int_doubles: "int_doubles demo_host"
  by (auto simp: int_doubles_def demo_defs split: if_splits)

definition demo_vectors :: demo where
  "demo_vectors = demo_start\<lparr>objects := [[(''x'', JS_INT 1), (''y'', JS_INT 2), (''z'', JS_INT 3)]]\<rparr>"

lemma demo_is_vector: "is_vector demo_host demo_plain demo_vectors (JS_OBJECT 0) (1, 2, 3)"
  by (simp add: is_vector_def numeric_property_def demo_plain_def demo_vectors_def demo_defs)


section \<open>Arguments\<close>

text \<open>
  An argument is read only after the number of arguments has been tested, whatever the script
  passes.
\<close>

definition no_fault :: "'a res \<Rightarrow> bool" where
  "no_fault r \<longleftrightarrow> r \<noteq> Inl Undef"

lemma no_fault_bnd: "no_fault r \<Longrightarrow> (\<And>x. no_fault (f x)) \<Longrightarrow> no_fault (bnd r f)"
  by (cases r) (auto simp: no_fault_def)

lemma no_fault_basic [simp]:
  "no_fault (Inr x)" "no_fault (JS_ThrowTypeError H s msg)" "i < length xs \<Longrightarrow> no_fault (rd xs i)"
  by (simp_all add: no_fault_def JS_ThrowTypeError_def)

lemma no_fault_rd:
  "\<not> argc < n \<Longrightarrow> argc \<le> length xs \<Longrightarrow> i < n \<Longrightarrow> no_fault (rd xs i)"
  by (simp add: no_fault_def)

lemma vec_binary_no_fault: "argc \<le> length argv \<Longrightarrow> no_fault (vec_binary H f argc argv s)"
  using no_fault_rd [of argc 2 argv 0] no_fault_rd [of argc 2 argv 1] unfolding vec_binary_def
  by (auto simp: Let_def split: prod.split sum.split intro!: no_fault_bnd)

lemma vec_measure_no_fault: "argc \<le> length argv \<Longrightarrow> no_fault (vec_measure H f argc argv s)"
  using no_fault_rd [of argc 2 argv 0] no_fault_rd [of argc 2 argv 1] unfolding vec_measure_def
  by (auto simp: Let_def split: prod.split sum.split intro!: no_fault_bnd)

lemma vector_mod_no_fault: "argc \<le> length argv \<Longrightarrow> no_fault (vector_mod H argc argv s)"
  using no_fault_rd [of argc 2 argv 0] no_fault_rd [of argc 2 argv 1] unfolding vector_mod_def
  by (auto simp: Let_def split: prod.split sum.split intro!: no_fault_bnd)

lemma call_c_function_no_fault:
  assumes "\<And>argv. length args \<le> length argv \<Longrightarrow> no_fault (f (length args) argv s)"
  shows "no_fault (call_c_function f args s)"
  using assms [of "args @ replicate (1 - length args) JS_UNDEFINED"] assms [of args]
  by (simp only: call_c_function_def Let_def length_append le_add1 le_refl split: if_split) simp

lemmas vec_defs = vector_add_def vector_sub_def vector_mul_def vector_div_def vector_pow_def
  vector_distance_def vector_distance2_def

text \<open>C13.
  A call of any member of \<open>Vector\<close> except \<open>Magnitude\<close> reads no argument the script did not
  pass, for every argument list; \<open>Magnitude\<close> called with its one documented argument reads
  the second, which lies outside the argument array.
\<close>
theorem vector_argument_bounds:
  "(\<forall>name \<in> set (map fst (vector_members H)) - {''Magnitude''}. \<forall>args s.
      call_member (vector_members H) name args s \<noteq> Inl Undef) \<and>
   (\<forall>a s. call_member (vector_members H) ''Magnitude'' [a] s = Inl Undef)"
proof
  have "no_fault (call_member (vector_members H) name args s)"
    if "name \<in> {''Add'', ''Sub'', ''Mul'', ''Div'', ''Pow'', ''Mod'', ''Distance'', ''Distance2'', ''Normalize''}"
    for name args s
    using that unfolding insert_iff empty_iff
    by (elim disjE FalseE)
       (simp_all only: call_member_def vector_member option.case vec_defs
         call_c_function_no_fault vec_binary_no_fault vec_measure_no_fault vector_mod_no_fault)
  then show "\<forall>name \<in> set (map fst (vector_members H)) - {''Magnitude''}. \<forall>args s.
      call_member (vector_members H) name args s \<noteq> Inl Undef"
    by (auto simp: vector_members_def no_fault_def)
  show "\<forall>a s. call_member (vector_members H) ''Magnitude'' [a] s = Inl Undef"
    by (simp add: call_member_def vector_member call_c_function_def vector_magnitude_def
        vec_second_def rd_def)
qed

lemma vector_argument_bounds_witness:
  "call_member (vector_members demo_host) ''Distance'' [] (demo_start, []) \<noteq> Inl Undef"
  using vector_argument_bounds [of demo_host, THEN conjunct1] by (simp add: vector_members_def)

text \<open>
  Two members are bound to the function of another: \<open>Vector.Distance2\<close>, documented as the
  squared distance, is the distance, and \<open>Vector.Normalize\<close>, documented to take one vector,
  measures the squared distance of two and rejects a call with one.
\<close>
theorem vector_members_misbound:
  "call_member (vector_members H) ''Distance2'' args s = call_member (vector_members H) ''Distance'' args s \<and>
   call_member (vector_members H) ''Normalize'' args s = call_c_function (vector_distance2 H) args s \<and>
   call_member (vector_members H) ''Normalize'' [a] s =
     JS_ThrowTypeError H s ''Expected (vector, vector)''"
  by (simp add: call_member_def vector_member call_c_function_def vector_distance2_def
      vec_measure_def)

lemma vector_mod_rejects_numbers:
  "call_member (vector_members H) ''Mod'' [a, JS_FLOAT64 d] s =
     JS_ThrowTypeError H s ''Second argument is not a valid vector''"
  by (simp add: call_member_def vector_member vector_mod_def)

end
