(* ===== verification/HostEntity.thy ===== *)
theory HostEntity
  imports HostVec
begin

text \<open>
  The entity functions of \<open>js.cpp\<close>, the members of the global object \<open>Entity\<close>: each looks up
  the game entity with a given index through the Lua function \<open>Entity\<close>, tests it with the
  method \<open>IsValid\<close> and calls a method of it, moving the values through the Lua stack. The
  operations on the stack are the calls of \<open>LUA_CH\<close>, in the order of the code.
\<close>

section \<open>Steps the functions share\<close>

text \<open>Test of the arguments of the functions with one argument, and the index it holds.\<close>

definition entity_argument ::
  "('f, 'w, 'v) host \<Rightarrow> nat \<Rightarrow> 'f JSValue list \<Rightarrow> ('w, 'v) lua
     \<Rightarrow> ('f \<Rightarrow> ('w, 'v) lua \<Rightarrow> ('f JSValue \<times> ('w, 'v) lua) res) \<Rightarrow> ('f JSValue \<times> ('w, 'v) lua) res" where
  "entity_argument H argc argv s k =
     (if argc < 1 then JS_ThrowTypeError H s ''Expected at least one argument''
      else bnd (rd argv 0) (\<lambda>a.
        if \<not> JS_IsNumber a then JS_ThrowTypeError H s ''Argument must be a number''
        else let (entityIndex, w) = JS_ToFloat64 H (fst s) a in k entityIndex (w, snd s)))"

text \<open>\<open>Entity(index)\<close>, with the global table left below it.\<close>

definition push_entity :: "'f \<Rightarrow> 'f lua_op list" where
  "push_entity entityIndex =
     [PushSpecial, GetField (- 1) ''Entity'', PushNumber entityIndex, Call 1 1]"

text \<open>\<open>v:name()\<close> for the value \<open>v\<close> on the top of the stack, which stays.\<close>

definition ask_top :: "string \<Rightarrow> 'f lua_op list" where
  "ask_top name = [GetField (- 1) name, Push (- 2), Call 1 1]"

text \<open>The value a binding returns after it has removed its values from the stack.\<close>

definition pop_return ::
  "('f, 'w, 'v) host \<Rightarrow> nat \<Rightarrow> 'f JSValue \<Rightarrow> ('w, 'v) lua \<Rightarrow> ('f JSValue \<times> ('w, 'v) lua) res" where
  "pop_return H n v s = bnd (lua_run H [Pop n] s) (\<lambda>s. Inr (v, s))"

definition pop_throw ::
  "('f, 'w, 'v) host \<Rightarrow> nat \<Rightarrow> string \<Rightarrow> ('w, 'v) lua \<Rightarrow> ('f JSValue \<times> ('w, 'v) lua) res" where
  "pop_throw H n msg s = bnd (lua_run H [Pop n] s) (\<lambda>s. JS_ThrowTypeError H s msg)"

text \<open>Run the operations, then continue or give up by the boolean on the top of the stack.\<close>

definition require ::
  "('f, 'w, 'v) host \<Rightarrow> 'f lua_op list \<Rightarrow> (('w, 'v) lua \<Rightarrow> 'a res) \<Rightarrow> ('w, 'v) lua
     \<Rightarrow> (('w, 'v) lua \<Rightarrow> 'a res) \<Rightarrow> 'a res" where
  "require H ops give_up s k =
     bnd (lua_run H ops s) (\<lambda>s. bnd (GetBool H s (- 1)) (\<lambda>ok. if \<not> ok then give_up s else k s))"

abbreviation "require_valid H entityIndex give_up s k \<equiv>
  require H (push_entity entityIndex @ ask_top ''IsValid'') give_up s k"

definition new_angle :: "('f, 'w, 'v) host \<Rightarrow> 'w \<Rightarrow> 'f \<times> 'f \<times> 'f \<Rightarrow> 'f JSValue \<times> 'w" where
  "new_angle H = new_object3 H (''pitch'', ''yaw'', ''roll'')"

section \<open>Queries\<close>

definition entity_get_name :: "('f, 'w, 'v) host \<Rightarrow> ('f, 'w, 'v) binding" where
  "entity_get_name H argc argv s = entity_argument H argc argv s (\<lambda>entityIndex s.
     require_valid H entityIndex (pop_throw H 3 ''Invalid entity'') s (\<lambda>s.
       bnd (lua_run H [GetField (- 2) ''GetName'', Push (- 3), Call 1 1] s) (\<lambda>s.
         bnd (GetString H s (- 1)) (\<lambda>entityName. pop_return H 4 (JS_STRING entityName) s))))"

definition entity_get_class :: "('f, 'w, 'v) host \<Rightarrow> ('f, 'w, 'v) binding" where
  "entity_get_class H argc argv s = entity_argument H argc argv s (\<lambda>entityIndex s.
     require_valid H entityIndex (pop_throw H 3 ''Invalid entity'') s (\<lambda>s.
       bnd (lua_run H [GetField (- 2) ''GetClass'', Push (- 3), Call 1 1] s) (\<lambda>s.
         bnd (GetString H s (- 1)) (\<lambda>entityClass. pop_return H 4 (JS_STRING entityClass) s))))"

definition entity_get_position :: "('f, 'w, 'v) host \<Rightarrow> ('f, 'w, 'v) binding" where
  "entity_get_position H argc argv s = entity_argument H argc argv s (\<lambda>entityIndex s.
     require_valid H entityIndex (pop_throw H 3 ''Invalid entity'') s (\<lambda>s.
       bnd (lua_run H [GetField (- 2) ''GetPos'', Push (- 3), Call 1 1] s) (\<lambda>s.
         bnd (GetVector H s (- 1)) (\<lambda>vec.
           let (JSvec, w) = new_vector H (fst s) vec in pop_return H 4 JSvec (w, snd s)))))"

definition entity_get_angles :: "('f, 'w, 'v) host \<Rightarrow> ('f, 'w, 'v) binding" where
  "entity_get_angles H argc argv s = entity_argument H argc argv s (\<lambda>entityIndex s.
     require_valid H entityIndex (pop_throw H 3 ''Invalid entity'') s (\<lambda>s.
       bnd (lua_run H [GetField (- 2) ''GetAngles'', Push (- 3), Call 1 1] s) (\<lambda>s.
         bnd (GetAngle H s (- 1)) (\<lambda>ang.
           let (JSang, w) = new_angle H (fst s) ang in pop_return H 4 JSang (w, snd s)))))"

definition entity_eye_angles :: "('f, 'w, 'v) host \<Rightarrow> ('f, 'w, 'v) binding" where
  "entity_eye_angles H argc argv s = entity_argument H argc argv s (\<lambda>entityIndex s.
     require_valid H entityIndex (pop_throw H 3 ''Invalid entity'') s (\<lambda>s.
       bnd (lua_run H [GetField (- 2) ''EyeAngles'', Push (- 3), Call 1 1] s) (\<lambda>s.
         bnd (GetAngle H s (- 1)) (\<lambda>ang.
           let (JSang, w) = new_angle H (fst s) ang in pop_return H 4 JSang (w, snd s)))))"

text \<open>One component of the color at \<open>i\<close>, read and stored into the new object.\<close>

definition copy_component ::
  "('f, 'w, 'v) host \<Rightarrow> 'f JSValue \<Rightarrow> int \<Rightarrow> string \<Rightarrow> ('w, 'v) lua \<Rightarrow> ('w, 'v) lua res" where
  "copy_component H JSang i k s =
     bnd (lua_run H [PushString k, GetTable i] s) (\<lambda>s.
       bnd (GetNumber H s (- 1)) (\<lambda>d. Inr (js_set H (fst s) JSang k (JS_NewFloat64 H d), snd s)))"

definition entity_get_color :: "('f, 'w, 'v) host \<Rightarrow> ('f, 'w, 'v) binding" where
  "entity_get_color H argc argv s = entity_argument H argc argv s (\<lambda>entityIndex s.
     require_valid H entityIndex (pop_throw H 3 ''Invalid entity'') s (\<lambda>s.
       let (JSang, w) = js_new_object H (fst s) in
       bnd (lua_run H [GetField (- 2) ''GetColor'', Push (- 3), Call 1 1] (w, snd s)) (\<lambda>s.
       bnd (copy_component H JSang (- 2) ''r'' s) (\<lambda>s.
       bnd (copy_component H JSang (- 3) ''g'' s) (\<lambda>s.
       bnd (copy_component H JSang (- 4) ''b'' s) (\<lambda>s.
       bnd (copy_component H JSang (- 5) ''a'' s) (\<lambda>s.
         pop_return H 8 JSang s)))))))"

definition entity_isvalid :: "('f, 'w, 'v) host \<Rightarrow> ('f, 'w, 'v) binding" where
  "entity_isvalid H argc argv s = entity_argument H argc argv s (\<lambda>entityIndex s.
     bnd (lua_run H (push_entity entityIndex @ ask_top ''IsValid'') s) (\<lambda>s.
       bnd (GetBool H s (- 1)) (\<lambda>IsValid. pop_return H 3 (JS_NewBool IsValid) s)))"

definition entity_isplayer :: "('f, 'w, 'v) host \<Rightarrow> ('f, 'w, 'v) binding" where
  "entity_isplayer H argc argv s = entity_argument H argc argv s (\<lambda>entityIndex s.
     bnd (lua_run H (push_entity entityIndex @ ask_top ''IsPlayer'') s) (\<lambda>s.
       bnd (GetBool H s (- 1)) (\<lambda>IsPlayer. pop_return H 3 (JS_NewBool IsPlayer) s)))"

definition entity_isnpc :: "('f, 'w, 'v) host \<Rightarrow> ('f, 'w, 'v) binding" where
  "entity_isnpc H argc argv s = entity_argument H argc argv s (\<lambda>entityIndex s.
     bnd (lua_run H (push_entity entityIndex @ ask_top ''IsNPC'') s) (\<lambda>s.
       bnd (GetBool H s (- 1)) (\<lambda>IsNPC. pop_return H 3 (JS_NewBool IsNPC) s)))"

definition entity_isworld :: "('f, 'w, 'v) host \<Rightarrow> ('f, 'w, 'v) binding" where
  "entity_isworld H argc argv s = entity_argument H argc argv s (\<lambda>entityIndex s.
     bnd (lua_run H (push_entity entityIndex @ ask_top ''IsWorld'') s) (\<lambda>s.
       bnd (GetBool H s (- 1)) (\<lambda>IsWorld. pop_return H 3 (JS_NewBool IsWorld) s)))"

section \<open>Queries of players\<close>

text \<open>
  The test for a player that follows the test \<open>IsValid\<close>; when it fails the code removes three
  of the four values it pushed.
\<close>

definition require_player ::
  "('f, 'w, 'v) host \<Rightarrow> string \<Rightarrow> ('w, 'v) lua
     \<Rightarrow> (('w, 'v) lua \<Rightarrow> ('f JSValue \<times> ('w, 'v) lua) res) \<Rightarrow> ('f JSValue \<times> ('w, 'v) lua) res" where
  "require_player H msg s k =
     require H [GetField (- 2) ''IsPlayer'', Push (- 3), Call 1 1] (pop_throw H 3 msg) s k"

definition entity_crouching :: "('f, 'w, 'v) host \<Rightarrow> ('f, 'w, 'v) binding" where
  "entity_crouching H argc argv s = entity_argument H argc argv s (\<lambda>entityIndex s.
     require_valid H entityIndex (pop_throw H 3 ''Invalid entity'') s (\<lambda>s.
     require_player H ''Invalid playerr'' s (\<lambda>s.
       bnd (lua_run H [GetField (- 3) ''Crouching'', Push (- 4), Call 1 1] s) (\<lambda>s.
         bnd (GetBool H s (- 1)) (\<lambda>IsCrouching. pop_return H 5 (JS_NewBool IsCrouching) s)))))"

definition entity_team :: "('f, 'w, 'v) host \<Rightarrow> ('f, 'w, 'v) binding" where
  "entity_team H argc argv s = entity_argument H argc argv s (\<lambda>entityIndex s.
     require_valid H entityIndex (pop_throw H 3 ''Invalid entity'') s (\<lambda>s.
     require_player H ''Invalid player'' s (\<lambda>s.
       bnd (lua_run H [GetField (- 3) ''Team'', Push (- 4), Call 1 1] s) (\<lambda>s.
         bnd (GetNumber H s (- 1)) (\<lambda>team. pop_return H 5 (JS_NewFloat64 H team) s)))))"

definition entity_frags :: "('f, 'w, 'v) host \<Rightarrow> ('f, 'w, 'v) binding" where
  "entity_frags H argc argv s = entity_argument H argc argv s (\<lambda>entityIndex s.
     require_valid H entityIndex (pop_throw H 3 ''Invalid entity'') s (\<lambda>s.
     require_player H ''Invalid player'' s (\<lambda>s.
       bnd (lua_run H [GetField (- 3) ''Frags'', Push (- 4), Call 1 1] s) (\<lambda>s.
         bnd (GetNumber H s (- 1)) (\<lambda>frags. pop_return H 5 (JS_NewFloat64 H frags) s)))))"

definition entity_steamid :: "('f, 'w, 'v) host \<Rightarrow> ('f, 'w, 'v) binding" where
  "entity_steamid H argc argv s = entity_argument H argc argv s (\<lambda>entityIndex s.
     require_valid H entityIndex (pop_throw H 3 ''Invalid entity'') s (\<lambda>s.
     require_player H ''Invalid player'' s (\<lambda>s.
       bnd (lua_run H [GetField (- 3) ''SteamID'', Push (- 4), Call 1 1] s) (\<lambda>s.
         bnd (GetString H s (- 1)) (\<lambda>steamID. pop_return H 5 (JS_STRING steamID) s)))))"

definition entity_steamid64 :: "('f, 'w, 'v) host \<Rightarrow> ('f, 'w, 'v) binding" where
  "entity_steamid64 H argc argv s = entity_argument H argc argv s (\<lambda>entityIndex s.
     require_valid H entityIndex (pop_throw H 3 ''Invalid entity'') s (\<lambda>s.
     require_player H ''Invalid player'' s (\<lambda>s.
       bnd (lua_run H [GetField (- 3) ''SteamID64'', Push (- 4), Call 1 1] s) (\<lambda>s.
         bnd (GetString H s (- 1)) (\<lambda>steamID. pop_return H 5 (JS_STRING steamID) s)))))"

definition entity_accountid :: "('f, 'w, 'v) host \<Rightarrow> ('f, 'w, 'v) binding" where
  "entity_accountid H argc argv s = entity_argument H argc argv s (\<lambda>entityIndex s.
     require_valid H entityIndex (pop_throw H 3 ''Invalid entity'') s (\<lambda>s.
     require_player H ''Invalid player'' s (\<lambda>s.
       bnd (lua_run H [GetField (- 3) ''AccountID'', Push (- 4), Call 1 1] s) (\<lambda>s.
         bnd (GetString H s (- 1)) (\<lambda>accountID. pop_return H 5 (JS_STRING accountID) s)))))"

section \<open>Queries of physics objects\<close>

text \<open>\<open>GetPhysicsObject\<close> of the entity and the test of the object it returns.\<close>

definition ask_physics :: "'f lua_op list" where
  "ask_physics = [GetField (- 2) ''GetPhysicsObject'', Push (- 3), Call 1 1] @ ask_top ''IsValid''"

definition entity_isvalid_physics :: "('f, 'w, 'v) host \<Rightarrow> ('f, 'w, 'v) binding" where
  "entity_isvalid_physics H argc argv s = entity_argument H argc argv s (\<lambda>entityIndex s.
     require_valid H entityIndex (pop_throw H 3 ''Invalid entity'') s (\<lambda>s.
       bnd (lua_run H ask_physics s) (\<lambda>s.
         bnd (GetBool H s (- 1)) (\<lambda>IsValid. pop_return H 3 (JS_NewBool IsValid) s))))"

definition entity_get_masscenter :: "('f, 'w, 'v) host \<Rightarrow> ('f, 'w, 'v) binding" where
  "entity_get_masscenter H argc argv s = entity_argument H argc argv s (\<lambda>entityIndex s.
     require_valid H entityIndex (pop_return H 3 (JS_NewBool False)) s (\<lambda>s.
     require H ask_physics (pop_throw H 5 ''Invalid physics object'') s (\<lambda>s.
       bnd (lua_run H [GetField (- 2) ''GetMassCenter'', Push (- 3), Call 1 1] s) (\<lambda>s.
         bnd (GetVector H s (- 1)) (\<lambda>vec.
           let (JSvec, w) = new_vector H (fst s) vec in pop_return H 6 JSvec (w, snd s))))))"

definition entity_get_mass :: "('f, 'w, 'v) host \<Rightarrow> ('f, 'w, 'v) binding" where
  "entity_get_mass H argc argv s = entity_argument H argc argv s (\<lambda>entityIndex s.
     require_valid H entityIndex (pop_return H 3 (JS_NewBool False)) s (\<lambda>s.
     require H ask_physics (pop_throw H 5 ''Invalid physics object'') s (\<lambda>s.
       bnd (lua_run H [GetField (- 2) ''GetMass'', Push (- 3), Call 1 1] s) (\<lambda>s.
         bnd (GetNumber H s (- 1)) (\<lambda>mass. pop_return H 6 (JS_NewFloat64 H mass) s)))))"

section \<open>Commands\<close>

text \<open>
  The tests of the functions that take an entity and an object with three numbers; \<open>check\<close> says
  whether the second argument is tested to be an object.
\<close>

definition entity_and_object ::
  "('f, 'w, 'v) host \<Rightarrow> string \<Rightarrow> string \<Rightarrow> bool \<Rightarrow> string \<times> string \<times> string \<Rightarrow> string
     \<Rightarrow> nat \<Rightarrow> 'f JSValue list \<Rightarrow> ('w, 'v) lua
     \<Rightarrow> ('f \<Rightarrow> 'f \<times> 'f \<times> 'f \<Rightarrow> ('w, 'v) lua \<Rightarrow> ('f JSValue \<times> ('w, 'v) lua) res)
     \<Rightarrow> ('f JSValue \<times> ('w, 'v) lua) res" where
  "entity_and_object H usage no_number check keys bad argc argv s k =
     (if argc < 2 then JS_ThrowTypeError H s usage
      else bnd (rd argv 0) (\<lambda>e.
        if \<not> JS_IsNumber e then JS_ThrowTypeError H s no_number
        else bnd (rd argv 1) (\<lambda>v.
          if check \<and> \<not> JS_IsObject v
          then JS_ThrowTypeError H s ''Second argument is not a valid vector''
          else let (w, st) = s; (vs, w) = get_three H keys w v in
            if \<not> all_numbers vs then JS_ThrowTypeError H (w, st) bad
            else let (entityIndex, w) = JS_ToFloat64 H w e; (ds, w) = to_floats H w vs
              in k entityIndex ds (w, st))))"

text \<open>\<open>Vector(x, y, z)\<close> and \<open>Angle(x, y, z)\<close>, found in the global table at \<open>i\<close>.\<close>

definition make3 :: "int \<Rightarrow> string \<Rightarrow> 'f \<times> 'f \<times> 'f \<Rightarrow> 'f lua_op list" where
  "make3 i name ds =
     (case ds of (x, y, z) \<Rightarrow>
        [GetField i name, PushNumber x, PushNumber y, PushNumber z, Call 3 1])"

definition entity_set_position :: "('f, 'w, 'v) host \<Rightarrow> ('f, 'w, 'v) binding" where
  "entity_set_position H argc argv s =
     entity_and_object H ''Expected (entity, vector)'' ''Argument must be a number'' True
       (''x'', ''y'', ''z'') ''Second argument is not a valid vector'' argc argv s (\<lambda>entityIndex ds s.
     require_valid H entityIndex (pop_return H 3 (JS_NewBool False)) s (\<lambda>s.
       bnd (lua_run H (make3 (- 3) ''Vector'' ds @
              [GetField (- 3) ''SetPos'', Push (- 4), Push (- 3), Call 2 0]) s) (\<lambda>s.
         pop_return H 4 JS_UNDEFINED s)))"

definition entity_set_angles :: "('f, 'w, 'v) host \<Rightarrow> ('f, 'w, 'v) binding" where
  "entity_set_angles H argc argv s =
     entity_and_object H ''Expected (entity, angle)'' ''Argument must be a number'' True
       (''pitch'', ''yaw'', ''roll'') ''Second argument is not a valid angle'' argc argv s (\<lambda>entityIndex ds s.
     require_valid H entityIndex (pop_return H 3 (JS_NewBool False)) s (\<lambda>s.
       bnd (lua_run H (make3 (- 3) ''Angle'' ds @
              [GetField (- 3) ''SetAngles'', Push (- 4), Push (- 3), Call 2 0]) s) (\<lambda>s.
         pop_return H 4 JS_UNDEFINED s)))"

text \<open>A color has the property \<open>a\<close> as well, which may be missing.\<close>

definition entity_set_color :: "('f, 'w, 'v) host \<Rightarrow> ('f, 'w, 'v) binding" where
  "entity_set_color H argc argv s =
     (if argc < 2 then JS_ThrowTypeError H s ''Expected (entity, color)''
      else bnd (rd argv 0) (\<lambda>e.
        if \<not> JS_IsNumber e then JS_ThrowTypeError H s ''Argument must be a number''
        else bnd (rd argv 1) (\<lambda>v.
          if \<not> JS_IsObject v then JS_ThrowTypeError H s ''Second argument is not a valid vector''
          else let (w, st) = s; (vs, w) = get_three H (''r'', ''g'', ''b'') w v;
                   (JSa, w) = js_get H w v ''a'' in
            if \<not> all_numbers vs
            then JS_ThrowTypeError H (w, st) ''Second argument is not a valid color''
            else let (entityIndex, w) = JS_ToFloat64 H w e; ((r, g, b), w) = to_floats H w vs;
                     (a, w) = (if \<not> JS_IsNumber JSa then (of_int32 H 255, w) else JS_ToFloat64 H w JSa)
              in require_valid H entityIndex (pop_return H 3 (JS_NewBool False)) (w, st) (\<lambda>s.
                bnd (lua_run H [GetField (- 3) ''Color'', PushNumber r, PushNumber g, PushNumber b,
                       PushNumber a, Call 4 1,
                       GetField (- 3) ''SetColor'', Push (- 4), Push (- 3), Call 2 0] s) (\<lambda>s.
                  pop_return H 4 JS_UNDEFINED s)))))"

text \<open>\<open>owner_index\<close> is the number in \<open>contextData->ownerIndex\<close>.\<close>

definition entity_use :: "('f, 'w, 'v) host \<Rightarrow> 'f JSValue \<Rightarrow> ('f, 'w, 'v) binding" where
  "entity_use H owner_index argc argv s = entity_argument H argc argv s (\<lambda>entityIndex s.
     let (ownerIndex, w) = JS_ToFloat64 H (fst s) owner_index in
     require_valid H entityIndex (pop_throw H 3 ''Invalid entity'') (w, snd s) (\<lambda>s.
     require H ([GetField (- 3) ''Entity'', PushNumber ownerIndex, Call 1 1] @ ask_top ''IsValid'')
       (pop_throw H 5 ''Invalid entity'') s (\<lambda>s.
       bnd (lua_run H [GetField (- 4) ''Use'', Push (- 5), Push (- 4), Call 2 0] s) (\<lambda>s.
         pop_return H 5 JS_UNDEFINED s))))"

section \<open>Conversions between coordinates, forces\<close>

definition entity_local_to_world :: "('f, 'w, 'v) host \<Rightarrow> ('f, 'w, 'v) binding" where
  "entity_local_to_world H argc argv s =
     entity_and_object H ''Expected (entity, vector)'' ''Argument must be a number'' False
       (''x'', ''y'', ''z'') ''Second argument is not a valid vector'' argc argv s (\<lambda>entityIndex ds s.
     require_valid H entityIndex (pop_return H 3 (JS_NewBool False)) s (\<lambda>s.
       bnd (lua_run H (make3 (- 3) ''Vector'' ds @
              [GetField (- 3) ''LocalToWorld'', Push (- 4), Push (- 3), Call 2 1]) s) (\<lambda>s.
         bnd (GetVector H s (- 1)) (\<lambda>vec.
           let (JSvec, w) = new_vector H (fst s) vec in pop_return H 5 JSvec (w, snd s)))))"

definition entity_world_to_local :: "('f, 'w, 'v) host \<Rightarrow> ('f, 'w, 'v) binding" where
  "entity_world_to_local H argc argv s =
     entity_and_object H ''Expected (entity, vector)'' ''Argument must be a number'' False
       (''x'', ''y'', ''z'') ''Second argument is not a valid vector'' argc argv s (\<lambda>entityIndex ds s.
     require_valid H entityIndex (pop_return H 3 (JS_NewBool False)) s (\<lambda>s.
       bnd (lua_run H (make3 (- 3) ''Vector'' ds @
              [GetField (- 3) ''WorldToLocal'', Push (- 4), Push (- 3), Call 2 1]) s) (\<lambda>s.
         bnd (GetVector H s (- 1)) (\<lambda>vec.
           let (JSvec, w) = new_vector H (fst s) vec in pop_return H 5 JSvec (w, snd s)))))"

definition entity_applyforce_center :: "('f, 'w, 'v) host \<Rightarrow> ('f, 'w, 'v) binding" where
  "entity_applyforce_center H argc argv s =
     entity_and_object H ''Expected (entity, vector)'' ''First argument must be a number'' True
       (''x'', ''y'', ''z'') ''Second argument is not a valid vector'' argc argv s (\<lambda>entityIndex ds s.
     require_valid H entityIndex (pop_throw H 3 ''Invalid entity'') s (\<lambda>s.
     require H ask_physics (pop_throw H 5 ''Invalid physics object'') s (\<lambda>s.
       bnd (lua_run H (make3 (- 5) ''Vector'' ds @
              [GetField (- 3) ''ApplyForceCenter'', Push (- 4), Push (- 3), Call 2 0]) s) (\<lambda>s.
         pop_return H 6 JS_UNDEFINED s))))"

text \<open>
  \<open>entity_applyforce_offset\<close> declares \<open>x2\<close>, \<open>y2\<close> and \<open>z2\<close> but stores the components of the
  third argument into \<open>x\<close>, \<open>y\<close> and \<open>z\<close>: a variable that was never assigned has the value
  \<open>Inl Undef\<close>.
\<close>

definition push_locals ::
  "('f, 'w, 'v) host \<Rightarrow> 'f res list \<Rightarrow> ('w, 'v) lua \<Rightarrow> ('w, 'v) lua res" where
  "push_locals H xs s = fold (\<lambda>x r. bnd r (\<lambda>s. bnd x (\<lambda>d. lua_run H [PushNumber d] s))) xs (Inr s)"

definition entity_applyforce_offset :: "('f, 'w, 'v) host \<Rightarrow> ('f, 'w, 'v) binding" where
  "entity_applyforce_offset H argc argv s =
     (if argc < 3 then JS_ThrowTypeError H s ''Expected (entity, vector, vector)''
      else bnd (rd argv 0) (\<lambda>e.
        if \<not> JS_IsNumber e then JS_ThrowTypeError H s ''First argument must be a number''
        else bnd (rd argv 1) (\<lambda>v.
        if \<not> JS_IsObject v then JS_ThrowTypeError H s ''Second argument is not a valid vector''
        else bnd (rd argv 2) (\<lambda>v2.
        if \<not> JS_IsObject v2 then JS_ThrowTypeError H s ''Third argument is not a valid vector''
        else let (w, st) = s; (vs, w) = get_xyz H w v; (vs2, w) = get_xyz H w v2 in
          if \<not> all_numbers vs
          then JS_ThrowTypeError H (w, st) ''Second argument is not a valid vector''
          else if \<not> all_numbers vs2
          then JS_ThrowTypeError H (w, st) ''Third argument is not a valid vector''
          else let (entityIndex, w) = JS_ToFloat64 H w e; (ds, w) = to_floats H w vs;
                   ((x, y, z), w) = to_floats H w vs2;
                   (x2, y2, z2) = (Inl Undef, Inl Undef, Inl Undef)
            in require_valid H entityIndex (pop_throw H 3 ''Invalid entity'') (w, st) (\<lambda>s.
               require H ask_physics (pop_throw H 5 ''Invalid physics object'') s (\<lambda>s.
                 bnd (lua_run H (make3 (- 5) ''Vector'' (x, y, z)) s) (\<lambda>s.
                 bnd (lua_run H [GetField (- 6) ''Vector''] s) (\<lambda>s.
                 bnd (push_locals H [x2, y2, z2] s) (\<lambda>s.
                 bnd (lua_run H [Call 3 1, GetField (- 4) ''ApplyForceOffset'', Push (- 5), Push (- 4),
                        Push (- 4), Call 3 0] s) (\<lambda>s.
                   pop_return H 7 JS_UNDEFINED s))))))))))"

section \<open>The same operations without a stack\<close>

text \<open>
  What a call through the Lua stack amounts to: a function of the global table, or a method of
  a value, applied to values; the first result or nil.
\<close>

definition lua_apply ::
  "('f, 'w, 'v) host \<Rightarrow> 'v \<Rightarrow> string \<Rightarrow> 'v list \<Rightarrow> 'w \<Rightarrow> ('v \<times> 'w) res" where
  "lua_apply H t name args w =
     bnd (lua_error (lua_index H w t (lua_string H name))) (\<lambda>(f, w).
       bnd (lua_error (lua_call H w f args)) (\<lambda>(vs, w). Inr (hd (vs @ [lua_nil H]), w)))"

abbreviation "lua_function H \<equiv> lua_apply H (lua_glob H)"

abbreviation "lua_method H v name args \<equiv> lua_apply H v name (v # args)"

definition on_stack ::
  "'v list \<Rightarrow> ('f JSValue \<times> 'w) res \<Rightarrow> ('f JSValue \<times> ('w, 'v) lua) res" where
  "on_stack st r = bnd r (\<lambda>(v, w). Inr (v, (w, st)))"

lemma bnd_assoc [simp]: "bnd (bnd r f) g = bnd r (\<lambda>x. bnd (f x) g)"
  by (cases r) simp_all

lemma bnd_case_prod [simp]:
  "bnd (case p of (a, b) \<Rightarrow> f a b) g = (case p of (a, b) \<Rightarrow> bnd (f a b) g)"
  by (simp split: prod.split)

lemma bnd_if [simp]: "bnd (if c then r else r') f = (if c then bnd r f else bnd r' f)"
  by simp

lemma lua_run_append [simp]: "lua_run H (xs @ ys) s = bnd (lua_run H xs s) (lua_run H ys)"
  by (induction xs arbitrary: s) (simp_all add: bnd_def split: sum.split)

lemma first_result:
  "rev (take (Suc 0 - length vs) [n]) @ rev (take (Suc 0) vs) @ st = hd (vs @ [n]) # st"
  by (cases vs) simp_all

lemma run_entity [simp]:
  "lua_run H (push_entity i) (w, st) =
     bnd (lua_function H ''Entity'' [lua_number H i] w) (\<lambda>(e, w). Inr (w, e # lua_glob H # st))"
  by (simp add: push_entity_def lua_apply_def first_result)

lemma run_ask [simp]:
  "lua_run H (ask_top name) (w, v # st) =
     bnd (lua_method H v name [] w) (\<lambda>(r, w). Inr (w, r # v # st))"
  by (simp add: ask_top_def lua_apply_def first_result split_def)

lemma run_method2 [simp]:
  "lua_run H [GetField (- 2) name, Push (- 3), Call (Suc 0) (Suc 0)] (w, a # v # st) =
     bnd (lua_method H v name [] w) (\<lambda>(r, w). Inr (w, r # a # v # st))"
  by (simp add: lua_apply_def first_result split_def)

lemma run_method3 [simp]:
  "lua_run H [GetField (- 3) name, Push (- 4), Call (Suc 0) (Suc 0)] (w, a # b # v # st) =
     bnd (lua_method H v name [] w) (\<lambda>(r, w). Inr (w, r # a # b # v # st))"
  by (simp add: lua_apply_def first_result split_def)

declare lua_run.simps(2) [simp del]

lemma GetBool_top [simp]: "GetBool H (w, v # st) (- 1) = Inr (lua_to_bool H v)"
  by (simp add: GetBool_def)

lemma require_valid_step [simp]:
  "require_valid H i give_up (w, st) k =
     bnd (lua_function H ''Entity'' [lua_number H i] w) (\<lambda>(e, w).
       bnd (lua_method H e ''IsValid'' [] w) (\<lambda>(b, w).
         if \<not> lua_to_bool H b then give_up (w, b # e # lua_glob H # st)
         else k (w, b # e # lua_glob H # st)))"
  by (simp add: require_def)

lemma pop_return_step [simp]:
  "n \<le> length st \<Longrightarrow> pop_return H n v (w, st) = Inr (v, (w, drop n st))"
  by (simp add: pop_return_def lua_run.simps)

lemma pop_throw_step [simp]:
  "n \<le> length st \<Longrightarrow> pop_throw H n msg (w, st) = Inr (JS_EXCEPTION, (js_throw H w ''TypeError'' msg, drop n st))"
  by (simp add: pop_throw_def lua_run.simps JS_ThrowTypeError_def)

lemma entity_argument_number [simp]:
  "number_of H a = Some i \<Longrightarrow> call_c_function (\<lambda>argc argv s. entity_argument H argc argv s k) [a] (w, st) = k i (w, st)"
  by (simp add: call_c_function_def entity_argument_def number_of_IsNumber ToFloat64_number)

text \<open>
  A query that answers with the result of one method of a valid entity; \<open>answer\<close> makes a
  JavaScript value of it.
\<close>

definition entity_query ::
  "('f, 'w, 'v) host \<Rightarrow> string \<Rightarrow> ('v \<Rightarrow> 'w \<Rightarrow> ('f JSValue \<times> 'w) res) \<Rightarrow> 'f \<Rightarrow> 'w
     \<Rightarrow> ('f JSValue \<times> 'w) res" where
  "entity_query H name answer i w =
     bnd (lua_function H ''Entity'' [lua_number H i] w) (\<lambda>(e, w).
       bnd (lua_method H e ''IsValid'' [] w) (\<lambda>(b, w).
         if \<not> lua_to_bool H b then Inr (JS_EXCEPTION, js_throw H w ''TypeError'' ''Invalid entity'')
         else bnd (lua_method H e name [] w) (\<lambda>(r, w). answer r w)))"

definition string_answer :: "('f, 'w, 'v) host \<Rightarrow> 'v \<Rightarrow> 'w \<Rightarrow> ('f JSValue \<times> 'w) res" where
  "string_answer H r w = (case lua_to_string H r of None \<Rightarrow> Inl Undef | Some x \<Rightarrow> Inr (JS_STRING x, w))"

definition vector_answer :: "('f, 'w, 'v) host \<Rightarrow> 'v \<Rightarrow> 'w \<Rightarrow> ('f JSValue \<times> 'w) res" where
  "vector_answer H r w = Inr (new_vector H w (lua_to_vector H r))"

definition angle_answer :: "('f, 'w, 'v) host \<Rightarrow> 'v \<Rightarrow> 'w \<Rightarrow> ('f JSValue \<times> 'w) res" where
  "angle_answer H r w = Inr (new_angle H w (lua_to_angle H r))"

lemma on_stack_simps [simp]:
  "on_stack st (Inr p) = Inr (fst p, (snd p, st))"
  "on_stack st (Inl e) = Inl e"
  "on_stack st (bnd r f) = bnd r (\<lambda>x. on_stack st (f x))"
  "on_stack st (if c then r1 else r2) = (if c then on_stack st r1 else on_stack st r2)"
  "on_stack st (case p of (a, b) \<Rightarrow> g a b) = (case p of (a, b) \<Rightarrow> on_stack st (g a b))"
  by (simp_all add: on_stack_def split_def)

lemma case_option_out [simp]:
  "bnd (case r of None \<Rightarrow> Inl e | Some x \<Rightarrow> g x) f = (case r of None \<Rightarrow> Inl e | Some x \<Rightarrow> bnd (g x) f)"
  "on_stack st (case r of None \<Rightarrow> Inl e | Some x \<Rightarrow> h x) = (case r of None \<Rightarrow> Inl e | Some x \<Rightarrow> on_stack st (h x))"
  by (simp_all split: option.split)

lemmas run_binding = call_c_function_def entity_argument_def number_of_IsNumber ToFloat64_number
  GetString_def GetNumber_def GetVector_def GetAngle_def split_def Let_def

text \<open>Tests that are made without \<open>IsValid\<close>.\<close>

definition entity_test :: "('f, 'w, 'v) host \<Rightarrow> string \<Rightarrow> 'f \<Rightarrow> 'w \<Rightarrow> ('f JSValue \<times> 'w) res" where
  "entity_test H name i w =
     bnd (lua_function H ''Entity'' [lua_number H i] w) (\<lambda>(e, w).
       bnd (lua_method H e name [] w) (\<lambda>(b, w). Inr (JS_BOOL (lua_to_bool H b), w)))"

text \<open>Queries of the physics object of an entity.\<close>

definition physics_query ::
  "('f, 'w, 'v) host \<Rightarrow> string \<Rightarrow> ('v \<Rightarrow> 'w \<Rightarrow> ('f JSValue \<times> 'w) res) \<Rightarrow> 'f \<Rightarrow> 'w
     \<Rightarrow> ('f JSValue \<times> 'w) res" where
  "physics_query H name answer i w =
     bnd (lua_function H ''Entity'' [lua_number H i] w) (\<lambda>(e, w).
       bnd (lua_method H e ''IsValid'' [] w) (\<lambda>(b, w).
         if \<not> lua_to_bool H b then Inr (JS_BOOL False, w)
         else bnd (lua_method H e ''GetPhysicsObject'' [] w) (\<lambda>(p, w).
           bnd (lua_method H p ''IsValid'' [] w) (\<lambda>(b, w).
             if \<not> lua_to_bool H b
             then Inr (JS_EXCEPTION, js_throw H w ''TypeError'' ''Invalid physics object'')
             else bnd (lua_method H p name [] w) (\<lambda>(r, w). answer r w)))))"

definition number_answer :: "('f, 'w, 'v) host \<Rightarrow> 'v \<Rightarrow> 'w \<Rightarrow> ('f JSValue \<times> 'w) res" where
  "number_answer H r w = Inr (JS_NewFloat64 H (lua_to_number H r), w)"

definition bool_answer :: "('f, 'w, 'v) host \<Rightarrow> 'v \<Rightarrow> 'w \<Rightarrow> ('f JSValue \<times> 'w) res" where
  "bool_answer H r w = Inr (JS_BOOL (lua_to_bool H r), w)"

lemmas answers = string_answer_def vector_answer_def angle_answer_def number_answer_def
  bool_answer_def

lemma require_player_step [simp]:
  "require_player H msg (w, b # e # st) k =
     bnd (lua_method H e ''IsPlayer'' [] w) (\<lambda>(p, w).
       if \<not> lua_to_bool H p then pop_throw H 3 msg (w, p # b # e # st) else k (w, p # b # e # st))"
  by (simp add: require_player_def require_def)

lemma ask_physics_step [simp]:
  "lua_run H ask_physics (w, b # e # st) =
     bnd (lua_method H e ''GetPhysicsObject'' [] w) (\<lambda>(p, w).
       bnd (lua_method H p ''IsValid'' [] w) (\<lambda>(c, w). Inr (w, c # p # b # e # st)))"
  unfolding ask_physics_def lua_run_append One_nat_def by simp

lemma require_physics_step [simp]:
  "require H ask_physics give_up (w, b # e # st) k =
     bnd (lua_method H e ''GetPhysicsObject'' [] w) (\<lambda>(p, w).
       bnd (lua_method H p ''IsValid'' [] w) (\<lambda>(c, w).
         if \<not> lua_to_bool H c then give_up (w, c # p # b # e # st)
         else k (w, c # p # b # e # st)))"
  by (simp add: require_def)

text \<open>
  A binding that uses the stack only for itself: it does the same on every stack, and leaves it
  as it was, whatever its arguments are.
\<close>

definition lift_binding ::
  "(nat \<Rightarrow> 'f JSValue list \<Rightarrow> 'w \<Rightarrow> ('f JSValue \<times> 'w) res) \<Rightarrow> ('f, 'w, 'v) binding" where
  "lift_binding g argc argv s = on_stack (snd s) (g argc argv (fst s))"

definition raise_type_error :: "('f, 'w, 'v) host \<Rightarrow> string \<Rightarrow> 'w \<Rightarrow> ('f JSValue \<times> 'w) res" where
  "raise_type_error H msg w = Inr (JS_EXCEPTION, js_throw H w ''TypeError'' msg)"

definition with_index ::
  "('f, 'w, 'v) host \<Rightarrow> ('f \<Rightarrow> 'w \<Rightarrow> ('f JSValue \<times> 'w) res) \<Rightarrow> nat \<Rightarrow> 'f JSValue list \<Rightarrow> 'w
     \<Rightarrow> ('f JSValue \<times> 'w) res" where
  "with_index H g argc argv w =
     (if argc < 1 then raise_type_error H ''Expected at least one argument'' w
      else bnd (rd argv 0) (\<lambda>a.
        if \<not> JS_IsNumber a then raise_type_error H ''Argument must be a number'' w
        else case JS_ToFloat64 H w a of (i, w) \<Rightarrow> g i w))"

lemma on_stack_raise [simp]:
  "on_stack st (raise_type_error H msg w) = JS_ThrowTypeError H (w, st) msg"
  by (simp add: raise_type_error_def JS_ThrowTypeError_def)

lemma lift_argument:
  assumes "\<And>i w st. k i (w, st) = on_stack st (g i w)"
  shows "(\<lambda>argc argv s. entity_argument H argc argv s k) = lift_binding (with_index H g)"
  by (rule ext)+
     (simp add: entity_argument_def lift_binding_def with_index_def assms Let_def split_def cong: if_cong)

lemmas run_lift = GetString_def GetNumber_def GetVector_def GetAngle_def GetBool_def JS_NewBool_def
  split_def Let_def

text \<open>C7.
  The queries \<open>GetName\<close>, \<open>GetClass\<close>, \<open>GetPos\<close>, \<open>GetAngles\<close>, \<open>EyeAngles\<close>, the tests
  \<open>IsValid\<close>, \<open>IsPlayer\<close>, \<open>IsNPC\<close>, \<open>IsWorld\<close> and the physics queries \<open>GetMass\<close> and
  \<open>GetMassCenter\<close>, on any arguments: the operations on the Lua stack amount to the method call
  of the game on the entity of the given index, guarded by \<open>IsValid\<close> (of the physics object,
  too); every path, errors included, leaves the Lua stack exactly as it was.
\<close>
theorem entity_queries_refine:
  "entity_get_name H =
     lift_binding (with_index H (entity_query H ''GetName'' (string_answer H))) \<and>
   entity_get_class H =
     lift_binding (with_index H (entity_query H ''GetClass'' (string_answer H))) \<and>
   entity_get_position H =
     lift_binding (with_index H (entity_query H ''GetPos'' (vector_answer H))) \<and>
   entity_get_angles H =
     lift_binding (with_index H (entity_query H ''GetAngles'' (angle_answer H))) \<and>
   entity_eye_angles H =
     lift_binding (with_index H (entity_query H ''EyeAngles'' (angle_answer H))) \<and>
   entity_isvalid H = lift_binding (with_index H (entity_test H ''IsValid'')) \<and>
   entity_isplayer H = lift_binding (with_index H (entity_test H ''IsPlayer'')) \<and>
   entity_isnpc H = lift_binding (with_index H (entity_test H ''IsNPC'')) \<and>
   entity_isworld H = lift_binding (with_index H (entity_test H ''IsWorld'')) \<and>
   entity_get_mass H =
     lift_binding (with_index H (physics_query H ''GetMass'' (number_answer H))) \<and>
   entity_get_masscenter H =
     lift_binding (with_index H (physics_query H ''GetMassCenter'' (vector_answer H)))"
  unfolding entity_get_name_def entity_get_class_def entity_get_position_def entity_get_angles_def
    entity_eye_angles_def entity_isvalid_def entity_isplayer_def entity_isnpc_def
    entity_isworld_def entity_get_mass_def entity_get_masscenter_def
  by (intro conjI lift_argument)
     (simp_all add: run_lift answers entity_query_def entity_test_def physics_query_def
       cong: if_cong option.case_cong)

text \<open>
  A player query without a stack, with the values it leaves behind: nothing, except when the
  entity is valid and no player.
\<close>

definition player_query ::
  "('f, 'w, 'v) host \<Rightarrow> string \<Rightarrow> string \<Rightarrow> ('v \<Rightarrow> 'w \<Rightarrow> ('f JSValue \<times> 'w) res) \<Rightarrow> 'f \<Rightarrow> 'v list \<Rightarrow> 'w
     \<Rightarrow> ('f JSValue \<times> ('w, 'v) lua) res" where
  "player_query H msg name answer i st w =
     bnd (lua_function H ''Entity'' [lua_number H i] w) (\<lambda>(e, w).
       bnd (lua_method H e ''IsValid'' [] w) (\<lambda>(b, w).
         if \<not> lua_to_bool H b
         then Inr (JS_EXCEPTION, (js_throw H w ''TypeError'' ''Invalid entity'', st))
         else bnd (lua_method H e ''IsPlayer'' [] w) (\<lambda>(p, w).
           if \<not> lua_to_bool H p
           then Inr (JS_EXCEPTION, (js_throw H w ''TypeError'' msg, lua_glob H # st))
           else bnd (lua_method H e name [] w) (\<lambda>(r, w). on_stack st (answer r w)))))"

text \<open>C9.
  The queries of players (\<open>Crouching\<close>, \<open>Team\<close>, \<open>Frags\<close>, \<open>SteamID\<close>, \<open>SteamID64\<close>,
  \<open>AccountID\<close>) amount to the method call of the game guarded by \<open>IsValid\<close> and \<open>IsPlayer\<close>;
  they leave the Lua stack as it was except for an entity that is valid and no player, where
  the global table stays on it.
\<close>
theorem player_queries_refine:
  assumes "number_of H a = Some i"
  shows "call_c_function (entity_crouching H) [a] (w, st) =
           player_query H ''Invalid playerr'' ''Crouching'' (bool_answer H) i st w \<and>
         call_c_function (entity_team H) [a] (w, st) =
           player_query H ''Invalid player'' ''Team'' (number_answer H) i st w \<and>
         call_c_function (entity_frags H) [a] (w, st) =
           player_query H ''Invalid player'' ''Frags'' (number_answer H) i st w \<and>
         call_c_function (entity_steamid H) [a] (w, st) =
           player_query H ''Invalid player'' ''SteamID'' (string_answer H) i st w \<and>
         call_c_function (entity_steamid64 H) [a] (w, st) =
           player_query H ''Invalid player'' ''SteamID64'' (string_answer H) i st w \<and>
         call_c_function (entity_accountid H) [a] (w, st) =
           player_query H ''Invalid player'' ''AccountID'' (string_answer H) i st w"
  using assms
  by (simp add: run_binding answers player_query_def JS_NewBool_def
      entity_crouching_def entity_team_def entity_frags_def entity_steamid_def
      entity_steamid64_def entity_accountid_def cong: if_cong option.case_cong)

lemma player_queries_refine_witness:
  "call_c_function (entity_crouching demo_host) [JS_INT 3] (demo_start, []) =
     player_query demo_host ''Invalid playerr'' ''Crouching'' (bool_answer demo_host) 3 [] demo_start"
  by (rule conjunct1 [OF player_queries_refine]) (simp add: demo_defs)

text \<open>\<open>IsValidPhysics\<close> always leaves two values behind when the entity is valid.\<close>

lemma isvalid_physics_leaks:
  assumes "number_of H a = Some i"
  shows "call_c_function (entity_isvalid_physics H) [a] (w, st) =
    bnd (lua_function H ''Entity'' [lua_number H i] w) (\<lambda>(e, w).
       bnd (lua_method H e ''IsValid'' [] w) (\<lambda>(b, w).
         if \<not> lua_to_bool H b
         then Inr (JS_EXCEPTION, (js_throw H w ''TypeError'' ''Invalid entity'', st))
         else bnd (lua_method H e ''GetPhysicsObject'' [] w) (\<lambda>(p, w).
           bnd (lua_method H p ''IsValid'' [] w) (\<lambda>(c, w).
             Inr (JS_BOOL (lua_to_bool H c), (w, e # lua_glob H # st))))))"
  using assms
  by (simp add: run_binding JS_NewBool_def entity_isvalid_physics_def cong: if_cong)

text \<open>Reading a color makes the new object before the method is called.\<close>

lemma copy_component_step:
  "copy_component H v i k (w, st) =
     bnd (lua_at (lua_string H k # st) i) (\<lambda>t.
       bnd (lua_error (lua_index H w t (lua_string H k))) (\<lambda>(d, w).
         Inr (js_set H w v k (JS_NewFloat64 H (lua_to_number H d)), d # st)))"
  by (simp add: copy_component_def lua_run.simps GetNumber_def split_def)

definition color_query :: "('f, 'w, 'v) host \<Rightarrow> 'f \<Rightarrow> 'w \<Rightarrow> ('f JSValue \<times> 'w) res" where
  "color_query H i w =
     bnd (lua_function H ''Entity'' [lua_number H i] w) (\<lambda>(e, w).
       bnd (lua_method H e ''IsValid'' [] w) (\<lambda>(b, w).
         if \<not> lua_to_bool H b then Inr (JS_EXCEPTION, js_throw H w ''TypeError'' ''Invalid entity'')
         else let (v, w) = js_new_object H w in
           bnd (lua_method H e ''GetColor'' [] w) (\<lambda>(c, w).
             let component = (\<lambda>k w. bnd (lua_error (lua_index H w c (lua_string H k))) (\<lambda>(d, w).
                   Inr (js_set H w v k (JS_NewFloat64 H (lua_to_number H d)))))
             in bnd (component ''r'' w) (\<lambda>w. bnd (component ''g'' w) (\<lambda>w.
                bnd (component ''b'' w) (\<lambda>w. bnd (component ''a'' w) (\<lambda>w. Inr (v, w))))))))"

lemma entity_get_color_refines:
  "entity_get_color H = lift_binding (with_index H (color_query H))"
  unfolding entity_get_color_def
  by (intro lift_argument) (simp add: run_lift color_query_def copy_component_step cong: if_cong)

section \<open>Commands without a stack\<close>

lemma make3_step3 [simp]:
  "lua_run H (make3 (- 3) name ds) (w, b # e # g # st) =
     bnd (lua_apply H g name [lua_number H (fst ds), lua_number H (fst (snd ds)), lua_number H (snd (snd ds))] w) (\<lambda>(u, w).
       Inr (w, u # b # e # g # st))"
  by (simp add: make3_def lua_run.simps lua_apply_def first_result split_def)

lemma make3_step5 [simp]:
  "lua_run H (make3 (- 5) name ds) (w, c # p # b # e # g # st) =
     bnd (lua_apply H g name [lua_number H (fst ds), lua_number H (fst (snd ds)), lua_number H (snd (snd ds))] w) (\<lambda>(u, w).
       Inr (w, u # c # p # b # e # g # st))"
  by (simp add: make3_def lua_run.simps lua_apply_def first_result split_def)

lemma run_command_with [simp]:
  "lua_run H [GetField (- 3) name, Push (- 4), Push (- 3), Call 2 r] (w, u # b # e # st) =
     bnd (lua_error (lua_index H w e (lua_string H name))) (\<lambda>(f, w).
       bnd (lua_error (lua_call H w f [e, u])) (\<lambda>(vs, w).
         Inr (w, rev (take r (vs @ replicate r (lua_nil H))) @ u # b # e # st)))"
  by (simp add: lua_run.simps split_def numeral_2_eq_2)

definition object3_command ::
  "('f, 'w, 'v) host \<Rightarrow> string \<Rightarrow> string \<Rightarrow> ('v \<Rightarrow> 'w \<Rightarrow> ('f JSValue \<times> 'w) res) \<Rightarrow> 'f \<Rightarrow> 'f \<times> 'f \<times> 'f
     \<Rightarrow> 'w \<Rightarrow> ('f JSValue \<times> 'w) res" where
  "object3_command H maker name answer i ds w =
     bnd (lua_function H ''Entity'' [lua_number H i] w) (\<lambda>(e, w).
       bnd (lua_method H e ''IsValid'' [] w) (\<lambda>(b, w).
         if \<not> lua_to_bool H b then Inr (JS_BOOL False, w)
         else case ds of (x, y, z) \<Rightarrow>
           bnd (lua_function H maker [lua_number H x, lua_number H y, lua_number H z] w) (\<lambda>(u, w).
             bnd (lua_method H e name [u] w) (\<lambda>(r, w). answer r w))))"

definition force_command :: "('f, 'w, 'v) host \<Rightarrow> 'f \<Rightarrow> 'f \<times> 'f \<times> 'f \<Rightarrow> 'w \<Rightarrow> ('f JSValue \<times> 'w) res" where
  "force_command H i ds w =
     bnd (lua_function H ''Entity'' [lua_number H i] w) (\<lambda>(e, w).
       bnd (lua_method H e ''IsValid'' [] w) (\<lambda>(b, w).
         if \<not> lua_to_bool H b
         then Inr (JS_EXCEPTION, js_throw H w ''TypeError'' ''Invalid entity'')
         else bnd (lua_method H e ''GetPhysicsObject'' [] w) (\<lambda>(p, w).
           bnd (lua_method H p ''IsValid'' [] w) (\<lambda>(b, w).
             if \<not> lua_to_bool H b
             then Inr (JS_EXCEPTION, js_throw H w ''TypeError'' ''Invalid physics object'')
             else case ds of (x, y, z) \<Rightarrow>
               bnd (lua_function H ''Vector'' [lua_number H x, lua_number H y, lua_number H z] w) (\<lambda>(u, w).
                 bnd (lua_method H p ''ApplyForceCenter'' [u] w) (\<lambda>(r, w). Inr (JS_UNDEFINED, w)))))))"

text \<open>The tests of the arguments, without a stack.\<close>

definition with_object ::
  "('f, 'w, 'v) host \<Rightarrow> string \<Rightarrow> string \<Rightarrow> bool \<Rightarrow> string \<times> string \<times> string \<Rightarrow> string
     \<Rightarrow> ('f \<Rightarrow> 'f \<times> 'f \<times> 'f \<Rightarrow> 'w \<Rightarrow> ('f JSValue \<times> 'w) res) \<Rightarrow> nat \<Rightarrow> 'f JSValue list \<Rightarrow> 'w
     \<Rightarrow> ('f JSValue \<times> 'w) res" where
  "with_object H usage no_number check keys bad g argc argv w =
     (if argc < 2 then raise_type_error H usage w
      else bnd (rd argv 0) (\<lambda>e.
        if \<not> JS_IsNumber e then raise_type_error H no_number w
        else bnd (rd argv 1) (\<lambda>v.
          if check \<and> \<not> JS_IsObject v
          then raise_type_error H ''Second argument is not a valid vector'' w
          else case get_three H keys w v of (vs, w) \<Rightarrow>
            if \<not> all_numbers vs then raise_type_error H bad w
            else case JS_ToFloat64 H w e of (i, w) \<Rightarrow> case to_floats H w vs of (ds, w) \<Rightarrow> g i ds w)))"

lemma lift_object:
  assumes "\<And>i ds w st. k i ds (w, st) = on_stack st (g i ds w)"
  shows "(\<lambda>argc argv s. entity_and_object H u n c keys bad argc argv s k) =
         lift_binding (with_object H u n c keys bad g)"
  by (rule ext)+
     (simp add: entity_and_object_def lift_binding_def with_object_def assms Let_def split_def
       cong: if_cong)

definition no_answer :: "'v \<Rightarrow> 'w \<Rightarrow> ('f JSValue \<times> 'w) res" where
  "no_answer r w = Inr (JS_UNDEFINED, w)"

abbreviation "vector_argument H no_number check \<equiv>
  with_object H ''Expected (entity, vector)'' no_number check (''x'', ''y'', ''z'')
    ''Second argument is not a valid vector''"

text \<open>C8.
  \<open>SetPos\<close>, \<open>SetAngles\<close>, \<open>ToWorld\<close>, \<open>entity_world_to_local\<close> and \<open>ApplyForce\<close>, on any
  arguments: the operations on the Lua stack build the vector or angle from the three numbers
  in their order and call the method on the entity (or its physics object) with it, after the
  tests of the code; every path leaves the Lua stack exactly as it was.
\<close>
theorem entity_commands_refine:
  "entity_set_position H =
     lift_binding (vector_argument H ''Argument must be a number'' True
       (object3_command H ''Vector'' ''SetPos'' no_answer)) \<and>
   entity_local_to_world H =
     lift_binding (vector_argument H ''Argument must be a number'' False
       (object3_command H ''Vector'' ''LocalToWorld'' (vector_answer H))) \<and>
   entity_world_to_local H =
     lift_binding (vector_argument H ''Argument must be a number'' False
       (object3_command H ''Vector'' ''WorldToLocal'' (vector_answer H))) \<and>
   entity_applyforce_center H =
     lift_binding (vector_argument H ''First argument must be a number'' True (force_command H)) \<and>
   entity_set_angles H =
     lift_binding (with_object H ''Expected (entity, angle)'' ''Argument must be a number'' True
       (''pitch'', ''yaw'', ''roll'') ''Second argument is not a valid angle''
       (object3_command H ''Angle'' ''SetAngles'' no_answer))"
  unfolding entity_set_position_def entity_local_to_world_def entity_world_to_local_def
    entity_applyforce_center_def entity_set_angles_def
  by (intro conjI lift_object)
     (simp_all add: run_lift object3_command_def force_command_def lua_apply_def first_result
       vector_answer_def no_answer_def cong: if_cong)

lemma entity_use_refines:
  "entity_use H owner_index = lift_binding (with_index H (\<lambda>i w.
     case JS_ToFloat64 H w owner_index of (j, w) \<Rightarrow>
     bnd (lua_function H ''Entity'' [lua_number H i] w) (\<lambda>(e, w).
       bnd (lua_method H e ''IsValid'' [] w) (\<lambda>(b, w).
         if \<not> lua_to_bool H b then raise_type_error H ''Invalid entity'' w
         else bnd (lua_function H ''Entity'' [lua_number H j] w) (\<lambda>(u, w).
           bnd (lua_method H u ''IsValid'' [] w) (\<lambda>(b, w).
             if \<not> lua_to_bool H b then raise_type_error H ''Invalid entity'' w
             else bnd (lua_method H e ''Use'' [u] w) (\<lambda>(r, w). no_answer r w)))))))"
  unfolding entity_use_def
  by (intro lift_argument)
     (simp add: run_lift require_def lua_run.simps lua_apply_def first_result no_answer_def
       raise_type_error_def ask_top_def cong: if_cong)

definition demo_target :: demo where
  "demo_target = demo_start\<lparr>objects := [[(''x'', JS_INT 1), (''y'', JS_INT 2), (''z'', JS_INT 3)]]\<rparr>"

section \<open>The members of Entity\<close>

text \<open>
  As \<open>lua_create_context\<close> registers them; \<open>ent_index\<close> and \<open>owner_index\<close> are the values in the
  data of the context.
\<close>

definition get_ent :: "'f JSValue \<Rightarrow> ('f, 'w, 'v) binding" where
  "get_ent ent_index argc argv s = Inr (ent_index, s)"

definition get_owner :: "'f JSValue \<Rightarrow> ('f, 'w, 'v) binding" where
  "get_owner owner_index argc argv s = Inr (owner_index, s)"

definition entity_members ::
  "('f, 'w, 'v) host \<Rightarrow> 'f JSValue \<Rightarrow> 'f JSValue \<Rightarrow> (string \<times> ('f, 'w, 'v) binding) list" where
  "entity_members H ent_index owner_index =
     [(''Chip'', get_ent ent_index), (''Owner'', get_owner owner_index),
      (''GetName'', entity_get_name H), (''GetClass'', entity_get_class H),
      (''ApplyForce'', entity_applyforce_center H),
      (''ApplyForceOffset'', entity_applyforce_offset H),
      (''IsValid'', entity_isvalid H), (''IsValidPhysics'', entity_isvalid_physics H),
      (''GetPos'', entity_get_position H), (''GetMassCenter'', entity_get_masscenter H),
      (''ToWorld'', entity_local_to_world H), (''ToLocal'', entity_local_to_world H),
      (''IsWorld'', entity_isworld H), (''GetColor'', entity_get_color H),
      (''GetAngles'', entity_get_angles H), (''IsPlayer'', entity_isplayer H),
      (''IsNPC'', entity_isnpc H), (''Crouching'', entity_crouching H),
      (''EyeAngles'', entity_eye_angles H), (''SteamID'', entity_steamid H),
      (''Team'', entity_team H), (''Frags'', entity_frags H),
      (''SteamID64'', entity_steamid64 H), (''AccountID'', entity_accountid H),
      (''Use'', entity_use H owner_index), (''SetColor'', entity_set_color H),
      (''SetAngles'', entity_set_angles H), (''SetPos'', entity_set_position H),
      (''GetMass'', entity_get_mass H)]"

lemma push_locals_undef: "push_locals H (Inl Undef # xs) s = Inl Undef"
proof -
  have "fold (\<lambda>x r. bnd r (\<lambda>s. bnd x (\<lambda>d. lua_run H [PushNumber d] s))) xs (Inl Undef) = Inl Undef"
    by (induction xs) simp_all
  then show ?thesis by (simp add: push_locals_def)
qed

definition not_ok :: "('f JSValue \<times> ('w, 'v) lua) res \<Rightarrow> bool" where
  "not_ok r \<longleftrightarrow> (\<forall>s. r \<noteq> Inr (JS_UNDEFINED, s))"

lemma not_ok_intros:
  "not_ok (Inl e)" "not_ok (Inr (JS_EXCEPTION, s))" "not_ok (JS_ThrowTypeError H s msg)" "not_ok (pop_throw H n msg s)"
  "(\<And>x. not_ok (f x)) \<Longrightarrow> not_ok (bnd r f)"
  by (auto simp: not_ok_def JS_ThrowTypeError_def pop_throw_def bnd_eq_Inr)

lemma not_ok_require:
  "(\<And>s. not_ok (give_up s)) \<Longrightarrow> (\<And>s. not_ok (k s)) \<Longrightarrow> not_ok (require H ops give_up s k)"
  unfolding require_def by (intro not_ok_intros) (simp split: if_split)

text \<open>
  \<open>Entity.ApplyForceOffset\<close> never succeeds, whatever it is called with: a call that is not
  rejected reads the variables \<open>x2\<close>, \<open>y2\<close>, \<open>z2\<close>, which were never assigned. \<open>Entity.ToLocal\<close>
  is bound to the function of \<open>Entity.ToWorld\<close>.
\<close>
theorem entity_members_faults:
  "call_member (entity_members H ei oi) ''ApplyForceOffset'' args s \<noteq> Inr (JS_UNDEFINED, s') \<and>
   call_member (entity_members H ei oi) ''ToLocal'' args s =
     call_c_function (entity_local_to_world H) args s"
proof -
  have "not_ok (entity_applyforce_offset H argc argv s)" for argc argv
    unfolding entity_applyforce_offset_def Let_def
    by (auto simp: push_locals_undef split: prod.split intro!: not_ok_intros not_ok_require)
  then have "entity_applyforce_offset H argc argv s \<noteq> Inr (JS_UNDEFINED, s')" for argc argv
    unfolding not_ok_def by blast
  then show ?thesis
    by (simp add: call_member_def entity_members_def call_c_function_def)
qed

text \<open>The fault is reached on a valid entity with a physics object.\<close>

lemma applyforce_offset_reads_unassigned:
  "call_member (entity_members demo_host JS_NULL JS_NULL) ''ApplyForceOffset''
     [JS_INT 1, JS_OBJECT 0, JS_OBJECT 0] (demo_target, []) = Inl Undef"
  by (simp add: call_member_def entity_members_def call_c_function_def entity_applyforce_offset_def
      demo_target_def get_three_def push_locals_undef lua_apply_def lua_error_def lua_run.simps
      demo_defs)

end
