(* ===== verification/HostWire.thy ===== *)
theory HostWire
  imports HostEntity
begin

text \<open>
  The remaining functions scripts can call: \<open>console.log\<close>, which prints to the chat of the
  owner, and \<open>Inputs.Change\<close>, \<open>Outputs.Change\<close> and \<open>Outputs.Trigger\<close>, which set up and drive
  the wires of the chip. \<open>entIndex\<close> and \<open>ownerIndex\<close> are the values in the data of the context.
\<close>

section \<open>Printing\<close>

definition lua_printf :: "('f, 'w, 'v) host \<Rightarrow> string \<Rightarrow> ('w, 'v) lua \<Rightarrow> ('w, 'v) lua res" where
  "lua_printf H str s =
     lua_run H [PushSpecial, GetField (- 1) ''print'', PushString str, Call 1 0, Pop 1] s"

text \<open>The loop that pushes the arguments: one that cannot be converted to a string is skipped.\<close>

fun push_strings :: "('f, 'w, 'v) host \<Rightarrow> 'f JSValue list \<Rightarrow> ('w, 'v) lua \<Rightarrow> ('w, 'v) lua" where
  "push_strings H [] s = s"
| "push_strings H (v # vs) (w, st) =
     (case js_to_cstring H w v of
        (None, w) \<Rightarrow> push_strings H vs (w, st)
      | (Some str, w) \<Rightarrow> push_strings H vs (w, lua_string H str # st))"

definition dev_console_log :: "('f, 'w, 'v) host \<Rightarrow> ('f, 'w, 'v) binding" where
  "dev_console_log H argc argv s =
     bnd (lua_run H [PushSpecial, GetField (- 1) ''print''] s) (\<lambda>s.
       bnd (lua_run H [Call argc 0, Pop 1] (push_strings H (take argc argv) s)) (\<lambda>s.
         Inr (JS_UNDEFINED, s)))"

definition console_log :: "('f, 'w, 'v) host \<Rightarrow> 'f JSValue \<Rightarrow> ('f, 'w, 'v) binding" where
  "console_log H owner_index argc argv s =
     (if argc < 1 then JS_ThrowTypeError H s ''Expected at least one argument''
      else let (ownerIndex, w) = JS_ToFloat64 H (fst s) owner_index in
        require_valid H ownerIndex (pop_throw H 3 ''Invalid entity'') (w, snd s) (\<lambda>s.
          bnd (lua_run H [GetField (- 3) ''JSChatPrint'', Push (- 3)] s) (\<lambda>s.
            bnd (lua_run H [Call (argc + 1) 0] (push_strings H (take argc argv) s)) (\<lambda>s.
              pop_return H 3 JS_UNDEFINED s))))"

section \<open>The types of inputs and outputs\<close>

text \<open>\<open>strcmp\<close> with each type name; anything else is a normal wire.\<close>

definition wire_type :: "string \<Rightarrow> string" where
  "wire_type valueStr =
     (if valueStr = ''entity'' \<or> valueStr = ''vector'' \<or> valueStr = ''angle'' \<or>
         valueStr = ''string'' \<or> valueStr = ''color'' then valueStr else ''normal'')"

text \<open>
  The loop over the properties of the argument. A value that cannot be converted to a string
  gives a null pointer, which \<open>strcmp\<close> reads.
\<close>

fun set_types ::
  "('f, 'w, 'v) host \<Rightarrow> 'f JSValue \<Rightarrow> string list \<Rightarrow> ('w, 'v) lua \<Rightarrow> ('w, 'v) lua res" where
  "set_types H obj [] s = Inr s"
| "set_types H obj (atom # atoms) (w, st) =
     (case js_atom_cstring H w atom of
        (None, w) \<Rightarrow> set_types H obj atoms (w, st)
      | (Some propName, w) \<Rightarrow>
          let (val, w) = js_get H w obj atom in
          (case js_to_cstring H w val of
             (None, w) \<Rightarrow> Inl Undef
           | (Some valueStr, w) \<Rightarrow>
               bnd (lua_run H [PushString (wire_type valueStr), SetField (- 2) propName] (w, st)) (\<lambda>s.
                 set_types H obj atoms s)))"

text \<open>The common text of \<open>inputs_change\<close> and \<open>outputs_change\<close>.\<close>

definition change_wires ::
  "('f, 'w, 'v) host \<Rightarrow> string \<Rightarrow> 'f JSValue \<Rightarrow> ('f, 'w, 'v) binding" where
  "change_wires H setter ent_index argc argv s =
     (if argc < 1 then JS_ThrowTypeError H s ''Expected at least one argument''
      else bnd (rd argv 0) (\<lambda>obj.
        if \<not> JS_IsObject obj then JS_ThrowTypeError H s ''Argument must be an object''
        else let (entityIndex, w) = JS_ToFloat64 H (fst s) ent_index in
          require_valid H entityIndex (pop_throw H 3 ''Invalid entity'') (w, snd s) (\<lambda>s.
            case js_own_names H (fst s) obj of
              (None, w) \<Rightarrow> Inr (JS_UNDEFINED, (w, snd s))
            | (Some atoms, w) \<Rightarrow>
                bnd (lua_run H [CreateTable] (w, snd s)) (\<lambda>s.
                bnd (set_types H obj atoms s) (\<lambda>s.
                bnd (lua_run H [GetField (- 3) setter, Push (- 4), Push (- 3), Call 2 0] s) (\<lambda>s.
                  pop_return H 4 JS_UNDEFINED s))))))"

definition inputs_change :: "('f, 'w, 'v) host \<Rightarrow> 'f JSValue \<Rightarrow> ('f, 'w, 'v) binding" where
  "inputs_change H = change_wires H ''SetInputs''"

definition outputs_change :: "('f, 'w, 'v) host \<Rightarrow> 'f JSValue \<Rightarrow> ('f, 'w, 'v) binding" where
  "outputs_change H = change_wires H ''SetOutputs''"

section \<open>Driving an output\<close>

text \<open>
  The value for the type of the output is pushed, or the call is rejected. The alpha component
  of a color is read when the red one is a number, which it always is here.
\<close>

definition push_object3 ::
  "('f, 'w, 'v) host \<Rightarrow> string \<Rightarrow> string \<times> string \<times> string \<Rightarrow> string \<Rightarrow> 'f JSValue \<Rightarrow> ('w, 'v) lua
     \<Rightarrow> (('w, 'v) lua \<Rightarrow> ('f JSValue \<times> ('w, 'v) lua) res) \<Rightarrow> ('f JSValue \<times> ('w, 'v) lua) res" where
  "push_object3 H maker keys bad v s k =
     (if \<not> JS_IsObject v then pop_throw H 4 bad s
      else let (vs, w) = get_three H keys (fst s) v in
        if \<not> all_numbers vs then pop_throw H 4 bad (w, snd s)
        else let (ds, w) = to_floats H w vs in
          bnd (lua_run H (make3 (- 4) maker ds) (w, snd s)) k)"

definition push_color ::
  "('f, 'w, 'v) host \<Rightarrow> 'f JSValue \<Rightarrow> ('w, 'v) lua
     \<Rightarrow> (('w, 'v) lua \<Rightarrow> ('f JSValue \<times> ('w, 'v) lua) res) \<Rightarrow> ('f JSValue \<times> ('w, 'v) lua) res" where
  "push_color H v s k =
     (if \<not> JS_IsObject v then pop_throw H 4 ''Second argument is not a valid color'' s
      else let (vs, w) = get_three H (''r'', ''g'', ''b'') (fst s) v;
               (JSa, w) = js_get H w v ''a''; (JSr, JSg, JSb) = vs in
        if \<not> all_numbers vs then pop_throw H 4 ''Second argument is not a valid angle'' (w, snd s)
        else let ((r, g, b), w) = to_floats H w vs;
                 (a, w) = (if JS_IsNumber JSr then JS_ToFloat64 H w JSa else (of_int32 H 255, w)) in
          bnd (lua_run H [GetField (- 4) ''Color'', PushNumber r, PushNumber g, PushNumber b,
                 PushNumber a, Call 4 1] (w, snd s)) k)"

definition push_output ::
  "('f, 'w, 'v) host \<Rightarrow> string \<Rightarrow> 'f JSValue \<Rightarrow> ('w, 'v) lua
     \<Rightarrow> (('w, 'v) lua \<Rightarrow> ('f JSValue \<times> ('w, 'v) lua) res) \<Rightarrow> ('f JSValue \<times> ('w, 'v) lua) res" where
  "push_output H outputType v s k =
     (if outputType = ''NORMAL'' then
        if \<not> JS_IsNumber v then pop_throw H 4 ''Second argument is not a valid number'' s
        else let (outputNumber, w) = JS_ToFloat64 H (fst s) v in
          bnd (lua_run H [PushNumber outputNumber] (w, snd s)) k
      else if outputType = ''VECTOR'' then
        push_object3 H ''Vector'' (''x'', ''y'', ''z'') ''Second argument is not a valid vector'' v s k
      else if outputType = ''ANGLE'' then
        push_object3 H ''Angle'' (''pitch'', ''yaw'', ''roll'') ''Second argument is not a valid angle'' v s k
      else if outputType = ''COLOR'' then push_color H v s k
      else if outputType = ''ENTITY'' then
        if \<not> JS_IsNumber v then pop_throw H 4 ''Second argument is not a valid number'' s
        else let (entityIndex, w) = JS_ToFloat64 H (fst s) v in
          require H ([GetField (- 4) ''Entity'', PushNumber entityIndex, Call 1 1] @ ask_top ''IsValid'')
            (pop_throw H 6 ''Second argument is not a valid entity'') (w, snd s) (\<lambda>s.
            bnd (lua_run H [Pop 1] s) k)
      else if outputType = ''STRING'' then
        if \<not> JS_IsString v then pop_throw H 4 ''Second argument is not a valid string'' s
        else (case js_to_cstring H (fst s) v of
                (None, w) \<Rightarrow> Inl Undef
              | (Some outputString, w) \<Rightarrow> bnd (lua_run H [PushString outputString] (w, snd s)) k)
      else pop_throw H 4 ''First argument is not a valid output'' s)"

definition outputs_trigger :: "('f, 'w, 'v) host \<Rightarrow> 'f JSValue \<Rightarrow> ('f, 'w, 'v) binding" where
  "outputs_trigger H ent_index argc argv s =
     (if argc < 2 then JS_ThrowTypeError H s ''Expected (outputName, output)''
      else bnd (rd argv 0) (\<lambda>name.
        if \<not> JS_IsString name then JS_ThrowTypeError H s ''First argument must be a string''
        else let (entityIndex, w) = JS_ToFloat64 H (fst s) ent_index in
          require_valid H entityIndex (pop_throw H 3 ''Invalid entity'') (w, snd s) (\<lambda>s.
            case js_to_cstring H (fst s) name of
              (None, w) \<Rightarrow> Inl Undef
            | (Some outputName, w) \<Rightarrow>
                bnd (lua_run H [GetField (- 2) ''OutputType'', Push (- 3), PushString outputName, Call 2 1]
                       (w, snd s)) (\<lambda>s.
                bnd (GetString H s (- 1)) (\<lambda>outputType.
                bnd (rd argv 1) (\<lambda>v.
                push_output H outputType v s (\<lambda>s.
                bnd (lua_run H [GetField (- 4) ''TriggerOutput'', Push (- 5), PushString outputName,
                       Push (- 4), Call 3 0] s) (\<lambda>s.
                  pop_return H 5 JS_UNDEFINED s))))))))"

section \<open>The same without a stack\<close>

text \<open>What \<open>Inputs.Change\<close> writes into the table of types.\<close>

fun type_table ::
  "('f, 'w, 'v) host \<Rightarrow> 'f JSValue \<Rightarrow> 'v \<Rightarrow> string list \<Rightarrow> 'w \<Rightarrow> 'w res" where
  "type_table H obj t [] w = Inr w"
| "type_table H obj t (atom # atoms) w =
     (case js_atom_cstring H w atom of
        (None, w) \<Rightarrow> type_table H obj t atoms w
      | (Some propName, w) \<Rightarrow>
          let (val, w) = js_get H w obj atom in
          (case js_to_cstring H w val of
             (None, w) \<Rightarrow> Inl Undef
           | (Some valueStr, w) \<Rightarrow>
               bnd (lua_error (lua_set_index H w t (lua_string H propName)
                      (lua_string H (wire_type valueStr)))) (\<lambda>w.
                 type_table H obj t atoms w)))"

lemma set_types_stack:
  "set_types H obj atoms (w, t # st) = bnd (type_table H obj t atoms w) (\<lambda>w. Inr (w, t # st))"
  by (induction atoms arbitrary: w)
     (simp_all add: lua_run.simps Let_def split: prod.split option.split)

text \<open>
  The call on valid arguments. The two cases in which it does not end well are those of the
  code: the own properties cannot be listed, which leaves three values on the stack, and a
  value without a string, which is undefined behaviour.
\<close>

definition change_command ::
  "('f, 'w, 'v) host \<Rightarrow> string \<Rightarrow> 'f JSValue \<Rightarrow> 'f JSValue \<Rightarrow> 'v list \<Rightarrow> 'w
     \<Rightarrow> ('f JSValue \<times> ('w, 'v) lua) res" where
  "change_command H setter ent_index obj st w =
     (case JS_ToFloat64 H w ent_index of (i, w) \<Rightarrow>
      bnd (lua_function H ''Entity'' [lua_number H i] w) (\<lambda>(e, w).
        bnd (lua_method H e ''IsValid'' [] w) (\<lambda>(b, w).
          if \<not> lua_to_bool H b then on_stack st (raise_type_error H ''Invalid entity'' w)
          else case js_own_names H w obj of
            (None, w) \<Rightarrow> Inr (JS_UNDEFINED, (w, b # e # lua_glob H # st))
          | (Some atoms, w) \<Rightarrow>
              let (t, w) = lua_new_table H w in
              bnd (type_table H obj t atoms w) (\<lambda>w.
                bnd (lua_method H e setter [t] w) (\<lambda>(r, w). on_stack st (no_answer r w))))))"

text \<open>C11.
  \<open>Inputs.Change\<close> and \<open>Outputs.Change\<close>, on any argument: the chip entity receives one table
  that maps each own property of the object to the name of its wire type (\<open>normal\<close> when the
  value is none of the five names), by its method \<open>SetInputs\<close> or \<open>SetOutputs\<close>; the Lua stack
  is left as it was unless the properties cannot be listed, and a value that has no string
  makes the behaviour undefined.
\<close>
theorem change_wires_refine:
  "call_c_function (inputs_change H ent_index) [obj] (w, st) =
     (if \<not> JS_IsObject obj then JS_ThrowTypeError H (w, st) ''Argument must be an object''
      else change_command H ''SetInputs'' ent_index obj st w) \<and>
   call_c_function (outputs_change H ent_index) [obj] (w, st) =
     (if \<not> JS_IsObject obj then JS_ThrowTypeError H (w, st) ''Argument must be an object''
      else change_command H ''SetOutputs'' ent_index obj st w)"
proof -
  have "change_wires H setter ent_index (Suc 0) [obj] (w, st) = change_command H setter ent_index obj st w"
    if "JS_IsObject obj" for setter
    using that
    by (simp add: change_wires_def change_command_def lua_run.simps(2) [of _ CreateTable] run_lift
        set_types_stack no_answer_def lua_apply_def lua_run.simps(1) JS_ThrowTypeError_def cong: if_cong option.case_cong)
  moreover have "change_wires H setter ent_index (Suc 0) [obj] (w, st) =
      JS_ThrowTypeError H (w, st) ''Argument must be an object''" if "\<not> JS_IsObject obj" for setter
    using that by (simp add: change_wires_def)
  ultimately show ?thesis
    by (simp add: call_c_function_def inputs_change_def outputs_change_def)
qed


text \<open>A script that passes an object with a property that has no string reaches the null pointer.\<close>

lemma change_wires_reads_null:
  "call_c_function (inputs_change demo_host (JS_INT 1)) [JS_OBJECT 0]
     (demo_start\<lparr>objects := [[(''a'', JS_TAGGED (- 8) 0)]]\<rparr>, []) = Inl Undef"
  by (simp add: change_wires_refine [THEN conjunct1] change_command_def lua_apply_def lua_error_def
      demo_defs demo_start_def)

section \<open>Printing without a stack\<close>

fun strings_of ::
  "('f, 'w, 'v) host \<Rightarrow> 'f JSValue list \<Rightarrow> 'w \<Rightarrow> string list \<times> 'w" where
  "strings_of H [] w = ([], w)"
| "strings_of H (v # vs) w =
     (case js_to_cstring H w v of
        (None, w) \<Rightarrow> strings_of H vs w
      | (Some str, w) \<Rightarrow> (case strings_of H vs w of (strs, w) \<Rightarrow> (str # strs, w)))"

lemma push_strings_stack:
  "push_strings H vs (w, st) =
     (case strings_of H vs w of (strs, w) \<Rightarrow> (w, rev (map (lua_string H) strs) @ st))"
  by (induction vs arbitrary: w st) (simp_all split: prod.split option.split)

lemma run_call:
  "lua_run H [Call (length args) 0] (w, rev args @ f # st) =
     bnd (lua_error (lua_call H w f args)) (\<lambda>(vs, w). Inr (w, st))"
proof -
  have "lua_at (rev args @ f # st) (- int (length args) - 1) = Inr f"
  proof -
    have "nat (1 + int (length args)) - 1 = length args" by simp
    then show ?thesis by (simp add: lua_at_def rd_def nth_append)
  qed
  then show ?thesis by (simp add: lua_run.simps split_def)
qed

text \<open>What \<open>console.log\<close> does for a valid owner \<open>e\<close>: it calls \<open>f\<close> with \<open>args\<close>.\<close>

definition log_call ::
  "('f, 'w, 'v) host \<Rightarrow> 'f JSValue \<Rightarrow> 'v list \<Rightarrow> 'w
     \<Rightarrow> ('v \<Rightarrow> 'v \<Rightarrow> 'v \<Rightarrow> 'w \<Rightarrow> ('f JSValue \<times> ('w, 'v) lua) res) \<Rightarrow> ('f JSValue \<times> ('w, 'v) lua) res" where
  "log_call H owner_index st w k =
     (case JS_ToFloat64 H w owner_index of (i, w) \<Rightarrow>
      bnd (lua_function H ''Entity'' [lua_number H i] w) (\<lambda>(e, w).
        bnd (lua_method H e ''IsValid'' [] w) (\<lambda>(b, w).
          if \<not> lua_to_bool H b then on_stack st (raise_type_error H ''Invalid entity'' w)
          else bnd (lua_error (lua_index H w (lua_glob H) (lua_string H ''JSChatPrint''))) (\<lambda>(f, w).
            k b e f w))))"

text \<open>
  \<open>console.log\<close> with arguments that all convert to strings calls \<open>JSChatPrint\<close> with the owner
  and the strings, in order, and leaves the Lua stack as it was.
\<close>
theorem console_log_prints:
  assumes "vs \<noteq> []"
    and "\<And>w. length (fst (strings_of H vs w)) = length vs"
  shows "call_c_function (console_log H owner_index) vs (w, st) =
    log_call H owner_index st w (\<lambda>b e f w.
      case strings_of H vs w of (strs, w) \<Rightarrow>
        bnd (lua_error (lua_call H w f (e # map (lua_string H) strs))) (\<lambda>(rs, w).
          Inr (JS_UNDEFINED, (w, st))))"
proof -
  have call: "lua_run H [Call (Suc (length vs)) 0] (push_strings H vs (w, e # f # rest)) =
      (case strings_of H vs w of (strs, w) \<Rightarrow>
        bnd (lua_error (lua_call H w f (e # map (lua_string H) strs))) (\<lambda>(rs, w). Inr (w, rest)))"
    for w e f and rest
    using assms(2) [of w] run_call [of H "e # map (lua_string H) (fst (strings_of H vs w))"]
    by (simp add: push_strings_stack split_def)
  show ?thesis
    using assms(1)
    by (simp add: call_c_function_def console_log_def log_call_def run_lift lua_run.simps(2) [of _ "GetField _ _"]
        lua_run.simps(2) [of _ "Push _"] lua_run.simps(1) call JS_ThrowTypeError_def less_Suc_eq_0_disj cong: if_cong)
qed


lemma demo_strings: "strings_of demo_host [JS_STRING ''a'', JS_STRING ''b''] w = ([''a'', ''b''], w)"
  by (simp add: demo_defs)

lemma console_log_prints_witness:
  "call_c_function (console_log demo_host (JS_INT 3)) [JS_STRING ''a'', JS_STRING ''b''] (demo_start, []) =
   log_call demo_host (JS_INT 3) [] demo_start (\<lambda>b e f w.
     case strings_of demo_host [JS_STRING ''a'', JS_STRING ''b''] w of (strs, w) \<Rightarrow>
       bnd (lua_error (lua_call demo_host w f (e # map (lua_string demo_host) strs))) (\<lambda>(rs, w).
         Inr (JS_UNDEFINED, (w, []))))"
  by (rule console_log_prints) (simp_all only: demo_strings, simp_all)

text \<open>
  An argument without a string is skipped, but counted: the call takes the result of \<open>IsValid\<close>
  for the function to call, and if that returns, one value of the caller is removed from the
  stack.
\<close>

lemma console_log_unprintable:
  assumes "\<And>w. js_to_cstring H w v = (None, w)"
  shows "call_c_function (console_log H owner_index) [v] (w, st) =
    log_call H owner_index st w (\<lambda>b e f w.
      bnd (lua_error (lua_call H w b [f, e])) (\<lambda>(rs, w).
        pop_return H 3 JS_UNDEFINED (w, e # lua_glob H # st)))"
proof -
  have call: "lua_run H [Call (Suc (Suc 0)) 0] (w, e # f # b # rest) =
      bnd (lua_error (lua_call H w b [f, e])) (\<lambda>(vs, w). Inr (w, rest))" for w e f b and rest
    using run_call [of H "[f, e]" w b rest] by simp
  show ?thesis
    using assms
    by (simp add: call_c_function_def console_log_def log_call_def run_lift lua_run.simps(2) [of _ "GetField _ _"]
        lua_run.simps(2) [of _ "Push _"] lua_run.simps(1) call JS_ThrowTypeError_def cong: if_cong)
qed

section \<open>Driving an output without a stack\<close>

text \<open>
  The Lua value an argument stands for, by the type of the output; or the message of the
  rejection.
\<close>

definition object3_value ::
  "('f, 'w, 'v) host \<Rightarrow> string \<Rightarrow> string \<times> string \<times> string \<Rightarrow> string \<Rightarrow> 'f JSValue \<Rightarrow> 'w
     \<Rightarrow> ((string + 'v) \<times> 'w) res" where
  "object3_value H maker keys bad v w =
     (if \<not> JS_IsObject v then Inr (Inl bad, w)
      else case get_three H keys w v of (vs, w) \<Rightarrow>
        if \<not> all_numbers vs then Inr (Inl bad, w)
        else case to_floats H w vs of ((x, y, z), w) \<Rightarrow>
          bnd (lua_function H maker [lua_number H x, lua_number H y, lua_number H z] w)
            (\<lambda>(u, w). Inr (Inr u, w)))"

definition output_value ::
  "('f, 'w, 'v) host \<Rightarrow> string \<Rightarrow> 'f JSValue \<Rightarrow> 'w \<Rightarrow> ((string + 'v) \<times> 'w) res" where
  "output_value H outputType v w =
     (if outputType = ''NORMAL'' then
        if \<not> JS_IsNumber v then Inr (Inl ''Second argument is not a valid number'', w)
        else case JS_ToFloat64 H w v of (d, w) \<Rightarrow> Inr (Inr (lua_number H d), w)
      else if outputType = ''VECTOR'' then
        object3_value H ''Vector'' (''x'', ''y'', ''z'') ''Second argument is not a valid vector'' v w
      else if outputType = ''ANGLE'' then
        object3_value H ''Angle'' (''pitch'', ''yaw'', ''roll'') ''Second argument is not a valid angle'' v w
      else if outputType = ''COLOR'' then
        if \<not> JS_IsObject v then Inr (Inl ''Second argument is not a valid color'', w)
        else case get_three H (''r'', ''g'', ''b'') w v of (vs, w) \<Rightarrow> case js_get H w v ''a'' of (va, w) \<Rightarrow>
          if \<not> all_numbers vs then Inr (Inl ''Second argument is not a valid angle'', w)
          else case to_floats H w vs of ((r, g, b), w) \<Rightarrow> case JS_ToFloat64 H w va of (a, w) \<Rightarrow>
            bnd (lua_function H ''Color''
                   [lua_number H r, lua_number H g, lua_number H b, lua_number H a] w)
              (\<lambda>(u, w). Inr (Inr u, w))
      else if outputType = ''ENTITY'' then
        if \<not> JS_IsNumber v then Inr (Inl ''Second argument is not a valid number'', w)
        else case JS_ToFloat64 H w v of (i, w) \<Rightarrow>
          bnd (lua_function H ''Entity'' [lua_number H i] w) (\<lambda>(e, w).
            bnd (lua_method H e ''IsValid'' [] w) (\<lambda>(b, w).
              Inr (if \<not> lua_to_bool H b then Inl ''Second argument is not a valid entity'' else Inr e, w)))
      else if outputType = ''STRING'' then
        if \<not> JS_IsString v then Inr (Inl ''Second argument is not a valid string'', w)
        else (case js_to_cstring H w v of
                (None, w) \<Rightarrow> Inl Undef
              | (Some str, w) \<Rightarrow> Inr (Inr (lua_string H str), w))
      else Inr (Inl ''First argument is not a valid output'', w))"

lemma make3_step4 [simp]:
  "lua_run H (make3 (- 4) name ds) (w, t # b # e # g # st) =
     bnd (lua_apply H g name [lua_number H (fst ds), lua_number H (fst (snd ds)), lua_number H (snd (snd ds))] w)
       (\<lambda>(u, w). Inr (w, u # t # b # e # g # st))"
  by (simp add: make3_def lua_run.simps lua_apply_def first_result split_def)

lemma make_color_step:
  "lua_run H [GetField (- 4) name, PushNumber r, PushNumber gr, PushNumber bl, PushNumber a,
      Call 4 (Suc 0)] (w, t # b # e # g # st) =
     bnd (lua_apply H g name [lua_number H r, lua_number H gr, lua_number H bl, lua_number H a] w)
       (\<lambda>(u, w). Inr (w, u # t # b # e # g # st))"
  by (simp add: lua_run.simps lua_apply_def first_result split_def)

lemma find_entity_step:
  "lua_run H (GetField (- 4) name # PushNumber i # Call (Suc 0) (Suc 0) # ops) (w, t # b # e # g # st) =
     bnd (lua_apply H g name [lua_number H i] w) (\<lambda>(u, w). lua_run H ops (w, u # t # b # e # g # st))"
  by (simp add: lua_run.simps lua_apply_def first_result split_def)

lemma all_numbers_first: "all_numbers vs \<Longrightarrow> JS_IsNumber (fst vs)"
  by (cases vs) simp

lemma push_output_step:
  "push_output H ty v (w, t # b # e # lua_glob H # st) k =
     bnd (output_value H ty v w) (\<lambda>(r, w). case r of
         Inl msg \<Rightarrow> JS_ThrowTypeError H (w, st) msg
       | Inr u \<Rightarrow> k (w, u # t # b # e # lua_glob H # st))"
  unfolding push_output_def output_value_def
    by (simp add: push_object3_def object3_value_def push_color_def require_def all_numbers_first
        lua_run.simps(2) [of _ "PushNumber _" "[]"] lua_run.simps(2) [of _ "PushString _" "[]"]
        lua_run.simps(2) [of _ "Pop _" "[]"] lua_run.simps(1) make_color_step find_entity_step
        JS_ThrowTypeError_def run_lift if_distrib [of "case_sum _ _"]
        cong: if_cong option.case_cong sum.case_cong)

definition trigger_command ::
  "('f, 'w, 'v) host \<Rightarrow> 'f JSValue \<Rightarrow> 'f JSValue \<Rightarrow> 'f JSValue \<Rightarrow> 'w \<Rightarrow> ('f JSValue \<times> 'w) res" where
  "trigger_command H ent_index name v w =
     (case JS_ToFloat64 H w ent_index of (i, w) \<Rightarrow>
      bnd (lua_function H ''Entity'' [lua_number H i] w) (\<lambda>(e, w).
        bnd (lua_method H e ''IsValid'' [] w) (\<lambda>(b, w).
          if \<not> lua_to_bool H b then raise_type_error H ''Invalid entity'' w
          else case js_to_cstring H w name of
            (None, w) \<Rightarrow> Inl Undef
          | (Some outputName, w) \<Rightarrow>
              bnd (lua_method H e ''OutputType'' [lua_string H outputName] w) (\<lambda>(t, w).
                case lua_to_string H t of
                  None \<Rightarrow> Inl Undef
                | Some ty \<Rightarrow> bnd (output_value H ty v w) (\<lambda>(r, w).
                    case r of
                      Inl msg \<Rightarrow> raise_type_error H msg w
                    | Inr u \<Rightarrow>
                        bnd (lua_method H e ''TriggerOutput'' [lua_string H outputName, u] w)
                          (\<lambda>(r, w). no_answer r w))))))"

lemma run_output_type:
  "lua_run H [GetField (- 2) name, Push (- 3), PushString str, Call 2 (Suc 0)] (w, b # e # st) =
     bnd (lua_method H e name [lua_string H str] w) (\<lambda>(t, w). Inr (w, t # b # e # st))"
  by (simp add: lua_run.simps lua_apply_def first_result split_def numeral_2_eq_2)

lemma run_trigger:
  "lua_run H [GetField (- 4) name, Push (- 5), PushString str, Push (- 4), Call 3 0]
     (w, u # t # b # e # st) =
     bnd (lua_method H e name [lua_string H str, u] w) (\<lambda>(r, w). Inr (w, u # t # b # e # st))"
  by (simp add: lua_run.simps lua_apply_def split_def numeral_3_eq_3)

lemma sum_case_out [simp]:
  "on_stack st (case r of Inl a \<Rightarrow> g a | Inr b \<Rightarrow> h b) =
     (case r of Inl a \<Rightarrow> on_stack st (g a) | Inr b \<Rightarrow> on_stack st (h b))"
  by (simp split: sum.split)

text \<open>C10.
  \<open>Outputs.Trigger\<close> on any value: it asks the chip entity for the type of the output, makes
  the Lua value of that type from the argument (or rejects it with the message of the code) and
  passes it to the method \<open>TriggerOutput\<close>; every path leaves the Lua stack as it was. The
  alpha component of a color is converted even when the object has none.
\<close>
theorem outputs_trigger_refines:
  "call_c_function (outputs_trigger H ent_index) [name, v] (w, st) =
     (if \<not> JS_IsString name then JS_ThrowTypeError H (w, st) ''First argument must be a string''
      else on_stack st (trigger_command H ent_index name v w))"
  by (simp add: outputs_trigger_def trigger_command_def run_output_type run_trigger
      push_output_step run_lift no_answer_def JS_ThrowTypeError_def
      cong: if_cong option.case_cong sum.case_cong)

text \<open>A color without alpha is passed on with the number JavaScript gives for undefined.\<close>

lemma trigger_color_without_alpha:
  "output_value demo_host ''COLOR'' (JS_OBJECT 0)
     (demo_start\<lparr>objects := [[(''r'', JS_INT 1), (''g'', JS_INT 2), (''b'', JS_INT 3)]]\<rparr>) =
   bnd (lua_function demo_host ''Color'' [DNumber 1, DNumber 2, DNumber 3, DNumber (- 1)]
          (demo_start\<lparr>objects := [[(''r'', JS_INT 1), (''g'', JS_INT 2), (''b'', JS_INT 3)]]\<rparr>))
     (\<lambda>(u, w). Inr (Inr u, w))"
  by (simp add: output_value_def get_three_def demo_defs)

end
