(* ===== verification/HostModule.thy ===== *)
theory HostModule
  imports HostWire Allocator
begin

text \<open>
  The state of the module \<open>js.cpp\<close>: the tables of contexts and runtimes, the data it attaches
  to a context (its event listeners and the entities it belongs to), the counter of operations
  that QuickJS keeps for the host (\<open>handle_op_limit\<close> in \<open>quickjs.c\<close>), and the reference counts
  of JavaScript values, which the module takes part in.

  A script runs inside \<open>JS_Call\<close>, \<open>JS_EvalFunction\<close> and so on. It can call the functions of the
  module again, so the record \<open>engine\<close> lets these act on the whole state.
\<close>

section \<open>State\<close>

definition MAX_CONTEXTS :: nat where "MAX_CONTEXTS = 128"
definition MAX_LISTENERS :: nat where "MAX_LISTENERS = 10"

record 'f EventListener =
  eventName :: string
  callback :: "'f JSValue"

text \<open>
  \<open>listeners\<close> is the part of the array that is in use; its length is \<open>listenerCount\<close>.
\<close>

record 'f ContextData =
  listeners :: "'f EventListener list"
  entIndex :: "'f JSValue"
  ownerIndex :: "'f JSValue"

abbreviation listenerCount :: "'f ContextData \<Rightarrow> nat" where
  "listenerCount cd \<equiv> length (listeners cd)"

record 'f JSContext =
  user_opaque :: "'f ContextData option"
  op_count :: u64
  op_limit :: u64

record ('f, 'w, 'v) js_module =
  contexts :: "'f JSContext option list"
  runtimes :: "JSMallocState option list"
  lua_state :: "('w, 'v) lua"
  ref_count :: "'f JSValue \<Rightarrow> int"
  released :: "'f JSValue set"

abbreviation world_of :: "('f, 'w, 'v) js_module \<Rightarrow> 'w" where
  "world_of m \<equiv> fst (lua_state m)"

abbreviation set_world :: "'w \<Rightarrow> ('f, 'w, 'v) js_module \<Rightarrow> ('f, 'w, 'v) js_module" where
  "set_world w m \<equiv> m\<lparr>lua_state := (w, snd (lua_state m))\<rparr>"

section \<open>The operation budget\<close>

text \<open>
  The interpreter of QuickJS calls \<open>handle_op_limit\<close> with the cost of an instruction before it
  executes it, and throws when the answer is 1. The counter is a \<open>uint64_t\<close>, to which an
  \<open>int64_t\<close> is added.
\<close>

definition set_ops :: "'f JSContext \<Rightarrow> 64 word \<Rightarrow> 'f JSContext" where
  "set_ops ctx ops = ctx\<lparr>op_count := ops\<rparr>"

definition add_ops :: "'f JSContext \<Rightarrow> 64 word \<Rightarrow> 'f JSContext" where
  "add_ops ctx ops = ctx\<lparr>op_count := op_count ctx + ops\<rparr>"

definition get_ops :: "'f JSContext \<Rightarrow> int" where
  "get_ops ctx = sint (op_count ctx)"

definition handle_op_limit :: "'f JSContext \<Rightarrow> 64 word \<Rightarrow> bool \<times> 'f JSContext" where
  "handle_op_limit ctx cost =
     (let ctx = ctx\<lparr>op_count := op_count ctx + cost\<rparr>
      in (op_count ctx > op_limit ctx, ctx))"

text \<open>
  The instructions of one run, by their costs: how many are executed until the limit stops the
  run (all of them when it does not), and the context afterwards.
\<close>

fun run_ops :: "'f JSContext \<Rightarrow> 64 word list \<Rightarrow> nat \<times> bool \<times> 'f JSContext" where
  "run_ops ctx [] = (0, False, ctx)"
| "run_ops ctx (c # cs) =
     (case handle_op_limit ctx c of
        (True, ctx) \<Rightarrow> (0, True, ctx)
      | (False, ctx) \<Rightarrow> (case run_ops ctx cs of (n, stop, ctx) \<Rightarrow> (Suc n, stop, ctx)))"

definition cost_sum :: "64 word list \<Rightarrow> nat" where
  "cost_sum cs = sum_list (map unat cs)"

lemma cost_sum_simps [simp]: "cost_sum [] = 0" "cost_sum (c # cs) = unat c + cost_sum cs"
  by (simp_all add: cost_sum_def)

lemma run_ops_counts:
  assumes "unat (op_count ctx) + cost_sum cs < 2 ^ 64"
  shows "case run_ops ctx cs of (n, stop, ctx') \<Rightarrow>
     n \<le> length cs \<and> (stop \<longleftrightarrow> n < length cs) \<and>
     (unat (op_count ctx) \<le> unat (op_limit ctx) \<longrightarrow>
        unat (op_count ctx) + cost_sum (take n cs) \<le> unat (op_limit ctx)) \<and>
     (stop \<longrightarrow> unat (op_count ctx) + cost_sum (take (Suc n) cs) > unat (op_limit ctx)) \<and>
     unat (op_count ctx') = unat (op_count ctx) + cost_sum (take (Suc n) cs)"
  using assms
proof (induction cs arbitrary: ctx)
  case (Cons c cs)
  define ctx1 where "ctx1 = ctx\<lparr>op_count := op_count ctx + c\<rparr>"
  have sum: "unat (op_count ctx1) = unat (op_count ctx) + unat c"
    using Cons.prems by (simp add: ctx1_def unat_add_lem [THEN iffD1])
  have lim: "op_limit ctx1 = op_limit ctx" by (simp add: ctx1_def)
  have h: "handle_op_limit ctx c = (op_count ctx1 > op_limit ctx, ctx1)"
    by (simp add: handle_op_limit_def Let_def ctx1_def)
  show ?case
  proof (cases "op_count ctx1 > op_limit ctx")
    case True
    then show ?thesis using sum by (simp add: h word_less_nat_alt)
  next
    case False
    obtain n stop ctx' where r: "run_ops ctx1 cs = (n, stop, ctx')" by (metis prod_cases3)
    have "unat (op_count ctx1) + cost_sum cs < 2 ^ 64" using Cons.prems sum by simp
    from Cons.IH [OF this] show ?thesis
      using False sum lim by (simp add: h r word_less_nat_alt not_less) auto
  qed
qed simp



section \<open>Reference counts\<close>

definition JS_VALUE_HAS_REF_COUNT :: "'f JSValue \<Rightarrow> bool" where
  "JS_VALUE_HAS_REF_COUNT v =
     (case v of JS_STRING s \<Rightarrow> True | JS_OBJECT n \<Rightarrow> True | JS_TAGGED t n \<Rightarrow> t < 0 | _ \<Rightarrow> False)"

definition JS_DupValue :: "'f JSValue \<Rightarrow> ('f, 'w, 'v) js_module \<Rightarrow> ('f, 'w, 'v) js_module" where
  "JS_DupValue v m =
     (if JS_VALUE_HAS_REF_COUNT v
      then m\<lparr>ref_count := (ref_count m)(v := ref_count m v + 1)\<rparr> else m)"

text \<open>
  The context is used only when the last reference goes: \<open>__JS_FreeValue\<close> reads it, so it must
  be one that exists.
\<close>

definition JS_FreeValue ::
  "nat \<Rightarrow> 'f JSValue \<Rightarrow> ('f, 'w, 'v) js_module \<Rightarrow> ('f, 'w, 'v) js_module res" where
  "JS_FreeValue c v m =
     (if JS_VALUE_HAS_REF_COUNT v then
        let m = m\<lparr>ref_count := (ref_count m)(v := ref_count m v - 1)\<rparr> in
        if ref_count m v \<le> 0 then
          bnd (rd (contexts m) c) (\<lambda>ctx. case ctx of
              None \<Rightarrow> Inl Undef
            | Some _ \<Rightarrow> Inr (m\<lparr>released := insert v (released m)\<rparr>))
        else Inr m
      else Inr m)"

section \<open>Event listeners\<close>

text \<open>The data attached to a context (\<open>JS_GetContextOpaque\<close>), which must be there.\<close>

definition context_data :: "nat \<Rightarrow> ('f, 'w, 'v) js_module \<Rightarrow> 'f ContextData res" where
  "context_data c m =
     bnd (rd (contexts m) c) (\<lambda>ctx. case ctx of
         None \<Rightarrow> Inl Undef
       | Some ctx \<Rightarrow> (case user_opaque ctx of None \<Rightarrow> Inl Undef | Some cd \<Rightarrow> Inr cd))"

definition update_data ::
  "nat \<Rightarrow> ('f ContextData \<Rightarrow> 'f ContextData) \<Rightarrow> ('f, 'w, 'v) js_module \<Rightarrow> ('f, 'w, 'v) js_module" where
  "update_data c f m =
     m\<lparr>contexts := (contexts m)[c := map_option (\<lambda>ctx. ctx\<lparr>user_opaque := map_option f (user_opaque ctx)\<rparr>)
                                     (contexts m ! c)]\<rparr>"

fun find_listener :: "string \<Rightarrow> 'f EventListener list \<Rightarrow> nat option" where
  "find_listener name [] = None"
| "find_listener name (l # ls) =
     (if eventName l = name then Some 0 else map_option Suc (find_listener name ls))"

text \<open>
  \<open>Events.on(eventName, callback)\<close>, called by a script of context \<open>c\<close>. \<open>is_function\<close> is
  \<open>JS_IsFunction\<close>. The null pointer that stands for a name without a string goes to \<open>strcmp\<close>
  or \<open>strdup\<close>.
\<close>

definition js_throw_module ::
  "('f, 'w, 'v) host \<Rightarrow> string \<Rightarrow> string \<Rightarrow> ('f, 'w, 'v) js_module
     \<Rightarrow> ('f JSValue \<times> ('f, 'w, 'v) js_module) res" where
  "js_throw_module H kind msg m = Inr (JS_EXCEPTION, set_world (js_throw H (world_of m) kind msg) m)"

definition event_on ::
  "('f, 'w, 'v) host \<Rightarrow> ('w \<Rightarrow> 'f JSValue \<Rightarrow> bool) \<Rightarrow> nat \<Rightarrow> nat \<Rightarrow> 'f JSValue list
     \<Rightarrow> ('f, 'w, 'v) js_module \<Rightarrow> ('f JSValue \<times> ('f, 'w, 'v) js_module) res" where
  "event_on H is_function c argc argv m =
     (if argc < 2 then js_throw_module H ''TypeError'' ''Expected (eventName, callback)'' m
      else bnd (rd argv 0) (\<lambda>a0. bnd (rd argv 1) (\<lambda>a1.
        let (name, w) = js_to_cstring H (world_of m) a0; m = set_world w m in
        if \<not> is_function w a1
        then js_throw_module H ''TypeError'' ''Second argument must be a function'' m
        else bnd (context_data c m) (\<lambda>cd.
          case name of
            None \<Rightarrow> Inl Undef
          | Some ev \<Rightarrow>
              (case find_listener ev (listeners cd) of
                 Some i \<Rightarrow>
                   bnd (JS_FreeValue c (callback (listeners cd ! i)) m) (\<lambda>m.
                     Inr (JS_UNDEFINED,
                       update_data c (\<lambda>cd. cd\<lparr>listeners :=
                           (listeners cd)[i := (listeners cd ! i)\<lparr>callback := a1\<rparr>]\<rparr>)
                         (JS_DupValue a1 m)))
               | None \<Rightarrow>
                   if listenerCount cd \<ge> MAX_LISTENERS
                   then js_throw_module H ''InternalError'' ''Maximum events reached'' m
                   else Inr (JS_UNDEFINED,
                       update_data c (\<lambda>cd. cd\<lparr>listeners :=
                           listeners cd @ [\<lparr>eventName = ev, callback = a1\<rparr>]\<rparr>)
                         (JS_DupValue a1 m)))))))"

text \<open>The listeners as a map from names to callbacks.\<close>

definition handlers :: "'f ContextData \<Rightarrow> string \<rightharpoonup> 'f JSValue" where
  "handlers cd = map_of (map (\<lambda>l. (eventName l, callback l)) (listeners cd))"

definition data_ok :: "'f ContextData \<Rightarrow> bool" where
  "data_ok cd \<longleftrightarrow> distinct (map eventName (listeners cd)) \<and> listenerCount cd \<le> MAX_LISTENERS"

lemma find_listener_Some:
  "find_listener name ls = Some i \<Longrightarrow> i < length ls \<and> eventName (ls ! i) = name"
  by (induction ls arbitrary: i) (auto split: if_splits)

lemma find_listener_None: "find_listener name ls = None \<longleftrightarrow> name \<notin> eventName ` set ls"
  by (induction ls) auto

lemma map_of_listeners_update:
  assumes "distinct (map eventName ls)" and "i < length ls"
  shows "map_of (map (\<lambda>l. (eventName l, callback l)) (ls[i := (ls ! i)\<lparr>callback := v\<rparr>])) =
         (map_of (map (\<lambda>l. (eventName l, callback l)) ls))(eventName (ls ! i) \<mapsto> v)"
  using assms
proof (induction ls arbitrary: i)
  case (Cons l ls)
  show ?case
  proof (cases i)
    case (Suc j)
    then have "eventName (ls ! j) \<noteq> eventName l" using Cons.prems by (auto simp: image_iff) (metis nth_mem)
    then show ?thesis using Cons Suc by (auto simp: fun_eq_iff)
  qed (simp add: fun_eq_iff)
qed simp

lemma map_of_snoc:
  assumes "name \<notin> fst ` set xs"
  shows "map_of (xs @ [(name, v)]) = (map_of xs)(name \<mapsto> v)"
  using assms
  by (auto simp: map_add_def fun_eq_iff map_of_eq_None_iff [THEN iffD2] split: option.split)

lemma update_listener_names:
  "i < length ls \<Longrightarrow> map eventName (ls[i := (ls ! i)\<lparr>callback := v\<rparr>]) = map eventName ls"
  by (simp add: map_update list_update_same_conv)

lemma context_data_update:
  assumes "context_data c m = Inr cd"
  shows "context_data c (update_data c f m) = Inr (f cd)"
  using assms
  by (auto simp: context_data_def update_data_def bnd_eq_Inr rd_eq_Inr split: option.splits)

text \<open>
  The references to a value that are not held by the listeners of a context: what remains of its
  count for the rest of the program.
\<close>

definition other_references ::
  "('f, 'w, 'v) js_module \<Rightarrow> 'f ContextData \<Rightarrow> 'f JSValue \<Rightarrow> int" where
  "other_references m cd v =
     ref_count m v - int (count (mset (map callback (listeners cd))) v)"

lemma ref_count_dup:
  "JS_VALUE_HAS_REF_COUNT v \<Longrightarrow>
   ref_count (JS_DupValue u m) v = ref_count m v + (if u = v then 1 else 0)"
  by (auto simp: JS_DupValue_def)

lemma ref_count_update [simp]: "ref_count (update_data c f m) v = ref_count m v"
  by (simp add: update_data_def)

lemma context_data_dup [simp]: "context_data c (JS_DupValue v m) = context_data c m"
  by (simp add: context_data_def JS_DupValue_def)

lemma context_data_exists:
  assumes "context_data c m = Inr cd"
  shows "\<exists>ctx. rd (contexts m) c = Inr (Some ctx)"
  using assms by (auto simp: context_data_def bnd_eq_Inr split: option.splits)

lemma JS_FreeValue_ok:
  assumes "context_data c m = Inr cd"
  shows "\<exists>m'. JS_FreeValue c v m = Inr m' \<and> context_data c m' = Inr cd \<and>
           contexts m' = contexts m \<and> runtimes m' = runtimes m \<and> lua_state m' = lua_state m \<and>
           (\<forall>u. JS_VALUE_HAS_REF_COUNT u \<longrightarrow>
              ref_count m' u = ref_count m u - (if u = v then 1 else 0))"
  using context_data_exists [OF assms] assms
  by (auto simp: JS_FreeValue_def context_data_def Let_def)

lemma mset_callbacks_update:
  "i < length ls \<Longrightarrow>
   mset (map callback (ls[i := (ls ! i)\<lparr>callback := v\<rparr>])) =
     add_mset v (mset (map callback ls) - {#callback (ls ! i)#})"
  by (simp add: map_update mset_update)

definition event_on_result ::
  "nat \<Rightarrow> 'f ContextData \<Rightarrow> string \<Rightarrow> 'f JSValue \<Rightarrow> ('f, 'w, 'v) js_module \<Rightarrow> ('f, 'w, 'v) js_module \<Rightarrow> bool" where
  "event_on_result c cd name f m m' \<longleftrightarrow>
     (\<exists>cd'. context_data c m' = Inr cd' \<and> data_ok cd' \<and>
        handlers cd' = (handlers cd)(name \<mapsto> f) \<and>
        entIndex cd' = entIndex cd \<and> ownerIndex cd' = ownerIndex cd \<and>
        (\<forall>v. JS_VALUE_HAS_REF_COUNT v \<longrightarrow> other_references m' cd' v = other_references m cd v))"

lemma event_on_replaces:
  assumes cd: "context_data c m = Inr cd" and ok: "data_ok cd"
    and i: "find_listener name (listeners cd) = Some i"
  shows "\<exists>m1. JS_FreeValue c (callback (listeners cd ! i)) m = Inr m1 \<and>
     event_on_result c cd name f m
       (update_data c (\<lambda>cd. cd\<lparr>listeners := (listeners cd)[i := (listeners cd ! i)\<lparr>callback := f\<rparr>]\<rparr>)
          (JS_DupValue f m1))"
proof -
  note found = find_listener_Some [OF i]
  obtain m1 where m1: "JS_FreeValue c (callback (listeners cd ! i)) m = Inr m1"
    "context_data c m1 = Inr cd"
    "\<forall>u. JS_VALUE_HAS_REF_COUNT u \<longrightarrow>
       ref_count m1 u = ref_count m u - (if u = callback (listeners cd ! i) then 1 else 0)"
    using JS_FreeValue_ok [OF cd] by blast
  define cd' where "cd' = cd\<lparr>listeners := (listeners cd)[i := (listeners cd ! i)\<lparr>callback := f\<rparr>]\<rparr>"
  have "data_ok cd'"
    using ok found update_listener_names [of i "listeners cd" f] by (simp add: data_ok_def cd'_def)
  moreover have "handlers cd' = (handlers cd)(name \<mapsto> f)"
    using ok found map_of_listeners_update [of "listeners cd" i f]
    by (simp add: data_ok_def handlers_def cd'_def)
  moreover have "other_references (JS_DupValue f m1) cd' v = other_references m cd v"
    if v: "JS_VALUE_HAS_REF_COUNT v" for v
  proof -
    have "callback (listeners cd ! i) \<in># mset (map callback (listeners cd))"
      using found by simp
    then show ?thesis
      using m1(3) v found mset_callbacks_update [of i "listeners cd" f]
      by (auto simp: other_references_def ref_count_dup cd'_def of_nat_diff Suc_le_eq)
  qed
  ultimately have "event_on_result c cd name f m
       (update_data c (\<lambda>cd. cd\<lparr>listeners := (listeners cd)[i := (listeners cd ! i)\<lparr>callback := f\<rparr>]\<rparr>)
          (JS_DupValue f m1))"
    unfolding event_on_result_def
    by (intro exI [of _ cd'])
       (simp add: context_data_update m1(2) cd'_def other_references_def)
  then show ?thesis using m1(1) by blast
qed

lemma event_on_adds:
  assumes cd: "context_data c m = Inr cd" and ok: "data_ok cd"
    and new: "find_listener name (listeners cd) = None" and room: "listenerCount cd < MAX_LISTENERS"
  shows "event_on_result c cd name f m
       (update_data c (\<lambda>cd. cd\<lparr>listeners := listeners cd @ [\<lparr>eventName = name, callback = f\<rparr>]\<rparr>)
          (JS_DupValue f m))"
proof -
  define cd' where "cd' = cd\<lparr>listeners := listeners cd @ [\<lparr>eventName = name, callback = f\<rparr>]\<rparr>"
  have n: "name \<notin> eventName ` set (listeners cd)" using new by (simp add: find_listener_None)
  have "data_ok cd'" using ok n room by (simp add: data_ok_def cd'_def)
  moreover have "handlers cd' = (handlers cd)(name \<mapsto> f)"
    using n map_of_snoc [of name "map (\<lambda>l. (eventName l, callback l)) (listeners cd)" f]
    by (simp add: handlers_def cd'_def image_image del: map_of_append)
  ultimately show ?thesis
    unfolding event_on_result_def
    by (intro exI [of _ cd'])
       (simp add: context_data_update cd cd'_def other_references_def ref_count_dup)
qed


end
