(* ===== verification/HostCalls.thy ===== *)
theory HostCalls
  imports HostModule
begin

text \<open>
  The functions of \<open>js.cpp\<close> that Lua calls: \<open>JS_CreateContext\<close>, \<open>JS_FreeContext\<close>, \<open>JS_Eval\<close>,
  \<open>JS_Compile\<close>, \<open>JS_EmitEvent\<close>, \<open>JS_GetOps\<close>, and the closing of the module. They find their
  arguments on the Lua stack, bottom first, and return the number of results they leave on its
  top.

  A pointer to a context is its index in the table; a context that does not exist any more is
  \<open>None\<close> there, and using it is \<open>Undef\<close>, as is reading outside the table.
\<close>

section \<open>The engine\<close>

text \<open>
  What the functions use of QuickJS, and the conversions between \<open>double\<close> and the integer types.
  \<open>to_size\<close> is the conversion to \<open>size_t\<close>, undefined for a number it cannot represent.
\<close>

record ('f, 'w, 'v) engine =
  is_function :: "'w \<Rightarrow> 'f JSValue \<Rightarrow> bool"
  js_call :: "nat \<Rightarrow> 'f JSValue \<Rightarrow> 'f JSValue list \<Rightarrow> ('f, 'w, 'v) js_module
     \<Rightarrow> ('f JSValue \<times> ('f, 'w, 'v) js_module) res"
  js_read_object :: "nat \<Rightarrow> string \<Rightarrow> nat \<Rightarrow> ('f, 'w, 'v) js_module
     \<Rightarrow> ('f JSValue \<times> ('f, 'w, 'v) js_module) res"
  js_eval_function :: "nat \<Rightarrow> 'f JSValue \<Rightarrow> ('f, 'w, 'v) js_module
     \<Rightarrow> ('f JSValue \<times> ('f, 'w, 'v) js_module) res"
  js_compile_only :: "nat \<Rightarrow> string \<Rightarrow> nat \<Rightarrow> ('f, 'w, 'v) js_module
     \<Rightarrow> ('f JSValue \<times> ('f, 'w, 'v) js_module) res"
  js_write_object :: "nat \<Rightarrow> 'f JSValue \<Rightarrow> ('f, 'w, 'v) js_module
     \<Rightarrow> (string option \<times> ('f, 'w, 'v) js_module) res"
  js_get_exception :: "'w \<Rightarrow> 'f JSValue \<times> 'w"
  js_new_runtime :: "'w \<Rightarrow> JSMallocState \<times> 'w"
  js_new_context :: "JSMallocState \<Rightarrow> 'w \<Rightarrow> JSMallocState \<times> 'w"
  js_free_context :: "JSMallocState \<Rightarrow> 'w \<Rightarrow> 'w"
  to_size :: "'f \<Rightarrow> nat option"
  f_of_int :: "int \<Rightarrow> 'f"
  is_zero :: "'f \<Rightarrow> bool"

section \<open>Arguments and results on the Lua stack\<close>

definition Type_None :: int where "Type_None = - 1"
definition Type_Nil :: int where "Type_Nil = 0"
definition Type_Bool :: int where "Type_Bool = 1"
definition Type_Number :: int where "Type_Number = 3"
definition Type_String :: int where "Type_String = 4"
definition Type_Table :: int where "Type_Table = 5"
definition Type_Entity :: int where "Type_Entity = 9"
definition Type_Vector :: int where "Type_Vector = 10"
definition Type_Angle :: int where "Type_Angle = 11"

lemmas lua_types = Type_None_def Type_Nil_def Type_Bool_def Type_Number_def Type_String_def
  Type_Table_def Type_Entity_def Type_Vector_def Type_Angle_def

type_synonym ('f, 'w, 'v) lua_function =
  "('f, 'w, 'v) js_module \<Rightarrow> (nat \<times> ('f, 'w, 'v) js_module) res"

definition on_lua ::
  "('f, 'w, 'v) host \<Rightarrow> 'f lua_op list \<Rightarrow> ('f, 'w, 'v) js_module \<Rightarrow> ('f, 'w, 'v) js_module res" where
  "on_lua H ops m = bnd (lua_run H ops (lua_state m)) (\<lambda>s. Inr (m\<lparr>lua_state := s\<rparr>))"

text \<open>An index above the top of the stack has the type \<open>None\<close>.\<close>

definition type_at :: "('f, 'w, 'v) host \<Rightarrow> ('f, 'w, 'v) js_module \<Rightarrow> int \<Rightarrow> int" where
  "type_at H m i = (case lua_at (snd (lua_state m)) i of Inl e \<Rightarrow> Type_None | Inr v \<Rightarrow> lua_type H v)"

definition CheckType ::
  "('f, 'w, 'v) host \<Rightarrow> int \<Rightarrow> int \<Rightarrow> ('f, 'w, 'v) js_module \<Rightarrow> unit res" where
  "CheckType H i t m = (if type_at H m i = t then Inr () else Inl (Fail ''lua''))"

definition size_argument ::
  "('f, 'w, 'v) host \<Rightarrow> ('f, 'w, 'v) engine \<Rightarrow> int \<Rightarrow> ('f, 'w, 'v) js_module \<Rightarrow> nat res" where
  "size_argument H E i m =
     bnd (GetNumber H (lua_state m) i) (\<lambda>d. case to_size E d of None \<Rightarrow> Inl Undef | Some n \<Rightarrow> Inr n)"

definition answer ::
  "('f, 'w, 'v) host \<Rightarrow> 'f lua_op list \<Rightarrow> nat \<Rightarrow> ('f, 'w, 'v) lua_function" where
  "answer H ops n m = bnd (on_lua H ops m) (\<lambda>m. Inr (n, m))"

definition no_context :: "('f, 'w, 'v) host \<Rightarrow> ('f, 'w, 'v) lua_function" where
  "no_context H =
     answer H [PushNumber (of_int32 H 1), PushString ''Couldn't find that context!''] 2"

text \<open>
  The result of a script as two Lua values: 0 and its string (nil when it has none), or 1 and
  the message of the exception.
\<close>

definition report_result ::
  "('f, 'w, 'v) host \<Rightarrow> ('f, 'w, 'v) engine \<Rightarrow> nat \<Rightarrow> 'f JSValue \<Rightarrow> ('f, 'w, 'v) js_module
     \<Rightarrow> ('f, 'w, 'v) js_module res" where
  "report_result H E c result m =
     (if JS_IsException result then
        let (exception, w) = js_get_exception E (world_of m);
            (error_message, w) = js_to_cstring H w exception; m = set_world w m in
        (case error_message of
           None \<Rightarrow> Inl Undef
         | Some msg \<Rightarrow> bnd (on_lua H [PushNumber (of_int32 H 1), PushString msg] m) (\<lambda>m.
             JS_FreeValue c exception m))
      else
        let (str, w) = js_to_cstring H (world_of m) result; m = set_world w m in
        on_lua H [PushNumber (of_int32 H 0), case str of None \<Rightarrow> PushNil | Some s \<Rightarrow> PushString s] m)"

definition live_context :: "nat \<Rightarrow> ('f, 'w, 'v) js_module \<Rightarrow> 'f JSContext res" where
  "live_context c m =
     bnd (rd (contexts m) c) (\<lambda>ctx. case ctx of None \<Rightarrow> Inl Undef | Some ctx \<Rightarrow> Inr ctx)"

definition reset_ops :: "nat \<Rightarrow> ('f, 'w, 'v) js_module \<Rightarrow> ('f, 'w, 'v) js_module" where
  "reset_ops c m = m\<lparr>contexts := (contexts m)[c := map_option (\<lambda>ctx. set_ops ctx 0) (contexts m ! c)]\<rparr>"

section \<open>Events\<close>

text \<open>One number of the color table at \<open>k\<close>, which is popped again at once.\<close>

definition has_number ::
  "('f, 'w, 'v) host \<Rightarrow> int \<Rightarrow> string \<Rightarrow> ('f, 'w, 'v) js_module \<Rightarrow> (bool \<times> ('f, 'w, 'v) js_module) res" where
  "has_number H k key m =
     bnd (on_lua H [PushString key, GetTable k] m) (\<lambda>m.
       let b = (type_at H m (- 1) = Type_Number) in
       bnd (on_lua H [Pop 1] m) (\<lambda>m. Inr (b, m)))"

text \<open>
  A color: the components are read from the top of the stack, where the fields of the table are
  no more.
\<close>

definition color_argument ::
  "('f, 'w, 'v) host \<Rightarrow> int \<Rightarrow> ('f, 'w, 'v) js_module \<Rightarrow> ('f JSValue \<times> ('f, 'w, 'v) js_module) res" where
  "color_argument H k m =
     bnd (has_number H k ''r'' m) (\<lambda>(hasR, m).
     bnd (has_number H k ''g'' m) (\<lambda>(hasG, m).
     bnd (has_number H k ''b'' m) (\<lambda>(hasB, m).
       if hasR \<and> hasG \<and> hasB then
         let (v, w) = js_new_object H (world_of m) in
         bnd (GetNumber H (lua_state m) (- 3)) (\<lambda>r.
         bnd (GetNumber H (lua_state m) (- 2)) (\<lambda>g.
         bnd (GetNumber H (lua_state m) (- 1)) (\<lambda>b.
           let w = js_set H w v ''r'' (JS_NewFloat64 H r);
               w = js_set H w v ''g'' (JS_NewFloat64 H g);
               w = js_set H w v ''b'' (JS_NewFloat64 H b) in
           bnd (on_lua H [PushString ''a'', GetTable k] (set_world w m)) (\<lambda>m.
           bnd (if type_at H m (- 1) = Type_Number then GetNumber H (lua_state m) (- 1)
                else Inr (of_int32 H 255)) (\<lambda>a.
           bnd (on_lua H [Pop 1] (set_world (js_set H (world_of m) v ''a'' (JS_NewFloat64 H a)) m)) (\<lambda>m.
             Inr (v, m)))))))
       else Inr (JS_NULL, m))))"

text \<open>\<open>EntIndex()\<close> of the entity at \<open>k\<close>; the metatable that was pushed first stays.\<close>

definition entity_number ::
  "('f, 'w, 'v) host \<Rightarrow> int \<Rightarrow> ('f, 'w, 'v) js_module \<Rightarrow> ('f \<times> ('f, 'w, 'v) js_module) res" where
  "entity_number H k m =
     bnd (on_lua H [GetMetaTable k, GetField k ''EntIndex'', Push k, Call 1 1] m) (\<lambda>m.
     bnd (GetNumber H (lua_state m) (- 1)) (\<lambda>index.
     bnd (on_lua H [Pop 1] m) (\<lambda>m. Inr (index, m))))"

definition emit_argument ::
  "('f, 'w, 'v) host \<Rightarrow> ('f, 'w, 'v) engine \<Rightarrow> int \<Rightarrow> ('f, 'w, 'v) js_module
     \<Rightarrow> ('f JSValue \<times> ('f, 'w, 'v) js_module) res" where
  "emit_argument H E k m =
     (let t = type_at H m k in
      if t = Type_Nil then Inr (JS_NULL, m)
      else if t = Type_Bool then
        bnd (GetBool H (lua_state m) k) (\<lambda>b. Inr (JS_NewBool b, m))
      else if t = Type_Number then
        bnd (GetNumber H (lua_state m) k) (\<lambda>d. Inr (JS_NewFloat64 H d, m))
      else if t = Type_String then
        bnd (GetString H (lua_state m) k) (\<lambda>s. Inr (JS_STRING s, m))
      else if t = Type_Table then color_argument H k m
      else if t = Type_Entity then
        bnd (entity_number H k m) (\<lambda>(index, m).
          Inr (if is_zero E index then JS_NULL else JS_NewFloat64 H index, m))
      else if t = Type_Vector then
        bnd (GetVector H (lua_state m) k) (\<lambda>vec.
          let (v, w) = new_vector H (world_of m) vec in Inr (v, set_world w m))
      else if t = Type_Angle then
        bnd (GetAngle H (lua_state m) k) (\<lambda>ang.
          let (v, w) = new_angle H (world_of m) ang in Inr (v, set_world w m))
      else Inr (JS_NULL, m))"

text \<open>A value that is made comes with one reference, which its maker owns.\<close>

definition new_reference :: "'f JSValue \<Rightarrow> ('f, 'w, 'v) js_module \<Rightarrow> ('f, 'w, 'v) js_module" where
  "new_reference v m = JS_DupValue v m"

fun emit_arguments ::
  "('f, 'w, 'v) host \<Rightarrow> ('f, 'w, 'v) engine \<Rightarrow> nat list \<Rightarrow> ('f, 'w, 'v) js_module
     \<Rightarrow> ('f JSValue list \<times> ('f, 'w, 'v) js_module) res" where
  "emit_arguments H E [] m = Inr ([], m)"
| "emit_arguments H E (k # ks) m =
     bnd (emit_argument H E (int k) m) (\<lambda>(v, m).
     bnd (emit_arguments H E ks (new_reference v m)) (\<lambda>(vs, m). Inr (v # vs, m)))"

fun free_values ::
  "nat \<Rightarrow> 'f JSValue list \<Rightarrow> ('f, 'w, 'v) js_module \<Rightarrow> ('f, 'w, 'v) js_module res" where
  "free_values c [] m = Inr m"
| "free_values c (v # vs) m = bnd (JS_FreeValue c v m) (free_values c vs)"

text \<open>
  \<open>JS_Call\<close> takes no reference to the function: when the last one goes during the call, the
  interpreter goes on in freed memory.
\<close>

definition call_listener ::
  "('f, 'w, 'v) engine \<Rightarrow> nat \<Rightarrow> 'f JSValue \<Rightarrow> 'f JSValue list \<Rightarrow> ('f, 'w, 'v) js_module
     \<Rightarrow> ('f JSValue \<times> ('f, 'w, 'v) js_module) res" where
  "call_listener E c f args m =
     bnd (js_call E c f args m) (\<lambda>(result, m).
       if f \<in> released m then Inl Undef else Inr (result, m))"

definition lua_emit_event :: "('f, 'w, 'v) host \<Rightarrow> ('f, 'w, 'v) engine \<Rightarrow> ('f, 'w, 'v) lua_function" where
  "lua_emit_event H E m =
     bnd (CheckType H 1 Type_Number m) (\<lambda>_.
     bnd (CheckType H 2 Type_String m) (\<lambda>_.
     let lua_args = length (snd (lua_state m)) in
     bnd (size_argument H E 1 m) (\<lambda>c.
     bnd (GetString H (lua_state m) 2) (\<lambda>name.
     bnd (rd (contexts m) c) (\<lambda>ctx.
       if c > MAX_CONTEXTS \<or> ctx = None then no_context H m
       else bnd (context_data c m) (\<lambda>contextData.
         case find_listener name (listeners contextData) of
           None \<Rightarrow> answer H [PushNumber (of_int32 H 0), PushNil] 2 m
         | Some i \<Rightarrow>
             let f = callback (listeners contextData ! i) in
             bnd (emit_arguments H E [3 ..< lua_args + 1] m) (\<lambda>(args, m).
             bnd (call_listener E c f args (reset_ops c m)) (\<lambda>(result, m).
             bnd (live_context c m) (\<lambda>_.
             bnd (report_result H E c result m) (\<lambda>m.
             bnd (free_values c args m) (\<lambda>m. Inr (2, m))))))))))))"


section \<open>Contexts\<close>

fun free_slot :: "'a option list \<Rightarrow> nat option" where
  "free_slot [] = None"
| "free_slot (None # xs) = Some 0"
| "free_slot (Some x # xs) = map_option Suc (free_slot xs)"

text \<open>
  \<open>JS_NewRuntime\<close>, \<open>JS_SetMemoryLimit\<close>, \<open>JS_NewContext\<close> and the data attached to the context.
  The objects with the functions scripts call (\<open>entity_members\<close>, \<open>vector_members\<close> and the others)
  are made by \<open>js_new_context\<close>.
\<close>

definition new_context ::
  "('f, 'w, 'v) host \<Rightarrow> ('f, 'w, 'v) engine \<Rightarrow> 'f \<Rightarrow> 'f \<Rightarrow> nat \<Rightarrow> ('f, 'w, 'v) js_module
     \<Rightarrow> ('f, 'w, 'v) js_module" where
  "new_context H E ent_index owner_index i m =
     (let (rt, w) = js_new_runtime E (world_of m);
          rt = rt\<lparr>malloc_limit := 655359\<rparr>;
          (rt, w) = js_new_context E rt w;
          contextData = \<lparr>listeners = [], entIndex = JS_NewFloat64 H ent_index,
                         ownerIndex = JS_NewFloat64 H owner_index\<rparr>;
          ctx = \<lparr>user_opaque = Some contextData, op_count = 0, op_limit = 25000\<rparr>;
          m = set_world w m
      in m\<lparr>contexts := (contexts m)[i := Some ctx], runtimes := (runtimes m)[i := Some rt]\<rparr>)"

text \<open>The owner, which is the chip itself when no entity was passed for it.\<close>

definition owner_number ::
  "('f, 'w, 'v) host \<Rightarrow> 'f \<Rightarrow> ('f, 'w, 'v) js_module \<Rightarrow> ('f \<times> ('f, 'w, 'v) js_module) res" where
  "owner_number H ent_index m =
     (if type_at H m 2 = Type_Entity then entity_number H 2 m else Inr (ent_index, m))"

definition max_contexts_message :: string where
  "max_contexts_message = ''You've hit the max number of javascript contexts!''"

definition lua_create_context :: "('f, 'w, 'v) host \<Rightarrow> ('f, 'w, 'v) engine \<Rightarrow> ('f, 'w, 'v) lua_function" where
  "lua_create_context H E m =
     bnd (CheckType H 1 Type_Entity m) (\<lambda>_.
     bnd (entity_number H 1 m) (\<lambda>(ent_index, m).
     bnd (owner_number H ent_index m) (\<lambda>(owner_index, m).
       if is_zero E ent_index \<or> is_zero E owner_index
       then answer H [PushNumber (of_int32 H 1), PushString ''Invalid entity''] 2 m
       else case free_slot (contexts m) of
         Some i \<Rightarrow>
           answer H [PushNumber (of_int32 H 0), PushNumber (f_of_int E (int i))] 2
             (new_context H E ent_index owner_index i m)
       | None \<Rightarrow>
           answer H [PushNumber (of_int32 H 1),
                     PushString max_contexts_message] 2 m)))"

text \<open>
  A script is run from its bytecode. \<open>JS_EvalFunction\<close> takes the value over; the result belongs
  to the caller.
\<close>

definition lua_eval :: "('f, 'w, 'v) host \<Rightarrow> ('f, 'w, 'v) engine \<Rightarrow> ('f, 'w, 'v) lua_function" where
  "lua_eval H E m =
     bnd (CheckType H 1 Type_Number m) (\<lambda>_.
     bnd (CheckType H 2 Type_Number m) (\<lambda>_.
     bnd (CheckType H 3 Type_String m) (\<lambda>_.
     bnd (size_argument H E 1 m) (\<lambda>c.
     bnd (size_argument H E 2 m) (\<lambda>len.
     bnd (GetString H (lua_state m) 3) (\<lambda>script.
     bnd (rd (contexts m) c) (\<lambda>ctx.
       if c > MAX_CONTEXTS \<or> ctx = None then no_context H m
       else if len < 1
       then answer H [PushNumber (of_int32 H 1),
                      PushString ''Your script has to have at least 1 character!''] 2 m
       else
         bnd (js_read_object E c script len (reset_ops c m)) (\<lambda>(bytecode, m).
         bnd (js_eval_function E c bytecode m) (\<lambda>(result, m).
         bnd (live_context c m) (\<lambda>_.
         bnd (report_result H E c result m) (\<lambda>m.
         bnd (JS_FreeValue c result m) (\<lambda>m. Inr (2, m)))))))))))))"

text \<open>The test of the other functions: the table is read after the number is compared.\<close>

definition with_context ::
  "('f, 'w, 'v) host \<Rightarrow> nat \<Rightarrow> ('f, 'w, 'v) lua_function \<Rightarrow> ('f, 'w, 'v) lua_function" where
  "with_context H c k m =
     (if c > MAX_CONTEXTS then no_context H m
      else bnd (rd (contexts m) c) (\<lambda>ctx. if ctx = None then no_context H m else k m))"

definition lua_get_ops :: "('f, 'w, 'v) host \<Rightarrow> ('f, 'w, 'v) engine \<Rightarrow> ('f, 'w, 'v) lua_function" where
  "lua_get_ops H E m =
     bnd (CheckType H 1 Type_Number m) (\<lambda>_.
     bnd (size_argument H E 1 m) (\<lambda>c.
       with_context H c (\<lambda>m. bnd (live_context c m) (\<lambda>ctx.
         answer H [PushNumber (of_int32 H 0), PushNumber (f_of_int E (get_ops ctx))] 2 m)) m))"

definition lua_compile :: "('f, 'w, 'v) host \<Rightarrow> ('f, 'w, 'v) engine \<Rightarrow> ('f, 'w, 'v) lua_function" where
  "lua_compile H E m =
     bnd (CheckType H 1 Type_Number m) (\<lambda>_.
     bnd (CheckType H 2 Type_Number m) (\<lambda>_.
     bnd (CheckType H 3 Type_String m) (\<lambda>_.
     bnd (size_argument H E 1 m) (\<lambda>c.
     bnd (size_argument H E 2 m) (\<lambda>len.
     bnd (GetString H (lua_state m) 3) (\<lambda>script.
       with_context H c (\<lambda>m.
         if len < 1
         then answer H [PushNumber (of_int32 H 1),
                        PushString ''Your script has to have at least 1 character!''] 2 m
         else bnd (js_compile_only E c script len m) (\<lambda>(result, m).
           bnd (if JS_IsException result then
                  let (exception, w) = js_get_exception E (world_of m);
                      (error_message, w) = js_to_cstring H w exception; m = set_world w m in
                  (case error_message of
                     None \<Rightarrow> Inl Undef
                   | Some msg \<Rightarrow>
                       bnd (on_lua H [PushNumber (of_int32 H 1), PushString msg, PushNil] m) (\<lambda>m.
                         JS_FreeValue c exception m))
                else bnd (js_write_object E c result m) (\<lambda>(bytecode, m).
                  (case bytecode of
                     None \<Rightarrow> Inl Undef
                   | Some code \<Rightarrow>
                       on_lua H [PushNumber (of_int32 H 0), PushString code,
                                 PushNumber (f_of_int E (int (length code)))] m))) (\<lambda>m.
           bnd (JS_FreeValue c result m) (\<lambda>m. Inr (3, m))))) m))))))"

definition lua_free_context :: "('f, 'w, 'v) host \<Rightarrow> ('f, 'w, 'v) engine \<Rightarrow> ('f, 'w, 'v) lua_function" where
  "lua_free_context H E m =
     bnd (CheckType H 1 Type_Number m) (\<lambda>_.
     bnd (size_argument H E 1 m) (\<lambda>c.
       with_context H c (\<lambda>m.
         bnd (context_data c m) (\<lambda>contextData.
         bnd (free_values c (map callback (listeners contextData)) m) (\<lambda>m.
         bnd (rd (runtimes m) c) (\<lambda>rt. case rt of
             None \<Rightarrow> Inl Undef
           | Some rt \<Rightarrow>
               let m = set_world (js_free_context E rt (world_of m)) m;
                   m = m\<lparr>contexts := (contexts m)[c := None], runtimes := (runtimes m)[c := None]\<rparr>
               in answer H [PushNumber (of_int32 H 0), PushNil] 2 m)))) m))"

section \<open>Opening and closing the module\<close>

text \<open>The tables are global variables of C, which start out null.\<close>

definition module_start :: "('w, 'v) lua \<Rightarrow> ('f, 'w, 'v) js_module" where
  "module_start s = \<lparr>contexts = replicate MAX_CONTEXTS None, runtimes = replicate MAX_CONTEXTS None,
     lua_state = s, ref_count = (\<lambda>v. 0), released = {}\<rparr>"

definition module_open :: "('f, 'w, 'v) host \<Rightarrow> ('f, 'w, 'v) lua_function" where
  "module_open H m =
     bnd (on_lua H [PushSpecial,
            PushCFunction ''lua_create_context'', SetField (- 2) ''JS_CreateContext'',
            PushCFunction ''lua_free_context'', SetField (- 2) ''JS_FreeContext'',
            PushCFunction ''lua_eval'', SetField (- 2) ''JS_Eval'',
            PushCFunction ''lua_compile'', SetField (- 2) ''JS_Compile'',
            PushCFunction ''lua_emit_event'', SetField (- 2) ''JS_EmitEvent'',
            PushCFunction ''lua_get_ops'', SetField (- 2) ''JS_GetOps'', Pop 1] m) (\<lambda>m.
     bnd (lua_printf H ''Opened JS module...'' (lua_state m)) (\<lambda>s. Inr (0, m\<lparr>lua_state := s\<rparr>)))"

text \<open>
  The inner loop of \<open>GMOD_MODULE_CLOSE\<close> has a counter of its own with the name of the outer
  one: the callback of listener \<open>j\<close> is freed in the context of index \<open>j\<close>, not in its own.
\<close>

fun close_listeners ::
  "'f EventListener list \<Rightarrow> nat \<Rightarrow> ('f, 'w, 'v) js_module \<Rightarrow> ('f, 'w, 'v) js_module res" where
  "close_listeners [] j m = Inr m"
| "close_listeners (l # ls) j m =
     bnd (rd (contexts m) j) (\<lambda>_. bnd (JS_FreeValue j (callback l) m) (close_listeners ls (j + 1)))"

fun close_contexts :: "nat list \<Rightarrow> ('f, 'w, 'v) js_module \<Rightarrow> ('f, 'w, 'v) js_module res" where
  "close_contexts [] m = Inr m"
| "close_contexts (i # js) m =
     bnd (rd (contexts m) i) (\<lambda>ctx. case ctx of
         None \<Rightarrow> close_contexts js m
       | Some _ \<Rightarrow>
           bnd (context_data i m) (\<lambda>contextData.
           bnd (close_listeners (listeners contextData) 0 m) (\<lambda>m.
           bnd (JS_FreeValue i (entIndex contextData) m) (\<lambda>m.
           bnd (JS_FreeValue i (ownerIndex contextData) m) (\<lambda>m.
             close_contexts js (m\<lparr>contexts := (contexts m)[i := None]\<rparr>))))))"

definition module_close :: "('f, 'w, 'v) host \<Rightarrow> ('f, 'w, 'v) engine \<Rightarrow> ('f, 'w, 'v) lua_function" where
  "module_close H E m =
     bnd (close_contexts [0 ..< MAX_CONTEXTS] m) (\<lambda>m.
       let rts = runtimes m;
           w = fold (\<lambda>rt w. case rt of None \<Rightarrow> w | Some rt \<Rightarrow> js_free_context E rt w) rts (world_of m) in
       bnd (lua_printf H ''Closed JS module...'' (w, snd (lua_state m))) (\<lambda>s.
         Inr (0, m\<lparr>lua_state := s\<rparr>)))"

section \<open>The tables\<close>

text \<open>
  A context exists exactly where its runtime does, and has its data, with at most ten events of
  distinct names.
\<close>

definition tables_ok :: "'f JSContext option list \<Rightarrow> JSMallocState option list \<Rightarrow> bool" where
  "tables_ok cs rs \<longleftrightarrow>
     length cs = MAX_CONTEXTS \<and> length rs = MAX_CONTEXTS \<and>
     (\<forall>i < MAX_CONTEXTS. cs ! i = None \<longleftrightarrow> rs ! i = None) \<and>
     (\<forall>i < MAX_CONTEXTS. \<forall>ctx. cs ! i = Some ctx \<longrightarrow>
        (\<exists>cd. user_opaque ctx = Some cd \<and> data_ok cd))"

definition module_ok :: "('f, 'w, 'v) js_module \<Rightarrow> bool" where
  "module_ok m \<longleftrightarrow> tables_ok (contexts m) (runtimes m)"

lemma nth_update: "j < length xs \<Longrightarrow> xs[i := v] ! j = (if i = j then v else xs ! j)"
  by (cases "i < length xs") auto

lemma tables_ok_set:
  assumes "tables_ok cs rs" and "user_opaque ctx = Some cd" and "data_ok cd"
  shows "tables_ok (cs[i := Some ctx]) (rs[i := Some rt])"
  using assms by (auto simp: tables_ok_def nth_update split: if_splits)

lemma tables_ok_clear:
  assumes "tables_ok cs rs"
  shows "tables_ok (cs[i := None]) (rs[i := None])"
  using assms by (auto simp: tables_ok_def nth_update split: if_splits)

lemma on_lua_only_stack:
  assumes "on_lua H ops m = Inr m'"
  shows "contexts m' = contexts m" and "runtimes m' = runtimes m"
    and "ref_count m' = ref_count m" and "released m' = released m"
  using assms by (auto simp: on_lua_def bnd_eq_Inr)

lemma entity_number_only_stack:
  assumes "entity_number H k m = Inr (d, m')"
  shows "contexts m' = contexts m" and "runtimes m' = runtimes m"
  using assms unfolding entity_number_def on_lua_def bnd_eq_Inr
  by auto

lemma free_slot_Some:
  "free_slot xs = Some i \<Longrightarrow> i < length xs \<and> xs ! i = None \<and> (\<forall>j < i. xs ! j \<noteq> None)"
proof (induction xs arbitrary: i rule: free_slot.induct)
  case (3 x xs)
  then show ?case by (auto simp: less_Suc_eq_0_disj nth_Cons split: nat.split)
qed auto

lemma free_slot_None: "free_slot xs = None \<longleftrightarrow> None \<notin> set xs"
  by (induction xs rule: free_slot.induct) auto

lemma module_start_ok: "module_ok (module_start s)"
  by (simp add: module_ok_def tables_ok_def module_start_def)

text \<open>Pushing numbers, strings and nil always works.\<close>

fun is_push :: "'f lua_op \<Rightarrow> bool" where
  "is_push (PushNumber d) = True"
| "is_push (PushString s) = True"
| "is_push PushNil = True"
| "is_push op = False"

fun pushed :: "('f, 'w, 'v) host \<Rightarrow> 'f lua_op \<Rightarrow> 'v" where
  "pushed H (PushNumber d) = lua_number H d"
| "pushed H (PushString s) = lua_string H s"
| "pushed H op = lua_nil H"

lemma lua_run_pushes:
  "list_all is_push ops \<Longrightarrow> lua_run H ops (w, st) = Inr (w, rev (map (pushed H) ops) @ st)"
proof (induction ops arbitrary: st)
  case (Cons op ops)
  then show ?case by (cases op) (simp_all add: lua_run.simps)
qed (simp add: lua_run.simps)

definition push_all :: "'v list \<Rightarrow> ('f, 'w, 'v) js_module \<Rightarrow> ('f, 'w, 'v) js_module" where
  "push_all vs m = m\<lparr>lua_state := (world_of m, rev vs @ snd (lua_state m))\<rparr>"

lemma answer_pushes:
  "list_all is_push ops \<Longrightarrow> answer H ops n m = Inr (n, push_all (map (pushed H) ops) m)"
  by (cases "lua_state m") (simp add: answer_def on_lua_def lua_run_pushes push_all_def)

lemma push_all_tables [simp]:
  "contexts (push_all vs m) = contexts m" "runtimes (push_all vs m) = runtimes m"
  by (simp_all add: push_all_def)

text \<open>The context and runtime that \<open>JS_CreateContext\<close> makes.\<close>

definition fresh_context :: "('f, 'w, 'v) host \<Rightarrow> 'f \<Rightarrow> 'f \<Rightarrow> 'f JSContext" where
  "fresh_context H ent_index owner_index =
     \<lparr>user_opaque = Some \<lparr>listeners = [], entIndex = JS_NewFloat64 H ent_index,
                      ownerIndex = JS_NewFloat64 H owner_index\<rparr>,
      op_count = 0, op_limit = 25000\<rparr>"

lemma new_context_tables:
  "contexts (new_context H E e u i m) = (contexts m)[i := Some (fresh_context H e u)]"
  "\<exists>rt. runtimes (new_context H E e u i m) = (runtimes m)[i := Some rt]"
  by (simp_all add: new_context_def fresh_context_def Let_def split_def) (rule exI, rule refl)

text \<open>C1.
  \<open>JS_CreateContext\<close> with valid entities, on consistent tables: it takes the first free slot for a
  context without events and with the limit of 25000 operations, and returns 0 and the index of
  the slot; when all 128 are taken it returns 1 and a message and changes no table. The tables
  stay consistent.
\<close>
theorem create_context_allocates:
  assumes "module_ok m" and "type_at H m 1 = Type_Entity"
    and "entity_number H 1 m = Inr (e, m1)"
    and "owner_number H e m1 = Inr (u, m2)"
    and "\<not> is_zero E e" and "\<not> is_zero E u"
  shows "\<exists>m'. lua_create_context H E m = Inr (2, m') \<and> module_ok m' \<and>
    (if None \<in> set (contexts m)
     then \<exists>i rt. i < MAX_CONTEXTS \<and> contexts m ! i = None \<and> (\<forall>j < i. contexts m ! j \<noteq> None) \<and>
            contexts m' = (contexts m)[i := Some (fresh_context H e u)] \<and>
            runtimes m' = (runtimes m)[i := Some rt] \<and>
            take 2 (snd (lua_state m')) = [lua_number H (f_of_int E (int i)), lua_number H (of_int32 H 0)]
     else contexts m' = contexts m \<and> runtimes m' = runtimes m \<and>
          take 2 (snd (lua_state m')) =
            [lua_string H max_contexts_message,
             lua_number H (of_int32 H 1)])"
proof -
  have t1: "contexts m1 = contexts m \<and> runtimes m1 = runtimes m"
    using entity_number_only_stack [OF assms(3)] by simp
  have t2: "contexts m2 = contexts m \<and> runtimes m2 = runtimes m"
    using assms(4) t1 entity_number_only_stack [of H 2 m1 u m2]
    by (auto simp: owner_number_def split: if_splits)
  have run: "lua_create_context H E m = (case free_slot (contexts m) of
         Some i \<Rightarrow> answer H [PushNumber (of_int32 H 0), PushNumber (f_of_int E (int i))] 2
             (new_context H E e u i m2)
       | None \<Rightarrow> answer H [PushNumber (of_int32 H 1),
                     PushString max_contexts_message] 2 m2)"
    using assms t2 by (simp add: lua_create_context_def CheckType_def)
  show ?thesis
  proof (cases "free_slot (contexts m)")
    case None
    then have "None \<notin> set (contexts m)" by (simp add: free_slot_None)
    then show ?thesis
      using assms(1) t2 None by (simp add: run answer_pushes push_all_def module_ok_def)
  next
    case (Some i)
    obtain rt where rt: "runtimes (new_context H E e u i m2) = (runtimes m)[i := Some rt]"
      using new_context_tables(2) [of H E e u i m2] t2 by auto
    have "length (contexts m) = MAX_CONTEXTS" using assms(1) by (simp add: module_ok_def tables_ok_def)
    then have slot: "i < MAX_CONTEXTS" "contexts m ! i = None" "\<forall>j < i. contexts m ! j \<noteq> None"
      using free_slot_Some [OF Some] by simp_all
    moreover have "None \<in> set (contexts m)" using Some free_slot_None [of "contexts m"] by auto
    moreover have "tables_ok ((contexts m)[i := Some (fresh_context H e u)]) ((runtimes m)[i := Some rt])"
      using assms(1) by (intro tables_ok_set; (simp add: module_ok_def fresh_context_def)?) (simp add: data_ok_def)
    ultimately show ?thesis
      using t2 new_context_tables(1) [of H E e u i m2] rt Some
      by (auto simp: run answer_pushes module_ok_def push_all_def)
  qed
qed


lemma create_then_clear:
  assumes "cs ! i = None" and "i < length cs"
  shows "cs[i := Some ctx, i := None] = cs"
  using assms by (simp add: list_update_same_conv)

lemma free_values_ok:
  assumes "context_data c m = Inr cd"
  shows "\<exists>m'. free_values c vs m = Inr m' \<and> context_data c m' = Inr cd \<and>
           contexts m' = contexts m \<and> runtimes m' = runtimes m \<and> lua_state m' = lua_state m \<and>
           (\<forall>u. JS_VALUE_HAS_REF_COUNT u \<longrightarrow>
              ref_count m' u = ref_count m u - int (count (mset vs) u))"
  using assms
proof (induction vs arbitrary: m)
  case (Cons v vs)
  obtain m1 where m1: "JS_FreeValue c v m = Inr m1" "context_data c m1 = Inr cd"
    "contexts m1 = contexts m" "runtimes m1 = runtimes m" "lua_state m1 = lua_state m"
    "\<forall>u. JS_VALUE_HAS_REF_COUNT u \<longrightarrow> ref_count m1 u = ref_count m u - (if u = v then 1 else 0)"
    using JS_FreeValue_ok [OF Cons.prems] by blast
  from Cons.IH [OF m1(2)] show ?case
    using m1 by auto
qed simp

lemma module_ok_data:
  assumes "module_ok m" and "c < MAX_CONTEXTS" and "contexts m ! c \<noteq> None"
  obtains cd rt where "context_data c m = Inr cd" and "data_ok cd" and "rd (contexts m) c = Inr (contexts m ! c)"
    and "rd (runtimes m) c = Inr (Some rt)"
proof -
  obtain ctx where ctx: "contexts m ! c = Some ctx" using assms(3) by blast
  then obtain cd where cd: "user_opaque ctx = Some cd" "data_ok cd"
    using assms(1,2) unfolding module_ok_def tables_ok_def by blast
  obtain rt where "runtimes m ! c = Some rt"
    using assms by (auto simp: module_ok_def tables_ok_def)
  then show ?thesis
    using assms(1,2) ctx cd that [of cd rt]
    by (simp add: module_ok_def tables_ok_def context_data_def)
qed


text \<open>C6.
  The tests of the context number, with the number 128 and above. \<open>JS_EmitEvent\<close> and \<open>JS_Eval\<close> read
  the table before they compare, so every such number reads outside it; \<open>JS_GetOps\<close>,
  \<open>JS_Compile\<close> and \<open>JS_FreeContext\<close> report it, except 128 itself, which passes the comparison.
\<close>
theorem context_number_tests:
  assumes "length (contexts m) = MAX_CONTEXTS" and "c \<ge> MAX_CONTEXTS"
    and "type_at H m 1 = Type_Number" and "size_argument H E 1 m = Inr c"
  shows "(type_at H m 2 = Type_String \<and> GetString H (lua_state m) 2 = Inr name \<longrightarrow>
            lua_emit_event H E m = Inl Undef) \<and>
         (type_at H m 2 = Type_Number \<and> type_at H m 3 = Type_String \<and>
            size_argument H E 2 m = Inr len \<and> GetString H (lua_state m) 3 = Inr script \<longrightarrow>
            lua_eval H E m = Inl Undef \<and>
            lua_compile H E m = (if c = MAX_CONTEXTS then Inl Undef else no_context H m)) \<and>
         lua_get_ops H E m = (if c = MAX_CONTEXTS then Inl Undef else no_context H m) \<and>
         lua_free_context H E m = (if c = MAX_CONTEXTS then Inl Undef else no_context H m)"
proof -
  have rd: "rd (contexts m) c = Inl Undef" using assms(1,2) by (simp add: rd_def)
  have emit: "lua_emit_event H E m = Inl Undef"
    if "type_at H m 2 = Type_String" "GetString H (lua_state m) 2 = Inr name"
    using that assms(3,4) rd by (simp add: lua_emit_event_def CheckType_def Let_def)
  have wc: "with_context H c k m = (if c = MAX_CONTEXTS then Inl Undef else no_context H m)" for k
    using rd assms(2) by (auto simp: with_context_def)
  show ?thesis
    using emit assms(3,4) rd
    by (simp add: lua_eval_def lua_compile_def lua_get_ops_def lua_free_context_def CheckType_def wc)
qed


end
