(* ===== verification/HostFaults.thy ===== *)
theory HostFaults
  imports HostCalls
begin

text \<open>
  The functions of the module on concrete states: the theorems of \<open>HostModule\<close> and \<open>HostCalls\<close>
  applied, and three calls that go wrong.
\<close>

section \<open>A small engine\<close>

text \<open>
  A script of this engine, when it is called, registers the object 9 for the event \<open>tick\<close>.
\<close>

definition demo_engine :: "(int, demo, demo_lua) engine" where
  "demo_engine = \<lparr>
     is_function = (\<lambda>w v. JS_IsObject v),
     js_call = (\<lambda>c f args m.
       event_on demo_host (\<lambda>w v. JS_IsObject v) c 2 [JS_STRING ''tick'', JS_OBJECT 9] m),
     js_read_object = (\<lambda>c script len m. Inr (JS_NULL, m)),
     js_eval_function = (\<lambda>c v m. Inr (JS_UNDEFINED, m)),
     js_compile_only = (\<lambda>c script len m. Inr (JS_NULL, m)),
     js_write_object = (\<lambda>c v m. Inr (Some ''code'', m)),
     js_get_exception = (\<lambda>w. (JS_NULL, w)),
     js_new_runtime = (\<lambda>w. (\<lparr>malloc_count = 0, malloc_size = 0, malloc_limit = 0\<rparr>, w)),
     js_new_context = (\<lambda>rt w. (rt, w)),
     js_free_context = (\<lambda>rt w. w),
     to_size = (\<lambda>d. if d < 0 then None else Some (nat d)),
     f_of_int = (\<lambda>i. i),
     is_zero = (\<lambda>d. d = 0) \<rparr>"

lemma demo_engine_simps [simp]:
  "is_function demo_engine = (\<lambda>w v. JS_IsObject v)"
  "js_call demo_engine = (\<lambda>c f args m.
       event_on demo_host (\<lambda>w v. JS_IsObject v) c 2 [JS_STRING ''tick'', JS_OBJECT 9] m)"
  "js_read_object demo_engine = (\<lambda>c script len m. Inr (JS_NULL, m))"
  "js_eval_function demo_engine = (\<lambda>c v m. Inr (JS_UNDEFINED, m))"
  "js_compile_only demo_engine = (\<lambda>c script len m. Inr (JS_NULL, m))"
  "js_write_object demo_engine = (\<lambda>c v m. Inr (Some ''code'', m))"
  "js_get_exception demo_engine = (\<lambda>w. (JS_NULL, w))"
  "js_new_runtime demo_engine = (\<lambda>w. (\<lparr>malloc_count = 0, malloc_size = 0, malloc_limit = 0\<rparr>, w))"
  "js_new_context demo_engine = (\<lambda>rt w. (rt, w))"
  "js_free_context demo_engine = (\<lambda>rt w. w)"
  "to_size demo_engine = (\<lambda>d. if d < 0 then None else Some (nat d))"
  "f_of_int demo_engine = (\<lambda>i. i)"
  "is_zero demo_engine = (\<lambda>d. d = 0)"
  by (simp_all add: demo_engine_def)

definition empty_module :: "demo_lua list \<Rightarrow> (int, demo, demo_lua) js_module" where
  "empty_module st = module_start (demo_start, st)"

text \<open>One context, in slot 1, whose listener holds the only reference to the object 7.\<close>

definition demo_context :: "int JSContext" where
  "demo_context = \<lparr>user_opaque = Some
     \<lparr>listeners = [\<lparr>eventName = ''tick'', callback = JS_OBJECT 7\<rparr>],
      entIndex = JS_INT 1, ownerIndex = JS_INT 3\<rparr>, op_count = 0, op_limit = 25000\<rparr>"

definition one_context :: "demo_lua list \<Rightarrow> (int, demo, demo_lua) js_module" where
  "one_context st = (empty_module st)\<lparr>
     contexts := (replicate MAX_CONTEXTS None)[1 := Some demo_context],
     runtimes := (replicate MAX_CONTEXTS None)[1 := Some \<lparr>malloc_count = 0, malloc_size = 0, malloc_limit = 655359\<rparr>],
     ref_count := (\<lambda>v. 0)(JS_OBJECT 7 := 1)\<rparr>"

lemma empty_module_ok: "module_ok (empty_module st)"
  by (simp add: module_ok_def tables_ok_def empty_module_def module_start_def)

lemma one_context_ok: "module_ok (one_context st)"
  by (auto simp: module_ok_def tables_ok_def one_context_def empty_module_def module_start_def nth_update
      demo_context_def data_ok_def MAX_LISTENERS_def)

lemmas demo_run = lua_run.simps on_lua_def type_at_def lua_at_def rd_def CheckType_def
  size_argument_def GetNumber_def GetString_def lua_error_def lua_types

lemma demo_entity_number:
  "entity_number demo_host 1 (empty_module [DEntity 2]) =
     Inr (2, set_world (demo_start\<lparr>game_log := [''EntIndex'']\<rparr>) (empty_module [DNil, DEntity 2]))"
  by (simp add: entity_number_def demo_run empty_module_def module_start_def demo_defs demo_start_def)

lemma create_context_allocates_witness:
  "\<exists>m' i rt. lua_create_context demo_host demo_engine (empty_module [DEntity 2]) = Inr (2, m') \<and>
     runtimes m' = (runtimes (empty_module [DEntity 2]))[i := Some rt]"
proof -
  have "type_at demo_host (empty_module [DEntity 2]) 1 = Type_Entity"
    by (simp add: demo_run empty_module_def module_start_def demo_defs)
  moreover have "owner_number demo_host 2 (set_world (demo_start\<lparr>game_log := [''EntIndex'']\<rparr>)
       (empty_module [DNil, DEntity 2])) = Inr (2, set_world (demo_start\<lparr>game_log := [''EntIndex'']\<rparr>)
       (empty_module [DNil, DEntity 2]))"
    by (simp add: owner_number_def demo_run empty_module_def module_start_def demo_defs)
  moreover have "None \<in> set (contexts (empty_module [DEntity 2]))"
    by (simp add: empty_module_def module_start_def MAX_CONTEXTS_def)
  ultimately show ?thesis
    using create_context_allocates [OF empty_module_ok _ demo_entity_number, of 2 _ demo_engine]
    by simp blast
qed


lemma context_number_tests_witness:
  "lua_get_ops demo_host demo_engine (empty_module [DNumber 128]) = Inl Undef \<and>
   lua_free_context demo_host demo_engine (empty_module [DNumber 128]) = Inl Undef"
  using context_number_tests [of "empty_module [DNumber 128]" 128 demo_host demo_engine]
  by (simp add: demo_run empty_module_def module_start_def demo_defs MAX_CONTEXTS_def)

lemma one_context_simps:
  "contexts (one_context st) = (replicate MAX_CONTEXTS None)[1 := Some demo_context]"
  "lua_state (one_context st) = (demo_start, st)"
  by (simp_all add: one_context_def empty_module_def module_start_def)

lemma one_context_data:
  "context_data 1 (one_context st) = Inr \<lparr>listeners = [\<lparr>eventName = ''tick'', callback = JS_OBJECT 7\<rparr>],
     entIndex = JS_INT 1, ownerIndex = JS_INT 3\<rparr>"
  by (simp add: context_data_def one_context_simps demo_context_def MAX_CONTEXTS_def)



section \<open>Three calls that go wrong\<close>

text \<open>
  A color passed to \<open>JS_EmitEvent\<close> does not reach the script: after the tests of the table the
  components are read from the last three values on the stack. The call with context 1, an
  event and the color (10, 20, 30) passes the context number as red, and 0 as green and blue.
\<close>
theorem color_argument_reads_stack:
  "\<exists>m'. color_argument demo_host 3
          ((one_context [DTable 0, DString ''paint'', DNumber 1])\<lparr>lua_state :=
             (demo_start\<lparr>tables := [[(''r'', DNumber 10), (''g'', DNumber 20), (''b'', DNumber 30)]]\<rparr>,
              [DTable 0, DString ''paint'', DNumber 1])\<rparr>) = Inr (JS_OBJECT 0, m') \<and>
        objects (world_of m') =
          [[(''a'', JS_INT 255), (''b'', JS_INT 0), (''g'', JS_INT 0), (''r'', JS_INT 1)]]"
  by (simp add: color_argument_def has_number_def demo_run demo_defs demo_start_def
      JS_NewFloat64_def)


text \<open>
  Closing the module when the only context is in slot 1: its listener is freed in the context of
  slot 0, which does not exist.
\<close>
theorem close_uses_wrong_context:
  "module_close demo_host demo_engine (one_context []) = Inl Undef"
proof -
  have small: "0 < MAX_CONTEXTS" "Suc 0 < MAX_CONTEXTS" by (simp_all add: MAX_CONTEXTS_def)
  then have "[0 ..< MAX_CONTEXTS] = 0 # Suc 0 # [2 ..< MAX_CONTEXTS]"
    by (simp only: upt_conv_Cons numeral_2_eq_2)
  then show ?thesis
    using one_context_data [of "[]"] small
    by (simp add: module_close_def JS_FreeValue_def JS_VALUE_HAS_REF_COUNT_def Let_def
        one_context_def empty_module_def module_start_def rd_def)
qed

end
